(* ===== verification/Js_Prelude.thy ===== *)
theory Js_Prelude
  imports Complex_Main "HOL-Library.Word"
begin

unbundle bit_operations_syntax

text \<open>
  What every component shares: the errors a piece of JavaScript can end in, results as a
  sum type with sequencing, the 32-bit integer operators of the language
  (ECMA-262 ToInt32, \<open>&\<close>, \<open>|\<close>, \<open>^\<close>, \<open>~\<close>, \<open><<\<close>, \<open>>>\<close>,
  \<open>>>>\<close>) on the integers that a JavaScript number holds exactly, and general lemmas.
\<close>

named_theorems js_defs \<open>unfolding rules for the primitive operations of the model\<close>

section \<open>Results\<close>

text \<open>
  A call either returns or throws. \<open>SyntaxError\<close> is thrown by \<open>eval\<close> and \<open>RegExp\<close>, \<open>RangeError\<close> by \<open>Array\<close> for a negative length. \<open>TypeError\<close> is a property access on \<open>null\<close> or
  \<open>undefined\<close>, \<open>ReferenceError\<close> the use of an undeclared variable, \<open>Thrown\<close> a
  \<open>throw new Error(...)\<close> of the source with its message, \<open>ThrownNum\<close> one whose message is
  a text followed by a number, and \<open>OutOfFuel\<close> stands for a loop that the given amount of
  fuel did not finish.
\<close>

datatype js_error = TypeError | ReferenceError | SyntaxError | RangeError | Thrown string | ThrownNum string rat | OutOfFuel

type_synonym 'a res = "js_error + 'a"

definition ok :: "'a \<Rightarrow> 'a res" where
  "ok x = Inr x"

definition throw :: "js_error \<Rightarrow> 'a res" where
  "throw e = Inl e"

fun rbind :: "'a res \<Rightarrow> ('a \<Rightarrow> 'b res) \<Rightarrow> 'b res" where
  "rbind (Inl e) f = Inl e"
| "rbind (Inr x) f = f x"

text \<open>Reading through a reference that may be \<open>null\<close>.\<close>

fun deref :: "'a option \<Rightarrow> 'a res" where
  "deref None = Inl TypeError"
| "deref (Some a) = Inr a"

declare ok_def [js_defs, simp] throw_def [js_defs, simp]

lemma rbind_Inr_iff: "rbind m f = Inr y \<longleftrightarrow> (\<exists>x. m = Inr x \<and> f x = Inr y)"
  by (cases m) auto

lemma rbind_Inl_iff: "rbind m f = Inl e \<longleftrightarrow> m = Inl e \<or> (\<exists>x. m = Inr x \<and> f x = Inl e)"
  by (cases m) auto

lemma rbind_assoc: "rbind (rbind m f) g = rbind m (\<lambda>x. rbind (f x) g)"
  by (cases m) auto

lemma rbind_cong [fundef_cong]:
  "m = m' \<Longrightarrow> (\<And>x. m' = Inr x \<Longrightarrow> f x = f' x) \<Longrightarrow> rbind m f = rbind m' f'"
  by (cases m') auto

lemma deref_Inr_iff: "deref p = Inr a \<longleftrightarrow> p = Some a"
  by (cases p) auto

section \<open>The 32-bit operators\<close>

definition toInt32 :: "int \<Rightarrow> int" where
  "toInt32 x = signed_take_bit 31 x"

definition toUint32 :: "int \<Rightarrow> int" where
  "toUint32 x = take_bit 32 x"

definition js_and :: "int \<Rightarrow> int \<Rightarrow> int" where
  "js_and x y = toInt32 x AND toInt32 y"

definition js_or :: "int \<Rightarrow> int \<Rightarrow> int" where
  "js_or x y = toInt32 x OR toInt32 y"

definition js_xor :: "int \<Rightarrow> int \<Rightarrow> int" where
  "js_xor x y = toInt32 x XOR toInt32 y"

definition js_not :: "int \<Rightarrow> int" where
  "js_not x = NOT (toInt32 x)"

definition js_shl :: "int \<Rightarrow> int \<Rightarrow> int" where
  "js_shl x n = toInt32 (push_bit (nat (n mod 32)) (toInt32 x))"

definition js_shr :: "int \<Rightarrow> int \<Rightarrow> int" where
  "js_shr x n = drop_bit (nat (n mod 32)) (toInt32 x)"

definition js_ushr :: "int \<Rightarrow> int \<Rightarrow> int" where
  "js_ushr x n = drop_bit (nat (n mod 32)) (toUint32 x)"

text \<open>An integer that fits in 32 bits is its own \<open>ToInt32\<close>.\<close>

definition is_int32 :: "int \<Rightarrow> bool" where
  "is_int32 x \<longleftrightarrow> - (2 ^ 31) \<le> x \<and> x < 2 ^ 31"

lemma toInt32_id: "- (2 ^ 31) \<le> x \<Longrightarrow> x < 2 ^ 31 \<Longrightarrow> toInt32 x = x"
  by (simp add: toInt32_def signed_take_bit_int_eq_self)

lemma toInt32_int32 [simp]: "is_int32 x \<Longrightarrow> toInt32 x = x"
  by (simp add: is_int32_def toInt32_id)

lemma is_int32_toInt32 [simp]: "is_int32 (toInt32 x)"
  using signed_take_bit_int_greater_eq_minus_exp [of 31 x] signed_take_bit_int_less_exp [of 31 x]
  by (simp add: is_int32_def toInt32_def)

lemma toInt32_word: "toInt32 x = sint (word_of_int x :: 32 word)"
  by (simp add: toInt32_def sint_sbintrunc')

lemma toUint32_word: "toUint32 x = uint (word_of_int x :: 32 word)"
  by (simp add: toUint32_def uint_word_of_int take_bit_eq_mod)

lemma word_of_toInt32 [simp]: "(word_of_int (toInt32 x) :: 32 word) = word_of_int x"
  by (simp add: toInt32_word)

lemma word_of_toUint32 [simp]: "(word_of_int (toUint32 x) :: 32 word) = word_of_int x"
  by (simp add: toUint32_word)

lemma sint_bit_ops:
  fixes a b :: "32 word"
  shows "sint (a AND b) = sint a AND sint b" "sint (a OR b) = sint a OR sint b"
    "sint (a XOR b) = sint a XOR sint b" "sint (NOT a) = NOT (sint a)"
  by (simp_all add: bit_eq_iff bit_simps) (auto simp: min_def)

lemma js_and_word: "js_and x y = sint (word_of_int x AND word_of_int y :: 32 word)"
  by (simp add: js_and_def toInt32_word sint_bit_ops)

lemma js_or_word: "js_or x y = sint (word_of_int x OR word_of_int y :: 32 word)"
  by (simp add: js_or_def toInt32_word sint_bit_ops)

lemma js_xor_word: "js_xor x y = sint (word_of_int x XOR word_of_int y :: 32 word)"
  by (simp add: js_xor_def toInt32_word sint_bit_ops)

lemma js_not_word: "js_not x = sint (NOT (word_of_int x) :: 32 word)"
  by (simp add: js_not_def toInt32_word sint_bit_ops)

lemma js_shl_word:
  "js_shl x n = sint (push_bit (nat (n mod 32)) (word_of_int x) :: 32 word)"
proof -
  have "(word_of_int (push_bit m (toInt32 x)) :: 32 word) = push_bit m (word_of_int x)" for m
    by (simp add: push_bit_eq_mult flip: wi_hom_mult)
  then show ?thesis by (simp add: js_shl_def toInt32_word)
qed

lemma js_ushr_word:
  "js_ushr x n = uint (drop_bit (nat (n mod 32)) (word_of_int x) :: 32 word)"
  by (simp add: js_ushr_def toUint32_word bit_eq_iff bit_simps)

lemma js_shr_word:
  "js_shr x n = sint (signed_drop_bit (nat (n mod 32)) (word_of_int x) :: 32 word)"
  by (simp add: js_shr_def toInt32_word sint_signed_drop_bit_eq)

lemma js_shr_div: "is_int32 x \<Longrightarrow> 0 \<le> n \<Longrightarrow> n < 32 \<Longrightarrow> js_shr x n = x div 2 ^ nat n"
  by (simp add: js_shr_def drop_bit_eq_div)

lemma js_shl_mult: "is_int32 (x * 2 ^ nat n) \<Longrightarrow> is_int32 x \<Longrightarrow> 0 \<le> n \<Longrightarrow> n < 32 \<Longrightarrow> js_shl x n = x * 2 ^ nat n"
  by (simp add: js_shl_def push_bit_eq_mult)

lemma js_ushr_div: "0 \<le> x \<Longrightarrow> x < 2 ^ 32 \<Longrightarrow> 0 \<le> n \<Longrightarrow> n < 32 \<Longrightarrow> js_ushr x n = x div 2 ^ nat n"
  by (simp add: js_ushr_def toUint32_def drop_bit_eq_div take_bit_int_eq_self)

lemma js_and_mask: 
  assumes "m \<le> 31"
  shows "js_and x (2 ^ m - 1) = x mod 2 ^ m"
proof -
  have "js_and x (2 ^ m - 1) = signed_take_bit 31 x AND mask m"
  proof -
    have "(2::int) ^ m \<le> 2 ^ 31" using assms by (intro power_increasing) auto
    moreover have "(0::int) < 2 ^ m" by simp
    ultimately have "toInt32 (2 ^ m - 1) = 2 ^ m - 1" by (intro toInt32_id) linarith+
    then show ?thesis by (simp add: js_and_def toInt32_def mask_eq_exp_minus_1)
  qed
  also have "\<dots> = take_bit m (signed_take_bit 31 x)" by (simp add: take_bit_eq_mask)
  also have "\<dots> = take_bit m x" using assms by (simp add: take_bit_signed_take_bit)
  finally show ?thesis by (simp add: take_bit_eq_mod)
qed

lemma toInt32_mod: "toInt32 x mod 2 ^ 32 = x mod 2 ^ 32"
proof -
  have "take_bit 32 (signed_take_bit 31 x) = take_bit 32 x"
    by (simp add: take_bit_signed_take_bit)
  then show ?thesis by (simp add: toInt32_def take_bit_eq_mod)
qed

section \<open>Bytes\<close>

definition byte :: "int \<Rightarrow> bool" where
  "byte x \<longleftrightarrow> 0 \<le> x \<and> x < 256"

lemma byte_take_bit: "byte x \<longleftrightarrow> take_bit 8 x = x"
  by (auto simp: byte_def take_bit_int_eq_self_iff)

lemma byte_int32: "byte x \<Longrightarrow> is_int32 x"
  by (simp add: byte_def is_int32_def)

lemma byte_xor [intro]: "byte x \<Longrightarrow> byte y \<Longrightarrow> byte (js_xor x y)"
  by (simp add: js_xor_def byte_int32) (simp add: byte_take_bit)

lemma byte_and: "byte (js_and x 255)"
  using js_and_mask [of 8 x] by (simp add: byte_def)

section \<open>Integers as strings\<close>

text \<open>\<open>String(x)\<close> of a number that is an integer (below 10^21), in decimal.\<close>

fun show_nat :: "nat \<Rightarrow> string" where
  "show_nat n = (if n < 10 then [char_of (48 + n)] else show_nat (n div 10) @ [char_of (48 + n mod 10)])"

declare show_nat.simps [simp del]

definition show_int :: "int \<Rightarrow> string" where
  "show_int i = (if i < 0 then ''-'' @ show_nat (nat (- i)) else show_nat (nat i))"

end
