(* ===== verification/Math_Random.thy ===== *)
theory Math_Random
  imports Js_Prelude
begin

unbundle bit_operations_syntax

text \<open>
  The deterministic replacement of \<open>Math.random\<close> in \<open>v8/base.js\<close>: a closure over one
  variable \<open>seed\<close>. The state of the closure is the seed, an \<open>int\<close> that is always the
  result of a 32-bit operator; a call returns the number and the new seed. The hash is
  also stated on 32-bit words (\<open>jenkins\<close>), and every one of its six steps is shown to be
  injective, so that the update of the seed is a permutation of the 32-bit integers.
\<close>

section \<open>The seed and its update\<close>

definition random_seed0 :: int where
  "random_seed0 = 49734321"

definition random_next :: "int \<Rightarrow> int" where
  "random_next seed =
    (let seed = js_and ((seed + 0x7ed55d16) + js_shl seed 12) 0xffffffff;
         seed = js_and (js_xor (js_xor seed 0xc761c23c) (js_ushr seed 19)) 0xffffffff;
         seed = js_and ((seed + 0x165667b1) + js_shl seed 5) 0xffffffff;
         seed = js_and (js_xor (seed + 0xd3a2646c) (js_shl seed 9)) 0xffffffff;
         seed = js_and ((seed + 0xfd7046c5) + js_shl seed 3) 0xffffffff
     in js_and (js_xor (js_xor seed 0xb55a4f09) (js_ushr seed 16)) 0xffffffff)"

definition math_random :: "int \<Rightarrow> rat \<times> int" where
  "math_random seed =
    (let seed = random_next seed
     in (of_int (js_and seed 0xfffffff) / of_int 0x10000000, seed))"

section \<open>The hash on words\<close>

definition jenkins1 :: "32 word \<Rightarrow> 32 word" where
  "jenkins1 a = a * 4097 + 0x7ed55d16"
definition jenkins2 :: "32 word \<Rightarrow> 32 word" where
  "jenkins2 a = (a XOR 0xc761c23c) XOR drop_bit 19 a"
definition jenkins3 :: "32 word \<Rightarrow> 32 word" where
  "jenkins3 a = a * 33 + 0x165667b1"
definition jenkins4 :: "32 word \<Rightarrow> 32 word" where
  "jenkins4 a = (a + 0xd3a2646c) XOR push_bit 9 a"
definition jenkins5 :: "32 word \<Rightarrow> 32 word" where
  "jenkins5 a = a * 9 + 0xfd7046c5"
definition jenkins6 :: "32 word \<Rightarrow> 32 word" where
  "jenkins6 a = (a XOR 0xb55a4f09) XOR drop_bit 16 a"

definition jenkins :: "32 word \<Rightarrow> 32 word" where
  "jenkins a = jenkins6 (jenkins5 (jenkins4 (jenkins3 (jenkins2 (jenkins1 a)))))"

lemma js_and_all_ones: "js_and x 0xffffffff = toInt32 x"
  by (simp add: js_and_def toInt32_def)

lemma word_of_js_ops:
  "(word_of_int (js_xor x y) :: 32 word) = word_of_int x XOR word_of_int y"
  "(word_of_int (js_shl x n) :: 32 word) = push_bit (nat (n mod 32)) (word_of_int x)"
  "(word_of_int (js_ushr x n) :: 32 word) = drop_bit (nat (n mod 32)) (word_of_int x)"
  by (simp_all add: js_xor_word js_shl_word js_ushr_word)

lemma random_next_word: "random_next s = sint (jenkins (word_of_int s))"
  unfolding random_next_def Let_def js_and_all_ones toInt32_word
  by (simp add: jenkins_def jenkins1_def jenkins2_def jenkins3_def jenkins4_def jenkins5_def
      jenkins6_def word_of_js_ops push_bit_eq_mult algebra_simps)

lemma mult_odd_inj:
  fixes a b :: "32 word"
  assumes "i * k = 1" and eq: "a * k + c = b * k + c"
  shows "a = b"
proof -
  from eq have "a * k = b * k" by simp
  then have "i * (a * k) = i * (b * k)" by simp
  then have "(i * k) * a = (i * k) * b" by (simp add: mult.assoc mult.left_commute mult.commute)
  then show ?thesis using assms(1) by simp
qed

lemma word_xor_cancel: "x XOR c = y XOR c \<Longrightarrow> x = (y :: 32 word)"
proof -
  assume "x XOR c = y XOR c"
  then have "(x XOR c) XOR c = (y XOR c) XOR c" by simp
  then show ?thesis by (simp add: xor.assoc)
qed

lemma xorshift_inverse:
  assumes "16 \<le> k" and "z = a XOR drop_bit k a"
  shows "z XOR drop_bit k z = (a :: 32 word)"
proof -
  have "drop_bit k (drop_bit k a) = 0"
    using assms(1) by (auto simp: bit_eq_iff bit_simps dest: bit_imp_le_length)
  then show ?thesis by (simp add: assms(2) drop_bit_xor xor.assoc)
qed

lemma xorshift_inj:
  assumes "16 \<le> k" and eq: "(a XOR c) XOR drop_bit k a = (b XOR c) XOR drop_bit k (b :: 32 word)"
  shows "a = b"
proof -
  have "(a XOR drop_bit k a) XOR c = (b XOR drop_bit k b) XOR c"
    using eq by (simp add: ac_simps)
  then have "a XOR drop_bit k a = b XOR drop_bit k b" by (rule word_xor_cancel)
  then show ?thesis using xorshift_inverse [OF assms(1)] by metis
qed

lemma take_bit_add_cancel_int:
  "take_bit m (a + c) = take_bit m (b + c) \<Longrightarrow> take_bit m a = take_bit m (b :: int)"
  by (metis add_diff_cancel_right' take_bit_diff)

lemma take_bit_add_cancel:
  "take_bit n (a + c) = take_bit n (b + c) \<Longrightarrow> take_bit n a = take_bit n (b :: 32 word)"
  by transfer (simp, rule take_bit_add_cancel_int, assumption)

lemma jenkins4_inj:
  assumes "jenkins4 a = jenkins4 b"
  shows "a = b"
proof -
  have "take_bit n a = take_bit n b" for n
  proof (induction n)
    case (Suc n)
    have sh: "take_bit (Suc n) (push_bit 9 x) = take_bit (Suc n) (push_bit 9 (take_bit n x))" for x :: "32 word"
      by (simp add: bit_eq_iff bit_simps) auto
    have "take_bit (Suc n) (jenkins4 a) = take_bit (Suc n) (jenkins4 b)" using assms by simp
    then have "take_bit (Suc n) (a + 0xd3a2646c) XOR take_bit (Suc n) (push_bit 9 a) =
       take_bit (Suc n) (b + 0xd3a2646c) XOR take_bit (Suc n) (push_bit 9 b)"
      by (simp add: jenkins4_def)
    moreover have "take_bit (Suc n) (push_bit 9 a) = take_bit (Suc n) (push_bit 9 b)"
      using sh Suc.IH by metis
    ultimately have "take_bit (Suc n) (a + 0xd3a2646c) = take_bit (Suc n) (b + 0xd3a2646c)"
      using word_xor_cancel by metis
    then show ?case by (rule take_bit_add_cancel)
  qed simp
  from this [of 32] show ?thesis by (simp add: take_bit_word_eq_self)
qed
lemma jenkins1_inj: "jenkins1 a = jenkins1 b \<Longrightarrow> a = b"
  unfolding jenkins1_def by (rule mult_odd_inj [where i = 16773121, rotated], assumption) simp

lemma jenkins2_inj: "jenkins2 a = jenkins2 b \<Longrightarrow> a = b"
  unfolding jenkins2_def by (rule xorshift_inj [rotated], assumption) simp

lemma jenkins3_inj: "jenkins3 a = jenkins3 b \<Longrightarrow> a = b"
  unfolding jenkins3_def by (rule mult_odd_inj [where i = 1041204193, rotated], assumption) simp

lemma jenkins5_inj: "jenkins5 a = jenkins5 b \<Longrightarrow> a = b"
  unfolding jenkins5_def by (rule mult_odd_inj [where i = 954437177, rotated], assumption) simp

lemma jenkins6_inj: "jenkins6 a = jenkins6 b \<Longrightarrow> a = b"
  unfolding jenkins6_def by (rule xorshift_inj [rotated], assumption) simp

lemma jenkins_inj: "jenkins a = jenkins b \<Longrightarrow> a = b"
  unfolding jenkins_def
  by (blast dest: jenkins1_inj jenkins2_inj jenkins3_inj jenkins4_inj jenkins5_inj jenkins6_inj)

lemma is_int32_word_of_int: "is_int32 a \<Longrightarrow> sint (word_of_int a :: 32 word) = a"
  by (simp flip: toInt32_word)

section \<open>Properties\<close>

lemma is_int32_random_next [simp]: "is_int32 (random_next s)"
  unfolding random_next_def Let_def js_and_all_ones by simp

text \<open>
  C26: the update of the seed permutes the 32-bit integers (each of the six steps is
  invertible), so the generator never loses state: two different seeds never lead to the
  same seed, and the sequence from any seed returns to it.
\<close>

theorem random_next_bij: "bij_betw random_next {s. is_int32 s} {s. is_int32 s}"
proof (rule bij_betwI')
  fix x y assume "x \<in> {s. is_int32 s}" "y \<in> {s. is_int32 s}"
  then show "(random_next x = random_next y) = (x = y)"
    using is_int32_word_of_int by (metis jenkins_inj mem_Collect_eq random_next_word signed_word_eqI)
next
  fix x assume "x \<in> {s. is_int32 s}"
  show "random_next x \<in> {s. is_int32 s}" by simp
next
  fix y assume y: "y \<in> {s. is_int32 s}"
  have "surj jenkins" by (intro finite_UNIV_inj_surj injI) (auto dest: jenkins_inj)
  then obtain w where "jenkins w = word_of_int y" by (metis surjD)
  then have "random_next (sint w) = y"
    using y by (simp add: random_next_word is_int32_word_of_int)
  then show "\<exists>x\<in>{s. is_int32 s}. y = random_next x"
    using is_int32_toInt32 [of "sint w"] by (intro bexI [of _ "sint w"]) (simp_all add: toInt32_word)
qed
lemma js_and_28: "js_and s 0xfffffff = s mod 2 ^ 28"
  using js_and_mask [of 28 s] by simp

text \<open>
  a call returns a number of the form k/2^28 in [0, 1), with k the low 28 bits of the
  new seed, and the new seed is again a 32-bit integer.
\<close>

theorem math_random_range:
  "\<exists>k. math_random s = (of_int k / 2 ^ 28, random_next s) \<and> 0 \<le> k \<and> k < 2 ^ 28 \<and>
     k = random_next s mod 2 ^ 28 \<and> 0 \<le> fst (math_random s) \<and> fst (math_random s) < 1 \<and>
     is_int32 (snd (math_random s))"
proof -
  let ?k = "random_next s mod 2 ^ 28"
  have k: "0 \<le> ?k" "?k < 2 ^ 28" by simp_all
  then have "(of_int ?k :: rat) < 2 ^ 28"
    by (metis of_int_less_iff of_int_numeral of_int_power)
  with k have "(0 :: rat) \<le> of_int ?k / 2 ^ 28" "of_int ?k / 2 ^ 28 < (1 :: rat)"
    by simp_all
  with k show ?thesis
    by (intro exI [of _ ?k]) (simp add: math_random_def Let_def js_and_28)
qed

text \<open>The first two seeds, as the code computes them.\<close>

lemma random_next_example: "random_next random_seed0 = - 1345591281"
  by (simp add: random_seed0_def random_next_def Let_def js_and_def js_xor_def js_shl_def
      js_ushr_def toInt32_def toUint32_def)

end
