(* ===== verification/Splay.thy ===== *)
theory Splay
  imports Math_Random
begin

text \<open>
  The splay tree benchmark \<open>v8/splay.js\<close>: nodes in a store of objects, the tree object
  with its root, every operation of the tree as the code writes it (pointer by pointer),
  and the benchmark's set-up, run and tear-down. Loops take fuel; \<open>Splay_Correct\<close> shows
  how much is enough.
\<close>

section \<open>Nodes, the store and the tree object\<close>

text \<open>
  Keys are the numbers that \<open>Math.random\<close> returns, so rationals; the dummy node of
  \<open>splay_\<close> has the key \<open>null\<close>, here \<open>None\<close>. \<open>null\<close> pointers are \<open>None\<close>; an address
  always denotes an object, as a JavaScript reference does. \<open>sfree\<close> is the first address
  not yet allocated.
\<close>

type_synonym addr = nat
type_synonym key = rat

record 'v spnode =
  nkey :: "key option"
  nvalue :: "'v option"
  nleft :: "addr option"
  nright :: "addr option"

type_synonym 'v spheap = "addr \<Rightarrow> 'v spnode"

record 'v sptree =
  sheap :: "'v spheap"
  sfree :: addr
  sroot :: "addr option"

definition SplayTree :: "'v spheap \<Rightarrow> addr \<Rightarrow> 'v sptree" where
  "SplayTree h n = \<lparr>sheap = h, sfree = n, sroot = None\<rparr>"

definition new_node :: "key option \<Rightarrow> 'v option \<Rightarrow> 'v sptree \<Rightarrow> addr \<times> 'v sptree" where
  "new_node k v t =
    (sfree t, t\<lparr>sheap := (sheap t)(sfree t := \<lparr>nkey = k, nvalue = v, nleft = None, nright = None\<rparr>),
               sfree := Suc (sfree t)\<rparr>)"

definition set_left :: "addr \<Rightarrow> addr option \<Rightarrow> 'v spheap \<Rightarrow> 'v spheap" where
  "set_left a p h = h(a := (h a)\<lparr>nleft := p\<rparr>)"

definition set_right :: "addr \<Rightarrow> addr option \<Rightarrow> 'v spheap \<Rightarrow> 'v spheap" where
  "set_right a p h = h(a := (h a)\<lparr>nright := p\<rparr>)"

text \<open>\<open>key < node.key\<close> converts a \<open>null\<close> key to the number 0.\<close>

definition keynum :: "key option \<Rightarrow> rat" where
  "keynum k = (case k of None \<Rightarrow> 0 | Some x \<Rightarrow> x)"

definition isEmpty :: "'v sptree \<Rightarrow> bool" where
  "isEmpty t \<longleftrightarrow> sroot t = None"

section \<open>Splaying\<close>

text \<open>The loop of \<open>splay_\<close>: \<open>l\<close>, \<open>r\<close> and \<open>c\<close> are the variables left, right and current.\<close>

definition rotate_right :: "addr \<Rightarrow> addr \<Rightarrow> 'v spheap \<Rightarrow> 'v spheap" where
  "rotate_right c tmp h =
    (let h = set_left c (nright (h tmp)) h in set_right tmp (Some c) h)"

definition rotate_left :: "addr \<Rightarrow> addr \<Rightarrow> 'v spheap \<Rightarrow> 'v spheap" where
  "rotate_left c tmp h =
    (let h = set_right c (nleft (h tmp)) h in set_left tmp (Some c) h)"

fun splay_loop ::
  "nat \<Rightarrow> key \<Rightarrow> 'v spheap \<Rightarrow> addr \<Rightarrow> addr \<Rightarrow> addr \<Rightarrow> ('v spheap \<times> addr \<times> addr \<times> addr) res" where
  "splay_loop 0 k h l r c = throw OutOfFuel"
| "splay_loop (Suc n) k h l r c =
    (if k < keynum (nkey (h c)) then
       (case nleft (h c) of
          None \<Rightarrow> ok (h, l, r, c)
        | Some tmp \<Rightarrow>
            if k < keynum (nkey (h tmp)) then
              (let h = rotate_right c tmp h; c = tmp
               in if nleft (h c) = None then ok (h, l, r, c)
                  else (let h = set_left r (Some c) h
                        in rbind (deref (nleft (h c))) (splay_loop n k h l c)))
            else (let h = set_left r (Some c) h
                  in rbind (deref (nleft (h c))) (splay_loop n k h l c)))
     else if k > keynum (nkey (h c)) then
       (case nright (h c) of
          None \<Rightarrow> ok (h, l, r, c)
        | Some tmp \<Rightarrow>
            if k > keynum (nkey (h tmp)) then
              (let h = rotate_left c tmp h; c = tmp
               in if nright (h c) = None then ok (h, l, r, c)
                  else (let h = set_right l (Some c) h
                        in rbind (deref (nright (h c))) (splay_loop n k h c r)))
            else (let h = set_right l (Some c) h
                  in rbind (deref (nright (h c))) (splay_loop n k h c r)))
     else ok (h, l, r, c))"

definition splay_assemble :: "addr \<Rightarrow> addr \<Rightarrow> addr \<Rightarrow> addr \<Rightarrow> 'v spheap \<Rightarrow> 'v spheap" where
  "splay_assemble d l r c h =
    (let h = set_right l (nleft (h c)) h;
         h = set_left r (nright (h c)) h;
         h = set_left c (nright (h d)) h
     in set_right c (nleft (h d)) h)"

definition splay :: "nat \<Rightarrow> key \<Rightarrow> 'v sptree \<Rightarrow> 'v sptree res" where
  "splay n k t =
    (if isEmpty t then ok t
     else (let (d, t) = new_node None None t
           in rbind (deref (sroot t)) (\<lambda>current.
              rbind (splay_loop n k (sheap t) d d current) (\<lambda>(h, l, r, c).
              ok (t\<lparr>sheap := splay_assemble d l r c h, sroot := Some c\<rparr>)))))"

section \<open>The operations of the tree\<close>

definition sp_insert :: "nat \<Rightarrow> key \<Rightarrow> 'v \<Rightarrow> 'v sptree \<Rightarrow> 'v sptree res" where
  "sp_insert n k v t =
    (if isEmpty t then
       (let (a, t) = new_node (Some k) (Some v) t in ok (t\<lparr>sroot := Some a\<rparr>))
     else
       rbind (splay n k t) (\<lambda>t.
       rbind (deref (sroot t)) (\<lambda>r.
         if nkey (sheap t r) = Some k then ok t
         else (let (a, t) = new_node (Some k) (Some v) t; h = sheap t
               in if k > keynum (nkey (h r)) then
                    (let h = set_left a (Some r) h;
                         h = set_right a (nright (h r)) h;
                         h = set_right r None h
                     in ok (t\<lparr>sheap := h, sroot := Some a\<rparr>))
                  else
                    (let h = set_right a (Some r) h;
                         h = set_left a (nleft (h r)) h;
                         h = set_left r None h
                     in ok (t\<lparr>sheap := h, sroot := Some a\<rparr>))))))"

definition sp_remove :: "nat \<Rightarrow> key \<Rightarrow> 'v sptree \<Rightarrow> (addr \<times> 'v sptree) res" where
  "sp_remove n k t =
    (if isEmpty t then throw (ThrownNum ''Key not found: '' k)
     else
       rbind (splay n k t) (\<lambda>t.
       rbind (deref (sroot t)) (\<lambda>removed.
         if nkey (sheap t removed) \<noteq> Some k then throw (ThrownNum ''Key not found: '' k)
         else
           (case nleft (sheap t removed) of
              None \<Rightarrow> ok (removed, t\<lparr>sroot := nright (sheap t removed)\<rparr>)
            | Some l \<Rightarrow>
                (let right = nright (sheap t removed)
                 in rbind (splay n k (t\<lparr>sroot := Some l\<rparr>)) (\<lambda>t.
                    rbind (deref (sroot t)) (\<lambda>r.
                    ok (removed, t\<lparr>sheap := set_right r right (sheap t)\<rparr>))))))))"

definition sp_find :: "nat \<Rightarrow> key \<Rightarrow> 'v sptree \<Rightarrow> (addr option \<times> 'v sptree) res" where
  "sp_find n k t =
    (if isEmpty t then ok (None, t)
     else
       rbind (splay n k t) (\<lambda>t.
       rbind (deref (sroot t)) (\<lambda>r.
       ok (if nkey (sheap t r) = Some k then Some r else None, t))))"

text \<open>The \<open>while (current.right)\<close> loop of \<open>findMax\<close>, then the function.\<close>

fun findMax_loop :: "nat \<Rightarrow> 'v spheap \<Rightarrow> addr \<Rightarrow> addr res" where
  "findMax_loop 0 h c = throw OutOfFuel"
| "findMax_loop (Suc n) h c =
    (case nright (h c) of None \<Rightarrow> ok c | Some c' \<Rightarrow> findMax_loop n h c')"

definition findMax :: "nat \<Rightarrow> addr option \<Rightarrow> 'v sptree \<Rightarrow> addr option res" where
  "findMax n opt_startNode t =
    (if isEmpty t then ok None
     else rbind (deref (if opt_startNode \<noteq> None then opt_startNode else sroot t)) (\<lambda>c.
          rbind (findMax_loop n (sheap t) c) (\<lambda>m. ok (Some m))))"

definition findGreatestLessThan ::
  "nat \<Rightarrow> key \<Rightarrow> 'v sptree \<Rightarrow> (addr option \<times> 'v sptree) res" where
  "findGreatestLessThan n k t =
    (if isEmpty t then ok (None, t)
     else
       rbind (splay n k t) (\<lambda>t.
       rbind (deref (sroot t)) (\<lambda>r.
         if keynum (nkey (sheap t r)) < k then ok (Some r, t)
         else if nleft (sheap t r) \<noteq> None then
           rbind (findMax n (nleft (sheap t r)) t) (\<lambda>m. ok (m, t))
         else ok (None, t))))"

text \<open>
  \<open>traverse_\<close> with its visitor \<open>f\<close> as a function on a state \<open>s\<close>: the left subtree by a
  call, then the visitor, then the loop goes on with the right child.
\<close>

fun traverse :: "nat \<Rightarrow> 'v spheap \<Rightarrow> (addr \<Rightarrow> 's \<Rightarrow> 's) \<Rightarrow> addr option \<Rightarrow> 's \<Rightarrow> 's res" where
  "traverse 0 h f current s = throw OutOfFuel"
| "traverse (Suc n) h f None s = ok s"
| "traverse (Suc n) h f (Some c) s =
    rbind (case nleft (h c) of None \<Rightarrow> ok s | Some l \<Rightarrow> traverse n h f (Some l) s)
      (\<lambda>s. traverse n h f (nright (h c)) (f c s))"

definition exportKeys :: "nat \<Rightarrow> 'v sptree \<Rightarrow> key option list res" where
  "exportKeys n t =
    (if isEmpty t then ok []
     else traverse n (sheap t) (\<lambda>node result. result @ [nkey (sheap t node)]) (sroot t) [])"

section \<open>The benchmark\<close>

definition kSplayTreeSize :: nat where "kSplayTreeSize = 8000"
definition kSplayTreeModifications :: nat where "kSplayTreeModifications = 80"
definition kSplayTreePayloadDepth :: nat where "kSplayTreePayloadDepth = 5"

datatype payload =
    PayloadLeaf (parray: "int list") (pstring: string)
  | PayloadNode (pleft: payload) (pright: payload)

fun GeneratePayloadTree :: "nat \<Rightarrow> string \<Rightarrow> payload" where
  "GeneratePayloadTree 0 tag =
    PayloadLeaf [0, 1, 2, 3, 4, 5, 6, 7, 8, 9] (''String for key '' @ tag @ '' in leaf node'')"
| "GeneratePayloadTree (Suc depth) tag =
    PayloadNode (GeneratePayloadTree depth tag) (GeneratePayloadTree depth tag)"

text \<open>
  The global state of the benchmark: the variable \<open>splayTree\<close> (when it is not \<open>null\<close>) and
  the seed of \<open>Math.random\<close>. \<open>str\<close> is the number formatting of \<open>String(key)\<close>.
\<close>

type_synonym bench = "payload sptree \<times> int"

definition GenerateKey :: "int \<Rightarrow> key \<times> int" where
  "GenerateKey seed = math_random seed"

text \<open>The do-while loop of \<open>InsertNewNode\<close> takes its own fuel \<open>m\<close>.\<close>

fun new_key_loop :: "nat \<Rightarrow> nat \<Rightarrow> bench \<Rightarrow> (key \<times> bench) res" where
  "new_key_loop 0 n s = throw OutOfFuel"
| "new_key_loop (Suc m) n (t, seed) =
    (let (k, seed) = GenerateKey seed
     in rbind (sp_find n k t) (\<lambda>(p, t).
        if p \<noteq> None then new_key_loop m n (t, seed) else ok (k, t, seed)))"

definition InsertNewNode :: "(key \<Rightarrow> string) \<Rightarrow> nat \<Rightarrow> nat \<Rightarrow> bench \<Rightarrow> (key \<times> bench) res" where
  "InsertNewNode str m n s =
    rbind (new_key_loop m n s) (\<lambda>(k, t, seed).
    rbind (sp_insert n k (GeneratePayloadTree kSplayTreePayloadDepth (str k)) t) (\<lambda>t.
    ok (k, t, seed)))"

fun insert_new_nodes :: "(key \<Rightarrow> string) \<Rightarrow> nat \<Rightarrow> nat \<Rightarrow> nat \<Rightarrow> bench \<Rightarrow> bench res" where
  "insert_new_nodes str m n 0 s = ok s"
| "insert_new_nodes str m n (Suc i) s =
    rbind (InsertNewNode str m n s) (\<lambda>(k, s). insert_new_nodes str m n i s)"

definition SplaySetup :: "(key \<Rightarrow> string) \<Rightarrow> nat \<Rightarrow> nat \<Rightarrow> payload spheap \<Rightarrow> addr \<Rightarrow> int \<Rightarrow> bench res" where
  "SplaySetup str m n h a seed = insert_new_nodes str m n kSplayTreeSize (SplayTree h a, seed)"

text \<open>
  The check of the tear-down, key by key; \<open>keys[i] >= keys[i + 1]\<close> on two numbers.
\<close>

fun keys_sorted_check :: "key option list \<Rightarrow> unit res" where
  "keys_sorted_check (x # y # ks) =
    (if keynum x \<ge> keynum y then throw (Thrown ''Splay tree not sorted'')
     else keys_sorted_check (y # ks))"
| "keys_sorted_check ks = ok ()"

text \<open>The result is the new value of \<open>splayTree\<close> (always \<open>null\<close>) with the outcome of the check.\<close>

definition SplayTearDown :: "nat \<Rightarrow> bench \<Rightarrow> payload sptree option \<times> unit res" where
  "SplayTearDown n s =
    (None,
     rbind (exportKeys n (fst s)) (\<lambda>keys.
       if length keys \<noteq> kSplayTreeSize then throw (Thrown ''Splay tree has wrong size'')
       else keys_sorted_check keys))"

text \<open>
  One round of \<open>SplayRun\<close>. Every node but the dummy of \<open>splay\<close> has a number as its key, so
  the read of \<open>greatest.key\<close> always finds one.
\<close>

definition replace_node :: "(key \<Rightarrow> string) \<Rightarrow> nat \<Rightarrow> nat \<Rightarrow> bench \<Rightarrow> bench res" where
  "replace_node str m n s =
    rbind (InsertNewNode str m n s) (\<lambda>(k, t, seed).
    rbind (findGreatestLessThan n k t) (\<lambda>(greatest, t).
      case greatest of
        None \<Rightarrow> rbind (sp_remove n k t) (\<lambda>(a, t). ok (t, seed))
      | Some g \<Rightarrow> rbind (deref (nkey (sheap t g))) (\<lambda>gk.
                  rbind (sp_remove n gk t) (\<lambda>(a, t). ok (t, seed)))))"

fun replace_nodes :: "(key \<Rightarrow> string) \<Rightarrow> nat \<Rightarrow> nat \<Rightarrow> nat \<Rightarrow> bench \<Rightarrow> bench res" where
  "replace_nodes str m n 0 s = ok s"
| "replace_nodes str m n (Suc i) s =
    rbind (replace_node str m n s) (replace_nodes str m n i)"

definition SplayRun :: "(key \<Rightarrow> string) \<Rightarrow> nat \<Rightarrow> nat \<Rightarrow> bench \<Rightarrow> bench res" where
  "SplayRun str m n s = replace_nodes str m n kSplayTreeModifications s"

end
