(* ===== verification/Splay_Correct.thy ===== *)
theory Splay_Correct
  imports Splay "HOL-Library.Tree"
begin

text \<open>
  Correctness of the operations of \<open>Splay\<close>. \<open>sp_rel\<close> relates the tree object to a binary
  tree of items (address, key and value); \<open>spine_inv\<close> is the invariant of the splay loop: the
  two spines built so far (\<open>lseg\<close>, \<open>rseg\<close>), which start at the dummy node, and the subtree
  still to be searched, all disjoint. Each operation is then a function on the in-order list.
\<close>

datatype 'v item = Item (iaddr: addr) (ikey: key) (ivalue: "'v option")

definition holds :: "'v spheap \<Rightarrow> 'v item \<Rightarrow> bool" where
  "holds h x \<longleftrightarrow> nkey (h (iaddr x)) = Some (ikey x) \<and> nvalue (h (iaddr x)) = ivalue x"

fun rep :: "'v spheap \<Rightarrow> addr option \<Rightarrow> 'v item tree \<Rightarrow> bool" where
  "rep h p Leaf \<longleftrightarrow> p = None"
| "rep h p (Node A x B) \<longleftrightarrow> p = Some (iaddr x) \<and> holds h x \<and>
     rep h (nleft (h (iaddr x))) A \<and> rep h (nright (h (iaddr x))) B"

fun taddrs :: "'v item tree \<Rightarrow> addr list" where
  "taddrs Leaf = []"
| "taddrs (Node A x B) = taddrs A @ iaddr x # taddrs B"

lemma rep_cong:
  "(\<And>a. a \<in> set (taddrs T) \<Longrightarrow> h' a = h a) \<Longrightarrow> rep h' p T = rep h p T"
  by (induction h p T rule: rep.induct) (auto simp: holds_def)

lemma rep_frame:
  "(\<And>a. a \<notin> X \<Longrightarrow> h' a = h a) \<Longrightarrow> set (taddrs T) \<inter> X = {} \<Longrightarrow> rep h' p T = rep h p T"
  by (rule rep_cong) blast

lemma rep_None [simp]: "rep h None T \<longleftrightarrow> T = Leaf"
  by (cases T) auto

lemma rep_Some: "rep h (Some a) T \<longleftrightarrow> (\<exists>A x B. T = Node A x B \<and> a = iaddr x \<and> holds h x \<and>
     rep h (nleft (h a)) A \<and> rep h (nright (h a)) B)"
  by (cases T) auto

fun lseg :: "'v spheap \<Rightarrow> addr \<Rightarrow> ('v item tree \<times> 'v item) list \<Rightarrow> addr \<Rightarrow> bool" where
  "lseg h p [] q \<longleftrightarrow> p = q"
| "lseg h p ((A, x) # xs) q \<longleftrightarrow> nright (h p) = Some (iaddr x) \<and> holds h x \<and>
     rep h (nleft (h (iaddr x))) A \<and> lseg h (iaddr x) xs q"

fun rseg :: "'v spheap \<Rightarrow> addr \<Rightarrow> ('v item \<times> 'v item tree) list \<Rightarrow> addr \<Rightarrow> bool" where
  "rseg h p [] q \<longleftrightarrow> p = q"
| "rseg h p ((x, B) # xs) q \<longleftrightarrow> nleft (h p) = Some (iaddr x) \<and> holds h x \<and>
     rep h (nright (h (iaddr x))) B \<and> rseg h (iaddr x) xs q"

fun plugL :: "('v item tree \<times> 'v item) list \<Rightarrow> 'v item tree \<Rightarrow> 'v item tree" where
  "plugL [] T = T"
| "plugL ((A, x) # xs) T = Node A x (plugL xs T)"

fun plugR :: "('v item \<times> 'v item tree) list \<Rightarrow> 'v item tree \<Rightarrow> 'v item tree" where
  "plugR [] T = T"
| "plugR ((x, B) # xs) T = Node (plugR xs T) x B"

fun inL :: "('v item tree \<times> 'v item) list \<Rightarrow> 'v item list" where
  "inL [] = []"
| "inL ((A, x) # xs) = inorder A @ x # inL xs"

fun inR :: "('v item \<times> 'v item tree) list \<Rightarrow> 'v item list" where
  "inR [] = []"
| "inR ((x, B) # xs) = inR xs @ x # inorder B"

fun laddrs :: "('v item tree \<times> 'v item) list \<Rightarrow> addr list" where
  "laddrs [] = []"
| "laddrs ((A, x) # xs) = taddrs A @ iaddr x # laddrs xs"

fun raddrs :: "('v item \<times> 'v item tree) list \<Rightarrow> addr list" where
  "raddrs [] = []"
| "raddrs ((x, B) # xs) = raddrs xs @ iaddr x # taddrs B"

lemma laddrs_append [simp]: "laddrs (xs @ ys) = laddrs xs @ laddrs ys"
  by (induction xs rule: laddrs.induct) auto
lemma raddrs_append [simp]: "raddrs (xs @ ys) = raddrs ys @ raddrs xs"
  by (induction xs rule: raddrs.induct) auto

lemma inorder_plugL [simp]: "inorder (plugL xs T) = inL xs @ inorder T"
  by (induction xs T rule: plugL.induct) auto
lemma inorder_plugR [simp]: "inorder (plugR xs T) = inorder T @ inR xs"
  by (induction xs T rule: plugR.induct) auto
lemma inL_append [simp]: "inL (xs @ ys) = inL xs @ inL ys"
  by (induction xs rule: inL.induct) auto
lemma inR_append [simp]: "inR (xs @ ys) = inR ys @ inR xs"
  by (induction xs rule: inR.induct) auto

lemma lseg_append: "lseg h p (xs @ ys) q \<longleftrightarrow> (\<exists>m. lseg h p xs m \<and> lseg h m ys q)"
  by (induction h p xs q arbitrary: rule: lseg.induct) auto
lemma rseg_append: "rseg h p (xs @ ys) q \<longleftrightarrow> (\<exists>m. rseg h p xs m \<and> rseg h m ys q)"
  by (induction h p xs q arbitrary: rule: rseg.induct) auto

lemma lseg_cong:
  assumes "\<And>a. a \<in> set (laddrs xs) \<Longrightarrow> h' a = h a" "nright (h' p) = nright (h p)"
  shows "lseg h' p xs q = lseg h p xs q"
  using assms
proof (induction h p xs q rule: lseg.induct)
  case (2 h p A x xs q)
  have "rep h' (nleft (h (iaddr x))) A = rep h (nleft (h (iaddr x))) A"
    by (rule rep_cong) (use 2 in auto)
  with 2 show ?case by (auto simp: holds_def)
qed auto

lemma rseg_cong:
  assumes "\<And>a. a \<in> set (raddrs xs) \<Longrightarrow> h' a = h a" "nleft (h' p) = nleft (h p)"
  shows "rseg h' p xs q = rseg h p xs q"
  using assms
proof (induction h p xs q rule: rseg.induct)
  case (2 h p x B xs q)
  have "rep h' (nright (h (iaddr x))) B = rep h (nright (h (iaddr x))) B"
    by (rule rep_cong) (use 2 in auto)
  with 2 show ?case by (auto simp: holds_def)
qed auto

lemma lseg_frame:
  "(\<And>a. a \<notin> X \<Longrightarrow> h' a = h a) \<Longrightarrow> d \<notin> X \<Longrightarrow> set (laddrs xs) \<inter> X = {} \<Longrightarrow> lseg h' d xs q = lseg h d xs q"
  by (rule lseg_cong) auto

lemma rseg_frame:
  "(\<And>a. a \<notin> X \<Longrightarrow> h' a = h a) \<Longrightarrow> d \<notin> X \<Longrightarrow> set (raddrs xs) \<inter> X = {} \<Longrightarrow> rseg h' d xs q = rseg h d xs q"
  by (rule rseg_cong) auto

lemma lseg_last: "lseg h p xs q \<Longrightarrow> q \<in> insert p (set (laddrs xs))"
  by (induction h p xs q rule: lseg.induct) auto
lemma rseg_last: "rseg h p xs q \<Longrightarrow> q \<in> insert p (set (raddrs xs))"
  by (induction h p xs q rule: rseg.induct) auto

lemma set_left_sel [simp]:
  "nkey (set_left a p h b) = nkey (h b)" "nvalue (set_left a p h b) = nvalue (h b)"
  "nright (set_left a p h b) = nright (h b)"
  "nleft (set_left a p h b) = (if b = a then p else nleft (h b))"
  "b \<noteq> a \<Longrightarrow> set_left a p h b = h b"
  by (auto simp: set_left_def)
lemma set_right_sel [simp]:
  "nkey (set_right a p h b) = nkey (h b)" "nvalue (set_right a p h b) = nvalue (h b)"
  "nleft (set_right a p h b) = nleft (h b)"
  "nright (set_right a p h b) = (if b = a then p else nright (h b))"
  "b \<noteq> a \<Longrightarrow> set_right a p h b = h b"
  by (auto simp: set_right_def)

lemma holds_set [simp]: "holds (set_left a p h) x = holds h x" "holds (set_right a p h) x = holds h x"
  by (auto simp: holds_def)

text \<open>Writing the right pointer of the last node of the spine keeps the spine.\<close>
lemma lseg_set_last:
  "lseg h p xs q \<Longrightarrow> distinct (p # laddrs xs) \<Longrightarrow> lseg (set_right q z h) p xs q"
proof (induction h p xs q rule: lseg.induct)
  case (2 h p A x xs q)
  have q: "q \<in> insert (iaddr x) (set (laddrs xs))" using 2 lseg_last by auto
  have "q \<notin> set (taddrs A)" using 2(3) q by auto
  then have "rep (set_right q z h) (nleft (h (iaddr x))) A = rep h (nleft (h (iaddr x))) A"
    by (intro rep_cong set_right_sel(5)) metis
  with 2 q show ?case by auto
qed auto
lemma rseg_set_last:
  "rseg h p xs q \<Longrightarrow> distinct (p # raddrs xs) \<Longrightarrow> rseg (set_left q z h) p xs q"
proof (induction h p xs q rule: rseg.induct)
  case (2 h p x B xs q)
  have q: "q \<in> insert (iaddr x) (set (raddrs xs))" using 2 rseg_last by auto
  have "q \<notin> set (taddrs B)" using 2(3) q by auto
  then have "rep (set_left q z h) (nright (h (iaddr x))) B = rep h (nright (h (iaddr x))) B"
    by (intro rep_cong set_left_sel(5)) metis
  with 2 q show ?case by auto
qed auto

lemma lseg_close: "lseg h p xs q \<Longrightarrow> rep h (nright (h q)) T \<Longrightarrow> rep h (nright (h p)) (plugL xs T)"
  by (induction h p xs q rule: lseg.induct) auto
lemma rseg_close: "rseg h p xs q \<Longrightarrow> rep h (nleft (h q)) T \<Longrightarrow> rep h (nleft (h p)) (plugR xs T)"
  by (induction h p xs q rule: rseg.induct) auto
section \<open>The loop invariant\<close>

definition spine_inv ::
  "'v spheap \<Rightarrow> addr \<Rightarrow> addr \<Rightarrow> addr \<Rightarrow> addr \<Rightarrow>
   ('v item tree \<times> 'v item) list \<Rightarrow> 'v item tree \<Rightarrow> ('v item \<times> 'v item tree) list \<Rightarrow> bool" where
  "spine_inv h d l r c Ls T Rs \<longleftrightarrow> rep h (Some c) T \<and> lseg h d Ls l \<and> rseg h d Rs r \<and>
     distinct (d # laddrs Ls @ taddrs T @ raddrs Rs)"

lemma spine_link_right:
  assumes inv: "spine_inv h d l r c Ls (Node A x B) Rs" and A: "nleft (h c) = Some tmp"
  shows "spine_inv (set_left r (Some c) h) d l c tmp Ls A (Rs @ [(x, B)])"
proof -
  let ?h = "set_left r (Some c) h"
  from inv have c: "c = iaddr x" and hx: "holds h x" and repA: "rep h (nleft (h c)) A" and repB: "rep h (nright (h c)) B"
    and l: "lseg h d Ls l" and r: "rseg h d Rs r"
    and dist: "distinct (d # laddrs Ls @ taddrs (Node A x B) @ raddrs Rs)"
    by (auto simp: spine_inv_def)
  have rin: "r \<in> insert d (set (raddrs Rs))" using r by (rule rseg_last)
  with dist c have rA: "r \<notin> set (taddrs A)" and rB: "r \<notin> set (taddrs B)"
    and rL: "r \<notin> set (laddrs Ls)" and rc: "r \<noteq> c"
    by auto
  have "rep ?h (Some tmp) A"
    using repA A rA by (metis rep_cong set_left_sel(5))
  moreover have "lseg ?h d Ls l"
    using l rL by (subst lseg_cong [of _ _ h]) (auto intro!: set_left_sel(5))
  moreover have "rseg ?h d Rs r"
    using r dist by (intro rseg_set_last) auto
  moreover have "rep ?h (nright (?h c)) B"
    using repB rB by (simp) (metis rep_cong set_left_sel(5))
  ultimately show ?thesis
    using dist hx c by (auto simp: spine_inv_def rseg_append)
qed

lemma spine_link_left:
  assumes inv: "spine_inv h d l r c Ls (Node A x B) Rs" and B: "nright (h c) = Some tmp"
  shows "spine_inv (set_right l (Some c) h) d c r tmp (Ls @ [(A, x)]) B Rs"
proof -
  let ?h = "set_right l (Some c) h"
  from inv have c: "c = iaddr x" and hx: "holds h x" and repA: "rep h (nleft (h c)) A" and repB: "rep h (nright (h c)) B"
    and l: "lseg h d Ls l" and r: "rseg h d Rs r"
    and dist: "distinct (d # laddrs Ls @ taddrs (Node A x B) @ raddrs Rs)"
    by (auto simp: spine_inv_def)
  have lin: "l \<in> insert d (set (laddrs Ls))" using l by (rule lseg_last)
  with dist c have lA: "l \<notin> set (taddrs A)" and lB: "l \<notin> set (taddrs B)"
    and lR: "l \<notin> set (raddrs Rs)" and lc: "l \<noteq> c"
    by auto
  have "rep ?h (Some tmp) B"
    using repB B lB by (metis rep_cong set_right_sel(5))
  moreover have "rseg ?h d Rs r"
    using r lR by (subst rseg_cong [of _ _ h]) (auto intro!: set_right_sel(5))
  moreover have "lseg ?h d Ls l"
    using l dist by (intro lseg_set_last) auto
  moreover have "rep ?h (nleft (?h c)) A"
    using repA lA by (simp) (metis rep_cong set_right_sel(5))
  ultimately show ?thesis
    using dist hx c by (auto simp: spine_inv_def lseg_append)
qed

lemma rotate_right_same [simp]: "a \<noteq> c \<Longrightarrow> a \<noteq> tmp \<Longrightarrow> rotate_right c tmp h a = h a"
  by (simp add: rotate_right_def Let_def)
lemma rotate_left_same [simp]: "a \<noteq> c \<Longrightarrow> a \<noteq> tmp \<Longrightarrow> rotate_left c tmp h a = h a"
  by (simp add: rotate_left_def Let_def)

lemma spine_rotate_right:
  assumes inv: "spine_inv h d l r c Ls (Node (Node A y B) x C) Rs" and tmp: "nleft (h c) = Some tmp"
  shows "spine_inv (rotate_right c tmp h) d l r tmp Ls (Node A y (Node B x C)) Rs"
proof -
  let ?h = "rotate_right c tmp h"
  from inv have c: "c = iaddr x" "tmp = iaddr y" and hx: "holds h x" "holds h y"
    and reps: "rep h (nleft (h tmp)) A" "rep h (nright (h tmp)) B" "rep h (nright (h c)) C"
    and l: "lseg h d Ls l" and r: "rseg h d Rs r"
    and dist: "distinct (d # laddrs Ls @ taddrs (Node (Node A y B) x C) @ raddrs Rs)"
    using tmp by (auto simp: spine_inv_def)
  have same: "?h a = h a" if "a \<notin> {c, tmp}" for a using that by simp
  have "set (taddrs A) \<inter> {c, tmp} = {}" "set (taddrs B) \<inter> {c, tmp} = {}" "set (taddrs C) \<inter> {c, tmp} = {}"
    using dist c by auto
  then have "rep ?h p A = rep h p A" "rep ?h p B = rep h p B" "rep ?h p C = rep h p C" for p
    by (auto intro!: rep_frame [of "{c, tmp}" ?h h] same)
  moreover have "lseg ?h d Ls l" "rseg ?h d Rs r"
    using l r dist c lseg_frame [of "{c, tmp}" ?h h d Ls l, OF same] rseg_frame [of "{c, tmp}" ?h h d Rs r, OF same]
    by auto
  ultimately show ?thesis
    using reps hx c dist by (auto simp: spine_inv_def rotate_right_def Let_def)
qed

lemma spine_rotate_left:
  assumes inv: "spine_inv h d l r c Ls (Node A x (Node B y C)) Rs" and tmp: "nright (h c) = Some tmp"
  shows "spine_inv (rotate_left c tmp h) d l r tmp Ls (Node (Node A x B) y C) Rs"
proof -
  let ?h = "rotate_left c tmp h"
  from inv have c: "c = iaddr x" "tmp = iaddr y" and hx: "holds h x" "holds h y"
    and reps: "rep h (nleft (h c)) A" "rep h (nleft (h tmp)) B" "rep h (nright (h tmp)) C"
    and l: "lseg h d Ls l" and r: "rseg h d Rs r"
    and dist: "distinct (d # laddrs Ls @ taddrs (Node A x (Node B y C)) @ raddrs Rs)"
    using tmp by (auto simp: spine_inv_def)
  have same: "?h a = h a" if "a \<notin> {c, tmp}" for a using that by simp
  have "set (taddrs A) \<inter> {c, tmp} = {}" "set (taddrs B) \<inter> {c, tmp} = {}" "set (taddrs C) \<inter> {c, tmp} = {}"
    using dist c by auto
  then have "rep ?h p A = rep h p A" "rep ?h p B = rep h p B" "rep ?h p C = rep h p C" for p
    by (auto intro!: rep_frame [of "{c, tmp}" ?h h] same)
  moreover have "lseg ?h d Ls l" "rseg ?h d Rs r"
    using l r dist c lseg_frame [of "{c, tmp}" ?h h d Ls l, OF same] rseg_frame [of "{c, tmp}" ?h h d Rs r, OF same]
    by auto
  ultimately show ?thesis
    using reps hx c dist by (auto simp: spine_inv_def rotate_left_def Let_def)
qed

text \<open>Where the loop stops: at the key, or where the side to go to is empty.\<close>

definition stops_at :: "key \<Rightarrow> 'v item tree \<Rightarrow> 'v item \<Rightarrow> 'v item tree \<Rightarrow> bool" where
  "stops_at k A x B \<longleftrightarrow> ikey x = k \<or> (k < ikey x \<and> A = Leaf) \<or> (k > ikey x \<and> B = Leaf)"

definition keys_below :: "key \<Rightarrow> 'v item list \<Rightarrow> bool" where
  "keys_below k xs \<longleftrightarrow> (\<forall>x \<in> set xs. ikey x < k)"
definition keys_above :: "key \<Rightarrow> 'v item list \<Rightarrow> bool" where
  "keys_above k xs \<longleftrightarrow> (\<forall>x \<in> set xs. k < ikey x)"
definition ksorted :: "'v item list \<Rightarrow> bool" where
  "ksorted xs \<longleftrightarrow> sorted_wrt (\<lambda>x y. ikey x < ikey y) xs"

lemma ksorted_simps [simp]:
  "ksorted []"
  "ksorted (x # xs) \<longleftrightarrow> keys_above (ikey x) xs \<and> ksorted xs"
  by (auto simp: ksorted_def keys_above_def)

lemma ksorted_append:
  "ksorted (xs @ ys) \<longleftrightarrow> ksorted xs \<and> ksorted ys \<and> (\<forall>x \<in> set xs. \<forall>y \<in> set ys. ikey x < ikey y)"
  by (auto simp: ksorted_def sorted_wrt_append)

lemma ksorted_mid [simp]:
  "ksorted (xs @ y # ys) \<longleftrightarrow> ksorted xs \<and> keys_below (ikey y) xs \<and> keys_above (ikey y) ys \<and> ksorted ys"
  by (auto simp: ksorted_append keys_below_def keys_above_def) (meson less_trans)

lemma keys_simps [simp]:
  "keys_below k []" "keys_above k []"
  "keys_below k (x # xs) \<longleftrightarrow> ikey x < k \<and> keys_below k xs"
  "keys_above k (x # xs) \<longleftrightarrow> k < ikey x \<and> keys_above k xs"
  "keys_below k (xs @ ys) \<longleftrightarrow> keys_below k xs \<and> keys_below k ys"
  "keys_above k (xs @ ys) \<longleftrightarrow> keys_above k xs \<and> keys_above k ys"
  by (auto simp: keys_below_def keys_above_def)
lemma keys_mono: "keys_below k xs \<Longrightarrow> k < k' \<Longrightarrow> keys_below k' xs"
   "keys_above k xs \<Longrightarrow> k' < k \<Longrightarrow> keys_above k' xs"
  by (auto simp: keys_below_def keys_above_def)

definition splay_post ::
  "key \<Rightarrow> addr \<Rightarrow> addr list \<Rightarrow> 'v item list \<Rightarrow> 'v spheap \<Rightarrow> ('v spheap \<times> addr \<times> addr \<times> addr) res \<Rightarrow> bool" where
  "splay_post k d L X h res \<longleftrightarrow> (\<exists>h' l' r' c' Ls A x B Rs.
     res = Inr (h', l', r', c') \<and> spine_inv h' d l' r' c' Ls (Node A x B) Rs \<and>
     inL Ls @ inorder (Node A x B) @ inR Rs = X \<and>
     keys_below k (inL Ls) \<and> keys_above k (inR Rs) \<and> stops_at k A x B \<and>
     (\<forall>a. a \<notin> set L \<longrightarrow> h' a = h a))"

lemma splay_post_stop:
  "spine_inv h' d l r c Ls (Node A x B) Rs \<Longrightarrow> keys_below k (inL Ls) \<Longrightarrow> keys_above k (inR Rs) \<Longrightarrow>
   stops_at k A x B \<Longrightarrow> X = inL Ls @ inorder (Node A x B) @ inR Rs \<Longrightarrow> (\<And>a. a \<notin> set L \<Longrightarrow> h' a = h a) \<Longrightarrow>
   splay_post k d L X h (Inr (h', l, r, c))"
  unfolding splay_post_def by blast

lemma splay_post_frame:
  "splay_post k d L X h2 res \<Longrightarrow> (\<And>a. a \<notin> set L \<Longrightarrow> h2 a = h a) \<Longrightarrow> splay_post k d L X h res"
  unfolding splay_post_def by (elim exE, intro exI) auto

lemma spine_inv_node:
  assumes "spine_inv h d l r c Ls (Node A x B) Rs"
  shows "c = iaddr x" "nkey (h c) = Some (ikey x)" "c \<noteq> r" "c \<noteq> l"
    "rep h (nleft (h c)) A" "rep h (nright (h c)) B"
  using assms lseg_last [of h d Ls l] rseg_last [of h d Rs r]
  by (auto simp: spine_inv_def holds_def)

lemma splay_loop_correct:
  fixes T :: "'v item tree"
  assumes "spine_inv h d l r c Ls T Rs" "size T \<le> n"
    "ksorted (inorder T)" "keys_below k (inL Ls)" "keys_above k (inR Rs)"
    "L = d # laddrs Ls @ taddrs T @ raddrs Rs" "X = inL Ls @ inorder T @ inR Rs"
  shows "splay_post k d L X h (splay_loop n k h l r c)"
  using assms
proof (induction n arbitrary: h l r c Ls T Rs)
  case 0
  then show ?case by (auto simp: spine_inv_def)
next
  case (Suc n)
  note prems = Suc.prems
  from prems(1) obtain A x B where T: "T = Node A x B"
    by (auto simp: spine_inv_def rep_Some)
  note inv = prems(1) [unfolded T]
  note node = spine_inv_node [OF inv]
  have lrc: "l \<in> set L" "r \<in> set L" "c \<in> set L"
    using inv prems(6) T lseg_last [of h d Ls l] rseg_last [of h d Rs r] node(1) by (auto simp: spine_inv_def)
  consider "k = ikey x" | "k < ikey x" | "ikey x < k" by linarith
  then show ?case
  proof cases
    case 1
    then have "splay_loop (Suc n) k h l r c = Inr (h, l, r, c)"
      by (simp add: node(2) keynum_def)
    with 1 prems T show ?thesis by (auto intro!: splay_post_stop simp: stops_at_def)
  next
    case 2
    then have lt: "k < keynum (nkey (h c))" by (simp add: node(2) keynum_def)
    show ?thesis
    proof (cases A)
      case Leaf
      then have "splay_loop (Suc n) k h l r c = Inr (h, l, r, c)"
        using node(5) lt by simp
      with 2 prems T Leaf show ?thesis by (auto intro!: splay_post_stop simp: stops_at_def)
    next
      case (Node A1 y A2)
      then have tmp: "nleft (h c) = Some (iaddr y)" and ky: "nkey (h (iaddr y)) = Some (ikey y)"
        using node(5) by (auto simp: holds_def)
      have yL: "iaddr y \<in> set L" using prems(6) T Node by simp
      show ?thesis
      proof (cases "k < ikey y")
        case True
        let ?h1 = "rotate_right c (iaddr y) h"
        have inv1: "spine_inv ?h1 d l r (iaddr y) Ls (Node A1 y (Node A2 x B)) Rs"
          using inv tmp unfolding Node by (rule spine_rotate_right)
        note node1 = spine_inv_node [OF inv1]
        have fr1: "?h1 a = h a" if "a \<notin> set L" for a using that yL lrc by (metis rotate_left_same rotate_right_same)
        show ?thesis
        proof (cases A1)
          case Leaf
          then have "splay_loop (Suc n) k h l r c = Inr (?h1, l, r, iaddr y)"
            using node1(5) lt True by (simp add: tmp ky keynum_def Let_def)
          moreover have "splay_post k d L X h (Inr (?h1, l, r, iaddr y))"
            using prems(3-5,7) T Node Leaf True fr1 inv1
            by (intro splay_post_stop [OF inv1]) (auto simp: stops_at_def)
          ultimately show ?thesis by simp
        next
          case N1: (Node A11 z A12)
          let ?h2 = "set_left r (Some (iaddr y)) ?h1"
          have z: "nleft (?h1 (iaddr y)) = Some (iaddr z)" using node1(5) N1 by simp
          have inv2: "spine_inv ?h2 d l (iaddr y) (iaddr z) Ls A1 (Rs @ [(y, Node A2 x B)])"
            using inv1 z by (rule spine_link_right)
          have "splay_loop (Suc n) k h l r c = splay_loop n k ?h2 l (iaddr y) (iaddr z)"
            using lt True z node1(3) by (simp add: tmp ky keynum_def Let_def)
          moreover have "splay_post k d L X ?h2 (splay_loop n k ?h2 l (iaddr y) (iaddr z))"
            using prems T Node N1 True 2 by (intro Suc.IH [OF inv2]) (simp_all, (blast intro: keys_mono)+)
          ultimately show ?thesis
            using fr1 lrc by (metis splay_post_frame set_left_sel(5))
        qed
      next
        case False
        let ?h2 = "set_left r (Some c) h"
        have inv2: "spine_inv ?h2 d l c (iaddr y) Ls A (Rs @ [(x, B)])"
          using inv tmp by (rule spine_link_right)
        have "splay_loop (Suc n) k h l r c = splay_loop n k ?h2 l c (iaddr y)"
          using lt False tmp node(3) by (simp add: ky keynum_def Let_def)
        moreover have "splay_post k d L X ?h2 (splay_loop n k ?h2 l c (iaddr y))"
          using prems T 2 by (intro Suc.IH [OF inv2]) (simp_all, (blast intro: keys_mono)+)
        ultimately show ?thesis
          using lrc by (metis splay_post_frame set_left_sel(5))
      qed
    qed
  next
    case 3
    then have lt: "keynum (nkey (h c)) < k" by (simp add: node(2) keynum_def)
    show ?thesis
    proof (cases B)
      case Leaf
      then have "splay_loop (Suc n) k h l r c = Inr (h, l, r, c)"
        using node(6) lt by simp
      with 3 prems T Leaf show ?thesis by (auto intro!: splay_post_stop simp: stops_at_def)
    next
      case (Node B1 y B2)
      then have tmp: "nright (h c) = Some (iaddr y)" and ky: "nkey (h (iaddr y)) = Some (ikey y)"
        using node(6) by (auto simp: holds_def)
      have yL: "iaddr y \<in> set L" using prems(6) T Node by simp
      show ?thesis
      proof (cases "ikey y < k")
        case True
        let ?h1 = "rotate_left c (iaddr y) h"
        have inv1: "spine_inv ?h1 d l r (iaddr y) Ls (Node (Node A x B1) y B2) Rs"
          using inv tmp unfolding Node by (rule spine_rotate_left)
        note node1 = spine_inv_node [OF inv1]
        have fr1: "?h1 a = h a" if "a \<notin> set L" for a using that yL lrc by (metis rotate_left_same rotate_right_same)
        show ?thesis
        proof (cases B2)
          case Leaf
          then have "splay_loop (Suc n) k h l r c = Inr (?h1, l, r, iaddr y)"
            using node1(6) lt True by (simp add: tmp ky keynum_def Let_def)
          moreover have "splay_post k d L X h (Inr (?h1, l, r, iaddr y))"
            using prems(3-5,7) T Node Leaf True fr1 inv1
            by (intro splay_post_stop [OF inv1]) (auto simp: stops_at_def)
          ultimately show ?thesis by simp
        next
          case N1: (Node B21 z B22)
          let ?h2 = "set_right l (Some (iaddr y)) ?h1"
          have z: "nright (?h1 (iaddr y)) = Some (iaddr z)" using node1(6) N1 by simp
          have inv2: "spine_inv ?h2 d (iaddr y) r (iaddr z) (Ls @ [(Node A x B1, y)]) B2 Rs"
            using inv1 z by (rule spine_link_left)
          have "splay_loop (Suc n) k h l r c = splay_loop n k ?h2 (iaddr y) r (iaddr z)"
            using lt True z node1(4) by (simp add: tmp ky keynum_def Let_def)
          moreover have "splay_post k d L X ?h2 (splay_loop n k ?h2 (iaddr y) r (iaddr z))"
            using prems T Node N1 True 3 by (intro Suc.IH [OF inv2]) (simp_all, (blast intro: keys_mono)+)
          ultimately show ?thesis
            using fr1 lrc by (metis splay_post_frame set_right_sel(5))
        qed
      next
        case False
        let ?h2 = "set_right l (Some c) h"
        have inv2: "spine_inv ?h2 d c r (iaddr y) (Ls @ [(A, x)]) B Rs"
          using inv tmp by (rule spine_link_left)
        have "splay_loop (Suc n) k h l r c = splay_loop n k ?h2 c r (iaddr y)"
          using lt False tmp node(4) by (simp add: ky keynum_def Let_def)
        moreover have "splay_post k d L X ?h2 (splay_loop n k ?h2 c r (iaddr y))"
          using prems T 3 by (intro Suc.IH [OF inv2]) (simp_all, (blast intro: keys_mono)+)
        ultimately show ?thesis
          using lrc by (metis splay_post_frame set_right_sel(5))
      qed
    qed
  qed
qed

section \<open>The tree object\<close>

definition sp_rel :: "'v sptree \<Rightarrow> 'v item tree \<Rightarrow> bool" where
  "sp_rel t T \<longleftrightarrow> rep (sheap t) (sroot t) T \<and> distinct (taddrs T) \<and> (\<forall>a \<in> set (taddrs T). a < sfree t)"

definition splayed_at :: "key \<Rightarrow> 'v item tree \<Rightarrow> bool" where
  "splayed_at k T \<longleftrightarrow> (case T of Leaf \<Rightarrow> True | Node A x B \<Rightarrow>
     (k \<le> ikey x \<longrightarrow> keys_below k (inorder A)) \<and> (ikey x \<le> k \<longrightarrow> keys_above k (inorder B)))"

text \<open>Objects of the old store that are not in the tree keep their fields.\<close>

definition sp_frame :: "'v sptree \<Rightarrow> 'v item tree \<Rightarrow> 'v sptree \<Rightarrow> bool" where
  "sp_frame t T t' \<longleftrightarrow> sfree t \<le> sfree t' \<and>
     (\<forall>a. a < sfree t \<longrightarrow> a \<notin> set (taddrs T) \<longrightarrow> sheap t' a = sheap t a)"

lemma taddrs_inorder: "taddrs T = map iaddr (inorder T)"
  by (induction T rule: taddrs.induct) auto

lemma taddrs_plugL [simp]: "taddrs (plugL xs T) = laddrs xs @ taddrs T"
  by (induction xs T rule: plugL.induct) auto
lemma taddrs_plugR [simp]: "taddrs (plugR xs T) = taddrs T @ raddrs xs"
  by (induction xs T rule: plugR.induct) auto

lemma spine_assemble:
  assumes inv: "spine_inv h d l r c Ls (Node A x B) Rs"
  shows "rep (splay_assemble d l r c h) (Some c) (Node (plugL Ls A) x (plugR Rs B))"
    and "a \<notin> set (d # laddrs Ls @ taddrs (Node A x B) @ raddrs Rs) \<Longrightarrow> splay_assemble d l r c h a = h a"
proof -
  note node = spine_inv_node [OF inv]
  from inv have hx: "holds h x" and l: "lseg h d Ls l" and r: "rseg h d Rs r"
    and dist: "distinct (d # laddrs Ls @ taddrs (Node A x B) @ raddrs Rs)"
    by (auto simp: spine_inv_def)
  have lin: "l \<in> insert d (set (laddrs Ls))" and rin: "r \<in> insert d (set (raddrs Rs))"
    using lseg_last [OF l] rseg_last [OF r] by simp_all
  have cd: "c \<noteq> d" using node(1) dist by auto
  define h1 where "h1 = set_right l (nleft (h c)) h"
  define h2 where "h2 = set_left r (nright (h1 c)) h1"
  define h3 where "h3 = set_left c (nright (h2 d)) h2"
  define h4 where "h4 = set_right c (nleft (h3 d)) h3"
  have h4: "splay_assemble d l r c h = h4"
    by (simp add: splay_assemble_def h1_def h2_def h3_def h4_def Let_def)
  have l1: "lseg h1 d Ls l" unfolding h1_def using l dist by (intro lseg_set_last) auto
  have r1: "rseg h1 d Rs r"
    unfolding h1_def using lin dist r by (subst rseg_cong [of _ _ h]) (auto intro!: set_right_sel(5))
  have r2: "rseg h2 d Rs r" unfolding h2_def using r1 dist by (intro rseg_set_last) auto
  have l2: "lseg h2 d Ls l"
    unfolding h2_def using rin dist l1 by (subst lseg_cong [of _ _ h1]) (auto intro!: set_left_sel(5))
  have same2: "h2 a = h a" if "a \<notin> {l, r}" for a using that by (simp add: h1_def h2_def)
  have "set (taddrs A) \<inter> {l, r} = {}" "set (taddrs B) \<inter> {l, r} = {}"
    using lin rin dist by auto
  then have A2: "rep h2 (nright (h2 l)) A" and B2: "rep h2 (nleft (h2 r)) B"
    using node(3-6) rep_frame [of "{l, r}" h2 h, OF same2] by (auto simp: h1_def h2_def)
  have L: "rep h2 (nright (h2 d)) (plugL Ls A)" by (rule lseg_close [OF l2 A2])
  have R: "rep h2 (nleft (h2 d)) (plugR Rs B)" by (rule rseg_close [OF r2 B2])
  have same4: "h4 a = h2 a" if "a \<notin> {c}" for a using that by (simp add: h3_def h4_def)
  have "set (taddrs (plugL Ls A)) \<inter> {c} = {}" "set (taddrs (plugR Rs B)) \<inter> {c} = {}"
    using node(1) dist by auto
  then have "rep h4 (nleft (h4 c)) (plugL Ls A)" "rep h4 (nright (h4 c)) (plugR Rs B)"
    using L R cd rep_frame [of "{c}" h4 h2, OF same4] by (auto simp: h3_def h4_def)
  moreover have "holds h4 x" using hx by (simp add: h1_def h2_def h3_def h4_def)
  ultimately show "rep (splay_assemble d l r c h) (Some c) (Node (plugL Ls A) x (plugR Rs B))"
    unfolding h4 using node(1) by simp
  show "splay_assemble d l r c h a = h a"
    if "a \<notin> set (d # laddrs Ls @ taddrs (Node A x B) @ raddrs Rs)"
  proof -
    have "a \<notin> {l, r}" "a \<notin> {c}" using that lin rin node(1) by auto
    then show ?thesis using h4 same4 same2 by metis
  qed
qed

lemma splay_correct:
  assumes rel: "sp_rel t T" and sorted: "ksorted (inorder T)" and n: "size T \<le> n"
  shows "\<exists>t' T'. splay n k t = Inr t' \<and> sp_rel t' T' \<and> inorder T' = inorder T \<and> splayed_at k T' \<and> sp_frame t T t'"
proof (cases T)
  case Leaf
  then show ?thesis using rel
    by (auto simp: splay_def isEmpty_def sp_rel_def splayed_at_def sp_frame_def)
next
  case (Node A0 x0 B0)
  then have root: "sroot t = Some (iaddr x0)" using rel by (simp add: sp_rel_def)
  obtain d t1 where nn: "new_node None None t = (d, t1)" by fastforce
  then have t1: "d = sfree t" "sroot t1 = sroot t" "sfree t1 = Suc (sfree t)"
    "nleft (sheap t1 d) = None" "nright (sheap t1 d) = None" "\<And>a. a \<noteq> d \<Longrightarrow> sheap t1 a = sheap t a"
    by (auto simp: new_node_def)
  have dT: "d \<notin> set (taddrs T)" using rel t1(1) by (auto simp: sp_rel_def)
  then have "rep (sheap t1) (sroot t1) T"
    using rel t1 by (metis rep_frame disjoint_iff singletonD sp_rel_def singletonI)
  then have "spine_inv (sheap t1) d d d (iaddr x0) [] T []"
    using rel dT root t1(2) by (simp add: spine_inv_def sp_rel_def)
  then have "splay_post k d (d # taddrs T) (inorder T) (sheap t1) (splay_loop n k (sheap t1) d d (iaddr x0))"
    by (rule splay_loop_correct [OF _ n sorted]) simp_all
  then obtain h l r c Ls A x B Rs where
    loop: "splay_loop n k (sheap t1) d d (iaddr x0) = Inr (h, l, r, c)"
    and inv: "spine_inv h d l r c Ls (Node A x B) Rs"
    and eq: "inL Ls @ inorder (Node A x B) @ inR Rs = inorder T"
    and keys: "keys_below k (inL Ls)" "keys_above k (inR Rs)" "stops_at k A x B"
    and frame: "\<And>a. a \<notin> set (d # taddrs T) \<Longrightarrow> h a = sheap t1 a"
    unfolding splay_post_def by blast
  let ?T = "Node (plugL Ls A) x (plugR Rs B)"
  let ?t = "t1\<lparr>sheap := splay_assemble d l r c h, sroot := Some c\<rparr>"
  have res: "splay n k t = Inr ?t"
    using root nn t1(2) loop by (simp add: splay_def isEmpty_def)
  have eqT: "inorder ?T = inorder T" using eq by simp
  then have addrs: "taddrs ?T = taddrs T" by (simp only: taddrs_inorder)
  have "sp_rel ?t ?T"
    using spine_assemble(1) [OF inv] addrs rel t1(3) by (auto simp: sp_rel_def simp del: taddrs.simps)
  moreover have "splayed_at k ?T"
    using keys sorted unfolding eqT [symmetric]
    by (auto simp: splayed_at_def stops_at_def keys_below_def ksorted_append)
  moreover have "sp_frame t T ?t"
  proof -
    have "splay_assemble d l r c h a = sheap t a" if "a < sfree t" "a \<notin> set (taddrs T)" for a
    proof -
      have "set (taddrs ?T) = set (laddrs Ls @ taddrs (Node A x B) @ raddrs Rs)" by auto
      then have "splay_assemble d l r c h a = h a"
        using that t1(1) addrs by (intro spine_assemble(2) [OF inv]) auto
      then show ?thesis using frame [of a] t1(1,6) that by auto
    qed
    then show ?thesis using t1(3) by (simp add: sp_frame_def)
  qed
  ultimately show ?thesis using res eqT by blast
qed

lemma splay_node:
  assumes "sp_rel t T" "ksorted (inorder T)" "size T \<le> n" "T \<noteq> Leaf"
  obtains t' A x B where "splay n k t = Inr t'" "sp_rel t' (Node A x B)" "sroot t' = Some (iaddr x)"
    "inorder A @ x # inorder B = inorder T" "splayed_at k (Node A x B)" "sp_frame t T t'"
    "nkey (sheap t' (iaddr x)) = Some (ikey x)"
proof -
  from splay_correct [OF assms(1-3), of k] obtain t' T' where
    *: "splay n k t = Inr t'" "sp_rel t' T'" "inorder T' = inorder T" "splayed_at k T'" "sp_frame t T t'"
    by blast
  from *(3) assms(4) obtain A x B where "T' = Node A x B" by (cases T') (auto simp: eq_commute)
  with * that show ?thesis by (auto simp: sp_rel_def holds_def)
qed

definition has_key :: "key \<Rightarrow> 'v item list \<Rightarrow> bool" where
  "has_key k xs \<longleftrightarrow> k \<in> ikey ` set xs"

definition ins_item :: "'v item \<Rightarrow> 'v item list \<Rightarrow> 'v item list" where
  "ins_item x xs = [y \<leftarrow> xs. ikey y < ikey x] @ x # [y \<leftarrow> xs. ikey x < ikey y]"

lemma filter_below: "keys_below k xs \<Longrightarrow> [y \<leftarrow> xs. ikey y < k] = xs"
  "keys_below k xs \<Longrightarrow> [y \<leftarrow> xs. k < ikey y] = []" "keys_below k xs \<Longrightarrow> [y \<leftarrow> xs. ikey y \<noteq> k] = xs"
  by (auto simp: keys_below_def filter_id_conv filter_empty_conv)
lemma filter_above: "keys_above k xs \<Longrightarrow> [y \<leftarrow> xs. ikey y < k] = []"
  "keys_above k xs \<Longrightarrow> [y \<leftarrow> xs. k < ikey y] = xs" "keys_above k xs \<Longrightarrow> [y \<leftarrow> xs. ikey y \<noteq> k] = xs"
  by (auto simp: keys_above_def filter_id_conv filter_empty_conv)

lemma has_key_simps [simp]:
  "has_key k [] = False" "has_key k (x # xs) \<longleftrightarrow> k = ikey x \<or> has_key k xs"
  "has_key k (xs @ ys) \<longleftrightarrow> has_key k xs \<or> has_key k ys"
  by (auto simp: has_key_def)
lemma not_has_key: "keys_below k xs \<Longrightarrow> \<not> has_key k xs" "keys_above k xs \<Longrightarrow> \<not> has_key k xs"
  by (auto simp: has_key_def keys_below_def keys_above_def)

text \<open>The three ways a splayed, sorted tree can lie around the key.\<close>
lemma splayed_at_cases:
  assumes "splayed_at k (Node A x B)" "ksorted (inorder A @ x # inorder B)"
  shows "k = ikey x \<Longrightarrow> keys_below k (inorder A) \<and> keys_above k (inorder B)"
    and "ikey x < k \<Longrightarrow> keys_below k (inorder A @ [x]) \<and> keys_above k (inorder B)"
    and "k < ikey x \<Longrightarrow> keys_below k (inorder A) \<and> keys_above k (x # inorder B)"
  using assms by (auto simp: splayed_at_def intro: keys_mono)

lemma taddrs_free: "sp_rel t T \<Longrightarrow> sfree t \<notin> set (taddrs T)"
  by (auto simp: sp_rel_def)

lemma sp_insert_correct:
  assumes rel: "sp_rel t T" and sorted: "ksorted (inorder T)" and n: "size T \<le> n"
  shows "\<exists>t' T' a. sp_insert n k v t = Inr t' \<and> sp_rel t' T' \<and> sfree t \<le> a \<and>
    inorder T' = (if has_key k (inorder T) then inorder T else ins_item (Item a k (Some v)) (inorder T))"
proof (cases T)
  case Leaf
  let ?x = "Item (sfree t) k (Some v)"
  have "sp_rel (snd (new_node (Some k) (Some v) t)\<lparr>sroot := Some (sfree t)\<rparr>) (Node Leaf ?x Leaf)"
    by (simp add: sp_rel_def new_node_def holds_def)
  moreover have "sroot t = None" using rel Leaf by (simp add: sp_rel_def)
  ultimately show ?thesis using Leaf
    by (intro exI [of _ "snd (new_node (Some k) (Some v) t)\<lparr>sroot := Some (sfree t)\<rparr>"] exI [of _ "Node Leaf ?x Leaf"] exI [of _ "sfree t"])
      (simp add: sp_insert_def isEmpty_def ins_item_def new_node_def)
next
  case (Node A0 x0 B0)
  then have ne: "T \<noteq> Leaf" and root: "sroot t = Some (iaddr x0)" using rel by (auto simp: sp_rel_def)
  from splay_node [OF rel sorted n ne, of k] obtain t1 A x B where
    sp: "splay n k t = Inr t1" and rel1: "sp_rel t1 (Node A x B)" and r1: "sroot t1 = Some (iaddr x)"
    and eq: "inorder A @ x # inorder B = inorder T" and at: "splayed_at k (Node A x B)"
    and fr: "sp_frame t T t1" and kx: "nkey (sheap t1 (iaddr x)) = Some (ikey x)" by blast
  have sorted1: "ksorted (inorder A @ x # inorder B)" using sorted eq by simp
  note cases = splayed_at_cases [OF at sorted1]
  show ?thesis
  proof (cases "ikey x = k")
    case True
    then have "sp_insert n k v t = Inr t1" 
      using sp root r1 kx by (simp add: sp_insert_def isEmpty_def)
    moreover have "has_key k (inorder T)" using True by (simp flip: eq)
    ultimately show ?thesis using rel1 eq by auto
  next
    case False
    let ?a = "sfree t1" and ?y = "Item (sfree t1) k (Some v)"
    let ?h0 = "(sheap t1)(?a := \<lparr>nkey = Some k, nvalue = Some v, nleft = None, nright = None\<rparr>)"
    have ax: "iaddr x \<noteq> ?a" using taddrs_free [OF rel1] by auto
    have le: "sfree t \<le> ?a" using fr by (simp add: sp_frame_def)
    show ?thesis
    proof (cases "ikey x < k")
      case True
      let ?h = "set_right (iaddr x) None (set_right ?a (nright (sheap t1 (iaddr x))) (set_left ?a (Some (iaddr x)) ?h0))"
      let ?t = "t1\<lparr>sheap := ?h, sfree := Suc ?a, sroot := Some ?a\<rparr>"
      have res: "sp_insert n k v t = Inr ?t"
        using sp root r1 kx True ax by (simp add: sp_insert_def isEmpty_def new_node_def keynum_def Let_def)
      have fra: "?h b = sheap t1 b" if "b \<notin> {iaddr x, ?a}" for b using that by simp
      have "rep ?h p A = rep (sheap t1) p A" "rep ?h p B = rep (sheap t1) p B" for p
        using rel1 by (auto intro!: rep_frame [of "{iaddr x, ?a}"] fra simp: sp_rel_def)
      then have "sp_rel ?t (Node (Node A x Leaf) ?y B)"
        using rel1 ax by (auto simp: sp_rel_def holds_def less_Suc_eq)
      moreover have "inorder (Node (Node A x Leaf) ?y B) = ins_item ?y (inorder T)" "\<not> has_key k (inorder T)"
        using True cases(2) by (auto simp: ins_item_def filter_below filter_above not_has_key simp flip: eq)
      ultimately show ?thesis using res le by metis
    next
      case False2: False
      let ?h = "set_left (iaddr x) None (set_left ?a (nleft (sheap t1 (iaddr x))) (set_right ?a (Some (iaddr x)) ?h0))"
      let ?t = "t1\<lparr>sheap := ?h, sfree := Suc ?a, sroot := Some ?a\<rparr>"
      have res: "sp_insert n k v t = Inr ?t"
        using sp root r1 kx False False2 ax by (simp add: sp_insert_def isEmpty_def new_node_def keynum_def Let_def)
      have fra: "?h b = sheap t1 b" if "b \<notin> {iaddr x, ?a}" for b using that by simp
      have "rep ?h p A = rep (sheap t1) p A" "rep ?h p B = rep (sheap t1) p B" for p
        using rel1 by (auto intro!: rep_frame [of "{iaddr x, ?a}"] fra simp: sp_rel_def)
      then have "sp_rel ?t (Node A ?y (Node Leaf x B))"
        using rel1 ax by (auto simp: sp_rel_def holds_def less_Suc_eq)
      moreover have "inorder (Node A ?y (Node Leaf x B)) = ins_item ?y (inorder T)" "\<not> has_key k (inorder T)"
        using False False2 cases(3) by (auto simp: ins_item_def filter_below filter_above not_has_key simp flip: eq)
      ultimately show ?thesis using res le by metis
    qed
  qed
qed

lemma splay_isEmpty: "sp_rel t T \<Longrightarrow> isEmpty t \<longleftrightarrow> T = Leaf"
  by (cases T) (auto simp: sp_rel_def isEmpty_def)

lemma sp_find_correct:
  assumes rel: "sp_rel t T" and sorted: "ksorted (inorder T)" and n: "size T \<le> n"
  shows "\<exists>p t' T'. sp_find n k t = Inr (p, t') \<and> sp_rel t' T' \<and> inorder T' = inorder T \<and>
    (case p of None \<Rightarrow> \<not> has_key k (inorder T) 
     | Some a \<Rightarrow> \<exists>x \<in> set (inorder T). iaddr x = a \<and> ikey x = k)"
proof (cases "T = Leaf")
  case True
  then show ?thesis using rel splay_isEmpty [OF rel] by (auto simp: sp_find_def)
next
  case False
  from splay_node [OF rel sorted n False, of k] obtain t1 A x B where
    sp: "splay n k t = Inr t1" and rel1: "sp_rel t1 (Node A x B)" and r1: "sroot t1 = Some (iaddr x)"
    and eq: "inorder A @ x # inorder B = inorder T" and at: "splayed_at k (Node A x B)"
    and fr: "sp_frame t T t1" and kx: "nkey (sheap t1 (iaddr x)) = Some (ikey x)" by blast
  have sorted1: "ksorted (inorder A @ x # inorder B)" using sorted eq by simp
  note cases = splayed_at_cases [OF at sorted1]
  let ?p = "if ikey x = k then Some (iaddr x) else None"
  have "sp_find n k t = Inr (?p, t1)"
    using sp r1 kx False splay_isEmpty [OF rel] by (simp add: sp_find_def)
  moreover have "case ?p of None \<Rightarrow> \<not> has_key k (inorder T) | Some a \<Rightarrow> \<exists>x \<in> set (inorder T). iaddr x = a \<and> ikey x = k"
    using cases(2,3) by (cases "ikey x" k rule: linorder_cases) (auto simp: not_has_key simp flip: eq)
  ultimately show ?thesis using rel1 eq
    by (intro exI [of _ ?p] exI [of _ t1] exI [of _ "Node A x B"]) simp
qed

lemma findMax_loop_correct:
  "rep h (Some c) T \<Longrightarrow> size T \<le> n \<Longrightarrow> findMax_loop n h c = Inr (iaddr (last (inorder T)))"
proof (induction n arbitrary: c T)
  case (Suc n)
  then obtain A x B where T: "T = Node A x B" and c: "c = iaddr x" and B: "rep h (nright (h c)) B"
    by (auto simp: rep_Some)
  show ?case
  proof (cases "nright (h c)")
    case None
    then show ?thesis using T c B by simp
  next
    case (Some c')
    then have "B \<noteq> Leaf" using B by auto
    then have "inorder B \<noteq> []" by (cases B) auto
    then show ?thesis using Suc Some T B by simp
  qed
qed auto

lemma findGreatestLessThan_correct:
  assumes rel: "sp_rel t T" and sorted: "ksorted (inorder T)" and n: "size T \<le> n"
  shows "\<exists>t' T'. findGreatestLessThan n k t =
      Inr (let below = [x \<leftarrow> inorder T. ikey x < k] in if below = [] then None else Some (iaddr (last below)), t') \<and>
    sp_rel t' T' \<and> inorder T' = inorder T"
proof (cases "T = Leaf")
  case True
  then show ?thesis using rel splay_isEmpty [OF rel] by (auto simp: findGreatestLessThan_def)
next
  case False
  from splay_node [OF rel sorted n False, of k] obtain t1 A x B where
    sp: "splay n k t = Inr t1" and rel1: "sp_rel t1 (Node A x B)" and r1: "sroot t1 = Some (iaddr x)"
    and eq: "inorder A @ x # inorder B = inorder T" and at: "splayed_at k (Node A x B)"
    and fr: "sp_frame t T t1" and kx: "nkey (sheap t1 (iaddr x)) = Some (ikey x)" by blast
  have sorted1: "ksorted (inorder A @ x # inorder B)" using sorted eq by simp
  note cases = splayed_at_cases [OF at sorted1]
  have emp: "\<not> isEmpty t" "\<not> isEmpty t1" using False splay_isEmpty [OF rel] splay_isEmpty [OF rel1] by auto
  have szA: "size A \<le> n" using n arg_cong [OF eq, of length] by simp
  show ?thesis
  proof (cases "ikey x < k")
    case True
    then have "findGreatestLessThan n k t = Inr (Some (iaddr x), t1)"
      using sp r1 kx emp by (simp add: findGreatestLessThan_def keynum_def)
    moreover have "[y \<leftarrow> inorder T. ikey y < k] = inorder A @ [x]"
      using True cases(2) by (auto simp: filter_below filter_above simp flip: eq)
    ultimately show ?thesis using rel1 eq by (auto simp: Let_def)
  next
    case ge: False
    then have below: "[y \<leftarrow> inorder T. ikey y < k] = inorder A"
      using cases(1,3) by (cases "k = ikey x") (auto simp: filter_below filter_above simp flip: eq)
    have repA: "rep (sheap t1) (nleft (sheap t1 (iaddr x))) A" using rel1 by (simp add: sp_rel_def)
    show ?thesis
    proof (cases "nleft (sheap t1 (iaddr x))")
      case None
      then have "findGreatestLessThan n k t = Inr (None, t1)"
        using sp r1 kx emp ge by (simp add: findGreatestLessThan_def keynum_def)
      moreover have "A = Leaf" using repA None by simp
      ultimately show ?thesis using rel1 eq below by (auto simp: Let_def)
    next
      case (Some l)
      then have "findGreatestLessThan n k t = Inr (Some (iaddr (last (inorder A))), t1)"
        using sp r1 kx emp ge repA szA
        by (simp add: findGreatestLessThan_def keynum_def findMax_def findMax_loop_correct)
      moreover have "inorder A \<noteq> []" using repA Some by (cases A) auto
      ultimately show ?thesis using rel1 eq below by (auto simp: Let_def)
    qed
  qed
qed

lemma traverse_correct:
  "rep h p T \<Longrightarrow> size T < n \<Longrightarrow> traverse n h f p s = Inr (fold f (map iaddr (inorder T)) s)"
proof (induction n h f p s arbitrary: T rule: traverse.induct)
  case (3 n h f c s)
  then obtain A x B where T: "T = Node A x B" and c: "c = iaddr x"
    and A: "rep h (nleft (h c)) A" and B: "rep h (nright (h c)) B"
    by (auto simp: rep_Some)
  have "(case nleft (h c) of None \<Rightarrow> ok s | Some l \<Rightarrow> traverse n h f (Some l) s) = Inr (fold f (map iaddr (inorder A)) s)"
    using A 3(1,4) T by (cases "nleft (h c)") auto
  then show ?case using 3(2) [of _ B] B 3(4) T c by simp
qed auto

lemma exportKeys_correct:
  assumes rel: "sp_rel t T" and n: "size T < n"
  shows "exportKeys n t = Inr (map (\<lambda>x. Some (ikey x)) (inorder T))"
proof -
  have fold: "fold (\<lambda>node result. result @ [nkey (sheap t node)]) as s = s @ map (\<lambda>a. nkey (sheap t a)) as" for as s
    by (induction as arbitrary: s) auto
  have holds: "rep h p S \<Longrightarrow> y \<in> set_tree S \<Longrightarrow> nkey (h (iaddr y)) = Some (ikey y)" for h p S and y :: "'a item"
    by (induction h p S rule: rep.induct) (auto simp: holds_def)
  show ?thesis
  proof (cases "T = Leaf")
    case True
    then show ?thesis using splay_isEmpty [OF rel] by (simp add: exportKeys_def)
  next
    case False
    then show ?thesis using splay_isEmpty [OF rel] rel holds
        traverse_correct [of "sheap t" "sroot t" T n "\<lambda>node result. result @ [nkey (sheap t node)]" "[]", OF _ n]
      by (auto simp: exportKeys_def fold sp_rel_def)
  qed
qed

lemma rep_set_right: "a \<notin> set (taddrs T) \<Longrightarrow> rep (set_right a q h) p T = rep h p T"
  by (rule rep_frame [of "{a}"]) auto

lemma sp_remove_correct:
  assumes rel: "sp_rel t T" and sorted: "ksorted (inorder T)" and n: "size T \<le> n"
  shows "if has_key k (inorder T)
    then \<exists>a t' T'. sp_remove n k t = Inr (a, t') \<and> sp_rel t' T' \<and>
           inorder T' = [x \<leftarrow> inorder T. ikey x \<noteq> k] \<and> (\<exists>x \<in> set (inorder T). ikey x = k \<and> iaddr x = a)
    else sp_remove n k t = Inl (ThrownNum ''Key not found: '' k)"
proof (cases "T = Leaf")
  case True
  then show ?thesis using splay_isEmpty [OF rel] by (simp add: sp_remove_def)
next
  case False
  from splay_node [OF rel sorted n False, of k] obtain t1 A x B where
    sp: "splay n k t = Inr t1" and rel1: "sp_rel t1 (Node A x B)" and r1: "sroot t1 = Some (iaddr x)"
    and eq: "inorder A @ x # inorder B = inorder T" and at: "splayed_at k (Node A x B)"
    and fr: "sp_frame t T t1" and kx: "nkey (sheap t1 (iaddr x)) = Some (ikey x)" by blast
  have sorted1: "ksorted (inorder A @ x # inorder B)" using sorted eq by simp
  note cases = splayed_at_cases [OF at sorted1]
  have emp: "\<not> isEmpty t" using False splay_isEmpty [OF rel] by auto
  show ?thesis
  proof (cases "ikey x = k")
    case ne: False
    then have "\<not> has_key k (inorder T)"
      using cases(2,3) by (cases "ikey x" k rule: linorder_cases) (auto simp: not_has_key simp flip: eq)
    moreover have "sp_remove n k t = Inl (ThrownNum ''Key not found: '' k)"
      using sp r1 kx emp ne by (simp add: sp_remove_def)
    ultimately show ?thesis by simp
  next
    case k: True
    then have AB: "keys_below k (inorder A)" "keys_above k (inorder B)" using cases(1) by auto
    have hk: "has_key k (inorder T)" "x \<in> set (inorder T)" using k by (auto simp flip: eq)
    have rest: "[x \<leftarrow> inorder T. ikey x \<noteq> k] = inorder A @ inorder B"
      using AB k by (auto simp: filter_below filter_above simp flip: eq)
    have repA: "rep (sheap t1) (nleft (sheap t1 (iaddr x))) A" and repB: "rep (sheap t1) (nright (sheap t1 (iaddr x))) B"
      using rel1 by (simp_all add: sp_rel_def)
    show ?thesis
    proof (cases "nleft (sheap t1 (iaddr x))")
      case None
      let ?t = "t1\<lparr>sroot := nright (sheap t1 (iaddr x))\<rparr>"
      have "sp_remove n k t = Inr (iaddr x, ?t)"
        using sp r1 kx emp k None by (simp add: sp_remove_def)
      moreover have "A = Leaf" using repA None by simp
      moreover have "sp_rel ?t B" using rel1 by (simp add: sp_rel_def)
      ultimately show ?thesis using hk rest k by auto
    next
      case (Some l)
      then have neA: "A \<noteq> Leaf" using repA by auto
      let ?tl = "t1\<lparr>sroot := Some l\<rparr>"
      have rell: "sp_rel ?tl A" using rel1 repA Some by (simp add: sp_rel_def)
      have sortA: "ksorted (inorder A)" and szA: "size A \<le> n"
        using sorted1 n arg_cong [OF eq, of length] by simp_all
      obtain t2 A2 m B2 where
        sp2: "splay n k ?tl = Inr t2" and rel2: "sp_rel t2 (Node A2 m B2)" and r2: "sroot t2 = Some (iaddr m)"
        and eq2: "inorder A2 @ m # inorder B2 = inorder A" and at2: "splayed_at k (Node A2 m B2)"
        and fr2: "sp_frame ?tl A t2" by (rule splay_node [OF rell sortA szA neA])
      have below: "keys_below k (inorder A2 @ m # inorder B2)" using AB eq2 by simp
      have B2: "B2 = Leaf"
      proof -
        have "ikey m < k" "keys_below k (inorder B2)" using below by simp_all
        moreover from this(1) have "keys_above k (inorder B2)" using at2 by (simp add: splayed_at_def)
        ultimately have "set (inorder B2) = {}"
          unfolding keys_below_def keys_above_def by (metis all_not_in_conv less_asym)
        then show ?thesis by (cases B2) auto
      qed
      let ?right = "nright (sheap t1 (iaddr x))"
      let ?h = "set_right (iaddr m) ?right (sheap t2)"
      let ?t = "t2\<lparr>sheap := ?h\<rparr>"
      have res: "sp_remove n k t = Inr (iaddr x, ?t)"
        using sp r1 kx emp k Some sp2 r2 by (simp add: sp_remove_def Let_def)
      have adA: "taddrs A = taddrs A2 @ [iaddr m]"
        using B2 by (simp add: taddrs_inorder flip: eq2)
      have dist: "distinct (taddrs A @ iaddr x # taddrs B)" using rel1 by (simp add: sp_rel_def)
      have sameB: "sheap t2 a = sheap t1 a" if "a \<in> set (taddrs B)" for a
        using that fr2 rel1 dist by (auto simp: sp_frame_def sp_rel_def)
      have le: "sfree t1 \<le> sfree t2" using fr2 by (simp add: sp_frame_def)
      have "rep (sheap t2) ?right B" using repB rep_cong [OF sameB] by simp
      moreover have mB: "iaddr m \<notin> set (taddrs B)" "iaddr m \<notin> set (taddrs A2)"
        using dist adA by auto
      ultimately have B': "rep ?h ?right B" by (simp add: rep_set_right)
      have m: "holds (sheap t2) m" "rep (sheap t2) (nleft (sheap t2 (iaddr m))) A2"
        using rel2 by (simp_all add: sp_rel_def)
      have "rep ?h (sroot ?t) (Node A2 m B)"
        using r2 B' m mB by (simp add: rep_set_right)
      moreover have "distinct (taddrs (Node A2 m B))" using dist adA by auto
      moreover have "a < sfree ?t" if "a \<in> set (taddrs (Node A2 m B))" for a
      proof -
        have "a \<in> set (taddrs (Node A2 m B2)) \<or> a \<in> set (taddrs (Node A x B))" using that by auto
        moreover have "\<forall>a \<in> set (taddrs (Node A2 m B2)). a < sfree t2"
          "\<forall>a \<in> set (taddrs (Node A x B)). a < sfree t1"
          using rel1 rel2 unfolding sp_rel_def by blast+
        ultimately have "a < sfree t2" using le less_le_trans by blast
        then show ?thesis by simp
      qed
      ultimately have "sp_rel ?t (Node A2 m B)" unfolding sp_rel_def by simp
      moreover have "inorder (Node A2 m B) = [x \<leftarrow> inorder T. ikey x \<noteq> k]"
        using rest eq2 B2 by auto
      ultimately show ?thesis using res hk k by (metis (mono_tags))
    qed
  qed
qed
end
