(* ===== verification/Splay_Bench.thy ===== *)
theory Splay_Bench
  imports Splay_Correct
begin

text \<open>
  The client of the splay tree: the set-up, run and tear-down of \<open>v8/splay.js\<close> rest on a
  small interface, a store of keys (\<open>key_store\<close>), which the tree operations of the model
  implement. The properties of the tree and of the benchmark close the theory.
\<close>

locale key_store =
  fixes store :: "'s \<Rightarrow> key set \<Rightarrow> bool"
    and ins :: "nat \<Rightarrow> key \<Rightarrow> 'v \<Rightarrow> 's \<Rightarrow> 's res"
    and rem :: "nat \<Rightarrow> key \<Rightarrow> 's \<Rightarrow> ('n \<times> 's) res"
    and fnd :: "nat \<Rightarrow> key \<Rightarrow> 's \<Rightarrow> ('n option \<times> 's) res"
    and glt :: "nat \<Rightarrow> key \<Rightarrow> 's \<Rightarrow> ('n option \<times> 's) res"
    and exprt :: "nat \<Rightarrow> 's \<Rightarrow> key option list res"
    and keyat :: "'s \<Rightarrow> 'n \<Rightarrow> key option"
  assumes store_finite: "store s K \<Longrightarrow> finite K"
    and store_ins: "store s K \<Longrightarrow> card K \<le> n \<Longrightarrow> \<exists>s'. ins n k v s = Inr s' \<and> store s' (insert k K)"
    and store_rem: "store s K \<Longrightarrow> card K \<le> n \<Longrightarrow> k \<in> K \<Longrightarrow> \<exists>a s'. rem n k s = Inr (a, s') \<and> store s' (K - {k})"
    and store_fnd: "store s K \<Longrightarrow> card K \<le> n \<Longrightarrow> \<exists>p s'. fnd n k s = Inr (p, s') \<and> store s' K \<and> (p = None \<longleftrightarrow> k \<notin> K)"
    and store_glt: "store s K \<Longrightarrow> card K \<le> n \<Longrightarrow> \<exists>p s'. glt n k s = Inr (p, s') \<and> store s' K \<and>
       (case p of None \<Rightarrow> \<forall>x \<in> K. k \<le> x | Some a \<Rightarrow> \<exists>x \<in> K. x < k \<and> keyat s' a = Some x)"
    and store_exprt: "store s K \<Longrightarrow> card K < n \<Longrightarrow> exprt n s = Inr (map Some (sorted_list_of_set K))"
begin

lemma insert_fresh:
  assumes "store s K" "card K \<le> n" "k \<notin> K"
  shows "\<exists>s'. ins n k v s = Inr s' \<and> store s' (insert k K) \<and> card (insert k K) = Suc (card K)"
  using assms store_ins [of s K n k v] store_finite [of s K] by auto

lemma remove_neighbour:
  assumes st: "store s K" and n: "card K \<le> n" and k: "k \<in> K"
  shows "\<exists>s' x. rbind (glt n k s) (\<lambda>(g, s). case g of
      None \<Rightarrow> rbind (rem n k s) (\<lambda>(a, s). ok (s, z))
    | Some a \<Rightarrow> rbind (deref (keyat s a)) (\<lambda>gk. rbind (rem n gk s) (\<lambda>(a, s). ok (s, z)))) = Inr (s', z)
    \<and> store s' (K - {x}) \<and> Suc (card (K - {x})) = card K"
proof -
  from store_glt [OF st n, of k] obtain p s1 where
    g: "glt n k s = Inr (p, s1)" and st1: "store s1 K"
    and p: "case p of None \<Rightarrow> \<forall>x \<in> K. k \<le> x | Some a \<Rightarrow> \<exists>x \<in> K. x < k \<and> keyat s1 a = Some x"
    by blast
  have "\<exists>x \<in> K. p = None \<and> x = k \<or> (\<exists>a. p = Some a \<and> keyat s1 a = Some x)"
    using p k by (cases p) auto
  then obtain x where x: "x \<in> K" and px: "p = None \<and> x = k \<or> (\<exists>a. p = Some a \<and> keyat s1 a = Some x)"
    by blast
  from store_rem [OF st1 n x] obtain a s2 where "rem n x s1 = Inr (a, s2)" "store s2 (K - {x})" by blast
  moreover have "Suc (card (K - {x})) = card K"
    using x store_finite [OF st] by (metis card_Suc_Diff1)
  ultimately show ?thesis using g px by auto
qed

lemma export_checked:
  assumes "store s K" "card K < n" "exprt n s = Inr ks"
  shows "length ks = card K \<and> sorted_wrt (\<lambda>x y. keynum x < keynum y) ks"
proof -
  have fin: "finite K" using assms(1) by (rule store_finite)
  have ks: "ks = map Some (sorted_list_of_set K)" using store_exprt [OF assms(1,2)] assms(3) by simp
  have "sorted_wrt (<) (sorted_list_of_set K)" by simp
  then show ?thesis using fin by (simp add: ks sorted_wrt_map keynum_def)
qed

end

definition holds_keys :: "'v sptree \<Rightarrow> key set \<Rightarrow> bool" where
  "holds_keys t K \<longleftrightarrow> (\<exists>T. sp_rel t T \<and> ksorted (inorder T) \<and> K = ikey ` set (inorder T))"

lemma ksorted_filter: "ksorted xs \<Longrightarrow> ksorted (filter P xs)"
  by (simp add: ksorted_def sorted_wrt_filter)

lemma ksorted_distinct: "ksorted xs \<Longrightarrow> distinct (map ikey xs)"
  by (induction xs) (auto simp: keys_above_def)

lemma ksorted_ins: "ksorted xs \<Longrightarrow> ksorted (ins_item x xs)"
  by (auto simp: ins_item_def ksorted_filter keys_below_def keys_above_def)

lemma ksorted_card: "ksorted (inorder T) \<Longrightarrow> card (ikey ` set (inorder T)) = size T"
  by (metis ksorted_distinct distinct_card length_inorder length_map set_map)

lemma keys_ins: "\<not> has_key (ikey x) xs \<Longrightarrow> ikey ` set (ins_item x xs) = insert (ikey x) (ikey ` set xs)"
  by (auto simp: ins_item_def has_key_def image_iff)

lemma rep_key: "rep h p S \<Longrightarrow> y \<in> set_tree S \<Longrightarrow> nkey (h (iaddr y)) = Some (ikey y)"
  by (induction h p S rule: rep.induct) (auto simp: holds_def)

lemma sp_rel_key: "sp_rel t T \<Longrightarrow> x \<in> set (inorder T) \<Longrightarrow> nkey (sheap t (iaddr x)) = Some (ikey x)"
  by (auto simp: sp_rel_def intro: rep_key)

interpretation sp: key_store holds_keys "sp_insert :: nat \<Rightarrow> key \<Rightarrow> 'v \<Rightarrow> 'v sptree \<Rightarrow> 'v sptree res"
  sp_remove sp_find findGreatestLessThan exportKeys "\<lambda>t a. nkey (sheap t a)"
proof
  fix s :: "'v sptree" and K n k and v :: 'v
  assume "holds_keys s K"
  then obtain T where T: "sp_rel s T" "ksorted (inorder T)" and K: "K = ikey ` set (inorder T)"
    by (auto simp: holds_keys_def)
  have card: "card K = size T" using T K ksorted_card by simp
  show "finite K" by (simp add: K)
  show "\<exists>s'. sp_insert n k v s = Inr s' \<and> holds_keys s' (insert k K)" if n: "card K \<le> n"
  proof -
    from sp_insert_correct [OF T, of n k v] n card obtain s' T' a where
      "sp_insert n k v s = Inr s'" "sp_rel s' T'"
      "inorder T' = (if has_key k (inorder T) then inorder T else ins_item (Item a k (Some v)) (inorder T))"
      by auto
    moreover from this(3) have "ksorted (inorder T')" "insert k K = ikey ` set (inorder T')"
      using T(2) K ksorted_ins keys_ins [of "Item a k (Some v)" "inorder T"] by (auto simp: has_key_def)
    ultimately show ?thesis unfolding holds_keys_def by blast
  qed
  show "\<exists>a s'. sp_remove n k s = Inr (a, s') \<and> holds_keys s' (K - {k})" if "card K \<le> n" "k \<in> K"
  proof -
    have "has_key k (inorder T)" using that K by (simp add: has_key_def)
    with sp_remove_correct [OF T, of n k] that card obtain a s' T' where
      "sp_remove n k s = Inr (a, s')" "sp_rel s' T'" and eq: "inorder T' = [x \<leftarrow> inorder T. ikey x \<noteq> k]"
      by auto
    moreover have "ksorted (inorder T')" "K - {k} = ikey ` set (inorder T')"
      using T(2) K ksorted_filter unfolding eq by auto
    ultimately show ?thesis unfolding holds_keys_def by blast
  qed
  show "\<exists>p s'. sp_find n k s = Inr (p, s') \<and> holds_keys s' K \<and> (p = None \<longleftrightarrow> k \<notin> K)" if "card K \<le> n"
  proof -
    from sp_find_correct [OF T, of n k] that card obtain p s' T' where
      "sp_find n k s = Inr (p, s')" "sp_rel s' T'" "inorder T' = inorder T"
      "case p of None \<Rightarrow> \<not> has_key k (inorder T) 
       | Some a \<Rightarrow> \<exists>x \<in> set (inorder T). iaddr x = a \<and> ikey x = k" by auto
    moreover from this(4) have "p = None \<longleftrightarrow> k \<notin> K"
      by (auto simp: K has_key_def split: option.splits)
    ultimately show ?thesis unfolding holds_keys_def using T(2) K by metis
  qed
  show "\<exists>p s'. findGreatestLessThan n k s = Inr (p, s') \<and> holds_keys s' K \<and>
       (case p of None \<Rightarrow> \<forall>x \<in> K. k \<le> x | Some a \<Rightarrow> \<exists>x \<in> K. x < k \<and> nkey (sheap s' a) = Some x)"
    if "card K \<le> n"
  proof -
    let ?b = "[x \<leftarrow> inorder T. ikey x < k]"
    let ?p = "if ?b = [] then None else Some (iaddr (last ?b))"
    from findGreatestLessThan_correct [OF T, of n k] that card obtain s' T' where
      r: "findGreatestLessThan n k s = Inr (?p, s')" "sp_rel s' T'" "inorder T' = inorder T" by (auto simp: Let_def)
    have "case ?p of None \<Rightarrow> \<forall>x \<in> K. k \<le> x | Some a \<Rightarrow> \<exists>x \<in> K. x < k \<and> nkey (sheap s' a) = Some x"
    proof (cases "?b = []")
      case True
      then show ?thesis by (auto simp: K filter_empty_conv not_less)
    next
      case False
      then have l: "last ?b \<in> set ?b" by (rule last_in_set)
      then have "last ?b \<in> set (inorder T')" "ikey (last ?b) < k" using r(3) by auto
      with False show ?thesis using sp_rel_key [OF r(2)] r(3) K by auto
    qed
    moreover have "holds_keys s' K" using r T K unfolding holds_keys_def by metis
    ultimately show ?thesis using r(1) by blast
  qed
  show "exportKeys n s = Inr (map Some (sorted_list_of_set K))" if "card K < n"
  proof -
    have "sorted_list_of_set K = map ikey (inorder T)"
      using T(2) K by (metis finite_set ksorted_def set_map sorted_list_of_set.idem_if_sorted_distinct sorted_wrt_map strict_sorted_iff)
    then show ?thesis using exportKeys_correct [OF T(1), of n] that card by simp
  qed
qed

section \<open>The benchmark\<close>


















section \<open>Properties\<close>

text \<open>A three-node tree, for the instances below.\<close>

definition demo_tree :: "payload sptree" where
  "demo_tree = \<lparr>sheap = (\<lambda>a. if a = 0 then \<lparr>nkey = Some 2, nvalue = Some (PayloadLeaf [20] ''tag''), nleft = Some 1, nright = Some 2\<rparr>
      else if a = 1 then \<lparr>nkey = Some 1, nvalue = Some (PayloadLeaf [10] ''tag''), nleft = None, nright = None\<rparr>
      else \<lparr>nkey = Some 3, nvalue = Some (PayloadLeaf [30] ''tag''), nleft = None, nright = None\<rparr>), sfree = 3, sroot = Some 0\<rparr>"

definition demo_model :: "payload item tree" where
  "demo_model = Node (Node Leaf (Item 1 1 (Some (PayloadLeaf [10] ''tag''))) Leaf) (Item 0 2 (Some (PayloadLeaf [20] ''tag''))) (Node Leaf (Item 2 3 (Some (PayloadLeaf [30] ''tag''))) Leaf)"

lemma demo_rel: "sp_rel demo_tree demo_model"
  by (simp add: sp_rel_def demo_tree_def demo_model_def holds_def)

lemma demo_sorted: "ksorted (inorder demo_model)" "size demo_model \<le> 3"
  by (simp_all add: demo_model_def)

text \<open>
  C2: splaying at a key succeeds on every well-formed tree object, keeps the in-order
  sequence of nodes (the same objects with the same keys and values), leaves at the root a
  node between the keys below and the keys above the given one, and touches no object
  outside the tree; as many rounds as the tree has nodes are enough.
\<close>

theorem splay_restructures:
  assumes "sp_rel t T" and "ksorted (inorder T)" and "size T \<le> n"
  shows "\<exists>t' T'. splay n k t = Inr t' \<and> sp_rel t' T' \<and> inorder T' = inorder T \<and> splayed_at k T' \<and> sp_frame t T t'"
  using assms by (rule splay_correct)

theorem splay_restructures_witness:
  "\<exists>t' T'. splay 3 2 demo_tree = Inr t' \<and> sp_rel t' T' \<and> inorder T' = inorder demo_model \<and>
     splayed_at 2 T' \<and> sp_frame demo_tree demo_model t'"
  by (rule splay_restructures [OF demo_rel demo_sorted])

text \<open>
  C22: \<open>insert\<close> adds the key and value in order when the key is new, in a newly allocated
  node, and keeps the sequence of nodes (the old value included) when the key is there.
\<close>

theorem insert_contract:
  assumes "sp_rel t T" and "ksorted (inorder T)" and "size T \<le> n"
  shows "\<exists>t' T' a. sp_insert n k v t = Inr t' \<and> sp_rel t' T' \<and> sfree t \<le> a \<and>
    inorder T' = (if has_key k (inorder T) then inorder T else ins_item (Item a k (Some v)) (inorder T))"
  using assms by (rule sp_insert_correct)

theorem insert_contract_witness:
  "\<exists>t' T' a. sp_insert 3 5 (PayloadLeaf [] ''new'') demo_tree = Inr t' \<and> sp_rel t' T' \<and> sfree demo_tree \<le> a \<and>
    inorder T' = (if has_key 5 (inorder demo_model) then inorder demo_model
      else ins_item (Item a 5 (Some (PayloadLeaf [] ''new''))) (inorder demo_model))"
  by (rule insert_contract [OF demo_rel demo_sorted])

text \<open>
  \<open>find\<close> returns the node of the key when the tree holds it and \<open>null\<close> otherwise, and
  only restructures the tree.
\<close>

theorem find_contract:
  assumes "sp_rel t T" and "ksorted (inorder T)" and "size T \<le> n"
  shows "\<exists>p t' T'. sp_find n k t = Inr (p, t') \<and> sp_rel t' T' \<and> inorder T' = inorder T \<and>
    (case p of None \<Rightarrow> \<not> has_key k (inorder T)
     | Some a \<Rightarrow> \<exists>x \<in> set (inorder T). iaddr x = a \<and> ikey x = k)"
  using assms by (rule sp_find_correct)

theorem find_contract_witness:
  "\<exists>p t' T'. sp_find 3 3 demo_tree = Inr (p, t') \<and> sp_rel t' T' \<and> inorder T' = inorder demo_model \<and>
    (case p of None \<Rightarrow> \<not> has_key 3 (inorder demo_model)
     | Some a \<Rightarrow> \<exists>x \<in> set (inorder demo_model). iaddr x = a \<and> ikey x = 3)"
  by (rule find_contract [OF demo_rel demo_sorted])

text \<open>
  C18: \<open>remove\<close> deletes exactly the node of the key and returns it; a key the tree does not
  hold is the error \<open>Key not found\<close>.
\<close>

theorem remove_contract:
  assumes "sp_rel t T" and "ksorted (inorder T)" and "size T \<le> n"
  shows "if has_key k (inorder T)
    then \<exists>a t' T'. sp_remove n k t = Inr (a, t') \<and> sp_rel t' T' \<and>
           inorder T' = [x \<leftarrow> inorder T. ikey x \<noteq> k] \<and> (\<exists>x \<in> set (inorder T). ikey x = k \<and> iaddr x = a)
    else sp_remove n k t = Inl (ThrownNum ''Key not found: '' k)"
  using assms by (rule sp_remove_correct)

theorem remove_contract_witness:
  "(\<exists>a t' T'. sp_remove 3 2 demo_tree = Inr (a, t') \<and> sp_rel t' T' \<and>
      inorder T' = [Item 1 1 (Some (PayloadLeaf [10] ''tag'')), Item 2 3 (Some (PayloadLeaf [30] ''tag''))]) \<and>
   sp_remove 3 7 demo_tree = Inl (ThrownNum ''Key not found: '' 7)"
  using remove_contract [OF demo_rel demo_sorted, of 2] remove_contract [OF demo_rel demo_sorted, of 7]
  by (auto simp: demo_model_def has_key_def)

text \<open>
  \<open>findGreatestLessThan\<close> returns the node with the greatest key below the given one,
  \<open>null\<close> when there is none, and only restructures the tree.
\<close>

theorem findGreatestLessThan_contract:
  assumes "sp_rel t T" and "ksorted (inorder T)" and "size T \<le> n"
  shows "\<exists>t' T'. findGreatestLessThan n k t =
      Inr (let below = [x \<leftarrow> inorder T. ikey x < k] in if below = [] then None else Some (iaddr (last below)), t') \<and>
    sp_rel t' T' \<and> inorder T' = inorder T"
  using assms by (rule findGreatestLessThan_correct)

theorem findGreatestLessThan_contract_witness:
  "\<exists>t' T'. findGreatestLessThan 3 3 demo_tree = Inr (Some 0, t') \<and>
    sp_rel t' T' \<and> inorder T' = inorder demo_model"
  using findGreatestLessThan_contract [OF demo_rel demo_sorted, of 3] by (simp add: demo_model_def)

lemma keys_sorted_check_iff:
  "keys_sorted_check ks =
    (if sorted_wrt (\<lambda>x y. keynum x < keynum y) ks then Inr () else Inl (Thrown ''Splay tree not sorted''))"
proof (induction ks rule: keys_sorted_check.induct)
  case (1 x y ks)
  have "sorted_wrt (\<lambda>x y. keynum x < keynum y) (x # y # ks) \<longleftrightarrow>
    keynum x < keynum y \<and> sorted_wrt (\<lambda>x y. keynum x < keynum y) (y # ks)"
    by auto
  then show ?case using 1 by (auto simp del: sorted_wrt.simps)
qed auto

text \<open>
  C24: the tear-down accepts a tree object exactly when it has 8000 nodes with strictly
  ascending keys, and otherwise throws the error for the size, checked first, or for the
  order; the global variable is \<open>null\<close> afterwards in each case.
\<close>

theorem SplayTearDown_checks:
  assumes "sp_rel t T" and "size T < n"
  shows "SplayTearDown n (t, seed) =
    (None, if size T \<noteq> kSplayTreeSize then Inl (Thrown ''Splay tree has wrong size'')
           else if ksorted (inorder T) then Inr ()
           else Inl (Thrown ''Splay tree not sorted''))"
  using exportKeys_correct [OF assms]
  by (simp add: SplayTearDown_def keys_sorted_check_iff ksorted_def sorted_wrt_map keynum_def)

theorem SplayTearDown_checks_witness:
  "SplayTearDown 4 (demo_tree, 1) = (None, Inl (Thrown ''Splay tree has wrong size''))"
  using SplayTearDown_checks [OF demo_rel, of 4 1] by (simp add: demo_model_def kSplayTreeSize_def)



end
