(* ===== verification/Richards.thy ===== *)
theory Richards
  imports Js_Prelude
begin

text \<open>
  The Richards benchmark \<open>v8/richards.js\<close>, the task dispatcher of an operating system:
  packets, task control blocks and the scheduler, with every method as the code writes it.
  Packets and control blocks are objects in two stores, the lists \<open>pkts\<close> and \<open>tcbs\<close> in the
  order of their allocation; a reference is an index, \<open>null\<close> (and \<open>undefined\<close>, which the
  code never tells from it) is \<open>None\<close>. A task object is reachable only through its control
  block and is stored in it.
\<close>

section \<open>Objects\<close>

type_synonym paddr = nat
type_synonym taddr = nat

record packet =
  p_link :: "paddr option"
  p_id :: "int option"
  p_kind :: int
  p_a1 :: "int option"
  p_a2 :: "int option list"

datatype task =
    IdleTask (idle_v1: int) (idle_count: int)
  | DeviceTask (device_v1: "paddr option")
  | WorkerTask (worker_v1: int) (worker_v2: int)
  | HandlerTask (handler_v1: "paddr option") (handler_v2: "paddr option")

record tcb =
  t_link :: "taddr option"
  t_id :: int
  t_priority :: int
  t_queue :: "paddr option"
  t_state :: int
  t_task :: task

record sched =
  queueCount :: int
  holdCount :: int
  blocks :: "int \<Rightarrow> taddr option"
  slist :: "taddr option"
  currentTcb :: "taddr option"
  currentId :: "int option"
  tcbs :: "tcb list"
  pkts :: "packet list"

section \<open>Constants\<close>

definition COUNT :: int where "COUNT = 1000"
definition EXPECTED_QUEUE_COUNT :: int where "EXPECTED_QUEUE_COUNT = 2322"
definition EXPECTED_HOLD_COUNT :: int where "EXPECTED_HOLD_COUNT = 928"

definition ID_IDLE :: int where "ID_IDLE = 0"
definition ID_WORKER :: int where "ID_WORKER = 1"
definition ID_HANDLER_A :: int where "ID_HANDLER_A = 2"
definition ID_HANDLER_B :: int where "ID_HANDLER_B = 3"
definition ID_DEVICE_A :: int where "ID_DEVICE_A = 4"
definition ID_DEVICE_B :: int where "ID_DEVICE_B = 5"

definition KIND_DEVICE :: int where "KIND_DEVICE = 0"
definition KIND_WORK :: int where "KIND_WORK = 1"

definition STATE_RUNNING :: int where "STATE_RUNNING = 0"
definition STATE_RUNNABLE :: int where "STATE_RUNNABLE = 1"
definition STATE_SUSPENDED :: int where "STATE_SUSPENDED = 2"
definition STATE_HELD :: int where "STATE_HELD = 4"
definition STATE_SUSPENDED_RUNNABLE :: int where
  "STATE_SUSPENDED_RUNNABLE = js_or STATE_SUSPENDED STATE_RUNNABLE"
definition STATE_NOT_HELD :: int where "STATE_NOT_HELD = js_not STATE_HELD"

definition DATA_SIZE :: nat where "DATA_SIZE = 4"

section \<open>Packets\<close>

definition Packet :: "paddr option \<Rightarrow> int \<Rightarrow> int \<Rightarrow> packet" where
  "Packet link i kind =
    \<lparr>p_link = link, p_id = Some i, p_kind = kind, p_a1 = Some 0, p_a2 = replicate DATA_SIZE None\<rparr>"

definition upd_pkt :: "paddr \<Rightarrow> (packet \<Rightarrow> packet) \<Rightarrow> packet list \<Rightarrow> packet list" where
  "upd_pkt p f h = h[p := f (h ! p)]"

text \<open>
  The loop of \<open>addTo\<close>, which follows the links to the last packet. A list without a cycle has
  no more packets than the store, so that the loop that runs out of this fuel never ends.
\<close>

fun last_packet :: "nat \<Rightarrow> packet list \<Rightarrow> paddr \<Rightarrow> paddr res" where
  "last_packet 0 h nxt = throw OutOfFuel"
| "last_packet (Suc n) h nxt =
    (case p_link (h ! nxt) of None \<Rightarrow> ok nxt | Some peek \<Rightarrow> last_packet n h peek)"

definition addTo :: "paddr \<Rightarrow> paddr option \<Rightarrow> packet list \<Rightarrow> (paddr option \<times> packet list) res" where
  "addTo this queue h =
    (let h = upd_pkt this (\<lambda>p. p\<lparr>p_link := None\<rparr>) h
     in case queue of
          None \<Rightarrow> ok (Some this, h)
        | Some q \<Rightarrow> rbind (last_packet (length h) h q) (\<lambda>nxt.
            ok (Some q, upd_pkt nxt (\<lambda>p. p\<lparr>p_link := Some this\<rparr>) h)))"

section \<open>Task control blocks\<close>

definition TaskControlBlock ::
  "taddr option \<Rightarrow> int \<Rightarrow> int \<Rightarrow> paddr option \<Rightarrow> task \<Rightarrow> tcb" where
  "TaskControlBlock link i priority queue task =
    \<lparr>t_link = link, t_id = i, t_priority = priority, t_queue = queue,
     t_state = (if queue = None then STATE_SUSPENDED else STATE_SUSPENDED_RUNNABLE), t_task = task\<rparr>"

definition setRunning :: "tcb \<Rightarrow> tcb" where
  "setRunning t = t\<lparr>t_state := STATE_RUNNING\<rparr>"

definition markAsNotHeld :: "tcb \<Rightarrow> tcb" where
  "markAsNotHeld t = t\<lparr>t_state := js_and (t_state t) STATE_NOT_HELD\<rparr>"

definition markAsHeld :: "tcb \<Rightarrow> tcb" where
  "markAsHeld t = t\<lparr>t_state := js_or (t_state t) STATE_HELD\<rparr>"

definition isHeldOrSuspended :: "tcb \<Rightarrow> bool" where
  "isHeldOrSuspended t \<longleftrightarrow> js_and (t_state t) STATE_HELD \<noteq> 0 \<or> t_state t = STATE_SUSPENDED"

definition markAsSuspended :: "tcb \<Rightarrow> tcb" where
  "markAsSuspended t = t\<lparr>t_state := js_or (t_state t) STATE_SUSPENDED\<rparr>"

definition markAsRunnable :: "tcb \<Rightarrow> tcb" where
  "markAsRunnable t = t\<lparr>t_state := js_or (t_state t) STATE_RUNNABLE\<rparr>"

definition upd_tcb :: "taddr \<Rightarrow> (tcb \<Rightarrow> tcb) \<Rightarrow> sched \<Rightarrow> sched" where
  "upd_tcb a f s = s\<lparr>tcbs := (tcbs s)[a := f (tcbs s ! a)]\<rparr>"

definition checkPriorityAdd ::
  "taddr \<Rightarrow> taddr option \<Rightarrow> paddr \<Rightarrow> sched \<Rightarrow> (taddr option \<times> sched) res" where
  "checkPriorityAdd this task packet s =
    (if t_queue (tcbs s ! this) = None then
       (let s = upd_tcb this (\<lambda>t. t\<lparr>t_queue := Some packet\<rparr>) s;
            s = upd_tcb this markAsRunnable s
        in rbind (deref task) (\<lambda>c.
           ok (if t_priority (tcbs s ! this) > t_priority (tcbs s ! c) then Some this else task, s)))
     else
       rbind (addTo packet (t_queue (tcbs s ! this)) (pkts s)) (\<lambda>(q, h).
       ok (task, upd_tcb this (\<lambda>t. t\<lparr>t_queue := q\<rparr>) (s\<lparr>pkts := h\<rparr>))))"

fun task_toString :: "task \<Rightarrow> string" where
  "task_toString (IdleTask v1 count) = ''IdleTask''"
| "task_toString (DeviceTask v1) = ''DeviceTask''"
| "task_toString (WorkerTask v1 v2) = ''WorkerTask''"
| "task_toString (HandlerTask v1 v2) = ''HandlerTask''"

definition tcb_toString :: "tcb \<Rightarrow> string" where
  "tcb_toString t = ''tcb { '' @ task_toString (t_task t) @ ''@'' @ show_int (t_state t) @ '' }''"

section \<open>The scheduler\<close>

definition Scheduler :: sched where
  "Scheduler = \<lparr>queueCount = 0, holdCount = 0, blocks = (\<lambda>_. None), slist = None, currentTcb = None,
     currentId = None, tcbs = [], pkts = []\<rparr>"

text \<open>The scheduler's part of \<open>new Packet(link, id, kind)\<close> is the allocation.\<close>

definition new_packet :: "paddr option \<Rightarrow> int \<Rightarrow> int \<Rightarrow> sched \<Rightarrow> paddr option \<times> sched" where
  "new_packet link i kind s = (Some (length (pkts s)), s\<lparr>pkts := pkts s @ [Packet link i kind]\<rparr>)"

definition addTask :: "int \<Rightarrow> int \<Rightarrow> paddr option \<Rightarrow> task \<Rightarrow> sched \<Rightarrow> sched" where
  "addTask i priority queue task s =
    (let a = length (tcbs s);
         s = s\<lparr>tcbs := tcbs s @ [TaskControlBlock (slist s) i priority queue task], currentTcb := Some a\<rparr>;
         s = s\<lparr>slist := currentTcb s\<rparr>
     in s\<lparr>blocks := (blocks s)(i := currentTcb s)\<rparr>)"

definition addRunningTask :: "int \<Rightarrow> int \<Rightarrow> paddr option \<Rightarrow> task \<Rightarrow> sched \<Rightarrow> sched res" where
  "addRunningTask i priority queue task s =
    (let s = addTask i priority queue task s
     in rbind (deref (currentTcb s)) (\<lambda>c. ok (upd_tcb c setRunning s)))"

definition addIdleTask :: "int \<Rightarrow> int \<Rightarrow> paddr option \<Rightarrow> int \<Rightarrow> sched \<Rightarrow> sched res" where
  "addIdleTask i priority queue count s = addRunningTask i priority queue (IdleTask 1 count) s"

definition addWorkerTask :: "int \<Rightarrow> int \<Rightarrow> paddr option \<Rightarrow> sched \<Rightarrow> sched" where
  "addWorkerTask i priority queue s = addTask i priority queue (WorkerTask ID_HANDLER_A 0) s"

definition addHandlerTask :: "int \<Rightarrow> int \<Rightarrow> paddr option \<Rightarrow> sched \<Rightarrow> sched" where
  "addHandlerTask i priority queue s = addTask i priority queue (HandlerTask None None) s"

definition addDeviceTask :: "int \<Rightarrow> int \<Rightarrow> paddr option \<Rightarrow> sched \<Rightarrow> sched" where
  "addDeviceTask i priority queue s = addTask i priority queue (DeviceTask None) s"

definition release :: "int \<Rightarrow> sched \<Rightarrow> (taddr option \<times> sched) res" where
  "release i s =
    (case blocks s i of
       None \<Rightarrow> ok (None, s)
     | Some t \<Rightarrow>
         (let s = upd_tcb t markAsNotHeld s
          in rbind (deref (currentTcb s)) (\<lambda>c.
             ok (if t_priority (tcbs s ! t) > t_priority (tcbs s ! c) then Some t else Some c, s))))"

definition holdCurrent :: "sched \<Rightarrow> (taddr option \<times> sched) res" where
  "holdCurrent s =
    (let s = s\<lparr>holdCount := holdCount s + 1\<rparr>
     in rbind (deref (currentTcb s)) (\<lambda>c.
        let s = upd_tcb c markAsHeld s in ok (t_link (tcbs s ! c), s)))"

definition suspendCurrent :: "sched \<Rightarrow> (taddr option \<times> sched) res" where
  "suspendCurrent s =
    rbind (deref (currentTcb s)) (\<lambda>c. let s = upd_tcb c markAsSuspended s in ok (currentTcb s, s))"

definition queue :: "paddr \<Rightarrow> sched \<Rightarrow> (taddr option \<times> sched) res" where
  "queue packet s =
    (case Option.bind (p_id (pkts s ! packet)) (blocks s) of
       None \<Rightarrow> ok (None, s)
     | Some t \<Rightarrow>
         (let s = s\<lparr>queueCount := queueCount s + 1\<rparr>;
              s = s\<lparr>pkts := upd_pkt packet (\<lambda>p. p\<lparr>p_link := None\<rparr>) (pkts s)\<rparr>;
              s = s\<lparr>pkts := upd_pkt packet (\<lambda>p. p\<lparr>p_id := currentId s\<rparr>) (pkts s)\<rparr>
          in checkPriorityAdd t (currentTcb s) packet s))"

section \<open>The tasks\<close>

text \<open>Each \<open>run\<close> writes the fields of its task object \<open>this\<close>, which sits in the block \<open>a\<close>.\<close>

definition set_task :: "taddr \<Rightarrow> task \<Rightarrow> sched \<Rightarrow> sched" where
  "set_task a k s = upd_tcb a (\<lambda>t. t\<lparr>t_task := k\<rparr>) s"

definition IdleTask_run :: "taddr \<Rightarrow> int \<Rightarrow> int \<Rightarrow> sched \<Rightarrow> (taddr option \<times> sched) res" where
  "IdleTask_run a v1 count s =
    (let count = count - 1
     in if count = 0 then holdCurrent (set_task a (IdleTask v1 count) s)
        else if js_and v1 1 = 0 then release ID_DEVICE_A (set_task a (IdleTask (js_shr v1 1) count) s)
        else release ID_DEVICE_B (set_task a (IdleTask (js_xor (js_shr v1 1) 0xD008) count) s))"

definition DeviceTask_run ::
  "taddr \<Rightarrow> paddr option \<Rightarrow> paddr option \<Rightarrow> sched \<Rightarrow> (taddr option \<times> sched) res" where
  "DeviceTask_run a v1 packet s =
    (case packet of
       None \<Rightarrow>
         (case v1 of
            None \<Rightarrow> suspendCurrent s
          | Some v \<Rightarrow> queue v (set_task a (DeviceTask None) s))
     | Some p \<Rightarrow> holdCurrent (set_task a (DeviceTask (Some p)) s))"

text \<open>The loop of the worker: \<open>k\<close> rounds are left and \<open>i\<close> is its index.\<close>

fun worker_fill :: "nat \<Rightarrow> nat \<Rightarrow> int \<Rightarrow> int option list \<Rightarrow> int \<times> int option list" where
  "worker_fill 0 i v2 a2 = (v2, a2)"
| "worker_fill (Suc k) i v2 a2 =
    (let v2 = v2 + 1; v2 = (if v2 > 26 then 1 else v2)
     in worker_fill k (Suc i) v2 (a2[i := Some v2]))"

definition WorkerTask_run ::
  "taddr \<Rightarrow> int \<Rightarrow> int \<Rightarrow> paddr option \<Rightarrow> sched \<Rightarrow> (taddr option \<times> sched) res" where
  "WorkerTask_run a v1 v2 packet s =
    (case packet of
       None \<Rightarrow> suspendCurrent s
     | Some p \<Rightarrow>
         (let v1 = (if v1 = ID_HANDLER_A then ID_HANDLER_B else ID_HANDLER_A);
              (v2, a2) = worker_fill DATA_SIZE 0 v2 (p_a2 (pkts s ! p));
              s = set_task a (WorkerTask v1 v2) s;
              s = s\<lparr>pkts := upd_pkt p (\<lambda>p. p\<lparr>p_id := Some v1, p_a1 := Some 0, p_a2 := a2\<rparr>) (pkts s)\<rparr>
          in queue p s))"

text \<open>\<open>a2[count]\<close> is \<open>undefined\<close> outside the array.\<close>

definition a2_at :: "int option list \<Rightarrow> int \<Rightarrow> int option" where
  "a2_at xs i = (if 0 \<le> i \<and> nat i < length xs then xs ! nat i else None)"

text \<open>The body of the handler after the packet was sorted into \<open>v1\<close> or \<open>v2\<close>.\<close>

definition HandlerTask_work ::
  "taddr \<Rightarrow> paddr option \<Rightarrow> paddr option \<Rightarrow> sched \<Rightarrow> (taddr option \<times> sched) res" where
  "HandlerTask_work a v1 v2 s =
    (case v1 of
       None \<Rightarrow> suspendCurrent s
     | Some w \<Rightarrow>
         (case p_a1 (pkts s ! w) of
            Some count \<Rightarrow>
              if count < int DATA_SIZE then
                (case v2 of
                   Some v \<Rightarrow>
                     (let s = set_task a (HandlerTask v1 (p_link (pkts s ! v))) s;
                          s = s\<lparr>pkts := upd_pkt v (\<lambda>p. p\<lparr>p_a1 := a2_at (p_a2 (pkts s ! w)) count\<rparr>) (pkts s)\<rparr>;
                          s = s\<lparr>pkts := upd_pkt w (\<lambda>p. p\<lparr>p_a1 := Some (count + 1)\<rparr>) (pkts s)\<rparr>
                      in queue v s)
                 | None \<Rightarrow> suspendCurrent s)
              else queue w (set_task a (HandlerTask (p_link (pkts s ! w)) v2) s)
          | None \<Rightarrow> queue w (set_task a (HandlerTask (p_link (pkts s ! w)) v2) s)))"

definition HandlerTask_run ::
  "taddr \<Rightarrow> paddr option \<Rightarrow> paddr option \<Rightarrow> paddr option \<Rightarrow> sched \<Rightarrow> (taddr option \<times> sched) res" where
  "HandlerTask_run a v1 v2 packet s =
    (case packet of
       None \<Rightarrow> HandlerTask_work a v1 v2 s
     | Some p \<Rightarrow>
         if p_kind (pkts s ! p) = KIND_WORK then
           rbind (addTo p v1 (pkts s)) (\<lambda>(v1, h).
           HandlerTask_work a v1 v2 (set_task a (HandlerTask v1 v2) (s\<lparr>pkts := h\<rparr>)))
         else
           rbind (addTo p v2 (pkts s)) (\<lambda>(v2, h).
           HandlerTask_work a v1 v2 (set_task a (HandlerTask v1 v2) (s\<lparr>pkts := h\<rparr>))))"

definition task_run :: "taddr \<Rightarrow> paddr option \<Rightarrow> sched \<Rightarrow> (taddr option \<times> sched) res" where
  "task_run a packet s =
    (case t_task (tcbs s ! a) of
       IdleTask v1 count \<Rightarrow> IdleTask_run a v1 count s
     | DeviceTask v1 \<Rightarrow> DeviceTask_run a v1 packet s
     | WorkerTask v1 v2 \<Rightarrow> WorkerTask_run a v1 v2 packet s
     | HandlerTask v1 v2 \<Rightarrow> HandlerTask_run a v1 v2 packet s)"

section \<open>Dispatching\<close>

definition tcb_run :: "taddr \<Rightarrow> sched \<Rightarrow> (taddr option \<times> sched) res" where
  "tcb_run a s =
    (if t_state (tcbs s ! a) = STATE_SUSPENDED_RUNNABLE then
       rbind (deref (t_queue (tcbs s ! a))) (\<lambda>p.
         let q = p_link (pkts s ! p);
             s = upd_tcb a (\<lambda>t. t\<lparr>t_queue := q\<rparr>) s;
             s = upd_tcb a (\<lambda>t. t\<lparr>t_state := if q = None then STATE_RUNNING else STATE_RUNNABLE\<rparr>) s
         in task_run a (Some p) s)
     else task_run a None s)"

definition schedule_step :: "taddr \<Rightarrow> sched \<Rightarrow> sched res" where
  "schedule_step a s =
    (if isHeldOrSuspended (tcbs s ! a) then ok (s\<lparr>currentTcb := t_link (tcbs s ! a)\<rparr>)
     else (let s = s\<lparr>currentId := Some (t_id (tcbs s ! a))\<rparr>
           in rbind (tcb_run a s) (\<lambda>(c, s). ok (s\<lparr>currentTcb := c\<rparr>))))"

fun schedule_loop :: "nat \<Rightarrow> sched \<Rightarrow> sched res" where
  "schedule_loop 0 s = throw OutOfFuel"
| "schedule_loop (Suc n) s =
    (case currentTcb s of None \<Rightarrow> ok s | Some a \<Rightarrow> rbind (schedule_step a s) (schedule_loop n))"

definition schedule :: "nat \<Rightarrow> sched \<Rightarrow> sched res" where
  "schedule n s = schedule_loop n (s\<lparr>currentTcb := slist s\<rparr>)"

text \<open>The set-up of \<open>runRichards\<close> for a given idle count, up to the call of \<open>schedule\<close>.\<close>

definition richards_tasks :: "int \<Rightarrow> sched res" where
  "richards_tasks count =
    rbind (addIdleTask ID_IDLE 0 None count Scheduler) (\<lambda>s.
     let (q, s) = new_packet None ID_WORKER KIND_WORK s;
         (q, s) = new_packet q ID_WORKER KIND_WORK s;
         s = addWorkerTask ID_WORKER 1000 q s;
         (q, s) = new_packet None ID_DEVICE_A KIND_DEVICE s;
         (q, s) = new_packet q ID_DEVICE_A KIND_DEVICE s;
         (q, s) = new_packet q ID_DEVICE_A KIND_DEVICE s;
         s = addHandlerTask ID_HANDLER_A 2000 q s;
         (q, s) = new_packet None ID_DEVICE_B KIND_DEVICE s;
         (q, s) = new_packet q ID_DEVICE_B KIND_DEVICE s;
         (q, s) = new_packet q ID_DEVICE_B KIND_DEVICE s;
         s = addHandlerTask ID_HANDLER_B 3000 q s;
         s = addDeviceTask ID_DEVICE_A 4000 None s
     in ok (addDeviceTask ID_DEVICE_B 5000 None s))"

definition runRichards :: "nat \<Rightarrow> unit res" where
  "runRichards n =
    rbind (richards_tasks COUNT) (\<lambda>s. rbind (schedule n s) (\<lambda>s.
      if queueCount s \<noteq> EXPECTED_QUEUE_COUNT \<or> holdCount s \<noteq> EXPECTED_HOLD_COUNT then
        throw (Thrown (''Error during execution: queueCount = '' @ show_int (queueCount s) @
          '', holdCount = '' @ show_int (holdCount s) @ ''.''))
      else ok ()))"

end
