(* ===== verification/Richards_Spec.thy ===== *)
theory Richards_Spec
  imports Richards
begin

text \<open>
  What the dispatcher of \<open>Richards\<close> promises, without its stores and pointers: work queues are
  lists of packets, and the state of a task is whether it is held and whether it is suspended
  (it is runnable when its queue is not empty). A step is a total function; none of the
  errors of the code has a counterpart here.
\<close>

section \<open>Packets and tasks as values\<close>

datatype apkt = APkt (ap_id: "int option") (ap_kind: int) (ap_a1: "int option") (ap_a2: "int option list")

datatype atask =
    AIdle int int
  | ADevice "apkt option"
  | AWorker int int
  | AHandler "apkt list" "apkt list"

datatype atcb = ATcb (at_link: "taddr option") (at_id: int) (at_priority: int) (at_queue: "apkt list")
  (at_held: bool) (at_suspended: bool) (at_task: atask)

record asched =
  a_queueCount :: int
  a_holdCount :: int
  a_blocks :: "int \<Rightarrow> taddr option"
  a_list :: "taddr option"
  a_cur :: "taddr option"
  a_curId :: "int option"
  a_tcbs :: "atcb list"

fun a_with_id :: "int option \<Rightarrow> apkt \<Rightarrow> apkt" where
  "a_with_id i (APkt _ k a1 a2) = APkt i k a1 a2"

fun a_with_a1 :: "int option \<Rightarrow> apkt \<Rightarrow> apkt" where
  "a_with_a1 a1 (APkt i k _ a2) = APkt i k a1 a2"

fun a_set_task :: "atask \<Rightarrow> atcb \<Rightarrow> atcb" where
  "a_set_task k (ATcb l i p q h s _) = ATcb l i p q h s k"

fun a_set_held :: "bool \<Rightarrow> atcb \<Rightarrow> atcb" where
  "a_set_held h (ATcb l i p q _ s k) = ATcb l i p q h s k"

fun a_set_suspended :: "bool \<Rightarrow> atcb \<Rightarrow> atcb" where
  "a_set_suspended s (ATcb l i p q h _ k) = ATcb l i p q h s k"

fun a_set_queue :: "apkt list \<Rightarrow> atcb \<Rightarrow> atcb" where
  "a_set_queue q (ATcb l i p _ h s k) = ATcb l i p q h s k"

definition a_upd :: "taddr \<Rightarrow> (atcb \<Rightarrow> atcb) \<Rightarrow> asched \<Rightarrow> asched" where
  "a_upd a f A = A\<lparr>a_tcbs := (a_tcbs A)[a := f (a_tcbs A ! a)]\<rparr>"

section \<open>The services of the scheduler\<close>

definition a_hold :: "taddr \<Rightarrow> asched \<Rightarrow> asched" where
  "a_hold a A = a_upd a (a_set_held True)
     (A\<lparr>a_holdCount := a_holdCount A + 1, a_cur := at_link (a_tcbs A ! a)\<rparr>)"

definition a_suspend :: "taddr \<Rightarrow> asched \<Rightarrow> asched" where
  "a_suspend a A = a_upd a (a_set_suspended True) A"

definition a_release :: "int \<Rightarrow> taddr \<Rightarrow> asched \<Rightarrow> asched" where
  "a_release i a A =
    (case a_blocks A i of
       None \<Rightarrow> A\<lparr>a_cur := None\<rparr>
     | Some t \<Rightarrow> a_upd t (a_set_held False)
         (A\<lparr>a_cur := Some (if at_priority (a_tcbs A ! t) > at_priority (a_tcbs A ! a) then t else a)\<rparr>))"

definition a_send :: "apkt \<Rightarrow> taddr \<Rightarrow> asched \<Rightarrow> asched" where
  "a_send p a A =
    (case Option.bind (ap_id p) (a_blocks A) of
       None \<Rightarrow> A\<lparr>a_cur := None\<rparr>
     | Some t \<Rightarrow> 
         (let b = a_tcbs A ! t
          in A\<lparr>a_queueCount := a_queueCount A + 1,
               a_tcbs := (a_tcbs A)[t := a_set_queue (at_queue b @ [a_with_id (a_curId A) p]) b],
               a_cur := Some (if at_queue b = [] \<and> at_priority b > at_priority (a_tcbs A ! a) then t else a)\<rparr>))"

section \<open>The tasks\<close>

definition a_idle :: "taddr \<Rightarrow> int \<Rightarrow> int \<Rightarrow> asched \<Rightarrow> asched" where
  "a_idle a v1 count A =
    (if count - 1 = 0 then a_hold a (a_upd a (a_set_task (AIdle v1 (count - 1))) A)
     else if js_and v1 1 = 0 then
       a_release ID_DEVICE_A a (a_upd a (a_set_task (AIdle (js_shr v1 1) (count - 1))) A)
     else
       a_release ID_DEVICE_B a (a_upd a (a_set_task (AIdle (js_xor (js_shr v1 1) 0xD008) (count - 1))) A))"

definition a_device :: "taddr \<Rightarrow> apkt option \<Rightarrow> apkt option \<Rightarrow> asched \<Rightarrow> asched" where
  "a_device a v1 packet A =
    (case packet of
       None \<Rightarrow> (case v1 of None \<Rightarrow> a_suspend a A | Some v \<Rightarrow> a_send v a (a_upd a (a_set_task (ADevice None)) A))
     | Some p \<Rightarrow> a_hold a (a_upd a (a_set_task (ADevice (Some p))) A))"

fun a_worker :: "taddr \<Rightarrow> int \<Rightarrow> int \<Rightarrow> apkt option \<Rightarrow> asched \<Rightarrow> asched" where
  "a_worker a v1 v2 None A = a_suspend a A"
| "a_worker a v1 v2 (Some (APkt i k a1 a2)) A =
    (let v1 = (if v1 = ID_HANDLER_A then ID_HANDLER_B else ID_HANDLER_A);
         (v2, a2) = worker_fill DATA_SIZE 0 v2 a2
     in a_send (APkt (Some v1) k (Some 0) a2) a (a_upd a (a_set_task (AWorker v1 v2)) A))"

fun a_handler_work :: "taddr \<Rightarrow> apkt list \<Rightarrow> apkt list \<Rightarrow> asched \<Rightarrow> asched" where
  "a_handler_work a [] v2 A = a_suspend a A"
| "a_handler_work a (w # ws) v2 A =
    (case ap_a1 w of
       Some count \<Rightarrow>
         if count < int DATA_SIZE then
           (case v2 of
              [] \<Rightarrow> a_suspend a A
            | v # vs \<Rightarrow> a_send (a_with_a1 (a2_at (ap_a2 w) count) v) a
                (a_upd a (a_set_task (AHandler (a_with_a1 (Some (count + 1)) w # ws) vs)) A))
         else a_send w a (a_upd a (a_set_task (AHandler ws v2)) A)
     | None \<Rightarrow> a_send w a (a_upd a (a_set_task (AHandler ws v2)) A))"

definition a_handler :: "taddr \<Rightarrow> apkt list \<Rightarrow> apkt list \<Rightarrow> apkt option \<Rightarrow> asched \<Rightarrow> asched" where
  "a_handler a v1 v2 packet A =
    (case packet of
       None \<Rightarrow> a_handler_work a v1 v2 A
     | Some p \<Rightarrow>
         if ap_kind p = KIND_WORK then
           a_handler_work a (v1 @ [p]) v2 (a_upd a (a_set_task (AHandler (v1 @ [p]) v2)) A)
         else a_handler_work a v1 (v2 @ [p]) (a_upd a (a_set_task (AHandler v1 (v2 @ [p]))) A))"

definition a_run :: "taddr \<Rightarrow> apkt option \<Rightarrow> asched \<Rightarrow> asched" where
  "a_run a packet A =
    (case at_task (a_tcbs A ! a) of
       AIdle v1 count \<Rightarrow> a_idle a v1 count A
     | ADevice v1 \<Rightarrow> a_device a v1 packet A
     | AWorker v1 v2 \<Rightarrow> a_worker a v1 v2 packet A
     | AHandler v1 v2 \<Rightarrow> a_handler a v1 v2 packet A)"

section \<open>Dispatching\<close>

definition a_step :: "taddr \<Rightarrow> asched \<Rightarrow> asched" where
  "a_step a A =
    (let b = a_tcbs A ! a
     in if at_held b \<or> at_suspended b \<and> at_queue b = [] then A\<lparr>a_cur := at_link b\<rparr>
        else
          (let A = A\<lparr>a_curId := Some (at_id b)\<rparr>
           in if at_suspended b then
                a_run a (Some (hd (at_queue b)))
                  (a_upd a (\<lambda>b. a_set_suspended False (a_set_queue (tl (at_queue b)) b)) A)
              else a_run a None A))"

fun a_loop :: "nat \<Rightarrow> asched \<Rightarrow> asched option" where
  "a_loop 0 A = None"
| "a_loop (Suc n) A = (case a_cur A of None \<Rightarrow> Some A | Some a \<Rightarrow> a_loop n (a_step a A))"

end
