(* ===== verification/Richards_Correct.thy ===== *)
theory Richards_Correct
  imports Richards_Spec
begin

text \<open>
  The dispatcher of \<open>Richards\<close> implements its specification. \<open>plist\<close> reads a linked list of
  packets off the store, \<open>tcb_rel\<close> relates a control block to its value, and \<open>srel\<close> the
  whole state; \<open>own\<close> says which packets each block holds, and no packet is held twice. Each
  method is a lemma \<open>..._refines\<close>; \<open>schedule_step_refines\<close> puts them together.
\<close>

section \<open>Lists of packets\<close>

fun plist :: "packet list \<Rightarrow> paddr option \<Rightarrow> paddr list \<Rightarrow> bool" where
  "plist h p [] \<longleftrightarrow> p = None"
| "plist h p (x # xs) \<longleftrightarrow> p = Some x \<and> plist h (p_link (h ! x)) xs"

definition content :: "packet list \<Rightarrow> paddr \<Rightarrow> apkt" where
  "content h a = APkt (p_id (h ! a)) (p_kind (h ! a)) (p_a1 (h ! a)) (p_a2 (h ! a))"

definition agree :: "paddr set \<Rightarrow> packet list \<Rightarrow> packet list \<Rightarrow> bool" where
  "agree X h h' \<longleftrightarrow> length h' = length h \<and> (\<forall>a. a \<notin> X \<longrightarrow> h' ! a = h ! a)"

lemma plist_cong: "(\<And>x. x \<in> set xs \<Longrightarrow> h' ! x = h ! x) \<Longrightarrow> plist h' p xs = plist h p xs"
  by (induction h p xs rule: plist.induct) auto

lemma content_cong: "h' ! x = h ! x \<Longrightarrow> content h' x = content h x"
  by (simp add: content_def)

lemma plist_Cons_iff: "plist h (Some p) xs \<longleftrightarrow> (\<exists>ys. xs = p # ys \<and> plist h (p_link (h ! p)) ys)"
  by (cases xs) auto

lemma plist_None_iff [simp]: "plist h None xs \<longleftrightarrow> xs = []"
  by (cases xs) auto

lemma upd_pkt_nth [simp]: "upd_pkt p f h ! x = (if x = p \<and> p < length h then f (h ! p) else h ! x)"
  by (cases "p < length h") (auto simp: upd_pkt_def list_update_beyond)

lemma upd_pkt_length [simp]: "length (upd_pkt p f h) = length h"
  by (simp add: upd_pkt_def)

lemma agree_refl [simp]: "agree X h h"
  by (simp add: agree_def)

lemma agree_upd: "agree X h h' \<Longrightarrow> p \<in> X \<Longrightarrow> agree X h (upd_pkt p f h')"
  by (auto simp: agree_def)

lemma last_packet_correct:
  "plist h (Some q) xs \<Longrightarrow> length xs \<le> n \<Longrightarrow> last_packet n h q = Inr (last xs)"
proof (induction n arbitrary: q xs)
  case (Suc n)
  then obtain ys where xs: "xs = q # ys" and ys: "plist h (p_link (h ! q)) ys" by (auto simp: plist_Cons_iff)
  show ?case
    using Suc.IH ys Suc.prems(2) xs by (cases "p_link (h ! q)") (auto simp: plist_Cons_iff)
qed auto

lemma plist_append_last:
  "plist h p xs \<Longrightarrow> xs \<noteq> [] \<Longrightarrow> distinct xs \<Longrightarrow> last xs < length h \<Longrightarrow> p_link (h ! q) = None \<Longrightarrow> q \<notin> set xs \<Longrightarrow>
   plist (upd_pkt (last xs) (\<lambda>p. p\<lparr>p_link := Some q\<rparr>) h) p (xs @ [q])"
proof (induction h p xs rule: plist.induct)
  case (2 h p x xs)
  show ?case
  proof (cases "xs = []")
    case False
    then have "last xs \<noteq> x" using 2(4) by auto
    then show ?thesis using 2 False by auto
  qed (use 2 in auto)
qed simp

lemma addTo_correct:
  assumes q: "plist h q xs" and xs: "distinct (p # xs)" "set (p # xs) \<subseteq> {..<length h}"
  shows "\<exists>h'. addTo p q h = Inr (Some (hd (xs @ [p])), h') \<and> plist h' (Some (hd (xs @ [p]))) (xs @ [p]) \<and>
     agree (set (p # xs)) h h' \<and> (\<forall>x. content h' x = content h x)"
proof -
  let ?h = "upd_pkt p (\<lambda>p. p\<lparr>p_link := None\<rparr>) h"
  have "plist ?h q xs = plist h q xs" by (rule plist_cong) (use xs in auto)
  then have q1: "plist ?h q xs" using q by simp
  show ?thesis
  proof (cases xs)
    case Nil
    then show ?thesis using q xs
      by (intro exI [of _ ?h]) (auto simp: addTo_def content_def agree_def)
  next
    case (Cons x ys)
    then have qx: "q = Some x" using q by simp
    have "length xs = card (set xs)" using xs(1) distinct_card [of xs] by simp
    also have "\<dots> \<le> length h" using xs(2) card_mono [of "{..<length h}" "set xs"] by simp
    finally have len: "length xs \<le> length ?h" by simp
    let ?h2 = "upd_pkt (last xs) (\<lambda>q. q\<lparr>p_link := Some p\<rparr>) ?h"
    have "last_packet (length ?h) ?h x = Inr (last xs)"
      using last_packet_correct q1 qx len by blast
    moreover have "plist ?h2 q (xs @ [p])"
      using q1 xs Cons by (intro plist_append_last) (auto dest: subsetD [OF _ last_in_set])
    moreover have "last xs \<in> set xs" using Cons by simp
    ultimately show ?thesis using qx Cons
      by (intro exI [of _ ?h2]) (auto simp: addTo_def content_def agree_def)
  qed
qed

section \<open>The relation between stores and values\<close>

type_synonym place = "paddr list \<times> paddr list \<times> paddr list"

fun addrs :: "place \<Rightarrow> paddr list" where
  "addrs (q, l1, l2) = q @ l1 @ l2"

fun task_rel :: "packet list \<Rightarrow> task \<Rightarrow> atask \<Rightarrow> paddr list \<Rightarrow> paddr list \<Rightarrow> bool" where
  "task_rel h (IdleTask v c) (AIdle v' c') l1 l2 \<longleftrightarrow> v = v' \<and> c = c' \<and> l1 = [] \<and> l2 = []"
| "task_rel h (DeviceTask p) (ADevice x) l1 l2 \<longleftrightarrow> l2 = [] \<and> 
     (case p of None \<Rightarrow> x = None \<and> l1 = [] | Some a \<Rightarrow> x = Some (content h a) \<and> l1 = [a])"
| "task_rel h (WorkerTask v w) (AWorker v' w') l1 l2 \<longleftrightarrow> v = v' \<and> w = w' \<and> l1 = [] \<and> l2 = []"
| "task_rel h (HandlerTask p q) (AHandler xs ys) l1 l2 \<longleftrightarrow>
     plist h p l1 \<and> xs = map (content h) l1 \<and> plist h q l2 \<and> ys = map (content h) l2"
| "task_rel h _ _ l1 l2 \<longleftrightarrow> False"

text \<open>The word of the state holds three flags; the first one is that the queue is not empty.\<close>

definition state_of :: "bool \<Rightarrow> bool \<Rightarrow> bool \<Rightarrow> int" where
  "state_of held susp run = of_bool run + 2 * of_bool susp + 4 * of_bool held"

fun tcb_rel :: "packet list \<Rightarrow> tcb \<Rightarrow> atcb \<Rightarrow> place \<Rightarrow> bool" where
  "tcb_rel h t (ATcb l i p q held susp k) (os, l1, l2) \<longleftrightarrow>
     t_link t = l \<and> t_id t = i \<and> t_priority t = p \<and> plist h (t_queue t) os \<and> q = map (content h) os \<and>
     t_state t = state_of held susp (q \<noteq> []) \<and> task_rel h (t_task t) k l1 l2"

text \<open>
  Every packet is in one place only: \<open>own i\<close> are the lists of the \<open>i\<close>-th block and \<open>hand\<close> are
  the packets that the code currently holds in a variable.
\<close>

definition trel :: "tcb list \<Rightarrow> packet list \<Rightarrow> atcb list \<Rightarrow> (nat \<Rightarrow> place) \<Rightarrow> paddr list \<Rightarrow> bool" where
  "trel ts h as own hand \<longleftrightarrow> length as = length ts \<and> set hand \<subseteq> {..<length h} \<and>
    (\<forall>i < length ts. tcb_rel h (ts ! i) (as ! i) (own i) \<and> set (addrs (own i)) \<subseteq> {..<length h} \<and>
       distinct (hand @ addrs (own i)) \<and>
       (\<forall>j < length ts. j \<noteq> i \<longrightarrow> set (addrs (own i)) \<inter> set (addrs (own j)) = {}))"

lemma task_rel_cong:
  assumes "\<And>x. x \<in> set (l1 @ l2) \<Longrightarrow> h' ! x = h ! x"
  shows "task_rel h' k ak l1 l2 = task_rel h k ak l1 l2"
proof -
  have "plist h' p l1 = plist h p l1" "plist h' p l2 = plist h p l2" for p
    using assms by (auto intro!: plist_cong)
  moreover have "map (content h') l1 = map (content h) l1" "map (content h') l2 = map (content h) l2"
    using assms by (auto intro!: content_cong)
  moreover have "x \<in> set l1 \<Longrightarrow> content h' x = content h x" for x
    using assms by (auto intro!: content_cong)
  ultimately show ?thesis
    by (cases "(h, k, ak, l1, l2)" rule: task_rel.cases) (auto split: option.splits)
qed

lemma tcb_rel_cong:
  assumes "\<And>x. x \<in> set (addrs o') \<Longrightarrow> h' ! x = h ! x"
  shows "tcb_rel h' t ab o' = tcb_rel h t ab o'"
proof -
  obtain q l1 l2 where o': "o' = (q, l1, l2)" by (cases o')
  have "plist h' p q = plist h p q" "map (content h') q = map (content h) q" for p
    using assms o' by (auto intro!: plist_cong content_cong)
  moreover have "task_rel h' k ak l1 l2 = task_rel h k ak l1 l2" for k ak
    using assms o' by (intro task_rel_cong) auto
  ultimately show ?thesis by (cases ab) (simp only: o' tcb_rel.simps)
qed

lemma trelD:
  assumes "trel ts h as own hand" "i < length ts"
  shows "tcb_rel h (ts ! i) (as ! i) (own i)" "set (addrs (own i)) \<subseteq> {..<length h}"
    "distinct (hand @ addrs (own i))"
  using assms by (simp_all add: trel_def)

text \<open>The one update lemma: a block changes, with packets that it or the hand held.\<close>

lemma trel_upd:
  assumes rel: "trel ts h as own hand" and i: "i < length ts"
    and agree: "agree (set hand \<union> set (addrs (own i))) h h'"
    and new: "tcb_rel h' t' at' o'" "distinct (hand' @ addrs o')"
      "set (hand' @ addrs o') \<subseteq> set hand \<union> set (addrs (own i))"
  shows "trel (ts[i := t']) h' (as[i := at']) (own(i := o')) hand'"
proof -
  let ?X = "set hand \<union> set (addrs (own i))"
  have len: "length h' = length h" "length as = length ts" using agree rel by (auto simp: agree_def trel_def)
  have sub: "?X \<subseteq> {..<length h}" using rel i by (auto simp: trel_def)
  have other: "set (addrs (own j)) \<inter> ?X = {}" if "j < length ts" "j \<noteq> i" for j
  proof -
    have "set (addrs (own j)) \<inter> set (addrs (own i)) = {}" using rel i that unfolding trel_def by blast
    moreover have "distinct (hand @ addrs (own j))" using rel that unfolding trel_def by blast
    ultimately show ?thesis by auto
  qed
  have sub': "set (hand' @ addrs o') \<subseteq> {..<length h'}" unfolding len(1) by (rule subset_trans [OF new(3) sub])
  have parts: "tcb_rel h' (ts[i := t'] ! j) (as[i := at'] ! j) ((own(i := o')) j) \<and>
      set (addrs ((own(i := o')) j)) \<subseteq> {..<length h'} \<and> distinct (hand' @ addrs ((own(i := o')) j))"
    if j: "j < length ts" for j
  proof (cases "j = i")
    case True
    then show ?thesis using new sub' i len by simp
  next
    case False
    have "tcb_rel h' (ts ! j) (as ! j) (own j) = tcb_rel h (ts ! j) (as ! j) (own j)"
      using other [OF j False] agree by (intro tcb_rel_cong) (auto simp: agree_def)
    moreover have "set hand' \<inter> set (addrs (own j)) = {}" using other [OF j False] new(3) by auto
    moreover have "tcb_rel h (ts ! j) (as ! j) (own j)" "set (addrs (own j)) \<subseteq> {..<length h}"
      "distinct (hand @ addrs (own j))" using trelD [OF rel j] by simp_all
    ultimately show ?thesis using False new(2) len by (simp del: tcb_rel.simps addrs.simps)
  qed
  have "set (addrs ((own(i := o')) j)) \<inter> set (addrs ((own(i := o')) k)) = {}"
    if jk: "j < length ts" "k < length ts" "k \<noteq> j" for j k
  proof -
    have "set (addrs o') \<inter> set (addrs (own l)) = {}" if "l < length ts" "l \<noteq> i" for l
      using other [OF that] new(3) by auto
    moreover have "set (addrs (own j)) \<inter> set (addrs (own k)) = {}" using rel jk unfolding trel_def by blast
    ultimately show ?thesis using jk by auto
  qed
  moreover have "set hand' \<subseteq> {..<length h'}" using sub' by simp
  ultimately show ?thesis unfolding trel_def length_list_update using parts len(2) by blast
qed

definition srel :: "sched \<Rightarrow> asched \<Rightarrow> (nat \<Rightarrow> place) \<Rightarrow> paddr list \<Rightarrow> bool" where
  "srel s A own hand \<longleftrightarrow> trel (tcbs s) (pkts s) (a_tcbs A) own hand \<and>
     queueCount s = a_queueCount A \<and> holdCount s = a_holdCount A \<and> blocks s = a_blocks A \<and>
     slist s = a_list A \<and> currentId s = a_curId A \<and>
     (\<forall>i t. blocks s i = Some t \<longrightarrow> t < length (tcbs s)) \<and>
     (\<forall>t. slist s = Some t \<longrightarrow> t < length (tcbs s)) \<and>
     (\<forall>b < length (tcbs s). \<forall>t. t_link (tcbs s ! b) = Some t \<longrightarrow> t < length (tcbs s))"

lemma srel_upd:
  assumes rel: "srel s A own hand" and i: "i < length (tcbs s)"
    and same: "blocks s' = blocks s" "a_blocks A' = a_blocks A" "slist s' = slist s" "a_list A' = a_list A"
      "queueCount s' = a_queueCount A'" "holdCount s' = a_holdCount A'" "currentId s' = a_curId A'"
    and upd: "tcbs s' = (tcbs s)[i := t']" "a_tcbs A' = (a_tcbs A)[i := at']" "t_link t' = t_link (tcbs s ! i)"
      "agree (set hand \<union> set (addrs (own i))) (pkts s) (pkts s')"
    and new: "tcb_rel (pkts s') t' at' o'" "distinct (hand' @ addrs o')"
      "set (hand' @ addrs o') \<subseteq> set hand \<union> set (addrs (own i))"
  shows "srel s' A' (own(i := o')) hand'"
proof -
  have "trel (tcbs s) (pkts s) (a_tcbs A) own hand" using rel by (simp add: srel_def)
  from trel_upd [OF this i upd(4) new] rel i same upd(1-3) show ?thesis
    by (auto simp: srel_def nth_list_update)
qed

lemma srel_tcb:
  "srel s A own hand \<Longrightarrow> i < length (tcbs s) \<Longrightarrow> tcb_rel (pkts s) (tcbs s ! i) (a_tcbs A ! i) (own i)"
  by (simp add: srel_def trel_def)

lemma srel_place:
  assumes "srel s A own hand" "i < length (tcbs s)"
  shows "set (addrs (own i)) \<subseteq> {..<length (pkts s)}" "distinct (hand @ addrs (own i))"
    "set hand \<subseteq> {..<length (pkts s)}"
  using assms by (simp_all add: srel_def trel_def)

text \<open>A call that returns what the specification says, with the related state.\<close>

definition steps_to :: "(taddr option \<times> sched) res \<Rightarrow> asched \<Rightarrow> bool" where
  "steps_to r A \<longleftrightarrow> (\<exists>s own. r = Inr (a_cur A, s) \<and> srel s A own [] \<and>
     (\<forall>t. a_cur A = Some t \<longrightarrow> t < length (tcbs s)))"

section \<open>The state word\<close>

lemma state_of_marks:
  "js_or (state_of h s r) STATE_HELD = state_of True s r"
  "js_or (state_of h s r) STATE_SUSPENDED = state_of h True r"
  "js_or (state_of h s r) STATE_RUNNABLE = state_of h s True"
  "js_and (state_of h s r) STATE_NOT_HELD = state_of False s r"
  by (cases h; cases s; cases r; simp add: state_of_def STATE_HELD_def STATE_SUSPENDED_def STATE_RUNNABLE_def
      STATE_NOT_HELD_def js_or_def js_and_def js_not_def toInt32_def)+

lemma state_of_tests:
  "js_and (state_of h s r) STATE_HELD \<noteq> 0 \<longleftrightarrow> h"
  "state_of h s r = STATE_SUSPENDED \<longleftrightarrow> \<not> h \<and> s \<and> \<not> r"
  "state_of h s r = STATE_SUSPENDED_RUNNABLE \<longleftrightarrow> \<not> h \<and> s \<and> r"
  "STATE_RUNNING = state_of False False False" "STATE_RUNNABLE = state_of False False True"
  by (cases h; cases s; cases r; simp add: state_of_def STATE_HELD_def STATE_SUSPENDED_def STATE_RUNNABLE_def
      STATE_SUSPENDED_RUNNABLE_def STATE_RUNNING_def js_or_def js_and_def toInt32_def)+

lemma tcb_rel_marks:
  assumes "tcb_rel h t ab o'"
  shows "tcb_rel h (markAsHeld t) (a_set_held True ab) o'"
    "tcb_rel h (markAsNotHeld t) (a_set_held False ab) o'"
    "tcb_rel h (markAsSuspended t) (a_set_suspended True ab) o'"
  using assms by (cases "(h, t, ab, o')" rule: tcb_rel.cases;
      simp add: markAsHeld_def markAsNotHeld_def markAsSuspended_def state_of_marks)+

lemma tcb_rel_sel:
  assumes "tcb_rel h t ab o'"
  shows "t_link t = at_link ab" "t_id t = at_id ab" "t_priority t = at_priority ab"
    "isHeldOrSuspended t \<longleftrightarrow> at_held ab \<or> at_suspended ab \<and> at_queue ab = []"
    "t_queue t = None \<longleftrightarrow> at_queue ab = []"
  using assms by (cases "(h, t, ab, o')" rule: tcb_rel.cases;
      auto simp: isHeldOrSuspended_def state_of_tests)+

lemma tcb_rel_task:
  assumes "tcb_rel h t ab (os, l1, l2)" "task_rel h k ak l1' l2'"
  shows "tcb_rel h (t\<lparr>t_task := k\<rparr>) (a_set_task ak ab) (os, l1', l2')"
  using assms by (cases ab) simp

lemma mark_link [simp]:
  "t_link (markAsHeld t) = t_link t" "t_link (markAsNotHeld t) = t_link t" "t_link (markAsSuspended t) = t_link t"
  "t_link (markAsRunnable t) = t_link t"
  "t_priority (markAsHeld t) = t_priority t" "t_priority (markAsNotHeld t) = t_priority t"
  "t_priority (markAsSuspended t) = t_priority t" "t_priority (markAsRunnable t) = t_priority t"
  by (simp_all add: markAsHeld_def markAsNotHeld_def markAsSuspended_def markAsRunnable_def)

section \<open>The services of the scheduler\<close>

lemma srel_len: "srel s A own hand \<Longrightarrow> length (a_tcbs A) = length (tcbs s)"
  by (simp add: srel_def trel_def)

lemma holdCurrent_refines:
  assumes rel: "srel s A own []" and a: "currentTcb s = Some a" "a < length (tcbs s)"
  shows "steps_to (holdCurrent s) (a_hold a A)"
proof -
  let ?s = "upd_tcb a markAsHeld (s\<lparr>holdCount := holdCount s + 1\<rparr>)"
  note t = srel_tcb [OF rel a(2)]
  have "srel ?s (a_hold a A) (own(a := own a)) []"
    using rel tcb_rel_marks(1) [OF t] srel_place [OF rel a(2)] a
    by (intro srel_upd [OF rel a(2)]) (auto simp: upd_tcb_def a_hold_def a_upd_def srel_def)
  moreover have "t_link (tcbs ?s ! a) = at_link (a_tcbs A ! a)"
    using tcb_rel_sel(1) [OF t] a by (simp add: upd_tcb_def)
  moreover have "holdCurrent s = Inr (t_link (tcbs ?s ! a), ?s)"
    using a by (simp add: holdCurrent_def upd_tcb_def Let_def)
  moreover have "t < length (tcbs ?s)" if "at_link (a_tcbs A ! a) = Some t" for t
    using rel that tcb_rel_sel(1) [OF t] a(2) by (auto simp: srel_def upd_tcb_def)
  ultimately show ?thesis unfolding steps_to_def
    by (intro exI [of _ ?s] exI [of _ own]) (simp add: a_hold_def a_upd_def)
qed

lemma suspendCurrent_refines:
  assumes rel: "srel s A own []" and a: "currentTcb s = Some a" "a < length (tcbs s)" "a_cur A = Some a"
  shows "steps_to (suspendCurrent s) (a_suspend a A)"
proof -
  let ?s = "upd_tcb a markAsSuspended s"
  note t = srel_tcb [OF rel a(2)]
  have "srel ?s (a_suspend a A) (own(a := own a)) []"
    using rel tcb_rel_marks(3) [OF t] srel_place [OF rel a(2)] a
    by (intro srel_upd [OF rel a(2)]) (auto simp: upd_tcb_def a_suspend_def a_upd_def srel_def)
  then show ?thesis unfolding steps_to_def
    using a by (intro exI [of _ ?s] exI [of _ own]) (simp add: suspendCurrent_def upd_tcb_def a_suspend_def a_upd_def)
qed

lemma release_refines:
  assumes rel: "srel s A own []" and a: "currentTcb s = Some a" "a < length (tcbs s)" "a_cur A = Some a"
  shows "steps_to (release i s) (a_release i a A)"
proof (cases "blocks s i")
  case None
  then have "a_blocks A i = None" using rel by (simp add: srel_def)
  moreover have "srel s (A\<lparr>a_cur := None\<rparr>) own []" using rel by (simp add: srel_def)
  ultimately show ?thesis using None by (auto simp: steps_to_def release_def a_release_def)
next
  case (Some t)
  let ?s = "upd_tcb t markAsNotHeld s"
  have Some': "a_blocks A i = Some t" and tl: "t < length (tcbs s)" using rel Some by (auto simp: srel_def)
  note ab = srel_tcb [OF rel a(2)] and tt = srel_tcb [OF rel tl]
  have "srel ?s (a_release i a A) (own(t := own t)) []"
    using rel tcb_rel_marks(2) [OF tt] srel_place [OF rel tl] Some'
    by (intro srel_upd [OF rel tl]) (auto simp: upd_tcb_def a_release_def a_upd_def srel_def)
  moreover have "t_priority (tcbs ?s ! t) = at_priority (a_tcbs A ! t)" "t_priority (tcbs ?s ! a) = at_priority (a_tcbs A ! a)"
    using tcb_rel_sel(3) [OF ab] tcb_rel_sel(3) [OF tt] a(2) tl by (simp_all add: upd_tcb_def nth_list_update)
  ultimately show ?thesis unfolding steps_to_def
    using a Some Some' tl by (intro exI [of _ ?s] exI [of _ own])
      (simp add: release_def upd_tcb_def a_release_def a_upd_def)
qed


lemma srel_hand: "srel s A own hand \<Longrightarrow> srel s A own []"
  by (auto simp: srel_def trel_def)

lemma agree_content: "agree X h h' \<Longrightarrow> a \<notin> X \<Longrightarrow> content h' a = content h a"
  by (simp add: agree_def content_def)

lemma tcb_rel_enqueue:
  assumes rel: "tcb_rel h t ab (os, l1, l2)" and h': "agree (set (p # os)) h h'"
    and os: "plist h' q (os @ [p])" "map (content h') os = map (content h) os"
    and disj: "set (p # os) \<inter> set (l1 @ l2) = {}" and st: "st = state_of (at_held ab) (at_suspended ab) True"
  shows "tcb_rel h' (t\<lparr>t_queue := q, t_state := st\<rparr>) (a_set_queue (at_queue ab @ [content h' p]) ab) (os @ [p], l1, l2)"
proof -
  have "task_rel h' k ak l1 l2 = task_rel h k ak l1 l2" for k ak
    using h' disj by (intro task_rel_cong) (auto simp: agree_def)
  then show ?thesis using rel os st by (cases ab) simp
qed

lemma queue_refines:
  assumes rel: "srel s A own [p]" and a: "currentTcb s = Some a" "a < length (tcbs s)" "a_cur A = Some a"
    and ap: "ap = content (pkts s) p"
  shows "steps_to (queue p s) (a_send ap a A)"
proof (cases "Option.bind (p_id (pkts s ! p)) (blocks s)")
  case None
  then have "Option.bind (ap_id ap) (a_blocks A) = None" using rel by (simp add: ap content_def srel_def)
  moreover have "srel s (A\<lparr>a_cur := None\<rparr>) own []" using srel_hand [OF rel] by (simp add: srel_def)
  ultimately show ?thesis using None by (auto simp: steps_to_def queue_def a_send_def)
next
  case (Some t)
  have Some': "Option.bind (ap_id ap) (a_blocks A) = Some t" and tl: "t < length (tcbs s)"
    using Some rel by (auto simp: ap content_def srel_def bind_eq_Some_conv)
  obtain os l1 l2 where own: "own t = (os, l1, l2)" by (cases "own t")
  note aa = srel_tcb [OF rel a(2)] and tt = srel_tcb [OF rel tl, unfolded own]
  note place = srel_place [OF rel tl, unfolded own addrs.simps]
  let ?h = "upd_pkt p (\<lambda>p. p\<lparr>p_id := currentId s\<rparr>) (upd_pkt p (\<lambda>p. p\<lparr>p_link := None\<rparr>) (pkts s))"
  let ?s = "s\<lparr>queueCount := queueCount s + 1, pkts := ?h\<rparr>"
  let ?b = "a_tcbs A ! t"
  have pl: "p < length (pkts s)" using place(3) by simp
  have cp: "content ?h p = a_with_id (a_curId A) ap" "p_link (?h ! p) = None"
    using pl rel by (auto simp: ap content_def srel_def)
  have agh: "agree {p} (pkts s) ?h" by (intro agree_upd) auto
  have q: "queue p s = checkPriorityAdd t (Some a) p ?s"
    using Some a by (simp add: queue_def Let_def)
  have prio: "t_priority (tcbs s ! t) = at_priority ?b" "t_priority (tcbs s ! a) = at_priority (a_tcbs A ! a)"
    using tcb_rel_sel(3) [OF aa] tcb_rel_sel(3) [OF tt] by simp_all
  text \<open>What both branches reach: the packet is the last one of the queue of \<open>t\<close>.\<close>
  have enq: "srel s' (a_send ap a A) (own(t := (os @ [p], l1, l2))) []"
    if s': "s' = s\<lparr>queueCount := queueCount s + 1, pkts := h', tcbs := (tcbs s)[t := t']\<rparr>"
      and h': "agree (set (p # os)) (pkts s) h'" "\<forall>x. content h' x = content ?h x"
      and t': "t' = (tcbs s ! t)\<lparr>t_queue := q, t_state := state_of (at_held ?b) (at_suspended ?b) True\<rparr>"
      and pq: "plist h' q (os @ [p])" for s' h' t' q
  proof -
    have "content h' x = content (pkts s) x" if "x \<in> set os" for x
      using h'(2) agree_content [OF agh, of x] place(2) that by auto
    then have os: "map (content h') os = map (content (pkts s)) os" by simp
    have "tcb_rel h' t' (a_set_queue (at_queue ?b @ [content h' p]) ?b) (os @ [p], l1, l2)"
      unfolding t' by (rule tcb_rel_enqueue [OF tt h'(1) pq os]) (use place(2) in auto)
    then have new: "tcb_rel (pkts s') t' (a_set_queue (at_queue ?b @ [a_with_id (a_curId A) ap]) ?b) (os @ [p], l1, l2)"
      using h'(2) cp s' by simp
    have sub: "set ([] @ addrs (os @ [p], l1, l2)) \<subseteq> set [p] \<union> set (addrs (own t))" using own by auto
    have dist: "distinct ([] @ addrs (os @ [p], l1, l2))" using place(2) by auto
    have ag: "agree (set [p] \<union> set (addrs (own t))) (pkts s) (pkts s')"
      using h'(1) own by (auto simp: s' agree_def)
    show ?thesis
      by (rule srel_upd [OF rel tl _ _ _ _ _ _ _ _ _ _ ag new dist sub])
        (use rel Some' in \<open>simp_all add: s' t' a_send_def srel_def Let_def\<close>)
  qed
  have ret: "steps_to (Inr (a_cur (a_send ap a A), s')) (a_send ap a A)"
    if "srel s' (a_send ap a A) (own(t := (os @ [p], l1, l2))) []" "length (tcbs s') = length (tcbs s)" for s'
    using that a tl Some' unfolding steps_to_def by (auto simp: a_send_def Let_def)
  show ?thesis
  proof (cases "os = []")
    case True
    then have empty: "t_queue (tcbs s ! t) = None" "at_queue ?b = []" using tt by (cases "?b"; simp)+
    let ?t = "(tcbs s ! t)\<lparr>t_queue := Some p, t_state := state_of (at_held ?b) (at_suspended ?b) True\<rparr>"
    let ?s' = "s\<lparr>queueCount := queueCount s + 1, pkts := ?h, tcbs := (tcbs s)[t := ?t]\<rparr>"
    have "js_or (t_state (tcbs s ! t)) STATE_RUNNABLE = state_of (at_held ?b) (at_suspended ?b) True"
      using tt by (cases ?b) (simp add: state_of_marks)
    then have "checkPriorityAdd t (Some a) p ?s = Inr (a_cur (a_send ap a A), ?s')"
      using empty tl a prio Some' by (auto simp: checkPriorityAdd_def upd_tcb_def markAsRunnable_def a_send_def
          Let_def nth_list_update)
    moreover have "srel ?s' (a_send ap a A) (own(t := (os @ [p], l1, l2))) []"
      by (rule enq [OF refl _ _ refl]) (use agh True cp in auto)
    ultimately show ?thesis using ret q by simp
  next
    case False
    then have nonempty: "t_queue (tcbs s ! t) \<noteq> None" "at_queue ?b \<noteq> []" using tt by (cases ?b; cases os; simp)+
    have qos: "plist ?h (t_queue (tcbs s ! t)) os"
    proof -
      have "plist ?h (t_queue (tcbs s ! t)) os = plist (pkts s) (t_queue (tcbs s ! t)) os"
        by (rule plist_cong) (use place(2) in auto)
      then show ?thesis using tt by (cases ?b) simp
    qed
    have "distinct (p # os)" "set (p # os) \<subseteq> {..<length ?h}" using place by auto
    from addTo_correct [OF qos this] obtain h' where
      add: "addTo p (t_queue (tcbs s ! t)) ?h = Inr (Some (hd (os @ [p])), h')"
      and pq: "plist h' (Some (hd (os @ [p]))) (os @ [p])" and ag: "agree (set (p # os)) ?h h'"
      and ct: "\<forall>x. content h' x = content ?h x" by blast
    have ag': "agree (set (p # os)) (pkts s) h'" using ag agh by (auto simp: agree_def)
    let ?t = "(tcbs s ! t)\<lparr>t_queue := Some (hd (os @ [p])), t_state := state_of (at_held ?b) (at_suspended ?b) True\<rparr>"
    let ?s' = "s\<lparr>queueCount := queueCount s + 1, pkts := h', tcbs := (tcbs s)[t := ?t]\<rparr>"
    have "t_state (tcbs s ! t) = state_of (at_held ?b) (at_suspended ?b) True"
      using tt nonempty by (cases ?b) simp
    then have t: "(tcbs s ! t)\<lparr>t_queue := Some (hd (os @ [p]))\<rparr> = ?t" by simp
    have "checkPriorityAdd t (Some a) p ?s = Inr (a_cur (a_send ap a A), ?s')"
      using nonempty tl a Some' add unfolding t [symmetric]
      by (auto simp: checkPriorityAdd_def upd_tcb_def a_send_def Let_def)
    moreover have "srel ?s' (a_send ap a A) (own(t := (os @ [p], l1, l2))) []"
      by (rule enq [OF refl ag' ct refl pq])
    ultimately show ?thesis using ret q by simp
  qed
qed

section \<open>The tasks\<close>

text \<open>Writing the task object, with packets that move between it and the hand.\<close>

lemma set_task_refines:
  assumes rel: "srel s A own hand" and a: "a < length (tcbs s)" and own: "own a = (os, l1, l2)"
    and h: "agree (set hand \<union> set (l1 @ l2)) (pkts s) h"
    and k: "task_rel h k ak l1' l2'" and hand: "distinct (hand' @ l1' @ l2')" "set (hand' @ l1' @ l2') \<subseteq> set (hand @ l1 @ l2)"
    and s': "s' = set_task a k (s\<lparr>pkts := h\<rparr>)"
  shows "srel s' (a_upd a (a_set_task ak) A) (own(a := (os, l1', l2'))) hand'"
proof -
  note place = srel_place [OF rel a, unfolded own addrs.simps]
  have os: "h ! x = pkts s ! x" if "x \<in> set os" for x
    using h place(2) that by (auto simp: agree_def)
  have "plist h q os = plist (pkts s) q os" "map (content h) os = map (content (pkts s)) os" for q
    using os by (auto intro!: plist_cong content_cong)
  then have "tcb_rel h ((tcbs s ! a)\<lparr>t_task := k\<rparr>) (a_set_task ak (a_tcbs A ! a)) (os, l1', l2')"
    using srel_tcb [OF rel a, unfolded own] k by (cases "a_tcbs A ! a") simp
  moreover have "pkts s' = h" by (simp add: s' set_task_def upd_tcb_def)
  ultimately have new: "tcb_rel (pkts s') ((tcbs s ! a)\<lparr>t_task := k\<rparr>) (a_set_task ak (a_tcbs A ! a)) (os, l1', l2')"
    by simp
  have sub: "set (hand' @ addrs (os, l1', l2')) \<subseteq> set hand \<union> set (addrs (own a))"
    using hand(2) own by auto
  have "set os \<inter> set (hand' @ l1' @ l2') = {}" using hand(2) place(2) by auto
  then have dist: "distinct (hand' @ addrs (os, l1', l2'))" using hand(1) place(2) by auto
  have ag: "agree (set hand \<union> set (addrs (own a))) (pkts s) (pkts s')"
    using h own by (auto simp: agree_def s' set_task_def upd_tcb_def)
  show ?thesis
    by (rule srel_upd [OF rel a _ _ _ _ _ _ _ _ _ _ ag new dist sub])
      (use rel in \<open>simp_all add: s' set_task_def upd_tcb_def a_upd_def srel_def\<close>)
qed

lemma a_upd_cur [simp]: "a_cur (a_upd a f A) = a_cur A"
  by (simp add: a_upd_def)

lemma set_task_sel [simp]:
  "currentTcb (set_task a k s) = currentTcb s" "length (tcbs (set_task a k s)) = length (tcbs s)"
  "pkts (set_task a k s) = pkts s"
  by (simp_all add: set_task_def upd_tcb_def)

lemma set_task_pkts: "set_task a k (s\<lparr>pkts := h\<rparr>) = (set_task a k s)\<lparr>pkts := h\<rparr>"
  by (cases s) (simp add: set_task_def upd_tcb_def)

lemma srel_currentTcb [simp]: "srel (s\<lparr>currentTcb := c\<rparr>) A own hand = srel s A own hand"
  by (simp add: srel_def)

lemma IdleTask_refines:
  assumes rel: "srel s A own []" and a: "currentTcb s = Some a" "a < length (tcbs s)" "a_cur A = Some a"
    and k: "own a = (os, [], [])"
  shows "steps_to (IdleTask_run a v count s) (a_idle a v count A)"
proof -
  have "srel (set_task a (IdleTask v' c') s) (a_upd a (a_set_task (AIdle v' c')) A) (own(a := (os, [], []))) []" for v' c'
    by (rule set_task_refines [OF rel a(2) k, where h = "pkts s"]) auto
  then show ?thesis using a
    by (auto simp: IdleTask_run_def a_idle_def Let_def intro!: holdCurrent_refines release_refines)
qed

lemma DeviceTask_refines:
  assumes rel: "srel s A own hand" and a: "currentTcb s = Some a" "a < length (tcbs s)" "a_cur A = Some a"
    and k: "own a = (os, l1, [])" and v: "task_rel (pkts s) (DeviceTask v) (ADevice x) l1 []"
    and p: "case p of None \<Rightarrow> hand = [] \<and> ap = None | Some y \<Rightarrow> hand = [y] \<and> ap = Some (content (pkts s) y)"
  shows "steps_to (DeviceTask_run a v p s) (a_device a x ap A)"
proof (cases p)
  case None
  show ?thesis
  proof (cases v)
    case None': None
    then show ?thesis using None p v rel a
      by (auto simp: DeviceTask_run_def a_device_def intro!: suspendCurrent_refines)
  next
    case (Some y)
    have "srel (set_task a (DeviceTask None) s) (a_upd a (a_set_task (ADevice None)) A) (own(a := (os, [], []))) [y]"
      by (rule set_task_refines [OF rel a(2) k, where h = "pkts s"])
        (use v Some None p srel_place [OF rel a(2)] k in auto)
    from queue_refines [OF this] show ?thesis using None p v Some a
      by (simp add: DeviceTask_run_def a_device_def)
  qed
next
  case (Some y)
  have "srel (set_task a (DeviceTask (Some y)) s)
      (a_upd a (a_set_task (ADevice (Some (content (pkts s) y)))) A) (own(a := (os, [y], []))) []"
    by (rule set_task_refines [OF rel a(2) k, where h = "pkts s"]) (use Some p in auto)
  from holdCurrent_refines [OF this] show ?thesis using Some p a
    by (simp add: DeviceTask_run_def a_device_def)
qed

lemma WorkerTask_refines:
  assumes rel: "srel s A own hand" and a: "currentTcb s = Some a" "a < length (tcbs s)" "a_cur A = Some a"
    and k: "own a = (os, [], [])"
    and p: "case p of None \<Rightarrow> hand = [] \<and> ap = None | Some y \<Rightarrow> hand = [y] \<and> ap = Some (content (pkts s) y)"
  shows "steps_to (WorkerTask_run a v1 v2 p s) (a_worker a v1 v2 ap A)"
proof (cases p)
  case None
  then show ?thesis using p rel a by (auto simp: WorkerTask_run_def intro!: suspendCurrent_refines)
next
  case (Some y)
  define u where "u = (if v1 = ID_HANDLER_A then ID_HANDLER_B else ID_HANDLER_A)"
  obtain w b where fill: "worker_fill DATA_SIZE 0 v2 (p_a2 (pkts s ! y)) = (w, b)" by fastforce
  define h where "h = upd_pkt y (\<lambda>p. p\<lparr>p_id := Some u, p_a1 := Some 0, p_a2 := b\<rparr>) (pkts s)"
  define s' where "s' = set_task a (WorkerTask u w) (s\<lparr>pkts := h\<rparr>)"
  have y: "hand = [y]" "ap = Some (content (pkts s) y)" using p Some by simp_all
  have "srel s' (a_upd a (a_set_task (AWorker u w)) A) (own(a := (os, [], []))) [y]"
    by (rule set_task_refines [OF rel a(2) k _ _ _ _ s'_def]) (use y in \<open>auto simp: h_def intro: agree_upd\<close>)
  moreover have "APkt (Some u) (p_kind (pkts s ! y)) (Some 0) b = content (pkts s') y"
    using srel_place [OF rel a(2)] y by (simp add: content_def s'_def h_def)
  ultimately have "steps_to (queue y s') (a_worker a v1 v2 ap A)"
    using queue_refines [of s' _ _ y a] fill a y
    by (simp add: content_def u_def s'_def)
  moreover have "WorkerTask_run a v1 v2 p s = queue y s'"
    using fill Some by (simp add: WorkerTask_run_def Let_def s'_def h_def u_def set_task_pkts)
  ultimately show ?thesis by simp
qed

text \<open>
  The handler: \<open>l1\<close> and \<open>l2\<close> are its two lists. Sending the head of one of them, with new
  contents of the first element of the other, is \<open>HandlerTask_work\<close>.
\<close>

lemma HandlerTask_work_refines:
  assumes rel: "srel s A own []" and a: "currentTcb s = Some a" "a < length (tcbs s)" "a_cur A = Some a"
    and k: "own a = (os, l1, l2)" and v: "plist (pkts s) v1 l1" "plist (pkts s) v2 l2"
  shows "steps_to (HandlerTask_work a v1 v2 s)
    (a_handler_work a (map (content (pkts s)) l1) (map (content (pkts s)) l2) A)"
proof (cases l1)
  case Nil
  then show ?thesis using v rel a by (auto simp: HandlerTask_work_def intro!: suspendCurrent_refines)
next
  case (Cons w ws)
  then have v1: "v1 = Some w" "plist (pkts s) (p_link (pkts s ! w)) ws" using v(1) by simp_all
  note place = srel_place [OF rel a(2), unfolded k addrs.simps Cons]
  have aw: "ap_a1 (content (pkts s) w) = p_a1 (pkts s ! w)" "ap_a2 (content (pkts s) w) = p_a2 (pkts s ! w)"
    by (simp_all add: content_def)
  have send: "steps_to (queue w (set_task a (HandlerTask (p_link (pkts s ! w)) v2) s))
      (a_send (content (pkts s) w) a (a_upd a (a_set_task (AHandler (map (content (pkts s)) ws) (map (content (pkts s)) l2))) A))"
  proof -
    have "srel (set_task a (HandlerTask (p_link (pkts s ! w)) v2) s)
        (a_upd a (a_set_task (AHandler (map (content (pkts s)) ws) (map (content (pkts s)) l2))) A)
        (own(a := (os, ws, l2))) [w]"
      by (rule set_task_refines [OF rel a(2) k, where h = "pkts s"]) (use v v1 place Cons in auto)
    from queue_refines [OF this] show ?thesis using a by simp
  qed
  show ?thesis
  proof (cases "p_a1 (pkts s ! w)")
    case None
    then show ?thesis using send v1 aw Cons by (simp add: HandlerTask_work_def)
  next
    case (Some count)
    show ?thesis
    proof (cases "count < int DATA_SIZE")
      case False
      then show ?thesis using send v1 aw Cons Some by (simp add: HandlerTask_work_def)
    next
      case True
      show ?thesis
      proof (cases l2)
        case Nil
        then show ?thesis using v v1 aw Cons Some True rel a
          by (auto simp: HandlerTask_work_def intro!: suspendCurrent_refines)
      next
        case l2: (Cons y ys)
        then have v2: "v2 = Some y" "plist (pkts s) (p_link (pkts s ! y)) ys" using v(2) by simp_all
        define c where "c = a2_at (p_a2 (pkts s ! w)) count"
        define h where "h = upd_pkt w (\<lambda>p. p\<lparr>p_a1 := Some (count + 1)\<rparr>) (upd_pkt y (\<lambda>p. p\<lparr>p_a1 := c\<rparr>) (pkts s))"
        define s' where "s' = set_task a (HandlerTask v1 (p_link (pkts s ! y))) (s\<lparr>pkts := h\<rparr>)"
        define k' where "k' = AHandler (a_with_a1 (Some (count + 1)) (content (pkts s) w) # map (content (pkts s)) ws)
          (map (content (pkts s)) ys)"
        have ne: "w \<noteq> y" "w \<notin> set ws" "w \<notin> set ys" "y \<notin> set ws" "y \<notin> set ys" "w < length (pkts s)" "y < length (pkts s)"
          using place l2 by auto
        have ag: "agree {w, y} (pkts s) h" by (auto simp: h_def intro!: agree_upd)
        have same: "p_link (h ! w) = p_link (pkts s ! w)" using ne by (simp add: h_def)
        have "plist h p ws = plist (pkts s) p ws" "plist h p ys = plist (pkts s) p ys" for p
          using ag ne by (auto simp: agree_def intro!: plist_cong)
        moreover have "map (content h) ws = map (content (pkts s)) ws" "map (content h) ys = map (content (pkts s)) ys"
          using ne by (auto intro!: agree_content [OF ag])
        moreover have "content h w = a_with_a1 (Some (count + 1)) (content (pkts s) w)"
          using ne by (simp add: content_def h_def)
        ultimately have tr: "task_rel h (HandlerTask v1 (p_link (pkts s ! y))) k' (w # ws) ys"
          using v1 v2 same by (simp add: k'_def)
        have "srel s' (a_upd a (a_set_task k') A) (own(a := (os, w # ws, ys))) [y]"
          by (rule set_task_refines [OF rel a(2) k _ tr _ _ s'_def])
            (use ag place Cons l2 in \<open>auto simp: agree_def\<close>)
        moreover have "a_with_a1 c (content (pkts s) y) = content (pkts s') y"
          using ne by (simp add: content_def s'_def h_def)
        ultimately have "steps_to (queue y s') (a_send (a_with_a1 c (content (pkts s) y)) a (a_upd a (a_set_task k') A))"
          using queue_refines [of s' _ _ y a] a by (simp add: s'_def)
        moreover have "HandlerTask_work a v1 v2 s = queue y s'"
          using v1 v2 Some True by (simp add: HandlerTask_work_def s'_def h_def c_def set_task_pkts Let_def)
        ultimately show ?thesis using aw Cons l2 Some True by (simp add: k'_def c_def)
      qed
    qed
  qed
qed

lemma HandlerTask_refines:
  assumes rel: "srel s A own hand" and a: "currentTcb s = Some a" "a < length (tcbs s)" "a_cur A = Some a"
    and k: "own a = (os, l1, l2)" and v: "plist (pkts s) v1 l1" "plist (pkts s) v2 l2"
    and p: "case p of None \<Rightarrow> hand = [] \<and> ap = None | Some y \<Rightarrow> hand = [y] \<and> ap = Some (content (pkts s) y)"
  shows "steps_to (HandlerTask_run a v1 v2 p s)
    (a_handler a (map (content (pkts s)) l1) (map (content (pkts s)) l2) ap A)"
proof (cases p)
  case None
  then show ?thesis using HandlerTask_work_refines [of s A own, OF _ a k v] p rel
    by (simp add: HandlerTask_run_def a_handler_def)
next
  case (Some y)
  then have y: "hand = [y]" "ap = Some (content (pkts s) y)" using p by simp_all
  note place = srel_place [OF rel a(2), unfolded k y addrs.simps]
  text \<open>Adding the packet to the list \<open>l\<close> and keeping the other list \<open>m\<close>.\<close>
  have add: "\<exists>h. addTo y v (pkts s) = Inr (Some (hd (l @ [y])), h) \<and> plist h (Some (hd (l @ [y]))) (l @ [y]) \<and>
      plist h v' m \<and> map (content h) m = map (content (pkts s)) m \<and>
      map (content h) (l @ [y]) = map (content (pkts s)) (l @ [y]) \<and> agree (set hand \<union> set (l1 @ l2)) (pkts s) h"
    if v: "plist (pkts s) v l" "plist (pkts s) v' m" and lm: "set l \<union> set m = set l1 \<union> set l2" "distinct l" "set l \<inter> set m = {}"
    for v v' l m
  proof -
    have dist: "distinct (y # l)" "set (y # l) \<subseteq> {..<length (pkts s)}" using place lm by auto
    obtain h where h: "addTo y v (pkts s) = Inr (Some (hd (l @ [y])), h)" "plist h (Some (hd (l @ [y]))) (l @ [y])"
      "agree (set (y # l)) (pkts s) h" "\<forall>x. content h x = content (pkts s) x"
      using addTo_correct [OF v(1) dist] by blast
    have "y \<notin> set m" using place lm by auto
    then have "h ! x = pkts s ! x" if "x \<in> set m" for x
      using h(3) lm(3) that by (auto simp: agree_def)
    then have "plist h v' m" using v(2) plist_cong by metis
    moreover have "agree (set hand \<union> set (l1 @ l2)) (pkts s) h" using h(3) lm(1) y by (auto simp: agree_def)
    ultimately show ?thesis using h by auto
  qed
  have kind: "ap_kind (content (pkts s) y) = p_kind (pkts s ! y)" by (simp add: content_def)
  have d: "distinct l1" "distinct l2" "set l1 \<inter> set l2 = {}" "set l2 \<inter> set l1 = {}" using place(2) by auto
  show ?thesis
  proof (cases "p_kind (pkts s ! y) = KIND_WORK")
    case True
    obtain h where h: "addTo y v1 (pkts s) = Inr (Some (hd (l1 @ [y])), h)" "plist h (Some (hd (l1 @ [y]))) (l1 @ [y])"
      "plist h v2 l2" "map (content h) l2 = map (content (pkts s)) l2"
      "map (content h) (l1 @ [y]) = map (content (pkts s)) (l1 @ [y])" "agree (set hand \<union> set (l1 @ l2)) (pkts s) h"
      using add [OF v] d by auto
    define s' where "s' = set_task a (HandlerTask (Some (hd (l1 @ [y]))) v2) (s\<lparr>pkts := h\<rparr>)"
    define xs where "xs = map (content (pkts s)) l1 @ [content (pkts s) y]"
    have tr: "task_rel h (HandlerTask (Some (hd (l1 @ [y]))) v2) (AHandler xs (map (content (pkts s)) l2)) (l1 @ [y]) l2"
      using h by (simp add: xs_def)
    have rel': "srel s' (a_upd a (a_set_task (AHandler xs (map (content (pkts s)) l2))) A) (own(a := (os, l1 @ [y], l2))) []"
      by (rule set_task_refines [OF rel a(2) k h(6) tr _ _ s'_def]) (use place y in auto)
    have m: "pkts s' = h" "map (content h) (l1 @ [y]) = xs" using h(5) by (simp_all add: s'_def xs_def)
    have "steps_to (HandlerTask_work a (Some (hd (l1 @ [y]))) v2 s')
        (a_handler_work a (map (content (pkts s')) (l1 @ [y])) (map (content (pkts s')) l2) (a_upd a (a_set_task (AHandler xs (map (content (pkts s)) l2))) A))"
      by (rule HandlerTask_work_refines [OF rel', of a os]) (use h(2,3) a in \<open>simp_all add: s'_def\<close>)
    then have "steps_to (HandlerTask_work a (Some (hd (l1 @ [y]))) v2 s') (a_handler_work a xs (map (content (pkts s)) l2) (a_upd a (a_set_task (AHandler xs (map (content (pkts s)) l2))) A))"
      unfolding m h(4) .
    then show ?thesis using Some True y h(1) kind
      by (simp add: HandlerTask_run_def a_handler_def s'_def xs_def)
  next
    case False
    obtain h where h: "addTo y v2 (pkts s) = Inr (Some (hd (l2 @ [y])), h)" "plist h (Some (hd (l2 @ [y]))) (l2 @ [y])"
      "plist h v1 l1" "map (content h) l1 = map (content (pkts s)) l1"
      "map (content h) (l2 @ [y]) = map (content (pkts s)) (l2 @ [y])" "agree (set hand \<union> set (l1 @ l2)) (pkts s) h"
      using add [OF v(2,1)] d by auto
    define s' where "s' = set_task a (HandlerTask v1 (Some (hd (l2 @ [y])))) (s\<lparr>pkts := h\<rparr>)"
    define xs where "xs = map (content (pkts s)) l2 @ [content (pkts s) y]"
    have tr: "task_rel h (HandlerTask v1 (Some (hd (l2 @ [y])))) (AHandler (map (content (pkts s)) l1) xs) l1 (l2 @ [y])"
      using h by (simp add: xs_def)
    have rel': "srel s' (a_upd a (a_set_task (AHandler (map (content (pkts s)) l1) xs)) A) (own(a := (os, l1, l2 @ [y]))) []"
      by (rule set_task_refines [OF rel a(2) k h(6) tr _ _ s'_def]) (use place y in auto)
    have m: "pkts s' = h" "map (content h) (l2 @ [y]) = xs" using h(5) by (simp_all add: s'_def xs_def)
    have "steps_to (HandlerTask_work a v1 (Some (hd (l2 @ [y]))) s')
        (a_handler_work a (map (content (pkts s')) l1) (map (content (pkts s')) (l2 @ [y])) (a_upd a (a_set_task (AHandler (map (content (pkts s)) l1) xs)) A))"
      by (rule HandlerTask_work_refines [OF rel', of a os]) (use h(2,3) a in \<open>simp_all add: s'_def\<close>)
    then have "steps_to (HandlerTask_work a v1 (Some (hd (l2 @ [y]))) s') (a_handler_work a (map (content (pkts s)) l1) xs (a_upd a (a_set_task (AHandler (map (content (pkts s)) l1) xs)) A))"
      unfolding m h(4) .
    then show ?thesis using Some False y h(1) kind
      by (simp add: HandlerTask_run_def a_handler_def s'_def xs_def)
  qed
qed

section \<open>Dispatching\<close>

lemma task_run_refines:
  assumes rel: "srel s A own hand" and a: "currentTcb s = Some a" "a < length (tcbs s)" "a_cur A = Some a"
    and p: "case p of None \<Rightarrow> hand = [] \<and> ap = None | Some y \<Rightarrow> hand = [y] \<and> ap = Some (content (pkts s) y)"
  shows "steps_to (task_run a p s) (a_run a ap A)"
proof -
  obtain os l1 l2 where own: "own a = (os, l1, l2)" by (cases "own a")
  have tr: "task_rel (pkts s) (t_task (tcbs s ! a)) (at_task (a_tcbs A ! a)) l1 l2"
    using srel_tcb [OF rel a(2), unfolded own] by (cases "a_tcbs A ! a") simp
  show ?thesis
  proof (cases "t_task (tcbs s ! a)")
    case (IdleTask v c)
    then have "at_task (a_tcbs A ! a) = AIdle v c" "l1 = []" "l2 = []"
      using tr by (cases "at_task (a_tcbs A ! a)"; simp)+
    then show ?thesis using IdleTask_refines [OF srel_hand [OF rel] a] own IdleTask
      by (simp add: task_run_def a_run_def)
  next
    case (DeviceTask v)
    then obtain x where x: "at_task (a_tcbs A ! a) = ADevice x" "l2 = []"
      using tr by (cases "at_task (a_tcbs A ! a)") simp_all
    then have "steps_to (DeviceTask_run a v p s) (a_device a x ap A)"
      using tr DeviceTask own p by (intro DeviceTask_refines [OF rel a]) auto
    then show ?thesis using DeviceTask x by (simp add: task_run_def a_run_def)
  next
    case (WorkerTask v w)
    then have x: "at_task (a_tcbs A ! a) = AWorker v w" "l1 = []" "l2 = []"
      using tr by (cases "at_task (a_tcbs A ! a)"; simp)+
    then have "steps_to (WorkerTask_run a v w p s) (a_worker a v w ap A)"
      using own p by (intro WorkerTask_refines [OF rel a]) auto
    then show ?thesis using WorkerTask x by (simp add: task_run_def a_run_def)
  next
    case (HandlerTask v w)
    then have x: "at_task (a_tcbs A ! a) = AHandler (map (content (pkts s)) l1) (map (content (pkts s)) l2)"
      "plist (pkts s) v l1" "plist (pkts s) w l2"
      using tr by (cases "at_task (a_tcbs A ! a)"; simp)+
    then show ?thesis using HandlerTask_refines [OF rel a own x(2,3) p] HandlerTask
      by (simp add: task_run_def a_run_def)
  qed
qed

lemma tcb_run_refines:
  assumes rel: "srel s A own []" and a: "currentTcb s = Some a" "a < length (tcbs s)" "a_cur A = Some a"
    and held: "\<not> at_held (a_tcbs A ! a)" "\<not> (at_suspended (a_tcbs A ! a) \<and> at_queue (a_tcbs A ! a) = [])"
  shows "steps_to (tcb_run a s)
    (if at_suspended (a_tcbs A ! a) then
       a_run a (Some (hd (at_queue (a_tcbs A ! a))))
         (a_upd a (\<lambda>b. a_set_suspended False (a_set_queue (tl (at_queue b)) b)) A)
     else a_run a None A)"
proof -
  obtain os l1 l2 where own: "own a = (os, l1, l2)" by (cases "own a")
  obtain l i pr q h sp k where b: "a_tcbs A ! a = ATcb l i pr q h sp k" by (cases "a_tcbs A ! a")
  note t = srel_tcb [OF rel a(2), unfolded own b, simplified]
  note place = srel_place [OF rel a(2), unfolded own addrs.simps]
  have state: "t_state (tcbs s ! a) = STATE_SUSPENDED_RUNNABLE \<longleftrightarrow> sp"
    using t held b by (auto simp: state_of_tests)
  show ?thesis
  proof (cases sp)
    case False
    have "steps_to (task_run a None s) (a_run a None A)" by (rule task_run_refines [OF rel a]) simp
    then show ?thesis using False state b by (simp add: tcb_run_def)
  next
    case True
    with held b t obtain y os' where os: "os = y # os'" by (cases os) auto
    define n where "n = p_link (pkts s ! y)"
    define t' where "t' = (tcbs s ! a)\<lparr>t_queue := n, t_state := if n = None then STATE_RUNNING else STATE_RUNNABLE\<rparr>"
    define s' where "s' = s\<lparr>tcbs := (tcbs s)[a := t']\<rparr>"
    define A' where "A' = a_upd a (\<lambda>b. a_set_suspended False (a_set_queue (tl (at_queue b)) b)) A"
    have n: "plist (pkts s) n os'" "n = None \<longleftrightarrow> os' = []" using t os by (auto simp: n_def)
    have new: "tcb_rel (pkts s') t' (ATcb l i pr (map (content (pkts s)) os') False False k) (os', l1, l2)"
      using t n held(1) b by (auto simp: t'_def s'_def state_of_tests)
    have dist: "distinct ([y] @ addrs (os', l1, l2))" using place(2) os by auto
    have sub: "set ([y] @ addrs (os', l1, l2)) \<subseteq> set [] \<union> set (addrs (own a))" using own os by auto
    have A': "a_tcbs A' = (a_tcbs A)[a := ATcb l i pr (map (content (pkts s)) os') False False k]"
      using b t os held(1) by (simp add: A'_def a_upd_def)
    have rel': "srel s' A' (own(a := (os', l1, l2))) [y]"
      by (rule srel_upd [OF rel a(2) _ _ _ _ _ _ _ _ A' _ _ new dist sub])
        (use rel in \<open>simp_all add: s'_def t'_def A'_def a_upd_def srel_def\<close>)
    have "steps_to (task_run a (Some y) s') (a_run a (Some (content (pkts s) y)) A')"
      by (rule task_run_refines [OF rel']) (use a in \<open>simp_all add: s'_def A'_def\<close>)
    moreover have "tcb_run a s = task_run a (Some y) s'"
      using state True t os a(2) by (simp add: tcb_run_def Let_def upd_tcb_def s'_def t'_def n_def)
    moreover have "hd (at_queue (a_tcbs A ! a)) = content (pkts s) y" using b t os by simp
    ultimately show ?thesis using True b by (simp add: A'_def)
  qed
qed

text \<open>The relation between whole states, with the block that runs next.\<close>

definition sim :: "sched \<Rightarrow> asched \<Rightarrow> bool" where
  "sim s A \<longleftrightarrow> (\<exists>own. srel s A own []) \<and> currentTcb s = a_cur A \<and>
     (\<forall>t. a_cur A = Some t \<longrightarrow> t < length (tcbs s))"

lemma steps_to_sim:
  "steps_to r A \<Longrightarrow> \<exists>s. rbind r (\<lambda>(c, s). ok (s\<lparr>currentTcb := c\<rparr>)) = Inr s \<and> sim s A"
  by (auto simp: steps_to_def sim_def)

lemma schedule_step_refines:
  assumes sim: "sim s A" and a: "a_cur A = Some a"
  shows "\<exists>s'. schedule_step a s = Inr s' \<and> sim s' (a_step a A)"
proof -
  obtain own where rel: "srel s A own []" and c: "currentTcb s = Some a" and al: "a < length (tcbs s)"
    using sim a by (auto simp: sim_def)
  note t = tcb_rel_sel [OF srel_tcb [OF rel al]]
  let ?b = "a_tcbs A ! a"
  show ?thesis
  proof (cases "at_held ?b \<or> at_suspended ?b \<and> at_queue ?b = []")
    case True
    have "srel s (A\<lparr>a_cur := at_link ?b\<rparr>) own []" using rel by (simp add: srel_def)
    moreover have "u < length (tcbs s)" if "at_link ?b = Some u" for u
      using rel al that t(1) by (auto simp: srel_def)
    ultimately show ?thesis using True t by (auto simp: schedule_step_def a_step_def sim_def)
  next
    case False
    define s1 where "s1 = s\<lparr>currentId := Some (t_id (tcbs s ! a))\<rparr>"
    define A1 where "A1 = A\<lparr>a_curId := Some (at_id ?b)\<rparr>"
    have rel1: "srel s1 A1 own []" using rel t by (simp add: s1_def A1_def srel_def)
    have "steps_to (tcb_run a s1) (a_step a A)"
      using tcb_run_refines [OF rel1, of a] c al a False
      by (auto simp: s1_def A1_def a_step_def Let_def cong: if_cong)
    from steps_to_sim [OF this] show ?thesis using False t by (auto simp: schedule_step_def s1_def)
  qed
qed

lemma schedule_loop_refines:
  "sim s A \<Longrightarrow> case a_loop n A of
     Some A' \<Rightarrow> \<exists>s'. schedule_loop n s = Inr s' \<and> sim s' A'
   | None \<Rightarrow> schedule_loop n s = Inl OutOfFuel"
proof (induction n arbitrary: s A)
  case (Suc n)
  show ?case
  proof (cases "a_cur A")
    case None
    then show ?thesis using Suc.prems by (auto simp: sim_def)
  next
    case (Some a)
    from schedule_step_refines [OF Suc.prems this] obtain s' where
      s': "schedule_step a s = Inr s'" "sim s' (a_step a A)" by blast
    have "currentTcb s = Some a" using Suc.prems Some by (simp add: sim_def)
    then show ?thesis using Suc.IH [OF s'(2)] s'(1) Some
      by (cases "a_loop n (a_step a A)") simp_all
  qed
qed simp

section \<open>The initial state\<close>

definition a_work_packet :: apkt where
  "a_work_packet = APkt (Some ID_WORKER) KIND_WORK (Some 0) (replicate DATA_SIZE None)"

definition a_device_packet :: "int \<Rightarrow> apkt" where
  "a_device_packet d = APkt (Some d) KIND_DEVICE (Some 0) (replicate DATA_SIZE None)"

definition route :: "int \<Rightarrow> taddr option" where
  "route i = (if 0 \<le> i \<and> i < 6 then Some (nat i) else None)"

definition a_tasks :: "int \<Rightarrow> asched" where
  "a_tasks count = \<lparr>a_queueCount = 0, a_holdCount = 0,
     a_blocks = route,
     a_list = Some 5, a_cur = Some 5, a_curId = None,
     a_tcbs =
       [ATcb None ID_IDLE 0 [] False False (AIdle 1 count),
        ATcb (Some 0) ID_WORKER 1000 [a_work_packet, a_work_packet] False True (AWorker ID_HANDLER_A 0),
        ATcb (Some 1) ID_HANDLER_A 2000 (replicate 3 (a_device_packet ID_DEVICE_A)) False True (AHandler [] []),
        ATcb (Some 2) ID_HANDLER_B 3000 (replicate 3 (a_device_packet ID_DEVICE_B)) False True (AHandler [] []),
        ATcb (Some 3) ID_DEVICE_A 4000 [] False True (ADevice None),
        ATcb (Some 4) ID_DEVICE_B 5000 [] False True (ADevice None)]\<rparr>"

lemmas richards_ids = ID_IDLE_def ID_WORKER_def ID_HANDLER_A_def ID_HANDLER_B_def ID_DEVICE_A_def ID_DEVICE_B_def

text \<open>Where the eight packets lie at the start.\<close>

definition own0 :: "nat \<Rightarrow> place" where
  "own0 i = (if i = 1 then [1, 0] else if i = 2 then [4, 3, 2] else if i = 3 then [7, 6, 5] else [], [], [])"

text \<open>The state that the set-up builds, object by object.\<close>

definition richards_state :: "int \<Rightarrow> sched" where
  "richards_state count = \<lparr>queueCount = 0, holdCount = 0,
     blocks = (\<lambda>_. None)(0 := Some 0, 1 := Some 1, 2 := Some 2, 3 := Some 3, 4 := Some 4, 5 := Some 5),
     slist = Some 5, currentTcb = Some 5, currentId = None,
     tcbs = [setRunning (TaskControlBlock None 0 0 None (IdleTask 1 count)),
       TaskControlBlock (Some 0) 1 1000 (Some 1) (WorkerTask ID_HANDLER_A 0),
       TaskControlBlock (Some 1) 2 2000 (Some 4) (HandlerTask None None),
       TaskControlBlock (Some 2) 3 3000 (Some 7) (HandlerTask None None),
       TaskControlBlock (Some 3) 4 4000 None (DeviceTask None),
       TaskControlBlock (Some 4) 5 5000 None (DeviceTask None)],
     pkts = [Packet None 1 KIND_WORK, Packet (Some 0) 1 KIND_WORK,
       Packet None 4 KIND_DEVICE, Packet (Some 2) 4 KIND_DEVICE, Packet (Some 3) 4 KIND_DEVICE,
       Packet None 5 KIND_DEVICE, Packet (Some 5) 5 KIND_DEVICE, Packet (Some 6) 5 KIND_DEVICE]\<rparr>"

lemma richards_tasks_state: "richards_tasks count = Inr (richards_state count)"
  by (simp add: richards_tasks_def addIdleTask_def addRunningTask_def addTask_def Scheduler_def
      addWorkerTask_def addHandlerTask_def addDeviceTask_def new_packet_def upd_tcb_def Let_def richards_state_def
      ID_IDLE_def ID_WORKER_def ID_DEVICE_A_def ID_DEVICE_B_def ID_HANDLER_B_def)
    (simp add: ID_HANDLER_A_def eval_nat_numeral)

lemma richards_tcbs_rel:
  "tcb_rel (pkts (richards_state count)) (tcbs (richards_state count) ! i) (a_tcbs (a_tasks count) ! i) (own0 i)"
  if "i < 6"
proof -
  have st: "STATE_SUSPENDED = state_of False True False" "STATE_SUSPENDED_RUNNABLE = state_of False True True"
    "STATE_RUNNING = state_of False False False"
    by (simp_all add: state_of_def STATE_SUSPENDED_RUNNABLE_def STATE_RUNNING_def STATE_SUSPENDED_def
        STATE_RUNNABLE_def js_or_def toInt32_def)
  have "i = 0 \<or> i = 1 \<or> i = 2 \<or> i = 3 \<or> i = 4 \<or> i = 5" using that by auto
  then show ?thesis
    by (elim disjE) (simp_all add: richards_state_def a_tasks_def own0_def TaskControlBlock_def setRunning_def st
        Packet_def content_def a_work_packet_def a_device_packet_def richards_ids eval_nat_numeral)
qed

lemma richards_state_srel: "srel (richards_state count) (a_tasks count) own0 []"
proof -
  have "set (addrs (own0 i)) \<subseteq> {..<8}" "distinct (addrs (own0 i))" for i
    by (auto simp: own0_def)
  moreover have "set (addrs (own0 i)) \<inter> set (addrs (own0 j)) = {}" if "i \<noteq> j" for i j
    using that by (auto simp: own0_def)
  moreover have "length (tcbs (richards_state count)) = 6" "length (pkts (richards_state count)) = 8"
    "length (a_tcbs (a_tasks count)) = 6"
    by (simp_all add: richards_state_def a_tasks_def)
  ultimately have "trel (tcbs (richards_state count)) (pkts (richards_state count)) (a_tcbs (a_tasks count)) own0 []"
    using richards_tcbs_rel unfolding trel_def by auto
  then show ?thesis
    by (auto simp: srel_def richards_state_def a_tasks_def route_def fun_eq_iff TaskControlBlock_def setRunning_def less_Suc_eq eval_nat_numeral)
qed

end
