(* ===== verification/Richards_Packets.thy ===== *)
theory Richards_Packets
  imports Richards_Correct
begin

text \<open>
  What holds in every state of a run of the dispatcher, for any idle count: the routes of all
  packets are defined, the idle task has no queue, a suspended device holds no packet back,
  and so the number of packets never changes. With the refinement, every packet object is in
  exactly one list of exactly one task.
\<close>

section \<open>No packet is lost\<close>

fun task_packets :: "atask \<Rightarrow> apkt list" where
  "task_packets (AIdle v c) = []"
| "task_packets (ADevice x) = (case x of None \<Rightarrow> [] | Some p \<Rightarrow> [p])"
| "task_packets (AWorker v w) = []"
| "task_packets (AHandler xs ys) = xs @ ys"

definition tcb_packets :: "atcb \<Rightarrow> apkt list" where
  "tcb_packets b = at_queue b @ task_packets (at_task b)"

definition has_route :: "apkt \<Rightarrow> bool" where
  "has_route p \<longleftrightarrow> (\<exists>j. ap_id p = Some j \<and> 1 \<le> j \<and> j < 6)"

text \<open>
  A block in its place: only the idle task, which is never sent a packet, is at 0; the packets
  have an address other than the idle task; a suspended device holds no packet back.
\<close>

definition tcb_ok :: "nat \<Rightarrow> atcb \<Rightarrow> bool" where
  "tcb_ok i b \<longleftrightarrow> at_id b = int i \<and> (case at_task b of AIdle v c \<Rightarrow> i = 0 | _ \<Rightarrow> i \<noteq> 0) \<and>
     (\<forall>p \<in> set (tcb_packets b). has_route p) \<and> (i = 0 \<longrightarrow> at_queue b = []) \<and>
     (\<forall>x. at_task b = ADevice x \<longrightarrow> at_suspended b \<longrightarrow> x = None)"

definition packets :: "asched \<Rightarrow> nat" where
  "packets A = sum_list (map (\<lambda>b. length (tcb_packets b)) (a_tcbs A))"

definition a_inv :: "nat \<Rightarrow> asched \<Rightarrow> bool" where
  "a_inv N A \<longleftrightarrow> a_blocks A = route \<and> length (a_tcbs A) = 6 \<and> (\<forall>i < 6. tcb_ok i (a_tcbs A ! i)) \<and> packets A = N"

lemma packets_update:
  "i < length bs \<Longrightarrow> sum_list (map f (bs[i := b'])) + f (bs ! i) = sum_list (map f bs) + (f b' :: nat)"
  by (induction bs arbitrary: i) (auto split: nat.splits)

lemma a_inv_upd:
  assumes inv: "a_inv N A" and i: "i < 6" and A': "a_blocks A' = a_blocks A" "a_tcbs A' = (a_tcbs A)[i := b']"
    and ok: "tcb_ok i b'" and N: "N' + length (tcb_packets (a_tcbs A ! i)) = N + length (tcb_packets b')"
  shows "a_inv N' A'"
proof -
  have "packets A' + length (tcb_packets (a_tcbs A ! i)) = packets A + length (tcb_packets b')"
    using inv i unfolding packets_def A' a_inv_def by (intro packets_update) simp
  then show ?thesis using inv i A' ok N by (auto simp: a_inv_def nth_list_update)
qed

lemma a_inv_ok: "a_inv N A \<Longrightarrow> i < 6 \<Longrightarrow> tcb_ok i (a_tcbs A ! i)"
  by (simp add: a_inv_def)

lemma a_inv_a_upd:
  assumes "a_inv N A" "i < 6" "tcb_ok i (f (a_tcbs A ! i))"
    "N' + length (tcb_packets (a_tcbs A ! i)) = N + length (tcb_packets (f (a_tcbs A ! i)))"
  shows "a_inv N' (a_upd i f A)"
  by (rule a_inv_upd [OF assms(1,2) _ _ assms(3,4)]) (simp_all add: a_upd_def)

lemma a_inv_scalars [simp]:
  "a_inv N (A\<lparr>a_holdCount := h\<rparr>) = a_inv N A" "a_inv N (A\<lparr>a_cur := c\<rparr>) = a_inv N A"
  "a_inv N (A\<lparr>a_curId := i\<rparr>) = a_inv N A"
  by (simp_all add: a_inv_def packets_def)

lemma marks_sel [simp]:
  "at_id (a_set_held x b) = at_id b" "at_task (a_set_held x b) = at_task b" "at_queue (a_set_held x b) = at_queue b"
  "at_suspended (a_set_held x b) = at_suspended b"
  "at_id (a_set_suspended x b) = at_id b" "at_task (a_set_suspended x b) = at_task b"
  "at_queue (a_set_suspended x b) = at_queue b" "at_suspended (a_set_suspended x b) = x"
  "at_id (a_set_queue q b) = at_id b" "at_task (a_set_queue q b) = at_task b"
  "at_queue (a_set_queue q b) = q" "at_suspended (a_set_queue q b) = at_suspended b"
  "at_id (a_set_task k b) = at_id b" "at_task (a_set_task k b) = k"
  "at_queue (a_set_task k b) = at_queue b" "at_suspended (a_set_task k b) = at_suspended b"
  "at_held (a_set_held x b) = x" "at_held (a_set_suspended y b) = at_held b" "at_held (a_set_queue q b) = at_held b"
  "at_held (a_set_task k b) = at_held b"
  by (cases b; simp)+

lemma a_hold_inv: "a_inv N A \<Longrightarrow> a < 6 \<Longrightarrow> a_inv N (a_hold a A)"
  unfolding a_hold_def by (rule a_inv_a_upd) (auto simp: tcb_ok_def tcb_packets_def a_inv_def packets_def)

lemma a_release_inv:
  assumes inv: "a_inv N A" and a: "a < 6"
  shows "a_inv N (a_release i a A)"
proof (cases "a_blocks A i")
  case (Some t)
  then have t: "t < 6" using inv by (auto simp: a_inv_def route_def split: if_splits)
  have "a_inv N (a_upd t (a_set_held False) (A\<lparr>a_cur := c\<rparr>))" for c
    using inv t a_inv_ok [OF inv t] by (intro a_inv_a_upd [of N]) (auto simp: tcb_ok_def tcb_packets_def)
  then show ?thesis using Some by (simp add: a_release_def)
qed (use inv in \<open>simp add: a_release_def\<close>)

lemma a_suspend_inv:
  assumes "a_inv N A" "a < 6" "\<And>x. at_task (a_tcbs A ! a) = ADevice x \<Longrightarrow> x = None"
  shows "a_inv N (a_suspend a A)"
  unfolding a_suspend_def using assms a_inv_ok [OF assms(1,2)]
  by (intro a_inv_a_upd [of N]) (auto simp: tcb_ok_def tcb_packets_def)

lemma ap_id_with_id [simp]: "ap_id (a_with_id i p) = i" "ap_id (a_with_a1 i p) = ap_id p"
  by (cases p; simp)+

lemma a_send_inv:
  assumes inv: "a_inv N A" and a: "a < 6" and p: "has_route p" and c: "a_curId A = Some (int a)" "a \<noteq> 0"
  shows "a_inv (Suc N) (a_send p a A)"
proof -
  obtain j where j: "ap_id p = Some j" "1 \<le> j" "j < 6" using p by (auto simp: has_route_def)
  then have t: "Option.bind (ap_id p) (a_blocks A) = Some (nat j)" "nat j < 6" "nat j \<noteq> 0"
    using inv by (auto simp: a_inv_def route_def)
  have "has_route (a_with_id (a_curId A) p)" using a c by (auto simp: has_route_def)
  then show ?thesis using inv t a_inv_ok [OF inv t(2)]
    by (intro a_inv_upd [OF inv t(2), where b' = "a_set_queue (at_queue (a_tcbs A ! nat j) @ [a_with_id (a_curId A) p]) (a_tcbs A ! nat j)"])
      (auto simp: a_send_def Let_def tcb_ok_def tcb_packets_def)
qed

lemma a_set_task_inv:
  assumes inv: "a_inv N A" and a: "a < 6" and k: "case k of AIdle v c \<Rightarrow> a = 0 | _ \<Rightarrow> a \<noteq> 0"
    "\<forall>p \<in> set (task_packets k). has_route p" "at_suspended (a_tcbs A ! a) \<Longrightarrow> \<forall>x. k = ADevice x \<longrightarrow> x = None"
    and N: "N' + length (task_packets (at_task (a_tcbs A ! a))) = N + length (task_packets k)"
  shows "a_inv N' (a_upd a (a_set_task k) A)"
  using inv a k N a_inv_ok [OF inv a]
  by (intro a_inv_a_upd [OF inv a]) (auto simp: tcb_ok_def tcb_packets_def)

lemma a_upd_sel [simp]:
  "a_curId (a_upd a f A) = a_curId A" "a < length (a_tcbs A) \<Longrightarrow> a_tcbs (a_upd a f A) ! a = f (a_tcbs A ! a)"
  by (simp_all add: a_upd_def)

lemma a_idle_inv:
  assumes inv: "a_inv N A" and a: "a < 6" and k: "at_task (a_tcbs A ! a) = AIdle v c"
  shows "a_inv N (a_idle a v c A)"
proof -
  have "a_inv N (a_upd a (a_set_task (AIdle v' c')) A)" for v' c'
    using a_inv_ok [OF inv a] k by (intro a_set_task_inv [OF inv a]) (auto simp: tcb_ok_def)
  then show ?thesis by (simp add: a_idle_def a_hold_inv a_release_inv a)
qed

lemma a_device_inv:
  assumes inv: "a_inv N A" and a: "a < 6" and k: "at_task (a_tcbs A ! a) = ADevice x" and c: "a_curId A = Some (int a)"
    and p: "case p of None \<Rightarrow> True | Some y \<Rightarrow> has_route y \<and> x = None \<and> \<not> at_suspended (a_tcbs A ! a)"
  shows "a_inv (case p of None \<Rightarrow> N | Some y \<Rightarrow> Suc N) (a_device a x p A)"
proof -
  have ok: "a \<noteq> 0" "\<forall>p \<in> set (task_packets (ADevice x)). has_route p"
    using a_inv_ok [OF inv a] k by (auto simp: tcb_ok_def tcb_packets_def)
  show ?thesis
  proof (cases p)
    case None
    show ?thesis
    proof (cases x)
      case None': None
      then show ?thesis using None inv a k by (auto simp: a_device_def intro!: a_suspend_inv)
    next
      case (Some y)
      have "1 \<le> N"
      proof -
        have "length (tcb_packets (a_tcbs A ! a)) \<le> packets A"
          unfolding packets_def using inv a by (intro member_le_sum_list) (auto simp: a_inv_def)
        then show ?thesis using inv k Some by (simp add: a_inv_def tcb_packets_def)
      qed
      then have "a_inv (N - 1) (a_upd a (a_set_task (ADevice None)) A)"
        using ok k Some by (intro a_set_task_inv [OF inv a]) auto
      from a_send_inv [OF this a _ _ ok(1), of y] show ?thesis
        using None Some ok c \<open>1 \<le> N\<close> by (simp add: a_device_def)
    qed
  next
    case (Some y)
    have "a_inv (Suc N) (a_upd a (a_set_task (ADevice (Some y))) A)"
      using ok k Some p by (intro a_set_task_inv [OF inv a]) auto
    then show ?thesis using Some by (simp add: a_device_def a_hold_inv a)
  qed
qed

lemma a_worker_inv:
  assumes inv: "a_inv N A" and a: "a < 6" and k: "at_task (a_tcbs A ! a) = AWorker v w" and c: "a_curId A = Some (int a)"
  shows "a_inv (case p of None \<Rightarrow> N | Some y \<Rightarrow> Suc N) (a_worker a v w p A)"
proof (cases p)
  case None
  then show ?thesis using inv a k by (auto intro!: a_suspend_inv)
next
  case (Some y)
  obtain i kd a1 a2 where y: "y = APkt i kd a1 a2" by (cases y)
  have ok: "a \<noteq> 0" using a_inv_ok [OF inv a] k by (auto simp: tcb_ok_def)
  have "a_inv N (a_upd a (a_set_task (AWorker v' w')) A)" for v' w'
    using ok k by (intro a_set_task_inv [OF inv a]) auto
  then show ?thesis using Some y ok c a
    by (auto simp: Let_def case_prod_beta has_route_def richards_ids intro!: a_send_inv)
qed

lemma a_handler_work_inv:
  assumes inv: "a_inv N A" and a: "a < 6" and k: "at_task (a_tcbs A ! a) = AHandler xs ys" and c: "a_curId A = Some (int a)"
  shows "a_inv N (a_handler_work a xs ys A)"
proof (cases xs)
  case Nil
  then show ?thesis using inv a k by (auto intro!: a_suspend_inv)
next
  case (Cons w ws)
  have ok: "a \<noteq> 0" "\<forall>p \<in> set (xs @ ys). has_route p"
    using a_inv_ok [OF inv a] k by (auto simp: tcb_ok_def tcb_packets_def)
  have N: "1 \<le> N"
  proof -
    have "length (tcb_packets (a_tcbs A ! a)) \<le> packets A"
      unfolding packets_def using inv a by (intro member_le_sum_list) (auto simp: a_inv_def)
    then show ?thesis using inv k Cons by (simp add: a_inv_def tcb_packets_def)
  qed
  have wa: "has_route (a_with_a1 z p) = has_route p" for z p by (simp add: has_route_def)
  have "a_inv (N - 1) (a_upd a (a_set_task (AHandler ws ys)) A)"
    using ok k Cons N by (intro a_set_task_inv [OF inv a]) auto
  from a_send_inv [OF this a _ _ ok(1), of w] have send: "a_inv N (a_send w a (a_upd a (a_set_task (AHandler ws ys)) A))"
    using ok c N Cons by simp
  have "a_inv N (a_send (a_with_a1 z v) a (a_upd a (a_set_task (AHandler (a_with_a1 z' w # ws) vs)) A))"
    if ys: "ys = v # vs" for z z' v vs
  proof -
    have "a_inv (N - 1) (a_upd a (a_set_task (AHandler (a_with_a1 z' w # ws) vs)) A)"
      using ok k Cons N ys wa by (intro a_set_task_inv [OF inv a]) auto
    from a_send_inv [OF this a _ _ ok(1), of "a_with_a1 z v"] show ?thesis using ok c N ys wa by simp
  qed
  then show ?thesis using send inv a k Cons by (auto intro!: a_suspend_inv split: option.splits list.splits)
qed

lemma a_handler_inv:
  assumes inv: "a_inv N A" and a: "a < 6" and k: "at_task (a_tcbs A ! a) = AHandler xs ys" and c: "a_curId A = Some (int a)"
    and p: "case p of None \<Rightarrow> True | Some y \<Rightarrow> has_route y"
  shows "a_inv (case p of None \<Rightarrow> N | Some y \<Rightarrow> Suc N) (a_handler a xs ys p A)"
proof (cases p)
  case None
  then show ?thesis using a_handler_work_inv [OF inv a k c] by (simp add: a_handler_def)
next
  case (Some y)
  have ok: "a \<noteq> 0" "\<forall>p \<in> set (xs @ ys). has_route p"
    using a_inv_ok [OF inv a] k by (auto simp: tcb_ok_def tcb_packets_def)
  have len: "a < length (a_tcbs A)" using inv a by (simp add: a_inv_def)
  have "a_inv (Suc N) (a_upd a (a_set_task (AHandler xs' ys')) A)" 
    if "xs' = xs @ [y] \<and> ys' = ys \<or> xs' = xs \<and> ys' = ys @ [y]" for xs' ys'
    using ok k Some p that by (intro a_set_task_inv [OF inv a]) auto
  then show ?thesis using Some a c len by (auto simp: a_handler_def intro!: a_handler_work_inv)
qed

lemma a_run_inv:
  assumes inv: "a_inv N A" and a: "a < 6" and c: "a_curId A = Some (int a)"
    and p: "case p of None \<Rightarrow> True | Some y \<Rightarrow> has_route y \<and> a \<noteq> 0 \<and> \<not> at_suspended (a_tcbs A ! a) \<and>
       (\<forall>x. at_task (a_tcbs A ! a) = ADevice x \<longrightarrow> x = None)"
  shows "a_inv (case p of None \<Rightarrow> N | Some y \<Rightarrow> Suc N) (a_run a p A)"
proof (cases "at_task (a_tcbs A ! a)")
  case (AIdle v w)
  then have "a = 0" using a_inv_ok [OF inv a] by (simp add: tcb_ok_def)
  then show ?thesis using a_idle_inv [OF inv a AIdle] p AIdle by (cases p) (simp_all add: a_run_def)
next
  case (ADevice x)
  have "a_inv (case p of None \<Rightarrow> N | Some y \<Rightarrow> Suc N) (a_device a x p A)"
    by (rule a_device_inv [OF inv a ADevice c]) (use p ADevice in \<open>auto split: option.splits\<close>)
  then show ?thesis using ADevice by (simp add: a_run_def)
next
  case (AWorker v w)
  then show ?thesis using a_worker_inv [OF inv a AWorker c] by (simp add: a_run_def)
next
  case (AHandler xs ys)
  have "a_inv (case p of None \<Rightarrow> N | Some y \<Rightarrow> Suc N) (a_handler a xs ys p A)"
    by (rule a_handler_inv [OF inv a AHandler c]) (use p in \<open>auto split: option.splits\<close>)
  then show ?thesis using AHandler by (simp add: a_run_def)
qed

lemma a_step_inv:
  assumes inv: "a_inv N A" and a: "a < 6"
  shows "a_inv N (a_step a A)"
proof -
  let ?b = "a_tcbs A ! a"
  let ?A = "A\<lparr>a_curId := Some (at_id ?b)\<rparr>"
  have ok: "tcb_ok a ?b" by (rule a_inv_ok [OF inv a])
  have inv1: "a_inv N ?A" and c: "a_curId ?A = Some (int a)" using inv ok by (simp_all add: tcb_ok_def)
  show ?thesis
  proof (cases "at_held ?b \<or> at_suspended ?b \<and> at_queue ?b = []")
    case True
    then show ?thesis using inv by (simp add: a_step_def)
  next
    case False
    show ?thesis
    proof (cases "at_suspended ?b")
      case True
      then obtain p q where q: "at_queue ?b = p # q" using False by (cases "at_queue ?b") auto
      let ?B = "a_upd a (\<lambda>b. a_set_suspended False (a_set_queue (tl (at_queue b)) b)) ?A"
      have N: "1 \<le> N"
      proof -
        have "length (tcb_packets ?b) \<le> packets A"
          unfolding packets_def using inv a by (intro member_le_sum_list) (auto simp: a_inv_def)
        then show ?thesis using inv q by (simp add: a_inv_def tcb_packets_def)
      qed
      have "a \<noteq> 0"
      proof
        assume "a = 0"
        then have "at_queue ?b = []" using ok by (simp add: tcb_ok_def)
        then show False using q by simp
      qed
      moreover have "a_inv (N - 1) ?B"
        using ok q N by (intro a_inv_a_upd [OF inv1 a]) (auto simp: tcb_ok_def tcb_packets_def)
      moreover have "has_route p \<and> (\<forall>x. at_task ?b = ADevice x \<longrightarrow> x = None)"
        using ok q True by (auto simp: tcb_ok_def tcb_packets_def)
      moreover have "a < length (a_tcbs A)" using inv a by (simp add: a_inv_def)
      ultimately have "a_inv N (a_run a (Some p) ?B)"
        using a_run_inv [of "N - 1" ?B a "Some p"] a c N by simp
      then show ?thesis using False True q by (simp add: a_step_def Let_def)
    next
      case susp: False
      then show ?thesis using a_run_inv [OF inv1 a c, of None] False by (simp add: a_step_def Let_def)
    qed
  qed
qed

lemma a_tasks_inv: "a_inv 8 (a_tasks count)"
proof -
  have "tcb_ok i (a_tcbs (a_tasks count) ! i)" if "i < 6" for i
  proof -
    have "i = 0 \<or> i = 1 \<or> i = 2 \<or> i = 3 \<or> i = 4 \<or> i = 5" using that by auto
    then show ?thesis
      by (elim disjE) (simp_all add: a_tasks_def tcb_ok_def tcb_packets_def has_route_def a_work_packet_def
          a_device_packet_def richards_ids)
  qed
  then show ?thesis
    by (simp add: a_inv_def packets_def a_tasks_def tcb_packets_def route_def fun_eq_iff)
qed

section \<open>The states of the dispatcher\<close>

text \<open>Every method keeps the number of objects in both stores.\<close>

definition keeps_objects :: "('a \<times> sched) res \<Rightarrow> sched \<Rightarrow> bool" where
  "keeps_objects r s \<longleftrightarrow> (\<forall>x s'. r = Inr (x, s') \<longrightarrow>
     length (pkts s') = length (pkts s) \<and> length (tcbs s') = length (tcbs s))"

lemma addTo_length: "addTo p q h = Inr (r, h') \<Longrightarrow> length h' = length h"
  by (auto simp: addTo_def rbind_Inr_iff Let_def split: option.splits)

lemma keeps_services:
  "keeps_objects (holdCurrent s) s" "keeps_objects (suspendCurrent s) s" "keeps_objects (release i s) s"
  "keeps_objects (queue p s) s"
  by (auto simp: keeps_objects_def holdCurrent_def suspendCurrent_def release_def queue_def checkPriorityAdd_def
      rbind_Inr_iff upd_tcb_def Let_def addTo_length split: option.splits if_splits)

lemma keeps_services_from:
  assumes "length (pkts s1) = length (pkts s)" "length (tcbs s1) = length (tcbs s)"
  shows "keeps_objects (holdCurrent s1) s" "keeps_objects (suspendCurrent s1) s" "keeps_objects (release i s1) s"
    "keeps_objects (queue p s1) s"
  using keeps_services [where s = s1] assms by (simp_all add: keeps_objects_def)

lemma keeps_rbind:
  "(\<And>x. m = Inr x \<Longrightarrow> keeps_objects (f x) s) \<Longrightarrow> keeps_objects (rbind m f) s"
  by (cases m) (auto simp: keeps_objects_def)

lemma keeps_task:
  assumes "length (pkts s1) = length (pkts s)" "length (tcbs s1) = length (tcbs s)"
  shows "keeps_objects (task_run a p s1) s"
proof -
  have "keeps_objects (HandlerTask_work a v w s1) s"
    if "length (pkts s1) = length (pkts s)" "length (tcbs s1) = length (tcbs s)" for v w s1
    using that by (auto simp: HandlerTask_work_def Let_def intro!: keeps_services_from split: option.splits)
  then have "keeps_objects (HandlerTask_run a v w p s1) s" for v w
    using assms by (auto simp: HandlerTask_run_def Let_def addTo_length intro!: keeps_rbind split: option.splits)
  moreover have "keeps_objects (IdleTask_run a v c s1) s" for v c
    using assms by (auto simp: IdleTask_run_def Let_def intro!: keeps_services_from)
  moreover have "keeps_objects (DeviceTask_run a v p s1) s" for v
    using assms by (auto simp: DeviceTask_run_def Let_def intro!: keeps_services_from split: option.splits)
  moreover have "keeps_objects (WorkerTask_run a v w p s1) s" for v w
    using assms by (auto simp: WorkerTask_run_def Let_def intro!: keeps_services_from split: option.splits prod.splits)
  ultimately show ?thesis by (auto simp: task_run_def split: task.splits)
qed

lemma keeps_step:
  assumes "schedule_step a s = Inr s'"
  shows "length (pkts s') = length (pkts s) \<and> length (tcbs s') = length (tcbs s)"
proof -
  have "keeps_objects (tcb_run a s1) s"
    if "length (pkts s1) = length (pkts s)" "length (tcbs s1) = length (tcbs s)" for s1
    using that by (auto simp: tcb_run_def Let_def upd_tcb_def intro!: keeps_task keeps_rbind)
  from this [of "s\<lparr>currentId := Some (t_id (tcbs s ! a))\<rparr>"] assms show ?thesis
    by (auto simp: schedule_step_def rbind_Inr_iff keeps_objects_def split: if_splits)
qed

text \<open>The states of a run with a given idle count, one round of the loop of \<open>schedule\<close> each.\<close>

inductive dispatch :: "int \<Rightarrow> sched \<Rightarrow> bool" for count where
  dispatch_start: "richards_tasks count = Inr s \<Longrightarrow> dispatch count (s\<lparr>currentTcb := slist s\<rparr>)"
| dispatch_round: "dispatch count s \<Longrightarrow> currentTcb s = Some a \<Longrightarrow> schedule_step a s = Inr s' \<Longrightarrow> dispatch count s'"

inductive_cases dispatch_elim: "dispatch count s"

lemma dispatch_inv:
  "dispatch count s \<Longrightarrow> \<exists>A. sim s A \<and> a_inv 8 A \<and> length (pkts s) = 8 \<and> length (tcbs s) = 6"
proof (induction rule: dispatch.induct)
  case (dispatch_start s)
  have "sim (s\<lparr>currentTcb := slist s\<rparr>) (a_tasks count)"
    using dispatch_start richards_state_srel [of count]
    by (auto simp: richards_tasks_state sim_def) (auto simp: richards_state_def a_tasks_def)
  moreover have "length (pkts s) = 8" "length (tcbs s) = 6"
    using dispatch_start by (auto simp: richards_tasks_state richards_state_def)
  ultimately show ?case using a_tasks_inv by auto
next
  case (dispatch_round s a s')
  then obtain A where A: "sim s A" "a_inv 8 A" "length (pkts s) = 8" "length (tcbs s) = 6" by blast
  then have a: "a_cur A = Some a" "a < 6" using dispatch_round by (auto simp: sim_def)
  from schedule_step_refines [OF A(1) a(1)] have "sim s' (a_step a A)" using dispatch_round by auto
  then show ?case using a_step_inv [OF A(2) a(2)] keeps_step [OF dispatch_round(3)] A(3,4) by auto
qed

lemma tcb_rel_packets: "tcb_rel h t b o' \<Longrightarrow> length (tcb_packets b) = length (addrs o')"
  by (cases "(h, t, b, o')" rule: tcb_rel.cases, cases "t_task t"; cases "at_task b")
    (auto simp: tcb_packets_def split: option.splits)

lemma a_inv_owned:
  assumes rel: "srel s A own []" and inv: "a_inv N A" and N: "length (pkts s) = N"
  shows "(\<Union>i<6. set (addrs (own i))) = {..<N}"
proof -
  have len: "length (tcbs s) = 6" using rel inv by (simp add: srel_def trel_def a_inv_def)
  have "map (\<lambda>b. length (tcb_packets b)) (a_tcbs A) = map (\<lambda>i. length (addrs (own i))) [0..<6]"
    using inv len tcb_rel_packets [OF srel_tcb [OF rel]] by (intro nth_equalityI) (auto simp: a_inv_def)
  then have "sum (\<lambda>i. length (addrs (own i))) {..<6} = N"
    using inv by (simp add: a_inv_def packets_def interv_sum_list_conv_sum_set_nat atLeast0LessThan)
  moreover have "length (addrs (own i)) = card (set (addrs (own i)))" if "i < 6" for i
    using srel_place [OF rel, of i] len that by (simp add: distinct_card)
  moreover have "card (\<Union>i<6. set (addrs (own i))) = sum (\<lambda>i. card (set (addrs (own i)))) {..<6}"
    using rel len by (intro card_UN_disjoint) (auto simp: srel_def trel_def)
  ultimately have "card (\<Union>i<6. set (addrs (own i))) = N" by simp
  moreover have "(\<Union>i<6. set (addrs (own i))) \<subseteq> {..<N}" using srel_place(1) [OF rel] len N by fastforce
  ultimately show ?thesis by (intro card_subset_eq) auto
qed

end
