(* ===== verification/Richards_Run.thy ===== *)
theory Richards_Run
  imports Richards_Packets
begin

text \<open>
  The run of the benchmark itself: the specification is evaluated from the initial state with
  \<open>COUNT = 1000\<close>, in five stretches, to the end after 10671 rounds, and the refinement carries the
  result over to the code. Then the properties of the dispatcher.
\<close>

section \<open>Evaluating the run\<close>

fun a_steps :: "nat \<Rightarrow> asched \<Rightarrow> asched" where
  "a_steps 0 A = A"
| "a_steps (Suc n) A = (case a_cur A of None \<Rightarrow> A | Some a \<Rightarrow> a_steps n (a_step a A))"

lemma a_steps_stop: "a_cur A = None \<Longrightarrow> a_steps n A = A"
  by (cases n) simp_all

lemma a_steps_add: "a_steps (m + n) A = a_steps n (a_steps m A)"
  by (induction m arbitrary: A) (auto simp: a_steps_stop split: option.splits)

lemma a_loop_steps:
  "a_loop n A = (if n > 0 \<and> a_cur (a_steps (n - 1) A) = None then Some (a_steps (n - 1) A) else None)"
proof (induction n arbitrary: A)
  case (Suc n)
  show ?case
  proof (cases "a_cur A")
    case (Some a)
    then show ?thesis using Suc.IH [of "a_step a A"] by (cases n) auto
  qed (simp add: a_steps_stop)
qed simp

text \<open>A state without its routes, which never change.\<close>

type_synonym aview = "int \<times> int \<times> taddr option \<times> taddr option \<times> int option \<times> atcb list"

definition a_view :: "asched \<Rightarrow> aview" where
  "a_view A = (a_queueCount A, a_holdCount A, a_list A, a_cur A, a_curId A, a_tcbs A)"

fun a_of :: "aview \<Rightarrow> asched" where
  "a_of (q, h, l, c, i, ts) = \<lparr>a_queueCount = q, a_holdCount = h, a_blocks = route, a_list = l, a_cur = c,
     a_curId = i, a_tcbs = ts\<rparr>"

lemma a_of_view: "a_blocks A = route \<Longrightarrow> a_of (a_view A) = A"
  by (cases A) (simp add: a_view_def)

lemma a_blocks_upd [simp]: "a_blocks (a_upd a f A) = a_blocks A"
  by (simp add: a_upd_def)

lemma a_blocks_services [simp]:
  "a_blocks (a_hold a A) = a_blocks A" "a_blocks (a_suspend a A) = a_blocks A"
  "a_blocks (a_release i a A) = a_blocks A" "a_blocks (a_send p a A) = a_blocks A"
  by (simp_all add: a_hold_def a_suspend_def a_release_def a_send_def Let_def split: option.splits)

lemma a_blocks_handler_work [simp]: "a_blocks (a_handler_work a v w A) = a_blocks A"
  by (cases v) (simp_all split: option.splits list.splits)

lemma a_blocks_worker [simp]: "a_blocks (a_worker a v w p A) = a_blocks A"
  by (cases "(a, v, w, p, A)" rule: a_worker.cases) (auto simp: Let_def split: prod.splits)

lemma a_blocks_step [simp]: "a_blocks (a_step a A) = a_blocks A"
  by (simp add: a_step_def a_run_def a_idle_def a_device_def a_handler_def Let_def split: option.splits atask.splits)

lemma a_blocks_steps [simp]: "a_blocks (a_steps n A) = a_blocks A"
  by (induction n arbitrary: A) (auto split: option.splits)

lemma a_steps_view: "a_view (a_steps n (a_of v)) = w \<Longrightarrow> a_steps n (a_of v) = a_of w"
  using a_of_view [of "a_steps n (a_of v)"] by (cases v) auto

text \<open>The states after 2134, 4268, 6402, 8536 and 10670 rounds, and the last one.\<close>

definition a_mid1 :: aview where
  "a_mid1 =
   (460, 182, Some 5, Some 2, Some 3,
     [ATcb None 0 0 [] False False (AIdle 59123 805),
      ATcb (Some 0) 1 1000 [] False True (AWorker 2 10),
      ATcb (Some 1) 2 2000 [] False True
       (AHandler [APkt (Some 1) 1 (Some 1) [Some 7, Some 8, Some 9, Some 10]]
         []),
      ATcb (Some 2) 3 3000 [] False True
       (AHandler [APkt (Some 1) 1 (Some 1) [Some 3, Some 4, Some 5, Some 6]]
         []),
      ATcb (Some 3) 4 4000
       [APkt (Some 2) 0 (Some 2) [None, None, None, None],
        APkt (Some 2) 0 (Some 7) [None, None, None, None]]
       True False
       (ADevice (Some (APkt (Some 2) 0 (Some 1) [None, None, None, None]))),
      ATcb (Some 4) 5 5000
       [APkt (Some 3) 0 (Some 24) [None, None, None, None],
        APkt (Some 3) 0 (Some 3) [None, None, None, None]]
       True False
       (ADevice (Some (APkt (Some 3) 0 (Some 23) [None, None, None, None])))])"

definition a_mid2 :: aview where
  "a_mid2 =
   (916, 365, Some 5, Some 3, Some 3,
     [ATcb None 0 0 [] False False (AIdle 63991 600),
      ATcb (Some 0) 1 1000 [] False True (AWorker 3 8),
      ATcb (Some 1) 2 2000 [] False True
       (AHandler [APkt (Some 1) 1 (Some 2) [Some 1, Some 2, Some 3, Some 4]]
         []),
      ATcb (Some 2) 3 3000 [] False True
       (AHandler [APkt (Some 1) 1 (Some 3) [Some 5, Some 6, Some 7, Some 8]]
         []),
      ATcb (Some 3) 4 4000
       [APkt (Some 2) 0 (Some 1) [None, None, None, None],
        APkt (Some 2) 0 (Some 2) [None, None, None, None]]
       True False
       (ADevice (Some (APkt (Some 2) 0 (Some 22) [None, None, None, None]))),
      ATcb (Some 4) 5 5000
       [APkt (Some 3) 0 (Some 6) [None, None, None, None],
        APkt (Some 3) 0 (Some 7) [None, None, None, None]]
       True False
       (ADevice (Some (APkt (Some 3) 0 (Some 5) [None, None, None, None])))])"

definition a_mid3 :: aview where
  "a_mid3 =
   (1381, 551, Some 5, Some 3, Some 5,
     [ATcb None 0 0 [] False False (AIdle 54553 401),
      ATcb (Some 0) 1 1000 [] False True (AWorker 2 14),
      ATcb (Some 1) 2 2000 [] False True
       (AHandler
         [APkt (Some 1) 1 (Some 0) [Some 11, Some 12, Some 13, Some 14]] []),
      ATcb (Some 2) 3 3000 [APkt (Some 5) 0 (Some 2) [None, None, None, None]]
       False True
       (AHandler [APkt (Some 1) 1 (Some 2) [Some 7, Some 8, Some 9, Some 10]]
         []),
      ATcb (Some 3) 4 4000
       [APkt (Some 2) 0 (Some 5) [None, None, None, None],
        APkt (Some 2) 0 (Some 6) [None, None, None, None]]
       True False
       (ADevice (Some (APkt (Some 2) 0 (Some 4) [None, None, None, None]))),
      ATcb (Some 4) 5 5000 [APkt (Some 3) 0 (Some 8) [None, None, None, None]]
       True False
       (ADevice (Some (APkt (Some 3) 0 (Some 7) [None, None, None, None])))])"

definition a_mid4 :: aview where
  "a_mid4 =
   (1843, 736, Some 5, Some 3, Some 5,
     [ATcb None 0 0 [] False False (AIdle 64126 198),
      ATcb (Some 0) 1 1000 [] False True (AWorker 2 16),
      ATcb (Some 1) 2 2000 [] False True
       (AHandler
         [APkt (Some 1) 1 (Some 1) [Some 13, Some 14, Some 15, Some 16]] []),
      ATcb (Some 2) 3 3000 [APkt (Some 5) 0 (Some 4) [None, None, None, None]]
       False True
       (AHandler [APkt (Some 1) 1 (Some 2) [Some 9, Some 10, Some 11, Some 12]]
         []),
      ATcb (Some 3) 4 4000
       [APkt (Some 2) 0 (Some 8) [None, None, None, None],
        APkt (Some 2) 0 (Some 13) [None, None, None, None]]
       True False
       (ADevice (Some (APkt (Some 2) 0 (Some 7) [None, None, None, None]))),
      ATcb (Some 4) 5 5000 [APkt (Some 3) 0 (Some 10) [None, None, None, None]]
       True False
       (ADevice (Some (APkt (Some 3) 0 (Some 9) [None, None, None, None])))])"

definition a_mid5 :: aview where
  "a_mid5 =
   (2322, 927, Some 5, Some 0, Some 3,
     [ATcb None 0 0 [] False False (AIdle 50588 1),
      ATcb (Some 0) 1 1000 [] False True (AWorker 2 26),
      ATcb (Some 1) 2 2000 [] False True
       (AHandler
         [APkt (Some 1) 1 (Some 2) [Some 23, Some 24, Some 25, Some 26]] []),
      ATcb (Some 2) 3 3000 [] False True
       (AHandler
         [APkt (Some 1) 1 (Some 1) [Some 19, Some 20, Some 21, Some 22]] []),
      ATcb (Some 3) 4 4000
       [APkt (Some 2) 0 (Some 23) [None, None, None, None],
        APkt (Some 2) 0 (Some 24) [None, None, None, None]]
       True False
       (ADevice (Some (APkt (Some 2) 0 (Some 18) [None, None, None, None]))),
      ATcb (Some 4) 5 5000
       [APkt (Some 3) 0 (Some 14) [None, None, None, None],
        APkt (Some 3) 0 (Some 19) [None, None, None, None]]
       True False
       (ADevice (Some (APkt (Some 3) 0 (Some 13) [None, None, None, None])))])"

definition a_mid6 :: aview where
  "a_mid6 =
   (2322, 928, Some 5, None, Some 0,
     [ATcb None 0 0 [] True False (AIdle 50588 0),
      ATcb (Some 0) 1 1000 [] False True (AWorker 2 26),
      ATcb (Some 1) 2 2000 [] False True
       (AHandler
         [APkt (Some 1) 1 (Some 2) [Some 23, Some 24, Some 25, Some 26]] []),
      ATcb (Some 2) 3 3000 [] False True
       (AHandler
         [APkt (Some 1) 1 (Some 1) [Some 19, Some 20, Some 21, Some 22]] []),
      ATcb (Some 3) 4 4000
       [APkt (Some 2) 0 (Some 23) [None, None, None, None],
        APkt (Some 2) 0 (Some 24) [None, None, None, None]]
       True False
       (ADevice (Some (APkt (Some 2) 0 (Some 18) [None, None, None, None]))),
      ATcb (Some 4) 5 5000
       [APkt (Some 3) 0 (Some 14) [None, None, None, None],
        APkt (Some 3) 0 (Some 19) [None, None, None, None]]
       True False
       (ADevice (Some (APkt (Some 3) 0 (Some 13) [None, None, None, None])))])"

lemma a_mid_1: "a_view (a_steps 2134 (a_tasks 1000)) = a_mid1"
  by code_simp

lemma a_mid_2: "a_view (a_steps 2134 (a_of a_mid1)) = a_mid2"
  by code_simp

lemma a_mid_3: "a_view (a_steps 2134 (a_of a_mid2)) = a_mid3"
  by code_simp

lemma a_mid_4: "a_view (a_steps 2134 (a_of a_mid3)) = a_mid4"
  by code_simp

lemma a_mid_5: "a_view (a_steps 2134 (a_of a_mid4)) = a_mid5"
  by code_simp

lemma a_mid_6: "a_view (a_steps 1 (a_of a_mid5)) = a_mid6"
  by code_simp

lemma a_tasks_run: "a_steps 10670 (a_tasks 1000) = a_of a_mid5" "a_steps 10671 (a_tasks 1000) = a_of a_mid6"
proof -
  have "a_steps 2134 (a_tasks 1000) = a_of a_mid1"
    using a_of_view [of "a_steps 2134 (a_tasks 1000)"] a_mid_1 by (simp add: a_tasks_def)
  moreover note mid = a_mid_2 [THEN a_steps_view] a_mid_3 [THEN a_steps_view] a_mid_4 [THEN a_steps_view]
    a_mid_5 [THEN a_steps_view]
  ultimately have "a_steps (2134 + (2134 + (2134 + (2134 + 2134)))) (a_tasks 1000) = a_of a_mid5"
    unfolding a_steps_add by (simp only:)
  then show run: "a_steps 10670 (a_tasks 1000) = a_of a_mid5" by simp
  have "a_steps (10670 + 1) (a_tasks 1000) = a_of a_mid6"
    unfolding a_steps_add run by (rule a_mid_6 [THEN a_steps_view])
  then show "a_steps 10671 (a_tasks 1000) = a_of a_mid6" by simp
qed

lemma a_loop_run: "a_loop n (a_tasks 1000) = (if n \<le> 10671 then None else Some (a_of a_mid6))"
proof -
  have five: "a_cur (a_of a_mid5) \<noteq> None" and six: "a_cur (a_of a_mid6) = None"
    by (simp_all add: a_mid5_def a_mid6_def)
  have late: "a_steps (n - 1) (a_tasks 1000) = a_of a_mid6" if "10671 < n"
  proof -
    have "a_steps (10671 + (n - 10672)) (a_tasks 1000) = a_of a_mid6"
      unfolding a_steps_add a_tasks_run(2) by (rule a_steps_stop [OF six])
    then show ?thesis using that by simp
  qed
  have early: "a_cur (a_steps (n - 1) (a_tasks 1000)) \<noteq> None" if "n \<le> 10671"
  proof
    assume "a_cur (a_steps (n - 1) (a_tasks 1000)) = None"
    from a_steps_stop [OF this, of "10670 - (n - 1)"]
    have "a_steps ((n - 1) + (10670 - (n - 1))) (a_tasks 1000) = a_steps (n - 1) (a_tasks 1000)" by (simp only: a_steps_add)
    then have "a_cur (a_steps ((n - 1) + (10670 - (n - 1))) (a_tasks 1000)) = None"
      using \<open>a_cur (a_steps (n - 1) (a_tasks 1000)) = None\<close> by simp
    moreover have "(n - 1) + (10670 - (n - 1)) = 10670" using that by simp
    ultimately show False using five a_tasks_run(1) by simp
  qed
  show ?thesis using late early six by (auto simp: a_loop_steps)
qed

lemma schedule_run:
  assumes "n > 10671"
  shows "\<exists>s. schedule n (richards_state 1000) = Inr s \<and> queueCount s = 2322 \<and> holdCount s = 928"
proof -
  have "sim ((richards_state 1000)\<lparr>currentTcb := slist (richards_state 1000)\<rparr>) (a_tasks 1000)"
    using richards_state_srel [of 1000] by (auto simp: sim_def) (auto simp: richards_state_def a_tasks_def)
  from schedule_loop_refines [OF this, of n] assms show ?thesis
    by (auto simp: a_loop_run schedule_def sim_def srel_def a_mid6_def)
qed

section \<open>Properties\<close>

lemma richards_start_sim: "sim (richards_state count) (a_tasks count)"
  using richards_state_srel [of count] by (auto simp: sim_def) (auto simp: richards_state_def a_tasks_def)

text \<open>
  C1: one round of the dispatcher never fails on a well-formed state (no \<open>null\<close> is
  dereferenced, no packet list is cyclic) and does what the specification with lists and
  flags says, whichever task runs and with or without a packet.
\<close>

theorem dispatcher_round_implements:
  assumes "sim s A" and "a_cur A = Some a"
  shows "\<exists>s'. schedule_step a s = Inr s' \<and> sim s' (a_step a A)"
  using assms by (rule schedule_step_refines)

theorem dispatcher_round_implements_witness:
  "\<exists>s'. schedule_step 5 (richards_state 1000) = Inr s' \<and> sim s' (a_step 5 (a_tasks 1000))"
  by (rule dispatcher_round_implements [OF richards_start_sim]) (simp add: a_tasks_def)

text \<open>
  C25: the whole loop of \<open>schedule\<close> agrees with the specification for every amount of fuel: it
  ends in a related state exactly when the specification ends, and never with an error.
\<close>

theorem schedule_loop_implements:
  assumes "sim s A"
  shows "case a_loop n A of Some A' \<Rightarrow> \<exists>s'. schedule_loop n s = Inr s' \<and> sim s' A'
    | None \<Rightarrow> schedule_loop n s = Inl OutOfFuel"
  using assms by (rule schedule_loop_refines)

theorem schedule_loop_implements_witness:
  "schedule_loop 10 (richards_state 1000) = Inl OutOfFuel"
  using schedule_loop_implements [OF richards_start_sim, of 10 1000] by (simp add: a_loop_run)

text \<open>
  C8: in every state that a run of the benchmark reaches, with any idle count, every packet of
  the store is in exactly one place (\<open>srel\<close> says that no two places share one), and the next
  round succeeds.
\<close>

theorem packets_conserved:
  assumes "dispatch count s"
  shows "\<exists>A own. srel s A own [] \<and> (\<Union>i<6. set (addrs (own i))) = {..<8} \<and> length (pkts s) = 8 \<and>
    (\<forall>a. currentTcb s = Some a \<longrightarrow> (\<exists>s'. schedule_step a s = Inr s'))"
proof -
  obtain A where A: "sim s A" "a_inv 8 A" "length (pkts s) = 8" using dispatch_inv [OF assms] by blast
  then obtain own where own: "srel s A own []" and cur: "currentTcb s = a_cur A" by (auto simp: sim_def)
  have "(\<Union>i<6. set (addrs (own i))) = {..<8}" by (rule a_inv_owned [OF own A(2,3)])
  moreover have "\<exists>s'. schedule_step a s = Inr s'" if "currentTcb s = Some a" for a
  proof -
    have "a_cur A = Some a" using cur that by simp
    from schedule_step_refines [OF A(1) this] show ?thesis by blast
  qed
  ultimately show ?thesis using own A(3) by blast
qed

theorem packets_conserved_witness:
  "\<exists>s. richards_tasks 3 = Inr s \<and> (\<exists>A own. srel (s\<lparr>currentTcb := slist s\<rparr>) A own [] \<and>
     (\<Union>i<6. set (addrs (own i))) = {..<8})"
  using packets_conserved [OF dispatch_start [OF richards_tasks_state [of 3]]] richards_tasks_state [of 3] by blast

text \<open>
  \<open>addTo\<close> appends the packet to a worklist of any length, whatever the packet's own link
  was before, writes nothing but links, and its loop ends.
\<close>

theorem addTo_appends:
  assumes "plist h q xs" and "distinct (p # xs)" and "set (p # xs) \<subseteq> {..<length h}"
  shows "\<exists>h'. addTo p q h = Inr (Some (hd (xs @ [p])), h') \<and> plist h' (Some (hd (xs @ [p]))) (xs @ [p]) \<and>
     agree (set (p # xs)) h h' \<and> (\<forall>x. content h' x = content h x)"
  using assms by (rule addTo_correct)

theorem addTo_appends_witness:
  "\<exists>h'. addTo 2 (Some 1) [Packet None 1 0, Packet (Some 0) 1 0, Packet (Some 1) 4 1] = Inr (Some 1, h') \<and>
     plist h' (Some 1) [1, 0, 2]"
  using addTo_appends [of "[Packet None 1 0, Packet (Some 0) 1 0, Packet (Some 1) 4 1]" "Some 1" "[1, 0]" 2]
  by (auto simp: Packet_def)

text \<open>
  C6: the benchmark passes its own check: \<open>runRichards\<close> returns, after 10671 rounds of the
  dispatcher, and does not throw, because the counters are then 2322 and 928.
\<close>

theorem runRichards_passes: "runRichards n = (if n \<le> 10671 then Inl OutOfFuel else Inr ())"
proof -
  have "schedule n (richards_state 1000) = Inl OutOfFuel" if "n \<le> 10671"
    using schedule_loop_refines [OF richards_start_sim, of n 1000] that
    by (simp add: a_loop_run schedule_def) (simp add: richards_state_def)
  then show ?thesis using schedule_run [of n]
    by (auto simp: runRichards_def COUNT_def richards_tasks_state EXPECTED_QUEUE_COUNT_def EXPECTED_HOLD_COUNT_def)
qed

end
