(* ===== verification/Js_Number.thy ===== *)
theory Js_Number
  imports Js_Prelude
begin

text \<open>
  The numbers of the language, the IEEE 754 doubles: finite ones are rationals, the negative
  zero is a value of its own. Arithmetic is exact arithmetic followed by rounding to the
  nearest double, ties to even. On integers up to \<open>2 ^ 53\<close> it is exact.
\<close>

datatype jsnum = NaN | Infinity (inf_neg: bool) | NegZero | Fin (fin_val: rat)

section \<open>Rounding\<close>

definition pow2 :: "int \<Rightarrow> rat" where
  "pow2 e = (if e \<ge> 0 then 2 ^ nat e else 1 / 2 ^ nat (- e))"

fun bit_length :: "nat \<Rightarrow> nat" where
  "bit_length n = (if n = 0 then 0 else Suc (bit_length (n div 2)))"

declare bit_length.simps [simp del]

text \<open>The exponent of a positive number: \<open>pow2 e \<le> x < pow2 (e + 1)\<close>.\<close>

definition exponent :: "rat \<Rightarrow> int" where
  "exponent x =
    (let (p, q) = quotient_of x; e = int (bit_length (nat p)) - int (bit_length (nat q))
     in if x < pow2 e then e - 1 else e)"

definition round_half_even :: "rat \<Rightarrow> int" where
  "round_half_even x =
    (let f = \<lfloor>x\<rfloor>; d = x - of_int f
     in if d < 1 / 2 then f else if d > 1 / 2 then f + 1 else if even f then f else f + 1)"

definition round_double :: "rat \<Rightarrow> jsnum" where
  "round_double x =
    (if x = 0 then Fin 0
     else (let e = max (exponent \<bar>x\<bar> - 52) (- 1074);
               y = of_int (round_half_even (\<bar>x\<bar> / pow2 e)) * pow2 e
           in if y \<ge> pow2 1024 then Infinity (x < 0)
              else if y = 0 then (if x < 0 then NegZero else Fin 0)
              else Fin (sgn x * y)))"

section \<open>Operators\<close>

definition is_neg :: "jsnum \<Rightarrow> bool" where
  "is_neg x = (case x of NaN \<Rightarrow> False | Infinity n \<Rightarrow> n | NegZero \<Rightarrow> True | Fin r \<Rightarrow> r < 0)"

definition num_rat :: "jsnum \<Rightarrow> rat" where
  "num_rat x = (case x of Fin r \<Rightarrow> r | _ \<Rightarrow> 0)"

fun num_neg :: "jsnum \<Rightarrow> jsnum" where
  "num_neg NaN = NaN"
| "num_neg (Infinity n) = Infinity (\<not> n)"
| "num_neg NegZero = Fin 0"
| "num_neg (Fin r) = (if r = 0 then NegZero else Fin (- r))"

fun num_add :: "jsnum \<Rightarrow> jsnum \<Rightarrow> jsnum" where
  "num_add NaN y = NaN"
| "num_add x NaN = NaN"
| "num_add (Infinity m) (Infinity n) = (if m = n then Infinity m else NaN)"
| "num_add (Infinity m) y = Infinity m"
| "num_add x (Infinity n) = Infinity n"
| "num_add NegZero NegZero = NegZero"
| "num_add x y = round_double (num_rat x + num_rat y)"

definition num_sub :: "jsnum \<Rightarrow> jsnum \<Rightarrow> jsnum" where
  "num_sub x y = num_add x (num_neg y)"

text \<open>A product or quotient whose exact value is zero takes the sign of its operands.\<close>

definition signed :: "bool \<Rightarrow> rat \<Rightarrow> jsnum" where
  "signed neg r = (if r = 0 then (if neg then NegZero else Fin 0) else round_double r)"

fun num_mul :: "jsnum \<Rightarrow> jsnum \<Rightarrow> jsnum" where
  "num_mul NaN y = NaN"
| "num_mul x NaN = NaN"
| "num_mul (Infinity m) (Infinity n) = Infinity (m \<noteq> n)"
| "num_mul (Infinity m) y = (if num_rat y = 0 then NaN else Infinity (m \<noteq> is_neg y))"
| "num_mul x (Infinity n) = (if num_rat x = 0 then NaN else Infinity (n \<noteq> is_neg x))"
| "num_mul x y = signed (is_neg x \<noteq> is_neg y) (num_rat x * num_rat y)"

fun num_div :: "jsnum \<Rightarrow> jsnum \<Rightarrow> jsnum" where
  "num_div NaN y = NaN"
| "num_div x NaN = NaN"
| "num_div (Infinity m) (Infinity n) = NaN"
| "num_div (Infinity m) y = Infinity (m \<noteq> is_neg y)"
| "num_div x (Infinity n) = (if is_neg x \<noteq> n then NegZero else Fin 0)"
| "num_div x y =
    (if num_rat y = 0 then (if num_rat x = 0 then NaN else Infinity (is_neg x \<noteq> is_neg y))
     else signed (is_neg x \<noteq> is_neg y) (num_rat x / num_rat y))"

text \<open>The operator \<open>==\<close> and the order on numbers.\<close>

fun num_eq :: "jsnum \<Rightarrow> jsnum \<Rightarrow> bool" where
  "num_eq NaN y = False"
| "num_eq x NaN = False"
| "num_eq (Infinity m) y = (y = Infinity m)"
| "num_eq x (Infinity n) = False"
| "num_eq x y = (num_rat x = num_rat y)"

fun num_less :: "jsnum \<Rightarrow> jsnum \<Rightarrow> bool" where
  "num_less NaN y = False"
| "num_less x NaN = False"
| "num_less (Infinity m) y = (m \<and> y \<noteq> Infinity True)"
| "num_less x (Infinity n) = (\<not> n)"
| "num_less x y = (num_rat x < num_rat y)"

definition num_floor :: "jsnum \<Rightarrow> jsnum" where
  "num_floor x = (case x of Fin r \<Rightarrow> Fin (of_int \<lfloor>r\<rfloor>) | _ \<Rightarrow> x)"

definition num_of :: "int \<Rightarrow> jsnum" where
  "num_of i = Fin (of_int i)"

section \<open>Exact arithmetic on integers\<close>

lemma round_half_even_int [simp]: "round_half_even (of_int i) = i"
  by (simp add: round_half_even_def)

lemma pow2_pos [simp]: "pow2 e > 0"
  by (simp add: pow2_def)

lemma pow2_Suc: "pow2 (e + 1) = 2 * pow2 e"
proof -
  consider "e \<ge> 0" | "e = -1" | "e < -1" by linarith
  then show ?thesis
  proof cases
    case 1
    then have "nat (e + 1) = Suc (nat e)" by simp
    then show ?thesis using 1 by (simp add: pow2_def)
  next
    case 3
    then have "nat (- e) = Suc (nat (- (e + 1)))" by simp
    then show ?thesis using 3 by (simp add: pow2_def)
  qed (simp add: pow2_def)
qed

lemma pow2_mono: "e \<le> f \<Longrightarrow> pow2 e \<le> pow2 f"
proof (induction "nat (f - e)" arbitrary: f)
  case (Suc n)
  then have "pow2 e \<le> pow2 (f - 1)" by (intro Suc.hyps) auto
  moreover have "pow2 f = 2 * pow2 (f - 1)" using pow2_Suc [of "f - 1"] by simp
  ultimately show ?case using pow2_pos [of "f - 1"] by linarith
qed simp

lemma pow2_diff: "pow2 (int m - int n) = 2 ^ m / 2 ^ n"
  by (cases "n \<le> m") (auto simp: pow2_def nat_diff_distrib power_diff field_simps simp flip: power_add)

lemma bit_length_bounds: "n > 0 \<Longrightarrow> 2 ^ (bit_length n - 1) \<le> n \<and> n < 2 ^ bit_length n \<and> bit_length n > 0"
proof (induction n rule: bit_length.induct)
  case (1 n)
  show ?case
  proof (cases "n div 2 = 0")
    case True
    then have "n = 1" using 1(2) by auto
    then show ?thesis by (simp add: bit_length.simps)
  next
    case False
    note IH = "1.IH" [OF _ False [unfolded neq0_conv]]
    then have "2 ^ (bit_length (n div 2) - 1) \<le> n div 2" "n div 2 < 2 ^ bit_length (n div 2)" "bit_length (n div 2) > 0"
      using 1(2) False by auto
    moreover have "(2 :: nat) ^ bit_length (n div 2) = 2 * 2 ^ (bit_length (n div 2) - 1)"
      using calculation(3) by (cases "bit_length (n div 2)") auto
    moreover have "bit_length n = Suc (bit_length (n div 2))" using 1(2) by (subst bit_length.simps) simp
    ultimately show ?thesis by simp linarith
  qed
qed

lemma nat_power_rat:
  assumes "0 < p"
  shows "2 ^ a \<le> nat p \<Longrightarrow> (2 :: rat) ^ a \<le> of_int p" "nat p < 2 ^ a \<Longrightarrow> of_int p < (2 :: rat) ^ a"
proof -
  assume "2 ^ a \<le> nat p"
  then have "int (2 ^ a) \<le> int (nat p)" by (simp only: of_nat_le_iff)
  then have "(2 :: int) ^ a \<le> p" using assms by simp
  then have "(of_int (2 ^ a) :: rat) \<le> of_int p" by (simp only: of_int_le_iff)
  then show "(2 :: rat) ^ a \<le> of_int p" by simp
next
  assume "nat p < 2 ^ a"
  then have "int (nat p) < int (2 ^ a)" by (simp only: of_nat_less_iff)
  then have "p < (2 :: int) ^ a" using assms by simp
  then have "(of_int p :: rat) < of_int (2 ^ a)" by (simp only: of_int_less_iff)
  then show "of_int p < (2 :: rat) ^ a" by simp
qed

lemma exponent_bounds:
  assumes "x > 0"
  shows "pow2 (exponent x) \<le> x" "x < pow2 (exponent x + 1)"
proof -
  obtain p q where pq: "quotient_of x = (p, q)" by fastforce
  have q: "q > 0" and x: "x = of_int p / of_int q" using pq quotient_of_denom_pos quotient_of_div by blast+
  then have p: "p > 0" using assms by (simp add: zero_less_divide_iff)
  let ?m = "bit_length (nat p)" and ?n = "bit_length (nat q)"
  let ?e = "int ?m - int ?n"
  have bp: "2 ^ (?m - 1) \<le> nat p" "nat p < 2 ^ ?m" "?m > 0" using bit_length_bounds [of "nat p"] p by auto
  have bq: "2 ^ (?n - 1) \<le> nat q" "nat q < 2 ^ ?n" "?n > 0" using bit_length_bounds [of "nat q"] q by auto
  have P: "2 ^ (?m - 1) \<le> (of_int p :: rat)" "(of_int p :: rat) < 2 ^ ?m"
    using nat_power_rat [OF p] bp by blast+
  have Q: "2 ^ (?n - 1) \<le> (of_int q :: rat)" "(of_int q :: rat) < 2 ^ ?n"
    using nat_power_rat [OF q] bq by blast+
  have "x < 2 ^ ?m / 2 ^ (?n - 1)" unfolding x
    using P Q q p by (intro frac_less) auto
  also have "\<dots> = pow2 (?e + 1)"
    using pow2_diff [of ?m "?n - 1"] bq(3) by (simp add: algebra_simps of_nat_diff)
  finally have up: "x < pow2 (?e + 1)" .
  have "pow2 (?e - 1) = 2 ^ (?m - 1) / 2 ^ ?n"
    using pow2_diff [of "?m - 1" ?n] bp(3) by (simp add: algebra_simps of_nat_diff)
  also have "\<dots> < x" unfolding x using P Q q p by (intro frac_less2) auto
  finally have low: "pow2 (?e - 1) < x" .
  show "pow2 (exponent x) \<le> x" "x < pow2 (exponent x + 1)"
    using up low by (auto simp: exponent_def pq Let_def)
qed

lemma round_double_int:
  assumes "\<bar>i\<bar> \<le> 2 ^ 53"
  shows "round_double (of_int i) = Fin (of_int i)"
proof (cases "i = 0")
  case False
  let ?x = "\<bar>of_int i\<bar> :: rat"
  have x: "?x = of_int \<bar>i\<bar>" "1 \<le> ?x" "?x \<le> 2 ^ 53"
  proof -
    show "?x = of_int \<bar>i\<bar>" by simp
    have "(1 :: int) \<le> \<bar>i\<bar>" using False by linarith
    then show "1 \<le> ?x" by (metis of_int_1_le_iff of_int_abs)
    show "?x \<le> 2 ^ 53" using assms by (metis of_int_abs of_int_le_iff of_int_numeral of_int_power)
  qed
  have pos: "0 < ?x" using x(2) by linarith
  note ex = exponent_bounds [OF pos]
  have p2: "pow2 0 = 1" "pow2 53 = 2 ^ 53" "pow2 54 = 2 * 2 ^ 53" by (simp_all add: pow2_def)
  have "exponent ?x \<ge> 0"
  proof (rule ccontr)
    assume "\<not> exponent ?x \<ge> 0"
    then have "pow2 (exponent ?x + 1) \<le> pow2 0" by (intro pow2_mono) simp
    then show False using ex(2) x(2) p2(1) by linarith
  qed
  then have e: "max (exponent ?x - 52) (- 1074) = exponent ?x - 52" by simp
  have "\<exists>k. ?x / pow2 (exponent ?x - 52) = of_int k"
  proof (cases "exponent ?x - 52 \<le> 0")
    case True
    then have "?x / pow2 (exponent ?x - 52) = of_int (\<bar>i\<bar> * 2 ^ nat (52 - exponent ?x))"
      by (auto simp: pow2_def)
    then show ?thesis by blast
  next
    case big: False
    then have "pow2 53 \<le> pow2 (exponent ?x)" by (intro pow2_mono) simp
    then have "?x = 2 ^ 53" using ex(1) x(3) p2(2) by linarith
    then have "\<bar>i\<bar> = 2 ^ 53" by (metis of_int_abs of_int_eq_iff of_int_numeral of_int_power)
    moreover have "exponent ?x = 53"
    proof (rule ccontr)
      assume "exponent ?x \<noteq> 53"
      then have "pow2 54 \<le> pow2 (exponent ?x)" using big by (intro pow2_mono) simp
      then show False using ex(1) x(2,3) p2(3) by linarith
    qed
    ultimately show ?thesis by (intro exI [of _ "2 ^ 52"]) (simp add: pow2_def x(1) del: of_int_abs)
  qed
  then obtain k where k: "?x / pow2 (exponent ?x - 52) = of_int k" by blast
  then have y: "of_int (round_half_even (?x / pow2 (exponent ?x - 52))) * pow2 (exponent ?x - 52) = ?x"
    unfolding k round_half_even_int using k pow2_pos [of "exponent ?x - 52"]
    by (metis nonzero_divide_eq_eq less_irrefl)
  have "?x < pow2 1024" using x(3) by (simp add: pow2_def)
  then show ?thesis using False x(2) y e by (auto simp: round_double_def Let_def sgn_if abs_if split: if_splits)
qed (simp add: round_double_def)

definition exact :: "int \<Rightarrow> bool" where
  "exact i \<longleftrightarrow> \<bar>i\<bar> \<le> 2 ^ 53"

lemma num_add_int: "exact (i + j) \<Longrightarrow> num_add (num_of i) (num_of j) = num_of (i + j)"
  using round_double_int [of "i + j"] by (simp add: num_of_def num_rat_def exact_def)

lemma num_sub_int: "exact (i - j) \<Longrightarrow> num_sub (num_of i) (num_of j) = num_of (i - j)"
  using round_double_int [of "i - j"] by (auto simp: num_sub_def num_of_def num_rat_def exact_def)

lemma num_mul_int: "exact (i * j) \<Longrightarrow> i * j \<noteq> 0 \<or> i \<ge> 0 \<and> j \<ge> 0 \<Longrightarrow> num_mul (num_of i) (num_of j) = num_of (i * j)"
  using round_double_int [of "i * j"] by (auto simp: num_of_def num_rat_def exact_def signed_def is_neg_def)

lemma num_div_int:
  "exact i \<Longrightarrow> j \<noteq> 0 \<Longrightarrow> i * j \<noteq> 0 \<or> 0 < j \<Longrightarrow> num_div (num_of (i * j)) (num_of j) = num_of i"
  using round_double_int [of i] by (auto simp: num_of_def num_rat_def exact_def signed_def is_neg_def)

lemma num_eq_int: "num_eq (num_of i) (num_of j) \<longleftrightarrow> i = j"
  by (simp add: num_of_def num_rat_def)

end
