(* ===== verification/DeltaBlue.thy ===== *)
theory DeltaBlue
  imports Js_Number
begin

text \<open>
  The DeltaBlue benchmark \<open>v8/deltablue.js\<close>, an incremental solver for hierarchies of
  constraints. Variables and constraints are objects in two stores, the lists \<open>vars\<close> and
  \<open>cons\<close> in the order of their allocation, and refer to each other by index; a constraint is
  one of the four concrete classes. \<open>alert\<close> is a function of the host: what a call of it with
  a message does is a parameter. The planner's loops and its recursion take fuel.
\<close>

section \<open>Ordered collections\<close>

type_synonym 'a coll = "'a list"

definition coll_add :: "'a \<Rightarrow> 'a coll \<Rightarrow> 'a coll" where
  "coll_add elm c = c @ [elm]"

text \<open>\<open>removeFirst\<close> pops the last element; the result for an empty collection is not used.\<close>

definition removeFirst :: "'a coll \<Rightarrow> ('a \<times> 'a coll) res" where
  "removeFirst c = (if c = [] then throw TypeError else ok (last c, butlast c))"

text \<open>The loop of \<open>remove\<close> at position \<open>i\<close>, with the position \<open>index\<close> written next.\<close>

fun remove_loop :: "nat \<Rightarrow> 'a \<Rightarrow> nat \<Rightarrow> nat \<Rightarrow> nat \<Rightarrow> 'a coll \<Rightarrow> nat \<times> 'a coll" where
  "remove_loop 0 elm i index skipped c = (skipped, c)"
| "remove_loop (Suc n) elm i index skipped c =
    (if c ! i \<noteq> elm then remove_loop n elm (Suc i) (Suc index) skipped (c[index := c ! i])
     else remove_loop n elm (Suc i) index (Suc skipped) c)"

definition coll_remove :: "'a \<Rightarrow> 'a coll \<Rightarrow> 'a coll" where
  "coll_remove elm c =
    (let (skipped, c) = remove_loop (length c) elm 0 0 0 c in (butlast ^^ skipped) c)"

section \<open>Strengths\<close>

datatype strength = Strength (strengthValue: int) (strength_name: string)

definition stronger :: "strength \<Rightarrow> strength \<Rightarrow> bool" where
  "stronger s1 s2 \<longleftrightarrow> strengthValue s1 < strengthValue s2"

definition weaker :: "strength \<Rightarrow> strength \<Rightarrow> bool" where
  "weaker s1 s2 \<longleftrightarrow> strengthValue s1 > strengthValue s2"

definition weakestOf :: "strength \<Rightarrow> strength \<Rightarrow> strength" where
  "weakestOf s1 s2 = (if weaker s1 s2 then s1 else s2)"

definition strongest :: "strength \<Rightarrow> strength \<Rightarrow> strength" where
  "strongest s1 s2 = (if stronger s1 s2 then s1 else s2)"

definition REQUIRED :: strength where "REQUIRED = Strength 0 ''required''"
definition STONG_PREFERRED :: strength where "STONG_PREFERRED = Strength 1 ''strongPreferred''"
definition PREFERRED :: strength where "PREFERRED = Strength 2 ''preferred''"
definition STRONG_DEFAULT :: strength where "STRONG_DEFAULT = Strength 3 ''strongDefault''"
definition NORMAL :: strength where "NORMAL = Strength 4 ''normal''"
definition WEAK_DEFAULT :: strength where "WEAK_DEFAULT = Strength 5 ''weakDefault''"
definition WEAKEST :: strength where "WEAKEST = Strength 6 ''weakest''"

text \<open>The \<open>switch\<close> falls through to \<open>undefined\<close> for other values, here \<open>None\<close>.\<close>

definition nextWeaker :: "strength \<Rightarrow> strength option" where
  "nextWeaker s =
    (if strengthValue s = 0 then Some WEAKEST
     else if strengthValue s = 1 then Some WEAK_DEFAULT
     else if strengthValue s = 2 then Some NORMAL
     else if strengthValue s = 3 then Some STRONG_DEFAULT
     else if strengthValue s = 4 then Some PREFERRED
     else if strengthValue s = 5 then Some REQUIRED
     else None)"

section \<open>Variables and constraints\<close>

type_synonym vaddr = nat
type_synonym caddr = nat

record variable =
  v_value :: jsnum
  v_constraints :: "caddr coll"
  v_determinedBy :: "caddr option"
  v_mark :: int
  v_walkStrength :: strength
  v_stay :: bool
  v_name :: string

text \<open>\<open>initialValue || 0\<close>, where an argument that is left out is \<open>None\<close>.\<close>

definition or_zero :: "jsnum option \<Rightarrow> jsnum" where
  "or_zero x =
    (case x of None \<Rightarrow> num_of 0
     | Some y \<Rightarrow> if y = NaN \<or> y = NegZero \<or> y = Fin 0 then num_of 0 else y)"

definition Variable :: "string \<Rightarrow> jsnum option \<Rightarrow> variable" where
  "Variable name initialValue =
    \<lparr>v_value = or_zero initialValue, v_constraints = [], v_determinedBy = None, v_mark = 0,
     v_walkStrength = WEAKEST, v_stay = True, v_name = name\<rparr>"

definition NONE :: int where "NONE = 0"
definition FORWARD :: int where "FORWARD = 1"
definition BACKWARD :: int where "BACKWARD = - 1"

datatype constr =
    StayConstraint (c_strength: strength) (c_myOutput: vaddr) (c_satisfied: bool)
  | EditConstraint (c_strength: strength) (c_myOutput: vaddr) (c_satisfied: bool)
  | ScaleConstraint (c_strength: strength) (c_v1: vaddr) (c_v2: vaddr) (c_direction: int)
      (c_scale: vaddr) (c_offset: vaddr)
  | EqualityConstraint (c_strength: strength) (c_v1: vaddr) (c_v2: vaddr) (c_direction: int)

record world =
  vars :: "variable list"
  cons :: "constr list"
  currentMark :: int

definition upd_var :: "vaddr \<Rightarrow> (variable \<Rightarrow> variable) \<Rightarrow> world \<Rightarrow> world" where
  "upd_var v f s = s\<lparr>vars := (vars s)[v := f (vars s ! v)]\<rparr>"

definition upd_con :: "caddr \<Rightarrow> (constr \<Rightarrow> constr) \<Rightarrow> world \<Rightarrow> world" where
  "upd_con c f s = s\<lparr>cons := (cons s)[c := f (cons s ! c)]\<rparr>"

definition new_variable :: "string \<Rightarrow> jsnum option \<Rightarrow> world \<Rightarrow> vaddr \<times> world" where
  "new_variable name x s = (length (vars s), s\<lparr>vars := vars s @ [Variable name x]\<rparr>)"

definition var_addConstraint :: "vaddr \<Rightarrow> caddr \<Rightarrow> world \<Rightarrow> world" where
  "var_addConstraint v c = upd_var v (\<lambda>x. x\<lparr>v_constraints := coll_add c (v_constraints x)\<rparr>)"

definition var_removeConstraint :: "vaddr \<Rightarrow> caddr \<Rightarrow> world \<Rightarrow> world" where
  "var_removeConstraint v c s =
    (let s = upd_var v (\<lambda>x. x\<lparr>v_constraints := coll_remove c (v_constraints x)\<rparr>) s
     in upd_var v (\<lambda>x. if v_determinedBy x = Some c then x\<lparr>v_determinedBy := None\<rparr> else x) s)"

section \<open>The methods of the constraints\<close>

fun isInput :: "constr \<Rightarrow> bool" where
  "isInput (EditConstraint st v sat) = True"
| "isInput (StayConstraint st v sat) = False"
| "isInput (ScaleConstraint st v1 v2 d sc off) = False"
| "isInput (EqualityConstraint st v1 v2 d) = False"

definition unary_isSatisfied :: "bool \<Rightarrow> bool" where [simp]:
  "unary_isSatisfied sat = sat"

definition binary_isSatisfied :: "int \<Rightarrow> bool" where [simp]:
  "binary_isSatisfied d \<longleftrightarrow> d \<noteq> NONE"

fun isSatisfied :: "constr \<Rightarrow> bool" where
  "isSatisfied (StayConstraint st v sat) = unary_isSatisfied sat"
| "isSatisfied (EditConstraint st v sat) = unary_isSatisfied sat"
| "isSatisfied (ScaleConstraint st v1 v2 d sc off) = binary_isSatisfied d"
| "isSatisfied (EqualityConstraint st v1 v2 d) = binary_isSatisfied d"

definition unary_output :: "vaddr \<Rightarrow> vaddr" where [simp]:
  "unary_output v = v"

definition binary_output :: "vaddr \<Rightarrow> vaddr \<Rightarrow> int \<Rightarrow> vaddr" where [simp]:
  "binary_output v1 v2 d = (if d = FORWARD then v2 else v1)"

fun c_output :: "constr \<Rightarrow> vaddr" where
  "c_output (StayConstraint st v sat) = unary_output v"
| "c_output (EditConstraint st v sat) = unary_output v"
| "c_output (ScaleConstraint st v1 v2 d sc off) = binary_output v1 v2 d"
| "c_output (EqualityConstraint st v1 v2 d) = binary_output v1 v2 d"

text \<open>\<open>c_input\<close> is a method of the binary constraints only.\<close>

fun c_input :: "constr \<Rightarrow> vaddr" where
  "c_input (ScaleConstraint st v1 v2 d sc off) = (if d = FORWARD then v1 else v2)"
| "c_input (EqualityConstraint st v1 v2 d) = (if d = FORWARD then v1 else v2)"
| "c_input (StayConstraint st v sat) = v"
| "c_input (EditConstraint st v sat) = v"

fun set_satisfied :: "bool \<Rightarrow> constr \<Rightarrow> constr" where
  "set_satisfied b (StayConstraint st v sat) = StayConstraint st v b"
| "set_satisfied b (EditConstraint st v sat) = EditConstraint st v b"
| "set_satisfied b c = c"

fun set_direction :: "int \<Rightarrow> constr \<Rightarrow> constr" where
  "set_direction d' (ScaleConstraint st v1 v2 d sc off) = ScaleConstraint st v1 v2 d' sc off"
| "set_direction d' (EqualityConstraint st v1 v2 d) = EqualityConstraint st v1 v2 d'"
| "set_direction d' c = c"

fun is_unary :: "constr \<Rightarrow> bool" where
  "is_unary (StayConstraint st v sat) = True"
| "is_unary (EditConstraint st v sat) = True"
| "is_unary c = False"

text \<open>The methods of each class, and the dispatch on the class of the object.\<close>

definition unary_markUnsatisfied :: "constr \<Rightarrow> constr" where [simp]:
  "unary_markUnsatisfied x = set_satisfied False x"

definition binary_markUnsatisfied :: "constr \<Rightarrow> constr" where [simp]:
  "binary_markUnsatisfied x = set_direction NONE x"

definition markUnsatisfied :: "caddr \<Rightarrow> world \<Rightarrow> world" where
  "markUnsatisfied c = upd_con c (\<lambda>x. if is_unary x then unary_markUnsatisfied x else binary_markUnsatisfied x)"

definition unary_addToGraph :: "caddr \<Rightarrow> vaddr \<Rightarrow> world \<Rightarrow> world" where [simp]:
  "unary_addToGraph c v s = upd_con c (set_satisfied False) (var_addConstraint v c s)"

definition binary_addToGraph :: "caddr \<Rightarrow> vaddr \<Rightarrow> vaddr \<Rightarrow> world \<Rightarrow> world" where
  "binary_addToGraph c v1 v2 s =
    (let s = var_addConstraint v1 c s; s = var_addConstraint v2 c s in upd_con c (set_direction NONE) s)"

definition scale_addToGraph :: "caddr \<Rightarrow> vaddr \<Rightarrow> vaddr \<Rightarrow> vaddr \<Rightarrow> vaddr \<Rightarrow> world \<Rightarrow> world" where [simp]:
  "scale_addToGraph c v1 v2 sc off s =
    (let s = binary_addToGraph c v1 v2 s; s = var_addConstraint sc c s in var_addConstraint off c s)"

definition addToGraph :: "caddr \<Rightarrow> world \<Rightarrow> world" where
  "addToGraph c s =
    (case cons s ! c of
       StayConstraint st v sat \<Rightarrow> unary_addToGraph c v s
     | EditConstraint st v sat \<Rightarrow> unary_addToGraph c v s
     | EqualityConstraint st v1 v2 d \<Rightarrow> binary_addToGraph c v1 v2 s
     | ScaleConstraint st v1 v2 d sc off \<Rightarrow> scale_addToGraph c v1 v2 sc off s)"

definition unary_removeFromGraph :: "caddr \<Rightarrow> vaddr \<Rightarrow> world \<Rightarrow> world" where [simp]:
  "unary_removeFromGraph c v s = upd_con c (set_satisfied False) (var_removeConstraint v c s)"

definition binary_removeFromGraph :: "caddr \<Rightarrow> vaddr \<Rightarrow> vaddr \<Rightarrow> world \<Rightarrow> world" where
  "binary_removeFromGraph c v1 v2 s =
    (let s = var_removeConstraint v1 c s; s = var_removeConstraint v2 c s in upd_con c (set_direction NONE) s)"

definition scale_removeFromGraph :: "caddr \<Rightarrow> vaddr \<Rightarrow> vaddr \<Rightarrow> vaddr \<Rightarrow> vaddr \<Rightarrow> world \<Rightarrow> world" where [simp]:
  "scale_removeFromGraph c v1 v2 sc off s =
    (let s = binary_removeFromGraph c v1 v2 s; s = var_removeConstraint sc c s in var_removeConstraint off c s)"

definition removeFromGraph :: "caddr \<Rightarrow> world \<Rightarrow> world" where
  "removeFromGraph c s =
    (case cons s ! c of
       StayConstraint st v sat \<Rightarrow> unary_removeFromGraph c v s
     | EditConstraint st v sat \<Rightarrow> unary_removeFromGraph c v s
     | EqualityConstraint st v1 v2 d \<Rightarrow> binary_removeFromGraph c v1 v2 s
     | ScaleConstraint st v1 v2 d sc off \<Rightarrow> scale_removeFromGraph c v1 v2 sc off s)"

text \<open>\<open>chooseMethod\<close>: the new value of \<open>satisfied\<close> and of \<open>direction\<close>.\<close>

definition unary_choose :: "variable \<Rightarrow> strength \<Rightarrow> int \<Rightarrow> bool" where
  "unary_choose out st mark \<longleftrightarrow> v_mark out \<noteq> mark \<and> stronger st (v_walkStrength out)"

definition binary_choose :: "variable \<Rightarrow> variable \<Rightarrow> strength \<Rightarrow> int \<Rightarrow> int \<Rightarrow> int" where
  "binary_choose x1 x2 st mark d =
    (let d = (if v_mark x1 = mark then
                (if v_mark x2 \<noteq> mark \<and> stronger st (v_walkStrength x2) then FORWARD else NONE) else d);
         d = (if v_mark x2 = mark then
                (if v_mark x1 \<noteq> mark \<and> stronger st (v_walkStrength x1) then BACKWARD else NONE) else d)
     in if weaker (v_walkStrength x1) (v_walkStrength x2) then
          (if stronger st (v_walkStrength x1) then BACKWARD else NONE)
        else (if stronger st (v_walkStrength x2) then FORWARD else BACKWARD))"

definition chooseMethod :: "caddr \<Rightarrow> int \<Rightarrow> world \<Rightarrow> world" where
  "chooseMethod c mark s =
    (case cons s ! c of
       StayConstraint st v sat \<Rightarrow> upd_con c (set_satisfied (unary_choose (vars s ! v) st mark)) s
     | EditConstraint st v sat \<Rightarrow> upd_con c (set_satisfied (unary_choose (vars s ! v) st mark)) s
     | EqualityConstraint st v1 v2 d \<Rightarrow>
         upd_con c (set_direction (binary_choose (vars s ! v1) (vars s ! v2) st mark d)) s
     | ScaleConstraint st v1 v2 d sc off \<Rightarrow>
         upd_con c (set_direction (binary_choose (vars s ! v1) (vars s ! v2) st mark d)) s)"

definition set_mark :: "vaddr \<Rightarrow> int \<Rightarrow> world \<Rightarrow> world" where
  "set_mark v mark = upd_var v (\<lambda>x. x\<lparr>v_mark := mark\<rparr>)"

definition unary_markInputs :: "int \<Rightarrow> world \<Rightarrow> world" where [simp]:
  "unary_markInputs mark s = s"

definition binary_markInputs :: "caddr \<Rightarrow> int \<Rightarrow> world \<Rightarrow> world" where [simp]:
  "binary_markInputs c mark s = set_mark (c_input (cons s ! c)) mark s"

definition scale_markInputs :: "caddr \<Rightarrow> vaddr \<Rightarrow> vaddr \<Rightarrow> int \<Rightarrow> world \<Rightarrow> world" where [simp]:
  "scale_markInputs c sc off mark s =
    (let s = binary_markInputs c mark s; s = set_mark off mark s in set_mark sc mark s)"

definition markInputs :: "caddr \<Rightarrow> int \<Rightarrow> world \<Rightarrow> world" where
  "markInputs c mark s =
    (case cons s ! c of
       StayConstraint st v sat \<Rightarrow> unary_markInputs mark s
     | EditConstraint st v sat \<Rightarrow> unary_markInputs mark s
     | EqualityConstraint st v1 v2 d \<Rightarrow> binary_markInputs c mark s
     | ScaleConstraint st v1 v2 d sc off \<Rightarrow> scale_markInputs c sc off mark s)"

definition unary_inputsKnown :: "int \<Rightarrow> bool" where [simp]:
  "unary_inputsKnown mark = True"

definition binary_inputsKnown :: "variable \<Rightarrow> int \<Rightarrow> bool" where [simp]:
  "binary_inputsKnown i mark \<longleftrightarrow> v_mark i = mark \<or> v_stay i \<or> v_determinedBy i = None"

definition inputsKnown :: "caddr \<Rightarrow> int \<Rightarrow> world \<Rightarrow> bool" where
  "inputsKnown c mark s \<longleftrightarrow>
    (if is_unary (cons s ! c) then unary_inputsKnown mark
     else binary_inputsKnown (vars s ! c_input (cons s ! c)) mark)"

definition set_value :: "vaddr \<Rightarrow> jsnum \<Rightarrow> world \<Rightarrow> world" where
  "set_value v x = upd_var v (\<lambda>y. y\<lparr>v_value := x\<rparr>)"

text \<open>The four \<open>execute\<close> methods.\<close>

definition stay_execute :: "world \<Rightarrow> world" where [simp]:
  "stay_execute s = s"

definition edit_execute :: "world \<Rightarrow> world" where [simp]:
  "edit_execute s = s"

definition scale_execute :: "vaddr \<Rightarrow> vaddr \<Rightarrow> int \<Rightarrow> vaddr \<Rightarrow> vaddr \<Rightarrow> world \<Rightarrow> world" where [simp]:
  "scale_execute v1 v2 d sc off s =
    (let val = (\<lambda>v. v_value (vars s ! v))
     in if d = FORWARD then set_value v2 (num_add (num_mul (val v1) (val sc)) (val off)) s
        else set_value v1 (num_div (num_sub (val v2) (val off)) (val sc)) s)"

definition equality_execute :: "constr \<Rightarrow> world \<Rightarrow> world" where [simp]:
  "equality_execute x s = set_value (c_output x) (v_value (vars s ! c_input x)) s"

definition execute :: "caddr \<Rightarrow> world \<Rightarrow> world" where
  "execute c s =
    (case cons s ! c of
       StayConstraint st v sat \<Rightarrow> stay_execute s
     | EditConstraint st v sat \<Rightarrow> edit_execute s
     | EqualityConstraint st v1 v2 d \<Rightarrow> equality_execute (cons s ! c) s
     | ScaleConstraint st v1 v2 d sc off \<Rightarrow> scale_execute v1 v2 d sc off s)"

definition set_walk :: "vaddr \<Rightarrow> strength \<Rightarrow> world \<Rightarrow> world" where [simp]:
  "set_walk v st = upd_var v (\<lambda>x. x\<lparr>v_walkStrength := st\<rparr>)"

definition set_stay :: "vaddr \<Rightarrow> bool \<Rightarrow> world \<Rightarrow> world" where [simp]:
  "set_stay v b = upd_var v (\<lambda>x. x\<lparr>v_stay := b\<rparr>)"

definition unary_recalculate :: "caddr \<Rightarrow> world \<Rightarrow> world" where [simp]:
  "unary_recalculate c s =
    (let x = cons s ! c; out = c_myOutput x;
         s = set_walk out (c_strength x) s; s = set_stay out (\<not> isInput x) s
     in if \<not> isInput x then execute c s else s)"

definition binary_recalculate :: "caddr \<Rightarrow> world \<Rightarrow> world" where [simp]:
  "binary_recalculate c s =
    (let x = cons s ! c; ihn = c_input x; out = c_output x;
         s = set_walk out (weakestOf (c_strength x) (v_walkStrength (vars s ! ihn))) s;
         st = v_stay (vars s ! ihn); s = set_stay out st s
     in if st then execute c s else s)"

definition scale_recalculate :: "caddr \<Rightarrow> world \<Rightarrow> world" where [simp]:
  "scale_recalculate c s =
    (let x = cons s ! c; ihn = c_input x; out = c_output x;
         s = set_walk out (weakestOf (c_strength x) (v_walkStrength (vars s ! ihn))) s;
         st = (v_stay (vars s ! ihn) \<and> v_stay (vars s ! c_scale x) \<and> v_stay (vars s ! c_offset x));
         s = set_stay out st s
     in if st then execute c s else s)"

definition recalculate :: "caddr \<Rightarrow> world \<Rightarrow> world" where
  "recalculate c s =
    (case cons s ! c of
       StayConstraint st v sat \<Rightarrow> unary_recalculate c s
     | EditConstraint st v sat \<Rightarrow> unary_recalculate c s
     | EqualityConstraint st v1 v2 d \<Rightarrow> binary_recalculate c s
     | ScaleConstraint st v1 v2 d sc off \<Rightarrow> scale_recalculate c s)"

section \<open>The planner\<close>

text \<open>\<open>Planner()\<close> starts a fresh mark; the benchmarks also start with no objects.\<close>

definition Planner :: world where
  "Planner = \<lparr>vars = [], cons = [], currentMark = 0\<rparr>"

definition newMark :: "world \<Rightarrow> int \<times> world" where
  "newMark s = (currentMark s + 1, s\<lparr>currentMark := currentMark s + 1\<rparr>)"

definition addConstraintsConsumingTo :: "vaddr \<Rightarrow> caddr coll \<Rightarrow> world \<Rightarrow> caddr coll" where
  "addConstraintsConsumingTo v coll s =
    (let x = vars s ! v
     in foldl (\<lambda>coll c. if v_determinedBy x \<noteq> Some c \<and> isSatisfied (cons s ! c) then coll_add c coll else coll)
          coll (v_constraints x))"

text \<open>The two inner loops of \<open>removePropagateFrom\<close> and the outer one.\<close>

definition collect_unsatisfied :: "caddr coll \<Rightarrow> caddr coll \<Rightarrow> world \<Rightarrow> caddr coll" where
  "collect_unsatisfied cs unsatisfied s =
    foldl (\<lambda>u c. if \<not> isSatisfied (cons s ! c) then coll_add c u else u) unsatisfied cs"

fun recalculate_consumers :: "caddr option \<Rightarrow> caddr list \<Rightarrow> vaddr coll \<Rightarrow> world \<Rightarrow> vaddr coll \<times> world" where
  "recalculate_consumers determining [] todo s = (todo, s)"
| "recalculate_consumers determining (nxt # cs) todo s =
    (if determining \<noteq> Some nxt \<and> isSatisfied (cons s ! nxt) then
       (let s = recalculate nxt s
        in recalculate_consumers determining cs (coll_add (c_output (cons s ! nxt)) todo) s)
     else recalculate_consumers determining cs todo s)"

fun remove_propagate_loop :: "nat \<Rightarrow> vaddr coll \<Rightarrow> caddr coll \<Rightarrow> world \<Rightarrow> (caddr coll \<times> world) res" where
  "remove_propagate_loop 0 todo unsatisfied s = throw OutOfFuel"
| "remove_propagate_loop (Suc n) todo unsatisfied s =
    (if todo = [] then ok (unsatisfied, s)
     else rbind (removeFirst todo) (\<lambda>(v, todo).
       let x = vars s ! v; unsatisfied = collect_unsatisfied (v_constraints x) unsatisfied s;
           (todo, s) = recalculate_consumers (v_determinedBy x) (v_constraints x) todo s
       in remove_propagate_loop n todo unsatisfied s))"

definition removePropagateFrom :: "nat \<Rightarrow> vaddr \<Rightarrow> world \<Rightarrow> (caddr coll \<times> world) res" where
  "removePropagateFrom n out s =
    remove_propagate_loop n [out] []
      (upd_var out (\<lambda>v. v\<lparr>v_determinedBy := None, v_walkStrength := WEAKEST, v_stay := True\<rparr>) s)"

type_synonym alert = "string \<Rightarrow> unit res"

text \<open>
  \<open>satisfy\<close>, \<open>incrementalAdd\<close>, \<open>addPropagate\<close> and \<open>incrementalRemove\<close> call each other; the
  recursion goes through \<open>incrementalRemove\<close>, which \<open>addPropagate\<close> calls on a cycle. The first
  three take the function \<open>rem\<close> that this call stands for, and each loop takes fuel \<open>n\<close>:
  \<open>propagate\<close> is the loop of \<open>addPropagate\<close>, \<open>satisfy_all\<close> the one of \<open>incrementalAdd\<close>,
  \<open>retry_each\<close> the \<open>for\<close> loop of \<open>incrementalRemove\<close> and \<open>retry\<close> its \<open>do\<close> loop.
\<close>

type_synonym remover = "caddr \<Rightarrow> world \<Rightarrow> world res"

fun propagate :: "remover \<Rightarrow> nat \<Rightarrow> caddr \<Rightarrow> int \<Rightarrow> caddr coll \<Rightarrow> world \<Rightarrow> (bool \<times> world) res" where
  "propagate rem 0 c mark todo s = throw OutOfFuel"
| "propagate rem (Suc n) c mark todo s =
    (if todo = [] then ok (True, s)
     else rbind (removeFirst todo) (\<lambda>(d, todo).
       if v_mark (vars s ! c_output (cons s ! d)) = mark then
         rbind (rem c s) (\<lambda>s. ok (False, s))
       else (let s = recalculate d s
             in propagate rem n c mark (addConstraintsConsumingTo (c_output (cons s ! d)) todo s) s)))"

definition addPropagate :: "remover \<Rightarrow> nat \<Rightarrow> caddr \<Rightarrow> int \<Rightarrow> world \<Rightarrow> (bool \<times> world) res" where
  "addPropagate rem n c mark s = propagate rem n c mark (coll_add c []) s"

definition satisfy ::
  "alert \<Rightarrow> remover \<Rightarrow> nat \<Rightarrow> caddr \<Rightarrow> int \<Rightarrow> world \<Rightarrow> (caddr option \<times> world) res" where
  "satisfy al rem n c mark s =
    (let s = chooseMethod c mark s
     in if \<not> isSatisfied (cons s ! c) then
          (if c_strength (cons s ! c) = REQUIRED then
             rbind (al ''Could not satisfy a required constraint!'') (\<lambda>_. ok (None, s))
           else ok (None, s))
        else
          (let s = markInputs c mark s; out = c_output (cons s ! c); overridden = v_determinedBy (vars s ! out);
               s = (case overridden of None \<Rightarrow> s | Some o' \<Rightarrow> markUnsatisfied o' s);
               s = upd_var out (\<lambda>v. v\<lparr>v_determinedBy := Some c\<rparr>) s
           in rbind (addPropagate rem n c mark s) (\<lambda>(propagated, s).
              rbind (if propagated then ok () else al ''Cycle encountered'') (\<lambda>_.
              ok (overridden, set_mark out mark s)))))"

fun satisfy_all ::
  "alert \<Rightarrow> remover \<Rightarrow> nat \<Rightarrow> nat \<Rightarrow> caddr option \<Rightarrow> int \<Rightarrow> world \<Rightarrow> world res" where
  "satisfy_all al rem n k None mark s = ok s"
| "satisfy_all al rem n 0 (Some c) mark s = throw OutOfFuel"
| "satisfy_all al rem n (Suc k) (Some c) mark s =
    rbind (satisfy al rem n c mark s) (\<lambda>(overridden, s). satisfy_all al rem n k overridden mark s)"

definition incrementalAdd_with :: "alert \<Rightarrow> remover \<Rightarrow> nat \<Rightarrow> caddr \<Rightarrow> world \<Rightarrow> world res" where
  "incrementalAdd_with al rem n c s =
    (let (mark, s) = newMark s
     in rbind (satisfy al rem n c mark s) (\<lambda>(overridden, s). satisfy_all al rem n n overridden mark s))"

fun retry_each :: "(caddr \<Rightarrow> world \<Rightarrow> world res) \<Rightarrow> strength \<Rightarrow> caddr coll \<Rightarrow> world \<Rightarrow> world res" where
  "retry_each add strength [] s = ok s"
| "retry_each add strength (u # us) s =
    (if c_strength (cons s ! u) = strength then rbind (add u s) (retry_each add strength us)
     else retry_each add strength us s)"

fun retry :: "(caddr \<Rightarrow> world \<Rightarrow> world res) \<Rightarrow> nat \<Rightarrow> strength \<Rightarrow> caddr coll \<Rightarrow> world \<Rightarrow> world res" where
  "retry add 0 strength unsatisfied s = throw OutOfFuel"
| "retry add (Suc n) strength unsatisfied s =
    rbind (retry_each add strength unsatisfied s) (\<lambda>s.
    rbind (deref (nextWeaker strength)) (\<lambda>strength.
      if strength \<noteq> WEAKEST then retry add n strength unsatisfied s else ok s))"

primrec incrementalRemove :: "nat \<Rightarrow> alert \<Rightarrow> remover" where
  "incrementalRemove 0 = (\<lambda>al c s. throw OutOfFuel)"
| "incrementalRemove (Suc n) = (\<lambda>al c s.
    (let out = c_output (cons s ! c); s = markUnsatisfied c s; s = removeFromGraph c s
     in rbind (removePropagateFrom n out s) (\<lambda>(unsatisfied, s).
        retry (incrementalAdd_with al (incrementalRemove n al) n) n REQUIRED unsatisfied s)))"

definition incrementalAdd :: "alert \<Rightarrow> nat \<Rightarrow> caddr \<Rightarrow> world \<Rightarrow> world res" where
  "incrementalAdd al n = incrementalAdd_with al (incrementalRemove n al) n"

definition addConstraint :: "alert \<Rightarrow> nat \<Rightarrow> caddr \<Rightarrow> world \<Rightarrow> world res" where
  "addConstraint al n c s = incrementalAdd al n c (addToGraph c s)"

definition destroyConstraint :: "alert \<Rightarrow> nat \<Rightarrow> caddr \<Rightarrow> world \<Rightarrow> world res" where
  "destroyConstraint al n c s =
    (if isSatisfied (cons s ! c) then incrementalRemove n al c s else ok (removeFromGraph c s))"

text \<open>A constructor allocates the object and adds the constraint.\<close>

definition new_constraint :: "alert \<Rightarrow> nat \<Rightarrow> constr \<Rightarrow> world \<Rightarrow> (caddr \<times> world) res" where
  "new_constraint al n x s =
    rbind (addConstraint al n (length (cons s)) (s\<lparr>cons := cons s @ [x]\<rparr>)) (\<lambda>s'. ok (length (cons s), s'))"

definition UnaryConstraint ::
  "alert \<Rightarrow> nat \<Rightarrow> (strength \<Rightarrow> vaddr \<Rightarrow> bool \<Rightarrow> constr) \<Rightarrow> vaddr \<Rightarrow> strength \<Rightarrow> world \<Rightarrow> (caddr \<times> world) res" where [simp]:
  "UnaryConstraint al n kind v str = new_constraint al n (kind str v False)"

definition new_stay :: "alert \<Rightarrow> nat \<Rightarrow> vaddr \<Rightarrow> strength \<Rightarrow> world \<Rightarrow> (caddr \<times> world) res" where
  "new_stay al n v str = UnaryConstraint al n StayConstraint v str"

definition new_edit :: "alert \<Rightarrow> nat \<Rightarrow> vaddr \<Rightarrow> strength \<Rightarrow> world \<Rightarrow> (caddr \<times> world) res" where
  "new_edit al n v str = UnaryConstraint al n EditConstraint v str"

definition BinaryConstraint ::
  "alert \<Rightarrow> nat \<Rightarrow> (strength \<Rightarrow> vaddr \<Rightarrow> vaddr \<Rightarrow> int \<Rightarrow> constr) \<Rightarrow> vaddr \<Rightarrow> vaddr \<Rightarrow> strength \<Rightarrow> world \<Rightarrow>
   (caddr \<times> world) res" where [simp]:
  "BinaryConstraint al n kind var1 var2 str = new_constraint al n (kind str var1 var2 NONE)"

definition new_equality :: "alert \<Rightarrow> nat \<Rightarrow> vaddr \<Rightarrow> vaddr \<Rightarrow> strength \<Rightarrow> world \<Rightarrow> (caddr \<times> world) res" where
  "new_equality al n v1 v2 str = BinaryConstraint al n EqualityConstraint v1 v2 str"

definition new_scale ::
  "alert \<Rightarrow> nat \<Rightarrow> vaddr \<Rightarrow> vaddr \<Rightarrow> vaddr \<Rightarrow> vaddr \<Rightarrow> strength \<Rightarrow> world \<Rightarrow> (caddr \<times> world) res" where
  "new_scale al n src scale offset dest str =
    BinaryConstraint al n (\<lambda>st v1 v2 d. ScaleConstraint st v1 v2 d scale offset) src dest str"

section \<open>Plans\<close>

text \<open>A plan is the collection of its constraints, in the order of execution.\<close>

fun make_plan_loop :: "nat \<Rightarrow> int \<Rightarrow> caddr coll \<Rightarrow> caddr coll \<Rightarrow> world \<Rightarrow> (caddr coll \<times> world) res" where
  "make_plan_loop 0 mark plan todo s = throw OutOfFuel"
| "make_plan_loop (Suc n) mark plan todo s =
    (if todo = [] then ok (plan, s)
     else rbind (removeFirst todo) (\<lambda>(c, todo).
       if v_mark (vars s ! c_output (cons s ! c)) \<noteq> mark \<and> inputsKnown c mark s then
         (let plan = coll_add c plan; out = c_output (cons s ! c); s = set_mark out mark s
          in make_plan_loop n mark plan (addConstraintsConsumingTo out todo s) s)
       else make_plan_loop n mark plan todo s))"

definition makePlan :: "nat \<Rightarrow> caddr coll \<Rightarrow> world \<Rightarrow> (caddr coll \<times> world) res" where
  "makePlan n sources s = (let (mark, s) = newMark s in make_plan_loop n mark [] sources s)"

definition extractPlanFromConstraints :: "nat \<Rightarrow> caddr coll \<Rightarrow> world \<Rightarrow> (caddr coll \<times> world) res" where
  "extractPlanFromConstraints n constraints s =
    (let sources = foldl (\<lambda>src c. if isInput (cons s ! c) \<and> isSatisfied (cons s ! c) then coll_add c src else src)
           [] constraints
     in makePlan n sources s)"

definition plan_execute :: "caddr coll \<Rightarrow> world \<Rightarrow> world" where
  "plan_execute plan s = foldl (\<lambda>s c. execute c s) s plan"

section \<open>The benchmark\<close>

text \<open>
  \<open>chainTest\<close>: the loop that builds the chain, with \<open>i\<close> of the \<open>k\<close> rounds left to do, and the loop that
  changes the first variable. \<open>null\<close> is \<open>None\<close>.
\<close>

fun chain_build ::
  "alert \<Rightarrow> nat \<Rightarrow> nat \<Rightarrow> nat \<Rightarrow> nat \<Rightarrow> vaddr option \<times> vaddr option \<times> vaddr option \<Rightarrow> world \<Rightarrow>
   ((vaddr option \<times> vaddr option \<times> vaddr option) \<times> world) res" where
  "chain_build al f 0 n i (prev, first, lst) s = ok ((prev, first, lst), s)"
| "chain_build al f (Suc k) n i (prev, first, lst) s =
    (let (v, s) = new_variable (''v'' @ show_nat i) None s
     in rbind (case prev of None \<Rightarrow> ok s
               | Some p \<Rightarrow> rbind (new_equality al f p v REQUIRED s) (\<lambda>(c, s). ok s)) (\<lambda>s.
        chain_build al f k n (Suc i)
          (Some v, if i = 0 then Some v else first, if i = n then Some v else lst) s))"

fun chain_run :: "alert \<Rightarrow> nat \<Rightarrow> nat \<Rightarrow> caddr coll \<Rightarrow> vaddr \<Rightarrow> vaddr \<Rightarrow> world \<Rightarrow> world res" where
  "chain_run al 0 i plan first lst s = ok s"
| "chain_run al (Suc k) i plan first lst s =
    (let s = plan_execute plan (set_value first (num_of (int i)) s)
     in rbind (if \<not> num_eq (v_value (vars s ! lst)) (num_of (int i)) then al ''Chain test failed.'' else ok ())
          (\<lambda>_. chain_run al k (Suc i) plan first lst s))"

definition chainTest :: "alert \<Rightarrow> nat \<Rightarrow> nat \<Rightarrow> world res" where
  "chainTest al f n =
    rbind (chain_build al f (Suc n) n 0 (None, None, None) Planner) (\<lambda>((prev, first, lst), s).
    rbind (deref lst) (\<lambda>lst.
    rbind (new_stay al f lst STRONG_DEFAULT s) (\<lambda>(stay, s).
    rbind (deref first) (\<lambda>first.
    rbind (new_edit al f first PREFERRED s) (\<lambda>(edit, s).
    rbind (extractPlanFromConstraints f [edit] s) (\<lambda>(plan, s).
    chain_run al 100 0 plan first lst s))))))"

fun change_run :: "nat \<Rightarrow> caddr coll \<Rightarrow> vaddr \<Rightarrow> jsnum \<Rightarrow> world \<Rightarrow> world" where
  "change_run 0 plan v x s = s"
| "change_run (Suc k) plan v x s = change_run k plan v x (plan_execute plan (set_value v x s))"

definition change :: "alert \<Rightarrow> nat \<Rightarrow> vaddr \<Rightarrow> jsnum \<Rightarrow> world \<Rightarrow> world res" where
  "change al f v newValue s =
    rbind (new_edit al f v PREFERRED s) (\<lambda>(edit, s).
    rbind (extractPlanFromConstraints f [edit] s) (\<lambda>(plan, s).
    destroyConstraint al f edit (change_run 10 plan v newValue s)))"

fun projection_build ::
  "alert \<Rightarrow> nat \<Rightarrow> nat \<Rightarrow> nat \<Rightarrow> vaddr \<Rightarrow> vaddr \<Rightarrow> vaddr option \<times> vaddr option \<times> vaddr coll \<Rightarrow> world \<Rightarrow>
   ((vaddr option \<times> vaddr option \<times> vaddr coll) \<times> world) res" where
  "projection_build al f 0 i scale offset (src, dst, dests) s = ok ((src, dst, dests), s)"
| "projection_build al f (Suc k) i scale offset (src, dst, dests) s =
    (let (src, s) = new_variable (''src'' @ show_nat i) (Some (num_of (int i))) s;
         (dst, s) = new_variable (''dst'' @ show_nat i) (Some (num_of (int i))) s;
         dests = coll_add dst dests
     in rbind (new_stay al f src NORMAL s) (\<lambda>(c, s).
        rbind (new_scale al f src scale offset dst REQUIRED s) (\<lambda>(c, s).
        projection_build al f k (Suc i) scale offset (Some src, Some dst, dests) s)))"

text \<open>The loops that check \<open>dests.at(i).value != i * 5 + base\<close> for \<open>i < n - 1\<close>.\<close>

fun check_dests :: "alert \<Rightarrow> string \<Rightarrow> nat \<Rightarrow> nat \<Rightarrow> int \<Rightarrow> vaddr coll \<Rightarrow> world \<Rightarrow> unit res" where
  "check_dests al msg 0 i base dests s = ok ()"
| "check_dests al msg (Suc k) i base dests s =
    rbind (if \<not> num_eq (v_value (vars s ! (dests ! i)))
                (num_add (num_mul (num_of (int i)) (num_of 5)) (num_of base)) then al msg else ok ())
      (\<lambda>_. check_dests al msg k (Suc i) base dests s)"

definition projectionTest :: "alert \<Rightarrow> nat \<Rightarrow> nat \<Rightarrow> world res" where
  "projectionTest al f n =
    (let (scale, s) = new_variable ''scale'' (Some (num_of 10)) Planner;
         (offset, s) = new_variable ''offset'' (Some (num_of 1000)) s
     in rbind (projection_build al f n 0 scale offset (None, None, []) s) (\<lambda>((src, dst, dests), s).
        rbind (deref src) (\<lambda>src.
        rbind (deref dst) (\<lambda>dst.
        rbind (change al f src (num_of 17) s) (\<lambda>s.
        rbind (if \<not> num_eq (v_value (vars s ! dst)) (num_of 1170) then al ''Projection 1 failed'' else ok ()) (\<lambda>_.
        rbind (change al f dst (num_of 1050) s) (\<lambda>s.
        rbind (if \<not> num_eq (v_value (vars s ! src)) (num_of 5) then al ''Projection 2 failed'' else ok ()) (\<lambda>_.
        rbind (change al f scale (num_of 5) s) (\<lambda>s.
        rbind (check_dests al ''Projection 3 failed'' (n - 1) 0 1000 dests s) (\<lambda>_.
        rbind (change al f offset (num_of 2000) s) (\<lambda>s.
        rbind (check_dests al ''Projection 4 failed'' (n - 1) 0 2000 dests s) (\<lambda>_.
        ok s))))))))))))"

definition deltaBlue :: "alert \<Rightarrow> nat \<Rightarrow> world res" where
  "deltaBlue al f = rbind (chainTest al f 100) (\<lambda>_. projectionTest al f 100)"

end
