(* ===== verification/DeltaBlue_Chain.thy ===== *)
theory DeltaBlue_Chain
  imports DeltaBlue
begin

text \<open>
  Correctness of \<open>v8/deltablue.js\<close>: the in-place deletion from a collection, what the planner does
  when a constraint is retracted, and the run of \<open>chainTest\<close> for a chain of any length. The
  chain is followed through its phases (building it, the walk of the stay constraint from the end to the
  start, the walk of the edit constraint back to the end, the plan, the plan's execution); each phase has
  an invariant on all variables and constraints, and \<open>satisfy_link\<close> and \<open>satisfy_unary\<close> describe
  one call of \<open>satisfy\<close> on a chain.
\<close>

section \<open>Collections\<close>

lemma foldl_filter: "foldl (\<lambda>u c. if P c then coll_add c u else u) us cs = us @ filter P cs"
  by (induction cs arbitrary: us) (auto simp: coll_add_def)

lemma consuming_filter:
  "addConstraintsConsumingTo v coll s =
    coll @ [c \<leftarrow> v_constraints (vars s ! v). v_determinedBy (vars s ! v) \<noteq> Some c \<and> isSatisfied (cons s ! c)]"
  by (simp add: addConstraintsConsumingTo_def foldl_filter Let_def)

lemma remove_loop_ok:
  "i + n = length c \<Longrightarrow> index \<le> i \<Longrightarrow> i = index + skipped \<Longrightarrow>
   \<exists>k c'. remove_loop n elm i index skipped c = (k, c') \<and> length c' = length c \<and>
     take (length c - k) c' = take index c @ filter (\<lambda>x. x \<noteq> elm) (drop i c) \<and> k \<le> length c \<and>
     length c - k = index + length (filter (\<lambda>x. x \<noteq> elm) (drop i c))"
proof (induction n arbitrary: i index skipped c)
  case 0
  then have "length c - skipped = index" by simp
  then show ?case using 0 by auto
next
  case (Suc n)
  then have d: "drop i c = c ! i # drop (Suc i) c" by (intro Cons_nth_drop_Suc [symmetric]) simp
  show ?case
  proof (cases "c ! i = elm")
    case True
    then show ?thesis using Suc.IH [of "Suc i" c index "Suc skipped"] Suc.prems d by auto
  next
    case False
    let ?c = "c[index := c ! i]"
    have "take (Suc index) ?c = take index c @ [c ! i]" "drop (Suc i) ?c = drop (Suc i) c"
      using Suc.prems by (simp_all add: take_Suc_conv_app_nth)
    then show ?thesis using Suc.IH [of "Suc i" ?c "Suc index" skipped] Suc.prems d False by auto
  qed
qed

lemma butlast_pow: "(butlast ^^ k) xs = take (length xs - k) xs"
  by (induction k) (auto simp: butlast_take)

section \<open>Access after updates\<close>

lemma upd_var_sel [simp]:
  "vars (upd_var v f s) ! j = (if j = v \<and> v < length (vars s) then f (vars s ! v) else vars s ! j)"
  "length (vars (upd_var v f s)) = length (vars s)" "cons (upd_var v f s) = cons s"
  "currentMark (upd_var v f s) = currentMark s"
  by (cases "v < length (vars s)") (auto simp: upd_var_def list_update_beyond)

lemma upd_con_sel [simp]:
  "cons (upd_con c f s) ! j = (if j = c \<and> c < length (cons s) then f (cons s ! c) else cons s ! j)"
  "length (cons (upd_con c f s)) = length (cons s)" "vars (upd_con c f s) = vars s"
  "currentMark (upd_con c f s) = currentMark s"
  by (cases "c < length (cons s)") (auto simp: upd_con_def list_update_beyond)

lemmas updates = set_mark_def set_value_def markUnsatisfied_def

lemma strengths [simp]:
  "strengthValue REQUIRED = 0" "strengthValue PREFERRED = 2" "strengthValue STRONG_DEFAULT = 3"
  "strengthValue WEAKEST = 6" "strengthValue NORMAL = 4"
  by (simp_all add: REQUIRED_def PREFERRED_def STRONG_DEFAULT_def WEAKEST_def NORMAL_def)

lemma directions [simp]: "FORWARD \<noteq> NONE" "BACKWARD \<noteq> NONE" "BACKWARD \<noteq> FORWARD" "NONE \<noteq> FORWARD" "FORWARD \<noteq> BACKWARD"
  "NONE \<noteq> BACKWARD"
  by (simp_all add: FORWARD_def BACKWARD_def NONE_def)

section \<open>One call of satisfy\<close>

definition unsat :: "constr \<Rightarrow> constr" where
  "unsat x = (if is_unary x then set_satisfied False x else set_direction NONE x)"

lemma unsatisfied [simp]:
  "is_unary x \<Longrightarrow> \<not> isSatisfied (set_satisfied False x)" "\<not> is_unary x \<Longrightarrow> \<not> isSatisfied (set_direction NONE x)"
  by (cases x; simp)+

lemma unsat_unsatisfied [simp]: "\<not> isSatisfied (unsat x)"
  by (cases x) (simp_all add: unsat_def)

lemma recalculate_cons [simp]: "cons (recalculate c s) = cons s" "currentMark (recalculate c s) = currentMark s"
  "length (vars (recalculate c s)) = length (vars s)"
  by (auto simp: recalculate_def execute_def updates Let_def split: constr.splits)

lemma propagate_one:
  assumes "v_mark (vars s ! c_output (cons s ! c)) \<noteq> mark"
    and "addConstraintsConsumingTo (c_output (cons s ! c)) [] (recalculate c s) = []"
  shows "addPropagate rem (Suc (Suc n)) c mark s = Inr (True, recalculate c s)"
  using assms by (simp add: addPropagate_def coll_add_def removeFirst_def Let_def)

text \<open>
  A constraint \<open>c\<close> whose output has no consumers other than \<open>c\<close> and the overridden one. \<open>s1\<close> is
  the state after the choice of the method and the marking of the inputs.
\<close>

lemma satisfy_one:
  assumes s1: "s1 = markInputs c M (chooseMethod c M s)" "cons s1 = cons (chooseMethod c M s)"
    and sat: "isSatisfied (cons s1 ! c)" and out: "c_output (cons s1 ! c) = out" "out < length (vars s1)" "c < length (cons s1)"
    and over: "v_determinedBy (vars s1 ! out) = over" "over \<noteq> Some c" "v_mark (vars s1 ! out) \<noteq> M"
    and s2: "s2 = upd_var out (\<lambda>v. v\<lparr>v_determinedBy := Some c\<rparr>)
      (case over of None \<Rightarrow> s1 | Some o' \<Rightarrow> markUnsatisfied o' s1)"
    and quiet: "\<forall>x \<in> set (v_constraints (vars s1 ! out)). x = c \<or> over = Some x \<or> \<not> isSatisfied (cons s1 ! x)"
    and links: "v_constraints (vars (recalculate c s2) ! out) = v_constraints (vars s2 ! out)"
      "v_determinedBy (vars (recalculate c s2) ! out) = v_determinedBy (vars s2 ! out)"
      "\<forall>o'. over = Some o' \<longrightarrow> o' < length (cons s1)"
  shows "satisfy al rem (Suc (Suc n)) c M s = Inr (over, set_mark out M (recalculate c s2))"
proof -
  have c2: "cons s2 ! c = cons s1 ! c" using over(2) by (auto simp: s2 updates split: option.splits)
  have v2: "v_mark (vars s2 ! out) \<noteq> M" "v_constraints (vars s2 ! out) = v_constraints (vars s1 ! out)"
    "v_determinedBy (vars s2 ! out) = Some c"
    using over out by (auto simp: s2 updates split: option.splits)
  have "\<not> isSatisfied (cons s2 ! x)" if "x \<in> set (v_constraints (vars s1 ! out))" "x \<noteq> c" for x
    using quiet that links(3) by (auto simp: s2 updates unsat_def [symmetric] split: option.splits)
  then have none: "addConstraintsConsumingTo out [] (recalculate c s2) = []"
    by (auto simp: consuming_filter links v2 filter_empty_conv)
  have "addPropagate rem (Suc (Suc n)) c M s2 = Inr (True, recalculate c s2)"
    by (rule propagate_one) (use c2 out v2 none in simp_all)
  then show ?thesis unfolding satisfy_def Let_def s1(1) [symmetric] s1(2) [symmetric]
    using sat by (simp add: out over s2 [symmetric])
qed

lemma satisfy_link:
  assumes c: "cons s ! c = EqualityConstraint REQUIRED a b d" "c < length (cons s)"
    and ab: "a < length (vars s)" "b < length (vars s)" "a \<noteq> b"
    and dir: "binary_choose (vars s ! a) (vars s ! b) REQUIRED M d = dr" "dr = FORWARD \<or> dr = BACKWARD"
    and io: "i = (if dr = FORWARD then a else b)" "ou = (if dr = FORWARD then b else a)"
    and over: "v_determinedBy (vars s ! ou) = over" "over \<noteq> Some c" "v_mark (vars s ! ou) \<noteq> M"
      "\<forall>o'. over = Some o' \<longrightarrow> o' < length (cons s)"
    and quiet: "\<forall>x \<in> set (v_constraints (vars s ! ou)). x = c \<or> over = Some x \<or> \<not> isSatisfied (cons s ! x)"
  shows "\<exists>s'. satisfy al rem (Suc (Suc n)) c M s = Inr (over, s') \<and> length (vars s') = length (vars s) \<and>
    length (cons s') = length (cons s) \<and> currentMark s' = currentMark s \<and>
    (\<forall>j. vars s' ! j =
      (if j = ou then (vars s ! j)\<lparr>v_determinedBy := Some c, v_mark := M,
         v_walkStrength := weakestOf REQUIRED (v_walkStrength (vars s ! i)), v_stay := v_stay (vars s ! i),
         v_value := (if v_stay (vars s ! i) then v_value (vars s ! i) else v_value (vars s ! j))\<rparr>
       else if j = i then (vars s ! j)\<lparr>v_mark := M\<rparr> else vars s ! j)) \<and>
    (\<forall>j. cons s' ! j = (if j = c then EqualityConstraint REQUIRED a b dr
       else if over = Some j then unsat (cons s ! j) else cons s ! j))"
proof -
  have oi: "ou < length (vars s)" "i < length (vars s)" "ou \<noteq> i" using ab io by auto
  let ?c = "upd_con c (set_direction dr) s"
  define s1 where "s1 = set_mark i M ?c"
  have choose: "chooseMethod c M s = ?c" using c dir by (simp add: chooseMethod_def)
  have mi: "markInputs c M ?c = s1" using c io by (simp add: markInputs_def s1_def)
  have c1: "cons s1 ! c = EqualityConstraint REQUIRED a b dr" using c by (simp add: s1_def updates)
  have v1: "vars s1 ! j = (if j = i then (vars s ! j)\<lparr>v_mark := M\<rparr> else vars s ! j)" for j
    using oi by (simp add: s1_def updates)
  define s2 where "s2 = upd_var ou (\<lambda>v. v\<lparr>v_determinedBy := Some c\<rparr>)
      (case over of None \<Rightarrow> s1 | Some o' \<Rightarrow> markUnsatisfied o' s1)"
  have v2: "vars s2 ! j = (if j = ou then (vars s ! j)\<lparr>v_determinedBy := Some c\<rparr> else vars s1 ! j)"
    "length (vars s2) = length (vars s)" for j
    using oi by (auto simp: s2_def v1 updates s1_def split: option.splits)
  have k2: "cons s2 ! j = (if j = c then EqualityConstraint REQUIRED a b dr
       else if over = Some j then unsat (cons s ! j) else cons s ! j)" "length (cons s2) = length (cons s)" for j
    using over(2,4) c1 c(2) by (auto simp: s2_def s1_def updates unsat_def split: option.splits)
  let ?w = "weakestOf REQUIRED (v_walkStrength (vars s ! i))" and ?st = "v_stay (vars s ! i)"
  have k2c: "cons s2 ! c = EqualityConstraint REQUIRED a b dr" by (simp add: k2)
  have inp: "c_input (EqualityConstraint REQUIRED a b dr) = i" "c_output (EqualityConstraint REQUIRED a b dr) = ou"
    by (simp_all add: io)
  have rec: "recalculate c s2 =
    (let s3 = upd_var ou (\<lambda>v. v\<lparr>v_stay := ?st\<rparr>) (upd_var ou (\<lambda>v. v\<lparr>v_walkStrength := ?w\<rparr>) s2)
     in if ?st then set_value ou (v_value (vars s ! i)) s3 else s3)"
    using k2c oi inp by (simp add: recalculate_def execute_def Let_def v1 v2 updates)
  have v3: "vars (recalculate c s2) ! j = (if j = ou then (vars s ! j)\<lparr>v_determinedBy := Some c,
         v_walkStrength := ?w, v_stay := ?st, v_value := (if ?st then v_value (vars s ! i) else v_value (vars s ! j))\<rparr>
       else vars s1 ! j)" for j
    using oi by (simp add: rec Let_def updates v2)
  have "satisfy al rem (Suc (Suc n)) c M s = Inr (over, set_mark ou M (recalculate c s2))"
  proof (rule satisfy_one [OF _ _ _ _ _ _ _ _ _ s2_def])
    show "s1 = markInputs c M (chooseMethod c M s)" "cons s1 = cons (chooseMethod c M s)"
      using choose mi by (simp_all add: s1_def updates)
    show "isSatisfied (cons s1 ! c)" using c1 dir(2) by auto
    show "\<forall>x \<in> set (v_constraints (vars s1 ! ou)). x = c \<or> over = Some x \<or> \<not> isSatisfied (cons s1 ! x)"
      using quiet oi by (auto simp: v1 s1_def updates)
  qed (use c c1 io oi over in \<open>auto simp: v1 v2 v3 s1_def updates\<close>)
  moreover define s' where "s' = set_mark ou M (recalculate c s2)"
  moreover have "length (vars s') = length (vars s)" "length (cons s') = length (cons s)"
    by (simp_all add: s'_def updates k2 v2)
  moreover have "currentMark s' = currentMark s"
    by (auto simp: s'_def s2_def s1_def updates split: option.splits)
  moreover have "vars s' ! j = (if j = ou then (vars s ! j)\<lparr>v_determinedBy := Some c, v_mark := M,
         v_walkStrength := ?w, v_stay := ?st, v_value := (if ?st then v_value (vars s ! i) else v_value (vars s ! j))\<rparr>
       else if j = i then (vars s ! j)\<lparr>v_mark := M\<rparr> else vars s ! j)" for j
    using oi by (simp add: s'_def updates v3 v1 v2)
  moreover have "cons s' ! j = (if j = c then EqualityConstraint REQUIRED a b dr
       else if over = Some j then unsat (cons s ! j) else cons s ! j)" for j
    by (simp add: s'_def updates k2)
  ultimately show ?thesis by (intro exI [of _ s']) simp
qed

lemma satisfy_unary:
  assumes c: "cons s ! c = x" "c < length (cons s)" "is_unary x" "c_myOutput x = v" "c_strength x = st" "v < length (vars s)"
    and dir: "unary_choose (vars s ! v) st M"
    and over: "v_determinedBy (vars s ! v) = over" "over \<noteq> Some c" "\<forall>o'. over = Some o' \<longrightarrow> o' < length (cons s)"
    and quiet: "\<forall>y \<in> set (v_constraints (vars s ! v)). y = c \<or> over = Some y \<or> \<not> isSatisfied (cons s ! y)"
  shows "\<exists>s'. satisfy al rem (Suc (Suc n)) c M s = Inr (over, s') \<and> length (vars s') = length (vars s) \<and>
    length (cons s') = length (cons s) \<and> currentMark s' = currentMark s \<and>
    (\<forall>j. vars s' ! j =
      (if j = v then (vars s ! j)\<lparr>v_determinedBy := Some c, v_mark := M, v_walkStrength := st, v_stay := \<not> isInput x\<rparr>
       else vars s ! j)) \<and>
    (\<forall>j. cons s' ! j = (if j = c then set_satisfied True x else if over = Some j then unsat (cons s ! j) else cons s ! j))"
proof -
  define s1 where "s1 = upd_con c (set_satisfied True) s"
  have choose: "chooseMethod c M s = s1" using c dir by (cases x) (simp_all add: chooseMethod_def s1_def)
  have c1: "cons s1 ! c = set_satisfied True x" using c by (simp add: s1_def)
  have mi: "markInputs c M s1 = s1" using c c1 by (cases x) (simp_all add: markInputs_def)
  have x1: "isSatisfied (set_satisfied True x)" "c_output (set_satisfied True x) = v" "is_unary (set_satisfied True x)"
    "c_strength (set_satisfied True x) = st" "isInput (set_satisfied True x) = isInput x"
    using c by (cases x; simp)+
  define s2 where "s2 = upd_var v (\<lambda>v. v\<lparr>v_determinedBy := Some c\<rparr>)
      (case over of None \<Rightarrow> s1 | Some o' \<Rightarrow> markUnsatisfied o' s1)"
  have v2: "vars s2 ! j = (if j = v then (vars s ! j)\<lparr>v_determinedBy := Some c\<rparr> else vars s ! j)"
    "length (vars s2) = length (vars s)" for j
    using c by (auto simp: s2_def updates s1_def split: option.splits)
  have k2: "cons s2 ! j = (if j = c then set_satisfied True x
       else if over = Some j then unsat (cons s ! j) else cons s ! j)" "length (cons s2) = length (cons s)" for j
    using over(2,3) c1 c(2) by (auto simp: s2_def s1_def updates unsat_def split: option.splits)
  have k2c: "cons s2 ! c = set_satisfied True x" by (simp add: k2)
  have rec: "recalculate c s2 = upd_var v (\<lambda>v. v\<lparr>v_stay := \<not> isInput x\<rparr>) (upd_var v (\<lambda>v. v\<lparr>v_walkStrength := st\<rparr>) s2)"
    using c k2c by (cases x) (simp_all add: recalculate_def execute_def Let_def)
  have v3: "vars (recalculate c s2) ! j = (if j = v then (vars s ! j)\<lparr>v_determinedBy := Some c,
         v_walkStrength := st, v_stay := \<not> isInput x\<rparr> else vars s ! j)" for j
    using c by (simp add: rec v2)
  have "satisfy al rem (Suc (Suc n)) c M s = Inr (over, set_mark v M (recalculate c s2))"
  proof (rule satisfy_one [OF _ _ _ _ _ _ _ _ _ s2_def])
    show "s1 = markInputs c M (chooseMethod c M s)" "cons s1 = cons (chooseMethod c M s)"
      using choose mi by simp_all
    show "\<forall>y \<in> set (v_constraints (vars s1 ! v)). y = c \<or> over = Some y \<or> \<not> isSatisfied (cons s1 ! y)"
      using quiet by (auto simp: s1_def)
    show "v_mark (vars s1 ! v) \<noteq> M" using dir by (simp add: s1_def unary_choose_def)
  qed (use c c1 x1 over in \<open>auto simp: v2 v3 s1_def\<close>)
  moreover define s' where "s' = set_mark v M (recalculate c s2)"
  moreover have "length (vars s') = length (vars s)" "length (cons s') = length (cons s)"
    by (simp_all add: s'_def updates k2 v2)
  moreover have "currentMark s' = currentMark s"
    by (auto simp: s'_def s2_def s1_def updates split: option.splits)
  moreover have "vars s' ! j = (if j = v then (vars s ! j)\<lparr>v_determinedBy := Some c, v_mark := M, v_walkStrength := st,
      v_stay := \<not> isInput x\<rparr> else vars s ! j)" for j
    using c by (simp add: s'_def updates v3 v2)
  moreover have "cons s' ! j = (if j = c then set_satisfied True x
       else if over = Some j then unsat (cons s ! j) else cons s ! j)" for j
    by (simp add: s'_def updates k2)
  ultimately show ?thesis by (intro exI [of _ s']) simp
qed

section \<open>The chain\<close>

text \<open>The constraint between \<open>v\<^sub>j\<close> and \<open>v\<^sub>j\<^sub>+\<^sub>1\<close> is the \<open>j\<close>-th; the stay constraint is the \<open>n\<close>-th and the edit
  constraint the next one.\<close>

definition links :: "nat \<Rightarrow> nat \<Rightarrow> nat \<Rightarrow> caddr list" where
  "links n k j = (if j > 0 then [j - 1] else []) @ (if j < n then [j] else []) @
     (if k \<ge> 1 \<and> j = n then [n] else []) @ (if k \<ge> 2 \<and> j = 0 then [n + 1] else [])"

definition chain_state ::
  "nat \<Rightarrow> nat \<Rightarrow> (nat \<Rightarrow> variable \<Rightarrow> bool) \<Rightarrow> (nat \<Rightarrow> constr) \<Rightarrow> world \<Rightarrow> bool" where
  "chain_state n k P K s \<longleftrightarrow> length (vars s) = Suc n \<and> length (cons s) = n + k \<and>
     (\<forall>j \<le> n. v_constraints (vars s ! j) = links n k j \<and> P j (vars s ! j)) \<and> (\<forall>c < n + k. cons s ! c = K c)"

text \<open>While the stay constraint walks from the end of the chain towards the start: \<open>m\<close> variables are left.\<close>

definition var_back :: "nat \<Rightarrow> int \<Rightarrow> nat \<Rightarrow> variable \<Rightarrow> bool" where
  "var_back m M j v \<longleftrightarrow> v_stay v \<and>
     (if j < m then v_walkStrength v = WEAKEST \<and> v_mark v < M \<and> v_determinedBy v = (if j = 0 then None else Some (j - 1))
      else v_walkStrength v = STRONG_DEFAULT \<and> v_mark v = M \<and> v_determinedBy v = Some j)"

definition con_back :: "nat \<Rightarrow> nat \<Rightarrow> nat \<Rightarrow> constr" where
  "con_back n m c =
    (if c < n then EqualityConstraint REQUIRED c (Suc c) (if Suc c < m then FORWARD else if Suc c = m then NONE else BACKWARD)
     else StayConstraint STRONG_DEFAULT n True)"

lemma back_step:
  assumes st: "chain_state n 1 (var_back (Suc m) M) (con_back n (Suc m)) s" and m: "m < n"
  shows "\<exists>s'. satisfy al rem (Suc (Suc f)) m M s = Inr (if m = 0 then None else Some (m - 1), s') \<and>
    chain_state n 1 (var_back m M) (con_back n m) s' \<and> currentMark s' = currentMark s"
proof -
  have v: "\<And>j. j \<le> n \<Longrightarrow> v_constraints (vars s ! j) = links n 1 j \<and> var_back (Suc m) M j (vars s ! j)"
    and c: "\<And>c. c \<le> n \<Longrightarrow> cons s ! c = con_back n (Suc m) c" and len: "length (vars s) = Suc n" "length (cons s) = Suc n"
    using st by (auto simp: chain_state_def)
  have va: "v_constraints (vars s ! m) = links n 1 m" "v_walkStrength (vars s ! m) = WEAKEST" "v_mark (vars s ! m) < M"
    "v_determinedBy (vars s ! m) = (if m = 0 then None else Some (m - 1))" "v_stay (vars s ! m)"
    using v [of m] m by (auto simp: var_back_def)
  have vb: "v_walkStrength (vars s ! Suc m) = STRONG_DEFAULT" "v_mark (vars s ! Suc m) = M" "v_stay (vars s ! Suc m)"
    using v [of "Suc m"] m by (auto simp: var_back_def)
  have cm: "cons s ! m = EqualityConstraint REQUIRED m (Suc m) NONE" using c [of m] m by (simp add: con_back_def)
  have "\<exists>s'. satisfy al rem (Suc (Suc f)) m M s = Inr (if m = 0 then None else Some (m - 1), s') \<and>
      length (vars s') = length (vars s) \<and> length (cons s') = length (cons s) \<and> currentMark s' = currentMark s \<and>
      (\<forall>j. vars s' ! j = (if j = m then (vars s ! j)\<lparr>v_determinedBy := Some m, v_mark := M,
         v_walkStrength := weakestOf REQUIRED (v_walkStrength (vars s ! Suc m)), v_stay := v_stay (vars s ! Suc m),
         v_value := (if v_stay (vars s ! Suc m) then v_value (vars s ! Suc m) else v_value (vars s ! j))\<rparr>
       else if j = Suc m then (vars s ! j)\<lparr>v_mark := M\<rparr> else vars s ! j)) \<and>
      (\<forall>j. cons s' ! j = (if j = m then EqualityConstraint REQUIRED m (Suc m) BACKWARD
         else if (if m = 0 then None else Some (m - 1)) = Some j then unsat (cons s ! j) else cons s ! j))"
    by (rule satisfy_link [OF cm]) (use m len va vb c [of "m - 1"] c [of m] in
        \<open>auto simp: binary_choose_def weaker_def stronger_def links_def con_back_def\<close>)
  then obtain s' where s': "satisfy al rem (Suc (Suc f)) m M s = Inr (if m = 0 then None else Some (m - 1), s')"
    "length (vars s') = Suc n" "length (cons s') = Suc n" "currentMark s' = currentMark s"
    and vs: "\<And>j. vars s' ! j = (if j = m then (vars s ! j)\<lparr>v_determinedBy := Some m, v_mark := M,
         v_walkStrength := STRONG_DEFAULT, v_stay := True, v_value := v_value (vars s ! Suc m)\<rparr>
       else if j = Suc m then (vars s ! j)\<lparr>v_mark := M\<rparr> else vars s ! j)"
    and cs: "\<And>j. cons s' ! j = (if j = m then EqualityConstraint REQUIRED m (Suc m) BACKWARD
         else if (if m = 0 then None else Some (m - 1)) = Some j then unsat (cons s ! j) else cons s ! j)"
    using len vb by (auto simp: weakestOf_def weaker_def)
  have "chain_state n 1 (var_back m M) (con_back n m) s'"
    unfolding chain_state_def
  proof (intro conjI allI impI)
    fix j assume j: "j \<le> n"
    show "v_constraints (vars s' ! j) = links n 1 j" using v [OF j] by (auto simp: vs)
    show "var_back m M j (vars s' ! j)" using v [OF j] m by (auto simp: vs var_back_def)
  next
    fix j assume "j < n + 1"
    then have "j \<le> n" by simp
    then show "cons s' ! j = con_back n m j" using c [of j] m
      by (auto simp: cs con_back_def unsat_def)
  qed (use s' in simp_all)
  then show ?thesis using s' by blast
qed

lemma back_all:
  "chain_state n 1 (var_back m M) (con_back n m) s \<Longrightarrow> m \<le> n \<Longrightarrow> m \<le> k \<Longrightarrow>
   \<exists>s'. satisfy_all al rem (Suc (Suc f)) k (if m = 0 then None else Some (m - 1)) M s = Inr s' \<and>
     chain_state n 1 (var_back 0 M) (con_back n 0) s' \<and> currentMark s' = currentMark s"
proof (induction m arbitrary: k s)
  case (Suc m)
  obtain k' where k: "k = Suc k'" "m \<le> k'" using Suc.prems(3) by (cases k) auto
  have m: "m < n" using Suc.prems(2) by simp
  from back_step [OF Suc.prems(1) m] obtain s1 where
    s1: "satisfy al rem (Suc (Suc f)) m M s = Inr (if m = 0 then None else Some (m - 1), s1)"
    "chain_state n 1 (var_back m M) (con_back n m) s1" "currentMark s1 = currentMark s" by blast
  from Suc.IH [OF s1(2) _ k(2)] m obtain s' where
    "satisfy_all al rem (Suc (Suc f)) k' (if m = 0 then None else Some (m - 1)) M s1 = Inr s'"
    "chain_state n 1 (var_back 0 M) (con_back n 0) s'" "currentMark s' = currentMark s1" by auto
  then show ?case using s1 k by simp
qed simp

text \<open>Building: all links point forward and nothing is stronger than the weakest strength.\<close>

lemma addToGraph_link:
  assumes "cons s ! c = EqualityConstraint st a b NONE" "c < length (cons s)" "a < length (vars s)" "b < length (vars s)" "a \<noteq> b"
  shows "\<exists>s'. addToGraph c s = s' \<and> cons s' = cons s \<and> length (vars s') = length (vars s) \<and> currentMark s' = currentMark s \<and>
    (\<forall>j. vars s' ! j = (if j = a \<or> j = b then (vars s ! j)\<lparr>v_constraints := v_constraints (vars s ! j) @ [c]\<rparr> else vars s ! j))"
proof -
  have "cons (addToGraph c s) = cons s"
    using assms by (auto simp: addToGraph_def binary_addToGraph_def var_addConstraint_def Let_def intro!: nth_equalityI)
  then show ?thesis
    using assms by (auto simp: addToGraph_def binary_addToGraph_def var_addConstraint_def coll_add_def Let_def)
qed

lemma build_step:
  assumes st: "chain_state n 0 (var_back (Suc n) (M + 1)) (con_back n (Suc n)) s" and M: "currentMark s = M" and M0: "0 \<le> M"
  shows "\<exists>c s'. new_equality al (Suc (Suc f)) n (Suc n) REQUIRED (snd (new_variable name None s)) = Inr (c, s') \<and>
    chain_state (Suc n) 0 (var_back (Suc (Suc n)) (M + 1 + 1)) (con_back (Suc n) (Suc (Suc n))) s' \<and> currentMark s' = M + 1"
proof -
  have v: "\<And>j. j \<le> n \<Longrightarrow> v_constraints (vars s ! j) = links n 0 j \<and> var_back (Suc n) (M + 1) j (vars s ! j)"
    and c: "\<And>c. c < n \<Longrightarrow> cons s ! c = con_back n (Suc n) c" and len: "length (vars s) = Suc n" "length (cons s) = n"
    using st by (auto simp: chain_state_def)
  define s0 where "s0 = (snd (new_variable name None s))\<lparr>cons := cons s @ [EqualityConstraint REQUIRED n (Suc n) NONE]\<rparr>"
  have v0: "vars s0 ! j = (if j < Suc n then vars s ! j else if j = Suc n then Variable name None else vars s0 ! j)"
    "length (vars s0) = Suc (Suc n)" "currentMark s0 = M" for j
    using len M by (auto simp: s0_def new_variable_def nth_append)
  have c0: "cons s0 ! j = (if j < n then cons s ! j else if j = n then EqualityConstraint REQUIRED n (Suc n) NONE else cons s0 ! j)"
    "length (cons s0) = Suc n" for j
    using len by (auto simp: s0_def nth_append)
  obtain s1 where s1: "addToGraph n s0 = s1" "cons s1 = cons s0" "length (vars s1) = length (vars s0)" "currentMark s1 = M"
    and v1: "\<And>j. vars s1 ! j = (if j = n \<or> j = Suc n then (vars s0 ! j)\<lparr>v_constraints := v_constraints (vars s0 ! j) @ [n]\<rparr> else vars s0 ! j)"
    using addToGraph_link [of s0 n REQUIRED n "Suc n"] c0(1) [of n] c0(2) v0(2,3) by auto
  have va: "v_mark (vars s1 ! n) < M + 1" "v_walkStrength (vars s1 ! n) = WEAKEST" "v_stay (vars s1 ! n)"
    using v [of n] v0(1) [of n] by (auto simp: v1 var_back_def)
  have vb: "v_mark (vars s1 ! Suc n) = 0" "v_walkStrength (vars s1 ! Suc n) = WEAKEST" "v_stay (vars s1 ! Suc n)"
    "v_determinedBy (vars s1 ! Suc n) = None" "v_constraints (vars s1 ! Suc n) = [n]"
    using v0(1) [of "Suc n"] by (auto simp: v1 Variable_def)
  let ?s = "s1\<lparr>currentMark := M + 1\<rparr>"
  have "\<exists>s'. satisfy al (incrementalRemove (Suc (Suc f)) al) (Suc (Suc f)) n (M + 1) ?s = Inr (None, s') \<and>
      length (vars s') = length (vars ?s) \<and> length (cons s') = length (cons ?s) \<and> currentMark s' = currentMark ?s \<and>
      (\<forall>j. vars s' ! j = (if j = Suc n then (vars ?s ! j)\<lparr>v_determinedBy := Some n, v_mark := M + 1,
         v_walkStrength := weakestOf REQUIRED (v_walkStrength (vars ?s ! n)), v_stay := v_stay (vars ?s ! n),
         v_value := (if v_stay (vars ?s ! n) then v_value (vars ?s ! n) else v_value (vars ?s ! j))\<rparr>
       else if j = n then (vars ?s ! j)\<lparr>v_mark := M + 1\<rparr> else vars ?s ! j)) \<and>
      (\<forall>j. cons s' ! j = (if j = n then EqualityConstraint REQUIRED n (Suc n) FORWARD
         else if None = Some j then unsat (cons ?s ! j) else cons ?s ! j))"
    by (rule satisfy_link [where d = NONE]) (use va vb M0 v0(2) s1 c0(1) [of n] c0(2) in
        \<open>auto simp: binary_choose_def weaker_def stronger_def\<close>)
  then obtain s' where s': "satisfy al (incrementalRemove (Suc (Suc f)) al) (Suc (Suc f)) n (M + 1) ?s = Inr (None, s')"
    "length (vars s') = Suc (Suc n)" "length (cons s') = Suc n" "currentMark s' = M + 1"
    and vs: "\<And>j. vars s' ! j = (if j = Suc n then (vars s1 ! j)\<lparr>v_determinedBy := Some n, v_mark := M + 1,
         v_walkStrength := WEAKEST, v_stay := True, v_value := v_value (vars s1 ! n)\<rparr>
       else if j = n then (vars s1 ! j)\<lparr>v_mark := M + 1\<rparr> else vars s1 ! j)"
    and cs: "\<And>j. cons s' ! j = (if j = n then EqualityConstraint REQUIRED n (Suc n) FORWARD else cons s0 ! j)"
    using va v0 c0(2) s1 by (auto simp: weakestOf_def weaker_def)
  have "chain_state (Suc n) 0 (var_back (Suc (Suc n)) (M + 1 + 1)) (con_back (Suc n) (Suc (Suc n))) s'"
    unfolding chain_state_def
  proof (intro conjI allI impI)
    fix j assume j: "j \<le> Suc n"
    show "v_constraints (vars s' ! j) = links (Suc n) 0 j"
      using v [of j] j vb v0(1) [of j] by (auto simp: vs v1 links_def)
    show "var_back (Suc (Suc n)) (M + 1 + 1) j (vars s' ! j)"
      using v [of j] j va vb v0(1) [of j] by (auto simp: vs v1 var_back_def)
  next
    fix j assume "j < Suc n + 0"
    then show "cons s' ! j = con_back (Suc n) (Suc (Suc n)) j" using c [of j] c0(1) [of j]
      by (auto simp: cs con_back_def)
  qed (use s' in simp_all)
  moreover have "new_equality al (Suc (Suc f)) n (Suc n) REQUIRED (snd (new_variable name None s)) = Inr (n, s')"
    using s'(1) s1(1,4) len
    by (simp add: new_equality_def new_constraint_def addConstraint_def incrementalAdd_def incrementalAdd_with_def
        newMark_def s0_def new_variable_def)
  ultimately show ?thesis using s' by blast
qed

lemma build_all:
  assumes "chain_state i 0 (var_back (Suc i) (M + 1)) (con_back i (Suc i)) s" "currentMark s = M" "0 \<le> M"
    "i + k = n" "k = 0 \<Longrightarrow> lst = Some i"
  shows "\<exists>s'. chain_build al (Suc (Suc f)) k n (Suc i) (Some i, Some 0, lst) s = Inr ((Some n, Some 0, Some n), s') \<and>
    chain_state n 0 (var_back (Suc n) (M + int k + 1)) (con_back n (Suc n)) s' \<and> currentMark s' = M + int k"
  using assms
proof (induction k arbitrary: i M s lst)
  case (Suc k)
  have len: "length (vars s) = Suc i" using Suc.prems(1) by (simp add: chain_state_def)
  from build_step [OF Suc.prems(1-3), of al f "''v'' @ show_nat (Suc i)"] obtain c s1 where
    s1: "new_equality al (Suc (Suc f)) i (Suc i) REQUIRED (snd (new_variable (''v'' @ show_nat (Suc i)) None s)) = Inr (c, s1)"
    "chain_state (Suc i) 0 (var_back (Suc (Suc i)) (M + 1 + 1)) (con_back (Suc i) (Suc (Suc i))) s1" "currentMark s1 = M + 1"
    by blast
  from Suc.IH [OF s1(2,3), of "if Suc i = n then Some (Suc i) else lst"] Suc.prems(3,4)
  obtain s' where "chain_build al (Suc (Suc f)) k n (Suc (Suc i)) (Some (Suc i), Some 0, if Suc i = n then Some (Suc i) else lst) s1 =
      Inr ((Some n, Some 0, Some n), s')"
    "chain_state n 0 (var_back (Suc n) (M + 1 + int k + 1)) (con_back n (Suc n)) s'" "currentMark s' = M + 1 + int k"
    by auto
  then show ?case using s1(1) len by (auto simp: new_variable_def Let_def algebra_simps)
qed auto

lemma build_chain:
  "\<exists>s. chain_build al (Suc (Suc f)) (Suc n) n 0 (None, None, None) Planner = Inr ((Some n, Some 0, Some n), s) \<and>
    chain_state n 0 (var_back (Suc n) (int n + 1)) (con_back n (Suc n)) s \<and> currentMark s = int n"
proof -
  let ?s = "snd (new_variable (''v'' @ show_nat 0) None Planner)"
  have "chain_state 0 0 (var_back (Suc 0) (0 + 1)) (con_back 0 (Suc 0)) ?s" "currentMark ?s = 0"
    by (simp_all add: chain_state_def new_variable_def Planner_def Variable_def links_def var_back_def)
  from build_all [OF this, of n n "if 0 = n then Some 0 else None" al f] show ?thesis
    by (auto simp: new_variable_def Planner_def)
qed

text \<open>Adding the stay constraint to the last variable.\<close>

lemma addToGraph_unary:
  assumes "cons s ! c = x" "c < length (cons s)" "is_unary x" "c_myOutput x = v" "\<not> isSatisfied x" "v < length (vars s)"
  shows "\<exists>s'. addToGraph c s = s' \<and> cons s' = cons s \<and> length (vars s') = length (vars s) \<and> currentMark s' = currentMark s \<and>
    (\<forall>j. vars s' ! j = (if j = v then (vars s ! j)\<lparr>v_constraints := v_constraints (vars s ! j) @ [c]\<rparr> else vars s ! j))"
proof -
  have "cons (addToGraph c s) = cons s"
    using assms by (cases x) (auto simp: addToGraph_def var_addConstraint_def intro!: nth_equalityI)
  then show ?thesis
    using assms by (cases x) (auto simp: addToGraph_def var_addConstraint_def coll_add_def)
qed

lemma stay_add:
  assumes st: "chain_state n 0 (var_back (Suc n) (M + 1)) (con_back n (Suc n)) s" and M: "currentMark s = M" and f: "n \<le> f"
  shows "\<exists>c s'. new_stay al (Suc (Suc f)) n STRONG_DEFAULT s = Inr (c, s') \<and>
    chain_state n 1 (var_back 0 (M + 1)) (con_back n 0) s' \<and> currentMark s' = M + 1"
proof -
  have v: "\<And>j. j \<le> n \<Longrightarrow> v_constraints (vars s ! j) = links n 0 j \<and> var_back (Suc n) (M + 1) j (vars s ! j)"
    and c: "\<And>c. c < n \<Longrightarrow> cons s ! c = con_back n (Suc n) c" and len: "length (vars s) = Suc n" "length (cons s) = n"
    using st by (auto simp: chain_state_def)
  let ?x = "StayConstraint STRONG_DEFAULT n False"
  define s0 where "s0 = s\<lparr>cons := cons s @ [?x]\<rparr>"
  have s0: "vars s0 = vars s" "currentMark s0 = M" "length (cons s0) = Suc n" using len M by (simp_all add: s0_def)
  have c0: "cons s0 ! j = (if j < n then cons s ! j else if j = n then ?x else cons s0 ! j)" for j
    using len by (auto simp: s0_def nth_append)
  obtain s1 where s1: "addToGraph n s0 = s1" "cons s1 = cons s0" "length (vars s1) = Suc n" "currentMark s1 = M"
    and v1: "\<And>j. vars s1 ! j = (if j = n then (vars s ! j)\<lparr>v_constraints := v_constraints (vars s ! j) @ [n]\<rparr> else vars s ! j)"
    using addToGraph_unary [of s0 n ?x n] c0 [of n] s0 len by auto
  let ?s = "s1\<lparr>currentMark := M + 1\<rparr>" and ?o = "if n = 0 then None else Some (n - 1)"
  have v1n: "v_mark (vars s1 ! n) < M + 1" "v_walkStrength (vars s1 ! n) = WEAKEST" "v_determinedBy (vars s1 ! n) = ?o"
    "v_constraints (vars s1 ! n) = (if n = 0 then [n] else [n - 1, n])"
    using v [of n] by (auto simp: v1 var_back_def links_def)
  have c0n: "cons s0 ! n = ?x" using c0 [of n] by simp
  have nn: "?o \<noteq> Some n" "\<forall>o'. ?o = Some o' \<longrightarrow> o' < Suc n"
    "\<forall>y \<in> set (if n = 0 then [n] else [n - 1, n]). y = n \<or> ?o = Some y \<or> \<not> isSatisfied (cons s0 ! y)" by auto
  have "\<exists>s'. satisfy al (incrementalRemove (Suc (Suc f)) al) (Suc (Suc f)) n (M + 1) ?s = Inr (?o, s') \<and>
      length (vars s') = length (vars ?s) \<and> length (cons s') = length (cons ?s) \<and> currentMark s' = currentMark ?s \<and>
      (\<forall>j. vars s' ! j = (if j = n then (vars ?s ! j)\<lparr>v_determinedBy := Some n, v_mark := M + 1,
         v_walkStrength := STRONG_DEFAULT, v_stay := \<not> isInput ?x\<rparr> else vars ?s ! j)) \<and>
      (\<forall>j. cons s' ! j = (if j = n then set_satisfied True ?x else if ?o = Some j then unsat (cons ?s ! j) else cons ?s ! j))"
    by (rule satisfy_unary) (use s1 s0 c0n v1n len nn in \<open>auto simp: unary_choose_def stronger_def\<close>)
  then obtain s' where s': "satisfy al (incrementalRemove (Suc (Suc f)) al) (Suc (Suc f)) n (M + 1) ?s = Inr (?o, s')"
    "length (vars s') = Suc n" "length (cons s') = Suc n" "currentMark s' = M + 1"
    and vs: "\<And>j. vars s' ! j = (if j = n then (vars s1 ! j)\<lparr>v_determinedBy := Some n, v_mark := M + 1,
         v_walkStrength := STRONG_DEFAULT, v_stay := True\<rparr> else vars s1 ! j)"
    and cs: "\<And>j. cons s' ! j = (if j = n then StayConstraint STRONG_DEFAULT n True
       else if ?o = Some j then unsat (cons s0 ! j) else cons s0 ! j)"
    using s1 s0 by auto
  have "chain_state n 1 (var_back n (M + 1)) (con_back n n) s'"
    unfolding chain_state_def
  proof (intro conjI allI impI)
    fix j assume j: "j \<le> n"
    show "v_constraints (vars s' ! j) = links n 1 j"
      using v [OF j] by (auto simp: vs v1 links_def)
    show "var_back n (M + 1) j (vars s' ! j)"
      using v [OF j] j by (auto simp: vs v1 var_back_def)
  next
    fix j assume "j < n + 1"
    then show "cons s' ! j = con_back n n j" using c [of j] c0 [of j]
      by (auto simp: cs con_back_def unsat_def split: if_splits)
  qed (use s' in simp_all)
  from back_all [OF this, of "Suc (Suc f)" al "incrementalRemove (Suc (Suc f)) al" f] f obtain s2 where
    "satisfy_all al (incrementalRemove (Suc (Suc f)) al) (Suc (Suc f)) (Suc (Suc f)) ?o (M + 1) s' = Inr s2"
    "chain_state n 1 (var_back 0 (M + 1)) (con_back n 0) s2" "currentMark s2 = M + 1"
    using s'(4) by auto
  moreover have "new_stay al (Suc (Suc f)) n STRONG_DEFAULT s =
      rbind (satisfy_all al (incrementalRemove (Suc (Suc f)) al) (Suc (Suc f)) (Suc (Suc f)) ?o (M + 1) s') (\<lambda>s'. ok (n, s'))"
    using s'(1) s1 len
    by (simp add: new_stay_def new_constraint_def addConstraint_def incrementalAdd_def incrementalAdd_with_def
        newMark_def s0_def del: satisfy_all.simps)
  ultimately show ?thesis by auto
qed


text \<open>While the edit constraint walks from the start of the chain to the end: the variables up to the \<open>m\<close>-th
  are determined from the front.\<close>

definition var_fwd :: "nat \<Rightarrow> nat \<Rightarrow> int \<Rightarrow> nat \<Rightarrow> variable \<Rightarrow> bool" where
  "var_fwd n m M j v \<longleftrightarrow>
     (if j \<le> m then v_walkStrength v = PREFERRED \<and> \<not> v_stay v \<and> v_mark v = M \<and>
        v_determinedBy v = Some (if j = 0 then Suc n else j - 1)
      else v_walkStrength v = STRONG_DEFAULT \<and> v_stay v \<and> v_mark v < M \<and> v_determinedBy v = Some j)"

definition con_fwd :: "nat \<Rightarrow> nat \<Rightarrow> nat \<Rightarrow> constr" where
  "con_fwd n m c =
    (if c < n then EqualityConstraint REQUIRED c (Suc c) (if c < m then FORWARD else if c = m then NONE else BACKWARD)
     else if c = n then StayConstraint STRONG_DEFAULT n (m < n) else EditConstraint PREFERRED 0 True)"

lemma fwd_step:
  assumes st: "chain_state n 2 (var_fwd n m M) (con_fwd n m) s" and m: "m < n"
  shows "\<exists>s'. satisfy al rem (Suc (Suc f)) m M s = Inr (Some (Suc m), s') \<and>
    chain_state n 2 (var_fwd n (Suc m) M) (con_fwd n (Suc m)) s' \<and> currentMark s' = currentMark s"
proof -
  have v: "\<And>j. j \<le> n \<Longrightarrow> v_constraints (vars s ! j) = links n 2 j \<and> var_fwd n m M j (vars s ! j)"
    and c: "\<And>c. c < n + 2 \<Longrightarrow> cons s ! c = con_fwd n m c" and len: "length (vars s) = Suc n" "length (cons s) = n + 2"
    using st by (auto simp: chain_state_def)
  have va: "v_walkStrength (vars s ! m) = PREFERRED" "v_mark (vars s ! m) = M" "\<not> v_stay (vars s ! m)"
    using v [of m] m by (auto simp: var_fwd_def)
  have vb: "v_walkStrength (vars s ! Suc m) = STRONG_DEFAULT" "v_mark (vars s ! Suc m) < M" "v_stay (vars s ! Suc m)"
    "v_determinedBy (vars s ! Suc m) = Some (Suc m)" "v_constraints (vars s ! Suc m) = [m, Suc m]"
    using v [of "Suc m"] m by (auto simp: var_fwd_def links_def)
  have cm: "cons s ! m = EqualityConstraint REQUIRED m (Suc m) NONE" using c [of m] m by (simp add: con_fwd_def)
  have "\<exists>s'. satisfy al rem (Suc (Suc f)) m M s = Inr (Some (Suc m), s') \<and>
      length (vars s') = length (vars s) \<and> length (cons s') = length (cons s) \<and> currentMark s' = currentMark s \<and>
      (\<forall>j. vars s' ! j = (if j = Suc m then (vars s ! j)\<lparr>v_determinedBy := Some m, v_mark := M,
         v_walkStrength := weakestOf REQUIRED (v_walkStrength (vars s ! m)), v_stay := v_stay (vars s ! m),
         v_value := (if v_stay (vars s ! m) then v_value (vars s ! m) else v_value (vars s ! j))\<rparr>
       else if j = m then (vars s ! j)\<lparr>v_mark := M\<rparr> else vars s ! j)) \<and>
      (\<forall>j. cons s' ! j = (if j = m then EqualityConstraint REQUIRED m (Suc m) FORWARD
         else if Some (Suc m) = Some j then unsat (cons s ! j) else cons s ! j))"
    by (rule satisfy_link [OF cm]) (use m len va vb in \<open>auto simp: binary_choose_def weaker_def stronger_def\<close>)
  then obtain s' where s': "satisfy al rem (Suc (Suc f)) m M s = Inr (Some (Suc m), s')"
    "length (vars s') = Suc n" "length (cons s') = n + 2" "currentMark s' = currentMark s"
    and vs: "\<And>j. vars s' ! j = (if j = Suc m then (vars s ! j)\<lparr>v_determinedBy := Some m, v_mark := M,
         v_walkStrength := PREFERRED, v_stay := False, v_value := v_value (vars s ! j)\<rparr>
       else if j = m then (vars s ! j)\<lparr>v_mark := M\<rparr> else vars s ! j)"
    and cs: "\<And>j. cons s' ! j = (if j = m then EqualityConstraint REQUIRED m (Suc m) FORWARD
         else if Suc m = j then unsat (cons s ! j) else cons s ! j)"
    using len va by (auto simp: weakestOf_def weaker_def)
  have "chain_state n 2 (var_fwd n (Suc m) M) (con_fwd n (Suc m)) s'"
    unfolding chain_state_def
  proof (intro conjI allI impI)
    fix j assume j: "j \<le> n"
    show "v_constraints (vars s' ! j) = links n 2 j" using v [OF j] by (auto simp: vs)
    show "var_fwd n (Suc m) M j (vars s' ! j)" using v [OF j] m by (auto simp: vs var_fwd_def)
  next
    fix j assume "j < n + 2"
    then show "cons s' ! j = con_fwd n (Suc m) j" using c [of j] m
      by (auto simp: cs con_fwd_def unsat_def)
  qed (use s' in simp_all)
  then show ?thesis using s' by blast
qed

lemma fwd_last:
  assumes st: "chain_state n 2 (var_fwd n n M) (con_fwd n n) s"
  shows "satisfy al rem f n M s = Inr (None, s)"
proof -
  have cn: "cons s ! n = StayConstraint STRONG_DEFAULT n False" and len: "n < length (cons s)" and v: "v_mark (vars s ! n) = M"
    using st by (auto simp: chain_state_def con_fwd_def var_fwd_def)
  have "upd_con n (set_satisfied False) s = s" using cn by (simp add: upd_con_def list_update_same_conv len)
  then have "chooseMethod n M s = s" using cn v by (simp add: chooseMethod_def unary_choose_def)
  then show ?thesis using cn by (simp add: satisfy_def STRONG_DEFAULT_def REQUIRED_def)
qed

lemma fwd_all:
  "chain_state n 2 (var_fwd n m M) (con_fwd n m) s \<Longrightarrow> m \<le> n \<Longrightarrow> n - m < k \<Longrightarrow>
   \<exists>s'. satisfy_all al rem (Suc (Suc f)) k (Some m) M s = Inr s' \<and>
     chain_state n 2 (var_fwd n n M) (con_fwd n n) s' \<and> currentMark s' = currentMark s"
proof (induction "n - m" arbitrary: k m s)
  case 0
  then have m: "m = n" by simp
  obtain k' where k: "k = Suc k'" using 0 by (cases k) auto
  have st: "chain_state n 2 (var_fwd n n M) (con_fwd n n) s" using 0(2) m by simp
  show ?case using fwd_last [OF st, of al rem "Suc (Suc f)"] st by (simp add: k m)
next
  case (Suc d)
  then have m: "m < n" by simp
  obtain k' where k: "k = Suc k'" "n - Suc m < k'" using Suc.prems m by (cases k) auto
  from fwd_step [OF Suc.prems(1) m, of al rem f] obtain s1 where
    s1: "satisfy al rem (Suc (Suc f)) m M s = Inr (Some (Suc m), s1)"
    "chain_state n 2 (var_fwd n (Suc m) M) (con_fwd n (Suc m)) s1" "currentMark s1 = currentMark s" by blast
  have d: "d = n - Suc m" using Suc.hyps(2) by simp
  from Suc.hyps(1) [OF d s1(2) _ k(2)] m obtain s' where
    "satisfy_all al rem (Suc (Suc f)) k' (Some (Suc m)) M s1 = Inr s'"
    "chain_state n 2 (var_fwd n n M) (con_fwd n n) s'" "currentMark s' = currentMark s1" by auto
  then show ?case using s1 k by simp
qed

lemma edit_add:
  assumes st: "chain_state n 1 (var_back 0 M) (con_back n 0) s" and M: "currentMark s = M" and f: "n \<le> f"
  shows "\<exists>s'. new_edit al (Suc (Suc f)) 0 PREFERRED s = Inr (Suc n, s') \<and>
    chain_state n 2 (var_fwd n n (M + 1)) (con_fwd n n) s' \<and> currentMark s' = M + 1"
proof -
  have v: "\<And>j. j \<le> n \<Longrightarrow> v_constraints (vars s ! j) = links n 1 j \<and> var_back 0 M j (vars s ! j)"
    and c: "\<And>c. c \<le> n \<Longrightarrow> cons s ! c = con_back n 0 c" and len: "length (vars s) = Suc n" "length (cons s) = Suc n"
    using st by (auto simp: chain_state_def)
  let ?x = "EditConstraint PREFERRED 0 False"
  define s0 where "s0 = s\<lparr>cons := cons s @ [?x]\<rparr>"
  have s0: "vars s0 = vars s" "currentMark s0 = M" "length (cons s0) = Suc (Suc n)" using len M by (simp_all add: s0_def)
  have c0: "cons s0 ! j = (if j < Suc n then cons s ! j else if j = Suc n then ?x else cons s0 ! j)" for j
    using len by (auto simp: s0_def nth_append)
  have c0n: "cons s0 ! Suc n = ?x" using c0 [of "Suc n"] by simp
  obtain s1 where s1: "addToGraph (Suc n) s0 = s1" "cons s1 = cons s0" "length (vars s1) = Suc n" "currentMark s1 = M"
    and v1: "\<And>j. vars s1 ! j = (if j = 0 then (vars s ! j)\<lparr>v_constraints := v_constraints (vars s ! j) @ [Suc n]\<rparr> else vars s ! j)"
    using addToGraph_unary [of s0 "Suc n" ?x 0] c0n s0 len by auto
  let ?s = "s1\<lparr>currentMark := M + 1\<rparr>"
  have v10: "v_mark (vars s1 ! 0) = M" "v_walkStrength (vars s1 ! 0) = STRONG_DEFAULT" "v_determinedBy (vars s1 ! 0) = Some 0"
    "v_constraints (vars s1 ! 0) = [0, Suc n]"
    using v [of 0] by (auto simp: v1 var_back_def links_def)
  have "\<exists>s'. satisfy al (incrementalRemove (Suc (Suc f)) al) (Suc (Suc f)) (Suc n) (M + 1) ?s = Inr (Some 0, s') \<and>
      length (vars s') = length (vars ?s) \<and> length (cons s') = length (cons ?s) \<and> currentMark s' = currentMark ?s \<and>
      (\<forall>j. vars s' ! j = (if j = 0 then (vars ?s ! j)\<lparr>v_determinedBy := Some (Suc n), v_mark := M + 1,
         v_walkStrength := PREFERRED, v_stay := \<not> isInput ?x\<rparr> else vars ?s ! j)) \<and>
      (\<forall>j. cons s' ! j = (if j = Suc n then set_satisfied True ?x else if Some 0 = Some j then unsat (cons ?s ! j) else cons ?s ! j))"
    by (rule satisfy_unary) (use s1 s0 c0n v10 len in \<open>auto simp: unary_choose_def stronger_def\<close>)
  then obtain s' where s': "satisfy al (incrementalRemove (Suc (Suc f)) al) (Suc (Suc f)) (Suc n) (M + 1) ?s = Inr (Some 0, s')"
    "length (vars s') = Suc n" "length (cons s') = Suc (Suc n)" "currentMark s' = M + 1"
    and vs: "\<And>j. vars s' ! j = (if j = 0 then (vars s1 ! j)\<lparr>v_determinedBy := Some (Suc n), v_mark := M + 1,
         v_walkStrength := PREFERRED, v_stay := False\<rparr> else vars s1 ! j)"
    and cs: "\<And>j. cons s' ! j = (if j = Suc n then EditConstraint PREFERRED 0 True
       else if 0 = j then unsat (cons s0 ! j) else cons s0 ! j)"
    using s1 s0 by auto
  have "chain_state n 2 (var_fwd n 0 (M + 1)) (con_fwd n 0) s'"
    unfolding chain_state_def
  proof (intro conjI allI impI)
    fix j assume j: "j \<le> n"
    show "v_constraints (vars s' ! j) = links n 2 j" using v [OF j] by (auto simp: vs v1 links_def)
    show "var_fwd n 0 (M + 1) j (vars s' ! j)" using v [OF j] by (auto simp: vs v1 var_back_def var_fwd_def)
  next
    fix j assume "j < n + 2"
    then show "cons s' ! j = con_fwd n 0 j" using c [of j] c0 [of j]
      by (auto simp: cs con_back_def con_fwd_def unsat_def less_Suc_eq split: if_splits)
  qed (use s' in simp_all)
  from fwd_all [OF this, of "Suc (Suc f)" al "incrementalRemove (Suc (Suc f)) al" f] f obtain s2 where
    "satisfy_all al (incrementalRemove (Suc (Suc f)) al) (Suc (Suc f)) (Suc (Suc f)) (Some 0) (M + 1) s' = Inr s2"
    "chain_state n 2 (var_fwd n n (M + 1)) (con_fwd n n) s2" "currentMark s2 = M + 1"
    using s'(4) by auto
  moreover have "new_edit al (Suc (Suc f)) 0 PREFERRED s =
      rbind (satisfy_all al (incrementalRemove (Suc (Suc f)) al) (Suc (Suc f)) (Suc (Suc f)) (Some 0) (M + 1) s') (\<lambda>s'. ok (Suc n, s'))"
    using s'(1) s1 len
    by (simp add: new_edit_def new_constraint_def addConstraint_def incrementalAdd_def incrementalAdd_with_def
        newMark_def s0_def del: satisfy_all.simps)
  ultimately show ?thesis by auto
qed

section \<open>The plan\<close>

definition var_plan :: "nat \<Rightarrow> nat \<Rightarrow> int \<Rightarrow> nat \<Rightarrow> variable \<Rightarrow> bool" where
  "var_plan n m M j v \<longleftrightarrow> v_determinedBy v = Some (if j = 0 then Suc n else j - 1) \<and>
     (if j \<le> m then v_mark v = M else v_mark v < M)"

lemma plan_step:
  assumes st: "\<And>j. j \<le> n \<Longrightarrow> v_constraints (vars s ! j) = links n 2 j \<and> v_determinedBy (vars s ! j) = Some (if j = 0 then Suc n else j - 1)"
    and c: "\<And>c. c < n + 2 \<Longrightarrow> cons s ! c = con_fwd n n c" and m: "m \<le> n"
  shows "addConstraintsConsumingTo m [] s = (if m < n then [m] else [])"
  using st [OF m] c [of m] c [of n] m by (auto simp: consuming_filter links_def con_fwd_def)

lemma plan_all:
  "chain_state n 2 (var_plan n m M) (con_fwd n n) s \<Longrightarrow> m \<le> n \<Longrightarrow> n - m < k \<Longrightarrow>
   \<exists>s'. make_plan_loop k M plan (if m < n then [m] else []) s = Inr (plan @ [m..<n], s') \<and>
     chain_state n 2 (var_plan n n M) (con_fwd n n) s'"
proof (induction "n - m" arbitrary: k m s plan)
  case 0
  then show ?case by (cases k) auto
next
  case (Suc d)
  then have m: "m < n" by simp
  obtain k' where k: "k = Suc k'" "n - Suc m < k'" using Suc.prems m by (cases k) auto
  have v: "\<And>j. j \<le> n \<Longrightarrow> v_constraints (vars s ! j) = links n 2 j \<and> var_plan n m M j (vars s ! j)"
    and c: "\<And>c. c < n + 2 \<Longrightarrow> cons s ! c = con_fwd n n c" and len: "length (vars s) = Suc n" "length (cons s) = n + 2"
    using Suc.prems(1) by (auto simp: chain_state_def)
  let ?s = "set_mark (Suc m) M s"
  have cm: "cons s ! m = EqualityConstraint REQUIRED m (Suc m) FORWARD" using c [of m] m by (simp add: con_fwd_def)
  have d: "d = n - Suc m" using Suc.hyps(2) by simp
  have st: "chain_state n 2 (var_plan n (Suc m) M) (con_fwd n n) ?s"
    using Suc.prems(1) m by (auto simp: chain_state_def updates var_plan_def le_Suc_eq)
  have nxt: "addConstraintsConsumingTo (Suc m) [] ?s = (if Suc m < n then [Suc m] else [])"
    by (rule plan_step) (use st m in \<open>auto simp: chain_state_def var_plan_def\<close>)
  have "v_mark (vars s ! Suc m) \<noteq> M" "v_mark (vars s ! m) = M"
    using v [of "Suc m"] v [of m] m by (auto simp: var_plan_def)
  then have "make_plan_loop k M plan (if m < n then [m] else []) s =
      make_plan_loop k' M (plan @ [m]) (if Suc m < n then [Suc m] else []) ?s"
    using cm m nxt by (simp add: k removeFirst_def inputsKnown_def coll_add_def)
  moreover have "[m..<n] = m # [Suc m..<n]" using m by (simp add: upt_conv_Cons)
  moreover obtain s' where "make_plan_loop k' M (plan @ [m]) (if Suc m < n then [Suc m] else []) ?s =
      Inr ((plan @ [m]) @ [Suc m..<n], s')" "chain_state n 2 (var_plan n n M) (con_fwd n n) s'"
    using Suc.hyps(1) [OF d st _ k(2), of "plan @ [m]"] m by auto
  ultimately show ?case by simp
qed

lemma plan_made:
  assumes st: "chain_state n 2 (var_fwd n n M) (con_fwd n n) s" and M: "currentMark s = M" and f: "n \<le> f"
  shows "\<exists>s'. extractPlanFromConstraints (Suc (Suc f)) [Suc n] s = Inr (Suc n # [0..<n], s') \<and>
    chain_state n 2 (var_plan n n (M + 1)) (con_fwd n n) s'"
proof -
  have v: "\<And>j. j \<le> n \<Longrightarrow> v_constraints (vars s ! j) = links n 2 j \<and> var_fwd n n M j (vars s ! j)"
    and c: "\<And>c. c < n + 2 \<Longrightarrow> cons s ! c = con_fwd n n c" and len: "length (vars s) = Suc n" "length (cons s) = n + 2"
    using st by (auto simp: chain_state_def)
  have cn: "cons s ! Suc n = EditConstraint PREFERRED 0 True" using c [of "Suc n"] by (simp add: con_fwd_def)
  let ?s = "set_mark 0 (M + 1) (s\<lparr>currentMark := M + 1\<rparr>)"
  have st1: "chain_state n 2 (var_plan n 0 (M + 1)) (con_fwd n n) ?s"
    using st by (auto simp: chain_state_def updates var_plan_def var_fwd_def)
  have nxt: "addConstraintsConsumingTo 0 [] ?s = (if 0 < n then [0] else [])"
    by (rule plan_step) (use st1 in \<open>auto simp: chain_state_def var_plan_def\<close>)
  have "v_mark (vars s ! 0) = M" using v [of 0] by (simp add: var_fwd_def)
  then have "extractPlanFromConstraints (Suc (Suc f)) [Suc n] s =
      make_plan_loop (Suc f) (M + 1) [Suc n] (if 0 < n then [0] else []) ?s"
    using cn M nxt by (simp add: extractPlanFromConstraints_def makePlan_def newMark_def coll_add_def removeFirst_def
        inputsKnown_def Let_def)
  with plan_all [OF st1, of "Suc f" "[Suc n]"] f show ?thesis by auto
qed

section \<open>Running the plan\<close>

lemma exec_links:
  assumes "\<And>c. c < n \<Longrightarrow> cons s ! c = con_fwd n n c" "length (vars s) = Suc n" "m \<le> n"
  shows "cons (foldl (\<lambda>s c. execute c s) s [0..<m]) = cons s \<and> length (vars (foldl (\<lambda>s c. execute c s) s [0..<m])) = Suc n \<and>
    (\<forall>j \<le> m. v_value (vars (foldl (\<lambda>s c. execute c s) s [0..<m]) ! j) = v_value (vars s ! 0))"
  using assms(3)
proof (induction m)
  case (Suc m)
  let ?t = "foldl (\<lambda>s c. execute c s) s [0..<m]"
  have IH: "cons ?t = cons s" "length (vars ?t) = Suc n" "\<And>j. j \<le> m \<Longrightarrow> v_value (vars ?t ! j) = v_value (vars s ! 0)"
    using Suc by auto
  have "cons ?t ! m = EqualityConstraint REQUIRED m (Suc m) FORWARD"
    using IH(1) assms(1) [of m] Suc.prems by (simp add: con_fwd_def)
  then have "execute m ?t = set_value (Suc m) (v_value (vars ?t ! m)) ?t" by (simp add: execute_def)
  then show ?case using IH Suc.prems by (auto simp: updates)
qed (use assms in auto)

lemma num_eq_refl: "num_eq (num_of i) (num_of i)"
  by (simp add: num_of_def)

lemma run_all:
  assumes "\<And>c. c < n + 2 \<Longrightarrow> cons s ! c = con_fwd n n c" "length (vars s) = Suc n"
  shows "\<exists>s'. chain_run al k i (Suc n # [0..<n]) 0 n s = Inr s' \<and> length (vars s') = Suc n \<and> cons s' = cons s \<and>
    (k > 0 \<longrightarrow> (\<forall>j \<le> n. v_value (vars s' ! j) = num_of (int (i + k - 1))))"
  using assms
proof (induction k arbitrary: i s)
  case (Suc k)
  let ?s = "set_value 0 (num_of (int i)) s"
  let ?t = "plan_execute (Suc n # [0..<n]) ?s"
  have "execute (Suc n) ?s = ?s" using Suc.prems by (simp add: execute_def con_fwd_def updates)
  then have t: "?t = foldl (\<lambda>s c. execute c s) ?s [0..<n]" by (simp add: plan_execute_def)
  have T: "cons ?t = cons s" "length (vars ?t) = Suc n" "\<And>j. j \<le> n \<Longrightarrow> v_value (vars ?t ! j) = num_of (int i)"
    unfolding t using exec_links [of n ?s n] Suc.prems by (simp_all add: updates)
  obtain s' where "chain_run al k (Suc i) (Suc n # [0..<n]) 0 n ?t = Inr s'" "length (vars s') = Suc n" "cons s' = cons ?t"
    "k > 0 \<longrightarrow> (\<forall>j \<le> n. v_value (vars s' ! j) = num_of (int (Suc i + k - 1)))"
    using Suc.IH [of ?t "Suc i"] T Suc.prems by auto
  then show ?case using T by (cases k) (auto simp: num_eq_refl)
qed auto

section \<open>Properties\<close>

text \<open>C3: for a chain of any length, \<open>chainTest\<close> returns with fuel \<open>n + 2\<close> for every loop, whatever
  \<open>alert\<close> does (so \<open>alert\<close> is never called, even one that throws), and every variable of the chain ends with the last
  value written to the first one.\<close>

theorem chainTest_total:
  assumes "n + 2 \<le> f"
  shows "\<exists>s. chainTest al f n = Inr s \<and> length (vars s) = n + 1 \<and> (\<forall>j \<le> n. v_value (vars s ! j) = num_of 99)"
proof -
  obtain g where f: "f = Suc (Suc g)" "n \<le> g" using assms by (metis add_2_eq_Suc' le_Suc_ex add_Suc le_add1)
  obtain s1 where s1: "chain_build al f (Suc n) n 0 (None, None, None) Planner = Inr ((Some n, Some 0, Some n), s1)"
    "chain_state n 0 (var_back (Suc n) (int n + 1)) (con_back n (Suc n)) s1" "currentMark s1 = int n"
    using build_chain [of al g n] f by auto
  obtain c s2 where s2: "new_stay al f n STRONG_DEFAULT s1 = Inr (c, s2)"
    "chain_state n 1 (var_back 0 (int n + 1)) (con_back n 0) s2" "currentMark s2 = int n + 1"
    using stay_add [OF s1(2,3) f(2), of al] f by auto
  obtain s3 where s3: "new_edit al f 0 PREFERRED s2 = Inr (Suc n, s3)"
    "chain_state n 2 (var_fwd n n (int n + 1 + 1)) (con_fwd n n) s3" "currentMark s3 = int n + 1 + 1"
    using edit_add [OF s2(2,3) f(2), of al] f by auto
  obtain s4 where s4: "extractPlanFromConstraints f [Suc n] s3 = Inr (Suc n # [0..<n], s4)"
    "chain_state n 2 (var_plan n n (int n + 1 + 1 + 1)) (con_fwd n n) s4"
    using plan_made [OF s3(2,3) f(2)] f by auto
  obtain s5 where s5: "chain_run al 100 0 (Suc n # [0..<n]) 0 n s4 = Inr s5" "length (vars s5) = Suc n"
    "\<forall>j \<le> n. v_value (vars s5 ! j) = num_of 99"
    using run_all [of n s4 al 100 0] s4(2) by (auto simp: chain_state_def)
  have "chainTest al f n = Inr s5"
    using s1(1) s2(1) s3(1) s4(1) s5(1) by (simp add: chainTest_def del: chain_build.simps chain_run.simps)
  then show ?thesis using s5 by auto
qed

theorem chainTest_total_witness: "\<exists>s. chainTest (\<lambda>m. throw (Thrown m)) 102 100 = Inr s \<and>
    length (vars s) = 101 \<and> (\<forall>j \<le> 100. v_value (vars s ! j) = num_of 99)"
  using chainTest_total [of 100 102 "\<lambda>m. throw (Thrown m)"] by simp

text \<open>the loop of \<open>OrderedCollection.remove\<close> that compacts the array in place and pops the rest
  deletes exactly the occurrences of the element and keeps the others in order.\<close>

theorem coll_remove_filter: "coll_remove elm c = filter (\<lambda>x. x \<noteq> elm) c"
proof -
  obtain k c' where "remove_loop (length c) elm 0 0 0 c = (k, c')" "length c' = length c"
    "take (length c - k) c' = filter (\<lambda>x. x \<noteq> elm) c"
    using remove_loop_ok [of 0 "length c" c 0 0 elm] by auto
  then show ?thesis by (simp add: coll_remove_def butlast_pow)
qed

text \<open>the direction that a binary constraint chooses does not depend on the marks of its variables, nor on
  the mark and the direction before: the last \<open>if\<close> of \<open>chooseMethod\<close> overwrites what the two tests of the
  marks assigned.\<close>

theorem binary_choose_ignores_marks:
  "binary_choose (x1\<lparr>v_mark := m1\<rparr>) (x2\<lparr>v_mark := m2\<rparr>) st mark' d' = binary_choose x1 x2 st mark d"
  by (simp add: binary_choose_def)

text \<open>Retracting a constraint retries the unsatisfied constraints of strength \<open>REQUIRED\<close> only, in the
  order in which they were collected: \<open>nextWeaker\<close> of \<open>REQUIRED\<close> is already \<open>WEAKEST\<close>, so the loop
  over the strengths ends after its first round.\<close>

theorem incrementalRemove_required_only:
  "incrementalRemove (Suc (Suc n)) al c s =
     rbind (removePropagateFrom (Suc n) (c_output (cons s ! c)) (removeFromGraph c (markUnsatisfied c s))) (\<lambda>(unsatisfied, s').
       retry_each (incrementalAdd_with al (incrementalRemove (Suc n) al) (Suc n)) REQUIRED unsatisfied s')"
proof -
  have "retry add (Suc n) REQUIRED us t = retry_each add REQUIRED us t" for add us t
    by (cases "retry_each add REQUIRED us t") (simp_all add: nextWeaker_def REQUIRED_def)
  then show ?thesis by (simp add: Let_def)
qed
end
