(* ===== verification/Benchmark_Suites.thy ===== *)
theory Benchmark_Suites
  imports Js_Number
begin

text \<open>
  The framework of \<open>v8/base.js\<close> that runs suites of benchmarks. A benchmark is a triple of
  functions on the state \<open>'w\<close> of the program under test; each may throw, and its effects on the
  state up to then remain. The calls to the runner are recorded as a list of events, and which of the
  optional methods the runner has is a record of flags. The clock, \<open>Math.log\<close> and \<open>Math.pow\<close> (whose results
  ECMA-262 leaves to the implementation) are a record of parameters. Loops that the source leaves open-ended
  are partial functions: \<open>None\<close> is a call that does not return.
\<close>

section \<open>Benchmarks, suites and the runner\<close>

type_synonym 'w action = "'w \<Rightarrow> 'w \<times> unit res"

record 'w benchmark =
  b_name :: string
  b_run :: "'w action"
  b_Setup :: "'w action"
  b_TearDown :: "'w action"

definition or_nop :: "'w action option \<Rightarrow> 'w action" where
  "or_nop f = (case f of None \<Rightarrow> (\<lambda>w. (w, ok ())) | Some g \<Rightarrow> g)"

definition Benchmark :: "string \<Rightarrow> 'w action \<Rightarrow> 'w action option \<Rightarrow> 'w action option \<Rightarrow> 'w benchmark" where
  "Benchmark name run setup tearDown =
    \<lparr>b_name = name, b_run = run, b_Setup = or_nop setup, b_TearDown = or_nop tearDown\<rparr>"

record 'w result =
  r_benchmark :: "'w benchmark"
  r_time :: jsnum

definition BenchmarkResult :: "'w benchmark \<Rightarrow> jsnum \<Rightarrow> 'w result" where
  "BenchmarkResult b t = \<lparr>r_benchmark = b, r_time = t\<rparr>"

definition result_valueOf :: "'w result \<Rightarrow> jsnum" where
  "result_valueOf r = r_time r"

record 'w suite =
  s_name :: string
  s_reference :: jsnum
  s_benchmarks :: "'w benchmark list"

text \<open>The constructor pushes the suite to \<open>BenchmarkSuite.suites\<close>.\<close>

definition suites0 :: "'w suite list" where
  "suites0 = []"

definition BenchmarkSuite :: "string \<Rightarrow> jsnum \<Rightarrow> 'w benchmark list \<Rightarrow> 'w suite list \<Rightarrow> 'w suite list" where
  "BenchmarkSuite name reference benchmarks suites =
    suites @ [\<lparr>s_name = name, s_reference = reference, s_benchmarks = benchmarks\<rparr>]"

definition CountBenchmarks :: "'w suite list \<Rightarrow> nat" where
  "CountBenchmarks suites = foldl (\<lambda>result s. result + length (s_benchmarks s)) 0 suites"

datatype event =
    NotifyStart string
  | NotifyStep string
  | NotifyResult string string
  | NotifyError string js_error
  | NotifyScore string

record runner =
  has_start :: bool
  has_step :: bool
  has_result :: bool
  has_error :: bool
  has_score :: bool

record 'w host =
  clock :: "'w \<Rightarrow> rat"
  Math_log :: "jsnum \<Rightarrow> jsnum"
  Math_pow :: "jsnum \<Rightarrow> jsnum \<Rightarrow> jsnum"
  Math_E :: jsnum
  big_string :: "rat \<Rightarrow> string"

text \<open>\<open>new Date()\<close> as a number: whole milliseconds.\<close>

definition Date :: "'w host \<Rightarrow> 'w \<Rightarrow> int" where
  "Date h w = \<lfloor>clock h w\<rfloor>"

section \<open>Scores\<close>

definition GeometricMean :: "'w host \<Rightarrow> jsnum list \<Rightarrow> jsnum" where
  "GeometricMean h numbers =
    (let log = foldl (\<lambda>log x. num_add log (Math_log h x)) (num_of 0) numbers
     in Math_pow h (Math_E h) (num_div log (num_of (int (length numbers)))))"

text \<open>
  \<open>toFixed(0)\<close> and \<open>toPrecision(3)\<close> as ECMA-262 defines them: the nearest integer, the larger one of two, and
  the nearest number with three digits. From \<open>10\<^sup>2\<^sup>1\<close> on the result is that of \<open>ToString\<close>, here \<open>big_string\<close>.
\<close>

definition nonfinite_string :: "jsnum \<Rightarrow> string" where
  "nonfinite_string x =
    (case x of NaN \<Rightarrow> ''NaN'' | Infinity True \<Rightarrow> ''-Infinity'' | Infinity False \<Rightarrow> ''Infinity'' | _ \<Rightarrow> '''')"

definition finite_num :: "jsnum \<Rightarrow> bool" where
  "finite_num x = (case x of NaN \<Rightarrow> False | Infinity b \<Rightarrow> False | _ \<Rightarrow> True)"

definition signed_string :: "(rat \<Rightarrow> string) \<Rightarrow> rat \<Rightarrow> string" where
  "signed_string f r = (if r < 0 then ''-'' @ f (- r) else f r)"

definition toFixed0 :: "'w host \<Rightarrow> jsnum \<Rightarrow> string" where
  "toFixed0 h x =
    (if finite_num x then
       signed_string (\<lambda>r. if r < 10 ^ 21 then show_int \<lfloor>r + 1 / 2\<rfloor> else big_string h r) (num_rat x)
     else nonfinite_string x)"

definition dec_exponent :: "rat \<Rightarrow> int" where
  "dec_exponent r =
    (if r \<ge> 1 then int (length (show_nat (nat \<lfloor>r\<rfloor>))) - 1
     else - int (length (show_nat (nat (\<lceil>1 / r\<rceil> - 1)))))"

definition ten_to :: "int \<Rightarrow> rat" where
  "ten_to e = (if e \<ge> 0 then 10 ^ nat e else 1 / 10 ^ nat (- e))"

text \<open>The three digits and the exponent of a positive number.\<close>

definition digits3 :: "rat \<Rightarrow> int \<times> int" where
  "digits3 r =
    (let e = dec_exponent r; n = \<lfloor>r / ten_to (e - 2) + 1 / 2\<rfloor>
     in if n \<ge> 1000 then (100, e + 1) else (n, e))"

definition place_digits :: "string \<Rightarrow> int \<Rightarrow> string" where
  "place_digits m e =
    (if e < - 6 \<or> e \<ge> 3 then
       take 1 m @ ''.'' @ drop 1 m @ ''e'' @ (if e > 0 then ''+'' @ show_int e else show_int e)
     else if e = 2 then m
     else if e \<ge> 0 then take (nat (e + 1)) m @ ''.'' @ drop (nat (e + 1)) m
     else ''0.'' @ replicate (nat (- (e + 1))) (CHR ''0'') @ m)"

definition toPrecision3 :: "jsnum \<Rightarrow> string" where
  "toPrecision3 x =
    (if finite_num x then
       signed_string (\<lambda>r. if r = 0 then ''0.00''
                          else (let (n, e) = digits3 r in place_digits (show_int n) e)) (num_rat x)
     else nonfinite_string x)"

definition FormatScore :: "'w host \<Rightarrow> jsnum \<Rightarrow> string" where
  "FormatScore h v = (if num_less (num_of 100) v then toFixed0 h v else toPrecision3 v)"

section \<open>Running one suite\<close>

text \<open>The state: the program under test, \<open>BenchmarkSuite.scores\<close>, \<open>this.results\<close> of the suite that runs, and
  the calls to the runner so far.\<close>

record 'w env =
  world :: 'w
  scores :: "jsnum list"
  results :: "'w result list"
  events :: "event list"

definition emit :: "bool \<Rightarrow> event \<Rightarrow> 'w env \<Rightarrow> 'w env" where
  "emit b e s = (if b then s\<lparr>events := events s @ [e]\<rparr> else s)"

definition suite_NotifyStep :: "runner \<Rightarrow> 'w result \<Rightarrow> 'w env \<Rightarrow> 'w env" where
  "suite_NotifyStep r res s =
    (let s = s\<lparr>results := results s @ [res]\<rparr> in emit (has_step r) (NotifyStep (b_name (r_benchmark res))) s)"

definition suite_NotifyResult :: "'w host \<Rightarrow> runner \<Rightarrow> 'w suite \<Rightarrow> 'w env \<Rightarrow> 'w env" where
  "suite_NotifyResult h r u s =
    (let mean = GeometricMean h (List.map result_valueOf (results s)); score = num_div (s_reference u) mean;
         s = s\<lparr>scores := scores s @ [score]\<rparr>
     in emit (has_result r) (NotifyResult (s_name u) (FormatScore h (num_mul (num_of 100) score))) s)"

definition suite_NotifyError :: "runner \<Rightarrow> 'w suite \<Rightarrow> js_error \<Rightarrow> 'w env \<Rightarrow> 'w env" where
  "suite_NotifyError r u e s =
    (let s = emit (has_error r) (NotifyError (s_name u) e) s in emit (has_step r) (NotifyStep (s_name u)) s)"

text \<open>The loop of \<open>Measure\<close>: \<open>n\<close> rounds so far. The result is the number of rounds and the elapsed time.\<close>

partial_function (option) measure_loop ::
  "'w host \<Rightarrow> 'w action \<Rightarrow> int \<Rightarrow> nat \<Rightarrow> int \<Rightarrow> 'w \<Rightarrow> ('w \<times> (nat \<times> int) res) option" where
  "measure_loop h run start n elapsed w =
    (if elapsed < 1000 then
       (case run w of
          (w', Inl e) \<Rightarrow> Some (w', Inl e)
        | (w', Inr u) \<Rightarrow> measure_loop h run start (Suc n) (Date h w' - start) w')
     else Some (w, Inr (n, elapsed)))"

type_synonym data = "(nat \<times> int) option"

definition Measure :: "'w host \<Rightarrow> 'w action \<Rightarrow> data \<Rightarrow> 'w \<Rightarrow> ('w \<times> data res) option" where
  "Measure h run data w =
    Option.bind (measure_loop h run (Date h w) 0 0 w) (\<lambda>(w, m).
      Some (w, rbind m (\<lambda>(n, elapsed). ok (map_option (\<lambda>(runs, el). (runs + n, el + elapsed)) data))))"

definition RunSingleBenchmark ::
  "'w host \<Rightarrow> runner \<Rightarrow> 'w benchmark \<Rightarrow> data \<Rightarrow> 'w env \<Rightarrow> ('w env \<times> data res) option" where
  "RunSingleBenchmark h r b data s =
    Option.bind (Measure h (b_run b) data (world s)) (\<lambda>(w, m).
      let s = s\<lparr>world := w\<rparr>
      in Some (case m of
          Inl e \<Rightarrow> (s, Inl e)
        | Inr None \<Rightarrow> (s, ok (Some (0, 0)))
        | Inr (Some (runs, elapsed)) \<Rightarrow>
            if runs < 32 then (s, ok (Some (runs, elapsed)))
            else (let usec = num_div (num_of (elapsed * 1000)) (num_of (int runs))
                  in (suite_NotifyStep r (BenchmarkResult b usec) s, ok None))))"

text \<open>The three continuations of \<open>RunStep\<close> with their shared variables.\<close>

datatype entry = RunNextSetup | RunNextBenchmark | RunNextTearDown

record 'w closure =
  c_suite :: "'w suite"
  c_index :: nat
  c_data :: data

definition run_next_setup ::
  "'w host \<Rightarrow> runner \<Rightarrow> 'w closure \<Rightarrow> 'w env \<Rightarrow> 'w env \<times> (entry \<times> 'w closure) option" where
  "run_next_setup h r c s =
    (if c_index c < length (s_benchmarks (c_suite c)) then
       (case b_Setup (s_benchmarks (c_suite c) ! c_index c) (world s) of
          (w, Inl e) \<Rightarrow> (suite_NotifyError r (c_suite c) e (s\<lparr>world := w\<rparr>), None)
        | (w, Inr u) \<Rightarrow> (s\<lparr>world := w\<rparr>, Some (RunNextBenchmark, c)))
     else (suite_NotifyResult h r (c_suite c) s, None))"

partial_function (option) run_next_benchmark ::
  "'w host \<Rightarrow> runner \<Rightarrow> 'w closure \<Rightarrow> 'w env \<Rightarrow> ('w env \<times> (entry \<times> 'w closure) option) option" where
  "run_next_benchmark h r c s =
    Option.bind (RunSingleBenchmark h r (s_benchmarks (c_suite c) ! c_index c) (c_data c) s) (\<lambda>(s, d).
      (case d of
         Inl e \<Rightarrow> Some (suite_NotifyError r (c_suite c) e s, None)
       | Inr None \<Rightarrow> Some (s, Some (RunNextTearDown, c\<lparr>c_data := None\<rparr>))
       | Inr (Some x) \<Rightarrow> run_next_benchmark h r (c\<lparr>c_data := Some x\<rparr>) s))"

definition run_next_teardown ::
  "runner \<Rightarrow> 'w closure \<Rightarrow> 'w env \<Rightarrow> 'w env \<times> (entry \<times> 'w closure) option" where
  "run_next_teardown r c s =
    (let b = s_benchmarks (c_suite c) ! c_index c; c = c\<lparr>c_index := c_index c + 1\<rparr>
     in case b_TearDown b (world s) of
          (w, Inl e) \<Rightarrow> (suite_NotifyError r (c_suite c) e (s\<lparr>world := w\<rparr>), None)
        | (w, Inr u) \<Rightarrow> (s\<lparr>world := w\<rparr>, Some (RunNextSetup, c)))"

fun call_continuation ::
  "'w host \<Rightarrow> runner \<Rightarrow> entry \<times> 'w closure \<Rightarrow> 'w env \<Rightarrow> ('w env \<times> (entry \<times> 'w closure) option) option" where
  "call_continuation h r (RunNextSetup, c) s = Some (run_next_setup h r c s)"
| "call_continuation h r (RunNextBenchmark, c) s = run_next_benchmark h r c s"
| "call_continuation h r (RunNextTearDown, c) s = Some (run_next_teardown r c s)"

definition suite_RunStep ::
  "'w host \<Rightarrow> runner \<Rightarrow> 'w suite \<Rightarrow> 'w env \<Rightarrow> 'w env \<times> (entry \<times> 'w closure) option" where
  "suite_RunStep h r u s =
    run_next_setup h r \<lparr>c_suite = u, c_index = 0, c_data = None\<rparr> (s\<lparr>results := []\<rparr>)"

section \<open>Running all suites\<close>

text \<open>
  The shared variables of \<open>RunSuites\<close> are the continuation and the index. One round of the loop of the inner
  \<open>RunStep\<close>, and the loop: in a browser (\<open>window.setTimeout\<close> exists) the function returns after each round that leaves
  a continuation, \<open>Inr\<close>, and the timer calls it again; \<open>Inl\<close> is the end of the run.
\<close>

type_synonym 'w pending = "(entry \<times> 'w closure) option \<times> nat"

definition suites_round ::
  "'w host \<Rightarrow> runner \<Rightarrow> 'w suite list \<Rightarrow> 'w pending \<Rightarrow> 'w env \<Rightarrow> ('w pending \<times> 'w env) option" where
  "suites_round h r suites p s =
    (case p of
       (Some k, i) \<Rightarrow> Option.bind (call_continuation h r k s) (\<lambda>(s, k). Some ((k, i), s))
     | (None, i) \<Rightarrow>
         (let u = suites ! i; s = emit (has_start r) (NotifyStart (s_name u)) s;
              (s, k) = suite_RunStep h r u s
          in Some ((k, i + 1), s)))"

definition finish_suites :: "'w host \<Rightarrow> runner \<Rightarrow> 'w env \<Rightarrow> 'w env" where
  "finish_suites h r s =
    (if has_score r then
       (let score = GeometricMean h (scores s); formatted = FormatScore h (num_mul (num_of 100) score)
        in emit True (NotifyScore formatted) s)
     else s)"

partial_function (option) RunStep ::
  "bool \<Rightarrow> 'w host \<Rightarrow> runner \<Rightarrow> 'w suite list \<Rightarrow> 'w pending \<Rightarrow> 'w env \<Rightarrow> ('w env + 'w pending \<times> 'w env) option" where
  "RunStep browser h r suites p s =
    (if fst p \<noteq> None \<or> snd p < length suites then
       Option.bind (suites_round h r suites p s) (\<lambda>(p, s).
         if fst p \<noteq> None \<and> browser then Some (Inr (p, s)) else RunStep browser h r suites p s)
     else Some (Inl (finish_suites h r s)))"

partial_function (option) run_timer ::
  "bool \<Rightarrow> 'w host \<Rightarrow> runner \<Rightarrow> 'w suite list \<Rightarrow> 'w pending \<Rightarrow> 'w env \<Rightarrow> 'w env option" where
  "run_timer browser h r suites p s =
    Option.bind (RunStep browser h r suites p s) (\<lambda>x.
      (case x of Inl s \<Rightarrow> Some s | Inr (p, s) \<Rightarrow> run_timer browser h r suites p s))"

definition RunSuites :: "bool \<Rightarrow> 'w host \<Rightarrow> runner \<Rightarrow> 'w suite list \<Rightarrow> 'w env \<Rightarrow> 'w env option" where
  "RunSuites browser h r suites s = run_timer browser h r suites (None, 0) (s\<lparr>scores := []\<rparr>)"

end
