(* ===== verification/Benchmark_Correct.thy ===== *)
theory Benchmark_Correct
  imports Benchmark_Suites
begin

text \<open>
  Correctness of the framework of \<open>v8/base.js\<close>: yielding to the timer of a browser does not change the run; a
  run ends when every call of a benchmark takes some time, and its notifications are those of each suite in turn,
  complete or cut off at its first error; the error of three decimal digits.
\<close>

section \<open>The browser's timer\<close>

lemma bind_if: "Option.bind (if P then Some z else y) f = (if P then f z else Option.bind y f)"
  by simp

lemma run_timer_unfold:
  "run_timer b h r suites p s =
    (if fst p \<noteq> None \<or> snd p < length suites then
       Option.bind (suites_round h r suites p s) (\<lambda>(p, s). run_timer b h r suites p s)
     else Some (finish_suites h r s))"
proof (cases "fst p \<noteq> None \<or> snd p < length suites")
  case True
  have "run_timer b h r suites p s = Option.bind (RunStep b h r suites p s) (\<lambda>x.
      (case x of Inl s \<Rightarrow> Some s | Inr (p, s) \<Rightarrow> run_timer b h r suites p s))"
    by (rule run_timer.simps)
  also have "RunStep b h r suites p s = Option.bind (suites_round h r suites p s) (\<lambda>(p, s).
         if fst p \<noteq> None \<and> b then Some (Inr (p, s)) else RunStep b h r suites p s)"
    using True by (subst RunStep.simps) simp
  finally have "run_timer b h r suites p s = Option.bind (suites_round h r suites p s) (\<lambda>(p, s).
      Option.bind (if fst p \<noteq> None \<and> b then Some (Inr (p, s)) else RunStep b h r suites p s)
        (\<lambda>x. (case x of Inl s \<Rightarrow> Some s | Inr (p, s) \<Rightarrow> run_timer b h r suites p s)))"
    by (cases "suites_round h r suites p s") (auto simp: case_prod_unfold)
  moreover have "Option.bind (if fst q \<noteq> None \<and> b then Some (Inr (q, t)) else RunStep b h r suites q t)
        (\<lambda>x. (case x of Inl s \<Rightarrow> Some s | Inr (p, s) \<Rightarrow> run_timer b h r suites p s)) = run_timer b h r suites q t" for q t
    by (simp only: bind_if sum.case prod.case run_timer.simps [symmetric] if_cancel)
  ultimately show ?thesis using True by (simp only: if_True)
next
  case False
  then show ?thesis by (subst run_timer.simps, subst RunStep.simps) simp
qed

lemma RunStep_timer:
  "RunStep b h r suites p s = Some x \<Longrightarrow>
   run_timer b' h r suites p s = (case x of Inl s \<Rightarrow> Some s | Inr (p, s) \<Rightarrow> run_timer b' h r suites p s)"
proof (induction b h r suites p s x rule: RunStep.raw_induct [rotated, consumes 1, case_names step])
  case (step f b h r suites p s x)
  show ?case
  proof (cases "fst p \<noteq> None \<or> snd p < length suites")
    case True
    then obtain q t where q: "suites_round h r suites p s = Some (q, t)"
      "(if fst q \<noteq> None \<and> b then Some (Inr (q, t)) else f b h r suites q t) = Some x"
      using step(2) by (auto simp: bind_eq_Some_conv)
    have "run_timer b' h r suites q t = (case x of Inl s \<Rightarrow> Some s | Inr (p, s) \<Rightarrow> run_timer b' h r suites p s)"
      using q(2) step(1) [of b h r suites q t x] by (auto split: if_splits)
    then show ?thesis using True q(1) by (subst run_timer_unfold) simp
  next
    case False
    then show ?thesis using step(2) by (subst run_timer_unfold) auto
  qed
qed

lemma run_timer_le:
  "run_timer b h r suites p s = Some t \<Longrightarrow> run_timer b' h r suites p s = Some t"
proof (induction b h r suites p s t rule: run_timer.raw_induct [rotated, consumes 1, case_names step])
  case (step f b h r suites p s t)
  from step(2) obtain x where x: "RunStep b h r suites p s = Some x"
    "(case x of Inl s \<Rightarrow> Some s | Inr (p, s) \<Rightarrow> f b h r suites p s) = Some t" by (auto simp: bind_eq_Some_conv)
  show ?case
    using RunStep_timer [OF x(1), of b'] x(2) step(1) by (auto split: sum.splits prod.splits)
qed

text \<open>running the suites in the slices of a browser's timer or in one go gives the same final state, and one
  returns exactly when the other does.\<close>

theorem RunSuites_browser: "RunSuites True h r suites s = RunSuites False h r suites s"
  unfolding RunSuites_def by (metis not_Some_eq run_timer_le)

section \<open>Loops that end\<close>

lemma measure_loop_total:
  assumes prog: "\<And>w. clock h (fst (run w)) \<ge> clock h w + d" and d: "d > 0"
  shows "el = Date h w - start \<Longrightarrow> \<exists>w' m. measure_loop h run start n el w = Some (w', m) \<and>
    (case m of Inl e \<Rightarrow> \<exists>w. snd (run w) = Inl e
     | Inr (n', el') \<Rightarrow> n \<le> n' \<and> (el < 1000 \<longrightarrow> n < n') \<and> 1000 \<le> el')"
proof (induction "nat \<lceil>(of_int (start + 1000) - clock h w) / d\<rceil>" arbitrary: n el w rule: less_induct)
  case less
  show ?case
  proof (cases "el < 1000")
    case False
    then show ?thesis by (subst measure_loop.simps) simp
  next
    case True
    obtain w1 m where run: "run w = (w1, m)" by (cases "run w")
    show ?thesis
    proof (cases m)
      case (Inl e)
      then show ?thesis using True run by (subst measure_loop.simps) (auto intro!: exI [of _ w])
    next
      case (Inr u)
      let ?x = "(of_int (start + 1000) - clock h w) / d" and ?y = "(of_int (start + 1000) - clock h w1) / d"
      have "clock h w < of_int (start + 1000)" 
      proof -
        have "\<lfloor>clock h w\<rfloor> < start + 1000" using True less.prems by (simp add: Date_def)
        then show ?thesis by (simp only: floor_less_iff)
      qed
      then have "?x > 0" using d by (simp add: field_simps)
      have "?y \<le> (of_int (start + 1000) - (clock h w + d)) / d"
        using prog [of w] run d by (intro divide_right_mono) auto
      also have "\<dots> = ?x - 1" using d by (simp add: field_simps)
      finally have "\<lceil>?y\<rceil> \<le> \<lceil>?x\<rceil> - 1" by (metis ceiling_diff_one ceiling_mono)
      moreover have "\<lceil>?x\<rceil> > 0" using \<open>?x > 0\<close> by simp
      ultimately have "nat \<lceil>?y\<rceil> < nat \<lceil>?x\<rceil>" by linarith
      from less.hyps [OF this refl, of "Suc n"] obtain w' m' where
        "measure_loop h run start (Suc n) (Date h w1 - start) w1 = Some (w', m')"
        "case m' of Inl e \<Rightarrow> \<exists>w. snd (run w) = Inl e
         | Inr (n', el') \<Rightarrow> Suc n \<le> n' \<and> (Date h w1 - start < 1000 \<longrightarrow> Suc n < n') \<and> 1000 \<le> el'" by blast
      then show ?thesis using True run Inr by (subst measure_loop.simps) (auto split: sum.splits)
    qed
  qed
qed

lemma Measure_total:
  assumes prog: "\<And>w. clock h (fst (run w)) \<ge> clock h w + d" and d: "d > 0"
  shows "\<exists>w' m. Measure h run data w = Some (w', m) \<and>
    (case m of Inl e \<Rightarrow> \<exists>w. snd (run w) = Inl e
     | Inr data' \<Rightarrow> (case data of None \<Rightarrow> data' = None | Some (runs, el) \<Rightarrow> \<exists>n' el'. data' = Some (n', el') \<and> runs < n'))"
  using measure_loop_total [OF assms, of 0 w "Date h w" 0]
  by (fastforce simp: Measure_def split: sum.splits option.splits)

section \<open>What the runner sees\<close>

fun wanted :: "runner \<Rightarrow> event \<Rightarrow> bool" where
  "wanted r (NotifyStart n) = has_start r"
| "wanted r (NotifyStep n) = has_step r"
| "wanted r (NotifyResult n x) = has_result r"
| "wanted r (NotifyError n e) = has_error r"
| "wanted r (NotifyScore x) = has_score r"

definition throws :: "'w benchmark \<Rightarrow> js_error \<Rightarrow> bool" where
  "throws b e \<longleftrightarrow> (\<exists>w. snd (b_run b w) = Inl e \<or> snd (b_Setup b w) = Inl e \<or> snd (b_TearDown b w) = Inl e)"

definition steps :: "'w benchmark list \<Rightarrow> event list" where
  "steps bs = List.map (\<lambda>b. NotifyStep (b_name b)) bs"

definition suite_trace :: "'w suite \<Rightarrow> event list \<Rightarrow> bool" where
  "suite_trace u t \<longleftrightarrow>
    (\<exists>x. t = NotifyStart (s_name u) # steps (s_benchmarks u) @ [NotifyResult (s_name u) x]) \<or>
    (\<exists>k e. k \<le> length (s_benchmarks u) \<and> (\<exists>b \<in> set (s_benchmarks u). throws b e) \<and>
       t = NotifyStart (s_name u) # steps (take k (s_benchmarks u)) @ [NotifyError (s_name u) e, NotifyStep (s_name u)])"

fun is_result :: "event \<Rightarrow> bool" where
  "is_result (NotifyResult n x) = True"
| "is_result _ = False"

definition progress :: "'w host \<Rightarrow> rat \<Rightarrow> 'w suite list \<Rightarrow> bool" where
  "progress h d suites \<longleftrightarrow> d > 0 \<and>
    (\<forall>u \<in> set suites. \<forall>b \<in> set (s_benchmarks u). \<forall>w. clock h (fst (b_run b w)) \<ge> clock h w + d)"

lemma emit_events: "emit b e s = s\<lparr>events := events s @ (if b then [e] else [])\<rparr>"
  by (simp add: emit_def)

lemmas notify_defs = suite_NotifyStep_def suite_NotifyResult_def suite_NotifyError_def emit_events Let_def

text \<open>The measurements of one benchmark: at most 32 rounds after the first, since each adds a run.\<close>

lemma run_next_benchmark_total:
  assumes "c_index c < length (s_benchmarks (c_suite c))" and b: "b = s_benchmarks (c_suite c) ! c_index c"
    and prog: "\<And>w. clock h (fst (b_run b w)) \<ge> clock h w + d" and d: "d > 0"
  shows "\<exists>s' k. run_next_benchmark h r (c\<lparr>c_data := dt\<rparr>) s = Some (s', k) \<and> scores s' = scores s \<and>
    (k = Some (RunNextTearDown, c\<lparr>c_data := None\<rparr>) \<and> events s' = events s @ filter (wanted r) [NotifyStep (b_name b)] \<or>
     (\<exists>e. k = None \<and> throws b e \<and> events s' = events s @
        filter (wanted r) [NotifyError (s_name (c_suite c)) e, NotifyStep (s_name (c_suite c))]))"
proof (induction "case dt of None \<Rightarrow> 33 | Some (runs, el) \<Rightarrow> 32 - runs" arbitrary: dt s rule: less_induct)
  case less
  obtain w m where m: "Measure h (b_run b) dt (world s) = Some (w, m)"
    "case m of Inl e \<Rightarrow> \<exists>w. snd (b_run b w) = Inl e
     | Inr data' \<Rightarrow> (case dt of None \<Rightarrow> data' = None | Some (runs, el) \<Rightarrow> \<exists>n' el'. data' = Some (n', el') \<and> runs < n')"
    using Measure_total [OF prog d] by blast
  let ?s = "s\<lparr>world := w\<rparr>"
  consider e where "m = Inl e" "\<exists>w. snd (b_run b w) = Inl e" | "dt = None" "m = Inr None"
    | runs el n el' where "dt = Some (runs, el)" "m = Inr (Some (n, el'))" "runs < n"
    using m(2) by (cases m; cases dt) auto
  then show ?case
  proof cases
    case (1 e)
    then show ?thesis using m(1) b
      by (subst run_next_benchmark.simps) (auto simp: RunSingleBenchmark_def notify_defs throws_def)
  next
    case 2
    have "run_next_benchmark h r (c\<lparr>c_data := dt\<rparr>) s = run_next_benchmark h r (c\<lparr>c_data := Some (0, 0)\<rparr>) ?s"
      using m(1) b 2 by (subst run_next_benchmark.simps) (simp add: RunSingleBenchmark_def)
    then show ?thesis using less [of "Some (0, 0)" ?s] 2 by simp
  next
    case (3 runs el n el')
    show ?thesis
    proof (cases "n < 32")
      case True
      have "run_next_benchmark h r (c\<lparr>c_data := dt\<rparr>) s = run_next_benchmark h r (c\<lparr>c_data := Some (n, el')\<rparr>) ?s"
        using m(1) b 3 True by (subst run_next_benchmark.simps) (simp add: RunSingleBenchmark_def)
      then show ?thesis using less [of "Some (n, el')" ?s] 3 True by simp
    next
      case False
      then show ?thesis using m(1) b 3
        by (subst run_next_benchmark.simps) (auto simp: RunSingleBenchmark_def notify_defs BenchmarkResult_def)
    qed
  qed
qed

definition rest_trace :: "'w suite \<Rightarrow> nat \<Rightarrow> event list \<Rightarrow> bool" where
  "rest_trace u j t \<longleftrightarrow>
    (\<exists>x. t = steps (drop j (s_benchmarks u)) @ [NotifyResult (s_name u) x]) \<or>
    (\<exists>k e. j \<le> k \<and> k \<le> length (s_benchmarks u) \<and> (\<exists>b \<in> set (s_benchmarks u). throws b e) \<and>
       t = steps (drop j (take k (s_benchmarks u))) @ [NotifyError (s_name u) e, NotifyStep (s_name u)])"

lemma rest_trace_fail:
  "j \<le> k \<Longrightarrow> k \<le> length (s_benchmarks u) \<Longrightarrow> b \<in> set (s_benchmarks u) \<Longrightarrow> throws b e \<Longrightarrow>
   rest_trace u j (steps (drop j (take k (s_benchmarks u))) @ [NotifyError (s_name u) e, NotifyStep (s_name u)])"
  unfolding rest_trace_def by blast

lemma rest_trace_Cons:
  assumes "rest_trace u (Suc j) t" "j < length (s_benchmarks u)"
  shows "rest_trace u j (NotifyStep (b_name (s_benchmarks u ! j)) # t)"
proof -
  have d: "drop j (s_benchmarks u) = s_benchmarks u ! j # drop (Suc j) (s_benchmarks u)"
    using assms(2) by (rule Cons_nth_drop_Suc [symmetric])
  have k: "drop j (take k (s_benchmarks u)) = s_benchmarks u ! j # drop (Suc j) (take k (s_benchmarks u))"
    if "Suc j \<le> k" for k
    using that assms(2) by (simp add: drop_take d take_Cons')
  from assms(1) show ?thesis unfolding rest_trace_def
    by (elim disjE exE conjE) (auto simp: d k steps_def intro: exI Suc_leD)
qed

abbreviation start_closure :: "'w suite \<Rightarrow> nat \<Rightarrow> 'w closure" where
  "start_closure u j \<equiv> \<lparr>c_suite = u, c_index = j, c_data = None\<rparr>"

lemma suite_loop:
  assumes prog: "progress h d suites" and u: "u \<in> set suites"
  shows "j \<le> length (s_benchmarks u) \<Longrightarrow> run_next_setup h r (start_closure u j) s = (s1, k) \<Longrightarrow>
   \<exists>s' t. run_timer br h r suites (k, i) s1 = run_timer br h r suites (None, i) s' \<and>
     events s' = events s @ filter (wanted r) t \<and> rest_trace u j t \<and>
     length (scores s') = length (scores s) + (if is_result (last t) then 1 else 0)"
proof (induction "length (s_benchmarks u) - j" arbitrary: j s s1 k)
  case 0
  then show ?case
    by (intro exI [of _ s1] exI [of _ "[NotifyResult (s_name u) (FormatScore h (num_mul (num_of 100)
          (num_div (s_reference u) (GeometricMean h (List.map result_valueOf (results s))))))]"])
      (auto simp: run_next_setup_def notify_defs rest_trace_def steps_def)
next
  case (Suc m)
  let ?b = "s_benchmarks u ! j" and ?bs = "s_benchmarks u"
  have m: "m = length ?bs - Suc j" using Suc.hyps(2) by simp
  have j: "j < length ?bs" "?b \<in> set ?bs" using Suc.hyps(2) by simp_all
  have fail: "rest_trace u j [NotifyError (s_name u) e, NotifyStep (s_name u)]" if "throws ?b e" for e
    using rest_trace_fail [of j j u, OF _ _ j(2) that] j by (simp add: steps_def)
  obtain ws ms where st: "b_Setup ?b (world s) = (ws, ms)" by (cases "b_Setup ?b (world s)")
  show ?case
  proof (cases ms)
    case (Inl e)
    then have "throws ?b e" using st by (auto simp: throws_def intro!: exI [of _ "world s"])
    then show ?thesis using Suc.prems(2) st Inl j fail
      by (intro exI [of _ s1] exI [of _ "[NotifyError (s_name u) e, NotifyStep (s_name u)]"])
        (auto simp: run_next_setup_def notify_defs)
  next
    case (Inr x)
    let ?s = "s\<lparr>world := ws\<rparr>"
    have s1: "s1 = ?s" "k = Some (RunNextBenchmark, start_closure u j)"
      using Suc.prems(2) st Inr j by (simp_all add: run_next_setup_def)
    obtain s2 k2 where r2: "run_next_benchmark h r (start_closure u j) ?s = Some (s2, k2)" "scores s2 = scores s"
      "k2 = Some (RunNextTearDown, start_closure u j) \<and> events s2 = events s @ filter (wanted r) [NotifyStep (b_name ?b)] \<or>
       (\<exists>e. k2 = None \<and> throws ?b e \<and> events s2 = events s @ filter (wanted r) [NotifyError (s_name u) e, NotifyStep (s_name u)])"
      using run_next_benchmark_total [of "start_closure u j" ?b h d r None ?s] prog u j by (auto simp: progress_def)
    have t1: "run_timer br h r suites (k, i) s1 = run_timer br h r suites (k2, i) s2"
      using r2(1) s1 by (subst run_timer_unfold) (simp add: suites_round_def)
    show ?thesis
    proof (cases k2)
      case None
      then obtain e where "throws ?b e" "events s2 = events s @ filter (wanted r) [NotifyError (s_name u) e, NotifyStep (s_name u)]"
        using r2(3) by auto
      then show ?thesis using t1 None r2(2) fail
        by (intro exI [of _ s2] exI [of _ "[NotifyError (s_name u) e, NotifyStep (s_name u)]"]) auto
    next
      case (Some k3)
      then have k2: "k2 = Some (RunNextTearDown, start_closure u j)"
        and e2: "events s2 = events s @ filter (wanted r) [NotifyStep (b_name ?b)]" using r2(3) by auto
      obtain wt mt where tear: "b_TearDown ?b (world s2) = (wt, mt)" by (cases "b_TearDown ?b (world s2)")
      obtain s3 k3 where r3: "run_next_teardown r (start_closure u j) s2 = (s3, k3)" by (cases "run_next_teardown r (start_closure u j) s2")
      have t2: "run_timer br h r suites (k2, i) s2 = run_timer br h r suites (k3, i) s3"
        using r3 k2 by (subst run_timer_unfold) (simp add: suites_round_def)
      show ?thesis
      proof (cases mt)
        case (Inl e)
        then have th: "throws ?b e" using tear by (auto simp: throws_def intro!: exI [of _ "world s2"])
        have "rest_trace u j [NotifyStep (b_name ?b), NotifyError (s_name u) e, NotifyStep (s_name u)]"
          using rest_trace_Cons [of u j "[NotifyError (s_name u) e, NotifyStep (s_name u)]"]
            rest_trace_fail [of "Suc j" "Suc j" u, OF _ _ j(2) th] j by (simp add: steps_def)
        then show ?thesis using r3 tear Inl t1 t2 e2 r2(2)
          by (intro exI [of _ s3] exI [of _ "[NotifyStep (b_name ?b), NotifyError (s_name u) e, NotifyStep (s_name u)]"])
            (auto simp: run_next_teardown_def notify_defs)
      next
        case (Inr y)
        let ?s3 = "s2\<lparr>world := wt\<rparr>"
        have s3: "s3 = ?s3" "k3 = Some (RunNextSetup, start_closure u (Suc j))"
          using r3 tear Inr by (simp_all add: run_next_teardown_def)
        obtain s4 k4 where r4: "run_next_setup h r (start_closure u (Suc j)) ?s3 = (s4, k4)"
          by (cases "run_next_setup h r (start_closure u (Suc j)) ?s3")
        have t3: "run_timer br h r suites (k3, i) s3 = run_timer br h r suites (k4, i) s4"
          using r4 s3 by (subst run_timer_unfold) (simp add: suites_round_def)
        obtain s' t where "run_timer br h r suites (k4, i) s4 = run_timer br h r suites (None, i) s'"
          "events s' = events ?s3 @ filter (wanted r) t" "rest_trace u (Suc j) t"
          "length (scores s') = length (scores ?s3) + (if is_result (last t) then 1 else 0)"
          using Suc.hyps(1) [OF m _ r4] j by auto
        moreover from this(3) have "t \<noteq> []" by (auto simp: rest_trace_def)
        ultimately show ?thesis using t1 t2 t3 e2 r2(2) rest_trace_Cons [of u j t] j
          by (intro exI [of _ s'] exI [of _ "NotifyStep (b_name ?b) # t"]) auto
      qed
    qed
  qed
qed

lemma all_suites:
  assumes prog: "progress h d suites"
  shows "i \<le> length suites \<Longrightarrow> \<exists>s' ts sc. run_timer br h r suites (None, i) s = Some s' \<and>
     list_all2 suite_trace (drop i suites) ts \<and>
     events s' = events s @ filter (wanted r) (concat ts @ [NotifyScore sc]) \<and>
     length (scores s') = length (scores s) + length (filter (\<lambda>t. is_result (last t)) ts)"
proof (induction "length suites - i" arbitrary: i s)
  case 0
  then show ?case by (subst run_timer_unfold) (auto simp: finish_suites_def emit_events Let_def)
next
  case (Suc m)
  then have i: "i < length suites" "suites ! i \<in> set suites" by simp_all
  have m: "m = length suites - (i + 1)" using Suc.hyps(2) by simp
  let ?u = "suites ! i" and ?s = "emit (has_start r) (NotifyStart (s_name (suites ! i))) s"
  obtain s1 k where s1: "run_next_setup h r (start_closure ?u 0) (?s\<lparr>results := []\<rparr>) = (s1, k)"
    by (cases "run_next_setup h r (start_closure ?u 0) (?s\<lparr>results := []\<rparr>)")
  have t1: "run_timer br h r suites (None, i) s = run_timer br h r suites (k, i + 1) s1"
    using i s1 by (subst run_timer_unfold) (simp add: suites_round_def suite_RunStep_def)
  obtain s2 t where s2: "run_timer br h r suites (k, i + 1) s1 = run_timer br h r suites (None, i + 1) s2"
    "events s2 = events ?s @ filter (wanted r) t" "rest_trace ?u 0 t"
    "length (scores s2) = length (scores s) + (if is_result (last t) then 1 else 0)"
    using suite_loop [OF prog i(2) _ s1, of br "i + 1"] by (auto simp: emit_events)
  obtain s' ts sc where s': "run_timer br h r suites (None, i + 1) s2 = Some s'" "list_all2 suite_trace (drop (i + 1) suites) ts"
    "events s' = events s2 @ filter (wanted r) (concat ts @ [NotifyScore sc])"
    "length (scores s') = length (scores s2) + length (filter (\<lambda>t. is_result (last t)) ts)"
    using Suc.hyps(1) [OF m, of s2] i by auto
  have "suite_trace ?u (NotifyStart (s_name ?u) # t)" using s2(3) by (auto simp: rest_trace_def suite_trace_def)
  moreover have "t \<noteq> []" using s2(3) by (auto simp: rest_trace_def)
  moreover have "drop i suites = ?u # drop (i + 1) suites" using i by (simp add: Cons_nth_drop_Suc)
  ultimately show ?case using t1 s2 s'
    by (intro exI [of _ s'] exI [of _ "(NotifyStart (s_name ?u) # t) # ts"] exI [of _ sc]) (auto simp: emit_events)
qed

text \<open>C7: if every run of a benchmark lets the clock advance by some fixed amount, \<open>RunSuites\<close> returns. What the
  runner is told is, for each suite in the order of declaration, its start, one step for each benchmark completed, and
  either its result or, when one of its benchmarks throws, its error; then the score. A suite that fails does not
  keep the others from running, and exactly the suites with a result contribute a score.\<close>

theorem RunSuites_trace:
  assumes "progress h d suites"
  shows "\<exists>s' ts sc. RunSuites br h r suites s = Some s' \<and> list_all2 suite_trace suites ts \<and>
     events s' = events s @ filter (wanted r) (concat ts @ [NotifyScore sc]) \<and>
     length (scores s') = length (filter (\<lambda>t. is_result (last t)) ts)"
  using all_suites [OF assms, of 0 br r "s\<lparr>scores := []\<rparr>"] by (auto simp: RunSuites_def)

section \<open>Three digits\<close>

lemma show_nat_length: "n > 0 \<Longrightarrow> 10 ^ (length (show_nat n) - 1) \<le> n \<and> n < 10 ^ length (show_nat n) \<and> length (show_nat n) > 0"
proof (induction n rule: show_nat.induct)
  case (1 n)
  show ?case
  proof (cases "n < 10")
    case True
    then show ?thesis using 1 by (simp add: show_nat.simps [of n])
  next
    case False
    let ?l = "length (show_nat (n div 10))"
    have IH: "10 ^ (?l - 1) \<le> n div 10" "n div 10 < 10 ^ ?l" "?l > 0" using 1(1) False by auto
    have "10 ^ ?l = 10 * 10 ^ (?l - 1)" using IH(3) by (cases ?l) auto
    also have "\<dots> \<le> 10 * (n div 10)" using IH(1) by simp
    also have "\<dots> \<le> n" by simp
    finally have "10 ^ ?l \<le> n" .
    moreover have "n < 10 * 10 ^ ?l" using IH(2) by linarith
    ultimately show ?thesis using False IH(3) by (simp add: show_nat.simps [of n])
  qed
qed

lemma ten_to_pos [simp]: "ten_to e > 0"
  by (simp add: ten_to_def)

lemma ten_to_nat: "ten_to (int k) = 10 ^ k"
  by (simp add: ten_to_def)

lemma ten_to_Suc: "ten_to (e + 1) = 10 * ten_to e"
proof -
  have "nat (- e) = Suc (nat (- e - 1))" if "e < -1 \<or> e = -1" using that by auto
  moreover consider "e \<ge> 0" | "e = -1" | "e < -1" by linarith
  ultimately show ?thesis by cases (auto simp: ten_to_def nat_add_distrib)
qed

lemma dec_exponent_bounds:
  assumes "r > 0"
  shows "ten_to (dec_exponent r) \<le> r" "r < ten_to (dec_exponent r + 1)"
proof -
  have "ten_to (dec_exponent r) \<le> r \<and> r < ten_to (dec_exponent r + 1)"
  proof (cases "r \<ge> 1")
    case True
    define N where "N = nat \<lfloor>r\<rfloor>"
    have N: "N > 0" "rat_of_nat N \<le> r" "r < rat_of_nat N + 1"
      using True floor_correct [of r] by (simp_all add: N_def le_floor_iff)
    let ?l = "length (show_nat N)"
    have l: "10 ^ (?l - 1) \<le> N" "N + 1 \<le> 10 ^ ?l" "?l > 0" using show_nat_length [OF N(1)] by auto
    from l(1) have "rat_of_nat (10 ^ (?l - 1)) \<le> rat_of_nat N" by (rule of_nat_mono)
    moreover from l(2) have "rat_of_nat (N + 1) \<le> rat_of_nat (10 ^ ?l)" by (rule of_nat_mono)
    moreover have "dec_exponent r = int (?l - 1)" "dec_exponent r + 1 = int ?l"
      using True l(3) unfolding dec_exponent_def N_def [symmetric] by (cases ?l; simp)+
    then have "ten_to (dec_exponent r) = 10 ^ (?l - 1)" "ten_to (dec_exponent r + 1) = 10 ^ ?l"
      by (simp_all only: ten_to_nat)
    ultimately show ?thesis using N(2,3) by (simp only: of_nat_power of_nat_numeral of_nat_add of_nat_1) linarith
  next
    case False
    define M where "M = nat (\<lceil>1 / r\<rceil> - 1)"
    have "1 < 1 / r" using False assms by (simp add: field_simps)
    then have c: "\<lceil>1 / r\<rceil> \<ge> 2" by (smt (verit) ceiling_le_one le_of_int_ceiling less_ceiling_iff of_int_1)
    then have M0: "M > 0" by (simp add: M_def)
    have "rat_of_nat M = of_int (\<lceil>1 / r\<rceil> - 1)" unfolding M_def by (rule of_nat_nat) (use c in linarith)
    then have M: "M > 0" "rat_of_nat M = of_int \<lceil>1 / r\<rceil> - 1" using M0 by (simp_all only: of_int_diff of_int_1)
    have M2: "rat_of_nat M < 1 / r" "1 / r \<le> rat_of_nat M + 1"
      unfolding M(2) using ceiling_correct [of "1 / r"] by auto
    let ?l = "length (show_nat M)"
    have l: "10 ^ (?l - 1) \<le> M" "M + 1 \<le> 10 ^ ?l" "?l > 0" using show_nat_length [OF M(1)] by auto
    from l(1) have l1: "rat_of_nat (10 ^ (?l - 1)) \<le> rat_of_nat M" by (rule of_nat_mono)
    from l(2) have l2: "rat_of_nat (M + 1) \<le> rat_of_nat (10 ^ ?l)" by (rule of_nat_mono)
    have "1 / r \<le> 10 ^ ?l" "10 ^ (?l - 1) < 1 / r" using l1 l2 M2
      by (simp_all only: of_nat_power of_nat_numeral of_nat_add of_nat_1)
    then have "1 / 10 ^ ?l \<le> r" "r < 1 / 10 ^ (?l - 1)" using assms by (simp_all add: field_simps)
    moreover have d: "dec_exponent r = - int ?l" using False by (simp add: dec_exponent_def M_def)
    moreover have "ten_to (dec_exponent r) = 1 / 10 ^ ?l" using l(3) by (simp add: ten_to_def d)
    moreover have "ten_to (dec_exponent r + 1) = 1 / 10 ^ (?l - 1)"
      using l(3) by (cases ?l) (auto simp: ten_to_def d)
    ultimately show ?thesis by simp
  qed
  then show "ten_to (dec_exponent r) \<le> r" "r < ten_to (dec_exponent r + 1)" by simp_all
qed

text \<open>The three digits of a positive number are between 100 and 999, and what they denote is within half a percent of the number.\<close>

lemma digits3_nearest:
  assumes "r > 0" "digits3 r = (n, e)"
  shows "100 \<le> n \<and> n \<le> 999 \<and> \<bar>of_int n * ten_to (e - 2) - r\<bar> \<le> r / 200 \<and>
    dec_exponent r \<le> e \<and> ten_to e \<le> r * (201 / 200)"
proof -
  define e0 q where "e0 = dec_exponent r" and "q = r / ten_to (e0 - 2)"
  have t: "ten_to e0 = 100 * ten_to (e0 - 2)" "ten_to (e0 + 1) = 1000 * ten_to (e0 - 2)" "ten_to (e0 - 1) = 10 * ten_to (e0 - 2)"
    using ten_to_Suc [of "e0 - 2"] ten_to_Suc [of "e0 - 1"] ten_to_Suc [of e0] by simp_all
  have q: "100 \<le> q" "q < 1000" "r = q * ten_to (e0 - 2)"
    using dec_exponent_bounds [OF assms(1), folded e0_def, unfolded t] ten_to_pos [of "e0 - 2"]
    by (simp_all add: q_def field_simps del: ten_to_pos)
  define m where "m = \<lfloor>q + 1 / 2\<rfloor>"
  have m: "of_int m \<le> q + 1 / 2" "q + 1 / 2 < of_int m + 1"
    using floor_correct [of "q + 1 / 2"] by (simp_all add: m_def)
  have m2: "100 \<le> m" "m \<le> 1000" using q m by (auto simp: m_def le_floor_iff floor_le_iff)
  have near: "\<bar>of_int m - q\<bar> \<le> 1 / 2" using m by linarith
  have d: "digits3 r = (if m \<ge> 1000 then (100, e0 + 1) else (m, e0))"
    by (simp add: digits3_def Let_def e0_def m_def q_def)
  define t0 where "t0 = ten_to (e0 - 2)"
  have t0: "0 < t0" "r = q * t0" using ten_to_pos q(3) by (simp_all only: t0_def)
  have "\<bar>of_int m - q\<bar> * t0 \<le> 1 / 2 * t0" using near t0(1) by (intro mult_right_mono) simp_all
  moreover have "\<bar>of_int m * t0 - r\<bar> = \<bar>of_int m - q\<bar> * t0" using t0 by (simp add: left_diff_distrib [symmetric] abs_mult)
  moreover have r: "100 * t0 \<le> r" using q(1) t0 by simp
  ultimately have e: "\<bar>of_int m * t0 - r\<bar> \<le> r / 200" by linarith
  show ?thesis
  proof (cases "m \<ge> 1000")
    case True
    then have "m = 1000" "n = 100" "e = e0 + 1" using m2 d assms(2) by auto
    moreover have "1000 * t0 \<le> r * (201 / 200)" using e unfolding \<open>m = 1000\<close> abs_le_iff by linarith
    ultimately show ?thesis using t e by (simp add: e0_def t0_def)
  next
    case False
    then have "n = m" "e = e0" using d assms(2) by auto
    moreover have "100 * t0 \<le> r * (201 / 200)" using r t0 q(1) by linarith
    ultimately show ?thesis using m2 False t(1) e by (simp add: e0_def t0_def)
  qed
qed

definition demo_host :: "nat host" where
  "demo_host = \<lparr>clock = of_nat, Math_log = id, Math_pow = (\<lambda>x y. y), Math_E = num_of 3, big_string = (\<lambda>r. '''')\<rparr>"

definition demo_suites :: "nat suite list" where
  "demo_suites = BenchmarkSuite ''B'' (num_of 5) [Benchmark ''b'' (\<lambda>w. (w + 70, Inl TypeError)) None None]
    (BenchmarkSuite ''A'' (num_of 7) [Benchmark ''a'' (\<lambda>w. (w + 50, ok ())) None (Some (\<lambda>w. (w, ok ())))] suites0)"

theorem RunSuites_trace_witness:
  "\<exists>s' ts sc. RunSuites True demo_host \<lparr>has_start = True, has_step = True, has_result = False, has_error = True, has_score = True\<rparr>
       demo_suites \<lparr>world = 0, scores = [], results = [], events = []\<rparr> = Some s' \<and> list_all2 suite_trace demo_suites ts \<and>
     length (scores s') = length (filter (\<lambda>t. is_result (last t)) ts)"
proof -
  have "progress demo_host 50 demo_suites"
    by (simp add: progress_def demo_host_def demo_suites_def BenchmarkSuite_def Benchmark_def suites0_def)
  then show ?thesis
    using RunSuites_trace [of demo_host 50 demo_suites True _ "\<lparr>world = 0, scores = [], results = [], events = []\<rparr>"] by blast
qed

end
