(* ===== verification/Js_Value.thy ===== *)
theory Js_Value
  imports Js_Prelude
begin

text \<open>
  The values a format code of the date programs yields, strings and integral numbers, the operator
  \<open>+\<close> on them, \<open>String.prototype.substring\<close> and \<open>parseInt(s, 10)\<close> (\<open>None\<close> is \<open>NaN\<close>), with the decimal
  digits of a number read back.
\<close>

section \<open>Strings and numbers\<close>


datatype jsval = JStr string | JNum int

fun to_str :: "jsval \<Rightarrow> string" where
  "to_str (JStr s) = s"
| "to_str (JNum i) = show_int i"

fun js_add :: "jsval \<Rightarrow> jsval \<Rightarrow> jsval" where
  "js_add (JNum i) (JNum j) = JNum (i + j)"
| "js_add x y = JStr (to_str x @ to_str y)"

section \<open>Reading numbers\<close>

definition is_digit :: "char \<Rightarrow> bool" where
  "is_digit c \<longleftrightarrow> 48 \<le> (of_char c :: nat) \<and> (of_char c :: nat) \<le> 57"

definition digit_val :: "char \<Rightarrow> int" where
  "digit_val c = int (of_char c) - 48"

definition digits_val :: "string \<Rightarrow> int" where
  "digits_val s = foldl (\<lambda>v c. 10 * v + digit_val c) 0 s"

definition is_space :: "char \<Rightarrow> bool" where
  "is_space c \<longleftrightarrow> (of_char c :: nat) \<in> {9, 10, 11, 12, 13, 32, 160}"

definition parse_digits :: "string \<Rightarrow> int option" where
  "parse_digits s = (let ds = takeWhile is_digit s in if ds = [] then None else Some (digits_val ds))"

fun parse_signed :: "string \<Rightarrow> int option" where
  "parse_signed [] = None"
| "parse_signed (c # s) =
    (if c = CHR ''-'' then map_option uminus (parse_digits s)
     else if c = CHR ''+'' then parse_digits s else parse_digits (c # s))"

definition parseInt :: "string \<Rightarrow> int option" where
  "parseInt s = parse_signed (dropWhile is_space s)"

text \<open>\<open>s.substring(a, b)\<close> for \<open>a \<le> b\<close>.\<close>

definition substring :: "nat \<Rightarrow> nat \<Rightarrow> string \<Rightarrow> string" where
  "substring a b s = take (b - a) (drop a s)"

section \<open>Decimal digits\<close>

lemma of_char_digit [simp]: "n < 10 \<Longrightarrow> (of_char (char_of (48 + n) :: char) :: nat) = 48 + n"
  by (simp add: take_bit_eq_mod)

lemma show_nat_small: "n < 10 \<Longrightarrow> show_nat n = [char_of (48 + n)]"
  by (simp add: show_nat.simps)

lemma show_nat_digits: "list_all is_digit (show_nat n)"
proof (induction n rule: show_nat.induct)
  case (1 n)
  moreover have "is_digit (char_of (48 + n mod 10))" "n < 10 \<Longrightarrow> is_digit (char_of (48 + n))" by (simp_all add: is_digit_def)
  ultimately show ?case by (subst show_nat.simps) simp
qed

lemma digits_val_append: "digits_val (s @ [c]) = 10 * digits_val s + digit_val c"
  by (simp add: digits_val_def)

lemma digits_val_show: "digits_val (show_nat n) = int n"
proof (induction n rule: show_nat.induct)
  case (1 n)
  show ?case
  proof (cases "n < 10")
    case True
    then show ?thesis by (simp add: show_nat_small digits_val_def digit_val_def)
  next
    case False
    then have "digits_val (show_nat n) = 10 * int (n div 10) + int (n mod 10)"
      using 1 by (subst show_nat.simps) (simp add: digits_val_append digit_val_def)
    also have "\<dots> = int n" by presburger
    finally show ?thesis .
  qed
qed

lemma show_nat_nonempty [simp]: "show_nat n \<noteq> []"
  by (subst show_nat.simps) simp

lemma digits_val_zero: "digits_val (CHR ''0'' # s) = digits_val s"
  by (simp add: digits_val_def digit_val_def)

lemma length_show_nat: "n < 10 ^ Suc k \<Longrightarrow> 10 ^ k \<le> n \<Longrightarrow> length (show_nat n) = Suc k"
proof (induction k arbitrary: n)
  case 0
  then show ?case by (simp add: show_nat_small)
next
  case (Suc k)
  then have "(10 :: nat) ^ k \<le> n div 10" "n div 10 < 10 ^ Suc k" by (simp_all add: less_mult_imp_div_less less_eq_div_iff_mult_less_eq mult.commute)
  then have "length (show_nat (n div 10)) = Suc k" by (intro Suc.IH)
  moreover have "\<not> n < 10"
  proof -
    have "(10 :: nat) * 1 \<le> 10 * 10 ^ k" by (intro mult_le_mono2) (simp add: Suc_le_eq)
    then show ?thesis using Suc.prems(2) by (simp only: power_Suc)
  qed
  ultimately show ?case by (subst show_nat.simps) simp
qed

lemma digits_not_sign: "is_digit c \<Longrightarrow> c \<noteq> CHR ''-'' \<and> c \<noteq> CHR ''+'' \<and> \<not> is_space c"
  by (auto simp: is_digit_def is_space_def)

lemma parse_digits_all: "list_all is_digit s \<Longrightarrow> s \<noteq> [] \<Longrightarrow> parse_digits s = Some (digits_val s)"
proof -
  assume s: "list_all is_digit s" "s \<noteq> []"
  have "takeWhile is_digit s = s" using s(1) by (simp add: takeWhile_eq_all_conv list_all_iff)
  then show ?thesis unfolding parse_digits_def Let_def using s(2) by (simp only: if_False)
qed

lemma parseInt_digits: "list_all is_digit s \<Longrightarrow> s \<noteq> [] \<Longrightarrow> parseInt s = Some (digits_val s)"
proof (cases s)
  case (Cons c r)
  assume "list_all is_digit s"
  then have "parse_digits (c # r) = Some (digits_val (c # r))" "is_digit c" using parse_digits_all [of s] Cons by simp_all
  then show ?thesis using Cons digits_not_sign [of c] by (simp add: parseInt_def)
qed simp
end
