(* ===== verification/Benchmark_Score.thy ===== *)
theory Benchmark_Score
  imports Benchmark_Correct Js_Value
begin

text \<open>What \<open>FormatScore\<close> shows, read as a decimal number.\<close>

section \<open>Reading a score\<close>

text \<open>The number that a text of digits with at most one point denotes.\<close>

definition shown_number :: "string \<Rightarrow> rat" where
  "shown_number s =
    (let a = takeWhile (\<lambda>c. c \<noteq> CHR ''.'') s; b = drop 1 (dropWhile (\<lambda>c. c \<noteq> CHR ''.'') s)
     in of_int (digits_val (a @ b)) / 10 ^ length b)"

lemma no_point: "list_all is_digit s \<Longrightarrow> CHR ''.'' \<notin> set s"
  by (auto simp: list_all_iff is_digit_def)

lemma shown_whole: "list_all is_digit s \<Longrightarrow> shown_number s = of_int (digits_val s)"
proof -
  assume "list_all is_digit s"
  then have "\<forall>c \<in> set s. c \<noteq> CHR ''.''" using no_point by auto
  then have w: "takeWhile (\<lambda>c. c \<noteq> CHR ''.'') s = s" "dropWhile (\<lambda>c. c \<noteq> CHR ''.'') s = []"
    by (simp_all only: takeWhile_eq_all_conv dropWhile_eq_Nil_conv)
  show ?thesis unfolding shown_number_def Let_def w by simp
qed

lemma shown_point: "list_all is_digit a \<Longrightarrow> shown_number (a @ CHR ''.'' # b) = of_int (digits_val (a @ b)) / 10 ^ length b"
proof -
  assume "list_all is_digit a"
  then have "c \<noteq> CHR ''.''" if "c \<in> set a" for c using no_point that by auto
  then show ?thesis by (simp add: shown_number_def takeWhile_append2 dropWhile_append2)
qed

lemma digits_val_zeros: "digits_val (replicate k (CHR ''0'') @ s) = digits_val s"
  by (induction k) (simp_all add: digits_val_def digit_val_def)

lemma three_digits:
  assumes "100 \<le> n" "n \<le> 999"
  shows "length (show_int n) = 3" "digits_val (show_int n) = n" "list_all is_digit (show_int n)"
proof -
  have n: "100 \<le> nat n" "nat n \<le> 999" using assms by simp_all
  have l: "10 ^ (length (show_nat (nat n)) - 1) \<le> nat n" "nat n < 10 ^ length (show_nat (nat n))" "length (show_nat (nat n)) > 0"
    using show_nat_length [of "nat n"] assms by auto
  have "\<not> length (show_nat (nat n)) \<le> 2"
  proof
    assume "length (show_nat (nat n)) \<le> 2"
    then have "(10 :: nat) ^ length (show_nat (nat n)) \<le> 10 ^ 2" by (intro power_increasing) simp_all
    then have "(10 :: nat) ^ length (show_nat (nat n)) \<le> 100" by simp
    then show False using l(2) n(1) by linarith
  qed
  moreover have "\<not> 3 \<le> length (show_nat (nat n)) - 1"
  proof
    assume "3 \<le> length (show_nat (nat n)) - 1"
    then have "(10 :: nat) ^ 3 \<le> 10 ^ (length (show_nat (nat n)) - 1)" by (intro power_increasing) simp_all
    then have "1000 \<le> (10 :: nat) ^ (length (show_nat (nat n)) - 1)" by simp
    then show False using l(1) n(2) by linarith
  qed
  ultimately show "length (show_int n) = 3" using assms by (simp add: show_int_def)
  show "digits_val (show_int n) = n" "list_all is_digit (show_int n)"
    using assms digits_val_show [of "nat n"] show_nat_digits by (simp_all add: show_int_def)
qed

lemma shown_place_digits:
  assumes "100 \<le> n" "n \<le> 999" "- 6 \<le> e" "e \<le> 2"
  shows "shown_number (place_digits (show_int n) e) = of_int n * ten_to (e - 2)"
proof -
  note d = three_digits [OF assms(1,2)]
  consider "e = 2" | "0 \<le> e" "e < 2" | "e < 0" using assms(4) by linarith
  then show ?thesis
  proof cases
    case 1
    then show ?thesis using d by (simp add: place_digits_def shown_whole ten_to_def)
  next
    case 2
    have t: "list_all is_digit (take (nat (e + 1)) (show_int n))" using d(3) by (auto simp: list_all_iff dest: in_set_takeD)
    have "place_digits (show_int n) e = take (nat (e + 1)) (show_int n) @ CHR ''.'' # drop (nat (e + 1)) (show_int n)"
      using 2 by (simp add: place_digits_def)
    then have "shown_number (place_digits (show_int n) e) = of_int n / 10 ^ (3 - nat (e + 1))" using shown_point [OF t] d by simp
    moreover have "3 - nat (e + 1) = nat (2 - e)" using 2 by simp
    ultimately show ?thesis using 2 by (simp add: ten_to_def)
  next
    case 3
    have "place_digits (show_int n) e = ''0'' @ CHR ''.'' # replicate (nat (- (e + 1))) (CHR ''0'') @ show_int n"
      using 3 assms(3) by (simp add: place_digits_def)
    moreover have "list_all is_digit ''0''" by (simp add: is_digit_def)
    moreover have "digits_val (''0'' @ replicate (nat (- (e + 1))) (CHR ''0'') @ show_int n) = n"
      using digits_val_zeros [of "Suc (nat (- (e + 1)))" "show_int n"] d(2) by simp
    ultimately have "shown_number (place_digits (show_int n) e) = of_int n / 10 ^ (nat (- (e + 1)) + 3)"
      using shown_point [of "''0''" "replicate (nat (- (e + 1))) (CHR ''0'') @ show_int n"] d(1) by simp
    moreover have "nat (- (e + 1)) + 3 = nat (2 - e)" using 3 by simp
    ultimately show ?thesis using 3 by (simp add: ten_to_def)
  qed
qed

lemma ten_to_mono: "d \<le> e \<Longrightarrow> ten_to d \<le> ten_to e"
proof (induction "nat (e - d)" arbitrary: e)
  case (Suc k)
  then have "ten_to d \<le> ten_to (e - 1)" by simp
  then show ?case using ten_to_Suc [of "e - 1"] ten_to_pos [of "e - 1"] by (simp del: ten_to_pos)
qed simp

text \<open>
  C27: A score from a millionth to \<open>10\<^sup>2\<^sup>1\<close> is shown as a decimal number that is read back as the score itself up to half a unit, for a
  score above 100, which is shown without a point, and up to half a percent otherwise.
\<close>

theorem FormatScore_reads:
  assumes "1 / 10 ^ 6 \<le> r" "r < 10 ^ 21"
  shows "\<bar>shown_number (FormatScore h (Fin r)) - r\<bar> \<le> (if 100 < r then 1 / 2 else r / 200) \<and>
    (CHR ''.'' \<in> set (FormatScore h (Fin r)) \<longrightarrow> r \<le> 100)"
proof (cases "100 < r")
  case True
  have "0 \<le> \<lfloor>r + 1 / 2\<rfloor>" using True by linarith
  then have "digits_val (show_int \<lfloor>r + 1 / 2\<rfloor>) = \<lfloor>r + 1 / 2\<rfloor>" "list_all is_digit (show_int \<lfloor>r + 1 / 2\<rfloor>)"
    using digits_val_show [of "nat \<lfloor>r + 1 / 2\<rfloor>"] show_nat_digits by (simp_all add: show_int_def)
  moreover have "FormatScore h (Fin r) = show_int \<lfloor>r + 1 / 2\<rfloor>"
    using True assms(2) by (simp add: FormatScore_def toFixed0_def finite_num_def signed_string_def num_of_def num_rat_def)
  moreover have "\<bar>of_int \<lfloor>r + 1 / 2\<rfloor> - r\<bar> \<le> 1 / 2" by linarith
  ultimately show ?thesis using True no_point by (simp add: shown_whole)
next
  case False
  have r: "0 < r" using assms(1) by (rule less_le_trans [rotated]) simp
  obtain n e where d: "digits3 r = (n, e)" by fastforce
  note near = digits3_nearest [OF r d]
  have "- 6 \<le> dec_exponent r"
  proof (rule ccontr)
    assume "\<not> - 6 \<le> dec_exponent r"
    then have "ten_to (dec_exponent r + 1) \<le> ten_to (- 6)" by (intro ten_to_mono) simp
    then show False using dec_exponent_bounds(2) [OF r] assms(1) by (simp add: ten_to_def [of "- 6"])
  qed
  moreover have "e \<le> 2"
  proof (rule ccontr)
    assume "\<not> e \<le> 2"
    then have "ten_to 3 \<le> ten_to e" by (intro ten_to_mono) simp
    then show False using near False by (simp add: ten_to_def [of 3])
  qed
  moreover have "FormatScore h (Fin r) = place_digits (show_int n) e"
    using False r d by (simp add: FormatScore_def toPrecision3_def finite_num_def signed_string_def num_of_def num_rat_def)
  ultimately have "shown_number (FormatScore h (Fin r)) = of_int n * ten_to (e - 2)" using near by (simp add: shown_place_digits)
  then show ?thesis using near False by simp
qed

lemma FormatScore_reads_witness:
  "\<bar>shown_number (FormatScore demo_host (Fin (1 / 16))) - 1 / 16\<bar> \<le> 1 / 16 / 200 \<and>
    \<bar>shown_number (FormatScore demo_host (Fin (2469 / 2))) - 2469 / 2\<bar> \<le> 1 / 2"
  using FormatScore_reads [of "1 / 16" demo_host] FormatScore_reads [of "2469 / 2" demo_host] by simp

end
