(* ===== verification/Crypto_Big.thy ===== *)
theory Crypto_Big
  imports Js_Number
begin

unbundle bit_operations_syntax

text \<open>
  The big integers of \<open>v8/crypto.js\<close> (lines 45 to 668, Tom Wu's jsbn). Objects are updated in place and often
  passed as their own result, so they live in an explicit store, a list of objects in the order of
  allocation; \<open>BigInteger.ZERO\<close> and \<open>BigInteger.ONE\<close> are the objects 0 and 1. An object has its digits, a function
  from positions, the number \<open>t\<close> of digits in use and the sign word \<open>s\<close> (0 or -1). What a new object holds before it is written is the field
  \<open>fresh\<close> of the engine, a parameter that no result may depend on. Numbers that the code keeps below
  \<open>2\<^sup>5\<^sup>3\<close> are integers; the estimate of a quotient digit in \<open>bnpDivRemTo\<close> uses doubles.
\<close>

section \<open>Objects and the store\<close>

type_synonym addr = nat

record bigint =
  b_arr :: "nat \<Rightarrow> int"
  b_t :: nat
  b_s :: int

type_synonym store = "bigint list"

definition dig :: "addr \<Rightarrow> nat \<Rightarrow> store \<Rightarrow> int" where
  "dig a i h = b_arr (h ! a) i"

definition len :: "addr \<Rightarrow> store \<Rightarrow> nat" where
  "len a h = b_t (h ! a)"

definition sgw :: "addr \<Rightarrow> store \<Rightarrow> int" where
  "sgw a h = b_s (h ! a)"

definition set_dig :: "addr \<Rightarrow> nat \<Rightarrow> int \<Rightarrow> store \<Rightarrow> store" where
  "set_dig a i v h = h[a := (h ! a)\<lparr>b_arr := (b_arr (h ! a))(i := v)\<rparr>]"

definition set_len :: "addr \<Rightarrow> nat \<Rightarrow> store \<Rightarrow> store" where
  "set_len a n h = h[a := (h ! a)\<lparr>b_t := n\<rparr>]"

definition set_sgw :: "addr \<Rightarrow> int \<Rightarrow> store \<Rightarrow> store" where
  "set_sgw a n h = h[a := (h ! a)\<lparr>b_s := n\<rparr>]"

definition ZERO :: addr where "ZERO = 0"
definition ONE :: addr where "ONE = 1"

text \<open>The truncating remainder \<open>%\<close> of integers.\<close>

definition js_rem :: "int \<Rightarrow> int \<Rightarrow> int" where
  "js_rem x y = sgn x * (\<bar>x\<bar> mod \<bar>y\<bar>)"

section \<open>The engine\<close>

text \<open>\<open>am\<close>: add \<open>x\<close> times \<open>n\<close> digits of \<open>this\<close> from \<open>i\<close> to the digits of \<open>w\<close> from \<open>j\<close>, with carry \<open>c\<close>.\<close>

type_synonym am = "addr \<Rightarrow> nat \<Rightarrow> int \<Rightarrow> addr \<Rightarrow> nat \<Rightarrow> int \<Rightarrow> nat \<Rightarrow> store \<Rightarrow> int \<times> store"

fun am1 :: am where
  "am1 this i x w j c 0 h = (c, h)"
| "am1 this i x w j c (Suc n) h =
    (let v = x * dig this i h + dig w j h + c; c = v div 0x4000000; h = set_dig w j (js_and v 0x3ffffff) h
     in am1 this (Suc i) x w (Suc j) c n h)"

fun am2_loop :: "int \<Rightarrow> int \<Rightarrow> addr \<Rightarrow> nat \<Rightarrow> addr \<Rightarrow> nat \<Rightarrow> int \<Rightarrow> nat \<Rightarrow> store \<Rightarrow> int \<times> store" where
  "am2_loop xl xh this i w j c 0 h = (c, h)"
| "am2_loop xl xh this i w j c (Suc n) h =
    (let l = js_and (dig this i h) 0x7fff; ht = js_shr (dig this i h) 15; m = xh * l + ht * xl;
         l = xl * l + js_shl (js_and m 0x7fff) 15 + dig w j h + js_and c 0x3fffffff;
         c = js_ushr l 30 + js_ushr m 15 + xh * ht + js_ushr c 30;
         h = set_dig w j (js_and l 0x3fffffff) h
     in am2_loop xl xh this (Suc i) w (Suc j) c n h)"

definition am2 :: am where
  "am2 this i x w j c n h = am2_loop (js_and x 0x7fff) (js_shr x 15) this i w j c n h"

fun am3_loop :: "int \<Rightarrow> int \<Rightarrow> addr \<Rightarrow> nat \<Rightarrow> addr \<Rightarrow> nat \<Rightarrow> int \<Rightarrow> nat \<Rightarrow> store \<Rightarrow> int \<times> store" where
  "am3_loop xl xh this i w j c 0 h = (c, h)"
| "am3_loop xl xh this i w j c (Suc n) h =
    (let l = js_and (dig this i h) 0x3fff; ht = js_shr (dig this i h) 14; m = xh * l + ht * xl;
         l = xl * l + js_shl (js_and m 0x3fff) 14 + dig w j h + c;
         c = js_shr l 28 + js_shr m 14 + xh * ht;
         h = set_dig w j (js_and l 0xfffffff) h
     in am3_loop xl xh this (Suc i) w (Suc j) c n h)"

definition am3 :: am where
  "am3 this i x w j c n h = am3_loop (js_and x 0x3fff) (js_shr x 14) this i w j c n h"

fun am4_loop :: "int \<Rightarrow> int \<Rightarrow> addr \<Rightarrow> nat \<Rightarrow> addr \<Rightarrow> nat \<Rightarrow> int \<Rightarrow> nat \<Rightarrow> store \<Rightarrow> int \<times> store" where
  "am4_loop xl xh this i w j c 0 h = (c, h)"
| "am4_loop xl xh this i w j c (Suc n) h =
    (let l = js_and (dig this i h) 0x1fff; ht = js_shr (dig this i h) 13; m = xh * l + ht * xl;
         l = xl * l + js_shl (js_and m 0x1fff) 13 + dig w j h + c;
         c = js_shr l 26 + js_shr m 13 + xh * ht;
         h = set_dig w j (js_and l 0x3ffffff) h
     in am4_loop xl xh this (Suc i) w (Suc j) c n h)"

definition am4 :: am where
  "am4 this i x w j c n h = am4_loop (js_and x 0x1fff) (js_shr x 13) this i w j c n h"

text \<open>What \<open>setupEngine\<close> sets, with \<open>Math.LN2\<close>, \<open>Math.log\<close> (which the language does not fix) and the unset object.\<close>

record engine =
  e_am :: am
  dbits :: int
  LN2 :: jsnum
  log_num :: "jsnum \<Rightarrow> jsnum"
  fresh :: bigint

definition setupEngine :: "am \<Rightarrow> int \<Rightarrow> engine \<Rightarrow> engine" where
  "setupEngine f bits E = E\<lparr>e_am := f, dbits := bits\<rparr>"

definition DB :: "engine \<Rightarrow> int" where "DB E = dbits E"
definition DM :: "engine \<Rightarrow> int" where "DM E = js_shl 1 (dbits E) - 1"
definition DV :: "engine \<Rightarrow> int" where "DV E = js_shl 1 (dbits E)"
definition FP :: int where "FP = 52"
definition FV :: int where "FV = 2 ^ nat FP"
definition F1 :: "engine \<Rightarrow> int" where "F1 E = FP - dbits E"
definition F2 :: "engine \<Rightarrow> int" where "F2 E = 2 * dbits E - FP"

definition nbi :: "engine \<Rightarrow> store \<Rightarrow> addr \<times> store" where
  "nbi E h = (length h, h @ [fresh E])"

section \<open>Digits of strings\<close>

definition BI_RM :: string where
  "BI_RM = ''0123456789abcdefghijklmnopqrstuvwxyz''"

definition BI_RC :: "nat \<Rightarrow> int option" where
  "BI_RC c =
    (if 48 \<le> c \<and> c \<le> 57 then Some (int c - 48)
     else if 97 \<le> c \<and> c < 97 + 26 then Some (10 + (int c - 97))
     else if 65 \<le> c \<and> c < 65 + 26 then Some (10 + (int c - 65))
     else None)"

definition int2char :: "int \<Rightarrow> string" where
  "int2char n = (if 0 \<le> n \<and> n < int (length BI_RM) then [BI_RM ! nat n] else '''')"

definition intAt :: "string \<Rightarrow> nat \<Rightarrow> int" where
  "intAt s i =
    (if i < length s then (case BI_RC (of_char (s ! i)) of None \<Rightarrow> - 1 | Some c \<Rightarrow> c) else - 1)"

section \<open>Copying, small values, clamping\<close>

definition copy_digits :: "addr \<Rightarrow> addr \<Rightarrow> nat list \<Rightarrow> store \<Rightarrow> store" where
  "copy_digits this r is h = foldl (\<lambda>h i. set_dig r i (dig this i h) h) h is"

definition bnpCopyTo :: "addr \<Rightarrow> addr \<Rightarrow> store \<Rightarrow> store" where
  "bnpCopyTo this r h =
    (let h = copy_digits this r (rev [0..<len this h]) h; h = set_len r (len this h) h
     in set_sgw r (sgw this h) h)"

text \<open>\<open>DV\<close> is not declared in the source: the second branch throws.\<close>

definition bnpFromInt :: "addr \<Rightarrow> int \<Rightarrow> store \<Rightarrow> store res" where
  "bnpFromInt this x h =
    (let h = set_len this 1 h; h = set_sgw this (if x < 0 then - 1 else 0) h
     in if x > 0 then ok (set_dig this 0 x h)
        else if x < - 1 then throw ReferenceError
        else ok (set_len this 0 h))"

definition nbv :: "engine \<Rightarrow> int \<Rightarrow> store \<Rightarrow> (addr \<times> store) res" where
  "nbv E i h = (let (r, h) = nbi E h in rbind (bnpFromInt r i h) (\<lambda>h. ok (r, h)))"

fun clamp_loop :: "int \<Rightarrow> (nat \<Rightarrow> int) \<Rightarrow> nat \<Rightarrow> nat" where
  "clamp_loop c d 0 = 0"
| "clamp_loop c d (Suc n) = (if d n = c then clamp_loop c d n else Suc n)"

definition bnpClamp :: "engine \<Rightarrow> addr \<Rightarrow> store \<Rightarrow> store" where
  "bnpClamp E this h =
    (let c = js_and (sgw this h) (DM E) in set_len this (clamp_loop c (b_arr (h ! this)) (len this h)) h)"

section \<open>Subtraction, sign and comparison\<close>

text \<open>The loops \<open>c += ...; r_array[i++] = c&BI_DM; c >>= BI_DB\<close>: \<open>f i\<close> is what is added for position \<open>i\<close>.\<close>

fun carry_loop :: "engine \<Rightarrow> addr \<Rightarrow> (nat \<Rightarrow> store \<Rightarrow> int) \<Rightarrow> nat \<Rightarrow> nat \<Rightarrow> int \<Rightarrow> store \<Rightarrow> int \<times> store" where
  "carry_loop E r f 0 i c h = (c, h)"
| "carry_loop E r f (Suc n) i c h =
    (let c = c + f i h; h = set_dig r i (js_and c (DM E)) h; c = js_shr c (DB E)
     in carry_loop E r f n (Suc i) c h)"

definition bnpSubTo :: "engine \<Rightarrow> addr \<Rightarrow> addr \<Rightarrow> addr \<Rightarrow> store \<Rightarrow> store" where
  "bnpSubTo E this a r h =
    (let ta = len a h; tt = len this h; m = min ta tt;
         (c, h) = carry_loop E r (\<lambda>i h. dig this i h - dig a i h) m 0 0 h;
         (i, c, h) =
           (if ta < tt then
              (let c = c - sgw a h; (c, h) = carry_loop E r (\<lambda>i h. dig this i h) (tt - m) m c h
               in (tt, c + sgw this h, h))
            else
              (let c = c + sgw this h; (c, h) = carry_loop E r (\<lambda>i h. - dig a i h) (ta - m) m c h
               in (ta, c - sgw a h, h)));
         h = set_sgw r (if c < 0 then - 1 else 0) h;
         (i, h) =
           (if c < - 1 then (Suc i, set_dig r i (DV E + c) h)
            else if c > 0 then (Suc i, set_dig r i c h) else (i, h));
         h = set_len r i h
     in bnpClamp E r h)"

definition bnNegate :: "engine \<Rightarrow> addr \<Rightarrow> store \<Rightarrow> addr \<times> store" where
  "bnNegate E this h = (let (r, h) = nbi E h in (r, bnpSubTo E ZERO this r h))"

definition bnAbs :: "engine \<Rightarrow> addr \<Rightarrow> store \<Rightarrow> addr \<times> store" where
  "bnAbs E this h = (if sgw this h < 0 then bnNegate E this h else (this, h))"

fun compare_loop :: "nat \<Rightarrow> (nat \<Rightarrow> int) \<Rightarrow> (nat \<Rightarrow> int) \<Rightarrow> int" where
  "compare_loop 0 d e = 0"
| "compare_loop (Suc i) d e = (let r = d i - e i in if r \<noteq> 0 then r else compare_loop i d e)"

definition bnCompareTo :: "addr \<Rightarrow> addr \<Rightarrow> store \<Rightarrow> int" where
  "bnCompareTo this a h =
    (let r = sgw this h - sgw a h
     in if r \<noteq> 0 then r
        else let r = int (len this h) - int (len a h)
          in if r \<noteq> 0 then r
             else compare_loop (len this h) (b_arr (h ! this)) (b_arr (h ! a)))"

definition nbits :: "int \<Rightarrow> int" where
  "nbits x =
    (let r = 1;
         t = js_ushr x 16; (x, r) = (if t \<noteq> 0 then (t, r + 16) else (x, r));
         t = js_shr x 8; (x, r) = (if t \<noteq> 0 then (t, r + 8) else (x, r));
         t = js_shr x 4; (x, r) = (if t \<noteq> 0 then (t, r + 4) else (x, r));
         t = js_shr x 2; (x, r) = (if t \<noteq> 0 then (t, r + 2) else (x, r));
         t = js_shr x 1; (x, r) = (if t \<noteq> 0 then (t, r + 1) else (x, r))
     in r)"

definition bnBitLength :: "engine \<Rightarrow> addr \<Rightarrow> store \<Rightarrow> int" where
  "bnBitLength E this h =
    (if len this h = 0 then 0
     else DB E * (int (len this h) - 1) + nbits (js_xor (dig this (len this h - 1) h) (js_and (sgw this h) (DM E))))"

section \<open>Shifts\<close>

definition zero_digits :: "addr \<Rightarrow> nat list \<Rightarrow> store \<Rightarrow> store" where
  "zero_digits r is h = foldl (\<lambda>h i. set_dig r i 0 h) h is"

definition bnpDLShiftTo :: "addr \<Rightarrow> nat \<Rightarrow> addr \<Rightarrow> store \<Rightarrow> store" where
  "bnpDLShiftTo this n r h =
    (let h = foldl (\<lambda>h i. set_dig r (i + n) (dig this i h) h) h (rev [0..<len this h]);
         h = zero_digits r (rev [0..<n]) h; h = set_len r (len this h + n) h
     in set_sgw r (sgw this h) h)"

definition bnpDRShiftTo :: "addr \<Rightarrow> nat \<Rightarrow> addr \<Rightarrow> store \<Rightarrow> store" where
  "bnpDRShiftTo this n r h =
    (let h = foldl (\<lambda>h i. set_dig r (i - n) (dig this i h) h) h [n..<len this h];
         h = set_len r (len this h - n) h
     in set_sgw r (sgw this h) h)"

text \<open>The loop of \<open>bnpLShiftTo\<close>, from position \<open>i - 1\<close> down, with the carried bits \<open>c\<close>.\<close>

fun lshift_loop :: "addr \<Rightarrow> addr \<Rightarrow> int \<Rightarrow> int \<Rightarrow> int \<Rightarrow> nat \<Rightarrow> nat \<Rightarrow> int \<Rightarrow> store \<Rightarrow> int \<times> store" where
  "lshift_loop this r bs cbs bm ds 0 c h = (c, h)"
| "lshift_loop this r bs cbs bm ds (Suc i) c h =
    (let h = set_dig r (i + ds + 1) (js_or (js_shr (dig this i h) cbs) c) h;
         c = js_shl (js_and (dig this i h) bm) bs
     in lshift_loop this r bs cbs bm ds i c h)"

definition bnpLShiftTo :: "engine \<Rightarrow> addr \<Rightarrow> int \<Rightarrow> addr \<Rightarrow> store \<Rightarrow> store" where
  "bnpLShiftTo E this n r h =
    (let bs = js_rem n (DB E); cbs = DB E - bs; bm = js_shl 1 cbs - 1; ds = nat (n div DB E);
         c = js_and (js_shl (sgw this h) bs) (DM E);
         (c, h) = lshift_loop this r bs cbs bm ds (len this h) c h;
         h = zero_digits r (rev [0..<ds]) h; h = set_dig r ds c h;
         h = set_len r (len this h + ds + 1) h; h = set_sgw r (sgw this h) h
     in bnpClamp E r h)"

definition or_dig :: "addr \<Rightarrow> nat \<Rightarrow> int \<Rightarrow> store \<Rightarrow> store" where
  "or_dig r i v h = set_dig r i (js_or (dig r i h) v) h"

definition bnpRShiftTo :: "engine \<Rightarrow> addr \<Rightarrow> int \<Rightarrow> addr \<Rightarrow> store \<Rightarrow> store" where
  "bnpRShiftTo E this n r h =
    (let h = set_sgw r (sgw this h) h; ds = nat (n div DB E)
     in if ds \<ge> len this h then set_len r 0 h
        else
          let bs = js_rem n (DB E); cbs = DB E - bs; bm = js_shl 1 bs - 1;
              h = set_dig r 0 (js_shr (dig this ds h) bs) h;
              h = foldl (\<lambda>h i.
                    let h = or_dig r (i - ds - 1) (js_shl (js_and (dig this i h) bm) cbs) h
                    in set_dig r (i - ds) (js_shr (dig this i h) bs) h) h [ds + 1..<len this h];
              h = (if bs > 0 then or_dig r (len this h - ds - 1) (js_shl (js_and (sgw this h) bm) cbs) h else h);
              h = set_len r (len this h - ds) h
          in bnpClamp E r h)"

section \<open>Multiplication\<close>

fun multiply_loop :: "engine \<Rightarrow> addr \<Rightarrow> addr \<Rightarrow> addr \<Rightarrow> nat list \<Rightarrow> store \<Rightarrow> store" where
  "multiply_loop E x y r [] h = h"
| "multiply_loop E x y r (i # is) h =
    (let (c, h) = e_am E x 0 (dig y i h) r i 0 (len x h) h
     in multiply_loop E x y r is (set_dig r (i + len x h) c h))"

definition bnpMultiplyTo :: "engine \<Rightarrow> addr \<Rightarrow> addr \<Rightarrow> addr \<Rightarrow> store \<Rightarrow> store" where
  "bnpMultiplyTo E this a r h =
    (let (x, h) = bnAbs E this h; (y, h) = bnAbs E a h;
         h = set_len r (len x h + len y h) h;
         h = zero_digits r (rev [0..<len x h]) h;
         h = multiply_loop E x y r [0..<len y h] h;
         h = set_sgw r 0 h; h = bnpClamp E r h
     in if sgw this h \<noteq> sgw a h then bnpSubTo E ZERO r r h else h)"

text \<open>In \<open>r_array[k] += am(...)\<close> the old digit is read before the call.\<close>

fun square_loop :: "engine \<Rightarrow> addr \<Rightarrow> addr \<Rightarrow> nat list \<Rightarrow> store \<Rightarrow> store" where
  "square_loop E x r [] h = h"
| "square_loop E x r (i # is) h =
    (let (c, h) = e_am E x i (dig x i h) r (2 * i) 0 1 h; k = i + len x h; old = dig r k h;
         (v, h) = e_am E x (i + 1) (2 * dig x i h) r (2 * i + 1) c (len x h - i - 1) h;
         h = set_dig r k (old + v) h;
         h = (if dig r k h \<ge> DV E then set_dig r (k + 1) 1 (set_dig r k (dig r k h - DV E) h) else h)
     in square_loop E x r is h)"

definition bnpSquareTo :: "engine \<Rightarrow> addr \<Rightarrow> addr \<Rightarrow> store \<Rightarrow> store" where
  "bnpSquareTo E this r h =
    (let (x, h) = bnAbs E this h;
         h = set_len r (2 * len x h) h;
         h = zero_digits r (rev [0..<2 * len x h]) h;
         h = square_loop E x r [0..<len x h - 1] h; i = len x h - 1;
         h = (if len r h > 0 then
                (let old = dig r (len r h - 1) h; (v, h) = e_am E x i (dig x i h) r (2 * i) 0 1 h
                 in set_dig r (len r h - 1) (old + v) h)
              else h);
         h = set_sgw r 0 h
     in bnpClamp E r h)"

end
