(* ===== verification/Crypto_Mod.thy ===== *)
theory Crypto_Mod
  imports Crypto_Big
begin

text \<open>
  The rest of the basic part of \<open>v8/crypto.js\<close>: strings of radix 2, 4, 8, 16, 32 and 256, division with
  remainder, the reducers \<open>Classic\<close>, \<open>Montgomery\<close>, \<open>NullExp\<close> and \<open>Barrett\<close> (the last two from the extended part, lines
  1012 to 1095), and exponentiation by a small exponent. Loops whose end depends on the values take fuel.
\<close>

section \<open>Division with remainder\<close>

text \<open>The value of a double that \<open>Math.floor\<close> returned.\<close>

definition num_int :: "jsnum \<Rightarrow> int" where
  "num_int x = \<lfloor>num_rat x\<rfloor>"

definition estimate_digit :: "engine \<Rightarrow> jsnum \<Rightarrow> jsnum \<Rightarrow> int \<Rightarrow> int \<Rightarrow> int \<Rightarrow> int" where
  "estimate_digit E d1 d2 e ri ri1 =
    num_int (num_floor (num_add (num_mul (num_of ri) d1) (num_mul (num_of (ri1 + e)) d2)))"

text \<open>The loop \<open>while(r_array[i] < --qd) r.subTo(t,r)\<close>.\<close>

fun correct_loop :: "nat \<Rightarrow> engine \<Rightarrow> addr \<Rightarrow> addr \<Rightarrow> nat \<Rightarrow> int \<Rightarrow> store \<Rightarrow> store res" where
  "correct_loop 0 E t r i qd h = throw OutOfFuel"
| "correct_loop (Suc f) E t r i qd h =
    (if dig r i h < qd - 1 then correct_loop f E t r i (qd - 1) (bnpSubTo E r t r h) else ok h)"

fun div_loop ::
  "nat \<Rightarrow> engine \<Rightarrow> nat \<Rightarrow> addr \<Rightarrow> addr \<Rightarrow> addr \<Rightarrow> int \<Rightarrow> jsnum \<Rightarrow> jsnum \<Rightarrow> int \<Rightarrow> nat \<Rightarrow> nat \<Rightarrow> store \<Rightarrow> store res" where
  "div_loop f E ys y t r y0 d1 d2 e i 0 h = ok h"
| "div_loop f E ys y t r y0 d1 d2 e i (Suc j) h =
    (let i = i - 1; old = dig r i h;
         qd = (if old = y0 then DM E else estimate_digit E d1 d2 e old (dig r (i - 1) h));
         (v, h) = e_am E y 0 qd r j 0 ys h; h = set_dig r i (old + v) h
     in rbind (if dig r i h < qd then
                 (let h = bnpDLShiftTo y j t h; h = bnpSubTo E r t r h in correct_loop f E t r i qd h)
               else ok h) (\<lambda>h.
        div_loop f E ys y t r y0 d1 d2 e i j h))"

text \<open>\<open>while(y.t < ys) y_array[y.t++] = 0\<close>\<close>

definition pad_to :: "addr \<Rightarrow> nat \<Rightarrow> store \<Rightarrow> store" where
  "pad_to y n h =
    foldl (\<lambda>h k. set_len y (k + 1) (set_dig y k 0 h)) h [len y h..<n]"

definition opt_new :: "engine \<Rightarrow> addr option \<Rightarrow> store \<Rightarrow> addr \<times> store" where
  "opt_new E q h = (case q of None \<Rightarrow> nbi E h | Some a \<Rightarrow> (a, h))"

definition bnpDivRemTo ::
  "nat \<Rightarrow> engine \<Rightarrow> addr \<Rightarrow> addr \<Rightarrow> addr option \<Rightarrow> addr option \<Rightarrow> store \<Rightarrow> store res" where
  "bnpDivRemTo f E this m q r h =
    (let (pm, h) = bnAbs E m h
     in if len pm h = 0 then ok h
        else
          let (pt, h) = bnAbs E this h
          in if len pt h < len pm h then
               rbind (case q of None \<Rightarrow> ok h | Some q \<Rightarrow> bnpFromInt q 0 h) (\<lambda>h.
               ok (case r of None \<Rightarrow> h | Some r \<Rightarrow> bnpCopyTo this r h))
             else
               let (r, h) = opt_new E r h; (y, h) = nbi E h; ts = sgw this h; ms = sgw m h;
                   nsh = DB E - nbits (dig pm (len pm h - 1) h);
                   h = (if nsh > 0 then bnpLShiftTo E pt nsh r (bnpLShiftTo E pm nsh y h)
                        else bnpCopyTo pt r (bnpCopyTo pm y h));
                   ys = len y h; y0 = dig y (ys - 1) h
               in if y0 = 0 then ok h
                  else
                    let yt = y0 * js_shl 1 (F1 E) + (if ys > 1 then js_shr (dig y (ys - 2) h) (F2 E) else 0);
                        d1 = num_div (num_of FV) (num_of yt); d2 = num_div (num_of (js_shl 1 (F1 E))) (num_of yt);
                        e = js_shl 1 (F2 E); i = len r h; j = i - ys;
                        (t, h) = opt_new E q h;
                        h = bnpDLShiftTo y j t h;
                        h = (if bnCompareTo r t h \<ge> 0 then
                               bnpSubTo E r t r (set_len r (len r h + 1) (set_dig r (len r h) 1 h))
                             else h);
                        h = bnpDLShiftTo ONE ys t h;
                        h = bnpSubTo E t y y h;
                        h = pad_to y ys h
                    in rbind (div_loop f E ys y t r y0 d1 d2 e i j h) (\<lambda>h.
                       let h = (case q of None \<Rightarrow> h
                                | Some q \<Rightarrow> let h = bnpDRShiftTo r ys q h
                                    in if ts \<noteq> ms then bnpSubTo E ZERO q q h else h);
                           h = set_len r ys h; h = bnpClamp E r h;
                           h = (if nsh > 0 then bnpRShiftTo E r nsh r h else h)
                       in ok (if ts < 0 then bnpSubTo E ZERO r r h else h)))"

definition bnMod :: "nat \<Rightarrow> engine \<Rightarrow> addr \<Rightarrow> addr \<Rightarrow> store \<Rightarrow> (addr \<times> store) res" where
  "bnMod f E this a h =
    (let (r, h) = nbi E h; (x, h) = bnAbs E this h
     in rbind (bnpDivRemTo f E x a None (Some r) h) (\<lambda>h.
        ok (r, if sgw this h < 0 \<and> bnCompareTo r ZERO h > 0 then bnpSubTo E a r r h else h)))"

section \<open>Strings\<close>

text \<open>The first argument of \<open>fromString\<close> is a string or an array of bytes.\<close>

datatype digits = Str string | Bytes "int list"

definition src_length :: "digits \<Rightarrow> nat" where
  "src_length s = (case s of Str x \<Rightarrow> length x | Bytes x \<Rightarrow> length x)"

definition src_int :: "digits \<Rightarrow> nat \<Rightarrow> int" where
  "src_int s i = (case s of Str x \<Rightarrow> intAt x i | Bytes x \<Rightarrow> x ! i)"

definition src_minus :: "digits \<Rightarrow> nat \<Rightarrow> bool" where
  "src_minus s i = (case s of Str x \<Rightarrow> x ! i = CHR ''-'' | Bytes x \<Rightarrow> False)"

text \<open>The loop of \<open>bnpFromString\<close> over the positions below \<open>n\<close>, with \<open>mi\<close> and \<open>sh\<close>.\<close>

fun from_string_loop ::
  "engine \<Rightarrow> int \<Rightarrow> addr \<Rightarrow> digits \<Rightarrow> nat \<Rightarrow> bool \<Rightarrow> int \<Rightarrow> store \<Rightarrow> (bool \<times> int) \<times> store" where
  "from_string_loop E k this s 0 mi sh h = ((mi, sh), h)"
| "from_string_loop E k this s (Suc i) mi sh h =
    (let x = (if k = 8 then js_and (src_int s i) 0xff else src_int s i)
     in if x < 0 then from_string_loop E k this s i (if src_minus s i then True else mi) sh h
        else
          let n = len this h;
              h = (if sh = 0 then set_len this (n + 1) (set_dig this n x h)
                   else if sh + k > DB E then
                     (let h = or_dig this (n - 1) (js_shl (js_and x (js_shl 1 (DB E - sh) - 1)) sh) h
                      in set_len this (n + 1) (set_dig this n (js_shr x (DB E - sh)) h))
                   else or_dig this (n - 1) (js_shl x sh) h);
              sh = sh + k; sh = (if sh \<ge> DB E then sh - DB E else sh)
          in from_string_loop E k this s i False sh h)"

definition radix_bits :: "int \<Rightarrow> int option" where
  "radix_bits b =
    (if b = 16 then Some 4 else if b = 8 then Some 3 else if b = 256 then Some 8 else if b = 2 then Some 1
     else if b = 32 then Some 5 else if b = 4 then Some 2 else None)"

text \<open>\<open>fromRadix\<close> is a method of the extended part; the call is the argument \<open>fromRadix\<close>.\<close>

definition bnpFromString ::
  "(store \<Rightarrow> store res) \<Rightarrow> engine \<Rightarrow> addr \<Rightarrow> digits \<Rightarrow> int \<Rightarrow> store \<Rightarrow> store res" where
  "bnpFromString fromRadix E this s b h =
    (case radix_bits b of
       None \<Rightarrow> fromRadix h
     | Some k \<Rightarrow>
         (let h = set_len this 0 h; h = set_sgw this 0 h;
              ((mi, sh), h) = from_string_loop E k this s (src_length s) False 0 h;
              h = (if k = 8 \<and> js_and (src_int s 0) 0x80 \<noteq> 0 then
                     (let h = set_sgw this (- 1) h
                      in if sh > 0 then or_dig this (len this h - 1) (js_shl (js_shl 1 (DB E - sh) - 1) sh) h else h)
                   else h);
              h = bnpClamp E this h
          in ok (if mi then bnpSubTo E ZERO this this h else h)))"

text \<open>
  The loop of \<open>bnToString\<close> for a radix that is a power of two: \<open>i\<close> is one more than the position of the current digit,
  \<open>p\<close> the number of its bits that are left. Each round writes at least one bit of the number, so fuel is the number of bits.
\<close>

fun to_string_loop ::
  "nat \<Rightarrow> engine \<Rightarrow> int \<Rightarrow> int \<Rightarrow> (nat \<Rightarrow> int) \<Rightarrow> nat \<Rightarrow> int \<Rightarrow> bool \<Rightarrow> string \<Rightarrow> (bool \<times> string) res" where
  "to_string_loop 0 E k km d 0 p m r = ok (m, r)"
| "to_string_loop 0 E k km d (Suc i) p m r = throw OutOfFuel"
| "to_string_loop (Suc f) E k km d 0 p m r = ok (m, r)"
| "to_string_loop (Suc f) E k km d (Suc i) p m r =
    (let (v, i', p) =
          (if p < k then
             (let v = js_shl (js_and (d i) (js_shl 1 p - 1)) (k - p); p = p + (DB E - k)
              in (js_or v (if i = 0 then 0 else js_shr (d (i - 1)) p), i, p))
           else
             (let p = p - k; v = js_and (js_shr (d i) p) km
              in if p \<le> 0 then (v, i, p + DB E) else (v, Suc i, p)));
         m = (if v > 0 then True else m); r = (if m then r @ int2char v else r)
     in to_string_loop f E k km d i' p m r)"

definition to_string_nonneg :: "(store \<Rightarrow> string res) \<Rightarrow> nat \<Rightarrow> engine \<Rightarrow> addr \<Rightarrow> int \<Rightarrow> store \<Rightarrow> string res" where
  "to_string_nonneg toRadix f E this b h =
    (case (if b = 256 then None else radix_bits b) of
       None \<Rightarrow> toRadix h
     | Some k \<Rightarrow>
         (let km = js_shl 1 k - 1; i = len this h; p = DB E - js_rem (int i * DB E) k
          in if i = 0 then ok ''0''
             else
               let d = js_shr (dig this (i - 1) h) p; lead = (p < DB E \<and> d > 0)
               in rbind (to_string_loop f E k km (b_arr (h ! this)) i p lead (if lead then int2char d else [])) (\<lambda>(m, r).
                  ok (if m then r else ''0''))))"

text \<open>\<open>bnToString\<close>: a negative number is negated first.\<close>

definition bnToString ::
  "(addr \<Rightarrow> store \<Rightarrow> string res) \<Rightarrow> nat \<Rightarrow> engine \<Rightarrow> addr \<Rightarrow> int \<Rightarrow> store \<Rightarrow> string res" where
  "bnToString toRadix f E this b h =
    (if sgw this h < 0 then
       (let (x, h) = bnNegate E this h
        in rbind (to_string_nonneg (toRadix x) f E x b h) (\<lambda>r. ok (''-'' @ r)))
     else to_string_nonneg (toRadix this) f E this b h)"

end
