(* ===== verification/Crypto_Ext.thy ===== *)
theory Crypto_Ext
  imports Crypto_Mod
begin

unbundle bit_operations_syntax

text \<open>
  The extended part of \<open>v8/crypto.js\<close> (lines 673 to 1333) and, because it needs two of its methods, exponentiation from
  the basic part: conversions, bitwise operators, addition and products of low and high words, the four reducers,
  \<open>modPow\<close>, \<open>gcd\<close>, \<open>modInverse\<close> and the primality test.
\<close>

section \<open>Small operations\<close>

definition bnClone :: "engine \<Rightarrow> addr \<Rightarrow> store \<Rightarrow> addr \<times> store" where
  "bnClone E this h = (let (r, h) = nbi E h in (r, bnpCopyTo this r h))"

definition bnIntValue :: "engine \<Rightarrow> addr \<Rightarrow> store \<Rightarrow> int" where
  "bnIntValue E this h =
    (if sgw this h < 0 \<and> len this h = 1 then dig this 0 h - DV E
     else if sgw this h < 0 \<and> len this h = 0 then - 1
     else if \<not> sgw this h < 0 \<and> len this h = 1 then dig this 0 h
     else if \<not> sgw this h < 0 \<and> len this h = 0 then 0
     else js_or (js_shl (js_and (dig this 1 h) (js_shl 1 (32 - DB E) - 1)) (DB E)) (dig this 0 h))"

definition bnByteValue :: "addr \<Rightarrow> store \<Rightarrow> int" where
  "bnByteValue this h = (if len this h = 0 then sgw this h else js_shr (js_shl (dig this 0 h) 24) 24)"

definition bnShortValue :: "addr \<Rightarrow> store \<Rightarrow> int" where
  "bnShortValue this h = (if len this h = 0 then sgw this h else js_shr (js_shl (dig this 0 h) 16) 16)"

definition bnpChunkSize :: "engine \<Rightarrow> int \<Rightarrow> int" where
  "bnpChunkSize E r = num_int (num_floor (num_div (num_mul (LN2 E) (num_of (DB E))) (log_num E (num_of r))))"

definition bnSigNum :: "addr \<Rightarrow> store \<Rightarrow> int" where
  "bnSigNum this h =
    (if sgw this h < 0 then - 1
     else if len this h = 0 \<or> len this h = 1 \<and> dig this 0 h \<le> 0 then 0 else 1)"

definition bnEquals :: "addr \<Rightarrow> addr \<Rightarrow> store \<Rightarrow> bool" where
  "bnEquals this a h \<longleftrightarrow> bnCompareTo this a h = 0"

definition bnMin :: "addr \<Rightarrow> addr \<Rightarrow> store \<Rightarrow> addr" where
  "bnMin this a h = (if bnCompareTo this a h < 0 then this else a)"

definition bnMax :: "addr \<Rightarrow> addr \<Rightarrow> store \<Rightarrow> addr" where
  "bnMax this a h = (if bnCompareTo this a h > 0 then this else a)"

definition bnpIsEven :: "addr \<Rightarrow> store \<Rightarrow> bool" where
  "bnpIsEven this h \<longleftrightarrow> (if len this h > 0 then js_and (dig this 0 h) 1 else sgw this h) = 0"

section \<open>Bitwise operators and shifts\<close>

definition map_digits :: "addr \<Rightarrow> (nat \<Rightarrow> store \<Rightarrow> int) \<Rightarrow> nat list \<Rightarrow> store \<Rightarrow> store" where
  "map_digits r f is h = foldl (\<lambda>h i. set_dig r i (f i h) h) h is"

definition bnpBitwiseTo :: "engine \<Rightarrow> addr \<Rightarrow> addr \<Rightarrow> (int \<Rightarrow> int \<Rightarrow> int) \<Rightarrow> addr \<Rightarrow> store \<Rightarrow> store" where
  "bnpBitwiseTo E this a opr r h =
    (let m = min (len a h) (len this h);
         h = map_digits r (\<lambda>i h. opr (dig this i h) (dig a i h)) [0..<m] h;
         h = (if len a h < len this h then
                (let f = js_and (sgw a h) (DM E);
                     h = map_digits r (\<lambda>i h. opr (dig this i h) f) [m..<len this h] h
                 in set_len r (len this h) h)
              else
                (let f = js_and (sgw this h) (DM E);
                     h = map_digits r (\<lambda>i h. opr f (dig a i h)) [m..<len a h] h
                 in set_len r (len a h) h));
         h = set_sgw r (opr (sgw this h) (sgw a h)) h
     in bnpClamp E r h)"

definition op_and :: "int \<Rightarrow> int \<Rightarrow> int" where "op_and x y = js_and x y"
definition op_or :: "int \<Rightarrow> int \<Rightarrow> int" where "op_or x y = js_or x y"
definition op_xor :: "int \<Rightarrow> int \<Rightarrow> int" where "op_xor x y = js_xor x y"
definition op_andnot :: "int \<Rightarrow> int \<Rightarrow> int" where "op_andnot x y = js_and x (js_not y)"

definition bnAnd :: "engine \<Rightarrow> addr \<Rightarrow> addr \<Rightarrow> store \<Rightarrow> addr \<times> store" where
  "bnAnd E this a h = (let (r, h) = nbi E h in (r, bnpBitwiseTo E this a op_and r h))"
definition bnOr :: "engine \<Rightarrow> addr \<Rightarrow> addr \<Rightarrow> store \<Rightarrow> addr \<times> store" where
  "bnOr E this a h = (let (r, h) = nbi E h in (r, bnpBitwiseTo E this a op_or r h))"
definition bnXor :: "engine \<Rightarrow> addr \<Rightarrow> addr \<Rightarrow> store \<Rightarrow> addr \<times> store" where
  "bnXor E this a h = (let (r, h) = nbi E h in (r, bnpBitwiseTo E this a op_xor r h))"
definition bnAndNot :: "engine \<Rightarrow> addr \<Rightarrow> addr \<Rightarrow> store \<Rightarrow> addr \<times> store" where
  "bnAndNot E this a h = (let (r, h) = nbi E h in (r, bnpBitwiseTo E this a op_andnot r h))"

definition bnNot :: "engine \<Rightarrow> addr \<Rightarrow> store \<Rightarrow> addr \<times> store" where
  "bnNot E this h =
    (let (r, h) = nbi E h;
         h = map_digits r (\<lambda>i h. js_and (DM E) (js_not (dig this i h))) [0..<len this h] h;
         h = set_len r (len this h) h
     in (r, set_sgw r (js_not (sgw this h)) h))"

definition bnShiftLeft :: "engine \<Rightarrow> addr \<Rightarrow> int \<Rightarrow> store \<Rightarrow> addr \<times> store" where
  "bnShiftLeft E this n h =
    (let (r, h) = nbi E h in (r, if n < 0 then bnpRShiftTo E this (- n) r h else bnpLShiftTo E this n r h))"

definition bnShiftRight :: "engine \<Rightarrow> addr \<Rightarrow> int \<Rightarrow> store \<Rightarrow> addr \<times> store" where
  "bnShiftRight E this n h =
    (let (r, h) = nbi E h in (r, if n < 0 then bnpLShiftTo E this (- n) r h else bnpRShiftTo E this n r h))"

definition lbit :: "int \<Rightarrow> int" where
  "lbit x =
    (if x = 0 then - 1
     else
       let r = 0;
           (x, r) = (if js_and x 0xffff = 0 then (js_shr x 16, r + 16) else (x, r));
           (x, r) = (if js_and x 0xff = 0 then (js_shr x 8, r + 8) else (x, r));
           (x, r) = (if js_and x 0xf = 0 then (js_shr x 4, r + 4) else (x, r));
           (x, r) = (if js_and x 3 = 0 then (js_shr x 2, r + 2) else (x, r))
       in if js_and x 1 = 0 then r + 1 else r)"

fun lowest_loop :: "engine \<Rightarrow> (nat \<Rightarrow> int) \<Rightarrow> nat \<Rightarrow> nat \<Rightarrow> int option" where
  "lowest_loop E d i 0 = None"
| "lowest_loop E d i (Suc n) =
    (if d i \<noteq> 0 then Some (int i * DB E + lbit (d i)) else lowest_loop E d (Suc i) n)"

definition bnGetLowestSetBit :: "engine \<Rightarrow> addr \<Rightarrow> store \<Rightarrow> int" where
  "bnGetLowestSetBit E this h =
    (case lowest_loop E (b_arr (h ! this)) 0 (len this h) of
       Some k \<Rightarrow> k
     | None \<Rightarrow> if sgw this h < 0 then int (len this h) * DB E else - 1)"

text \<open>Each round of \<open>cbit\<close> clears one of the 32 bits.\<close>

fun cbit_loop :: "nat \<Rightarrow> int \<Rightarrow> int \<Rightarrow> int" where
  "cbit_loop 0 x r = r"
| "cbit_loop (Suc f) x r = (if x \<noteq> 0 then cbit_loop f (js_and x (x - 1)) (r + 1) else r)"

definition cbit :: "int \<Rightarrow> int" where
  "cbit x = cbit_loop 33 x 0"

definition bnBitCount :: "engine \<Rightarrow> addr \<Rightarrow> store \<Rightarrow> int" where
  "bnBitCount E this h =
    (let x = js_and (sgw this h) (DM E)
     in foldl (\<lambda>r i. r + cbit (js_xor (dig this i h) x)) 0 [0..<len this h])"

definition bnTestBit :: "engine \<Rightarrow> addr \<Rightarrow> int \<Rightarrow> store \<Rightarrow> bool" where
  "bnTestBit E this n h =
    (let j = n div DB E
     in if j \<ge> int (len this h) then sgw this h \<noteq> 0
        else js_and (dig this (nat j) h) (js_shl 1 (js_rem n (DB E))) \<noteq> 0)"

definition bnpChangeBit :: "engine \<Rightarrow> addr \<Rightarrow> int \<Rightarrow> (int \<Rightarrow> int \<Rightarrow> int) \<Rightarrow> store \<Rightarrow> addr \<times> store" where
  "bnpChangeBit E this n opr h =
    (let (r, h) = bnShiftLeft E ONE n h in (r, bnpBitwiseTo E this r opr r h))"

definition bnSetBit :: "engine \<Rightarrow> addr \<Rightarrow> int \<Rightarrow> store \<Rightarrow> addr \<times> store" where
  "bnSetBit E this n = bnpChangeBit E this n op_or"
definition bnClearBit :: "engine \<Rightarrow> addr \<Rightarrow> int \<Rightarrow> store \<Rightarrow> addr \<times> store" where
  "bnClearBit E this n = bnpChangeBit E this n op_andnot"
definition bnFlipBit :: "engine \<Rightarrow> addr \<Rightarrow> int \<Rightarrow> store \<Rightarrow> addr \<times> store" where
  "bnFlipBit E this n = bnpChangeBit E this n op_xor"

section \<open>Addition and the other operators of arithmetic\<close>

definition bnpAddTo :: "engine \<Rightarrow> addr \<Rightarrow> addr \<Rightarrow> addr \<Rightarrow> store \<Rightarrow> store" where
  "bnpAddTo E this a r h =
    (let ta = len a h; tt = len this h; m = min ta tt;
         (c, h) = carry_loop E r (\<lambda>i h. dig this i h + dig a i h) m 0 0 h;
         (i, c, h) =
           (if ta < tt then
              (let c = c + sgw a h; (c, h) = carry_loop E r (\<lambda>i h. dig this i h) (tt - m) m c h
               in (tt, c + sgw this h, h))
            else
              (let c = c + sgw this h; (c, h) = carry_loop E r (\<lambda>i h. dig a i h) (ta - m) m c h
               in (ta, c + sgw a h, h)));
         h = set_sgw r (if c < 0 then - 1 else 0) h;
         (i, h) =
           (if c > 0 then (Suc i, set_dig r i c h)
            else if c < - 1 then (Suc i, set_dig r i (DV E + c) h) else (i, h));
         h = set_len r i h
     in bnpClamp E r h)"

definition bnAdd :: "engine \<Rightarrow> addr \<Rightarrow> addr \<Rightarrow> store \<Rightarrow> addr \<times> store" where
  "bnAdd E this a h = (let (r, h) = nbi E h in (r, bnpAddTo E this a r h))"
definition bnSubtract :: "engine \<Rightarrow> addr \<Rightarrow> addr \<Rightarrow> store \<Rightarrow> addr \<times> store" where
  "bnSubtract E this a h = (let (r, h) = nbi E h in (r, bnpSubTo E this a r h))"
definition bnMultiply :: "engine \<Rightarrow> addr \<Rightarrow> addr \<Rightarrow> store \<Rightarrow> addr \<times> store" where
  "bnMultiply E this a h = (let (r, h) = nbi E h in (r, bnpMultiplyTo E this a r h))"
definition bnDivide :: "nat \<Rightarrow> engine \<Rightarrow> addr \<Rightarrow> addr \<Rightarrow> store \<Rightarrow> (addr \<times> store) res" where
  "bnDivide f E this a h =
    (let (r, h) = nbi E h in rbind (bnpDivRemTo f E this a (Some r) None h) (\<lambda>h. ok (r, h)))"
definition bnRemainder :: "nat \<Rightarrow> engine \<Rightarrow> addr \<Rightarrow> addr \<Rightarrow> store \<Rightarrow> (addr \<times> store) res" where
  "bnRemainder f E this a h =
    (let (r, h) = nbi E h in rbind (bnpDivRemTo f E this a None (Some r) h) (\<lambda>h. ok (r, h)))"
definition bnDivideAndRemainder :: "nat \<Rightarrow> engine \<Rightarrow> addr \<Rightarrow> addr \<Rightarrow> store \<Rightarrow> ((addr \<times> addr) \<times> store) res" where
  "bnDivideAndRemainder f E this a h =
    (let (q, h) = nbi E h; (r, h) = nbi E h
     in rbind (bnpDivRemTo f E this a (Some q) (Some r) h) (\<lambda>h. ok ((q, r), h)))"

definition bnpDMultiply :: "engine \<Rightarrow> addr \<Rightarrow> int \<Rightarrow> store \<Rightarrow> store" where
  "bnpDMultiply E this n h =
    (let (v, h) = e_am E this 0 (n - 1) this 0 0 (len this h) h;
         h = set_dig this (len this h) v h; h = set_len this (len this h + 1) h
     in bnpClamp E this h)"

text \<open>The second loop of \<open>bnpDAddOffset\<close>: it passes a carry on for at most as many digits as there are, so fuel is one more.\<close>

fun add_offset_loop :: "nat \<Rightarrow> engine \<Rightarrow> addr \<Rightarrow> nat \<Rightarrow> store \<Rightarrow> store res" where
  "add_offset_loop 0 E this w h = throw OutOfFuel"
| "add_offset_loop (Suc f) E this w h =
    (if dig this w h \<ge> DV E then
       (let h = set_dig this w (dig this w h - DV E) h; w = w + 1;
            h = (if w \<ge> len this h then set_len this (len this h + 1) (set_dig this (len this h) 0 h) else h)
        in add_offset_loop f E this w (set_dig this w (dig this w h + 1) h))
     else ok h)"

definition bnpDAddOffset :: "nat \<Rightarrow> engine \<Rightarrow> addr \<Rightarrow> int \<Rightarrow> nat \<Rightarrow> store \<Rightarrow> store res" where
  "bnpDAddOffset f E this n w h =
    (let h = pad_to this (w + 1) h in add_offset_loop f E this w (set_dig this w (dig this w h + n) h))"

definition bnpMultiplyLowerTo :: "engine \<Rightarrow> addr \<Rightarrow> addr \<Rightarrow> nat \<Rightarrow> addr \<Rightarrow> store \<Rightarrow> store" where
  "bnpMultiplyLowerTo E this a n r h =
    (let i = min (len this h + len a h) n;
         h = set_sgw r 0 h; h = set_len r i h; h = zero_digits r (rev [0..<i]) h;
         j = len r h - len this h;
         h = foldl (\<lambda>h i. let (v, h) = e_am E this 0 (dig a i h) r i 0 (len this h) h
                          in set_dig r (i + len this h) v h) h [0..<j];
         h = foldl (\<lambda>h i. snd (e_am E this 0 (dig a i h) r i 0 (n - i) h)) h [j..<min (len a h) n]
     in bnpClamp E r h)"

definition bnpMultiplyUpperTo :: "engine \<Rightarrow> addr \<Rightarrow> addr \<Rightarrow> nat \<Rightarrow> addr \<Rightarrow> store \<Rightarrow> store" where
  "bnpMultiplyUpperTo E this a n r h =
    (let n = n - 1; i = len this h + len a h - n;
         h = set_len r i h; h = set_sgw r 0 h; h = zero_digits r (rev [0..<i]) h;
         h = foldl (\<lambda>h i. let k = len this h + i - n; (v, h) = e_am E this (n - i) (dig a i h) r 0 0 k h
                          in set_dig r k v h) h [n - len this h..<len a h];
         h = bnpClamp E r h
     in bnpDRShiftTo r 1 r h)"

section \<open>Inverse of a digit and the reducers\<close>

definition bnpInvDigit :: "engine \<Rightarrow> addr \<Rightarrow> store \<Rightarrow> int" where
  "bnpInvDigit E this h =
    (if len this h < 1 then 0
     else let x = dig this 0 h
       in if js_and x 1 = 0 then 0
          else
            let y = js_and x 3;
                y = js_and (y * (2 - js_and x 0xf * y)) 0xf;
                y = js_and (y * (2 - js_and x 0xff * y)) 0xff;
                y = js_and (y * (2 - js_and (js_and x 0xffff * y) 0xffff)) 0xffff;
                y = js_rem (y * (2 - js_rem (x * y) (DV E))) (DV E)
            in if y > 0 then DV E - y else - y)"

record montgomery =
  mo_m :: addr
  mo_mp :: int
  mo_mpl :: int
  mo_mph :: int
  mo_um :: int
  mo_mt2 :: nat

record barrett =
  ba_r2 :: addr
  ba_q3 :: addr
  ba_mu :: addr
  ba_m :: addr

datatype reducer = Classic addr | Montgomery montgomery | NullExp | Barrett barrett

definition new_montgomery :: "engine \<Rightarrow> addr \<Rightarrow> store \<Rightarrow> montgomery" where
  "new_montgomery E m h =
    (let mp = bnpInvDigit E m h
     in \<lparr>mo_m = m, mo_mp = mp, mo_mpl = js_and mp 0x7fff, mo_mph = js_shr mp 15,
         mo_um = js_shl 1 (DB E - 15) - 1, mo_mt2 = 2 * len m h\<rparr>)"

text \<open>\<open>while(x_array[j] >= BI_DV) { x_array[j] -= BI_DV; x_array[++j]++; }\<close>\<close>

fun mont_carry :: "nat \<Rightarrow> engine \<Rightarrow> addr \<Rightarrow> nat \<Rightarrow> store \<Rightarrow> store res" where
  "mont_carry 0 E x j h = throw OutOfFuel"
| "mont_carry (Suc f) E x j h =
    (if dig x j h \<ge> DV E then
       (let h = set_dig x j (dig x j h - DV E) h; j = j + 1 in mont_carry f E x j (set_dig x j (dig x j h + 1) h))
     else ok h)"

fun mont_loop :: "nat \<Rightarrow> engine \<Rightarrow> montgomery \<Rightarrow> addr \<Rightarrow> nat list \<Rightarrow> store \<Rightarrow> store res" where
  "mont_loop f E z x [] h = ok h"
| "mont_loop f E z x (i # is) h =
    (let m = mo_m z; j = js_and (dig x i h) 0x7fff;
         u0 = js_and (j * mo_mpl z + js_shl (js_and (j * mo_mph z + js_shr (dig x i h) 15 * mo_mpl z) (mo_um z)) 15) (DM E);
         j = i + len m h; old = dig x j h;
         (v, h) = e_am E m 0 u0 x i 0 (len m h) h; h = set_dig x j (old + v) h
     in rbind (mont_carry f E x j h) (\<lambda>h. mont_loop f E z x is h))"

definition montReduce :: "nat \<Rightarrow> engine \<Rightarrow> montgomery \<Rightarrow> addr \<Rightarrow> store \<Rightarrow> store res" where
  "montReduce f E z x h =
    (let h = pad_to x (mo_mt2 z + 1) h
     in rbind (mont_loop f E z x [0..<len (mo_m z) h] h) (\<lambda>h.
        let h = bnpClamp E x h; h = bnpDRShiftTo x (len (mo_m z) h) x h
        in ok (if bnCompareTo x (mo_m z) h \<ge> 0 then bnpSubTo E x (mo_m z) x h else h)))"

definition montConvert :: "nat \<Rightarrow> engine \<Rightarrow> montgomery \<Rightarrow> addr \<Rightarrow> store \<Rightarrow> (addr \<times> store) res" where
  "montConvert f E z x h =
    (let (r, h) = nbi E h; (y, h) = bnAbs E x h; h = bnpDLShiftTo y (len (mo_m z) h) r h
     in rbind (bnpDivRemTo f E r (mo_m z) None (Some r) h) (\<lambda>h.
        ok (r, if sgw x h < 0 \<and> bnCompareTo r ZERO h > 0 then bnpSubTo E (mo_m z) r r h else h)))"

definition montRevert :: "nat \<Rightarrow> engine \<Rightarrow> montgomery \<Rightarrow> addr \<Rightarrow> store \<Rightarrow> (addr \<times> store) res" where
  "montRevert f E z x h =
    (let (r, h) = nbi E h; h = bnpCopyTo x r h in rbind (montReduce f E z r h) (\<lambda>h. ok (r, h)))"

definition montSqrTo :: "nat \<Rightarrow> engine \<Rightarrow> montgomery \<Rightarrow> addr \<Rightarrow> addr \<Rightarrow> store \<Rightarrow> store res" where
  "montSqrTo f E z x r h = montReduce f E z r (bnpSquareTo E x r h)"

definition montMulTo :: "nat \<Rightarrow> engine \<Rightarrow> montgomery \<Rightarrow> addr \<Rightarrow> addr \<Rightarrow> addr \<Rightarrow> store \<Rightarrow> store res" where
  "montMulTo f E z x y r h = montReduce f E z r (bnpMultiplyTo E x y r h)"

definition cConvert :: "nat \<Rightarrow> engine \<Rightarrow> addr \<Rightarrow> addr \<Rightarrow> store \<Rightarrow> (addr \<times> store) res" where
  "cConvert f E m x h =
    (if sgw x h < 0 \<or> bnCompareTo x m h \<ge> 0 then bnMod f E x m h else ok (x, h))"

definition cRevert :: "addr \<Rightarrow> addr" where
  "cRevert x = x"

definition cReduce :: "nat \<Rightarrow> engine \<Rightarrow> addr \<Rightarrow> addr \<Rightarrow> store \<Rightarrow> store res" where
  "cReduce f E m x h = bnpDivRemTo f E x m None (Some x) h"

definition cMulTo :: "nat \<Rightarrow> engine \<Rightarrow> addr \<Rightarrow> addr \<Rightarrow> addr \<Rightarrow> addr \<Rightarrow> store \<Rightarrow> store res" where
  "cMulTo f E m x y r h = cReduce f E m r (bnpMultiplyTo E x y r h)"

definition cSqrTo :: "nat \<Rightarrow> engine \<Rightarrow> addr \<Rightarrow> addr \<Rightarrow> addr \<Rightarrow> store \<Rightarrow> store res" where
  "cSqrTo f E m x r h = cReduce f E m r (bnpSquareTo E x r h)"

definition nNop :: "addr \<Rightarrow> addr" where
  "nNop x = x"

definition nMulTo :: "engine \<Rightarrow> addr \<Rightarrow> addr \<Rightarrow> addr \<Rightarrow> store \<Rightarrow> store" where
  "nMulTo E x y r = bnpMultiplyTo E x y r"

definition nSqrTo :: "engine \<Rightarrow> addr \<Rightarrow> addr \<Rightarrow> store \<Rightarrow> store" where
  "nSqrTo E x r = bnpSquareTo E x r"

definition new_barrett :: "nat \<Rightarrow> engine \<Rightarrow> addr \<Rightarrow> store \<Rightarrow> (barrett \<times> store) res" where
  "new_barrett f E m h =
    (let (r2, h) = nbi E h; (q3, h) = nbi E h; h = bnpDLShiftTo ONE (2 * len m h) r2 h
     in rbind (bnDivide f E r2 m h) (\<lambda>(mu, h). ok (\<lparr>ba_r2 = r2, ba_q3 = q3, ba_mu = mu, ba_m = m\<rparr>, h)))"

text \<open>The two correcting loops of \<open>barrettReduce\<close>.\<close>

fun barrett_up :: "nat \<Rightarrow> engine \<Rightarrow> barrett \<Rightarrow> addr \<Rightarrow> store \<Rightarrow> store res" where
  "barrett_up 0 E z x h = throw OutOfFuel"
| "barrett_up (Suc f) E z x h =
    (if bnCompareTo x (ba_r2 z) h < 0 then
       rbind (bnpDAddOffset (Suc f) E x 1 (len (ba_m z) h + 1) h) (\<lambda>h. barrett_up f E z x h)
     else ok h)"

fun barrett_down :: "nat \<Rightarrow> engine \<Rightarrow> barrett \<Rightarrow> addr \<Rightarrow> store \<Rightarrow> store res" where
  "barrett_down 0 E z x h = throw OutOfFuel"
| "barrett_down (Suc f) E z x h =
    (if bnCompareTo x (ba_m z) h \<ge> 0 then barrett_down f E z x (bnpSubTo E x (ba_m z) x h) else ok h)"

definition barrettReduce :: "nat \<Rightarrow> engine \<Rightarrow> barrett \<Rightarrow> addr \<Rightarrow> store \<Rightarrow> store res" where
  "barrettReduce f E z x h =
    (let h = bnpDRShiftTo x (len (ba_m z) h - 1) (ba_r2 z) h;
         h = (if len x h > len (ba_m z) h + 1 then bnpClamp E x (set_len x (len (ba_m z) h + 1) h) else h);
         h = bnpMultiplyUpperTo E (ba_mu z) (ba_r2 z) (len (ba_m z) h + 1) (ba_q3 z) h;
         h = bnpMultiplyLowerTo E (ba_m z) (ba_q3 z) (len (ba_m z) h + 1) (ba_r2 z) h
     in rbind (barrett_up f E z x h) (\<lambda>h. barrett_down f E z x (bnpSubTo E x (ba_r2 z) x h)))"

definition barrettConvert :: "nat \<Rightarrow> engine \<Rightarrow> barrett \<Rightarrow> addr \<Rightarrow> store \<Rightarrow> (addr \<times> store) res" where
  "barrettConvert f E z x h =
    (if sgw x h < 0 \<or> len x h > 2 * len (ba_m z) h then bnMod f E x (ba_m z) h
     else if bnCompareTo x (ba_m z) h < 0 then ok (x, h)
     else (let (r, h) = nbi E h; h = bnpCopyTo x r h
           in rbind (barrettReduce f E z r h) (\<lambda>h. ok (r, h))))"

definition barrettRevert :: "addr \<Rightarrow> addr" where
  "barrettRevert x = x"

definition barrettSqrTo :: "nat \<Rightarrow> engine \<Rightarrow> barrett \<Rightarrow> addr \<Rightarrow> addr \<Rightarrow> store \<Rightarrow> store res" where
  "barrettSqrTo f E z x r h = barrettReduce f E z r (bnpSquareTo E x r h)"

definition barrettMulTo :: "nat \<Rightarrow> engine \<Rightarrow> barrett \<Rightarrow> addr \<Rightarrow> addr \<Rightarrow> addr \<Rightarrow> store \<Rightarrow> store res" where
  "barrettMulTo f E z x y r h = barrettReduce f E z r (bnpMultiplyTo E x y r h)"

text \<open>The four methods of a reducer, by its class.\<close>

fun z_convert :: "nat \<Rightarrow> engine \<Rightarrow> reducer \<Rightarrow> addr \<Rightarrow> store \<Rightarrow> (addr \<times> store) res" where
  "z_convert f E (Classic m) x h = cConvert f E m x h"
| "z_convert f E (Montgomery z) x h = montConvert f E z x h"
| "z_convert f E NullExp x h = ok (nNop x, h)"
| "z_convert f E (Barrett z) x h = barrettConvert f E z x h"

fun z_revert :: "nat \<Rightarrow> engine \<Rightarrow> reducer \<Rightarrow> addr \<Rightarrow> store \<Rightarrow> (addr \<times> store) res" where
  "z_revert f E (Classic m) x h = ok (cRevert x, h)"
| "z_revert f E (Montgomery z) x h = montRevert f E z x h"
| "z_revert f E NullExp x h = ok (nNop x, h)"
| "z_revert f E (Barrett z) x h = ok (barrettRevert x, h)"

fun z_mulTo :: "nat \<Rightarrow> engine \<Rightarrow> reducer \<Rightarrow> addr \<Rightarrow> addr \<Rightarrow> addr \<Rightarrow> store \<Rightarrow> store res" where
  "z_mulTo f E (Classic m) x y r h = cMulTo f E m x y r h"
| "z_mulTo f E (Montgomery z) x y r h = montMulTo f E z x y r h"
| "z_mulTo f E NullExp x y r h = ok (nMulTo E x y r h)"
| "z_mulTo f E (Barrett z) x y r h = barrettMulTo f E z x y r h"

fun z_sqrTo :: "nat \<Rightarrow> engine \<Rightarrow> reducer \<Rightarrow> addr \<Rightarrow> addr \<Rightarrow> store \<Rightarrow> store res" where
  "z_sqrTo f E (Classic m) x r h = cSqrTo f E m x r h"
| "z_sqrTo f E (Montgomery z) x r h = montSqrTo f E z x r h"
| "z_sqrTo f E NullExp x r h = ok (nSqrTo E x r h)"
| "z_sqrTo f E (Barrett z) x r h = barrettSqrTo f E z x r h"

section \<open>Exponentiation\<close>

text \<open>The loop of \<open>bnpExp\<close>, with \<open>i\<close> rounds left; \<open>r\<close> and \<open>r2\<close> change roles when a bit of \<open>e\<close> is clear.\<close>

fun exp_loop :: "nat \<Rightarrow> engine \<Rightarrow> reducer \<Rightarrow> int \<Rightarrow> addr \<Rightarrow> nat \<Rightarrow> addr \<Rightarrow> addr \<Rightarrow> store \<Rightarrow> (addr \<times> store) res" where
  "exp_loop f E z e g 0 r r2 h = ok (r, h)"
| "exp_loop f E z e g (Suc i) r r2 h =
    rbind (z_sqrTo f E z r r2 h) (\<lambda>h.
      if js_and e (js_shl 1 (int i)) > 0 then
        rbind (z_mulTo f E z r2 g r h) (\<lambda>h. exp_loop f E z e g i r r2 h)
      else exp_loop f E z e g i r2 r h)"

definition bnpExp :: "nat \<Rightarrow> engine \<Rightarrow> addr \<Rightarrow> int \<Rightarrow> reducer \<Rightarrow> store \<Rightarrow> (addr \<times> store) res" where
  "bnpExp f E this e z h =
    (if e > 0xffffffff \<or> e < 1 then ok (ONE, h)
     else
       let (r, h) = nbi E h; (r2, h) = nbi E h
       in rbind (z_convert f E z this h) (\<lambda>(g, h).
          rbind (exp_loop f E z e g (nat (nbits e - 1)) r r2 (bnpCopyTo g r h)) (\<lambda>(r, h).
          z_revert f E z r h)))"

definition bnModPowInt :: "nat \<Rightarrow> engine \<Rightarrow> addr \<Rightarrow> int \<Rightarrow> addr \<Rightarrow> store \<Rightarrow> (addr \<times> store) res" where
  "bnModPowInt f E this e m h =
    bnpExp f E this e (if e < 256 \<or> bnpIsEven m h then Classic m else Montgomery (new_montgomery E m h)) h"

definition bnPow :: "nat \<Rightarrow> engine \<Rightarrow> addr \<Rightarrow> int \<Rightarrow> store \<Rightarrow> (addr \<times> store) res" where
  "bnPow f E this e h = bnpExp f E this e NullExp h"

end
