(* ===== verification/Crypto_Num.thy ===== *)
theory Crypto_Num
  imports Crypto_Ext
begin

unbundle bit_operations_syntax

text \<open>
  Number theory of \<open>v8/crypto.js\<close> (lines 1097 to 1283): sliding-window exponentiation, \<open>gcd\<close>, \<open>modInt\<close>, \<open>modInverse\<close>, the
  primality test, and the conversions from and to an arbitrary radix, to bytes and from random numbers (lines 703 to
  806). Each open-ended loop has its own fuel \<open>f\<close>.
\<close>

section \<open>Sliding-window exponentiation\<close>

fun window_bits :: "int \<Rightarrow> int" where
  "window_bits i = (if i < 18 then 1 else if i < 48 then 3 else if i < 144 then 4 else if i < 768 then 5 else 6)"

text \<open>The table \<open>g\<close> of odd powers, from \<open>n = 3\<close> up to \<open>km\<close>.\<close>

fun precompute :: "nat \<Rightarrow> nat \<Rightarrow> engine \<Rightarrow> reducer \<Rightarrow> addr \<Rightarrow> int \<Rightarrow> int \<Rightarrow> (int \<rightharpoonup> addr) \<Rightarrow> store \<Rightarrow> ((int \<rightharpoonup> addr) \<times> store) res" where
  "precompute 0 f E z g2 km n g h = throw OutOfFuel"
| "precompute (Suc k) f E z g2 km n g h =
    (if n \<le> km then
       (let (a, h) = nbi E h; g = g(n \<mapsto> a)
        in rbind (deref (g (n - 2))) (\<lambda>b. rbind (z_mulTo f E z g2 b a h) (\<lambda>h.
           precompute k f E z g2 km (n + 2) g h)))
     else ok (g, h))"

fun strip_even :: "nat \<Rightarrow> int \<Rightarrow> int \<Rightarrow> (int \<times> int) res" where
  "strip_even 0 w n = throw OutOfFuel"
| "strip_even (Suc f) w n = (if js_and w 1 = 0 then strip_even f (js_shr w 1) (n - 1) else ok (w, n))"

fun square_pairs :: "nat \<Rightarrow> nat \<Rightarrow> engine \<Rightarrow> reducer \<Rightarrow> addr \<Rightarrow> addr \<Rightarrow> int \<Rightarrow> store \<Rightarrow> (int \<times> store) res" where
  "square_pairs 0 f E z r r2 n h = throw OutOfFuel"
| "square_pairs (Suc k) f E z r r2 n h =
    (if n > 1 then
       rbind (z_sqrTo f E z r r2 h) (\<lambda>h. rbind (z_sqrTo f E z r2 r h) (\<lambda>h. square_pairs k f E z r r2 (n - 2) h))
     else ok (n, h))"

fun skip_zero_bits ::
  "nat \<Rightarrow> nat \<Rightarrow> engine \<Rightarrow> reducer \<Rightarrow> addr \<Rightarrow> addr \<Rightarrow> addr \<Rightarrow> int \<Rightarrow> int \<Rightarrow> store \<Rightarrow> ((addr \<times> addr \<times> int \<times> int) \<times> store) res" where
  "skip_zero_bits 0 f E z e r r2 i j h = throw OutOfFuel"
| "skip_zero_bits (Suc k) f E z e r r2 i j h =
    (if j \<ge> 0 \<and> js_and (dig e (nat j) h) (js_shl 1 i) = 0 then
       rbind (z_sqrTo f E z r r2 h) (\<lambda>h.
         if i - 1 < 0 then skip_zero_bits k f E z e r2 r (DB E - 1) (j - 1) h
         else skip_zero_bits k f E z e r2 r (i - 1) j h)
     else ok ((r, r2, i, j), h))"

fun window_loop ::
  "nat \<Rightarrow> nat \<Rightarrow> engine \<Rightarrow> reducer \<Rightarrow> addr \<Rightarrow> int \<Rightarrow> (int \<rightharpoonup> addr) \<Rightarrow> bool \<Rightarrow> addr \<Rightarrow> addr \<Rightarrow> int \<Rightarrow> int \<Rightarrow> store \<Rightarrow> (addr \<times> store) res" where
  "window_loop 0 f E z e k g is1 r r2 i j h = throw OutOfFuel"
| "window_loop (Suc m) f E z e k g is1 r r2 i j h =
    (if j \<ge> 0 then
       let k1 = k - 1; km = js_shl 1 k - 1;
           w = (if i \<ge> k1 then js_and (js_shr (dig e (nat j) h) (i - k1)) km
                else
                  let w = js_shl (js_and (dig e (nat j) h) (js_shl 1 (i + 1) - 1)) (k1 - i)
                  in if j > 0 then js_or w (js_shr (dig e (nat (j - 1)) h) (DB E + i - k1)) else w)
       in rbind (strip_even f w k) (\<lambda>(w, n).
          let i = i - n; (i, j) = (if i < 0 then (i + DB E, j - 1) else (i, j))
          in rbind (deref (g w)) (\<lambda>gw.
             rbind (if is1 then ok ((r, r2), bnpCopyTo gw r h)
                    else
                      rbind (square_pairs f f E z r r2 n h) (\<lambda>(n, h).
                      rbind (if n > 0 then rbind (z_sqrTo f E z r r2 h) (\<lambda>h. ok ((r, r2), h)) else ok ((r2, r), h))
                        (\<lambda>((r, r2), h).
                      rbind (z_mulTo f E z r2 gw r h) (\<lambda>h. ok ((r, r2), h))))) (\<lambda>((r, r2), h).
             rbind (skip_zero_bits f f E z e r r2 i j h) (\<lambda>((r, r2, i, j), h).
             window_loop m f E z e k g False r r2 i j h))))
     else ok (r, h))"

definition bnModPow :: "nat \<Rightarrow> engine \<Rightarrow> addr \<Rightarrow> addr \<Rightarrow> addr \<Rightarrow> store \<Rightarrow> (addr \<times> store) res" where
  "bnModPow f E this e m h =
    (let i = bnBitLength E e h
     in rbind (nbv E 1 h) (\<lambda>(r, h).
        if i \<le> 0 then ok (r, h)
        else
          let k = window_bits i
          in rbind (if i < 8 then ok (Classic m, h)
                    else if bnpIsEven m h then rbind (new_barrett f E m h) (\<lambda>(z, h). ok (Barrett z, h))
                    else ok (Montgomery (new_montgomery E m h), h)) (\<lambda>(z, h).
             rbind (z_convert f E z this h) (\<lambda>(g1, h).
             rbind (if k > 1 then
                      let (g2, h) = nbi E h
                      in rbind (z_sqrTo f E z g1 g2 h) (\<lambda>h.
                         precompute f f E z g2 (js_shl 1 k - 1) 3 [1 \<mapsto> g1] h)
                    else ok ([1 \<mapsto> g1], h)) (\<lambda>(g, h).
             let (r2, h) = nbi E h; j = int (len e h) - 1; i = nbits (dig e (nat j) h) - 1
             in rbind (window_loop f f E z e k g True r r2 i j h) (\<lambda>(r, h). z_revert f E z r h))))))"

section \<open>Divisors\<close>

fun gcd_loop :: "nat \<Rightarrow> engine \<Rightarrow> addr \<Rightarrow> addr \<Rightarrow> store \<Rightarrow> store res" where
  "gcd_loop 0 E x y h = throw OutOfFuel"
| "gcd_loop (Suc f) E x y h =
    (if bnSigNum x h > 0 then
       let i = bnGetLowestSetBit E x h; h = (if i > 0 then bnpRShiftTo E x i x h else h);
           i = bnGetLowestSetBit E y h; h = (if i > 0 then bnpRShiftTo E y i y h else h)
       in if bnCompareTo x y h \<ge> 0 then gcd_loop f E x y (bnpRShiftTo E x 1 x (bnpSubTo E x y x h))
          else gcd_loop f E x y (bnpRShiftTo E y 1 y (bnpSubTo E y x y h))
     else ok h)"

definition bnGCD :: "nat \<Rightarrow> engine \<Rightarrow> addr \<Rightarrow> addr \<Rightarrow> store \<Rightarrow> (addr \<times> store) res" where
  "bnGCD f E this a h =
    (let (x, h) = (if sgw this h < 0 then bnNegate E this h else bnClone E this h);
         (y, h) = (if sgw a h < 0 then bnNegate E a h else bnClone E a h);
         (x, y) = (if bnCompareTo x y h < 0 then (y, x) else (x, y));
         i = bnGetLowestSetBit E x h; g = bnGetLowestSetBit E y h
     in if g < 0 then ok (x, h)
        else
          let g = (if i < g then i else g);
              h = (if g > 0 then bnpRShiftTo E y g y (bnpRShiftTo E x g x h) else h)
          in rbind (gcd_loop f E x y h) (\<lambda>h.
             ok (y, if g > 0 then bnpLShiftTo E y g y h else h)))"

definition bnpModInt :: "engine \<Rightarrow> addr \<Rightarrow> int \<Rightarrow> store \<Rightarrow> int" where
  "bnpModInt E this n h =
    (if n \<le> 0 then 0
     else
       let d = js_rem (DV E) n; r = (if sgw this h < 0 then n - 1 else 0)
       in if len this h = 0 then r
          else if d = 0 then js_rem (dig this 0 h) n
          else foldl (\<lambda>r i. js_rem (d * r + dig this i h) n) r (rev [0..<len this h]))"

text \<open>
  The two inner loops of \<open>bnModInverse\<close>, which have the same text for \<open>u, a, b\<close> and for \<open>v, c, d\<close>, and the outer one.
\<close>

fun halve_loop :: "nat \<Rightarrow> engine \<Rightarrow> bool \<Rightarrow> addr \<Rightarrow> addr \<Rightarrow> addr \<Rightarrow> addr \<Rightarrow> addr \<Rightarrow> store \<Rightarrow> store res" where
  "halve_loop 0 E ac this m u a b h = throw OutOfFuel"
| "halve_loop (Suc f) E ac this m u a b h =
    (if bnpIsEven u h then
       let h = bnpRShiftTo E u 1 u h;
           h = (if ac then
                  (let h = (if \<not> bnpIsEven a h \<or> \<not> bnpIsEven b h
                            then bnpSubTo E b m b (bnpAddTo E a this a h) else h)
                   in bnpRShiftTo E a 1 a h)
                else if \<not> bnpIsEven b h then bnpSubTo E b m b h else h);
           h = bnpRShiftTo E b 1 b h
       in halve_loop f E ac this m u a b h
     else ok h)"

fun inverse_loop ::
  "nat \<Rightarrow> nat \<Rightarrow> engine \<Rightarrow> bool \<Rightarrow> addr \<Rightarrow> addr \<Rightarrow> addr \<Rightarrow> addr \<Rightarrow> addr \<Rightarrow> addr \<Rightarrow> addr \<Rightarrow> addr \<Rightarrow> store \<Rightarrow> store res" where
  "inverse_loop 0 f E ac this m u v a b c d h = throw OutOfFuel"
| "inverse_loop (Suc k) f E ac this m u v a b c d h =
    (if bnSigNum u h \<noteq> 0 then
       rbind (halve_loop f E ac this m u a b h) (\<lambda>h.
       rbind (halve_loop f E ac this m v c d h) (\<lambda>h.
       let h = (if bnCompareTo u v h \<ge> 0 then
                  let h = bnpSubTo E u v u h; h = (if ac then bnpSubTo E a c a h else h) in bnpSubTo E b d b h
                else
                  let h = bnpSubTo E v u v h; h = (if ac then bnpSubTo E c a c h else h) in bnpSubTo E d b d h)
       in inverse_loop k f E ac this m u v a b c d h))
     else ok h)"

definition bnModInverse :: "nat \<Rightarrow> engine \<Rightarrow> addr \<Rightarrow> addr \<Rightarrow> store \<Rightarrow> (addr \<times> store) res" where
  "bnModInverse f E this m h =
    (let ac = bnpIsEven m h
     in if bnpIsEven this h \<and> ac \<or> bnSigNum m h = 0 then ok (ZERO, h)
        else
          let (u, h) = bnClone E m h; (v, h) = bnClone E this h
          in rbind (nbv E 1 h) (\<lambda>(a, h). rbind (nbv E 0 h) (\<lambda>(b, h).
             rbind (nbv E 0 h) (\<lambda>(c, h). rbind (nbv E 1 h) (\<lambda>(d, h).
             rbind (inverse_loop f f E ac this m u v a b c d h) (\<lambda>h.
             if bnCompareTo v ONE h \<noteq> 0 then ok (ZERO, h)
             else if bnCompareTo d m h \<ge> 0 then ok (bnSubtract E d m h)
             else if bnSigNum d h < 0 then
               let h = bnpAddTo E d m d h
               in if bnSigNum d h < 0 then ok (bnAdd E d m h) else ok (d, h)
             else ok (d, h)))))))"

section \<open>Primes\<close>

definition lowprimes :: "int list" where
  "lowprimes = [2,3,5,7,11,13,17,19,23,29,31,37,41,43,47,53,59,61,67,71,73,79,83,89,97,101,103,107,109,113,127,131,137,
    139,149,151,157,163,167,173,179,181,191,193,197,199,211,223,227,229,233,239,241,251,257,263,269,271,277,281,283,293,
    307,311,313,317,331,337,347,349,353,359,367,373,379,383,389,397,401,409,419,421,431,433,439,443,449,457,461,463,467,
    479,487,491,499,503,509]"

definition lplim :: jsnum where
  "lplim = num_div (num_of (js_shl 1 26)) (num_of (last lowprimes))"

text \<open>The product of as many primes as stay under the limit, and how many they are.\<close>

fun gather :: "int \<Rightarrow> int list \<Rightarrow> int \<times> nat" where
  "gather m [] = (m, 0)"
| "gather m (p # ps) =
    (if num_less (num_of m) lplim then (let (m, n) = gather (m * p) ps in (m, Suc n)) else (m, 0))"

function trial_division :: "engine \<Rightarrow> addr \<Rightarrow> int list \<Rightarrow> store \<Rightarrow> bool" where
  "trial_division E x [] h = True"
| "trial_division E x (p # ps) h =
    (let (m, n) = gather p ps; m = bnpModInt E x m h
     in if \<exists>q \<in> set (p # take n ps). js_rem m q = 0 then False else trial_division E x (drop n ps) h)"
  by pat_completeness auto
termination by (relation "measure (\<lambda>(E, x, ps, h). length ps)") auto

text \<open>The inner loop of \<open>bnpMillerRabin\<close> squares \<open>y\<close> at most \<open>k - 1\<close> times; \<open>None\<close> is the \<open>return false\<close>.\<close>

fun miller_squares :: "nat \<Rightarrow> engine \<Rightarrow> addr \<Rightarrow> addr \<Rightarrow> nat \<Rightarrow> addr \<Rightarrow> store \<Rightarrow> (addr option \<times> store) res" where
  "miller_squares f E this n1 0 y h = ok (Some y, h)"
| "miller_squares f E this n1 (Suc k) y h =
    (if bnCompareTo y n1 h \<noteq> 0 then
       rbind (bnModPowInt f E y 2 this h) (\<lambda>(y, h).
         if bnCompareTo y ONE h = 0 then ok (None, h) else miller_squares f E this n1 k y h)
     else ok (Some y, h))"

fun miller_loop :: "nat \<Rightarrow> engine \<Rightarrow> addr \<Rightarrow> addr \<Rightarrow> int \<Rightarrow> addr \<Rightarrow> addr \<Rightarrow> int list \<Rightarrow> store \<Rightarrow> (bool \<times> store) res" where
  "miller_loop f E this n1 k r a [] h = ok (True, h)"
| "miller_loop f E this n1 k r a (p # ps) h =
    rbind (bnpFromInt a p h) (\<lambda>h.
    rbind (bnModPow f E a r this h) (\<lambda>(y, h).
      if bnCompareTo y ONE h \<noteq> 0 \<and> bnCompareTo y n1 h \<noteq> 0 then
        rbind (miller_squares f E this n1 (nat (k - 1)) y h) (\<lambda>(y, h).
          case y of
            None \<Rightarrow> ok (False, h)
          | Some y \<Rightarrow> if bnCompareTo y n1 h \<noteq> 0 then ok (False, h) else miller_loop f E this n1 k r a ps h)
      else miller_loop f E this n1 k r a ps h))"

definition bnpMillerRabin :: "nat \<Rightarrow> engine \<Rightarrow> addr \<Rightarrow> int \<Rightarrow> store \<Rightarrow> (bool \<times> store) res" where
  "bnpMillerRabin f E this t h =
    (let (n1, h) = bnSubtract E this ONE h; k = bnGetLowestSetBit E n1 h
     in if k \<le> 0 then ok (False, h)
        else
          let (r, h) = bnShiftRight E n1 k h; t = js_shr (t + 1) 1;
              t = (if t > int (length lowprimes) then int (length lowprimes) else t);
              (a, h) = nbi E h
          in miller_loop f E this n1 k r a (take (nat t) lowprimes) h)"

definition bnIsProbablePrime :: "nat \<Rightarrow> engine \<Rightarrow> addr \<Rightarrow> int \<Rightarrow> store \<Rightarrow> (bool \<times> store) res" where
  "bnIsProbablePrime f E this t h =
    (let (x, h) = bnAbs E this h
     in if len x h = 1 \<and> dig x 0 h \<le> last lowprimes then ok (dig x 0 h \<in> set lowprimes, h)
        else if bnpIsEven x h then ok (False, h)
        else if \<not> trial_division E x (tl lowprimes) h then ok (False, h)
        else bnpMillerRabin f E x t h)"

section \<open>Other radices\<close>

text \<open>\<open>Number.prototype.toString(b)\<close> of an integer that is not negative, for \<open>2 \<le> b \<le> 36\<close>.\<close>

function digits_of :: "int \<Rightarrow> int \<Rightarrow> string" where
  "digits_of b n = (if n < b \<or> b < 2 then int2char n else digits_of b (n div b) @ int2char (n mod b))"
  by pat_completeness auto
termination
  by (relation "measure (\<lambda>(b, n). nat n)") (auto simp: div_less_dividend not_less int_div_less_self)

definition num_toString :: "int \<Rightarrow> int \<Rightarrow> string" where
  "num_toString b n = (if n < 0 then ''-'' @ digits_of b (- n) else digits_of b n)"

fun to_radix_loop :: "nat \<Rightarrow> nat \<Rightarrow> engine \<Rightarrow> int \<Rightarrow> int \<Rightarrow> addr \<Rightarrow> addr \<Rightarrow> addr \<Rightarrow> string \<Rightarrow> store \<Rightarrow> (string \<times> store) res" where
  "to_radix_loop 0 f E b a d y z r h = throw OutOfFuel"
| "to_radix_loop (Suc k) f E b a d y z r h =
    (if bnSigNum y h > 0 then
       let r = drop 1 (num_toString b (a + bnIntValue E z h)) @ r
       in rbind (bnpDivRemTo f E y d (Some y) (Some z) h) (\<lambda>h. to_radix_loop k f E b a d y z r h)
     else ok (r, h))"

definition bnpToRadix :: "nat \<Rightarrow> engine \<Rightarrow> int \<Rightarrow> addr \<Rightarrow> store \<Rightarrow> string res" where
  "bnpToRadix f E b this h =
    (if bnSigNum this h = 0 \<or> b < 2 \<or> b > 36 then ok ''0''
     else
       let cs = bnpChunkSize E b; a = b ^ nat cs
       in rbind (nbv E a h) (\<lambda>(d, h).
          let (y, h) = nbi E h; (z, h) = nbi E h
          in rbind (bnpDivRemTo f E this d (Some y) (Some z) h) (\<lambda>h.
             rbind (to_radix_loop f f E b a d y z [] h) (\<lambda>(r, h).
             ok (num_toString b (bnIntValue E z h) @ r)))))"

fun from_radix_loop ::
  "nat \<Rightarrow> engine \<Rightarrow> string \<Rightarrow> int \<Rightarrow> int \<Rightarrow> int \<Rightarrow> addr \<Rightarrow> nat list \<Rightarrow> bool \<times> int \<times> int \<Rightarrow> store \<Rightarrow> ((bool \<times> int \<times> int) \<times> store) res" where
  "from_radix_loop f E s b cs d this [] (mi, j, w) h = ok ((mi, j, w), h)"
| "from_radix_loop f E s b cs d this (i # is) (mi, j, w) h =
    (let x = intAt s i
     in if x < 0 then
          from_radix_loop f E s b cs d this is
            (if s ! i = CHR ''-'' \<and> bnSigNum this h = 0 then True else mi, j, w) h
        else
          let w = b * w + x; j = j + 1
          in if j \<ge> cs then
               rbind (bnpDAddOffset f E this w 0 (bnpDMultiply E this d h)) (\<lambda>h.
               from_radix_loop f E s b cs d this is (mi, 0, 0) h)
             else from_radix_loop f E s b cs d this is (mi, j, w) h)"

definition bnpFromRadix :: "nat \<Rightarrow> engine \<Rightarrow> addr \<Rightarrow> string \<Rightarrow> int \<Rightarrow> store \<Rightarrow> store res" where
  "bnpFromRadix f E this s b h =
    rbind (bnpFromInt this 0 h) (\<lambda>h.
      let cs = bnpChunkSize E b; d = b ^ nat cs
      in rbind (from_radix_loop f E s b cs d this [0..<length s] (False, 0, 0) h) (\<lambda>((mi, j, w), h).
         rbind (if j > 0 then bnpDAddOffset f E this w 0 (bnpDMultiply E this (b ^ nat j) h) else ok h) (\<lambda>h.
         ok (if mi then bnpSubTo E ZERO this this h else h))))"

definition new_from_string :: "nat \<Rightarrow> engine \<Rightarrow> digits \<Rightarrow> int \<Rightarrow> store \<Rightarrow> (addr \<times> store) res" where
  "new_from_string f E s b h =
    (let (r, h) = nbi E h
     in rbind (bnpFromString (case s of Str x \<Rightarrow> bnpFromRadix f E r x b | Bytes x \<Rightarrow> (\<lambda>h. throw TypeError)) E r s b h)
          (\<lambda>h. ok (r, h)))"

definition toString :: "nat \<Rightarrow> engine \<Rightarrow> addr \<Rightarrow> int \<Rightarrow> store \<Rightarrow> string res" where
  "toString f E this b h = bnToString (\<lambda>x. bnpToRadix f E b x) f E this b h"

section \<open>Bytes\<close>

text \<open>An assignment \<open>r[k] = v\<close> to an array.\<close>

definition put :: "int list \<Rightarrow> nat \<Rightarrow> int \<Rightarrow> int list" where
  "put r k v = (if k < length r then r[k := v] else r @ replicate (k - length r) 0 @ [v])"

text \<open>The loop of \<open>bnToByteArray\<close>: \<open>i\<close> is one more than the position; the bytes written so far are \<open>r\<close>.\<close>

fun to_bytes_loop :: "nat \<Rightarrow> engine \<Rightarrow> int \<Rightarrow> (nat \<Rightarrow> int) \<Rightarrow> nat \<Rightarrow> int \<Rightarrow> nat \<Rightarrow> int list \<Rightarrow> (int list) res" where
  "to_bytes_loop 0 E s d 0 p k r = ok r"
| "to_bytes_loop 0 E s d (Suc i) p k r = throw OutOfFuel"
| "to_bytes_loop (Suc f) E s d 0 p k r = ok r"
| "to_bytes_loop (Suc f) E s d (Suc i) p k r =
    (let (v, i', p) =
          (if p < 8 then
             (let v = js_shl (js_and (d i) (js_shl 1 p - 1)) (8 - p); p = p + (DB E - 8)
              in (js_or v (if i = 0 then 0 else js_shr (d (i - 1)) p), i, p))
           else
             (let p = p - 8; v = js_and (js_shr (d i) p) 0xff
              in if p \<le> 0 then (v, i, p + DB E) else (v, Suc i, p)));
         v = (if js_and v 0x80 \<noteq> 0 then js_or v (- 256) else v);
         k = (if k = 0 \<and> js_and s 0x80 \<noteq> js_and v 0x80 then k + 1 else k)
     in if k > 0 \<or> v \<noteq> s then to_bytes_loop f E s d i' p (k + 1) (put r k v)
        else to_bytes_loop f E s d i' p k r)"


definition bnToByteArray :: "nat \<Rightarrow> engine \<Rightarrow> addr \<Rightarrow> store \<Rightarrow> int list res" where
  "bnToByteArray f E this h =
    (let i = len this h; s = sgw this h; p = DB E - js_rem (int i * DB E) 8
     in if i = 0 then ok [s]
        else
          let d = js_shr (dig this (i - 1) h) p; lead = (p < DB E \<and> d \<noteq> js_shr (js_and s (DM E)) p)
          in to_bytes_loop f E s (b_arr (h ! this)) i p (if lead then 1 else 0)
               (if lead then [js_or d (js_shl s (DB E - p))] else [s]))"

end
