(* ===== verification/Crypto_RSA.thy ===== *)
theory Crypto_RSA
  imports Crypto_Num Math_Random
begin

unbundle bit_operations_syntax

text \<open>
  The rest of \<open>v8/crypto.js\<close> (lines 1343 to 1698): the stream cipher ARC4, the pool of random bytes, PKCS#1 padding, RSA
  keys and the two benchmarks. \<open>alert\<close> is a parameter. Strings are lists of character codes.
\<close>

section \<open>ARC4\<close>

record arcfour =
  a_i :: int
  a_j :: int
  a_S :: "int list"

definition Arcfour :: arcfour where
  "Arcfour = \<lparr>a_i = 0, a_j = 0, a_S = []\<rparr>"

definition swap_elems :: "nat \<Rightarrow> nat \<Rightarrow> int list \<Rightarrow> int list" where
  "swap_elems i j xs = (let t = xs ! i; xs = xs[i := xs ! j] in xs[j := t])"

definition key_round :: "int list \<Rightarrow> int \<times> int list \<Rightarrow> nat \<Rightarrow> int \<times> int list" where
  "key_round key js i =
    (case js of (j, S) \<Rightarrow>
       let j = js_and (j + S ! i + key ! (i mod length key)) 255 in (j, swap_elems i (nat j) S))"

definition ARC4init :: "int list \<Rightarrow> arcfour \<Rightarrow> arcfour" where
  "ARC4init key c =
    (let S = List.map int [0..<256]; (j, S) = foldl (key_round key) (0, S) [0..<256]
     in \<lparr>a_i = 0, a_j = 0, a_S = S\<rparr>)"

definition ARC4next :: "arcfour \<Rightarrow> int \<times> arcfour" where
  "ARC4next c =
    (let i = js_and (a_i c + 1) 255; j = js_and (a_j c + a_S c ! nat i) 255; t = a_S c ! nat i;
         S = (a_S c)[nat i := a_S c ! nat j]; S = S[nat j := t]
     in (S ! nat (js_and (t + S ! nat i) 255), \<lparr>a_i = i, a_j = j, a_S = S\<rparr>))"

definition prng_newstate :: arcfour where
  "prng_newstate = Arcfour"

section \<open>Random bytes\<close>

definition rng_psize :: nat where "rng_psize = 256"

record rng =
  rng_state :: "arcfour option"
  rng_pool :: "int list"
  rng_pptr :: nat

definition mix_byte :: "int \<Rightarrow> rng \<Rightarrow> rng" where
  "mix_byte v g = g\<lparr>rng_pool := (rng_pool g)[rng_pptr g := js_xor (rng_pool g ! rng_pptr g) v], rng_pptr := rng_pptr g + 1\<rparr>"

definition rng_seed_int :: "int \<Rightarrow> rng \<Rightarrow> rng" where
  "rng_seed_int x g =
    (let g = mix_byte (js_and x 255) g; g = mix_byte (js_and (js_shr x 8) 255) g;
         g = mix_byte (js_and (js_shr x 16) 255) g; g = mix_byte (js_and (js_shr x 24) 255) g
     in if rng_pptr g \<ge> rng_psize then g\<lparr>rng_pptr := rng_pptr g - rng_psize\<rparr> else g)"

definition rng_seed_time :: "rng \<Rightarrow> rng" where
  "rng_seed_time = rng_seed_int 1122926989487"

text \<open>The initial pool: \<open>n\<close> pairs of bytes from \<open>Math.random\<close>, whose seed is threaded through.\<close>

fun fill_pool :: "nat \<Rightarrow> int \<Rightarrow> int list \<Rightarrow> int list \<times> int" where
  "fill_pool 0 seed pool = (pool, seed)"
| "fill_pool (Suc n) seed pool =
    (let (x, seed) = math_random seed; t = \<lfloor>65536 * x\<rfloor>
     in fill_pool n seed (pool @ [js_ushr t 8, js_and t 255]))"

definition init_rng :: "int \<Rightarrow> rng \<times> int" where
  "init_rng seed =
    (let (pool, seed) = fill_pool (rng_psize div 2) seed []
     in (rng_seed_time \<lparr>rng_state = None, rng_pool = pool, rng_pptr = 0\<rparr>, seed))"

definition start_rng :: "rng \<Rightarrow> rng" where
  "start_rng g =
    (case rng_state g of
       Some c \<Rightarrow> g
     | None \<Rightarrow>
         (let g = rng_seed_time g; c = ARC4init (rng_pool g) prng_newstate
          in \<lparr>rng_state = Some c, rng_pool = List.map (\<lambda>x. 0) (rng_pool g), rng_pptr = 0\<rparr>))"

definition rng_get_byte :: "rng \<Rightarrow> int \<times> rng" where
  "rng_get_byte g =
    (let g = start_rng g
     in case rng_state g of
          Some c \<Rightarrow> (let (b, c) = ARC4next c in (b, g\<lparr>rng_state := Some c\<rparr>))
        | None \<Rightarrow> (0, g))"

text \<open>\<open>nextBytes\<close> overwrites an array of the given length.\<close>

fun rng_get_bytes :: "nat \<Rightarrow> rng \<Rightarrow> int list \<times> rng" where
  "rng_get_bytes 0 g = ([], g)"
| "rng_get_bytes (Suc n) g =
    (let (b, g) = rng_get_byte g; (bs, g) = rng_get_bytes n g in (b # bs, g))"

definition bnpFromNumber_random :: "nat \<Rightarrow> engine \<Rightarrow> addr \<Rightarrow> int \<Rightarrow> rng \<Rightarrow> store \<Rightarrow> (rng \<times> store) res" where
  "bnpFromNumber_random f E this a g h =
    (let t = js_and a 7; (x, g) = rng_get_bytes (nat (js_shr a 3) + 1) g;
         x = x[0 := (if t > 0 then js_and (x ! 0) (js_shl 1 t - 1) else 0)]
     in rbind (bnpFromString (\<lambda>h. throw TypeError) E this (Bytes x) 256 h) (\<lambda>h. ok (g, h)))"

text \<open>The loop that looks for a prime: add 2, and take the top bit away again on overflow.\<close>

fun next_prime_loop :: "nat \<Rightarrow> nat \<Rightarrow> engine \<Rightarrow> addr \<Rightarrow> int \<Rightarrow> int \<Rightarrow> store \<Rightarrow> store res" where
  "next_prime_loop 0 f E this a b h = throw OutOfFuel"
| "next_prime_loop (Suc k) f E this a b h =
    rbind (bnIsProbablePrime f E this b h) (\<lambda>(prime, h).
      if prime then ok h
      else
        rbind (bnpDAddOffset f E this 2 0 h) (\<lambda>h.
        let h = (if bnBitLength E this h > a then
                   (let (o', h) = bnShiftLeft E ONE (a - 1) h in bnpSubTo E this o' this h) else h)
        in next_prime_loop k f E this a b h))"

definition bnpFromNumber :: "nat \<Rightarrow> engine \<Rightarrow> addr \<Rightarrow> int \<Rightarrow> int \<Rightarrow> rng \<Rightarrow> store \<Rightarrow> (rng \<times> store) res" where
  "bnpFromNumber f E this a b g h =
    (if a < 2 then rbind (bnpFromInt this 1 h) (\<lambda>h. ok (g, h))
     else
       rbind (bnpFromNumber_random f E this a g h) (\<lambda>(g, h).
       let h = (if \<not> bnTestBit E this (a - 1) h then
                  (let (o', h) = bnShiftLeft E ONE (a - 1) h in bnpBitwiseTo E this o' op_or this h) else h)
       in rbind (if bnpIsEven this h then bnpDAddOffset f E this 1 0 h else ok h) (\<lambda>h.
          rbind (next_prime_loop f f E this a b h) (\<lambda>h. ok (g, h)))))"

definition new_from_number :: "nat \<Rightarrow> engine \<Rightarrow> int \<Rightarrow> int \<Rightarrow> rng \<Rightarrow> store \<Rightarrow> (addr \<times> rng \<times> store) res" where
  "new_from_number f E a b g h =
    (let (r, h) = nbi E h in rbind (bnpFromNumber f E r a b g h) (\<lambda>(g, h). ok (r, g, h)))"

section \<open>Strings\<close>

definition parseBigInt :: "nat \<Rightarrow> engine \<Rightarrow> string \<Rightarrow> int \<Rightarrow> store \<Rightarrow> (addr \<times> store) res" where
  "parseBigInt f E str r h = new_from_string f E (Str str) r h"

text \<open>\<open>substring(i, j)\<close> of a list.\<close>

definition substring :: "'a list \<Rightarrow> nat \<Rightarrow> nat \<Rightarrow> 'a list" where
  "substring s i j = drop i (take j s)"

fun linebrk_loop :: "nat \<Rightarrow> string \<Rightarrow> nat \<Rightarrow> nat \<Rightarrow> string \<Rightarrow> string res" where
  "linebrk_loop 0 s n i ret = throw OutOfFuel"
| "linebrk_loop (Suc f) s n i ret =
    (if i + n < length s then linebrk_loop f s n (i + n) (ret @ substring s i (i + n) @ [CHR 0x0A])
     else ok (ret @ substring s i (length s)))"

definition linebrk :: "nat \<Rightarrow> string \<Rightarrow> nat \<Rightarrow> string res" where
  "linebrk f s n = linebrk_loop f s n 0 []"

definition byte2Hex :: "int \<Rightarrow> string" where
  "byte2Hex b = (if b < 0x10 then ''0'' @ num_toString 16 b else num_toString 16 b)"

section \<open>PKCS#1 padding\<close>

type_synonym codes = "int list"
type_synonym alert = "string \<Rightarrow> unit res"

text \<open>The \<open>while\<close> loop that draws bytes until one is not zero; the array \<open>ba\<close> is filled from the end.\<close>

fun nonzero_byte :: "nat \<Rightarrow> rng \<Rightarrow> (int \<times> rng) res" where
  "nonzero_byte 0 g = throw OutOfFuel"
| "nonzero_byte (Suc f) g = (let (b, g) = rng_get_byte g in if b = 0 then nonzero_byte f g else ok (b, g))"

fun pad_loop :: "nat \<Rightarrow> nat \<Rightarrow> int list \<Rightarrow> rng \<Rightarrow> (int list \<times> rng) res" where
  "pad_loop f 0 ba g = ok (ba, g)"
| "pad_loop f (Suc n) ba g =
    rbind (nonzero_byte f g) (\<lambda>(b, g). pad_loop f n (b # ba) g)"

text \<open>The bytes: 0, 2, the random bytes, 0, and the text.\<close>

definition pkcs1pad2 ::
  "alert \<Rightarrow> nat \<Rightarrow> engine \<Rightarrow> codes \<Rightarrow> int \<Rightarrow> rng \<Rightarrow> store \<Rightarrow> (addr option \<times> rng \<times> store) res" where
  "pkcs1pad2 al f E s n g h =
    (if n < int (length s) + 11 then rbind (al ''Message too long for RSA'') (\<lambda>_. ok (None, g, h))
     else
       let ba = s; ba = 0 # ba; m = nat n - length ba
       in rbind (pad_loop f (m - 2) ba g) (\<lambda>(ba, g).
          let ba = 2 # ba; ba = 0 # ba
          in rbind (new_from_string f E (Bytes ba) 256 h) (\<lambda>(r, h). ok (Some r, g, h))))"

text \<open>Reading \<open>b[i]\<close> past the end gives \<open>undefined\<close>, which is neither 0 nor 2.\<close>

definition byte_at :: "int list \<Rightarrow> nat \<Rightarrow> int option" where
  "byte_at b i = (if i < length b then Some (b ! i) else None)"

fun skip_zeros :: "int list \<Rightarrow> nat \<Rightarrow> nat" where
  "skip_zeros [] i = i"
| "skip_zeros (x # xs) i = (if x = 0 then skip_zeros xs (Suc i) else i)"

fun find_zero :: "nat \<Rightarrow> int list \<Rightarrow> nat \<Rightarrow> nat option" where
  "find_zero 0 b i = None"
| "find_zero (Suc f) b i =
    (if byte_at b i \<noteq> Some 0 then (if i + 1 \<ge> length b then None else find_zero f b (i + 1)) else Some i)"

definition fromCharCode :: "int \<Rightarrow> int" where
  "fromCharCode x = x mod 2 ^ 16"

definition unpad_bytes :: "int list \<Rightarrow> int \<Rightarrow> codes option" where
  "unpad_bytes b n =
    (let i = skip_zeros b 0
     in if int (length b) - int i \<noteq> n - 1 \<or> byte_at b i \<noteq> Some 2 then None
        else
          case find_zero (length b + 1) b (i + 1) of
            None \<Rightarrow> None
          | Some i \<Rightarrow> Some (List.map fromCharCode (drop (i + 1) b)))"

definition pkcs1unpad2 :: "nat \<Rightarrow> engine \<Rightarrow> addr \<Rightarrow> int \<Rightarrow> store \<Rightarrow> codes option res" where
  "pkcs1unpad2 f E d n h = rbind (bnToByteArray f E d h) (\<lambda>b. ok (unpad_bytes b n))"

section \<open>RSA keys\<close>

record rsa_key =
  k_n :: "addr option"
  k_e :: int
  k_d :: "addr option"
  k_p :: "addr option"
  k_q :: "addr option"
  k_dmp1 :: "addr option"
  k_dmq1 :: "addr option"
  k_coeff :: "addr option"

definition RSAKey :: rsa_key where
  "RSAKey = \<lparr>k_n = None, k_e = 0, k_d = None, k_p = None, k_q = None, k_dmp1 = None, k_dmq1 = None, k_coeff = None\<rparr>"

text \<open>\<open>parseInt(s, 16)\<close> of a string of hexadecimal digits.\<close>

definition parseInt16 :: "string \<Rightarrow> int" where
  "parseInt16 s = foldl (\<lambda>x i. 16 * x + intAt s i) 0 [0..<length s]"

definition RSASetPublic ::
  "alert \<Rightarrow> nat \<Rightarrow> engine \<Rightarrow> rsa_key \<Rightarrow> string \<Rightarrow> string \<Rightarrow> store \<Rightarrow> (rsa_key \<times> store) res" where
  "RSASetPublic al f E key N e h =
    (if length N > 0 \<and> length e > 0 then
       rbind (parseBigInt f E N 16 h) (\<lambda>(n, h). ok (key\<lparr>k_n := Some n, k_e := parseInt16 e\<rparr>, h))
     else rbind (al ''Invalid RSA public key'') (\<lambda>_. ok (key, h)))"

definition RSADoPublic :: "nat \<Rightarrow> engine \<Rightarrow> rsa_key \<Rightarrow> addr \<Rightarrow> store \<Rightarrow> (addr \<times> store) res" where
  "RSADoPublic f E key x h = rbind (deref (k_n key)) (\<lambda>n. bnModPowInt f E x (k_e key) n h)"

definition RSAEncrypt ::
  "alert \<Rightarrow> nat \<Rightarrow> engine \<Rightarrow> rsa_key \<Rightarrow> codes \<Rightarrow> rng \<Rightarrow> store \<Rightarrow> (string option \<times> rng \<times> store) res" where
  "RSAEncrypt al f E key txt g h =
    rbind (deref (k_n key)) (\<lambda>n.
    rbind (pkcs1pad2 al f E txt (js_shr (bnBitLength E n h + 7) 3) g h) (\<lambda>(m, g, h).
    case m of
      None \<Rightarrow> ok (None, g, h)
    | Some m \<Rightarrow>
        rbind (RSADoPublic f E key m h) (\<lambda>(c, h).
        rbind (toString f E c 16 h) (\<lambda>s.
        ok (Some (if even (length s) then s else ''0'' @ s), g, h)))))"

definition RSASetPrivate ::
  "alert \<Rightarrow> nat \<Rightarrow> engine \<Rightarrow> rsa_key \<Rightarrow> string \<Rightarrow> string \<Rightarrow> string \<Rightarrow> store \<Rightarrow> (rsa_key \<times> store) res" where
  "RSASetPrivate al f E key N e d h =
    (if length N > 0 \<and> length e > 0 then
       rbind (parseBigInt f E N 16 h) (\<lambda>(n, h).
       rbind (parseBigInt f E d 16 h) (\<lambda>(d, h).
       ok (key\<lparr>k_n := Some n, k_e := parseInt16 e, k_d := Some d\<rparr>, h)))
     else rbind (al ''Invalid RSA private key'') (\<lambda>_. ok (key, h)))"

definition RSASetPrivateEx ::
  "alert \<Rightarrow> nat \<Rightarrow> engine \<Rightarrow> rsa_key \<Rightarrow> string \<Rightarrow> string \<Rightarrow> string \<Rightarrow> string \<Rightarrow> string \<Rightarrow> string \<Rightarrow> string \<Rightarrow> string \<Rightarrow>
   store \<Rightarrow> (rsa_key \<times> store) res" where
  "RSASetPrivateEx al f E key N e d P Q DP DQ C h =
    (if length N > 0 \<and> length e > 0 then
       rbind (parseBigInt f E N 16 h) (\<lambda>(n, h).
       rbind (parseBigInt f E d 16 h) (\<lambda>(d, h).
       rbind (parseBigInt f E P 16 h) (\<lambda>(p, h).
       rbind (parseBigInt f E Q 16 h) (\<lambda>(q, h).
       rbind (parseBigInt f E DP 16 h) (\<lambda>(dp, h).
       rbind (parseBigInt f E DQ 16 h) (\<lambda>(dq, h).
       rbind (parseBigInt f E C 16 h) (\<lambda>(c, h).
       ok (key\<lparr>k_n := Some n, k_e := parseInt16 e, k_d := Some d, k_p := Some p, k_q := Some q,
               k_dmp1 := Some dp, k_dmq1 := Some dq, k_coeff := Some c\<rparr>, h))))))))
     else rbind (al ''Invalid RSA private key'') (\<lambda>_. ok (key, h)))"

text \<open>\<open>RSAGenerate\<close>: the search for one prime factor, and the outer loop.\<close>

fun find_factor :: "nat \<Rightarrow> nat \<Rightarrow> engine \<Rightarrow> int \<Rightarrow> addr \<Rightarrow> rng \<Rightarrow> store \<Rightarrow> (addr \<times> rng \<times> store) res" where
  "find_factor 0 f E bits ee g h = throw OutOfFuel"
| "find_factor (Suc k) f E bits ee g h =
    rbind (new_from_number f E bits 1 g h) (\<lambda>(p, g, h).
      let (p1, h) = bnSubtract E p ONE h
      in rbind (bnGCD f E p1 ee h) (\<lambda>(d, h).
         if bnCompareTo d ONE h = 0 then
           rbind (bnIsProbablePrime f E p 10 h) (\<lambda>(prime, h).
             if prime then ok (p, g, h) else find_factor k f E bits ee g h)
         else find_factor k f E bits ee g h))"

fun generate_loop :: "nat \<Rightarrow> nat \<Rightarrow> engine \<Rightarrow> rsa_key \<Rightarrow> int \<Rightarrow> int \<Rightarrow> addr \<Rightarrow> rng \<Rightarrow> store \<Rightarrow> (rsa_key \<times> rng \<times> store) res" where
  "generate_loop 0 f E key B qs ee g h = throw OutOfFuel"
| "generate_loop (Suc k) f E key B qs ee g h =
    rbind (find_factor f f E (B - qs) ee g h) (\<lambda>(p, g, h).
    rbind (find_factor f f E qs ee g h) (\<lambda>(q, g, h).
      let (p, q) = (if bnCompareTo p q h \<le> 0 then (q, p) else (p, q));
          (p1, h) = bnSubtract E p ONE h; (q1, h) = bnSubtract E q ONE h; (phi, h) = bnMultiply E p1 q1 h
      in rbind (bnGCD f E phi ee h) (\<lambda>(d, h).
         if bnCompareTo d ONE h = 0 then
           (let (n, h) = bnMultiply E p q h
            in rbind (bnModInverse f E ee phi h) (\<lambda>(d, h).
               rbind (bnMod f E d p1 h) (\<lambda>(dp, h).
               rbind (bnMod f E d q1 h) (\<lambda>(dq, h).
               rbind (bnModInverse f E q p h) (\<lambda>(c, h).
               ok (key\<lparr>k_n := Some n, k_d := Some d, k_p := Some p, k_q := Some q, k_dmp1 := Some dp,
                       k_dmq1 := Some dq, k_coeff := Some c\<rparr>, g, h))))))
         else generate_loop k f E (key\<lparr>k_p := Some p, k_q := Some q\<rparr>) B qs ee g h)))"

definition RSAGenerate :: "nat \<Rightarrow> engine \<Rightarrow> rsa_key \<Rightarrow> int \<Rightarrow> string \<Rightarrow> rng \<Rightarrow> store \<Rightarrow> (rsa_key \<times> rng \<times> store) res" where
  "RSAGenerate f E key B e g h =
    (let qs = js_shr B 1
     in rbind (new_from_string f E (Str e) 16 h) (\<lambda>(ee, h).
        generate_loop f f E (key\<lparr>k_e := parseInt16 e\<rparr>) B qs ee g h))"

text \<open>\<open>while(xp.compareTo(xq) < 0) xp = xp.add(this.p)\<close>\<close>

fun raise_loop :: "nat \<Rightarrow> engine \<Rightarrow> addr \<Rightarrow> addr \<Rightarrow> addr \<Rightarrow> store \<Rightarrow> (addr \<times> store) res" where
  "raise_loop 0 E p xp xq h = throw OutOfFuel"
| "raise_loop (Suc f) E p xp xq h =
    (if bnCompareTo xp xq h < 0 then (let (xp, h) = bnAdd E xp p h in raise_loop f E p xp xq h) else ok (xp, h))"

definition RSADoPrivate :: "nat \<Rightarrow> engine \<Rightarrow> rsa_key \<Rightarrow> addr \<Rightarrow> store \<Rightarrow> (addr \<times> store) res" where
  "RSADoPrivate f E key x h =
    (case (k_p key, k_q key) of
       (Some p, Some q) \<Rightarrow>
         rbind (deref (k_dmp1 key)) (\<lambda>dp. rbind (deref (k_dmq1 key)) (\<lambda>dq.
         rbind (bnMod f E x p h) (\<lambda>(xp, h). rbind (bnModPow f E xp dp p h) (\<lambda>(xp, h).
         rbind (bnMod f E x q h) (\<lambda>(xq, h). rbind (bnModPow f E xq dq q h) (\<lambda>(xq, h).
         rbind (raise_loop f E p xp xq h) (\<lambda>(xp, h).
         rbind (deref (k_coeff key)) (\<lambda>c.
         let (a, h) = bnSubtract E xp xq h; (a, h) = bnMultiply E a c h
         in rbind (bnMod f E a p h) (\<lambda>(a, h).
            let (a, h) = bnMultiply E a q h in ok (bnAdd E a xq h))))))))))
     | _ \<Rightarrow>
         rbind (deref (k_d key)) (\<lambda>d. rbind (deref (k_n key)) (\<lambda>n. bnModPow f E x d n h)))"

definition RSADecrypt :: "nat \<Rightarrow> engine \<Rightarrow> rsa_key \<Rightarrow> string \<Rightarrow> store \<Rightarrow> (codes option \<times> store) res" where
  "RSADecrypt f E key ctext h =
    rbind (parseBigInt f E ctext 16 h) (\<lambda>(c, h).
    rbind (RSADoPrivate f E key c h) (\<lambda>(m, h).
    rbind (deref (k_n key)) (\<lambda>n.
    rbind (pkcs1unpad2 f E m (js_shr (bnBitLength E n h + 7) 3) h) (\<lambda>t. ok (t, h)))))"

section \<open>The benchmarks\<close>

definition nValue :: string where
  "nValue =
    ''a5261939975948bb7a58dffe5ff54e65f0498f9175f5a09288810b8975871e99af3b5dd94057b0fc07535f5f97444504fa35'' @
    ''169d461d0d30cf0192e307727c065168c788771c561a9400fb49175e9e6aa4e23fe11af69e9412dd23b0cb6684c4c2429bce'' @
    ''139e848ab26d0829073351f4acd36074eafd036a5eb83359d2a698d3''"

definition eValue :: string where
  "eValue =
    ''10001''"

definition dValue :: string where
  "dValue =
    ''8e9912f6d3645894e8d38cb58c0db81ff516cf4c7e5a14c7f1eddb1459d2cded4d8d293fc97aee6aefb861859c8b6a3d1dfe'' @
    ''710463e1f9ddc72048c09751971c4a580aa51eb523357a3cc48d31cfad1d4a165066ed92d4748fb6571211da5cb14bc11b6e'' @
    ''2df7c1a559e6d5ac1cd5c94703a22891464fba23d0d965086277a161''"

definition pValue :: string where
  "pValue =
    ''d090ce58a92c75233a6486cb0a9209bf3583b64f540c76f5294bb97d285eed33aec220bde14b2417951178ac152ceab6da70'' @
    ''90905b478195498b352048f15e7d''"

definition qValue :: string where
  "qValue =
    ''cab575dc652bb66df15a0359609d51d1db184750c00c6698b90ef3465c99655103edbf0d54c56aec0ce3c4d22592338092a1'' @
    ''26a0cc49f65a4a30d222b411e58f''"

definition dmp1Value :: string where
  "dmp1Value =
    ''1a24bca8e273df2f0e47c199bbf678604e7df7215480c77c8db39f49b000ce2cf7500038acfff5433b7d582a01f1826e6f4d'' @
    ''42e1c57f5e1fef7b12aabc59fd25''"

definition dmq1Value :: string where
  "dmq1Value =
    ''3d06982efbbe47339e1f6d36b1216b8a741d410b0c662f54f7118b27b9a4ec9d914337eb39841d8666f3034408cf94f5b62f'' @
    ''11c402fc994fe15a05493150d9fd''"

definition coeffValue :: string where
  "coeffValue =
    ''3a3e731acd8960b7ff9eb81a7ff93bd1cfa74cbd56987db58b4594fb09c09084db1734c8143f98b602b981aaa9243ca28deb'' @
    ''69b5b280ee8dcee0fd2625e53250''"

definition TEXT :: codes where
  "TEXT = List.map of_char (''The quick brown fox jumped over the extremely lazy frog! '' @
    ''Now is the time for all good men to come to the party.'')"

definition benchmark_key :: "alert \<Rightarrow> nat \<Rightarrow> engine \<Rightarrow> store \<Rightarrow> (rsa_key \<times> store) res" where
  "benchmark_key al f E h =
    rbind (RSASetPublic al f E RSAKey nValue eValue h) (\<lambda>(key, h).
    RSASetPrivateEx al f E key nValue eValue dValue pValue qValue dmp1Value dmq1Value coeffValue h)"

definition encrypt :: "alert \<Rightarrow> nat \<Rightarrow> engine \<Rightarrow> rng \<Rightarrow> store \<Rightarrow> (string option \<times> rng \<times> store) res" where
  "encrypt al f E g h =
    rbind (benchmark_key al f E h) (\<lambda>(key, h). RSAEncrypt al f E key TEXT g h)"

definition decrypt :: "alert \<Rightarrow> nat \<Rightarrow> engine \<Rightarrow> string option \<Rightarrow> store \<Rightarrow> store res" where
  "decrypt al f E encrypted h =
    rbind (benchmark_key al f E h) (\<lambda>(key, h).
    rbind (deref encrypted) (\<lambda>c.
    rbind (RSADecrypt f E key c h) (\<lambda>(t, h).
    if t \<noteq> Some TEXT then throw (Thrown ''Crypto operation failed'') else ok h)))"

text \<open>The engine that the script sets up and the store after loading it: \<open>ZERO\<close> and \<open>ONE\<close>.\<close>

definition script_engine :: "jsnum \<Rightarrow> (jsnum \<Rightarrow> jsnum) \<Rightarrow> bigint \<Rightarrow> engine" where
  "script_engine l2 lg new =
    setupEngine am3 28 \<lparr>e_am = am3, dbits = 0, LN2 = l2, log_num = lg, fresh = new\<rparr>"

definition script_store :: "engine \<Rightarrow> store res" where
  "script_store E = rbind (nbv E 0 []) (\<lambda>(z, h). rbind (nbv E 1 h) (\<lambda>(o', h). ok h))"

end
