(* ===== verification/Crypto_Value.thy ===== *)
theory Crypto_Value
  imports Crypto_Ext
begin

unbundle bit_operations_syntax

text \<open>
  What the big integers of \<open>v8/crypto.js\<close> stand for: \<open>bval\<close>, the digits in base \<open>2 ^ dbits\<close> plus the sign word at the top, the
  well-formed and the clamped objects, and the frame of an operation, which writes one object of the store. Then the
  loops that pass a carry on, and with them addition and subtraction, also when the result is an operand.
\<close>

section \<open>Reading and writing the store\<close>

named_theorems store_simps \<open>what an update of the store changes\<close>

lemma update_nth:
  "a < length h \<Longrightarrow> h[a := x] ! b = (if a = b then x else h ! b)" "b \<noteq> a \<Longrightarrow> h[a := x] ! b = h ! b"
  by (cases "a = b") simp_all

lemma update_same: "f x = f (h ! a) \<Longrightarrow> f (h[a := x] ! b) = f (h ! b)"
  by (cases "a < length h") (auto simp: update_nth list_update_beyond)

lemma set_dig_nth [store_simps]:
  "length (set_dig a i v h) = length h"
  "a < length h \<Longrightarrow> dig b j (set_dig a i v h) = (if a = b \<and> i = j then v else dig b j h)"
  "len b (set_dig a i v h) = len b h" "sgw b (set_dig a i v h) = sgw b h"
  "b \<noteq> a \<Longrightarrow> set_dig a i v h ! b = h ! b"
  by (simp_all add: set_dig_def dig_def len_def sgw_def update_nth update_same [where f = b_t] update_same [where f = b_s])

lemma set_len_nth [store_simps]:
  "length (set_len a n h) = length h" "dig b j (set_len a n h) = dig b j h" "sgw b (set_len a n h) = sgw b h"
  "a < length h \<Longrightarrow> len b (set_len a n h) = (if a = b then n else len b h)"
  "b \<noteq> a \<Longrightarrow> set_len a n h ! b = h ! b"
  by (simp_all add: set_len_def dig_def len_def sgw_def update_nth update_same [where f = b_arr] update_same [where f = b_s])

lemma set_sgw_nth [store_simps]:
  "length (set_sgw a n h) = length h" "dig b j (set_sgw a n h) = dig b j h" "len b (set_sgw a n h) = len b h"
  "a < length h \<Longrightarrow> sgw b (set_sgw a n h) = (if a = b then n else sgw b h)"
  "b \<noteq> a \<Longrightarrow> set_sgw a n h ! b = h ! b"
  by (simp_all add: set_sgw_def dig_def len_def sgw_def update_nth update_same [where f = b_arr] update_same [where f = b_t])

lemma b_arr_dig: "b_arr (h ! a) = (\<lambda>i. dig a i h)"
  by (simp add: dig_def)

text \<open>Only the object \<open>r\<close> has changed; of it, only digits below \<open>k\<close>.\<close>

definition frame :: "addr \<Rightarrow> store \<Rightarrow> store \<Rightarrow> bool" where
  "frame r h h' \<longleftrightarrow> length h' = length h \<and> (\<forall>b. b \<noteq> r \<longrightarrow> h' ! b = h ! b)"

definition later :: "addr \<Rightarrow> nat \<Rightarrow> store \<Rightarrow> store \<Rightarrow> bool" where
  "later r k h h' \<longleftrightarrow> frame r h h' \<and> len r h' = len r h \<and> sgw r h' = sgw r h \<and> (\<forall>i\<ge>k. dig r i h' = dig r i h)"

lemma frame_refl [simp]: "frame r h h"
  by (simp add: frame_def)

lemma frame_trans: "frame r h h1 \<Longrightarrow> frame r h1 h2 \<Longrightarrow> frame r h h2"
  by (simp add: frame_def)

lemma frame_set [simp]: "frame r h (set_dig r i v h)" "frame r h (set_len r n h)" "frame r h (set_sgw r s h)"
  by (simp_all add: frame_def store_simps)

lemma frame_length: "frame r h h' \<Longrightarrow> length h' = length h"
  by (simp add: frame_def)

lemma frame_dig: "frame r h h' \<Longrightarrow> b \<noteq> r \<Longrightarrow> dig b i h' = dig b i h \<and> len b h' = len b h \<and> sgw b h' = sgw b h"
  by (simp add: frame_def dig_def len_def sgw_def)

lemma later_frame: "later r k h h' \<Longrightarrow> frame r h h'"
  by (simp add: later_def)

lemma later_refl [simp]: "later r k h h"
  by (simp add: later_def)

lemma later_trans: "later r k h h1 \<Longrightarrow> later r k h1 h2 \<Longrightarrow> later r k h h2"
  by (auto simp: later_def intro: frame_trans)

lemma later_mono: "later r k h h' \<Longrightarrow> k \<le> l \<Longrightarrow> later r l h h'"
  by (auto simp: later_def)

lemma later_set_dig: "r < length h \<Longrightarrow> later r (Suc i) h (set_dig r i v h)"
  by (simp add: later_def store_simps)

lemma later_len: "later r k h h' \<Longrightarrow> len b h' = len b h" "later r k h h' \<Longrightarrow> sgw b h' = sgw b h"
  by (cases "b = r"; auto simp: later_def dest: frame_dig)+

lemma later_dig: "later r k h h' \<Longrightarrow> k \<le> i \<Longrightarrow> dig b i h' = dig b i h"
  by (cases "b = r") (auto simp: later_def dest: frame_dig)

section \<open>The engine's constants\<close>

definition base :: "engine \<Rightarrow> int" where
  "base E = 2 ^ nat (dbits E)"

definition engine_ok :: "engine \<Rightarrow> bool" where
  "engine_ok E \<longleftrightarrow> 1 \<le> dbits E \<and> dbits E \<le> 30"

lemma base_bounds: assumes "engine_ok E" shows "2 \<le> base E" "base E \<le> 2 ^ 30"
proof -
  have "(2::int) ^ 1 \<le> 2 ^ nat (dbits E)" "(2::int) ^ nat (dbits E) \<le> 2 ^ 30"
    using assms unfolding engine_ok_def by (intro power_increasing; linarith)+
  then show "2 \<le> base E" "base E \<le> 2 ^ 30" by (simp_all add: base_def)
qed

lemma DV_base: assumes "engine_ok E" shows "DV E = base E" "DM E = base E - 1"
proof -
  have "is_int32 (1 * 2 ^ nat (dbits E))" "is_int32 1" using base_bounds [OF assms] by (simp_all add: is_int32_def base_def)
  then have "js_shl 1 (dbits E) = base E"
    using js_shl_mult [of 1 "dbits E"] assms by (simp add: engine_ok_def base_def)
  then show "DV E = base E" "DM E = base E - 1" by (simp_all add: DV_def DM_def)
qed

lemma and_DM: "engine_ok E \<Longrightarrow> js_and x (DM E) = x mod base E"
proof -
  assume E: "engine_ok E"
  then have "nat (dbits E) \<le> 31" unfolding engine_ok_def by linarith
  from js_and_mask [OF this] show ?thesis by (simp add: DV_base(2) [OF E] base_def)
qed

lemma shr_DB: "engine_ok E \<Longrightarrow> is_int32 x \<Longrightarrow> js_shr x (DB E) = x div base E"
  by (simp add: js_shr_div DB_def engine_ok_def base_def)

section \<open>What an object stands for\<close>

definition dsum :: "int \<Rightarrow> (nat \<Rightarrow> int) \<Rightarrow> nat \<Rightarrow> int" where
  "dsum B f n = (\<Sum>k<n. f k * B ^ k)"

definition bval :: "engine \<Rightarrow> store \<Rightarrow> addr \<Rightarrow> int" where
  "bval E h a = dsum (base E) (\<lambda>i. dig a i h) (len a h) + sgw a h * base E ^ len a h"

text \<open>Digits in range and a sign word of 0 or -1; clamped, when no digit can be dropped.\<close>

definition big :: "engine \<Rightarrow> store \<Rightarrow> addr \<Rightarrow> bool" where
  "big E h a \<longleftrightarrow> a < length h \<and> (sgw a h = 0 \<or> sgw a h = - 1) \<and> (\<forall>i<len a h. 0 \<le> dig a i h \<and> dig a i h < base E)"

definition clamped :: "engine \<Rightarrow> store \<Rightarrow> addr \<Rightarrow> bool" where
  "clamped E h a \<longleftrightarrow> len a h = 0 \<or> dig a (len a h - 1) h \<noteq> (if sgw a h < 0 then base E - 1 else 0)"

lemma dsum_simps [simp]: "dsum B f 0 = 0" "dsum B f (Suc n) = dsum B f n + f n * B ^ n"
  by (simp_all add: dsum_def)

lemma dsum_shift: "dsum B f (Suc n) = f 0 + B * dsum B (\<lambda>k. f (Suc k)) n"
  unfolding dsum_def sum.lessThan_Suc_shift by (simp add: sum_distrib_left algebra_simps)

lemma dsum_add: "dsum B f (m + n) = dsum B f m + B ^ m * dsum B (\<lambda>k. f (m + k)) n"
  by (induction n) (simp_all add: algebra_simps power_add)

lemma dsum_cong: "(\<And>k. k < n \<Longrightarrow> f k = g k) \<Longrightarrow> dsum B f n = dsum B g n"
  by (simp add: dsum_def)

lemma dsum_diff: "dsum B (\<lambda>k. f k - g k) n = dsum B f n - dsum B g n"
  by (simp add: dsum_def sum_subtractf left_diff_distrib)

lemma dsum_plus: "dsum B (\<lambda>k. f k + g k) n = dsum B f n + dsum B g n"
  by (simp add: dsum_def sum.distrib distrib_right)

lemma dsum_neg: "dsum B (\<lambda>k. - f k) n = - dsum B f n"
  by (simp add: dsum_def sum_negf)

lemma dsum_bounds:
  assumes "0 < B" "\<And>k. k < n \<Longrightarrow> 0 \<le> f k \<and> f k < B"
  shows "0 \<le> dsum B f n" "dsum B f n < B ^ n"
proof -
  have "0 \<le> dsum B f n \<and> dsum B f n < B ^ n" using assms(2)
  proof (induction n)
    case (Suc n)
    have "0 \<le> f n" "f n \<le> B - 1" using Suc.prems [of n] by simp_all
    then have "f n * B ^ n \<le> (B - 1) * B ^ n" "0 \<le> f n * B ^ n" using assms(1) by (auto intro!: mult_right_mono)
    then show ?case using Suc by (simp add: algebra_simps)
  qed simp
  then show "0 \<le> dsum B f n" "dsum B f n < B ^ n" by simp_all
qed

section \<open>Clamping\<close>

lemma clamp_loop_le: "clamp_loop c d n \<le> n"
  by (induction n) auto

lemma clamp_loop_stop: "clamp_loop c d n = 0 \<or> d (clamp_loop c d n - 1) \<noteq> c"
  by (induction n) auto

lemma clamp_loop_value:
  "dsum B d (clamp_loop (s mod B) d n) + s * B ^ clamp_loop (s mod B) d n = dsum B d n + s * B ^ n"
  if "s = 0 \<or> s = - 1" "2 \<le> B"
proof (induction n)
  case (Suc n)
  have m: "(- 1) mod B = B - 1" using that(2) by (simp add: zmod_minus1)
  show ?case
  proof (cases "d n = s mod B")
    case True
    then show ?thesis using Suc that(1) by (auto simp: m algebra_simps)
  qed simp
qed simp

lemma bnpClamp_correct:
  assumes E: "engine_ok E" and a: "big E h a"
  shows "frame a h (bnpClamp E a h)" "big E (bnpClamp E a h) a" "clamped E (bnpClamp E a h) a"
    "bval E (bnpClamp E a h) a = bval E h a" "sgw a (bnpClamp E a h) = sgw a h"
    "dig b i (bnpClamp E a h) = dig b i h" "len a (bnpClamp E a h) \<le> len a h"
proof -
  define n where "n = clamp_loop (sgw a h mod base E) (\<lambda>i. dig a i h) (len a h)"
  have c: "bnpClamp E a h = set_len a n h"
    by (simp add: bnpClamp_def and_DM [OF E] b_arr_dig n_def)
  have l: "a < length h" and s: "sgw a h = 0 \<or> sgw a h = - 1" using a by (auto simp: big_def)
  have n: "n \<le> len a h" unfolding n_def by (rule clamp_loop_le)
  have B: "2 \<le> base E" by (rule base_bounds [OF E])
  have m: "(- 1) mod base E = base E - 1" using B by (simp add: zmod_minus1)
  show "frame a h (bnpClamp E a h)" "sgw a (bnpClamp E a h) = sgw a h" "dig b i (bnpClamp E a h) = dig b i h"
    by (simp_all add: c store_simps)
  show "len a (bnpClamp E a h) \<le> len a h" using n l by (simp add: c store_simps)
  show "big E (bnpClamp E a h) a" using a n l by (simp add: c big_def store_simps)
  show "clamped E (bnpClamp E a h) a"
    using clamp_loop_stop [of "sgw a h mod base E" "\<lambda>i. dig a i h" "len a h"] s
    by (auto simp: c clamped_def store_simps l m n_def)
  show "bval E (bnpClamp E a h) a = bval E h a"
    using clamp_loop_value [OF s B, of "\<lambda>i. dig a i h" "len a h"] by (simp add: c bval_def store_simps l n_def)
qed

section \<open>The carry loop\<close>

lemma carry_loop_later:
  "carry_loop E r f n i c h = (c', h') \<Longrightarrow> r < length h \<Longrightarrow> later r (i + n) h h'"
proof (induction n arbitrary: i c h)
  case (Suc n)
  obtain v d where "carry_loop E r f n (Suc i) v (set_dig r i d h) = (c', h')" using Suc.prems(1) by (simp add: Let_def)
  then have "later r (Suc i + n) (set_dig r i d h) h'" by (rule Suc.IH) (simp add: Suc.prems store_simps)
  then show ?case
    using later_trans [OF later_mono [OF later_set_dig [OF Suc.prems(2), of i d]], of "Suc i + n" h'] by simp
qed simp

lemma div_between:
  fixes v :: int
  assumes "0 < B" "lo * B \<le> v" "v < (hi + 1) * B"
  shows "lo \<le> v div B" "v div B \<le> hi"
proof -
  show "lo \<le> v div B" using zdiv_mono1 [OF assms(2,1)] assms(1) by simp
  have "v div B * B \<le> v" using assms(1) by (simp add: minus_mod_eq_div_mult [symmetric])
  then have "v div B * B < (hi + 1) * B" using assms(3) by linarith
  then show "v div B \<le> hi" using assms(1) by simp
qed

lemma carry_loop_correct:
  assumes "carry_loop E r f n i c h = (c', h')" and E: "engine_ok E" and "r < length h"
    and "\<And>k g. i \<le> k \<Longrightarrow> later r k h g \<Longrightarrow> f k g = f k h"
    and "\<And>k. i \<le> k \<Longrightarrow> k < i + n \<Longrightarrow> lo * base E \<le> lo + f k h \<and> hi + f k h < (hi + 1) * base E"
    and "lo \<le> c" "c \<le> hi" and lim: "- (2 ^ 31) \<le> lo * base E" "(hi + 1) * base E \<le> 2 ^ 31"
  shows "later r (i + n) h h'" and "\<And>k. k < i \<Longrightarrow> dig r k h' = dig r k h"
    and "\<And>k. i \<le> k \<Longrightarrow> k < i + n \<Longrightarrow> 0 \<le> dig r k h' \<and> dig r k h' < base E"
    and "lo \<le> c'" "c' \<le> hi"
    and "dsum (base E) (\<lambda>k. dig r (i + k) h') n + c' * base E ^ n = c + dsum (base E) (\<lambda>k. f (i + k) h) n"
proof -
  have B: "2 \<le> base E" by (rule base_bounds [OF E])
  have P: "later r (i + n) h h' \<and> (\<forall>k<i. dig r k h' = dig r k h) \<and>
      (\<forall>k. i \<le> k \<and> k < i + n \<longrightarrow> 0 \<le> dig r k h' \<and> dig r k h' < base E) \<and> lo \<le> c' \<and> c' \<le> hi \<and>
      dsum (base E) (\<lambda>k. dig r (i + k) h') n + c' * base E ^ n = c + dsum (base E) (\<lambda>k. f (i + k) h) n"
    using assms(1,3-7)
  proof (induction n arbitrary: i c h)
    case 0
    show ?case using "0.prems"(1,5,6) by simp
  next
    case (Suc n)
    define v where "v = c + f i h"
    define h1 where "h1 = set_dig r i (v mod base E) h"
    have b: "lo * base E \<le> v" "v < (hi + 1) * base E"
      using Suc.prems(4) [of i] Suc.prems(5,6) by (simp_all add: v_def)
    have "is_int32 v" using b lim by (simp add: is_int32_def)
    then have run: "carry_loop E r f n (Suc i) (v div base E) h1 = (c', h')"
      using Suc.prems(1) by (simp add: v_def [symmetric] and_DM [OF E] shr_DB [OF E] h1_def)
    have c1: "lo \<le> v div base E" "v div base E \<le> hi"
      using div_between [OF _ b] B by simp_all
    have l1: "later r (Suc i) h h1" unfolding h1_def by (rule later_set_dig [OF Suc.prems(2)])
    have r1: "r < length h1" using Suc.prems(2) by (simp add: h1_def store_simps)
    have f1: "f k h1 = f k h" if "Suc i \<le> k" for k
      using Suc.prems(3) [of k h1] later_mono [OF l1] that by simp
    have IH: "later r (Suc i + n) h1 h' \<and> (\<forall>k<Suc i. dig r k h' = dig r k h1) \<and>
      (\<forall>k. Suc i \<le> k \<and> k < Suc i + n \<longrightarrow> 0 \<le> dig r k h' \<and> dig r k h' < base E) \<and> lo \<le> c' \<and> c' \<le> hi \<and>
      dsum (base E) (\<lambda>k. dig r (Suc i + k) h') n + c' * base E ^ n = v div base E + dsum (base E) (\<lambda>k. f (Suc i + k) h1) n"
    proof (rule Suc.IH [OF run r1 _ _ c1])
      show "f k g = f k h1" if "Suc i \<le> k" "later r k h1 g" for k g
        using Suc.prems(3) [of k g] later_trans [OF later_mono [OF l1] that(2)] that f1 by simp
      show "lo * base E \<le> lo + f k h1 \<and> hi + f k h1 < (hi + 1) * base E" if "Suc i \<le> k" "k < Suc i + n" for k
        using Suc.prems(4) [of k] that f1 [of k] by simp
    qed
    have d: "dig r i h' = v mod base E" using IH Suc.prems(2) by (simp add: h1_def store_simps)
    have "dsum (base E) (\<lambda>k. dig r (i + k) h') (Suc n) + c' * base E ^ Suc n =
        v mod base E + base E * (dsum (base E) (\<lambda>k. dig r (Suc i + k) h') n + c' * base E ^ n)"
      by (simp add: dsum_shift d algebra_simps del: dsum_simps)
    also have "\<dots> = v + base E * dsum (base E) (\<lambda>k. f (Suc i + k) h1) n"
      using IH by (simp add: algebra_simps)
    also have "dsum (base E) (\<lambda>k. f (Suc i + k) h1) n = dsum (base E) (\<lambda>k. f (i + Suc k) h) n"
      by (rule dsum_cong) (simp add: f1)
    also have "v + base E * dsum (base E) (\<lambda>k. f (i + Suc k) h) n = c + dsum (base E) (\<lambda>k. f (i + k) h) (Suc n)"
      by (simp add: dsum_shift v_def del: dsum_simps)
    finally have e: "dsum (base E) (\<lambda>k. dig r (i + k) h') (Suc n) + c' * base E ^ Suc n = c + dsum (base E) (\<lambda>k. f (i + k) h) (Suc n)" .
    have "later r (i + Suc n) h h'" using later_trans [OF later_mono [OF l1]] IH by simp
    moreover have "\<forall>k<i. dig r k h' = dig r k h" using IH Suc.prems(2) by (simp add: h1_def store_simps)
    moreover have "0 \<le> dig r k h' \<and> dig r k h' < base E" if "i \<le> k \<and> k < i + Suc n" for k
      using IH that d B by (cases "k = i") auto
    ultimately show ?case using IH e by blast
  qed
  show "later r (i + n) h h'" "lo \<le> c'" "c' \<le> hi"
    "dsum (base E) (\<lambda>k. dig r (i + k) h') n + c' * base E ^ n = c + dsum (base E) (\<lambda>k. f (i + k) h) n"
    using P by simp_all
  show "dig r k h' = dig r k h" if "k < i" for k using P that by simp
  show "0 \<le> dig r k h' \<and> dig r k h' < base E" if "i \<le> k" "k < i + n" for k using P that by simp
qed

text \<open>What \<open>subTo\<close> and \<open>addTo\<close> do after their loops: \<open>n\<close> digits of \<open>r\<close> are written and \<open>c\<close> is left over.\<close>

definition finish :: "engine \<Rightarrow> addr \<Rightarrow> nat \<Rightarrow> int \<Rightarrow> store \<Rightarrow> store" where
  "finish E r n c h =
    (let h = set_sgw r (if c < 0 then - 1 else 0) h;
         (i, h) =
           (if c < - 1 then (Suc n, set_dig r n (DV E + c) h)
            else if c > 0 then (Suc n, set_dig r n c h) else (n, h))
     in bnpClamp E r (set_len r i h))"

definition result_of :: "engine \<Rightarrow> addr \<Rightarrow> int \<Rightarrow> store \<Rightarrow> store \<Rightarrow> bool" where
  "result_of E r v h h' \<longleftrightarrow> frame r h h' \<and> big E h' r \<and> clamped E h' r \<and> bval E h' r = v"

lemma finish_correct:
  assumes E: "engine_ok E" and r: "r < length h" and d: "\<And>k. k < n \<Longrightarrow> 0 \<le> dig r k h \<and> dig r k h < base E"
    and c: "- 2 \<le> c" "c \<le> 1"
  shows "result_of E r (dsum (base E) (\<lambda>k. dig r k h) n + c * base E ^ n) h (finish E r n c h)"
proof -
  have B: "2 \<le> base E" by (rule base_bounds [OF E])
  define h1 where "h1 = set_sgw r (if c < 0 then - 1 else 0) h"
  define i where "i = (if c < - 1 \<or> c > 0 then Suc n else n)"
  define h2 where "h2 = (if c < - 1 then set_dig r n (DV E + c) h1 else if c > 0 then set_dig r n c h1 else h1)"
  define h3 where "h3 = set_len r i h2"
  have f: "finish E r n c h = bnpClamp E r h3"
    by (simp add: finish_def Let_def h3_def h2_def h1_def i_def)
  have fr: "frame r h h3" by (simp add: frame_def h3_def h2_def h1_def store_simps)
  have s: "sgw r h3 = (if c < 0 then - 1 else 0)" "len r h3 = i" "r < length h3"
    using r by (simp_all add: h3_def h2_def h1_def store_simps)
  have dg: "dig r k h3 = (if k = n \<and> c < - 1 then base E + c else if k = n \<and> c > 0 then c else dig r k h)" for k
    using r by (simp add: h3_def h2_def h1_def store_simps DV_base [OF E])
  have b: "big E h3 r"
    unfolding big_def s(1,2) dg using d c B s(3) by (auto simp: i_def less_Suc_eq)
  have ds: "dsum (base E) (\<lambda>k. dig r k h3) n = dsum (base E) (\<lambda>k. dig r k h) n"
    by (rule dsum_cong) (simp add: dg)
  have v: "bval E h3 r = dsum (base E) (\<lambda>k. dig r k h) n + c * base E ^ n"
  proof -
    consider "c = - 2" | "c = - 1" | "c = 0" | "c = 1" using c by linarith
    then show ?thesis unfolding bval_def s i_def by cases (simp_all add: ds dg [of n] algebra_simps)
  qed
  note C = bnpClamp_correct [OF E b]
  show ?thesis unfolding result_of_def f using C frame_trans [OF fr C(1)] v by simp
qed

text \<open>Two carry loops in a row, with the sign word \<open>s\<close> of the shorter object added in between.\<close>

lemma two_loops:
  assumes E: "engine_ok E" and r: "r < length h"
    and l1: "carry_loop E r f m 0 0 h = (c1, h1)" and l2: "carry_loop E r g n m (c1 + s) h1 = (c2, h2)"
    and f0: "\<forall>k h'. later r k h h' \<longrightarrow> f k h' = f k h" and g0: "\<forall>k h'. later r k h h' \<longrightarrow> g k h' = g k h"
    and bf0: "\<forall>k<m. lo1 * base E \<le> lo1 + f k h \<and> hi1 + f k h < (hi1 + 1) * base E"
    and bg0: "\<forall>k. m \<le> k \<and> k < m + n \<longrightarrow> lo2 * base E \<le> lo2 + g k h \<and> hi2 + g k h < (hi2 + 1) * base E"
    and lim: "- 2 \<le> lo1" "lo1 \<le> 0" "0 \<le> hi1" "hi1 \<le> 1" "- 2 \<le> lo2" "lo2 \<le> lo1 + s" "hi1 + s \<le> hi2" "hi2 \<le> 1"
  shows "frame r h h2" "len b h2 = len b h" "sgw b h2 = sgw b h"
    "\<And>k. k < m + n \<Longrightarrow> 0 \<le> dig r k h2 \<and> dig r k h2 < base E" "lo2 \<le> c2" "c2 \<le> hi2"
    "dsum (base E) (\<lambda>k. dig r k h2) (m + n) + c2 * base E ^ (m + n) =
      dsum (base E) (\<lambda>k. f k h) m + base E ^ m * (s + dsum (base E) (\<lambda>k. g (m + k) h) n)"
proof -
  note B = base_bounds [OF E]
  have lims: "- (2 ^ 31) \<le> lo * base E" "(hi + 1) * base E \<le> 2 ^ 31" if "- 2 \<le> lo" "hi \<le> 1" for lo hi
  proof -
    have "- 2 * base E \<le> lo * base E" "(hi + 1) * base E \<le> 2 * base E" using that B by (intro mult_right_mono; simp)+
    moreover have "2 * base E \<le> 2 ^ 31" "- (2 ^ 31) \<le> - 2 * base E" using B by simp_all
    ultimately show "- (2 ^ 31) \<le> lo * base E" "(hi + 1) * base E \<le> 2 ^ 31" by (blast intro: order.trans)+
  qed
  have f: "f k h' = f k h" if "later r k h h'" for k h' using f0 that by blast
  have g: "g k h' = g k h" if "later r k h h'" for k h' using g0 that by blast
  have bf: "lo1 * base E \<le> lo1 + f k h \<and> hi1 + f k h < (hi1 + 1) * base E" if "k < 0 + m" for k using bf0 that by simp
  note A = carry_loop_correct [OF l1 E r f bf lim(2,3) lims [OF lim(1,4)], simplified]
  have r1: "r < length h1" using A(1) r by (simp add: later_def frame_def)
  have gh: "g k h1 = g k h" if "m \<le> k" for k using g [of k h1] later_mono [OF A(1) that] by simp
  have gg: "g k h' = g k h1" if "m \<le> k" "later r k h1 h'" for k h'
    using g [of k h'] gh [OF that(1)] later_trans [OF later_mono [OF A(1) that(1)] that(2)] by simp
  have bg1: "lo2 * base E \<le> lo2 + g k h1 \<and> hi2 + g k h1 < (hi2 + 1) * base E" if "m \<le> k" "k < m + n" for k
    using bg0 that gh [OF that(1)] by simp
  have c: "lo2 \<le> c1 + s" "c1 + s \<le> hi2" using A(4,5) lim by linarith+
  note C = carry_loop_correct [OF l2 E r1 gg bg1 c lims [OF lim(5,8)]]
  have lt: "later r (m + n) h h2" using later_trans [OF later_mono [OF A(1)] C(1)] by simp
  show "frame r h h2" "len b h2 = len b h" "sgw b h2 = sgw b h"
    using later_frame [OF lt] later_len [OF lt] by simp_all
  show "0 \<le> dig r k h2 \<and> dig r k h2 < base E" if "k < m + n" for k
    using A(3) [of k] C(2,3) [of k] that by (cases "k < m") simp_all
  show "lo2 \<le> c2" by (rule C(4))
  show "c2 \<le> hi2" by (rule C(5))
  have e1: "dsum (base E) (\<lambda>k. dig r k h2) m = dsum (base E) (\<lambda>k. dig r k h1) m" by (rule dsum_cong) (rule C(2))
  have e2: "dsum (base E) (\<lambda>k. g (m + k) h1) n = dsum (base E) (\<lambda>k. g (m + k) h) n" by (rule dsum_cong) (simp add: gh)
  have "dsum (base E) (\<lambda>k. dig r k h2) (m + n) + c2 * base E ^ (m + n) =
      dsum (base E) (\<lambda>k. dig r k h1) m + base E ^ m * (dsum (base E) (\<lambda>k. dig r (m + k) h2) n + c2 * base E ^ n)"
    unfolding dsum_add e1 by (simp add: power_add algebra_simps)
  also have "\<dots> = dsum (base E) (\<lambda>k. dig r k h1) m + base E ^ m * (c1 + s + dsum (base E) (\<lambda>k. g (m + k) h) n)"
    by (simp only: C(6) e2)
  also have "\<dots> = (dsum (base E) (\<lambda>k. dig r k h1) m + c1 * base E ^ m) + base E ^ m * (s + dsum (base E) (\<lambda>k. g (m + k) h) n)"
    by (simp add: algebra_simps)
  also have "dsum (base E) (\<lambda>k. dig r k h1) m + c1 * base E ^ m = dsum (base E) (\<lambda>k. f k h) m"
    using A(6) by simp
  finally show "dsum (base E) (\<lambda>k. dig r k h2) (m + n) + c2 * base E ^ (m + n) =
      dsum (base E) (\<lambda>k. f k h) m + base E ^ m * (s + dsum (base E) (\<lambda>k. g (m + k) h) n)" .
qed

lemma bval_split: "m \<le> len a h \<Longrightarrow> bval E h a =
    dsum (base E) (\<lambda>k. dig a k h) m + base E ^ m * (dsum (base E) (\<lambda>k. dig a (m + k) h) (len a h - m) + sgw a h * base E ^ (len a h - m))"
  using dsum_add [of "base E" "\<lambda>k. dig a k h" m "len a h - m"]
  by (simp add: bval_def distrib_left power_add [symmetric] mult.left_commute)

lemma big_digits: "big E h a \<Longrightarrow> k < len a h \<Longrightarrow> 0 \<le> dig a k h \<and> dig a k h < base E"
  by (simp add: big_def)

lemma big_sgw: "big E h a \<Longrightarrow> sgw a h = 0 \<or> sgw a h = - 1"
  by (simp add: big_def)

text \<open>\<open>x + g y\<close> for a sign \<open>g\<close>: the computation that \<open>addTo\<close> and \<open>subTo\<close> share.\<close>

lemma signed_sum:
  assumes E: "engine_ok E" and x: "big E h x" and y: "big E h y" and r: "r < length h"
    and sg: "sg = 1 \<or> sg = - 1" and m: "m = min (len y h) (len x h)"
    and l1: "carry_loop E r (\<lambda>i h. dig x i h + sg * dig y i h) m 0 0 h = (c1, h1)"
  shows "len y h < len x h \<Longrightarrow> carry_loop E r (\<lambda>i h. dig x i h) (len x h - m) m (c1 + sg * sgw y h) h1 = (c2, h2) \<Longrightarrow>
      result_of E r (bval E h x + sg * bval E h y) h (finish E r (len x h) (c2 + sgw x h) h2) \<and> sgw x h2 = sgw x h"
    "\<not> len y h < len x h \<Longrightarrow> carry_loop E r (\<lambda>i h. sg * dig y i h) (len y h - m) m (c1 + sgw x h) h1 = (c2, h2) \<Longrightarrow>
      result_of E r (bval E h x + sg * bval E h y) h (finish E r (len y h) (c2 + sg * sgw y h) h2) \<and> sgw y h2 = sgw y h"
proof -
  note B = base_bounds [OF E] and sx = big_sgw [OF x] and sy = big_sgw [OF y]
  note dx = big_digits [OF x] and dy = big_digits [OF y]
  define lo hi where "lo = (if sg = 1 then 0 else - 1 :: int)" and "hi = lo + 1"
  have lim: "- 2 \<le> lo" "lo \<le> 0" "0 \<le> hi" "hi \<le> 1" by (auto simp: lo_def hi_def)
  let ?f = "\<lambda>i h. dig x i h + sg * dig y i h"
  have f: "\<forall>k h'. later r k h h' \<longrightarrow> ?f k h' = ?f k h" by (simp add: later_dig)
  have bf: "\<forall>k<m. lo * base E \<le> lo + ?f k h \<and> hi + ?f k h < (hi + 1) * base E"
  proof (intro allI impI)
    fix k assume "k < m"
    then show "lo * base E \<le> lo + ?f k h \<and> hi + ?f k h < (hi + 1) * base E"
      using dx [of k] dy [of k] sg by (auto simp: m lo_def hi_def)
  qed
  have low: "dsum (base E) (\<lambda>k. ?f k h) m = dsum (base E) (\<lambda>k. dig x k h) m + sg * dsum (base E) (\<lambda>k. dig y k h) m"
    using sg by (auto simp: dsum_plus dsum_diff dsum_neg)
  {
    assume c: "len y h < len x h" and l2: "carry_loop E r (\<lambda>i h. dig x i h) (len x h - m) m (c1 + sg * sgw y h) h1 = (c2, h2)"
    have mx: "m + (len x h - m) = len x h" "m = len y h" using c by (simp_all add: m)
    have g: "\<forall>k h'. later r k h h' \<longrightarrow> dig x k h' = dig x k h" by (simp add: later_dig)
    have bg: "\<forall>k. m \<le> k \<and> k < m + (len x h - m) \<longrightarrow> - 1 * base E \<le> - 1 + dig x k h \<and> 1 + dig x k h < (1 + 1) * base E"
      using dx B unfolding mx(1) by fastforce
    have l: "- 2 \<le> (- 1::int)" "- 1 \<le> lo + sg * sgw y h" "hi + sg * sgw y h \<le> 1" "(1::int) \<le> 1"
      using sy sg by (auto simp: lo_def hi_def)
    note T = two_loops [OF E r l1 l2 f g bf bg lim l]
    have c2: "- 2 \<le> c2 + sgw x h" "c2 + sgw x h \<le> 1" using T(5,6) sx by auto
    have r2: "r < length h2" using T(1) r by (simp add: frame_def)
    have d: "0 \<le> dig r k h2 \<and> dig r k h2 < base E" if "k < len x h" for k using T(4) [of k] that mx(1) by simp
    have v: "dsum (base E) (\<lambda>k. dig r k h2) (len x h) + (c2 + sgw x h) * base E ^ len x h = bval E h x + sg * bval E h y"
      using T(7) bval_split [of m x h E] c unfolding mx(1) low
      by (simp add: mx(2) bval_def [of E h y] algebra_simps power_add [symmetric])
    show "result_of E r (bval E h x + sg * bval E h y) h (finish E r (len x h) (c2 + sgw x h) h2) \<and> sgw x h2 = sgw x h"
      using finish_correct [OF E r2 d c2] frame_trans [OF T(1)] T(3) v by (simp add: result_of_def)
  next
    assume c: "\<not> len y h < len x h" and l2: "carry_loop E r (\<lambda>i h. sg * dig y i h) (len y h - m) m (c1 + sgw x h) h1 = (c2, h2)"
    have mx: "m + (len y h - m) = len y h" "m = len x h" using c by (simp_all add: m)
    have g: "\<forall>k h'. later r k h h' \<longrightarrow> sg * dig y k h' = sg * dig y k h" by (simp add: later_dig)
    have bg: "\<forall>k. m \<le> k \<and> k < m + (len y h - m) \<longrightarrow>
      (lo - 1) * base E \<le> lo - 1 + sg * dig y k h \<and> hi + sg * dig y k h < (hi + 1) * base E"
    proof (intro allI impI)
      fix k assume "m \<le> k \<and> k < m + (len y h - m)"
      then show "(lo - 1) * base E \<le> lo - 1 + sg * dig y k h \<and> hi + sg * dig y k h < (hi + 1) * base E"
        using dy [of k] B sg unfolding mx(1) by (elim disjE) (simp_all add: lo_def hi_def)
    qed
    have l: "- 2 \<le> lo - 1" "lo - 1 \<le> lo + sgw x h" "hi + sgw x h \<le> hi" "hi \<le> 1"
      using sx by (auto simp: lo_def hi_def)
    note T = two_loops [OF E r l1 l2 f g bf bg lim l]
    have c2: "- 2 \<le> c2 + sg * sgw y h" "c2 + sg * sgw y h \<le> 1" using T(5,6) sy sg by (auto simp: lo_def hi_def)
    have r2: "r < length h2" using T(1) r by (simp add: frame_def)
    have neg: "dsum (base E) (\<lambda>k. sg * dig y (m + k) h) n = sg * dsum (base E) (\<lambda>k. dig y (m + k) h) n" for n
      using sg by (auto simp: dsum_neg)
    have d: "0 \<le> dig r k h2 \<and> dig r k h2 < base E" if "k < len y h" for k using T(4) [of k] that mx(1) by simp
    have v: "dsum (base E) (\<lambda>k. dig r k h2) (len y h) + (c2 + sg * sgw y h) * base E ^ len y h = bval E h x + sg * bval E h y"
      using T(7) bval_split [of m y h E] c unfolding mx(1) low neg
      by (simp add: mx(2) bval_def [of E h x] algebra_simps power_add [symmetric])
    show "result_of E r (bval E h x + sg * bval E h y) h (finish E r (len y h) (c2 + sg * sgw y h) h2) \<and> sgw y h2 = sgw y h"
      using finish_correct [OF E r2 d c2] frame_trans [OF T(1)] T(3) v by (simp add: result_of_def)
  }
qed

lemma bnpSubTo_correct:
  assumes E: "engine_ok E" and x: "big E h x" and y: "big E h y" and r: "r < length h"
  shows "result_of E r (bval E h x - bval E h y) h (bnpSubTo E x y r h)"
proof -
  define m where "m = min (len y h) (len x h)"
  obtain c1 h1 where l1: "carry_loop E r (\<lambda>i h. dig x i h + - 1 * dig y i h) m 0 0 h = (c1, h1)" by fastforce
  note lt = later_len [OF carry_loop_later [OF l1 r]]
  note S = signed_sum [OF E x y r _ m_def l1, simplified]
  show ?thesis
  proof (cases "len y h < len x h")
    case True
    obtain c2 h2 where l2: "carry_loop E r (\<lambda>i h. dig x i h) (len x h - m) m (c1 - sgw y h) h1 = (c2, h2)" by fastforce
    have "bnpSubTo E x y r h = finish E r (len x h) (c2 + sgw x h2) h2"
      using True l1 l2 lt by (simp add: bnpSubTo_def finish_def m_def Let_def split: prod.splits)
    then show ?thesis using S(1) [OF True l2] by simp
  next
    case False
    obtain c2 h2 where l2: "carry_loop E r (\<lambda>i h. - dig y i h) (len y h - m) m (c1 + sgw x h) h1 = (c2, h2)" by fastforce
    have "bnpSubTo E x y r h = finish E r (len y h) (c2 - sgw y h2) h2"
      using False l1 l2 lt by (simp add: bnpSubTo_def finish_def m_def Let_def split: prod.splits)
    then show ?thesis using S(2) l2 False by simp
  qed
qed

lemma bnpAddTo_correct:
  assumes E: "engine_ok E" and x: "big E h x" and y: "big E h y" and r: "r < length h"
  shows "result_of E r (bval E h x + bval E h y) h (bnpAddTo E x y r h)"
proof -
  define m where "m = min (len y h) (len x h)"
  obtain c1 h1 where l1: "carry_loop E r (\<lambda>i h. dig x i h + 1 * dig y i h) m 0 0 h = (c1, h1)" by fastforce
  note lt = later_len [OF carry_loop_later [OF l1 r]]
  note S = signed_sum [OF E x y r _ m_def l1, simplified]
  show ?thesis
  proof (cases "len y h < len x h")
    case True
    obtain c2 h2 where l2: "carry_loop E r (\<lambda>i h. dig x i h) (len x h - m) m (c1 + sgw y h) h1 = (c2, h2)" by fastforce
    have "bnpAddTo E x y r h = finish E r (len x h) (c2 + sgw x h2) h2"
      using True l1 l2 lt by (auto simp: bnpAddTo_def finish_def m_def Let_def split: prod.splits)
    then show ?thesis using S(1) [OF True l2] by simp
  next
    case False
    obtain c2 h2 where l2: "carry_loop E r (\<lambda>i h. dig y i h) (len y h - m) m (c1 + sgw x h) h1 = (c2, h2)" by fastforce
    have "bnpAddTo E x y r h = finish E r (len y h) (c2 + sgw y h2) h2"
      using False l1 l2 lt by (auto simp: bnpAddTo_def finish_def m_def Let_def split: prod.splits)
    then show ?thesis using S(2) l2 False by simp
  qed
qed
end
