(* ===== verification/Crypto_Bytes.thy ===== *)
theory Crypto_Bytes
  imports Crypto_RSA Crypto_Value
begin

unbundle bit_operations_syntax

text \<open>
  Byte arrays and big integers in \<open>v8/crypto.js\<close>: what \<open>fromString\<close> of an array of bytes and \<open>toByteArray\<close> compute, bit by bit. A
  digit of the number is a slice of its bits (\<open>digit\<close>); the first loop adds a byte at the top, across two digits when it does
  not fit, and the second takes one from the top.
\<close>

section \<open>Digits as bits\<close>

definition digit :: "nat \<Rightarrow> int \<Rightarrow> nat \<Rightarrow> int" where
  "digit D N j = take_bit D (drop_bit (D * j) N)"

lemma dsum_digit:
  assumes "\<forall>i<n. 0 \<le> f i \<and> f i < 2 ^ D" "j < n"
  shows "digit D (dsum (2 ^ D) f n) j = f j"
  using assms
proof (induction n arbitrary: f j)
  case (Suc n)
  define S where "S = dsum (2 ^ D) (\<lambda>k. f (Suc k)) n"
  have s: "dsum (2 ^ D) f (Suc n) = f 0 + 2 ^ D * S" by (simp add: dsum_shift S_def del: dsum_simps)
  have f0: "f 0 mod 2 ^ D = f 0" "f 0 div 2 ^ D = 0" using Suc.prems(1) by auto
  show ?case
  proof (cases j)
    case 0
    then show ?thesis by (simp add: digit_def s take_bit_eq_mod f0 del: dsum_simps)
  next
    case (Suc k)
    have "digit D S k = f (Suc k)" unfolding S_def using Suc.prems Suc by (intro Suc.IH) auto
    moreover have "drop_bit (D * j) (f 0 + 2 ^ D * S) = drop_bit (D * k) S"
      by (simp add: Suc drop_bit_eq_div power_add zdiv_zmult2_eq f0)
    ultimately show ?thesis using Suc by (simp add: digit_def s del: dsum_simps)
  qed
qed simp

lemma digit_bit: "bit (digit D N j) k \<longleftrightarrow> k < D \<and> bit N (D * j + k)"
  by (simp add: digit_def bit_simps)

lemma bits_above: "0 \<le> N \<Longrightarrow> N < 2 ^ m \<Longrightarrow> m \<le> k \<Longrightarrow> \<not> bit N k" for N :: int
  by (metis bit_take_bit_iff leD take_bit_int_eq_self)

text \<open>One more byte at the top.\<close>

definition with_byte :: "int \<Rightarrow> nat \<Rightarrow> int \<Rightarrow> int" where
  "with_byte N m x = N + x * 2 ^ (8 * m)"

lemma with_byte_or: "0 \<le> N \<Longrightarrow> N < 2 ^ (8 * m) \<Longrightarrow> with_byte N m x = N OR push_bit (8 * m) x"
proof -
  assume N: "0 \<le> N" "N < 2 ^ (8 * m)"
  have "N AND push_bit (8 * m) x = 0"
    by (rule bit_eqI) (auto simp: bit_simps dest: bits_above [OF N])
  then have "N + push_bit (8 * m) x = N OR push_bit (8 * m) x" by (rule disjunctive_add_eq_or)
  then show ?thesis by (simp only: with_byte_def push_bit_eq_mult)
qed

lemma with_byte_bit:
  "0 \<le> N \<Longrightarrow> N < 2 ^ (8 * m) \<Longrightarrow> bit (with_byte N m x) k \<longleftrightarrow> bit N k \<or> (8 * m \<le> k \<and> bit x (k - 8 * m))"
  by (simp add: with_byte_or bit_simps)

lemma byte_bit: "0 \<le> x \<Longrightarrow> x < 256 \<Longrightarrow> 8 \<le> k \<Longrightarrow> \<not> bit x k" for x :: int
  using bits_above [of x 8 k] by simp

text \<open>Where the new byte falls: \<open>q\<close> full digits and \<open>sh\<close> bits are there.\<close>

lemma with_byte_digits:
  assumes N: "0 \<le> N" "N < 2 ^ (8 * m)" and x: "0 \<le> x" "x < 256" and q: "8 * m = D * q + sh" "sh < D" and D: "8 \<le> D"
  shows "j < q \<Longrightarrow> digit D (with_byte N m x) j = digit D N j"
    "digit D (with_byte N m x) q = digit D N q OR push_bit sh (take_bit (D - sh) x)"
    "digit D (with_byte N m x) (Suc q) = drop_bit (D - sh) x"
proof -
  show "digit D (with_byte N m x) j = digit D N j" if "j < q"
  proof (rule bit_eqI)
    fix k
    have "D * Suc j \<le> D * q" using that by (intro mult_le_mono) auto
    then have "k < D \<Longrightarrow> D * j + k < 8 * m" using q(1) by simp
    then show "bit (digit D (with_byte N m x) j) k = bit (digit D N j) k"
      by (auto simp: digit_bit with_byte_bit [OF N])
  qed
  show "digit D (with_byte N m x) q = digit D N q OR push_bit sh (take_bit (D - sh) x)"
    by (rule bit_eqI) (auto simp: digit_bit with_byte_bit [OF N] bit_simps q(1))
  show "digit D (with_byte N m x) (Suc q) = drop_bit (D - sh) x"
  proof (rule bit_eqI)
    fix k
    have "\<not> bit N (D * Suc q + k)" using q by (intro bits_above [OF N]) simp
    moreover have "D * Suc q + k - 8 * m = D - sh + k" "8 * m \<le> D * Suc q + k" using q by simp_all
    moreover have "bit x (D - sh + k) \<Longrightarrow> k < D" using byte_bit [OF x, of "D - sh + k"] D by linarith
    ultimately show "bit (digit D (with_byte N m x) (Suc q)) k = bit (drop_bit (D - sh) x) k"
      by (auto simp: digit_bit with_byte_bit [OF N] bit_simps)
  qed
qed

section \<open>The 32-bit operators on small numbers\<close>

lemma small_int32: "0 \<le> x \<Longrightarrow> x < 2 ^ 31 \<Longrightarrow> is_int32 x"
  by (simp add: is_int32_def)

lemma small_or: "0 \<le> x \<Longrightarrow> x < 2 ^ 31 \<Longrightarrow> 0 \<le> y \<Longrightarrow> y < 2 ^ 31 \<Longrightarrow> js_or x y = x OR y"
  by (simp add: js_or_def small_int32)

lemma small_shl: "0 \<le> x \<Longrightarrow> push_bit n x < 2 ^ 31 \<Longrightarrow> n < 32 \<Longrightarrow> js_shl x (int n) = push_bit n x"
proof -
  assume x: "0 \<le> x" "push_bit n x < 2 ^ 31" "n < 32"
  have "x * 1 \<le> x * 2 ^ n" using x(1) by (intro mult_left_mono) auto
  then have "x < 2 ^ 31" using x(2) by (simp add: push_bit_eq_mult)
  moreover have "0 \<le> push_bit n x" using x(1) by simp
  ultimately show ?thesis using x by (simp add: js_shl_def small_int32)
qed

lemma small_shr: "0 \<le> x \<Longrightarrow> x < 2 ^ 31 \<Longrightarrow> n < 32 \<Longrightarrow> js_shr x (int n) = drop_bit n x"
  by (simp add: js_shr_def small_int32)

lemma small_mask: "n \<le> 30 \<Longrightarrow> js_and x (js_shl 1 (int n) - 1) = take_bit n x"
proof -
  assume n: "n \<le> 30"
  then have "(2::int) ^ n \<le> 2 ^ 30" by (intro power_increasing) auto
  then have "js_shl 1 (int n) = 2 ^ n" using small_shl [of 1 n] n by (simp add: push_bit_eq_mult)
  then show ?thesis using js_and_mask [of n x] n by (simp add: take_bit_eq_mod)
qed

lemma take_bit_small: "D \<le> 30 \<Longrightarrow> 0 \<le> take_bit D x \<and> take_bit D x < 2 ^ 31" for x :: int
proof -
  assume "D \<le> 30"
  then have "(2::int) ^ D < 2 ^ 31" by (intro power_strict_increasing) auto
  then show ?thesis using take_bit_int_less_exp [of D x] less_trans by (intro conjI) (rule take_bit_nonnegative, blast)
qed

lemma push_take_small: "sh \<le> D \<Longrightarrow> D \<le> 30 \<Longrightarrow> 0 \<le> push_bit sh (take_bit (D - sh) x) \<and> push_bit sh (take_bit (D - sh) x) < 2 ^ 31" for x :: int
  using take_bit_small [of D "push_bit sh x"] by (simp only: take_bit_push_bit)

lemma digit_small: "D \<le> 30 \<Longrightarrow> 0 \<le> digit D N j \<and> digit D N j < 2 ^ 31"
  unfolding digit_def by (rule take_bit_small)

section \<open>From bytes to a number\<close>

text \<open>The value of the bytes, the last one lowest.\<close>

definition bev :: "int list \<Rightarrow> int" where
  "bev bs = dsum 256 (\<lambda>j. rev bs ! j) (length bs)"

text \<open>The state of the loop after \<open>m\<close> bytes with the value \<open>N\<close>.\<close>

definition bytes_inv :: "nat \<Rightarrow> addr \<Rightarrow> nat \<Rightarrow> int \<Rightarrow> int \<Rightarrow> store \<Rightarrow> bool" where
  "bytes_inv D a m N sh h \<longleftrightarrow> a < length h \<and> sgw a h = 0 \<and> 0 \<le> N \<and> N < 2 ^ (8 * m) \<and>
     sh = int (8 * m mod D) \<and> len a h = (8 * m + D - 1) div D \<and> (\<forall>j<len a h. dig a j h = digit D N j)"

lemma with_byte_bound: "0 \<le> N \<Longrightarrow> N < 2 ^ (8 * m) \<Longrightarrow> 0 \<le> x \<Longrightarrow> x < 256 \<Longrightarrow> 0 \<le> with_byte N m x \<and> with_byte N m x < 2 ^ (8 * Suc m)"
proof -
  assume N: "0 \<le> N" "N < 2 ^ (8 * m)" and x: "0 \<le> x" "x < 256"
  have "x * 2 ^ (8 * m) \<le> 255 * 2 ^ (8 * m)" using x by (intro mult_right_mono) auto
  then have "N + x * 2 ^ (8 * m) < 256 * 2 ^ (8 * m)" using N by linarith
  then show ?thesis using N x by (simp add: with_byte_def power_add)
qed

lemma div_mod_part: "r < D \<Longrightarrow> (D * q + r) div D = q" "r < D \<Longrightarrow> (D * q + r) mod D = r" for r D q :: nat
  by simp_all

lemma ceil_steps:
  assumes "8 * m = D * q + sh" "sh < D" "8 \<le> D"
  shows "(8 * m + D - 1) div D = (if sh = 0 then q else Suc q)"
    "(8 * Suc m + D - 1) div D = (if sh + 8 \<le> D then Suc q else Suc (Suc q))"
    "8 * Suc m mod D = (if sh + 8 \<ge> D then sh + 8 - D else sh + 8)"
proof -
  have e: "8 * m + D - 1 = (if sh = 0 then D * q + (D - 1) else D * Suc q + (sh - 1))" using assms by (cases sh) simp_all
  show "(8 * m + D - 1) div D = (if sh = 0 then q else Suc q)"
    unfolding e using assms(2,3) div_mod_part(1) [of "D - 1" D q] div_mod_part(1) [of "sh - 1" D "Suc q"] by auto
  have e: "8 * Suc m + D - 1 = (if sh + 8 \<le> D then D * Suc q + (sh + 7) else D * Suc (Suc q) + (sh + 7 - D))" using assms by simp
  show "(8 * Suc m + D - 1) div D = (if sh + 8 \<le> D then Suc q else Suc (Suc q))"
    unfolding e using assms(2,3) div_mod_part(1) [of "sh + 7" D "Suc q"] div_mod_part(1) [of "sh + 7 - D" D "Suc (Suc q)"] by auto
  have e: "8 * Suc m = (if sh + 8 \<ge> D then D * Suc q + (sh + 8 - D) else D * q + (sh + 8))" using assms by simp
  show "8 * Suc m mod D = (if sh + 8 \<ge> D then sh + 8 - D else sh + 8)"
    unfolding e using assms(2,3) div_mod_part(2) [of "sh + 8 - D" D "Suc q"] div_mod_part(2) [of "sh + 8" D q] by auto
qed

lemma frame_step:
  "frame r h h' \<Longrightarrow> frame r h (set_dig r i v h')" "frame r h h' \<Longrightarrow> frame r h (set_len r n h')" "frame r h h' \<Longrightarrow> frame r h (set_sgw r s h')"
  by (erule frame_trans, rule frame_set)+

lemma bytes_inv_step:
  assumes inv: "bytes_inv D a m N sh h" and x: "0 \<le> x" "x < 256" and E: "DB E = int D" "8 \<le> D" "D \<le> 30"
    and h': "h' = (let n = len a h in
        if sh = 0 then set_len a (n + 1) (set_dig a n x h)
        else if sh + 8 > DB E then
          (let h = or_dig a (n - 1) (js_shl (js_and x (js_shl 1 (DB E - sh) - 1)) sh) h
           in set_len a (n + 1) (set_dig a n (js_shr x (DB E - sh)) h))
        else or_dig a (n - 1) (js_shl x sh) h)"
    and sh': "sh' = (let sh = sh + 8 in if sh \<ge> DB E then sh - DB E else sh)"
  shows "bytes_inv D a (Suc m) (with_byte N m x) sh' h'" "frame a h h'"
proof -
  define q where "q = 8 * m div D"
  define s where "s = 8 * m mod D"
  have qs: "8 * m = D * q + s" "s < D" using E(2) by (simp_all add: q_def s_def)
  have a: "a < length h" "sgw a h = 0" and N: "0 \<le> N" "N < 2 ^ (8 * m)" and sh: "sh = int s"
    and len: "len a h = (if s = 0 then q else Suc q)" and dig: "\<forall>j<len a h. dig a j h = digit D N j"
    using inv unfolding bytes_inv_def s_def [symmetric] ceil_steps(1) [OF qs E(2)] by auto
  note wd = with_byte_digits [OF N x qs E(2)]
  have x31: "x < 2 ^ 31" using x by simp
  consider (start) "s = 0" | (over) "0 < s" "D < s + 8" | (inside) "0 < s" "s + 8 \<le> D" by linarith
  then have "a < length h' \<and> sgw a h' = 0 \<and> len a h' = (if s + 8 \<le> D then Suc q else Suc (Suc q)) \<and>
      (\<forall>j<len a h'. dig a j h' = digit D (with_byte N m x) j) \<and> frame a h h'"
  proof cases
    case start
    have "\<not> bit N (D * q + k)" for k using start qs by (intro bits_above [OF N]) simp
    then have "digit D N q = 0" by (intro bit_eqI) (simp add: digit_bit)
    moreover have "take_bit D x = x" using E(2) byte_bit [OF x] by (intro bit_eqI) (auto simp: bit_simps intro: ccontr)
    ultimately show ?thesis using start a len dig E(2) wd
      by (auto simp: h' sh store_simps less_Suc_eq intro!: frame_step)
  next
    case over
    have b: "js_shl (js_and x (js_shl 1 (int (D - s)) - 1)) (int s) = push_bit s (take_bit (D - s) x)"
      using small_mask [of "D - s" x] small_shl [of "take_bit (D - s) x" s] push_take_small [of s D x] qs(2) E(2,3) over by simp
    have c: "js_shr x (int (D - s)) = drop_bit (D - s) x" using small_shr [OF x(1) x31, of "D - s"] E(3) over by simp
    have d: "int D - int s = int (D - s)" using qs(2) by simp
    have o: "js_or (digit D N q) (push_bit s (take_bit (D - s) x)) = digit D (with_byte N m x) q"
      using small_or digit_small [OF E(3)] push_take_small [of s D x] qs(2) E(3) wd(2) by simp
    have t: "len a h = Suc q" using len over by simp
    have "h' = set_len a (Suc (Suc q)) (set_dig a (Suc q) (drop_bit (D - s) x) (set_dig a q (digit D (with_byte N m x) q) h))"
      using over dig by (simp add: h' Let_def sh E(1) d b c t or_dig_def o)
    then show ?thesis using a t dig over wd
      by (auto simp: store_simps less_Suc_eq intro!: frame_step)
  next
    case inside
    have "take_bit (D - s) x = x" using inside byte_bit [OF x] by (intro bit_eqI) (auto simp: bit_simps intro: ccontr)
    then have w: "digit D (with_byte N m x) q = digit D N q OR push_bit s x" "0 \<le> push_bit s x \<and> push_bit s x < 2 ^ 31"
      using wd(2) push_take_small [of s D x] qs(2) E(3) by simp_all
    have b: "js_shl x (int s) = push_bit s x" using small_shl [of x s] x w(2) qs(2) E(3) by simp
    have o: "js_or (digit D N q) (push_bit s x) = digit D (with_byte N m x) q"
      using small_or digit_small [OF E(3)] w by simp
    have t: "len a h = Suc q" using len inside by simp
    have "h' = set_dig a q (digit D (with_byte N m x) q) h"
      using inside dig by (simp add: h' Let_def sh E(1) b t or_dig_def o)
    then show ?thesis using a t dig inside wd by (auto simp: store_simps less_Suc_eq)
  qed
  moreover have "sh' = int (8 * Suc m mod D)" unfolding ceil_steps(3) [OF qs E(2)] using qs(2) by (auto simp: sh' sh E(1) Let_def)
  moreover have "0 \<le> with_byte N m x \<and> with_byte N m x < 2 ^ (8 * Suc m)" by (rule with_byte_bound [OF N x])
  ultimately show "bytes_inv D a (Suc m) (with_byte N m x) sh' h'" "frame a h h'"
    unfolding bytes_inv_def ceil_steps(2) [OF qs E(2)] by blast+
qed


lemma bev_suffix: "m \<le> length bs \<Longrightarrow> dsum 256 (\<lambda>j. rev bs ! j) m = bev (drop (length bs - m) bs)"
proof -
  assume m: "m \<le> length bs"
  then have "rev (drop (length bs - m) bs) = take m (rev bs)" by (simp add: rev_drop)
  then show ?thesis using m by (simp add: bev_def) (rule dsum_cong, simp)
qed

lemma from_bytes_loop:
  assumes bs: "\<forall>x \<in> set bs. 0 \<le> x \<and> x < 256" and E: "DB E = int D" "8 \<le> D" "D \<le> 30"
    and "m \<le> length bs" "bytes_inv D a m (dsum 256 (\<lambda>j. rev bs ! j) m) sh h"
  shows "\<exists>mi' sh' h'. from_string_loop E 8 a (Bytes bs) (length bs - m) mi sh h = ((mi', sh'), h') \<and> (mi' \<longrightarrow> mi) \<and>
    bytes_inv D a (length bs) (bev bs) sh' h' \<and> frame a h h'"
  using assms(5,6)
proof (induction "length bs - m" arbitrary: m mi sh h)
  case 0
  then show ?case by (simp add: bev_def)
next
  case (Suc i)
  then have i: "length bs - m = Suc i" "m < length bs" "length bs - Suc m = i" by simp_all
  have x: "js_and (src_int (Bytes bs) i) 0xff = rev bs ! m" "0 \<le> rev bs ! m" "rev bs ! m < 256"
  proof -
    have e: "bs ! i = rev bs ! m" using i by (simp add: rev_nth)
    have "bs ! i \<in> set bs" using i by simp
    then have "0 \<le> bs ! i" "bs ! i < 256" using bs by auto
    moreover have "js_and (bs ! i) 0xff = bs ! i mod 256" using js_and_mask [of 8 "bs ! i"] by simp
    ultimately show "js_and (src_int (Bytes bs) i) 0xff = rev bs ! m" "0 \<le> rev bs ! m" "rev bs ! m < 256"
      unfolding e [symmetric] by (simp_all add: src_int_def)
  qed
  define x where "x = rev bs ! m"
  define h' where "h' = (let n = len a h in
        if sh = 0 then set_len a (n + 1) (set_dig a n x h)
        else if sh + 8 > DB E then
          (let h = or_dig a (n - 1) (js_shl (js_and x (js_shl 1 (DB E - sh) - 1)) sh) h
           in set_len a (n + 1) (set_dig a n (js_shr x (DB E - sh)) h))
        else or_dig a (n - 1) (js_shl x sh) h)"
  define sh' where "sh' = (let sh = sh + 8 in if sh \<ge> DB E then sh - DB E else sh)"
  have step: "bytes_inv D a (Suc m) (with_byte (dsum 256 (\<lambda>j. rev bs ! j) m) m x) sh' h'" "frame a h h'"
    using bytes_inv_step [OF Suc.prems(2) _ _ E h'_def sh'_def] x(2,3) by (simp_all add: x_def)
  have "with_byte (dsum 256 (\<lambda>j. rev bs ! j) m) m x = dsum 256 (\<lambda>j. rev bs ! j) (Suc m)"
    by (simp add: with_byte_def x_def power_mult)
  then have inv: "bytes_inv D a (Suc m) (dsum 256 (\<lambda>j. rev bs ! j) (Suc m)) sh' h'" using step(1) by simp
  have "from_string_loop E 8 a (Bytes bs) (Suc i) mi sh h = from_string_loop E 8 a (Bytes bs) i False sh' h'"
    unfolding from_string_loop.simps(2) Let_def [of "if (8::int) = 8 then _ else _"]
    using x(2) by (simp add: x(1) x_def [symmetric] h'_def sh'_def Let_def)
  moreover obtain mi'' sh'' h'' where "from_string_loop E 8 a (Bytes bs) (length bs - Suc m) False sh' h' = ((mi'', sh''), h'')"
    "\<not> mi''" "bytes_inv D a (length bs) (bev bs) sh'' h''" "frame a h' h''"
    using Suc.hyps(1) [OF _ _ inv, of False] i by auto
  ultimately show ?case using i step(2) by (auto intro: frame_trans)
qed


lemma dsum_of_digits: "0 \<le> N \<Longrightarrow> N < 2 ^ (D * n) \<Longrightarrow> dsum (2 ^ D) (digit D N) n = N"
proof -
  have "dsum (2 ^ D) (digit D N) n = take_bit (D * n) N" for n
  proof (induction n)
    case (Suc n)
    have "take_bit (D * Suc n) N = 2 ^ (D * n) * (N div 2 ^ (D * n) mod 2 ^ D) + N mod 2 ^ (D * n)"
      by (simp add: take_bit_eq_mod power_add mult.commute [of "2 ^ D"] zmod_zmult2_eq)
    then show ?case using Suc by (simp add: digit_def take_bit_eq_mod drop_bit_eq_div mult.commute [of _ "2 ^ (D * n)"] flip: power_mult)
  qed simp
  then show "0 \<le> N \<Longrightarrow> N < 2 ^ (D * n) \<Longrightarrow> ?thesis" by (simp add: take_bit_int_eq_self)
qed

lemma hd_high_bit: "0 \<le> x \<Longrightarrow> x < 128 \<Longrightarrow> js_and x 0x80 = 0"
proof -
  assume x: "0 \<le> x" "x < 128"
  have "x AND 0x80 = 0"
  proof (rule bit_eqI)
    fix k
    have "bit (0x80 :: int) k \<longleftrightarrow> k = 7" using bit_push_bit_iff_int [of 7 1 k] by (simp add: bit_1_iff) linarith
    then show "bit (x AND 0x80) k = bit 0 k" using bits_above [of x 7 7] x by (auto simp: bit_simps)
  qed
  then show ?thesis using x by (simp add: js_and_def small_int32)
qed

lemma bnpFromString_bytes:
  assumes bs: "\<forall>x \<in> set bs. 0 \<le> x \<and> x < 256" "bs \<noteq> []" "hd bs < 128" and E: "engine_ok E" "8 \<le> dbits E" and a: "a < length h"
  shows "\<exists>h'. bnpFromString fr E a (Bytes bs) 256 h = Inr h' \<and> frame a h h' \<and> big E h' a \<and> clamped E h' a \<and> sgw a h' = 0 \<and> bval E h' a = bev bs"
proof -
  define D where "D = nat (dbits E)"
  have D: "DB E = int D" "8 \<le> D" "D \<le> 30" "base E = 2 ^ D" using E by (auto simp: D_def DB_def engine_ok_def base_def)
  define h1 where "h1 = set_sgw a 0 (set_len a 0 h)"
  have "bytes_inv D a 0 (dsum 256 (\<lambda>j. rev bs ! j) 0) 0 h1" using a D(2) by (simp add: bytes_inv_def h1_def store_simps)
  from from_bytes_loop [OF bs(1) D(1-3) _ this, of False] obtain sh h2 where
    l: "from_string_loop E 8 a (Bytes bs) (length bs) False 0 h1 = ((False, sh), h2)" "bytes_inv D a (length bs) (bev bs) sh h2" "frame a h1 h2" by auto
  have "hd bs = bs ! 0" "0 \<le> hd bs" using bs by (auto simp: hd_conv_nth)
  then have z: "js_and (src_int (Bytes bs) 0) 0x80 = 0" using hd_high_bit bs(3) by (simp add: src_int_def)
  have run: "bnpFromString fr E a (Bytes bs) 256 h = Inr (bnpClamp E a h2)"
    using l(1) by (simp add: bnpFromString_def radix_bits_def src_length_def h1_def [symmetric] z Let_def)
  have i: "a < length h2" "sgw a h2 = 0" "0 \<le> bev bs" "bev bs < 2 ^ (8 * length bs)" "\<forall>j<len a h2. dig a j h2 = digit D (bev bs) j"
    "len a h2 = (8 * length bs + D - 1) div D" using l(2) by (simp_all add: bytes_inv_def)
  have big: "big E h2 a" using i by (simp add: big_def D(4) digit_def)
  have "8 * length bs \<le> D * len a h2"
  proof -
    have "8 * length bs + D - 1 < D * len a h2 + D" using D(2) by (metis i(6) dividend_less_times_div add.commute less_le_trans not_numeral_le_zero gr0I mult.commute)
    then show ?thesis by simp
  qed
  then have "(2::int) ^ (8 * length bs) \<le> 2 ^ (D * len a h2)" by (intro power_increasing) auto
  then have "bev bs < 2 ^ (D * len a h2)" using i(4) by linarith
  then have "bval E h2 a = bev bs"
    using dsum_of_digits [OF i(3), of D "len a h2"] dsum_cong [of "len a h2" "\<lambda>j. dig a j h2" "digit D (bev bs)" "2 ^ D"] i(5)
    by (simp add: bval_def i(2) D(4))
  moreover have "frame a h h1" unfolding h1_def by (intro frame_step frame_refl)
  then have "frame a h (bnpClamp E a h2)" using l(3) bnpClamp_correct(1) [OF E(1) big] by (blast intro: frame_trans)
  ultimately show ?thesis using run bnpClamp_correct(2-5) [OF E(1) big] i(2) by auto
qed


section \<open>From a number to bytes\<close>

definition signed_byte :: "int \<Rightarrow> int" where
  "signed_byte v = (if v \<ge> 128 then v - 256 else v)"

fun emit_bytes :: "int list \<Rightarrow> nat \<Rightarrow> int list \<Rightarrow> int list" where
  "emit_bytes [] k r = r"
| "emit_bytes (v # vs) k r =
    (let k = (if k = 0 \<and> v \<ge> 128 then k + 1 else k)
     in if k > 0 \<or> v \<noteq> 0 then emit_bytes vs (k + 1) (put r k (signed_byte v)) else emit_bytes vs k r)"

lemma signed_byte_table:
  "list_all (\<lambda>v. (if js_and v 0x80 \<noteq> 0 then js_or v (- 256) else v) = signed_byte v \<and>
     (js_and 0 0x80 \<noteq> js_and (signed_byte v) 0x80 \<longleftrightarrow> v \<ge> 128)) [0..255]"
  by code_simp

lemma signed_byte_ops:
  assumes "0 \<le> v" "v < 256"
  shows "(if js_and v 0x80 \<noteq> 0 then js_or v (- 256) else v) = signed_byte v"
    "js_and 0 0x80 \<noteq> js_and (signed_byte v) 0x80 \<longleftrightarrow> v \<ge> 128" "signed_byte v \<noteq> 0 \<longleftrightarrow> v \<noteq> 0"
  using signed_byte_table assms unfolding list_all_iff by (auto simp: signed_byte_def)

text \<open>The byte that one round takes, within a digit and across two.\<close>

lemma byte_within:
  assumes "8 * Suc M = D * i + p" "8 \<le> p" "p \<le> D" "D \<le> 30"
  shows "js_and (js_shr (digit D N i) (int p - 8)) 0xff = digit 8 N M"
proof -
  have e: "int p - 8 = int (p - 8)" using assms(2) by simp
  have "js_shr (digit D N i) (int (p - 8)) = drop_bit (p - 8) (digit D N i)"
    using digit_small [OF assms(4), of N i] assms by (intro small_shr) auto
  moreover have "js_and y 0xff = take_bit 8 y" for y using js_and_mask [of 8 y] by (simp add: take_bit_eq_mod)
  moreover have "take_bit 8 (drop_bit (p - 8) (digit D N i)) = digit 8 N M"
  proof (rule bit_eqI)
    fix k
    have "8 * M + k = D * i + (p - 8 + k)" using assms by simp
    then show "bit (take_bit 8 (drop_bit (p - 8) (digit D N i))) k = bit (digit 8 N M) k"
      using assms by (auto simp: bit_simps digit_bit)
  qed
  ultimately show ?thesis by (simp add: e)
qed

lemma byte_across:
  assumes R: "8 * Suc M = D * Suc i + p" "p < 8" "8 \<le> D" "D \<le> 30"
  shows "js_or (js_shl (js_and (digit D N (Suc i)) (js_shl 1 (int p) - 1)) (8 - int p)) (js_shr (digit D N i) (int p + (int D - 8))) = digit 8 N M"
proof -
  have e: "8 - int p = int (8 - p)" "int p + (int D - 8) = int (p + D - 8)" using R by simp_all
  have a: "js_and (digit D N (Suc i)) (js_shl 1 (int p) - 1) = take_bit p (digit D N (Suc i))" using R by (intro small_mask) simp
  have t: "push_bit (8 - p) (take_bit p (digit D N (Suc i))) = take_bit 8 (push_bit (8 - p) (digit D N (Suc i)))"
    using R(2) by (simp add: take_bit_push_bit)
  have b: "js_shl (take_bit p (digit D N (Suc i))) (int (8 - p)) = push_bit (8 - p) (take_bit p (digit D N (Suc i)))"
    using take_bit_small [of 8 "push_bit (8 - p) (digit D N (Suc i))"] by (intro small_shl) (simp_all add: t)
  have c: "js_shr (digit D N i) (int (p + D - 8)) = drop_bit (p + D - 8) (digit D N i)"
    using digit_small [OF R(4), of N i] R by (intro small_shr) auto
  have "drop_bit (p + D - 8) (digit D N i) \<le> digit D N i"
    using digit_small [OF R(4), of N i] zdiv_mono2 [of "digit D N i" 1 "2 ^ (p + D - 8)"] by (simp add: drop_bit_eq_div)
  then have d: "drop_bit (p + D - 8) (digit D N i) < 2 ^ 31" using digit_small [OF R(4), of N i] by linarith
  have "push_bit (8 - p) (take_bit p (digit D N (Suc i))) OR drop_bit (p + D - 8) (digit D N i) = digit 8 N M"
  proof (rule bit_eqI)
    fix k
    have "k \<ge> 8 - p \<Longrightarrow> 8 * M + k = D * Suc i + (k - (8 - p))" "8 * M + k = D * i + (p + D - 8 + k)" using R by simp_all
    then show "bit (push_bit (8 - p) (take_bit p (digit D N (Suc i))) OR drop_bit (p + D - 8) (digit D N i)) k = bit (digit 8 N M) k"
      using R(2,3) by (auto simp: bit_simps digit_bit)
  qed
  then show ?thesis unfolding e a b c
    using small_or take_bit_small [of 8 "push_bit (8 - p) (digit D N (Suc i))"] d digit_small [OF R(4), of N i] by (simp add: t)
qed


lemma to_bytes_loop_emit:
  assumes E: "DB E = int D" "8 \<le> D" "D \<le> 30" and d: "\<forall>j<t. d j = digit D N j"
  shows "i \<le> t \<Longrightarrow> (i = 0 \<and> M = 0) \<or> (\<exists>i'. i = Suc i' \<and> 0 < p \<and> p \<le> D \<and> D * i' + p = 8 * M) \<Longrightarrow> M \<le> f \<Longrightarrow>
    to_bytes_loop f E 0 d i (int p) k r = Inr (emit_bytes (List.map (digit 8 N) (rev [0..<M])) k r)"
proof (induction M arbitrary: i p k r f)
  case 0
  then have "i = 0" by auto
  then show ?case by (cases f) simp_all
next
  case (Suc M)
  then obtain i' f' where i: "i = Suc i'" "0 < p" "p \<le> D" "D * i' + p = 8 * Suc M" "f = Suc f'" "M \<le> f'"
    by (cases f) auto
  define v where "v = digit 8 N M"
  have v: "0 \<le> v" "v < 256" using take_bit_int_less_exp [of 8 "drop_bit (8 * M) N"] by (simp_all add: v_def digit_def)
  have di: "d i' = digit D N i'" using d i(1) Suc.prems(1) by simp
  have "\<exists>j q. j \<le> t \<and> ((j = 0 \<and> M = 0) \<or> (\<exists>j'. j = Suc j' \<and> 0 < q \<and> q \<le> D \<and> D * j' + q = 8 * M)) \<and>
      (if int p < 8 then
         (let v = js_shl (js_and (d i') (js_shl 1 (int p) - 1)) (8 - int p); p = int p + (DB E - 8)
          in (js_or v (if i' = 0 then 0 else js_shr (d (i' - 1)) p), i', p))
       else
         (let p = int p - 8; v = js_and (js_shr (d i') p) 0xff
          in if p \<le> 0 then (v, i', p + DB E) else (v, Suc i', p))) = (v, j, int q)"
  proof (cases "p < 8")
    case True
    then obtain i'' where i'': "i' = Suc i''" using i(2,4) by (cases i') auto
    have "d i'' = digit D N i''" using d i(1) i'' Suc.prems(1) by simp
    moreover have "d (Suc i'') = digit D N (Suc i'')" using di i'' by simp
    ultimately have "js_or (js_shl (js_and (d i') (js_shl 1 (int p) - 1)) (8 - int p)) (js_shr (d i'') (int p + (int D - 8))) = v"
      using byte_across [of M D i'' p N] True i(4) i'' E by (simp add: v_def)
    then show ?thesis using True i i'' Suc.prems(1) E
      by - (rule exI [of _ i'], rule exI [of _ "p + D - 8"], simp add: Let_def, intro conjI, linarith+)
  next
    case False
    have b: "js_and (js_shr (d i') (int p - 8)) 0xff = v" using byte_within [of M D i' p N] False i(3,4) E(3) by (simp add: di v_def)
    show ?thesis
    proof (cases "p = 8")
      case True
      then show ?thesis using i b Suc.prems(1) E by - (rule exI [of _ i'], rule exI [of _ D], cases i', simp_all)
    next
      case F: False
      then show ?thesis using i b Suc.prems(1) E False by - (rule exI [of _ "Suc i'"], rule exI [of _ "p - 8"], simp add: Let_def)
    qed
  qed
  then obtain j q where j: "j \<le> t" "(j = 0 \<and> M = 0) \<or> (\<exists>j'. j = Suc j' \<and> 0 < q \<and> q \<le> D \<and> D * j' + q = 8 * M)"
    and step: "(if int p < 8 then
         (let v = js_shl (js_and (d i') (js_shl 1 (int p) - 1)) (8 - int p); p = int p + (DB E - 8)
          in (js_or v (if i' = 0 then 0 else js_shr (d (i' - 1)) p), i', p))
       else
         (let p = int p - 8; v = js_and (js_shr (d i') p) 0xff
          in if p \<le> 0 then (v, i', p + DB E) else (v, Suc i', p))) = (v, j, int q)" by blast
  note IH = Suc.IH [OF j i(6)]
  have "to_bytes_loop f E 0 d i (int p) k r =
      (let k = (if k = 0 \<and> v \<ge> 128 then k + 1 else k)
       in if k > 0 \<or> v \<noteq> 0 then to_bytes_loop f' E 0 d j (int q) (k + 1) (put r k (signed_byte v)) else to_bytes_loop f' E 0 d j (int q) k r)"
    unfolding i(1,5) to_bytes_loop.simps(4) step unfolding Let_def prod.case by (simp only: signed_byte_ops [OF v])
  then show ?case unfolding IH by (simp add: v_def Let_def)
qed

lemma emit_bytes_rest: "r \<noteq> [] \<Longrightarrow> emit_bytes vs (length r) r = r @ List.map signed_byte vs"
proof (induction vs arbitrary: r)
  case (Cons v vs)
  then show ?case using Cons.IH [of "r @ [signed_byte v]"] by (simp add: put_def)
qed simp

lemma emit_bytes_zeros: "emit_bytes (replicate n 0 @ vs) 0 r = emit_bytes vs 0 r"
  by (induction n) simp_all


lemma bev_Cons: "bev (b # bs) = b * 256 ^ length bs + bev bs"
proof -
  have "dsum 256 (\<lambda>j. (rev bs @ [b]) ! j) (length bs) = dsum 256 (\<lambda>j. rev bs ! j) (length bs)"
    by (rule dsum_cong) (simp add: nth_append)
  then show ?thesis by (simp add: bev_def nth_append)
qed

lemma bev_bounds:
  assumes "\<forall>x \<in> set bs. 0 \<le> x \<and> x < 256"
  shows "0 \<le> bev bs" "bev bs < 256 ^ length bs"
proof -
  have "0 \<le> rev bs ! k \<and> rev bs ! k < 256" if "k < length bs" for k using assms that by (simp add: rev_nth)
  then show "0 \<le> bev bs" "bev bs < 256 ^ length bs" unfolding bev_def using dsum_bounds [of 256 "length bs"] by simp_all
qed

lemma bev_bytes:
  assumes "\<forall>x \<in> set bs. 0 \<le> x \<and> x < 256"
  shows "List.map (digit 8 (bev bs)) (rev [0..<length bs]) = bs"
proof (rule nth_equalityI)
  fix i assume "i < length (List.map (digit 8 (bev bs)) (rev [0..<length bs]))"
  then have i: "i < length bs" by simp
  have "\<forall>k<length bs. 0 \<le> rev bs ! k \<and> rev bs ! k < 2 ^ 8" using assms by (simp add: rev_nth)
  from dsum_digit [OF this, of "length bs - Suc i"] i
  show "List.map (digit 8 (bev bs)) (rev [0..<length bs]) ! i = bs ! i" by (simp add: rev_nth bev_def)
qed simp

text \<open>The bytes above a number are zero.\<close>

lemma digit_above: "0 \<le> N \<Longrightarrow> N < 256 ^ n \<Longrightarrow> n \<le> j \<Longrightarrow> digit 8 N j = 0"
proof (rule bit_eqI)
  fix k assume "0 \<le> N" "N < 256 ^ n" "n \<le> j"
  moreover have "(256::int) ^ n = 2 ^ (8 * n)" by (simp add: power_mult)
  ultimately show "bit (digit 8 N j) k = bit 0 k" using bits_above [of N "8 * n" "8 * j + k"] by (simp add: digit_bit)
qed

lemma digit_zero: "0 \<le> N \<Longrightarrow> N < 2 ^ (D * j) \<Longrightarrow> digit D N j = 0"
  by (rule bit_eqI) (simp add: digit_bit bits_above)

text \<open>A clamped number without sign whose top byte is below 128 is written without a further byte.\<close>

lemma bnToByteArray_bytes:
  assumes E: "engine_ok E" "8 \<le> dbits E" and a: "big E h a" "clamped E h a" "sgw a h = 0"
    and v: "bval E h a = bev (b # bs)" and b: "0 < b" "b < 128" and bs: "\<forall>x \<in> set bs. 0 \<le> x \<and> x < 256" and f: "length bs + 5 \<le> f"
  shows "bnToByteArray f E a h = Inr (b # List.map signed_byte bs)"
proof -
  define D where "D = nat (dbits E)"
  have D: "DB E = int D" "8 \<le> D" "D \<le> 30" "base E = 2 ^ D" using E by (auto simp: D_def DB_def engine_ok_def base_def)
  define N where "N = bev (b # bs)"
  define t where "t = len a h"
  have bb: "\<forall>x \<in> set (b # bs). 0 \<le> x \<and> x < 256" using b bs by simp
  have N: "N = dsum (2 ^ D) (\<lambda>j. dig a j h) t" "256 ^ length bs \<le> N" "N < 256 ^ Suc (length bs)" "0 \<le> N"
  proof -
    show "N = dsum (2 ^ D) (\<lambda>j. dig a j h) t" using v a(3) by (simp add: N_def bval_def t_def D(4))
    have "1 * 256 ^ length bs \<le> b * 256 ^ length bs" using b(1) by (intro mult_right_mono) auto
    then show "256 ^ length bs \<le> N" unfolding N_def bev_Cons using bev_bounds [OF bs] by linarith
    show "N < 256 ^ Suc (length bs)" "0 \<le> N" using bev_bounds [OF bb] by (simp_all add: N_def)
  qed
  have dg: "\<forall>i<t. 0 \<le> dig a i h \<and> dig a i h < 2 ^ D" using a(1) by (simp add: big_def D(4) t_def)
  have d: "\<forall>j<t. dig a j h = digit D N j" using dsum_digit [OF dg] by (simp add: N(1))
  have Nt: "N < 2 ^ (D * t)" using dsum_bounds [of "2 ^ D" t "\<lambda>j. dig a j h"] dg by (simp add: N(1) power_mult)
  have t: "0 < t"
  proof (rule ccontr)
    assume "\<not> 0 < t"
    then have "N < 1" using Nt by simp
    moreover have "(1::int) \<le> 256 ^ length bs" by simp
    ultimately show False using N(2) by linarith
  qed
  define M where "M = D * t div 8"
  define m where "m = D * t mod 8"
  have M: "D * t = 8 * M + m" "m < 8" by (simp_all add: M_def m_def)
  have q: "(256::int) ^ n = 2 ^ (8 * n)" for n by (simp add: power_mult)
  have low: "8 * length bs < D * t"
  proof -
    have "(2::int) ^ (8 * length bs) < 2 ^ (D * t)" using N(2) Nt unfolding q by linarith
    then show ?thesis by simp
  qed
  have high: "D * (t - 1) < 8 * Suc (length bs)"
  proof -
    have "dig a (t - 1) h \<noteq> 0" using a(2,3) t by (simp add: clamped_def t_def)
    then have "\<not> N < 2 ^ (D * (t - 1))"
      using digit_zero [OF N(4), of D "t - 1"] d t by auto
    then have "(2::int) ^ (D * (t - 1)) < 2 ^ (8 * Suc (length bs))" using N(3) unfolding q by linarith
    then show ?thesis by simp
  qed
  have t1: "D * t = D * (t - 1) + D" using t by (cases t) simp_all
  define u where "u = D * (t - 1)"
  have Mf: "M \<le> f" using high t1 M D(3) f unfolding u_def [symmetric] by simp
  have Ml: "length bs \<le> M" using low M by linarith
  define p where "p = D - m"
  have p: "0 < p" "p \<le> D" "D * (t - 1) + p = 8 * M" "DB E - js_rem (int t * DB E) 8 = int p"
  proof -
    show "0 < p" "p \<le> D" "D * (t - 1) + p = 8 * M" using M D(2) t1 by (simp_all add: p_def)
    have "0 < int D * int t" using D(2) t by simp
    then have "js_rem (int (D * t)) 8 = int m" by (simp add: js_rem_def m_def zmod_int sgn_pos)
    then show "DB E - js_rem (int t * DB E) 8 = int p" using M(2) D(2) by (simp add: D(1) p_def mult.commute)
  qed
  have loop: "to_bytes_loop f E 0 (\<lambda>j. dig a j h) t (int p) k r = Inr (emit_bytes (List.map (digit 8 N) (rev [0..<M])) k r)" for k r
    by (rule to_bytes_loop_emit [OF D(1-3) d order_refl _ Mf]) (use p t in \<open>auto intro!: exI [of _ "t - 1"]\<close>)
  have all: "List.map (digit 8 N) (rev [0..<Suc (length bs)]) = b # bs" using bev_bytes [OF bb] by (simp add: N_def)
  have top: "js_shr (dig a (t - 1) h) (int p) = drop_bit (8 * M) N"
  proof -
    have "js_shr (dig a (t - 1) h) (int p) = drop_bit p (digit D N (t - 1))"
      using d t digit_small [OF D(3), of N "t - 1"] p(2) D(3) small_shr by simp
    also have "\<dots> = drop_bit (8 * M) N"
    proof (rule bit_eqI)
      fix k
      have "8 * M + k = D * (t - 1) + (p + k)" using p(3) by simp
      moreover have "D \<le> p + k \<Longrightarrow> \<not> bit N (8 * M + k)" using p(3) t1 by (intro bits_above [OF N(4) Nt]) simp
      ultimately show "bit (drop_bit p (digit D N (t - 1))) k = bit (drop_bit (8 * M) N) k"
        by (cases "p + k < D") (auto simp: bit_simps digit_bit add.assoc)
    qed
    finally show ?thesis .
  qed
  have zero: "js_shr (js_and 0 (DM E)) (int p) = 0" "js_shl 0 x = 0" for x
    by (simp_all add: js_and_def js_shr_def js_shl_def toInt32_def)
  show ?thesis
  proof (cases "M = length bs")
    case True
    have "drop_bit (8 * M) N = b" using bev_bounds [OF bs] by (simp add: True drop_bit_eq_div q [symmetric] N_def bev_Cons)
    moreover have "p < D" using low M True D(2) by (simp add: p_def)
    moreover have "js_or b 0 = b" using b small_or [of b 0] by simp
    ultimately have "bnToByteArray f E a h = Inr (emit_bytes (List.map (digit 8 N) (rev [0..<M])) 1 [b])"
      using t b top loop [of 1 "[b]"]
      by (simp add: bnToByteArray_def Let_def t_def [symmetric] a(3) p(4) [unfolded D(1)] zero D(1) b_arr_dig)
    moreover have "List.map (digit 8 N) (rev [0..<M]) = bs" using all by (simp add: True)
    ultimately show ?thesis using emit_bytes_rest [of "[b]" bs] by simp
  next
    case False
    then have M1: "Suc (length bs) \<le> M" using Ml by simp
    have "drop_bit (8 * M) N = 0"
    proof (rule bit_eqI)
      fix k
      have "N < 2 ^ (8 * Suc (length bs))" using N(3) unfolding q .
      then show "bit (drop_bit (8 * M) N) k = bit 0 k" using bits_above [OF N(4), of "8 * Suc (length bs)" "8 * M + k"] M1 by (simp add: bit_simps)
    qed
    then have "bnToByteArray f E a h = Inr (emit_bytes (List.map (digit 8 N) (rev [0..<M])) 0 [0])"
      using t top loop [of 0 "[0]"]
      by (simp add: bnToByteArray_def Let_def t_def [symmetric] a(3) p(4) [unfolded D(1)] zero D(1) b_arr_dig)
    moreover have "List.map (digit 8 N) (rev [0..<M]) = replicate (M - Suc (length bs)) 0 @ b # bs"
    proof -
      have "[0..<M] = [0..<Suc (length bs)] @ [Suc (length bs)..<M]" using M1 by (metis le0 upt_add_eq_append le_add_diff_inverse)
      moreover have "List.map (digit 8 N) (rev [Suc (length bs)..<M]) = replicate (M - Suc (length bs)) 0"
        using digit_above [OF N(4,3)] by (intro nth_equalityI) (auto simp: rev_nth)
      ultimately show ?thesis using all by simp
    qed
    moreover have "emit_bytes (b # bs) 0 [0] = b # List.map signed_byte bs"
      using b emit_bytes_rest [of "[b]" bs] by (simp add: put_def signed_byte_def)
    ultimately show ?thesis by (simp only: emit_bytes_zeros)
  qed
qed

end
