(* ===== verification/Crypto_Multiply.thy ===== *)
theory Crypto_Multiply
  imports Crypto_Value
begin

unbundle bit_operations_syntax

text \<open>
  Multiplication in \<open>v8/crypto.js\<close>. The four routines \<open>am1\<close> to \<open>am4\<close> implement one interface, the locale \<open>multiply_add\<close>, in
  their own bases; each is interpreted after it is shown to compute, digit by digit, the direct product, with every
  intermediate value in the range of the 32-bit operators. In the locale, \<open>multiplyTo\<close> and \<open>squareTo\<close> are proved once.
\<close>

section \<open>The interface of the multiply-add routines\<close>

text \<open>What one of the routines \<open>am1\<close> to \<open>am4\<close> promises for digits in base \<open>B\<close>.\<close>

definition am_result :: "int \<Rightarrow> addr \<Rightarrow> nat \<Rightarrow> int \<Rightarrow> addr \<Rightarrow> nat \<Rightarrow> int \<Rightarrow> nat \<Rightarrow> store \<Rightarrow> int \<Rightarrow> store \<Rightarrow> bool" where
  "am_result B this i x w j c n h c' h' \<longleftrightarrow>
    later w (j + n) h h' \<and> (\<forall>k<j. dig w k h' = dig w k h) \<and> (\<forall>k<n. 0 \<le> dig w (j + k) h' \<and> dig w (j + k) h' < B) \<and>
    0 \<le> c' \<and> c' < 2 * B \<and>
    dsum B (\<lambda>k. dig w (j + k) h') n + c' * B ^ n =
      c + dsum B (\<lambda>k. dig w (j + k) h) n + x * dsum B (\<lambda>k. dig this (i + k) h) n"

definition am_args :: "int \<Rightarrow> addr \<Rightarrow> nat \<Rightarrow> int \<Rightarrow> addr \<Rightarrow> nat \<Rightarrow> int \<Rightarrow> nat \<Rightarrow> store \<Rightarrow> bool" where
  "am_args B this i x w j c n h \<longleftrightarrow>
    this \<noteq> w \<and> w < length h \<and> 0 \<le> x \<and> x \<le> 2 * B - 2 \<and> 0 \<le> c \<and> c < 2 * B \<and>
    (\<forall>k<n. 0 \<le> dig this (i + k) h \<and> dig this (i + k) h < B) \<and> (\<forall>k<n. 0 \<le> dig w (j + k) h \<and> dig w (j + k) h < B)"

locale multiply_add =
  fixes f :: am and B :: int
  assumes base_pos: "2 \<le> B"
    and am_correct: "am_args B this i x w j c n h \<Longrightarrow> f this i x w j c n h = (c', h') \<Longrightarrow> am_result B this i x w j c n h c' h'"

section \<open>The four routines\<close>

text \<open>The digit by digit reference: the product is formed directly, as in \<open>am1\<close>.\<close>

fun am_ref :: "int \<Rightarrow> am" where
  "am_ref B this i x w j c 0 h = (c, h)"
| "am_ref B this i x w j c (Suc n) h =
    (let v = x * dig this i h + dig w j h + c in am_ref B this (Suc i) x w (Suc j) (v div B) n (set_dig w j (v mod B) h))"

lemma product_bound:
  fixes x d w c B :: int
  assumes "2 \<le> B" "0 \<le> x" "x \<le> 2 * B - 2" "0 \<le> d" "d < B" "0 \<le> w" "w < B" "0 \<le> c" "c < 2 * B"
  shows "0 \<le> x * d + w + c" "(x * d + w + c) div B < 2 * B" "0 \<le> (x * d + w + c) div B"
proof -
  have "x * d \<le> (2 * B - 2) * (B - 1)" using assms by (intro mult_mono) auto
  then have "x * d + w + c < 2 * B * B" using assms by (simp add: algebra_simps)
  then show "(x * d + w + c) div B < 2 * B"
    using div_between(2) [of B 0 "x * d + w + c" "2 * B - 1"] assms by (simp add: algebra_simps)
  show "0 \<le> x * d + w + c" using assms by simp
  then show "0 \<le> (x * d + w + c) div B" using assms by (simp add: pos_imp_zdiv_nonneg_iff)
qed

lemma am_args_step:
  assumes B: "2 \<le> B" and a: "am_args B this i x w j c (Suc n) h" and v: "v = x * dig this i h + dig w j h + c"
  shows "am_args B this (Suc i) x w (Suc j) (v div B) n (set_dig w j (v mod B) h)"
    and "0 \<le> dig this i h" "dig this i h < B" "0 \<le> dig w j h" "dig w j h < B" "0 \<le> x" "x \<le> 2 * B - 2" "0 \<le> c" "c < 2 * B" "w < length h"
    "this \<noteq> w"
proof -
  have d: "\<forall>k<Suc n. 0 \<le> dig this (i + k) h \<and> dig this (i + k) h < B" "\<forall>k<Suc n. 0 \<le> dig w (j + k) h \<and> dig w (j + k) h < B"
    using a by (auto simp: am_args_def)
  show s: "0 \<le> dig this i h" "dig this i h < B" "0 \<le> dig w j h" "dig w j h < B" using d by force+
  show p: "0 \<le> x" "x \<le> 2 * B - 2" "0 \<le> c" "c < 2 * B" "w < length h" "this \<noteq> w" using a by (auto simp: am_args_def)
  have "0 \<le> dig this (Suc i + k) h \<and> dig this (Suc i + k) h < B" "0 \<le> dig w (Suc j + k) h \<and> dig w (Suc j + k) h < B" if "k < n" for k
    using d(1) [rule_format, of "Suc k"] d(2) [rule_format, of "Suc k"] that by simp_all
  then show "am_args B this (Suc i) x w (Suc j) (v div B) n (set_dig w j (v mod B) h)"
    using p product_bound [OF B p(1,2) s p(3,4)] by (simp add: am_args_def v store_simps)
qed

lemma am_ref_correct:
  assumes B: "2 \<le> B"
  shows "am_args B this i x w j c n h \<Longrightarrow> am_ref B this i x w j c n h = (c', h') \<Longrightarrow> am_result B this i x w j c n h c' h'"
proof (induction n arbitrary: i j c h)
  case 0
  then show ?case by (auto simp: am_args_def am_result_def)
next
  case (Suc n)
  define v where "v = x * dig this i h + dig w j h + c"
  define h1 where "h1 = set_dig w j (v mod B) h"
  note S = am_args_step [OF B Suc.prems(1) v_def]
  have IH: "am_result B this (Suc i) x w (Suc j) (v div B) n h1 c' h'"
    using Suc.IH [OF S(1)] Suc.prems(2) by (simp add: Let_def v_def h1_def)
  have l1: "later w (Suc j) h h1" unfolding h1_def by (rule later_set_dig [OF S(10)])
  have dw: "dig w (Suc j + k) h1 = dig w (Suc j + k) h" for k using S(10) by (simp add: h1_def store_simps)
  have dt: "dig this k h1 = dig this k h" for k using S(10,11) by (simp add: h1_def store_simps)
  have d: "dig w j h' = v mod B" using IH S(10) by (simp add: am_result_def h1_def store_simps)
  have sum: "dsum B (\<lambda>k. dig w (Suc j + k) h') n + c' * B ^ n =
      v div B + dsum B (\<lambda>k. dig w (Suc j + k) h) n + x * dsum B (\<lambda>k. dig this (Suc i + k) h) n"
    using IH by (simp only: am_result_def dw dt)
  have "dsum B (\<lambda>k. dig w (j + k) h') (Suc n) + c' * B ^ Suc n = v mod B + B * (dsum B (\<lambda>k. dig w (Suc j + k) h') n + c' * B ^ n)"
    by (simp add: dsum_shift d algebra_simps del: dsum_simps)
  also have "\<dots> = v + B * (dsum B (\<lambda>k. dig w (Suc j + k) h) n + x * dsum B (\<lambda>k. dig this (Suc i + k) h) n)"
    unfolding sum using mod_mult_div_eq [of v B] by (simp add: distrib_left)
  also have "\<dots> = c + dsum B (\<lambda>k. dig w (j + k) h) (Suc n) + x * dsum B (\<lambda>k. dig this (i + k) h) (Suc n)"
    by (simp add: dsum_shift v_def algebra_simps del: dsum_simps)
  finally have e: "dsum B (\<lambda>k. dig w (j + k) h') (Suc n) + c' * B ^ Suc n =
      c + dsum B (\<lambda>k. dig w (j + k) h) (Suc n) + x * dsum B (\<lambda>k. dig this (i + k) h) (Suc n)" .
  have "0 \<le> dig w (j + k) h' \<and> dig w (j + k) h' < B" if "k < Suc n" for k
  proof (cases k)
    case 0
    then show ?thesis using d B by simp
  next
    case (Suc l)
    then show ?thesis using IH that by (simp add: am_result_def)
  qed
  moreover have "later w (j + Suc n) h h'"
    using later_trans [OF later_mono [OF l1]] IH by (simp add: am_result_def)
  moreover have "dig w k h' = dig w k h" if "k < j" for k
    using IH that S(10) by (simp add: am_result_def h1_def store_simps)
  ultimately show ?case using IH e by (simp add: am_result_def)
qed

text \<open>A digit times a multiplier, both split into halves of \<open>H\<close>: the identity behind \<open>am2\<close>, \<open>am3\<close> and \<open>am4\<close>.\<close>

lemma split_product:
  fixes x d w c H :: int
  assumes "0 < H" and m: "m = x div H * (d mod H) + d div H * (x mod H)" and l: "l = x mod H * (d mod H) + m mod H * H + w + c"
  shows "x * d + w + c = l + (m div H + x div H * (d div H)) * (H * H)"
proof -
  have "x * d = (x div H * H + x mod H) * (d div H * H + d mod H)" by simp
  also have "\<dots> = x div H * (d div H) * (H * H) + m * H + x mod H * (d mod H)" unfolding m by (simp only: algebra_simps)
  also have "m * H = m div H * (H * H) + m mod H * H" by (metis div_mult_mod_eq distrib_right mult.assoc)
  finally show ?thesis unfolding l by (simp add: algebra_simps)
qed

lemma split_bounds:
  fixes x d w c H :: int
  assumes H: "2 \<le> H" and x: "0 \<le> x" "x \<le> 2 * (H * H) - 2" and d: "0 \<le> d" "d < H * H"
  shows "0 \<le> x div H" "x div H < 2 * H" "0 \<le> d div H" "d div H < H"
    "0 \<le> x div H * (d mod H) + d div H * (x mod H)" "x div H * (d mod H) + d div H * (x mod H) < 3 * (H * H)"
    "0 \<le> x mod H * (d mod H)" "x mod H * (d mod H) < H * H"
    "\<And>m. 0 \<le> m mod H * H" "\<And>m. m mod H * H \<le> H * H"
proof -
  have p: "0 \<le> x mod H" "x mod H \<le> H - 1" "0 \<le> d mod H" "d mod H \<le> H - 1" using H by (simp_all add: zle_diff1_eq)
  show q: "0 \<le> x div H" "x div H < 2 * H" "0 \<le> d div H" "d div H < H"
    using div_between [of H 0 x "2 * H - 1"] div_between [of H 0 d "H - 1"] assms by (simp_all add: algebra_simps)
  have "x div H * (d mod H) \<le> (2 * H - 1) * (H - 1)" "d div H * (x mod H) \<le> (H - 1) * (H - 1)" "x mod H * (d mod H) \<le> (H - 1) * (H - 1)"
    using p q H by (intro mult_mono; simp)+
  then show "x div H * (d mod H) + d div H * (x mod H) < 3 * (H * H)" "x mod H * (d mod H) < H * H"
    using H by (simp_all add: algebra_simps)
  show "0 \<le> x div H * (d mod H) + d div H * (x mod H)" "0 \<le> x mod H * (d mod H)" using p q by simp_all
  show "0 \<le> m mod H * H" "m mod H * H \<le> H * H" for m :: int
    using H pos_mod_sign [of H m] pos_mod_bound [of H m] by (auto intro!: mult_right_mono less_imp_le)
qed

lemma split_step:
  fixes x d w c H :: int
  assumes H: "2 \<le> H" and x: "0 \<le> x" "x \<le> 2 * (H * H) - 2" and d: "0 \<le> d" "d < H * H" and w: "0 \<le> w" "w < H * H"
    and c: "0 \<le> c" "c < 2 * (H * H)"
    and m: "m = x div H * (d mod H) + d div H * (x mod H)" and l: "l = x mod H * (d mod H) + m mod H * H + w + c"
  shows "0 \<le> m" "m < 3 * (H * H)" "0 \<le> l" "l < 5 * (H * H)" "l - c < 3 * (H * H)" "0 \<le> l - c"
    "l mod (H * H) = (x * d + w + c) mod (H * H)"
    "l div (H * H) + m div H + x div H * (d div H) = (x * d + w + c) div (H * H)"
proof -
  note S = split_bounds [OF H x d]
  have "0 < H" using H by simp
  note P = split_product [OF this m l]
  show "0 \<le> m" "m < 3 * (H * H)" using S(5,6) by (simp_all add: m)
  show "0 \<le> l" "l < 5 * (H * H)" "l - c < 3 * (H * H)" "0 \<le> l - c" using S(7,8) S(9) [of m] S(10) [of m] w c by (simp_all add: l)
  show "l mod (H * H) = (x * d + w + c) mod (H * H)" unfolding P by simp
  show "l div (H * H) + m div H + x div H * (d div H) = (x * d + w + c) div (H * H)" unfolding P using H by simp
qed

lemma am1_ref: "am1 this i x w j c n h = am_ref (2 ^ 26) this i x w j c n h"
  using js_and_mask [of 26] by (induction n arbitrary: i j c h) (simp_all add: Let_def)

text \<open>One round of \<open>am3\<close> (\<open>p = 14\<close>) and \<open>am4\<close> (\<open>p = 13\<close>): nothing leaves the 32-bit range.\<close>

lemma signed_round:
  fixes x d w c :: int
  assumes p: "1 \<le> p" "p \<le> 14" and H: "H = 2 ^ p" and B: "B = H * H"
    and x: "0 \<le> x" "x \<le> 2 * B - 2" and d: "0 \<le> d" "d < B" and w: "0 \<le> w" "w < B" and c: "0 \<le> c" "c < 2 * B"
    and m: "m = x div H * js_and d (H - 1) + js_shr d (int p) * (x mod H)"
    and l: "l = x mod H * js_and d (H - 1) + js_shl (js_and m (H - 1)) (int p) + w + c"
  shows "js_and l (B - 1) = (x * d + w + c) mod B"
    "js_shr l (int (2 * p)) + js_shr m (int p) + x div H * js_shr d (int p) = (x * d + w + c) div B"
proof -
  have "(2::int) ^ 1 \<le> 2 ^ p" "(2::int) ^ p \<le> 2 ^ 14" by (rule power_increasing; use p in simp)+
  then have H2: "2 \<le> H" "H \<le> 2 ^ 14" by (simp_all add: H)
  have "H * H \<le> 2 ^ 14 * 2 ^ 14" using H2 by (intro mult_mono) simp_all
  then have Bb: "H * H \<le> 2 ^ 28" by simp
  have BB: "B = 2 ^ (2 * p)" by (simp add: B H power_add [symmetric] mult_2)
  note mask = js_and_mask [of p, folded H] js_and_mask [of "2 * p", folded BB]
  have m': "m = x div H * (d mod H) + d div H * (x mod H)"
    using m mask(1) p d Bb B js_shr_div [of d "int p"] by (simp add: H is_int32_def)
  have s: "js_shl (js_and m (H - 1)) (int p) = m mod H * H"
  proof -
    define q where "q = m mod H"
    have b: "0 \<le> q" "q < H" using H2 by (simp_all add: q_def)
    define z where "z = q * H"
    have "0 \<le> z" "z \<le> H * H" unfolding z_def using b H2 by (intro mult_right_mono mult_nonneg_nonneg; linarith)+
    then have "is_int32 z" "is_int32 q" using Bb H2 b by (simp_all add: is_int32_def)
    then have "is_int32 (q * 2 ^ nat (int p))" "is_int32 q" by (simp_all add: z_def H)
    then show ?thesis using js_shl_mult [of q "int p"] p mask(1) by (simp add: H q_def)
  qed
  have l': "l = x mod H * (d mod H) + m mod H * H + w + c" unfolding l s using mask(1) p by simp
  note S = split_step [OF H2(1) x [unfolded B] d [unfolded B] w [unfolded B] c [unfolded B] m' l']
  have i: "is_int32 l" "is_int32 m" "is_int32 d" using S(1-4) Bb d unfolding B by (simp_all add: is_int32_def)
  show "js_and l (B - 1) = (x * d + w + c) mod B" using mask(2) [of l] p S(7) by (simp add: B)
  have "js_shr l (int (2 * p)) = l div B" "js_shr m (int p) = m div H" "js_shr d (int p) = d div H"
    using js_shr_div [OF i(1), of "int (2 * p)"] js_shr_div [OF i(2), of "int p"] js_shr_div [OF i(3), of "int p"] p
    by (simp_all add: BB H nat_mult_distrib)
  then show "js_shr l (int (2 * p)) + js_shr m (int p) + x div H * js_shr d (int p) = (x * d + w + c) div B"
    using S(8) by (simp add: B)
qed

lemma am3_loop_ref:
  "am_args (2 ^ 28) this i x w j c n h \<Longrightarrow> am3_loop (x mod 2 ^ 14) (x div 2 ^ 14) this i w j c n h = am_ref (2 ^ 28) this i x w j c n h"
proof (induction n arbitrary: i j c h)
  case (Suc n)
  have B: "(2::int) \<le> 2 ^ 28" by simp
  note A = am_args_step [OF B Suc.prems refl]
  note R = signed_round [of 14 "2 ^ 14" "2 ^ 28" x "dig this i h" "dig w j h" c, OF _ _ refl _ A(6,7,2,3,4,5,8,9) refl refl]
  show ?case
    using R Suc.IH [OF A(1)] by (simp add: Let_def)
qed simp

lemma am4_loop_ref:
  "am_args (2 ^ 26) this i x w j c n h \<Longrightarrow> am4_loop (x mod 2 ^ 13) (x div 2 ^ 13) this i w j c n h = am_ref (2 ^ 26) this i x w j c n h"
proof (induction n arbitrary: i j c h)
  case (Suc n)
  have B: "(2::int) \<le> 2 ^ 26" by simp
  note A = am_args_step [OF B Suc.prems refl]
  note R = signed_round [of 13 "2 ^ 13" "2 ^ 26" x "dig this i h" "dig w j h" c, OF _ _ refl _ A(6,7,2,3,4,5,8,9) refl refl]
  show ?case
    using R Suc.IH [OF A(1)] by (simp add: Let_def)
qed simp

text \<open>One round of \<open>am2\<close>, whose sums need the unsigned shifts and which splits the carry as well.\<close>

lemma unsigned_round:
  fixes x d w c :: int
  assumes x: "0 \<le> x" "x \<le> 2 * 2 ^ 30 - 2" and d: "0 \<le> d" "d < 2 ^ 30" and w: "0 \<le> w" "w < 2 ^ 30" and c: "0 \<le> c" "c < 2 * 2 ^ 30"
    and m: "m = x div 2 ^ 15 * js_and d 0x7fff + js_shr d 15 * (x mod 2 ^ 15)"
    and l: "l = x mod 2 ^ 15 * js_and d 0x7fff + js_shl (js_and m 0x7fff) 15 + w + js_and c 0x3fffffff"
  shows "js_and l 0x3fffffff = (x * d + w + c) mod 2 ^ 30"
    "js_ushr l 30 + js_ushr m 15 + x div 2 ^ 15 * js_shr d 15 + js_ushr c 30 = (x * d + w + c) div 2 ^ 30"
proof -
  have mask: "js_and y 0x7fff = y mod 2 ^ 15" "js_and y 0x3fffffff = y mod 2 ^ 30" for y
    using js_and_mask [of 15 y] js_and_mask [of 30 y] by simp_all
  have hd: "js_shr d 15 = d div 2 ^ 15" using js_shr_div [of d 15] d by (simp add: is_int32_def)
  have s: "js_shl (js_and m 0x7fff) 15 = m mod 2 ^ 15 * 2 ^ 15"
  proof -
    define q where "q = m mod 2 ^ 15"
    have "0 \<le> q" "q < 2 ^ 15" unfolding q_def by simp_all
    then have "is_int32 (q * 2 ^ nat 15)" "is_int32 q" by (simp_all add: is_int32_def)
    then show ?thesis using js_shl_mult [of q 15] by (simp add: mask q_def)
  qed
  define c0 where "c0 = c mod 2 ^ 30"
  have c0: "0 \<le> c0" "c0 < 2 ^ 30" by (simp_all add: c0_def)
  have m': "m = x div 2 ^ 15 * (d mod 2 ^ 15) + d div 2 ^ 15 * (x mod 2 ^ 15)" using m by (simp add: mask hd)
  have l': "l = x mod 2 ^ 15 * (d mod 2 ^ 15) + m mod 2 ^ 15 * 2 ^ 15 + w + c0" using l unfolding s by (simp add: mask c0_def)
  have H: "(2::int) \<le> 2 ^ 15" "(2::int) ^ 15 * 2 ^ 15 = 2 ^ 30" by simp_all
  note S = split_step [OF H(1), unfolded H(2), OF x d w c0(1) _ m' l']
  have c1: "c0 < 2 * 2 ^ 30" using c0 by simp
  have lb: "0 \<le> l" "l < 2 ^ 32" "0 \<le> m" "m < 2 ^ 32" using S(1-6) [OF c1] c0 by simp_all
  have v: "x * d + w + c = x * d + w + c0 + (c div 2 ^ 30) * 2 ^ 30" by (simp add: c0_def)
  show "js_and l 0x3fffffff = (x * d + w + c) mod 2 ^ 30" using S(7) [OF c1] unfolding v mask by simp
  have "js_ushr l 30 = l div 2 ^ 30" "js_ushr m 15 = m div 2 ^ 15" "js_ushr c 30 = c div 2 ^ 30"
    using js_ushr_div [OF lb(1,2), of 30] js_ushr_div [OF lb(3,4), of 15] js_ushr_div [of c 30] c by simp_all
  then show "js_ushr l 30 + js_ushr m 15 + x div 2 ^ 15 * js_shr d 15 + js_ushr c 30 = (x * d + w + c) div 2 ^ 30"
    using S(8) [OF c1] unfolding v hd by simp
qed

lemma am2_loop_ref:
  "am_args (2 ^ 30) this i x w j c n h \<Longrightarrow> am2_loop (x mod 2 ^ 15) (x div 2 ^ 15) this i w j c n h = am_ref (2 ^ 30) this i x w j c n h"
proof (induction n arbitrary: i j c h)
  case (Suc n)
  have B: "(2::int) \<le> 2 ^ 30" by simp
  note A = am_args_step [OF B Suc.prems refl]
  note R = unsigned_round [of x "dig this i h" "dig w j h" c, OF A(6,7,2,3,4,5,8,9) refl refl]
  show ?case
    using R Suc.IH [OF A(1)] by (simp add: Let_def)
qed simp

lemma am2_ref:
  assumes "am_args (2 ^ 30) this i x w j c n h" shows "am2 this i x w j c n h = am_ref (2 ^ 30) this i x w j c n h"
  using am2_loop_ref [OF assms] js_and_mask [of 15 x] js_shr_div [of x 15] assms
  by (simp add: am2_def am_args_def is_int32_def)

lemma am3_ref:
  assumes "am_args (2 ^ 28) this i x w j c n h" shows "am3 this i x w j c n h = am_ref (2 ^ 28) this i x w j c n h"
  using am3_loop_ref [OF assms] js_and_mask [of 14 x] js_shr_div [of x 14] assms
  by (simp add: am3_def am_args_def is_int32_def)

lemma am4_ref:
  assumes "am_args (2 ^ 26) this i x w j c n h" shows "am4 this i x w j c n h = am_ref (2 ^ 26) this i x w j c n h"
  using am4_loop_ref [OF assms] js_and_mask [of 13 x] js_shr_div [of x 13] assms
  by (simp add: am4_def am_args_def is_int32_def)

interpretation am1_impl: multiply_add am1 "2 ^ 26"
  by unfold_locales (simp_all add: am1_ref am_ref_correct)

interpretation am2_impl: multiply_add am2 "2 ^ 30"
  by unfold_locales (simp_all add: am2_ref am_ref_correct)

interpretation am3_impl: multiply_add am3 "2 ^ 28"
  by unfold_locales (simp_all add: am3_ref am_ref_correct)

interpretation am4_impl: multiply_add am4 "2 ^ 26"
  by unfold_locales (simp_all add: am4_ref am_ref_correct)

section \<open>Sign and absolute value\<close>

text \<open>The constant \<open>ZERO\<close> is in place; \<open>r\<close> and new objects may change.\<close>

definition zero_ok :: "store \<Rightarrow> bool" where
  "zero_ok h \<longleftrightarrow> ZERO < length h \<and> len ZERO h = 0 \<and> sgw ZERO h = 0"

definition grows :: "store \<Rightarrow> store \<Rightarrow> bool" where
  "grows h h' \<longleftrightarrow> length h \<le> length h' \<and> (\<forall>b<length h. h' ! b = h ! b)"

lemma grows_refl [simp]: "grows h h"
  by (simp add: grows_def)

lemma grows_trans: "grows h h1 \<Longrightarrow> grows h1 h2 \<Longrightarrow> grows h h2"
  by (simp add: grows_def)

lemma grows_obj:
  "grows h h' \<Longrightarrow> b < length h \<Longrightarrow> dig b i h' = dig b i h \<and> len b h' = len b h \<and> sgw b h' = sgw b h"
  by (simp add: grows_def dig_def len_def sgw_def)

lemma obj_same:
  assumes "\<And>i. dig b i h' = dig b i h" "len b h' = len b h" "sgw b h' = sgw b h"
  shows "bval E h' b = bval E h b" "b < length h \<Longrightarrow> b < length h' \<Longrightarrow> big E h' b = big E h b"
  using assms by (simp_all add: bval_def big_def)

lemma grows_big: "grows h h' \<Longrightarrow> big E h b \<Longrightarrow> big E h' b \<and> bval E h' b = bval E h b"
  by (auto simp: big_def bval_def grows_obj) (auto simp: grows_def)

lemma frame_big: "frame r h h' \<Longrightarrow> b \<noteq> r \<Longrightarrow> big E h' b = big E h b \<and> bval E h' b = bval E h b"
  by (simp add: big_def bval_def frame_dig frame_length)

lemma zero_big: "zero_ok h \<Longrightarrow> big E h ZERO \<and> bval E h ZERO = 0"
  by (simp add: zero_ok_def big_def bval_def)

lemma zero_ok_grows: "grows h h' \<Longrightarrow> zero_ok h \<Longrightarrow> zero_ok h'"
  by (auto simp: zero_ok_def grows_obj) (auto simp: grows_def)

lemma bval_sign:
  assumes E: "engine_ok E" and a: "big E h a"
  shows "bval E h a < 0 \<longleftrightarrow> sgw a h = - 1"
proof -
  note D = dsum_bounds [of "base E" "len a h" "\<lambda>k. dig a k h"]
  have "0 \<le> dsum (base E) (\<lambda>k. dig a k h) (len a h)" "dsum (base E) (\<lambda>k. dig a k h) (len a h) < base E ^ len a h"
    using D big_digits [OF a] base_bounds [OF E] by simp_all
  then show ?thesis using big_sgw [OF a] by (auto simp: bval_def)
qed

lemma bnNegate_correct:
  assumes E: "engine_ok E" and a: "big E h a" and z: "zero_ok h" and run: "bnNegate E a h = (x, h')"
  shows "x = length h" "length h' = Suc (length h)" "grows h h'" "big E h' x" "clamped E h' x" "bval E h' x = - bval E h a"
proof -
  define g where "g = h @ [fresh E]"
  have gr: "grows h g" by (simp add: grows_def g_def nth_append)
  have x: "x = length h" and h': "h' = bnpSubTo E ZERO a (length h) g"
    using run by (auto simp: bnNegate_def nbi_def g_def Let_def)
  have "big E g a" "big E g ZERO" "bval E g a = bval E h a" "bval E g ZERO = 0"
    using grows_big [OF gr a] grows_big [OF gr, of E ZERO] zero_big [OF z] by auto
  with bnpSubTo_correct [OF E, of g ZERO a "length h"]
  have r: "result_of E (length h) (- bval E h a) g h'" by (simp add: h' g_def)
  then show "x = length h" "length h' = Suc (length h)" "big E h' x" "clamped E h' x" "bval E h' x = - bval E h a"
    by (simp_all add: result_of_def x frame_def g_def)
  show "grows h h'" using r gr by (auto simp: result_of_def frame_def grows_def)
qed

lemma bnAbs_correct:
  assumes E: "engine_ok E" and a: "big E h a" and z: "zero_ok h" and run: "bnAbs E a h = (x, h')"
  shows "grows h h'" "big E h' x" "bval E h' x = \<bar>bval E h a\<bar>" "sgw x h' = 0" "x = a \<or> x = length h \<and> length h' = Suc (length h)"
    "clamped E h a \<Longrightarrow> clamped E h' x"
proof -
  have "grows h h' \<and> big E h' x \<and> bval E h' x = \<bar>bval E h a\<bar> \<and> (x = a \<or> x = length h \<and> length h' = Suc (length h)) \<and>
    (clamped E h a \<longrightarrow> clamped E h' x)"
  proof (cases "sgw a h < 0")
    case True
    then show ?thesis
      using bnNegate_correct [OF E a z, of x h'] run big_sgw [OF a] bval_sign [OF E a] by (auto simp: bnAbs_def)
  next
    case False
    then show ?thesis using run a big_sgw [OF a] bval_sign [OF E a] by (auto simp: bnAbs_def)
  qed
  then show "grows h h'" "big E h' x" "bval E h' x = \<bar>bval E h a\<bar>" "x = a \<or> x = length h \<and> length h' = Suc (length h)"
    "clamped E h a \<Longrightarrow> clamped E h' x" by simp_all
  then show "sgw x h' = 0" using bval_sign [OF E, of h' x] big_sgw [of E h' x] by auto
qed

lemma zero_digits_correct:
  "r < length h \<Longrightarrow> frame r h (zero_digits r is h) \<and> len r (zero_digits r is h) = len r h \<and> sgw r (zero_digits r is h) = sgw r h \<and>
    dig r k (zero_digits r is h) = (if k \<in> set is then 0 else dig r k h)"
proof (induction "is" arbitrary: h)
  case (Cons i "is")
  have "r < length (set_dig r i 0 h)" using Cons.prems by (simp add: store_simps)
  from Cons.IH [OF this] show ?case
    using Cons.prems frame_trans [OF frame_set(1) [of r h i 0]] by (simp add: zero_digits_def store_simps)
qed (simp add: zero_digits_def)

section \<open>Products\<close>

context multiply_add begin

lemma am_call:
  assumes "x \<noteq> r" "r < length h" "0 \<le> v" "v \<le> 2 * B - 2" "0 \<le> c" "c < 2 * B"
    and "\<forall>k<n. 0 \<le> dig x (i + k) h \<and> dig x (i + k) h < B" "\<forall>k<n. 0 \<le> dig r (j + k) h \<and> dig r (j + k) h < B"
    and "f x i v r j c n h = (c', h')"
  shows "am_result B x i v r j c n h c' h'"
  using assms by (intro am_correct) (simp_all add: am_args_def)

text \<open>The rows of the product, from digit \<open>i\<close> of \<open>y\<close> on.\<close>

lemma multiply_loop_correct:
  assumes E: "e_am E = f" and xy: "x \<noteq> r" "y \<noteq> r"
  shows "n = len y h - i \<Longrightarrow> i \<le> len y h \<Longrightarrow> r < length h \<Longrightarrow>
    \<forall>k<len x h. 0 \<le> dig x k h \<and> dig x k h < B \<Longrightarrow> \<forall>k<len y h. 0 \<le> dig y k h \<and> dig y k h < B \<Longrightarrow>
    \<forall>k<len x h + i. 0 \<le> dig r k h \<and> dig r k h < B \<Longrightarrow> h' = multiply_loop E x y r [i..<len y h] h \<Longrightarrow>
    frame r h h' \<and> len r h' = len r h \<and> sgw r h' = sgw r h \<and>
    (\<forall>k<len x h + len y h. 0 \<le> dig r k h' \<and> dig r k h' < B) \<and>
    dsum B (\<lambda>k. dig r k h') (len x h + len y h) =
      dsum B (\<lambda>k. dig r k h) (len x h + i) +
      dsum B (\<lambda>k. dig x k h) (len x h) * (dsum B (\<lambda>k. dig y k h) (len y h) - dsum B (\<lambda>k. dig y k h) i)"
proof (induction n arbitrary: i h)
  case 0
  then have "i = len y h" by simp
  then show ?case using 0 by simp
next
  case (Suc n)
  let ?t = "len x h" and ?X = "dsum B (\<lambda>k. dig x k h) (len x h)"
  have i: "i < len y h" using Suc.prems(1) by simp
  obtain c h1 where am: "f x 0 (dig y i h) r i 0 ?t h = (c, h1)" by fastforce
  have yi: "0 \<le> dig y i h" "dig y i h < B" using Suc.prems(5) i by auto
  have R: "am_result B x 0 (dig y i h) r i 0 ?t h c h1"
  proof (rule am_call [OF xy(1) Suc.prems(3) yi(1)])
    show "dig y i h \<le> 2 * B - 2" using yi base_pos by linarith
  qed (use Suc.prems base_pos am in simp_all)
  then have lt: "later r (i + ?t) h h1" and c: "0 \<le> c" and keep: "\<forall>k<i. dig r k h1 = dig r k h"
    and rng: "\<forall>k<?t. 0 \<le> dig r (i + k) h1 \<and> dig r (i + k) h1 < B"
    and sum: "dsum B (\<lambda>k. dig r (i + k) h1) ?t + c * B ^ ?t = dsum B (\<lambda>k. dig r (i + k) h) ?t + dig y i h * ?X"
    by (simp_all add: am_result_def)
  define h2 where "h2 = set_dig r (i + ?t) c h1"
  have r1: "r < length h1" using lt Suc.prems(3) by (simp add: later_def frame_def)
  have run: "h' = multiply_loop E x y r [Suc i..<len y h2] h2"
    using Suc.prems(7) i am E later_len [OF lt] by (simp add: upt_conv_Cons h2_def store_simps)
  have same: "len b h2 = len b h" "sgw b h2 = sgw b h" for b using later_len [OF lt] by (simp_all add: h2_def store_simps)
  have fr: "frame r h h2" unfolding h2_def by (rule frame_trans [OF later_frame [OF lt] frame_set(1)])
  have dd: "dig x k h2 = dig x k h" "dig y k h2 = dig y k h" for k using frame_dig [OF fr] xy by simp_all
  have dr: "dig r k h2 = (if k = i + ?t then c else if k < i then dig r k h else dig r k h1)" for k
    using r1 keep by (simp add: h2_def store_simps)
  have "c < B"
  proof -
    have "dsum B (\<lambda>k. dig r (i + k) h) ?t < B ^ ?t" "?X < B ^ ?t" "0 \<le> dsum B (\<lambda>k. dig r (i + k) h1) ?t"
      using dsum_bounds [of B ?t] Suc.prems(4,6) rng base_pos by simp_all
    moreover have "dig y i h * ?X \<le> (B - 1) * (B ^ ?t - 1)"
      using yi base_pos calculation(2) dsum_bounds(1) [of B ?t "\<lambda>k. dig x k h"] Suc.prems(4) by (intro mult_mono) simp_all
    moreover have "(B - 1) * (B ^ ?t - 1) = B * B ^ ?t - B - B ^ ?t + 1" by (simp add: algebra_simps)
    ultimately have "c * B ^ ?t < B * B ^ ?t" using sum base_pos by linarith
    then show "c < B" using base_pos by simp
  qed
  have rng2: "\<forall>k<len x h2 + Suc i. 0 \<le> dig r k h2 \<and> dig r k h2 < B"
  proof (intro allI impI)
    fix k assume k: "k < len x h2 + Suc i"
    show "0 \<le> dig r k h2 \<and> dig r k h2 < B"
    proof (cases "i \<le> k \<and> k < i + ?t")
      case True
      then have "k - i < ?t" by linarith
      then show ?thesis using rng [rule_format, of "k - i"] True by (simp add: dr)
    next
      case False
      then show ?thesis using k Suc.prems(6) c \<open>c < B\<close> by (auto simp: dr same)
    qed
  qed
  have low: "dsum B (\<lambda>k. dig r k h2) i = dsum B (\<lambda>k. dig r k h) i" by (rule dsum_cong) (simp add: dr)
  have top: "dig r (i + ?t) h2 = c" by (simp add: dr)
  have mid: "dsum B (\<lambda>k. dig r (i + k) h2) ?t = dsum B (\<lambda>k. dig r (i + k) h1) ?t" by (rule dsum_cong) (simp add: dr)
  have "dsum B (\<lambda>k. dig r k h2) (Suc (i + ?t)) =
      dsum B (\<lambda>k. dig r k h) i + B ^ i * (dsum B (\<lambda>k. dig r (i + k) h1) ?t + c * B ^ ?t)"
    unfolding dsum_simps(2) dsum_add low mid top by (simp add: power_add algebra_simps)
  also have "\<dots> = dsum B (\<lambda>k. dig r k h) (i + ?t) + ?X * (dig y i h * B ^ i)"
    by (simp only: sum dsum_add) (simp add: algebra_simps)
  finally have step: "dsum B (\<lambda>k. dig r k h2) (?t + Suc i) = dsum B (\<lambda>k. dig r k h) (?t + i) + ?X * (dig y i h * B ^ i)"
    by (simp add: add.commute)
  have "frame r h2 h' \<and> len r h' = len r h2 \<and> sgw r h' = sgw r h2 \<and>
    (\<forall>k<len x h2 + len y h2. 0 \<le> dig r k h' \<and> dig r k h' < B) \<and>
    dsum B (\<lambda>k. dig r k h') (len x h2 + len y h2) =
      dsum B (\<lambda>k. dig r k h2) (len x h2 + Suc i) +
      dsum B (\<lambda>k. dig x k h2) (len x h2) * (dsum B (\<lambda>k. dig y k h2) (len y h2) - dsum B (\<lambda>k. dig y k h2) (Suc i))"
    using Suc.prems i run rng2 fr by (intro Suc.IH) (simp_all add: same dd frame_def)
  then have I: "frame r h2 h' \<and> len r h' = len r h \<and> sgw r h' = sgw r h \<and>
    (\<forall>k<?t + len y h. 0 \<le> dig r k h' \<and> dig r k h' < B) \<and>
    dsum B (\<lambda>k. dig r k h') (?t + len y h) = dsum B (\<lambda>k. dig r k h) (?t + i) + ?X * (dig y i h * B ^ i) +
      ?X * (dsum B (\<lambda>k. dig y k h) (len y h) - (dsum B (\<lambda>k. dig y k h) i + dig y i h * B ^ i))"
    unfolding same dd step dsum_simps(2) .
  then show ?case
    using frame_trans [OF fr] by (simp add: right_diff_distrib distrib_left)
qed

lemma clear_clamp:
  assumes E: "engine_ok E" "base E = B" and r: "r < length h" and d: "\<forall>k<len r h. 0 \<le> dig r k h \<and> dig r k h < B"
    and v: "dsum B (\<lambda>k. dig r k h) (len r h) = v"
  shows "result_of E r v h (bnpClamp E r (set_sgw r 0 h))"
proof -
  have b: "big E (set_sgw r 0 h) r" using r d E by (simp add: big_def store_simps)
  have "bval E (set_sgw r 0 h) r = v" using r v E by (simp add: bval_def store_simps)
  then show ?thesis
    unfolding result_of_def using bnpClamp_correct [OF E(1) b] frame_trans [OF frame_set(3)] by simp
qed

text \<open>The result object has the product, every other object of the store is as before; absolute values may be new objects.\<close>

lemma bnpMultiplyTo_correct:
  assumes E: "engine_ok E" "e_am E = f" "base E = B" and tb: "big E h this" and a: "big E h a" and z: "zero_ok h"
    and r: "r < length h" "r \<noteq> this" "r \<noteq> a" "r \<noteq> ZERO" and h': "h' = bnpMultiplyTo E this a r h"
  shows "length h \<le> length h'" "\<forall>b<length h. b \<noteq> r \<longrightarrow> h' ! b = h ! b" "big E h' r" "clamped E h' r"
    "bval E h' r = bval E h this * bval E h a"
proof -
  obtain x h1 where x: "bnAbs E this h = (x, h1)" by fastforce
  note X = bnAbs_correct [OF E(1) tb z x]
  have a1: "big E h1 a" "bval E h1 a = bval E h a" using grows_big [OF X(1) a] by simp_all
  have z1: "zero_ok h1" by (rule zero_ok_grows [OF X(1) z])
  obtain y h2 where y: "bnAbs E a h1 = (y, h2)" by fastforce
  note Y = bnAbs_correct [OF E(1) a1(1) z1 y]
  have g: "grows h h2" by (rule grows_trans [OF X(1) Y(1)])
  have x2: "big E h2 x" "bval E h2 x = \<bar>bval E h this\<bar>" using grows_big [OF Y(1) X(2)] X(3) by simp_all
  have y2: "big E h2 y" "bval E h2 y = \<bar>bval E h a\<bar>" using Y(2,3) a1 by simp_all
  have s2: "sgw x h2 = 0" "sgw y h2 = 0" using grows_obj [OF Y(1), of x] X(2,4) Y(4) by (simp_all add: big_def)
  have xr: "x \<noteq> r" "y \<noteq> r" "r < length h2" using X(5) Y(5) r X(1) g by (auto simp: grows_def)
  define h3 where "h3 = set_len r (len x h2 + len y h2) h2"
  define h4 where "h4 = zero_digits r (rev [0..<len x h3]) h3"
  define h5 where "h5 = multiply_loop E x y r [0..<len y h4] h4"
  define h6 where "h6 = bnpClamp E r (set_sgw r 0 h5)"
  have f3: "frame r h2 h3" by (simp add: h3_def)
  note Z = zero_digits_correct [of r h3 "rev [0..<len x h3]", folded h4_def]
  have "r < length h3" using xr by (simp add: h3_def store_simps)
  then have f4: "frame r h2 h4" using Z frame_trans [OF f3] by blast
  have o4: "dig b i h4 = dig b i h2" "len b h4 = len b h2" "sgw b h4 = sgw b h2" if "b \<noteq> r" for b i
    using frame_dig [OF f4 that] by simp_all
  have d4: "dig r k h4 = 0" if "k < len x h2" for k using Z xr that by (simp add: h3_def store_simps)
  have l4: "len r h4 = len x h2 + len y h2" "r < length h4" using Z xr f4 by (auto simp: h3_def store_simps frame_def)
  note dx = big_digits [OF x2(1)] and dy = big_digits [OF y2(1)]
  have M: "frame r h4 h5 \<and> len r h5 = len r h4 \<and> sgw r h5 = sgw r h4 \<and>
    (\<forall>k<len x h4 + len y h4. 0 \<le> dig r k h5 \<and> dig r k h5 < B) \<and>
    dsum B (\<lambda>k. dig r k h5) (len x h4 + len y h4) = dsum B (\<lambda>k. dig r k h4) (len x h4 + 0) +
      dsum B (\<lambda>k. dig x k h4) (len x h4) * (dsum B (\<lambda>k. dig y k h4) (len y h4) - dsum B (\<lambda>k. dig y k h4) 0)"
    by (rule multiply_loop_correct [OF E(2) xr(1,2) refl le0 l4(2) _ _ _ h5_def])
      (use dx dy E(3) base_pos in \<open>simp_all add: o4 xr d4\<close>)
  have "dsum B (\<lambda>k. dig r k h4) (len x h2) = dsum B (\<lambda>k. 0) (len x h2)" by (rule dsum_cong) (simp add: d4)
  then have z4: "dsum B (\<lambda>k. dig r k h4) (len x h2) = 0" by (simp add: dsum_def)
  have vx: "dsum B (\<lambda>k. dig x k h2) (len x h2) = \<bar>bval E h this\<bar>" "dsum B (\<lambda>k. dig y k h2) (len y h2) = \<bar>bval E h a\<bar>"
    using x2(2) y2(2) s2 E(3) by (simp_all add: bval_def)
  have v5: "dsum B (\<lambda>k. dig r k h5) (len r h5) = \<bar>bval E h this\<bar> * \<bar>bval E h a\<bar>"
    using M l4 z4 vx by (simp add: o4 xr)
  have r5: "r < length h5" using M l4 by (simp add: frame_def)
  have R: "result_of E r (\<bar>bval E h this\<bar> * \<bar>bval E h a\<bar>) h5 h6"
    unfolding h6_def using M l4 by (intro clear_clamp [OF E(1,3) r5 _ v5]) (simp add: o4 xr)
  have f6: "frame r h2 h6" using frame_trans [OF frame_trans [OF f4]] M R by (auto simp: result_of_def)
  have same: "b < length h \<Longrightarrow> b \<noteq> r \<Longrightarrow> h6 ! b = h ! b" for b using f6 g by (auto simp: frame_def grows_def)
  have l6: "length h6 = length h2" "length h \<le> length h2" using f6 g by (simp_all add: frame_def grows_def)
  have t: "this < length h" "a < length h" using tb a by (simp_all add: big_def)
  have sg: "sgw this h6 = sgw this h" "sgw a h6 = sgw a h" using same t r by (simp_all add: sgw_def)
  have run: "h' = (if sgw this h \<noteq> sgw a h then bnpSubTo E ZERO r r h6 else h6)"
    using x y unfolding h' bnpMultiplyTo_def h3_def [symmetric] h4_def [symmetric] h5_def [symmetric]
    by (simp add: Let_def h3_def [symmetric] h4_def [symmetric] h5_def [symmetric] h6_def [symmetric] sg)
  have sv: "bval E h this * bval E h a = (if sgw this h \<noteq> sgw a h then - (\<bar>bval E h this\<bar> * \<bar>bval E h a\<bar>) else \<bar>bval E h this\<bar> * \<bar>bval E h a\<bar>)"
    using bval_sign [OF E(1) tb] bval_sign [OF E(1) a] big_sgw [OF tb] big_sgw [OF a] by (auto simp: abs_if)
  have "length h' = length h2 \<and> frame r h6 h' \<and> big E h' r \<and> clamped E h' r \<and> bval E h' r = bval E h this * bval E h a"
  proof (cases "sgw this h = sgw a h")
    case True
    then show ?thesis using R run sv l6 by (simp add: result_of_def)
  next
    case False
    have "zero_ok h6" using zero_ok_grows [OF g z] f6 r(4) by (simp add: zero_ok_def frame_dig frame_length)
    from zero_big [OF this] bnpSubTo_correct [OF E(1), of h6 ZERO r r] R
    have "result_of E r (- (\<bar>bval E h this\<bar> * \<bar>bval E h a\<bar>)) h6 h'"
      using False run r5 by (simp add: result_of_def big_def)
    then show ?thesis using False sv l6 by (simp add: result_of_def frame_def)
  qed
  then show "length h \<le> length h'" "\<forall>b<length h. b \<noteq> r \<longrightarrow> h' ! b = h ! b" "big E h' r" "clamped E h' r"
    "bval E h' r = bval E h this * bval E h a"
    using l6 same by (auto simp: frame_def)
qed

end
end
