(* ===== verification/Crypto_Square.thy ===== *)
theory Crypto_Square
  imports Crypto_Multiply
begin

text \<open>
  \<open>bnpSquareTo\<close> of \<open>v8/crypto.js\<close>: what the rows computed so far add up to, one row, all rows, the last digit, and the
  result, for every implementation of the interface \<open>multiply_add\<close>.
\<close>

text \<open>The square: before row \<open>i\<close> the digits of \<open>r\<close> hold the square of the number less that of its upper part.\<close>

definition square_inv :: "int \<Rightarrow> addr \<Rightarrow> addr \<Rightarrow> nat \<Rightarrow> store \<Rightarrow> bool" where
  "square_inv B x r i h \<longleftrightarrow>
    (let t = len x h; X = dsum B (\<lambda>k. dig x k h) t; L = dsum B (\<lambda>k. dig x k h) i
     in r < length h \<and> x \<noteq> r \<and> (\<forall>k<t. 0 \<le> dig x k h \<and> dig x k h < B) \<and>
        (\<forall>k<2 * t. 0 \<le> dig r k h \<and> dig r k h < B) \<and> (\<forall>k<2 * t. i + t < k \<longrightarrow> dig r k h = 0) \<and>
        (i + t < 2 * t \<longrightarrow> dig r (i + t) h \<le> 1) \<and>
        dsum B (\<lambda>k. dig r k h) (2 * t) = X * X - (X - L) * (X - L))"

text \<open>The carry out of one row stays below two digits.\<close>

lemma square_carry:
  fixes B u D :: int
  assumes B: "2 \<le> B" and u: "0 \<le> u" "u < B" and D: "0 \<le> D" "D \<le> B ^ n - 1" and v1: "g' + c * B = g + u * u" and g: "g < B" "0 \<le> g'"
    and v2: "s' + v * B ^ n = c + s + 2 * u * D" and s: "s < B ^ n" "0 \<le> s'"
  shows "v < 2 * B - 1"
proof -
  have P: "0 < B ^ n" using B by simp
  have "u * D \<le> (B - 1) * (B ^ n - 1)" using u D B P by (intro mult_mono) simp_all
  moreover have "u * u \<le> (B - 1) * (B - 1)" using u by (intro mult_mono) simp_all
  moreover have "(B - 1) * (B - 1) = B * B - 2 * B + 1" by (simp add: algebra_simps)
  ultimately have "c * B < B * B" using v1 g B by linarith
  then have "c < B" using B by simp
  with \<open>u * D \<le> (B - 1) * (B ^ n - 1)\<close> have "v * B ^ n < B + B ^ n + 2 * ((B - 1) * (B ^ n - 1))" using v2 s by simp
  also have "\<dots> \<le> (2 * B - 1) * B ^ n" using B by (simp add: algebra_simps)
  finally show "v < 2 * B - 1" using P by simp
qed

context multiply_add begin

lemma split_square:
  assumes "Suc i < t"
  shows "dsum B g (2 * t) = dsum B g (2 * i) + B ^ (2 * i) * (g (2 * i) + B * (dsum B (\<lambda>k. g (Suc (2 * i) + k)) (t - i - 1) +
    B ^ (t - i - 1) * (g (i + t) + B * (g (Suc (i + t)) + B * dsum B (\<lambda>k. g (Suc (Suc (i + t)) + k)) (t - i - 2)))))"
proof -
  let ?n = "t - i - 1"
  have e: "2 * t = 2 * i + Suc (?n + Suc (Suc (t - i - 2)))" "Suc (2 * i + ?n) = i + t" using assms by simp_all
  have "dsum B g (2 * t) = dsum B g (2 * i) + B ^ (2 * i) * dsum B (\<lambda>k. g (2 * i + k)) (Suc (?n + Suc (Suc (t - i - 2))))"
    unfolding e(1) by (rule dsum_add)
  also have "dsum B (\<lambda>k. g (2 * i + k)) (Suc (?n + Suc (Suc (t - i - 2)))) =
      g (2 * i) + B * (dsum B (\<lambda>k. g (Suc (2 * i) + k)) ?n + B ^ ?n * dsum B (\<lambda>k. g (Suc (2 * i) + (?n + k))) (Suc (Suc (t - i - 2))))"
    unfolding dsum_shift [of B _ "?n + _"] dsum_add [of B _ ?n] by simp
  also have "dsum B (\<lambda>k. g (Suc (2 * i) + (?n + k))) (Suc (Suc (t - i - 2))) =
      g (i + t) + B * (g (Suc (i + t)) + B * dsum B (\<lambda>k. g (Suc (Suc (i + t)) + k)) (t - i - 2))"
    unfolding dsum_shift using e(2) by (simp add: add.assoc [symmetric] del: dsum_simps) 
  finally show ?thesis .
qed

lemma square_step:
  assumes I: "square_inv B x r i h" and E: "e_am E = f" "DV E = B" and i: "Suc i < len x h"
    and h': "square_loop E x r [i] h = h'"
  shows "square_inv B x r (Suc i) h'" "frame r h h'" "len r h' = len r h"
proof -
  define t where "t = len x h"
  define n where "n = t - i - 1"
  have r: "r < length h" "x \<noteq> r" and dx: "\<forall>k<t. 0 \<le> dig x k h \<and> dig x k h < B"
    and dr: "\<forall>k<2 * t. 0 \<le> dig r k h \<and> dig r k h < B" and zr: "\<forall>k<2 * t. i + t < k \<longrightarrow> dig r k h = 0" and o1: "dig r (i + t) h \<le> 1"
    and val: "dsum B (\<lambda>k. dig r k h) (2 * t) = dsum B (\<lambda>k. dig x k h) t * dsum B (\<lambda>k. dig x k h) t -
      (dsum B (\<lambda>k. dig x k h) t - dsum B (\<lambda>k. dig x k h) i) * (dsum B (\<lambda>k. dig x k h) t - dsum B (\<lambda>k. dig x k h) i)"
    using I i by (simp_all add: square_inv_def Let_def t_def)
  define X where "X = dsum B (\<lambda>k. dig x k h) t"
  define L where "L = dsum B (\<lambda>k. dig x k h) i"
  define u where "u = dig x i h"
  define D where "D = dsum B (\<lambda>k. dig x (Suc i + k) h) n"
  have it: "Suc i < t" "i < t" "2 * i < 2 * t" using i by (simp_all add: t_def)
  have u: "0 \<le> u" "u < B" using dx it by (simp_all add: u_def)
  have XL: "X - L = B ^ i * (u + B * D)"
    using dsum_add [of B "\<lambda>k. dig x k h" i "Suc n"] it by (simp add: X_def L_def n_def u_def D_def dsum_shift del: dsum_simps)
  obtain c h1 where am1: "f x i u r (2 * i) 0 1 h = (c, h1)" by fastforce
  have R1: "am_result B x i u r (2 * i) 0 1 h c h1"
    by (rule am_call [OF r(2,1) u(1) _ _ _ _ _ am1]) (use u base_pos dr it in \<open>simp_all add: u_def\<close>)
  have lt1: "later r (Suc (2 * i)) h h1" and c: "0 \<le> c" "c < 2 * B" and k1: "\<forall>k<2 * i. dig r k h1 = dig r k h"
    and g1: "0 \<le> dig r (2 * i) h1 \<and> dig r (2 * i) h1 < B" and v1: "dig r (2 * i) h1 + c * B = dig r (2 * i) h + u * u"
    using R1 by (simp_all add: am_result_def u_def)
  define old where "old = dig r (i + t) h1"
  obtain v h2 where am2: "f x (i + 1) (2 * u) r (2 * i + 1) c n h1 = (v, h2)" by fastforce
  have x1: "dig x k h1 = dig x k h" for k using frame_dig [OF later_frame [OF lt1] r(2)] by simp
  have r1: "r < length h1" using lt1 r by (simp add: later_def frame_def)
  have d1: "dig r k h1 = dig r k h" if "2 * i < k" for k using later_dig [OF lt1, of k] that by simp
  have R2: "am_result B x (i + 1) (2 * u) r (2 * i + 1) c n h1 v h2"
    by (rule am_call [OF r(2) r1 _ _ c _ _ am2]) (use u dx dr it in \<open>simp_all add: n_def x1 d1\<close>)
  have e: "Suc (2 * i + n) = i + t" using it by (simp add: n_def)
  have lt2: "later r (i + t) h1 h2" and v0: "0 \<le> v" and k2: "\<forall>k<Suc (2 * i). dig r k h2 = dig r k h1"
    and g2: "\<forall>k<n. 0 \<le> dig r (Suc (2 * i) + k) h2 \<and> dig r (Suc (2 * i) + k) h2 < B"
    and v2: "dsum B (\<lambda>k. dig r (Suc (2 * i) + k) h2) n + v * B ^ n =
      c + dsum B (\<lambda>k. dig r (Suc (2 * i) + k) h) n + 2 * u * D"
    using R2 e by (simp_all add: am_result_def D_def x1 d1)
  define k where "k = i + t"
  have k: "k < 2 * t" "Suc k < 2 * t" using it by (simp_all add: k_def)
  have old: "0 \<le> old" "old \<le> 1" using d1 [of k] dr k o1 it by (auto simp: old_def k_def)
  have dD: "0 \<le> D" "D \<le> B ^ n - 1" using dsum_bounds [of B n "\<lambda>k. dig x (Suc i + k) h"] dx base_pos by (simp_all add: D_def n_def)
  have small: "old + v < 2 * B"
  proof -
    have q: "dsum B (\<lambda>k. dig r (Suc (2 * i) + k) h) n < B ^ n" "0 \<le> dsum B (\<lambda>k. dig r (Suc (2 * i) + k) h2) n"
      using dsum_bounds [of B n] dr g2 it base_pos by (simp_all add: n_def)
    have "dig r (2 * i) h < B" using dr it by simp
    then show ?thesis using square_carry [OF base_pos u dD v1 _ conjunct1 [OF g1] v2 q] old by simp
  qed
  define h3 where "h3 = set_dig r k (old + v) h2"
  have r2: "r < length h2" using lt2 r1 by (simp add: later_def frame_def)
  have run: "h' = (if old + v \<ge> B then set_dig r (Suc k) 1 (set_dig r k (old + v - B) h3) else h3)"
    using h' am1 am2 E r2 later_len [OF lt1] x1
    by (cases "B \<le> old + v") (simp_all add: Let_def u_def n_def t_def k_def old_def h3_def store_simps)
  define cy where "cy = (if old + v \<ge> B then 1 else 0 :: int)"
  have D': "dig r j h' = (if j = k then old + v - cy * B else if j = Suc k \<and> cy = 1 then 1 else dig r j h2)" for j
    using r2 by (simp add: run h3_def cy_def store_simps)
  have cyb: "cy = 0 \<or> cy = 1" "0 \<le> old + v - cy * B" "old + v - cy * B < B" using small old v0 by (auto simp: cy_def)
  have fr: "frame r h h'" and lr: "len r h' = len r h" and lx: "len b h' = len b h" for b
    using lt1 lt2 later_len [OF lt1] later_len [OF lt2] frame_trans [OF later_frame [OF lt1] later_frame [OF lt2]]
    by (auto simp: run h3_def store_simps frame_def)
  show "frame r h h'" "len r h' = len r h" by (fact fr, fact lr)
  have rest: "dig r j h2 = dig r j h" if "k \<le> j" for j
    using later_dig [OF lt2, of j] d1 [of j] that it by (simp add: k_def)
  have low: "dig r j h2 = dig r j h" if "j < 2 * i" for j using that k1 k2 by simp
  have xs: "dig x j h' = dig x j h" for j using frame_dig [OF fr r(2)] by simp
  have kn: "2 * i < k" "Suc (2 * i) + n = k" using e it by (simp_all add: k_def)
  have zk: "dig r (Suc k) h = 0" using zr k by (simp add: k_def)
  have digits: "0 \<le> dig r j h' \<and> dig r j h' < B" if "j < 2 * t" for j
  proof -
    consider "j < 2 * i" | "j = 2 * i" | "2 * i < j" "j < k" | "j = k" | "j = Suc k" | "Suc k < j" by linarith
    then show ?thesis
    proof cases
      case 3
      then show ?thesis using g2 [rule_format, of "j - Suc (2 * i)"] kn by (simp add: D')
    qed (use kn cyb dr that low rest g1 k2 zk base_pos in \<open>auto simp: D'\<close>)
  qed
  have zero: "dig r j h' = 0" if "j < 2 * t" "Suc i + t < j" for j
    using zr that rest [of j] by (simp add: D' k_def)
  have one: "dig r (Suc i + t) h' \<le> 1"
    using rest [of "Suc k"] zk by (simp add: D' k_def)
  have value': "dsum B (\<lambda>j. dig r j h') (2 * t) = dsum B (\<lambda>j. dig r j h) (2 * t) + B ^ (2 * i) * (u * u + B * (2 * u * D))"
  proof -
    have s1: "dsum B (\<lambda>j. dig r j h') (2 * i) = dsum B (\<lambda>j. dig r j h) (2 * i)" by (rule dsum_cong) (use kn low in \<open>simp add: D'\<close>)
    have s2: "dsum B (\<lambda>j. dig r (Suc (2 * i) + j) h') n = dsum B (\<lambda>j. dig r (Suc (2 * i) + j) h2) n"
      by (rule dsum_cong) (use kn in \<open>simp add: D'\<close>)
    have s3: "dsum B (\<lambda>j. dig r (Suc (Suc k) + j) h') (t - i - 2) = dsum B (\<lambda>j. dig r (Suc (Suc k) + j) h) (t - i - 2)"
      by (rule dsum_cong) (use rest in \<open>simp add: D'\<close>)
    have s4: "dig r (2 * i) h' = dig r (2 * i) h + u * u - c * B" using v1 kn k2 by (simp add: D')
    have s5: "dig r k h' = dig r k h + v - cy * B" using d1 kn by (simp add: D' old_def k_def)
    have s6: "dig r (Suc k) h' = cy" "dig r (Suc k) h = 0" using cyb(1) rest [of "Suc k"] zk by (auto simp: D')
    have s7: "dsum B (\<lambda>j. dig r (Suc (2 * i) + j) h2) n = c + dsum B (\<lambda>k. dig r (Suc (2 * i) + k) h) n + 2 * u * D - v * B ^ n"
      using v2 by simp
    show ?thesis
      unfolding split_square [OF it(1)] n_def [symmetric] k_def [symmetric] s1 s2 s3 s4 s5 s6 s7
      by (simp add: algebra_simps)
  qed
  have sq: "(X - L) * (X - L) - (X - (L + u * B ^ i)) * (X - (L + u * B ^ i)) = B ^ (2 * i) * (u * u + B * (2 * u * D))"
  proof -
    have e: "X - (L + u * B ^ i) = B ^ i * (B * D)" using XL by (simp add: algebra_simps)
    have p: "B ^ (2 * i) = B ^ i * B ^ i" by (simp add: mult_2 power_add)
    show ?thesis unfolding e XL p by algebra
  qed
  have L': "dsum B (\<lambda>k. dig x k h') (Suc i) = L + u * B ^ i" "dsum B (\<lambda>k. dig x k h') t = X"
    by (simp_all add: xs L_def u_def X_def)
  have "dsum B (\<lambda>j. dig r j h') (2 * t) = X * X - (X - (L + u * B ^ i)) * (X - (L + u * B ^ i))"
    using value' val sq by (simp add: X_def L_def)
  then show "square_inv B x r (Suc i) h'"
    using r fr dx digits zero one unfolding square_inv_def Let_def lx t_def [symmetric] L'
    by (simp add: xs frame_def)
qed

lemma square_loop_correct:
  assumes E: "e_am E = f" "DV E = B"
  shows "square_inv B x r i h \<Longrightarrow> n = len x h - 1 - i \<Longrightarrow> i \<le> len x h - 1 \<Longrightarrow> square_loop E x r [i..<len x h - 1] h = h' \<Longrightarrow>
    square_inv B x r (len x h - 1) h' \<and> frame r h h' \<and> len r h' = len r h"
proof (induction n arbitrary: i h)
  case 0
  then have "i = len x h - 1" by simp
  then show ?case using 0 by simp
next
  case (Suc n)
  have i: "i < len x h - 1" "Suc i < len x h" using Suc.prems by simp_all
  define h1 where "h1 = square_loop E x r [i] h"
  note S = square_step [OF Suc.prems(1) E i(2) h1_def [symmetric]]
  have xr: "x \<noteq> r" using Suc.prems(1) by (simp add: square_inv_def Let_def)
  have lx: "len x h1 = len x h" using frame_dig [OF S(2) xr] by simp
  have "square_loop E x r (i # js) h = square_loop E x r js h1" for js by (simp add: h1_def Let_def split: prod.splits)
  then have run: "square_loop E x r [Suc i..<len x h1 - 1] h1 = h'" using Suc.prems(4) i(1) by (simp add: upt_conv_Cons lx)
  have "square_inv B x r (len x h1 - 1) h' \<and> frame r h1 h' \<and> len r h' = len r h1"
    by (rule Suc.IH [OF S(1) _ _ run]) (use Suc.prems i in \<open>simp_all add: lx\<close>)
  then show ?case using S frame_trans [OF S(2)] by (simp add: lx)
qed

lemma square_last:
  assumes I: "square_inv B x r (len x h - 1) h" and E: "e_am E = f" and t: "0 < len x h" and i: "i = len x h - 1"
    and am: "f x i (dig x i h) r (2 * i) 0 1 h = (v, h1)" and h': "h' = set_dig r (Suc (2 * i)) (dig r (Suc (2 * i)) h + v) h1"
  shows "frame r h h'" "len r h' = len r h" "len r h1 = len r h" "\<forall>k<2 * len x h. 0 \<le> dig r k h' \<and> dig r k h' < B"
    "dsum B (\<lambda>k. dig r k h') (2 * len x h) = dsum B (\<lambda>k. dig x k h) (len x h) * dsum B (\<lambda>k. dig x k h) (len x h)"
proof -
  define t where "t = len x h"
  define X where "X = dsum B (\<lambda>k. dig x k h) t"
  define u where "u = dig x i h"
  have it: "t = Suc i" using t i by (simp add: t_def)
  have r: "r < length h" "x \<noteq> r" and dx: "\<forall>k<t. 0 \<le> dig x k h \<and> dig x k h < B"
    and dr: "\<forall>k<2 * t. 0 \<le> dig r k h \<and> dig r k h < B"
    and val: "dsum B (\<lambda>k. dig r k h) (2 * t) = X * X - (X - dsum B (\<lambda>k. dig x k h) i) * (X - dsum B (\<lambda>k. dig x k h) i)"
    using I i by (simp_all add: square_inv_def Let_def t_def X_def)
  have u: "0 \<le> u" "u < B" using dx it by (simp_all add: u_def)
  have XL: "X - dsum B (\<lambda>k. dig x k h) i = u * B ^ i" by (simp add: X_def it u_def)
  have R: "am_result B x i u r (2 * i) 0 1 h v h1"
    by (rule am_call [OF r(2,1) u(1) _ _ _ _ _ am [folded u_def]]) (use u base_pos dr it in \<open>simp_all add: u_def\<close>)
  have lt: "later r (Suc (2 * i)) h h1" and v0: "0 \<le> v" and k1: "\<forall>k<2 * i. dig r k h1 = dig r k h"
    and g1: "0 \<le> dig r (2 * i) h1 \<and> dig r (2 * i) h1 < B" and v1: "dig r (2 * i) h1 + v * B = dig r (2 * i) h + u * u"
    using R by (simp_all add: am_result_def u_def)
  have r1: "r < length h1" using lt r by (simp add: later_def frame_def)
  have D': "dig r j h' = (if j = Suc (2 * i) then dig r j h + v else dig r j h1)" for j
    using r1 by (simp add: h' store_simps)
  show fr: "frame r h h'" and "len r h' = len r h" and "len r h1 = len r h"
    using later_frame [OF lt] later_len [OF lt] by (auto simp: h' store_simps frame_def)
  have low: "dsum B (\<lambda>k. dig r k h') (2 * i) = dsum B (\<lambda>k. dig r k h) (2 * i)"
    by (rule dsum_cong) (use k1 in \<open>simp add: D'\<close>)
  have "2 * t = Suc (Suc (2 * i))" using it by simp
  then have sum: "dsum B g (2 * t) = dsum B g (2 * i) + B ^ (2 * i) * (g (2 * i) + B * g (Suc (2 * i)))" for g
    by (simp add: algebra_simps)
  have top: "dig r (2 * i) h' = dig r (2 * i) h + u * u - v * B" "dig r (Suc (2 * i)) h' = dig r (Suc (2 * i)) h + v"
    using v1 by (simp_all add: D')
  have "dsum B (\<lambda>k. dig r k h') (2 * t) = dsum B (\<lambda>k. dig r k h) (2 * t) + B ^ (2 * i) * (u * u)"
    unfolding sum low top by (simp add: algebra_simps)
  then have total: "dsum B (\<lambda>k. dig r k h') (2 * t) = X * X"
    using val unfolding XL by (simp add: power_mult power2_eq_square mult_2 power_add algebra_simps)
  then show "dsum B (\<lambda>k. dig r k h') (2 * len x h) = dsum B (\<lambda>k. dig x k h) (len x h) * dsum B (\<lambda>k. dig x k h) (len x h)"
    by (simp add: t_def X_def)
  have rng: "0 \<le> dig r j h' \<and> dig r j h' < B" if "j \<le> 2 * i" for j
    using that k1 g1 dr it by (cases "j = 2 * i") (simp_all add: D')
  have "dig r (Suc (2 * i)) h' < B"
  proof -
    have "0 \<le> X" "X \<le> B ^ t - 1" using dsum_bounds [of B t "\<lambda>k. dig x k h"] dx base_pos by (simp_all add: X_def)
    then have "X * X \<le> (B ^ t - 1) * (B ^ t - 1)" by (intro mult_mono) simp_all
    also have "0 < B ^ t" using base_pos by simp
    then have "(B ^ t - 1) * (B ^ t - 1) < B ^ t * B ^ t" by (simp add: algebra_simps)
    finally have "X * X < B * B ^ Suc (2 * i)" by (simp add: it power_add mult_2 mult_2_right algebra_simps)
    moreover have "0 \<le> dsum B (\<lambda>k. dig r k h') (Suc (2 * i))" using rng base_pos by (intro dsum_bounds) simp_all
    moreover have "X * X = dsum B (\<lambda>k. dig r k h') (Suc (2 * i)) + dig r (Suc (2 * i)) h' * B ^ Suc (2 * i)"
      using total \<open>2 * t = Suc (Suc (2 * i))\<close> by simp
    ultimately have "dig r (Suc (2 * i)) h' * B ^ Suc (2 * i) < B * B ^ Suc (2 * i)" by linarith
    then show ?thesis using base_pos by (simp only: mult_less_cancel_right) simp
  qed
  moreover have "0 \<le> dig r (Suc (2 * i)) h'" using dr v0 it by (simp add: D')
  ultimately show "\<forall>k<2 * len x h. 0 \<le> dig r k h' \<and> dig r k h' < B"
    using rng \<open>2 * t = Suc (Suc (2 * i))\<close> by (auto simp: t_def less_Suc_eq)
qed

lemma bnpSquareTo_correct:
  assumes E: "engine_ok E" "e_am E = f" "base E = B" and tb: "big E h this" and z: "zero_ok h"
    and r: "r < length h" "r \<noteq> this" and h': "h' = bnpSquareTo E this r h"
  shows "length h \<le> length h'" "\<forall>b<length h. b \<noteq> r \<longrightarrow> h' ! b = h ! b" "big E h' r" "clamped E h' r"
    "bval E h' r = bval E h this * bval E h this"
proof -
  obtain x h2 where x: "bnAbs E this h = (x, h2)" by fastforce
  note X = bnAbs_correct [OF E(1) tb z x]
  have DV: "DV E = B" using DV_base(1) [OF E(1)] E(3) by simp
  have xr: "x \<noteq> r" "r < length h2" using X(5) r X(1) by (auto simp: grows_def)
  define t where "t = len x h2"
  define h3 where "h3 = set_len r (2 * t) h2"
  have lx3: "len x h3 = t" using xr by (simp add: h3_def t_def store_simps)
  define h4 where "h4 = zero_digits r (rev [0..<2 * t]) h3"
  have "r < length h3" using xr by (simp add: h3_def store_simps)
  note Z = zero_digits_correct [OF this, of "rev [0..<2 * t]", folded h4_def]
  have f4: "frame r h2 h4" using Z frame_trans [of r h2 h3 h4] by (simp add: h3_def)
  have o4: "dig x i h4 = dig x i h2" "len x h4 = t" for i using frame_dig [OF f4 xr(1)] by (simp_all add: t_def)
  have d4: "dig r k h4 = 0" if "k < 2 * t" for k using Z that by simp
  have l4: "len r h4 = 2 * t" "r < length h4" using Z xr f4 by (auto simp: h3_def store_simps frame_def)
  have dx: "\<forall>k<t. 0 \<le> dig x k h2 \<and> dig x k h2 < B" using big_digits [OF X(2)] E(3) by (simp add: t_def)
  have "dsum B (\<lambda>k. dig r k h4) (2 * t) = dsum B (\<lambda>k. 0) (2 * t)" by (rule dsum_cong) (simp add: d4)
  then have "dsum B (\<lambda>k. dig r k h4) (2 * t) = 0" by (simp add: dsum_def)
  then have I: "square_inv B x r 0 h4"
    using xr l4 dx d4 base_pos by (simp add: square_inv_def o4)
  define h5 where "h5 = square_loop E x r [0..<t - 1] h4"
  have L: "square_inv B x r (t - 1) h5 \<and> frame r h4 h5 \<and> len r h5 = len r h4"
    using square_loop_correct [OF E(2) DV I refl, of h5] by (simp add: o4 h5_def)
  have o5: "dig x i h5 = dig x i h2" "len x h5 = t" for i using L frame_dig [OF _ xr(1), of h4 h5] by (simp_all add: o4)
  have sx: "dsum B (\<lambda>k. dig x k h2) t = \<bar>bval E h this\<bar>" using X(3,4) E(3) by (simp add: bval_def t_def)
  define h6 where "h6 = (if len r h5 > 0 then
      (let old = dig r (len r h5 - 1) h5; (v, h) = e_am E x (t - 1) (dig x (t - 1) h5) r (2 * (t - 1)) 0 1 h5
       in set_dig r (len r h - 1) (old + v) h) else h5)"
  have r5: "r < length h5" "len r h5 = 2 * t" using L l4 by (auto simp: frame_def)
  have F: "frame r h5 h6 \<and> len r h6 = 2 * t \<and> (\<forall>k<2 * t. 0 \<le> dig r k h6 \<and> dig r k h6 < B) \<and>
    dsum B (\<lambda>k. dig r k h6) (2 * t) = \<bar>bval E h this\<bar> * \<bar>bval E h this\<bar>"
  proof (cases "t = 0")
    case True
    then show ?thesis using r5 sx by (simp add: h6_def)
  next
    case False
    obtain v h' where am: "f x (t - 1) (dig x (t - 1) h5) r (2 * (t - 1)) 0 1 h5 = (v, h')" by fastforce
    have e: "2 * t - 1 = Suc (2 * (t - 1))" using False by simp
    define g where "g = set_dig r (Suc (2 * (t - 1))) (dig r (Suc (2 * (t - 1))) h5 + v) h'"
    have I5: "square_inv B x r (len x h5 - 1) h5" "0 < len x h5" "t - 1 = len x h5 - 1" using L False by (simp_all add: o5)
    note S = square_last [OF I5(1) E(2) I5(2,3) am g_def]
    have h6: "h6 = g" using False am E(2) r5(2) e S(3) by (simp add: h6_def Let_def g_def)
    show ?thesis using S r5 sx by (simp add: o5 h6)
  qed
  have r6: "r < length h6" using F r5 by (simp add: frame_def)
  have run: "h' = bnpClamp E r (set_sgw r 0 h6)"
    unfolding h' bnpSquareTo_def Let_def x prod.case t_def [symmetric] h3_def [symmetric] lx3 h4_def [symmetric] o4(2)
      h5_def [symmetric] o5(2) h6_def ..
  have R: "result_of E r (\<bar>bval E h this\<bar> * \<bar>bval E h this\<bar>) h6 h'"
    unfolding run by (rule clear_clamp [OF E(1,3) r6]) (use F in simp_all)
  have f6: "frame r h2 h'" using frame_trans [OF f4] frame_trans [of r h4 h5] frame_trans [of r h5 h6] L F R
    by (meson frame_trans result_of_def)
  show "length h \<le> length h'" "\<forall>b<length h. b \<noteq> r \<longrightarrow> h' ! b = h ! b"
    using f6 X(1) by (auto simp: frame_def grows_def)
  show "big E h' r" "clamped E h' r" "bval E h' r = bval E h this * bval E h this"
    using R by (simp_all add: result_of_def)
qed

end
end
