(* ===== verification/Crypto_Arith.thy ===== *)
theory Crypto_Arith
  imports Crypto_Square Crypto_RSA
begin

text \<open>
  The arithmetic of \<open>v8/crypto.js\<close> as theorems on the numbers that the objects stand for: \<open>addTo\<close>, \<open>subTo\<close>, \<open>multiplyTo\<close>,
  \<open>squareTo\<close>, \<open>compareTo\<close> and \<open>fromInt\<close>, for the engines of the source, with a small store as the example.
\<close>

section \<open>Comparison\<close>

lemma compare_loop_sign:
  assumes B: "2 \<le> B"
  shows "(\<And>k. k < n \<Longrightarrow> 0 \<le> f k \<and> f k < B) \<Longrightarrow> (\<And>k. k < n \<Longrightarrow> 0 \<le> g k \<and> g k < B) \<Longrightarrow>
    sgn (compare_loop n f g) = sgn (dsum B f n - dsum B g n)"
proof (induction n)
  case (Suc n)
  have d: "\<bar>dsum B f n - dsum B g n\<bar> < B ^ n"
    using dsum_bounds [of B n f] dsum_bounds [of B n g] Suc.prems B by (simp add: abs_less_iff)
  consider "f n = g n" | "f n - g n \<ge> 1" | "f n - g n \<le> - 1" by linarith
  then show ?case
  proof cases
    case 1
    then show ?thesis using Suc by simp
  next
    case 2
    then have "1 * B ^ n \<le> (f n - g n) * B ^ n" using B by (intro mult_right_mono) simp_all
    then have "0 < dsum B f (Suc n) - dsum B g (Suc n)" using d by (simp add: algebra_simps abs_less_iff)
    then show ?thesis using 2 by (simp del: dsum_simps)
  next
    case 3
    then have "(f n - g n) * B ^ n \<le> - 1 * B ^ n" using B by (intro mult_right_mono) simp_all
    then have "dsum B f (Suc n) - dsum B g (Suc n) < 0" using d by (simp add: algebra_simps abs_less_iff)
    then show ?thesis using 3 by (simp del: dsum_simps)
  qed
qed simp

lemma clamped_bounds:
  assumes E: "engine_ok E" and a: "big E h a" "clamped E h a" and t: "0 < len a h"
  shows "sgw a h = 0 \<Longrightarrow> base E ^ (len a h - 1) \<le> bval E h a"
    "sgw a h = - 1 \<Longrightarrow> bval E h a < - (base E ^ (len a h - 1))"
proof -
  obtain n where n: "len a h = Suc n" using t by (cases "len a h") auto
  have B: "2 \<le> base E" by (rule base_bounds [OF E])
  have d: "0 \<le> dsum (base E) (\<lambda>k. dig a k h) n" "dsum (base E) (\<lambda>k. dig a k h) n < base E ^ n"
    using dsum_bounds [of "base E" n "\<lambda>k. dig a k h"] big_digits [OF a(1)] B n by simp_all
  have top: "0 \<le> dig a n h" "dig a n h \<le> base E - 1" using big_digits [OF a(1), of n] n by simp_all
  show "base E ^ (len a h - 1) \<le> bval E h a" if "sgw a h = 0"
  proof -
    have "1 \<le> dig a n h" using a(2) n top that by (simp add: clamped_def)
    then have "1 * base E ^ n \<le> dig a n h * base E ^ n" using B by (intro mult_right_mono) simp_all
    moreover have "bval E h a = dsum (base E) (\<lambda>k. dig a k h) n + dig a n h * base E ^ n" using that n by (simp add: bval_def)
    ultimately have "base E ^ n \<le> bval E h a" using d by linarith
    then show ?thesis by (simp add: n)
  qed
  show "bval E h a < - (base E ^ (len a h - 1))" if "sgw a h = - 1"
  proof -
    have "dig a n h \<le> base E - 2" using a(2) n top that by (simp add: clamped_def)
    then have "dig a n h * base E ^ n \<le> (base E - 2) * base E ^ n" using B by (intro mult_right_mono) simp_all
    then show ?thesis using d that n by (simp add: bval_def algebra_simps)
  qed
qed

lemma bval_bounds:
  assumes E: "engine_ok E" and a: "big E h a"
  shows "sgw a h = 0 \<Longrightarrow> 0 \<le> bval E h a \<and> bval E h a < base E ^ len a h"
    "sgw a h = - 1 \<Longrightarrow> - (base E ^ len a h) \<le> bval E h a \<and> bval E h a < 0"
proof -
  have "0 \<le> dsum (base E) (\<lambda>k. dig a k h) (len a h)" "dsum (base E) (\<lambda>k. dig a k h) (len a h) < base E ^ len a h"
    using dsum_bounds [of "base E" "len a h" "\<lambda>k. dig a k h"] big_digits [OF a] base_bounds [OF E] by simp_all
  then show "sgw a h = 0 \<Longrightarrow> 0 \<le> bval E h a \<and> bval E h a < base E ^ len a h"
    "sgw a h = - 1 \<Longrightarrow> - (base E ^ len a h) \<le> bval E h a \<and> bval E h a < 0" by (simp_all add: bval_def)
qed

lemma shorter_bounds:
  assumes E: "engine_ok E" and x: "big E h x" and y: "big E h y" "clamped E h y" and l: "len x h < len y h"
  shows "sgw x h = 0 \<Longrightarrow> sgw y h = 0 \<Longrightarrow> bval E h x < bval E h y"
    "sgw x h = - 1 \<Longrightarrow> sgw y h = - 1 \<Longrightarrow> bval E h y < bval E h x"
proof -
  have "base E ^ len x h \<le> base E ^ (len y h - 1)"
    using l base_bounds [OF E] by (intro power_increasing) simp_all
  then show "sgw x h = 0 \<Longrightarrow> sgw y h = 0 \<Longrightarrow> bval E h x < bval E h y"
    "sgw x h = - 1 \<Longrightarrow> sgw y h = - 1 \<Longrightarrow> bval E h y < bval E h x"
    using bval_bounds [OF E x] clamped_bounds [OF E y] l by fastforce+
qed

lemma bnCompareTo_same_length:
  assumes E: "engine_ok E" and x: "big E h x" and y: "big E h y" and s: "sgw x h = sgw y h" "len x h = len y h"
  shows "sgn (bnCompareTo x y h) = sgn (bval E h x - bval E h y)"
  using compare_loop_sign [OF base_bounds(1) [OF E], of "len x h" "\<lambda>k. dig x k h" "\<lambda>k. dig y k h"] s
    big_digits [OF x] big_digits [OF y]
  by (simp add: bnCompareTo_def b_arr_dig bval_def)

lemma bnCompareTo_other_sign:
  assumes E: "engine_ok E" and x: "big E h x" and y: "big E h y" and s: "sgw x h \<noteq> sgw y h"
  shows "sgn (bnCompareTo x y h) = sgn (bval E h x - bval E h y)"
  using bval_sign [OF E x] bval_sign [OF E y] big_sgw [OF x] big_sgw [OF y] s
  by (auto simp: bnCompareTo_def)

lemma bnCompareTo_sign:
  assumes E: "engine_ok E" and x: "big E h x" "clamped E h x" and y: "big E h y" "clamped E h y"
  shows "sgn (bnCompareTo x y h) =
    (if sgw x h < 0 \<and> sgw y h < 0 \<and> len x h \<noteq> len y h then - 1 else 1) * sgn (bval E h x - bval E h y)"
proof (cases "sgw x h = sgw y h \<and> len x h \<noteq> len y h")
  case True
  then have "bnCompareTo x y h = int (len x h) - int (len y h)" by (simp add: bnCompareTo_def)
  then show ?thesis
    using True big_sgw [OF x(1)] shorter_bounds [OF E x(1) y] shorter_bounds [OF E y(1) x]
    by (cases "len x h < len y h") auto
next
  case False
  then show ?thesis
    using bnCompareTo_same_length [OF E x(1) y(1)] bnCompareTo_other_sign [OF E x(1) y(1)] big_sgw [OF x(1)] big_sgw [OF y(1)]
    by auto
qed
section \<open>The operations with the engines of the source\<close>

text \<open>The four engines that the comments of the source offer; the script calls \<open>setupEngine(am3, 28)\<close>.\<close>

definition engine_choice :: "engine \<Rightarrow> bool" where
  "engine_choice E \<longleftrightarrow> (e_am E = am1 \<and> dbits E = 26) \<or> (e_am E = am2 \<and> dbits E = 30) \<or>
    (e_am E = am3 \<and> dbits E = 28) \<or> (e_am E = am4 \<and> dbits E = 26)"

lemma engine_choice_ok: "engine_choice E \<Longrightarrow> engine_ok E"
  by (auto simp: engine_choice_def engine_ok_def)

lemma engine_choice_cases:
  assumes "engine_choice E"
  obtains (am1) "e_am E = am1" "base E = 2 ^ 26" | (am2) "e_am E = am2" "base E = 2 ^ 30"
    | (am3) "e_am E = am3" "base E = 2 ^ 28" | (am4) "e_am E = am4" "base E = 2 ^ 26"
  using assms by (auto simp: engine_choice_def base_def)

text \<open>A small store for the examples: 0, 1, two numbers of several digits and an object for results.\<close>

definition demo_engine :: engine where
  "demo_engine = script_engine (Fin 0) (\<lambda>x. x) \<lparr>b_arr = (\<lambda>i. 7), b_t = 3, b_s = 5\<rparr>"

definition demo_obj :: "int list \<Rightarrow> int \<Rightarrow> bigint" where
  "demo_obj ds s = \<lparr>b_arr = (\<lambda>i. if i < length ds then ds ! i else 0), b_t = length ds, b_s = s\<rparr>"

definition demo_store :: store where
  "demo_store = [demo_obj [] 0, demo_obj [1] 0, demo_obj [7, 5] 0, demo_obj [3] (- 1), demo_obj [] 0]"

lemma demo_facts:
  "engine_choice demo_engine" "zero_ok demo_store" "length demo_store = 5"
  "big demo_engine demo_store 2" "big demo_engine demo_store 3" "clamped demo_engine demo_store 2" "clamped demo_engine demo_store 3"
  "bval demo_engine demo_store 2 = 5 * 2 ^ 28 + 7" "bval demo_engine demo_store 3 = 3 - 2 ^ 28"
  by (simp_all add: engine_choice_def demo_engine_def script_engine_def setupEngine_def zero_ok_def demo_store_def demo_obj_def
      big_def clamped_def bval_def dig_def len_def sgw_def base_def ZERO_def less_Suc_eq numeral_2_eq_2 numeral_3_eq_3)

text \<open>C19: \<open>this.addTo(a, r)\<close> stores in \<open>r\<close> the sum of the two numbers, well formed and clamped, and writes no other object.
  The operands may have any sign and any length, and \<open>r\<close> may be one of them: the loops read a digit before they
  overwrite it.\<close>

theorem bnpAddTo_adds:
  assumes "engine_ok E" "big E h x" "big E h y" "r < length h"
  shows "let h' = bnpAddTo E x y r h
    in big E h' r \<and> clamped E h' r \<and> bval E h' r = bval E h x + bval E h y \<and> length h' = length h \<and> (\<forall>b. b \<noteq> r \<longrightarrow> h' ! b = h ! b)"
  using bnpAddTo_correct [OF assms] by (simp add: result_of_def frame_def Let_def)

lemma bnpAddTo_adds_witness:
  "bval demo_engine (bnpAddTo demo_engine 2 3 2 demo_store) 2 = 4 * 2 ^ 28 + 10"
  using bnpAddTo_adds [of demo_engine demo_store 2 3 2] by (simp add: Let_def demo_facts engine_choice_ok)

text \<open>C20: \<open>this.subTo(a, r)\<close> stores in \<open>r\<close> the difference, under the same conditions and with the same frame; the digit
  \<open>DV + c\<close> that it writes for a borrow of two is where a result needs one digit more than its operands.\<close>

theorem bnpSubTo_subtracts:
  assumes "engine_ok E" "big E h x" "big E h y" "r < length h"
  shows "let h' = bnpSubTo E x y r h
    in big E h' r \<and> clamped E h' r \<and> bval E h' r = bval E h x - bval E h y \<and> length h' = length h \<and> (\<forall>b. b \<noteq> r \<longrightarrow> h' ! b = h ! b)"
  using bnpSubTo_correct [OF assms] by (simp add: result_of_def frame_def Let_def)

lemma bnpSubTo_subtracts_witness:
  "bval demo_engine (bnpSubTo demo_engine 3 2 3 demo_store) 3 = - 6 * 2 ^ 28 - 4"
  using bnpSubTo_subtracts [of demo_engine demo_store 3 2 3] by (simp add: Let_def demo_facts engine_choice_ok)

text \<open>C4: with each of the four multiply-add routines and its digit size, \<open>this.multiplyTo(a, r)\<close> stores the product in \<open>r\<close>,
  whatever the signs and whatever a new object contains, provided \<open>r\<close> is neither operand, as its comment asks. The store only
  grows, and no other object changes.\<close>

theorem bnpMultiplyTo_multiplies:
  assumes "engine_choice E" "big E h x" "big E h y" "zero_ok h" "r < length h" "r \<noteq> x" "r \<noteq> y" "r \<noteq> ZERO"
  shows "let h' = bnpMultiplyTo E x y r h
    in big E h' r \<and> clamped E h' r \<and> bval E h' r = bval E h x * bval E h y \<and> length h \<le> length h' \<and>
       (\<forall>b<length h. b \<noteq> r \<longrightarrow> h' ! b = h ! b)"
  using assms(1)
proof (cases rule: engine_choice_cases)
  case am1
  from am1_impl.bnpMultiplyTo_correct [OF engine_choice_ok [OF assms(1)] this assms(2-8) refl] show ?thesis by (simp add: Let_def)
next
  case am2
  from am2_impl.bnpMultiplyTo_correct [OF engine_choice_ok [OF assms(1)] this assms(2-8) refl] show ?thesis by (simp add: Let_def)
next
  case am3
  from am3_impl.bnpMultiplyTo_correct [OF engine_choice_ok [OF assms(1)] this assms(2-8) refl] show ?thesis by (simp add: Let_def)
next
  case am4
  from am4_impl.bnpMultiplyTo_correct [OF engine_choice_ok [OF assms(1)] this assms(2-8) refl] show ?thesis by (simp add: Let_def)
qed

lemma bnpMultiplyTo_multiplies_witness:
  "bval demo_engine (bnpMultiplyTo demo_engine 2 3 4 demo_store) 4 = (5 * 2 ^ 28 + 7) * (3 - 2 ^ 28)"
  using bnpMultiplyTo_multiplies [of demo_engine demo_store 2 3 4] by (simp add: Let_def demo_facts ZERO_def)

text \<open>C5: with each of the four routines, \<open>this.squareTo(r)\<close>, which computes every cross product once and doubles it,
  stores the square in \<open>r\<close>: no digit overflows although a row may leave a carry of 1 above its last digit.\<close>

theorem bnpSquareTo_squares:
  assumes "engine_choice E" "big E h x" "zero_ok h" "r < length h" "r \<noteq> x"
  shows "let h' = bnpSquareTo E x r h
    in big E h' r \<and> clamped E h' r \<and> bval E h' r = bval E h x * bval E h x \<and> length h \<le> length h' \<and>
       (\<forall>b<length h. b \<noteq> r \<longrightarrow> h' ! b = h ! b)"
  using assms(1)
proof (cases rule: engine_choice_cases)
  case am1
  from am1_impl.bnpSquareTo_correct [OF engine_choice_ok [OF assms(1)] this assms(2-5) refl] show ?thesis by (simp add: Let_def)
next
  case am2
  from am2_impl.bnpSquareTo_correct [OF engine_choice_ok [OF assms(1)] this assms(2-5) refl] show ?thesis by (simp add: Let_def)
next
  case am3
  from am3_impl.bnpSquareTo_correct [OF engine_choice_ok [OF assms(1)] this assms(2-5) refl] show ?thesis by (simp add: Let_def)
next
  case am4
  from am4_impl.bnpSquareTo_correct [OF engine_choice_ok [OF assms(1)] this assms(2-5) refl] show ?thesis by (simp add: Let_def)
qed

lemma bnpSquareTo_squares_witness:
  "bval demo_engine (bnpSquareTo demo_engine 2 4 demo_store) 4 = (5 * 2 ^ 28 + 7) * (5 * 2 ^ 28 + 7)"
  using bnpSquareTo_squares [of demo_engine demo_store 2 4] by (simp add: Let_def demo_facts)

text \<open>C21: \<open>compareTo\<close> has the sign of the difference of two clamped numbers, except when both are negative and their lengths
  differ: then it has the opposite sign, because the lengths are compared without regard to the sign.\<close>

theorem bnCompareTo_signs:
  assumes "engine_ok E" "big E h x" "clamped E h x" "big E h y" "clamped E h y"
  shows "sgn (bnCompareTo x y h) =
    (if sgw x h < 0 \<and> sgw y h < 0 \<and> len x h \<noteq> len y h then - 1 else 1) * sgn (bval E h x - bval E h y)"
  by (rule bnCompareTo_sign [OF assms])

lemma bnCompareTo_signs_witness:
  "sgn (bnCompareTo 2 3 demo_store) = 1"
  using bnCompareTo_signs [of demo_engine demo_store 2 3] by (simp add: demo_facts engine_choice_ok) (simp add: demo_store_def demo_obj_def sgw_def)

text \<open>The numbers -1 and \<open>- (2 ^ 28)\<close>: the comparison says that the first is the smaller.\<close>

lemma bnCompareTo_negative_bug:
  "let h = [demo_obj [] (- 1), demo_obj [0] (- 1)]
   in bval demo_engine h 0 = - 1 \<and> bval demo_engine h 1 = - (2 ^ 28) \<and> bnCompareTo 0 1 h < 0"
  by (simp add: Let_def bnCompareTo_def demo_obj_def bval_def dig_def len_def sgw_def base_def demo_engine_def script_engine_def setupEngine_def)

text \<open>\<open>fromInt(x)\<close> gives an object the value \<open>x\<close> for every \<open>x\<close> from -1 to below the digit base; below -1, where its
  comment still promises a value, it reads the undeclared variable \<open>DV\<close> and throws.\<close>

theorem bnpFromInt_value:
  assumes "engine_ok E" "a < length h" "x < base E"
  shows "case bnpFromInt a x h of Inl e \<Rightarrow> x < - 1 \<and> e = ReferenceError
    | Inr h' \<Rightarrow> - 1 \<le> x \<and> big E h' a \<and> bval E h' a = x \<and> length h' = length h \<and> (\<forall>b. b \<noteq> a \<longrightarrow> h' ! b = h ! b)"
proof -
  consider "x < - 1" | "x = - 1" | "x = 0" | "0 < x" by linarith
  then show ?thesis
    using assms by cases (auto simp: bnpFromInt_def Let_def big_def bval_def store_simps)
qed

lemma bnpFromInt_value_witness:
  "case bnpFromInt 4 9 demo_store of Inl e \<Rightarrow> False | Inr h' \<Rightarrow> bval demo_engine h' 4 = 9"
  using bnpFromInt_value [of demo_engine 4 demo_store 9]
  by (auto simp: demo_facts engine_choice_ok bnpFromInt_def) (simp add: demo_engine_def script_engine_def setupEngine_def base_def)

text \<open>The value -2, inside the range that the comment of \<open>fromInt\<close> gives, throws.\<close>

lemma bnpFromInt_below: "bnpFromInt 4 (- 2) demo_store = Inl ReferenceError"
  by (simp add: bnpFromInt_def Let_def)

end
