(* ===== verification/Crypto_Pad.thy ===== *)
theory Crypto_Pad
  imports Crypto_Bytes Crypto_Arith "HOL-Library.Multiset"
begin

unbundle bit_operations_syntax

text \<open>
  The clients of the byte arrays of \<open>v8/crypto.js\<close>: the stream cipher ARC4 and the pool of random bytes keep their invariants, and
  \<open>pkcs1unpad2\<close> undoes \<open>pkcs1pad2\<close> on ASCII texts.
\<close>

section \<open>ARC4\<close>

definition arc4_ok :: "arcfour \<Rightarrow> bool" where
  "arc4_ok c \<longleftrightarrow> mset (a_S c) = mset (List.map int [0..<256]) \<and> byte (a_i c) \<and> byte (a_j c)"

lemma perm_bytes:
  assumes "mset S = mset (List.map int [0..<256])"
  shows "length S = 256" "byte x \<Longrightarrow> byte (S ! nat x)"
proof -
  show l: "length S = 256" using assms by (metis size_mset length_map length_upt diff_zero)
  have "set S = set (List.map int [0..<256])" using assms by (metis set_mset_mset)
  then have s: "\<forall>y \<in> set S. byte y" by (auto simp: byte_def)
  show "byte (S ! nat x)" if "byte x"
    using s that l by (auto simp: byte_def)
qed

lemma swap_perm: "i < length S \<Longrightarrow> j < length S \<Longrightarrow> mset (swap_elems i j S) = mset S"
  by (simp add: swap_elems_def Let_def mset_swap)

lemma byte_nat: "byte x \<Longrightarrow> nat x < 256"
  by (simp add: byte_def nat_less_iff)

lemma ARC4init_ok: "arc4_ok (ARC4init key c)"
proof -
  have "mset S = mset (List.map int [0..<256]) \<Longrightarrow> \<forall>i \<in> set is. i < 256 \<Longrightarrow>
      mset (snd (foldl (key_round key) (j, S) is)) = mset (List.map int [0..<256])" for j S "is"
  proof (induction "is" arbitrary: j S)
    case (Cons i "is")
    define j' where "j' = js_and (j + S ! i + key ! (i mod length key)) 255"
    have r: "key_round key (j, S) i = (j', swap_elems i (nat j') S)" by (simp add: key_round_def j'_def Let_def)
    have "mset (swap_elems i (nat j') S) = mset S"
      using Cons.prems perm_bytes(1) [OF Cons.prems(1)] byte_nat [OF byte_and] by (intro swap_perm) (simp_all add: j'_def)
    then have "mset (swap_elems i (nat j') S) = mset (List.map int [0..<256])" using Cons.prems(1) by simp
    from Cons.IH [OF this] Cons.prems(2) show ?case unfolding foldl_Cons r by simp
  qed simp
  from this [of "List.map int [0..<256]" "[0..<256]" 0] show ?thesis
    by (auto simp: arc4_ok_def ARC4init_def byte_def split: prod.splits)
qed

lemma ARC4next_ok:
  assumes "arc4_ok c" "ARC4next c = (b, c')"
  shows "byte b" "arc4_ok c'"
proof -
  define i where "i = js_and (a_i c + 1) 255"
  define j where "j = js_and (a_j c + a_S c ! nat i) 255"
  define S where "S = swap_elems (nat i) (nat j) (a_S c)"
  have p: "mset (a_S c) = mset (List.map int [0..<256])" using assms(1) by (simp add: arc4_ok_def)
  have ij: "byte i" "byte j" by (simp_all add: i_def j_def byte_and)
  have "mset S = mset (a_S c)" unfolding S_def
    using byte_nat [OF ij(1)] byte_nat [OF ij(2)] perm_bytes(1) [OF p] by (intro swap_perm) simp_all
  then have m: "mset S = mset (List.map int [0..<256])" using p by simp
  have e: "ARC4next c = (S ! nat (js_and (a_S c ! nat i + S ! nat i) 255), \<lparr>a_i = i, a_j = j, a_S = S\<rparr>)"
    by (simp add: ARC4next_def Let_def i_def j_def S_def swap_elems_def)
  show "byte b" "arc4_ok c'" using e assms(2) perm_bytes(2) [OF m byte_and] m ij by (auto simp: arc4_ok_def)
qed

section \<open>The pool of random bytes\<close>

definition rng_ok :: "rng \<Rightarrow> bool" where
  "rng_ok g \<longleftrightarrow> length (rng_pool g) = rng_psize \<and> (\<forall>x \<in> set (rng_pool g). byte x) \<and> rng_pptr g < rng_psize \<and> 4 dvd rng_pptr g \<and>
     (case rng_state g of None \<Rightarrow> True | Some c \<Rightarrow> arc4_ok c)"

lemma mix_byte_pool:
  "byte v \<Longrightarrow> rng_pptr g < length (rng_pool g) \<Longrightarrow> \<forall>x \<in> set (rng_pool g). byte x \<Longrightarrow>
   \<forall>x \<in> set (rng_pool (mix_byte v g)). byte x"
  using set_update_subset_insert [of "rng_pool g" "rng_pptr g"] by (fastforce simp: mix_byte_def)

lemma mix_byte_rest [simp]:
  "length (rng_pool (mix_byte v g)) = length (rng_pool g)" "rng_pptr (mix_byte v g) = rng_pptr g + 1" "rng_state (mix_byte v g) = rng_state g"
  by (simp_all add: mix_byte_def)

lemma rng_seed_int_ok: "rng_ok g \<Longrightarrow> rng_ok (rng_seed_int x g)"
proof -
  assume g: "rng_ok g"
  obtain k where k: "rng_pptr g = 4 * k" "k < 64" using g by (auto simp: rng_ok_def rng_psize_def elim!: dvdE)
  define g1 where "g1 = mix_byte (js_and x 255) g"
  define g2 where "g2 = mix_byte (js_and (js_shr x 8) 255) g1"
  define g3 where "g3 = mix_byte (js_and (js_shr x 16) 255) g2"
  define g4 where "g4 = mix_byte (js_and (js_shr x 24) 255) g3"
  have l: "length (rng_pool g) = 256" "\<forall>x \<in> set (rng_pool g). byte x" using g by (auto simp: rng_ok_def rng_psize_def)
  have p1: "\<forall>x \<in> set (rng_pool g1). byte x" unfolding g1_def by (rule mix_byte_pool) (use l k in \<open>auto simp: byte_and\<close>)
  have p2: "\<forall>x \<in> set (rng_pool g2). byte x" unfolding g2_def by (rule mix_byte_pool) (use l k p1 in \<open>auto simp: byte_and g1_def\<close>)
  have p3: "\<forall>x \<in> set (rng_pool g3). byte x" unfolding g3_def by (rule mix_byte_pool) (use l k p2 in \<open>auto simp: byte_and g2_def g1_def\<close>)
  have p4: "\<forall>x \<in> set (rng_pool g4). byte x" unfolding g4_def by (rule mix_byte_pool) (use l k p3 in \<open>auto simp: byte_and g3_def g2_def g1_def\<close>)
  have q: "rng_pptr g4 = 4 * (k + 1)" "length (rng_pool g4) = 256" "rng_state g4 = rng_state g"
    using k l by (simp_all add: g4_def g3_def g2_def g1_def)
  have e: "rng_seed_int x g = (if 4 * (k + 1) \<ge> 256 then g4\<lparr>rng_pptr := 4 * (k + 1) - 256\<rparr> else g4)"
    unfolding rng_seed_int_def Let_def g1_def [symmetric] g2_def [symmetric] g3_def [symmetric] g4_def [symmetric] q(1) rng_psize_def ..
  show ?thesis
  proof (cases "k = 63")
    case True
    then show ?thesis using g p4 q k unfolding e by (simp add: rng_ok_def rng_psize_def)
  next
    case False
    then show ?thesis using g p4 q k unfolding e by (simp add: rng_ok_def rng_psize_def)
  qed
qed

lemma math_random_unit: "0 \<le> fst (math_random s)" "fst (math_random s) < 1"
proof -
  define k where "k = random_next s mod 2 ^ 28"
  have k: "0 \<le> k" "k < 2 ^ 28" by (simp_all add: k_def)
  have "math_random s = (of_int k / 2 ^ 28, random_next s)" by (simp add: math_random_def Let_def js_and_28 k_def)
  moreover have "(of_int k :: rat) < 2 ^ 28" using k(2) by (metis of_int_less_iff of_int_numeral of_int_power)
  ultimately show "0 \<le> fst (math_random s)" "fst (math_random s) < 1" using k(1) by simp_all
qed

lemma fill_pool_ok:
  "\<forall>x \<in> set pool. byte x \<Longrightarrow> length (fst (fill_pool n seed pool)) = length pool + 2 * n \<and> (\<forall>x \<in> set (fst (fill_pool n seed pool)). byte x)"
proof (induction n arbitrary: seed pool)
  case (Suc n)
  obtain x seed' where x: "math_random seed = (x, seed')" by (cases "math_random seed")
  define t where "t = \<lfloor>65536 * x\<rfloor>"
  have "0 \<le> x" "x < 1" using math_random_unit [of seed] x by simp_all
  then have t: "0 \<le> t" "t < 65536" by (simp_all add: t_def floor_less_iff)
  have "0 \<le> t div 256" "t div 256 < 256" using t by linarith+
  then have "byte (js_ushr t 8)" using js_ushr_div [of t 8] t by (simp add: byte_def)
  then have "\<forall>x \<in> set (pool @ [js_ushr t 8, js_and t 255]). byte x" using Suc.prems byte_and by simp
  from Suc.IH [OF this] show ?case by (simp add: x t_def [symmetric] Let_def)
qed simp

lemma init_rng_ok: "rng_ok (fst (init_rng seed))"
proof -
  obtain pool seed' where p: "fill_pool (rng_psize div 2) seed [] = (pool, seed')" by (cases "fill_pool (rng_psize div 2) seed []")
  have "rng_ok \<lparr>rng_state = None, rng_pool = pool, rng_pptr = 0\<rparr>"
    using fill_pool_ok [of "[]" "rng_psize div 2" seed] unfolding p by (simp add: rng_ok_def rng_psize_def)
  then show ?thesis unfolding init_rng_def p rng_seed_time_def by (simp add: rng_seed_int_ok)
qed

lemma rng_get_byte_ok:
  assumes "rng_ok g" "rng_get_byte g = (b, g')"
  shows "byte b" "rng_ok g'"
proof -
  have s: "rng_ok (start_rng g)" "rng_state (start_rng g) \<noteq> None"
    using rng_seed_int_ok [OF assms(1)] assms(1) ARC4init_ok
    by (auto simp: start_rng_def rng_seed_time_def rng_ok_def rng_psize_def byte_def Let_def split: option.splits)
  then obtain c where c: "rng_state (start_rng g) = Some c" "arc4_ok c" by (auto simp: rng_ok_def)
  obtain c' where n: "ARC4next c = (b, c')" and g': "g' = start_rng g\<lparr>rng_state := Some c'\<rparr>"
    using assms(2) c(1) by (auto simp: rng_get_byte_def Let_def split: prod.splits)
  show "byte b" "rng_ok g'" using ARC4next_ok [OF c(2) n] s(1) by (auto simp: rng_ok_def g')
qed

section \<open>Padding\<close>

lemma nonzero_byte_ok: "nonzero_byte f g = Inr (b, g') \<Longrightarrow> rng_ok g \<Longrightarrow> byte b \<and> b \<noteq> 0 \<and> rng_ok g'"
proof (induction f arbitrary: g)
  case (Suc f)
  obtain x g1 where x: "rng_get_byte g = (x, g1)" by (cases "rng_get_byte g")
  show ?case using Suc x rng_get_byte_ok [OF Suc.prems(2) x] by (auto split: if_splits)
qed simp

lemma pad_loop_ok:
  "pad_loop f n ba g = Inr (ba', g') \<Longrightarrow> rng_ok g \<Longrightarrow> \<exists>rs. ba' = rs @ ba \<and> length rs = n \<and> (\<forall>x \<in> set rs. byte x \<and> x \<noteq> 0) \<and> rng_ok g'"
proof (induction n arbitrary: ba g)
  case (Suc n)
  then obtain b g1 where b: "nonzero_byte f g = Inr (b, g1)" "pad_loop f n (b # ba) g1 = Inr (ba', g')"
    by (auto simp: rbind_Inr_iff)
  from nonzero_byte_ok [OF b(1) Suc.prems(2)] Suc.IH [OF b(2)] obtain rs where
    "ba' = rs @ b # ba" "length rs = n" "\<forall>x \<in> set rs. byte x \<and> x \<noteq> 0" "rng_ok g'" "byte b" "b \<noteq> 0" by auto
  then show ?case by (intro exI [of _ "rs @ [b]"]) auto
qed simp

lemma find_zero_after:
  "\<forall>x \<in> set ys. x \<noteq> 0 \<Longrightarrow> length ys < f \<Longrightarrow> find_zero f (xs @ ys @ 0 # zs) (length xs) = Some (length xs + length ys)"
proof (induction ys arbitrary: xs f)
  case Nil
  then show ?case by (cases f) (simp_all add: byte_at_def)
next
  case (Cons y ys)
  then obtain f' where f: "f = Suc f'" "length ys < f'" by (cases f) auto
  have "find_zero f' ((xs @ [y]) @ ys @ 0 # zs) (length (xs @ [y])) = Some (length (xs @ [y]) + length ys)"
    using Cons f by (intro Cons.IH) auto
  then show ?case using Cons.prems f by (simp add: byte_at_def)
qed

text \<open>
  C10: The random generator of \<open>crypto.js\<close> is well formed after its initialization, from whatever seed, and stays so when it is
  seeded and read: the state of ARC4 is a permutation of the 256 bytes with two indices below 256, the pool has 256 bytes and its
  position never leaves it; and what is read is a byte.
\<close>

theorem rng_invariant:
  "rng_ok (fst (init_rng seed)) \<and>
   (rng_ok g \<longrightarrow> rng_ok (rng_seed_int x g) \<and> rng_ok (snd (rng_get_byte g)) \<and> 0 \<le> fst (rng_get_byte g) \<and> fst (rng_get_byte g) < 256)"
proof -
  obtain b g' where "rng_get_byte g = (b, g')" by (cases "rng_get_byte g")
  then show ?thesis using init_rng_ok rng_seed_int_ok rng_get_byte_ok [of g b g'] by (simp add: byte_def)
qed

theorem rng_invariant_witness:
  "rng_ok (rng_seed_int 77 (fst (init_rng 49734321))) \<and> rng_ok (snd (rng_get_byte (fst (init_rng 49734321))))"
  using rng_invariant [of 49734321 "fst (init_rng 49734321)" 77] by blast

text \<open>
  C9: What \<open>pkcs1unpad2\<close> returns of a block that \<open>pkcs1pad2\<close> made, for texts of 8-bit characters, whenever the generator finds its
  non-zero bytes: the text itself when it is ASCII. A character from U+0080 on comes back 0xFF00 higher, because \<open>toByteArray\<close>
  returns signed bytes. Padding and the conversions from and to bytes succeed for every number of bits per digit of the four
  engines.
\<close>

theorem pkcs1_unpad_pad:
  assumes E: "engine_ok E" "8 \<le> dbits E" and g: "rng_ok g" and s: "\<forall>c \<in> set s. 0 \<le> c \<and> c < 256" and n: "length s + 11 \<le> n"
    and pad: "pad_loop f (n - length s - 3) (0 # s) g = Inr (ba, g')" and f: "n + 5 \<le> f"
  shows "\<exists>r h'. pkcs1pad2 al f E s (int n) g h = Inr (Some r, g', h') \<and>
    pkcs1unpad2 f E r (int n) h' = Inr (Some (List.map (\<lambda>c. if c < 128 then c else c + 0xFF00) s))"
proof -
  obtain rs where rs: "ba = rs @ 0 # s" "length rs = n - length s - 3" "\<forall>x \<in> set rs. byte x \<and> x \<noteq> 0"
    using pad_loop_ok [OF pad g] by auto
  define bs where "bs = rs @ 0 # s"
  have bs: "\<forall>x \<in> set bs. 0 \<le> x \<and> x < 256" "length bs = n - 2" using rs(2,3) s n by (auto simp: bs_def byte_def)
  obtain h' where h': "bnpFromString (\<lambda>h. throw TypeError) E (length h) (Bytes (0 # 2 # bs)) 256 (h @ [fresh E]) = Inr h'" "big E h' (length h)"
    "clamped E h' (length h)" "sgw (length h) h' = 0" "bval E h' (length h) = bev (0 # 2 # bs)"
    using bnpFromString_bytes [of "0 # 2 # bs" E "length h" "h @ [fresh E]" "\<lambda>h. throw TypeError"] bs(1) E by auto
  have "int n < int (length s) + 11 \<longleftrightarrow> False" "n - length (0 # s) - 2 = n - length s - 3" using n by auto
  then have p: "pkcs1pad2 al f E s (int n) g h = Inr (Some (length h), g', h')"
    using pad h'(1) rs(1) by (simp add: pkcs1pad2_def new_from_string_def nbi_def Let_def bs_def del: length_Cons)
  have "bval E h' (length h) = bev (2 # bs)" by (simp add: h'(5) bev_Cons [of 0])
  then have b: "bnToByteArray f E (length h) h' = Inr (2 # List.map signed_byte bs)"
    using bnToByteArray_bytes [OF E h'(2-4) _ _ _ bs(1)] bs(2) f by simp
  have nz: "\<forall>x \<in> set (List.map signed_byte rs). x \<noteq> 0" using rs(3) by (auto simp: signed_byte_def byte_def)
  have mb: "List.map signed_byte bs = List.map signed_byte rs @ 0 # List.map signed_byte s" by (simp add: bs_def signed_byte_def)
  have z: "find_zero (Suc (Suc (length bs))) (2 # List.map signed_byte bs) 1 = Some (1 + length rs)"
    using find_zero_after [OF nz, of "Suc (Suc (length bs))" "[2]" "List.map signed_byte s"] unfolding mb by (simp add: bs_def)
  have c: "fromCharCode (signed_byte x) = (if x < 128 then x else x + 0xFF00)" if "x \<in> set s" for x
  proof -
    have "0 \<le> x" "x < 256" using s that by auto
    moreover from this have "(x - 256) mod 65536 = x + 65280"
      using mod_add_self2 [of "x - 256" 65536] mod_pos_pos_trivial [of "x + 65280" 65536] by simp
    ultimately show ?thesis by (simp add: fromCharCode_def signed_byte_def)
  qed
  have "unpad_bytes (2 # List.map signed_byte bs) (int n) = Some (List.map (fromCharCode \<circ> signed_byte) s)"
  proof -
    have "skip_zeros (2 # List.map signed_byte bs) 0 = 0" "byte_at (2 # List.map signed_byte bs) 0 = Some 2"
      "int (length (2 # List.map signed_byte bs)) - int 0 = int n - 1" "length (2 # List.map signed_byte bs) + 1 = Suc (Suc (length bs))"
      using bs(2) n by (simp_all add: byte_at_def)
    moreover have "drop (1 + length rs + 1) (2 # List.map signed_byte bs) = List.map signed_byte s" unfolding mb by simp
    ultimately show ?thesis unfolding unpad_bytes_def Let_def using z by simp
  qed
  moreover have "List.map (fromCharCode \<circ> signed_byte) s = List.map (\<lambda>c. if c < 128 then c else c + 0xFF00) s" using c by simp
  ultimately have "pkcs1unpad2 f E (length h) (int n) h' = Inr (Some (List.map (\<lambda>c. if c < 128 then c else c + 0xFF00) s))"
    by (simp only: pkcs1unpad2_def b rbind.simps ok_def)
  then show ?thesis using p by blast
qed


text \<open>A generator whose cipher is the identity permutation, and engine \<open>am3\<close> with 28 bits per digit.\<close>

definition demo_rng :: rng where
  "demo_rng = \<lparr>rng_state = Some \<lparr>a_i = 0, a_j = 0, a_S = List.map int [0..<256]\<rparr>, rng_pool = replicate 256 0, rng_pptr = 0\<rparr>"

lemma demo_rng_ok: "rng_ok demo_rng"
  by (simp add: rng_ok_def demo_rng_def rng_psize_def arc4_ok_def byte_def)

lemma demo_pad: "case pad_loop 20 8 [0, 72, 233] demo_rng of Inl e \<Rightarrow> False | Inr (ba, g') \<Rightarrow> True"
  by code_simp

lemma demo_engine_digits: "engine_ok demo_engine" "8 \<le> dbits demo_engine"
  by (simp_all add: engine_ok_def demo_engine_def script_engine_def setupEngine_def)

theorem pkcs1_unpad_pad_witness:
  "\<exists>g' r h'. pkcs1pad2 (\<lambda>m. throw (Thrown m)) 20 demo_engine [72, 233] 13 demo_rng [] = Inr (Some r, g', h') \<and>
    pkcs1unpad2 20 demo_engine r 13 h' = Inr (Some [72, 0xFFE9])"
proof -
  obtain ba g' where p: "pad_loop 20 (13 - length [72, 233 :: int] - 3) (0 # [72, 233]) demo_rng = Inr (ba, g')"
    using demo_pad by (auto split: sum.splits prod.splits)
  have "\<exists>r h'. pkcs1pad2 (\<lambda>m. throw (Thrown m)) 20 demo_engine [72, 233] (int 13) demo_rng [] = Inr (Some r, g', h') \<and>
      pkcs1unpad2 20 demo_engine r (int 13) h' = Inr (Some (List.map (\<lambda>c. if c < 128 then c else c + 0xFF00) [72, 233]))"
    by (rule pkcs1_unpad_pad [OF demo_engine_digits demo_rng_ok _ _ p]) simp_all
  then have "\<exists>r h'. pkcs1pad2 (\<lambda>m. throw (Thrown m)) 20 demo_engine [72, 233] 13 demo_rng [] = Inr (Some r, g', h') \<and>
      pkcs1unpad2 20 demo_engine r 13 h' = Inr (Some [72, 0xFFE9])" by simp
  then show ?thesis by - (rule exI [of _ g'])
qed

end
