(* ===== verification/Sun_Hash.thy ===== *)
theory Sun_Hash
  imports Js_Prelude
begin

unbundle bit_operations_syntax

text \<open>
  The hash functions \<open>sunspider/crypto-sha1.js\<close> and \<open>sunspider/crypto-md5.js\<close> and the Base64 coder \<open>sunspider/string-base64.js\<close>.
  Strings are lists of character codes. Words are the integers that the 32-bit operators of JavaScript return. An array
  element that was never written is \<open>undefined\<close>; every use of one passes through a 32-bit operator, which reads it as 0,
  so an array is a list whose missing elements are 0. The indices are results of 32-bit shifts, so they are negative for
  positions from \<open>2 ^ 31\<close> on; an assignment there makes a property of that name, which no loop over the array reads.
\<close>

section \<open>Arrays and the shared helpers\<close>

type_synonym codes = "int list"

definition elem_at :: "int list \<Rightarrow> nat \<Rightarrow> int" where
  "elem_at x i = (if i < length x then x ! i else 0)"

definition set_at :: "int list \<Rightarrow> nat \<Rightarrow> int \<Rightarrow> int list" where
  "set_at x i v = (if i < length x then x[i := v] else x @ replicate (i - length x) 0 @ [v])"

text \<open>The same with an index that a shift has computed.\<close>

definition elem_idx :: "int list \<Rightarrow> int \<Rightarrow> int" where
  "elem_idx x i = (if i < 0 then 0 else elem_at x (nat i))"

definition set_idx :: "int list \<Rightarrow> int \<Rightarrow> int \<Rightarrow> int list" where
  "set_idx x i v = (if i < 0 then x else set_at x (nat i) v)"

lemma elem_set_any: "elem_at (set_at w k v) i = (if i = k then v else elem_at w i)"
  by (auto simp: set_at_def elem_at_def nth_append)

definition chrsz :: nat where "chrsz = 8"
definition hexcase :: int where "hexcase = 0"
definition b64pad :: string where "b64pad = []"

definition safe_add :: "int \<Rightarrow> int \<Rightarrow> int" where
  "safe_add x y =
    (let lsw = js_and x 0xFFFF + js_and y 0xFFFF; msw = js_shr x 16 + js_shr y 16 + js_shr lsw 16
     in js_or (js_shl msw 16) (js_and lsw 0xFFFF))"

definition rol :: "int \<Rightarrow> int \<Rightarrow> int" where
  "rol num cnt = js_or (js_shl num cnt) (js_ushr num (32 - cnt))"

definition char_code :: "codes \<Rightarrow> nat \<Rightarrow> int" where
  "char_code s i = (if i < length s then s ! i else 0)"

definition fromCharCode :: "int \<Rightarrow> int" where
  "fromCharCode x = x mod 2 ^ 16"

definition char_mask :: int where
  "char_mask = js_shl 1 (int chrsz) - 1"

text \<open>\<open>charAt\<close> gives the empty string out of range.\<close>

definition char_at :: "string \<Rightarrow> int \<Rightarrow> string" where
  "char_at s i = (if 0 \<le> i \<and> i < int (length s) then [s ! nat i] else [])"

definition hex_tab :: string where
  "hex_tab = (if hexcase \<noteq> 0 then ''0123456789ABCDEF'' else ''0123456789abcdef'')"

definition b64_tab :: string where
  "b64_tab = ''ABCDEFGHIJKLMNOPQRSTUVWXYZabcdefghijklmnopqrstuvwxyz0123456789+/''"

section \<open>SHA-1\<close>

definition str2binb :: "codes \<Rightarrow> int list" where
  "str2binb str =
    foldl (\<lambda>bin k. let i = int (k * chrsz); q = js_shr i 5
        in set_idx bin q (js_or (elem_idx bin q) (js_shl (js_and (char_code str k) char_mask) (32 - int chrsz - i mod 32))))
      [] [0..<length str]"

definition binb2str :: "int list \<Rightarrow> codes" where
  "binb2str bin =
    List.map (\<lambda>k. let i = int (k * chrsz)
        in fromCharCode (js_and (js_ushr (elem_idx bin (js_shr i 5)) (32 - int chrsz - i mod 32)) char_mask))
      [0..<length bin * 32 div chrsz]"

definition binb2hex :: "int list \<Rightarrow> string" where
  "binb2hex binarray =
    concat (List.map (\<lambda>i.
        char_at hex_tab (js_and (js_shr (elem_idx binarray (js_shr (int i) 2)) (int ((3 - i mod 4) * 8 + 4))) 0xF) @
        char_at hex_tab (js_and (js_shr (elem_idx binarray (js_shr (int i) 2)) (int ((3 - i mod 4) * 8))) 0xF))
      [0..<length binarray * 4])"

text \<open>The rounds of the loop with \<open>i = 3 * k\<close>.\<close>

definition b64_chars :: "nat \<Rightarrow> nat \<Rightarrow> int \<Rightarrow> string" where
  "b64_chars i len triplet =
    concat (List.map (\<lambda>j. if i * 8 + j * 6 > len * 32 then b64pad
      else char_at b64_tab (js_and (js_shr triplet (int (6 * (3 - j)))) 0x3F)) [0..<4])"

definition binb2b64 :: "int list \<Rightarrow> string" where
  "binb2b64 binarray =
    (let byte = (\<lambda>i. js_and (js_shr (elem_idx binarray (js_shr (int i) 2)) (int (8 * (3 - i mod 4)))) 0xFF)
     in concat (List.map (\<lambda>k. let i = 3 * k;
            triplet = js_or (js_or (js_shl (byte i) 16) (js_shl (byte (i + 1)) 8)) (byte (i + 2))
          in b64_chars i (length binarray) triplet) [0..<(length binarray * 4 + 2) div 3]))"

definition sha1_ft :: "nat \<Rightarrow> int \<Rightarrow> int \<Rightarrow> int \<Rightarrow> int" where
  "sha1_ft t b c d =
    (if t < 20 then js_or (js_and b c) (js_and (js_not b) d)
     else if t < 40 then js_xor (js_xor b c) d
     else if t < 60 then js_or (js_or (js_and b c) (js_and b d)) (js_and c d)
     else js_xor (js_xor b c) d)"

definition sha1_kt :: "nat \<Rightarrow> int" where
  "sha1_kt t =
    (if t < 20 then 1518500249 else if t < 40 then 1859775393 else if t < 60 then - 1894007588 else - 899497514)"

type_synonym sha1_state = "int \<times> int \<times> int \<times> int \<times> int"

definition sha1_round :: "int list \<Rightarrow> nat \<Rightarrow> int list \<times> sha1_state \<Rightarrow> nat \<Rightarrow> int list \<times> sha1_state" where
  "sha1_round x i ws j =
    (case ws of (w, a, b, c, d, e) \<Rightarrow>
       let w = set_at w j (if j < 16 then elem_at x (i + j)
                        else rol (js_xor (js_xor (js_xor (elem_at w (j - 3)) (elem_at w (j - 8))) (elem_at w (j - 14))) (elem_at w (j - 16))) 1);
           t = safe_add (safe_add (rol a 5) (sha1_ft j b c d)) (safe_add (safe_add e (elem_at w j)) (sha1_kt j))
       in (w, t, a, rol b 30, c, d))"

definition sha1_block :: "int list \<Rightarrow> int list \<times> sha1_state \<Rightarrow> nat \<Rightarrow> int list \<times> sha1_state" where
  "sha1_block x ws i =
    (case ws of (w, olda, oldb, oldc, oldd, olde) \<Rightarrow>
       let (w, a, b, c, d, e) = foldl (sha1_round x i) (w, olda, oldb, oldc, oldd, olde) [0..<80]
       in (w, safe_add a olda, safe_add b oldb, safe_add c oldc, safe_add d oldd, safe_add e olde))"

definition sha1_pad :: "int list \<Rightarrow> nat \<Rightarrow> int list" where
  "sha1_pad x len =
    (let p = js_shr (int len) 5; x = set_idx x p (js_or (elem_idx x p) (js_shl 0x80 (24 - int len mod 32)))
     in set_idx x (js_shl (js_shr (int len + 64) 9) 4 + 15) (int len))"

definition core_sha1 :: "int list \<Rightarrow> nat \<Rightarrow> int list" where
  "core_sha1 x len =
    (let x = sha1_pad x len;
         (w, a, b, c, d, e) = foldl (sha1_block x)
           (replicate 80 0, 1732584193, - 271733879, - 1732584194, 271733878, - 1009589776)
           (List.map (\<lambda>k. 16 * k) [0..<(length x + 15) div 16])
     in [a, b, c, d, e])"

definition hmac_pads :: "int list \<Rightarrow> int list \<times> int list" where
  "hmac_pads bkey =
    (List.map (\<lambda>i. js_xor (elem_at bkey i) 0x36363636) [0..<16], List.map (\<lambda>i. js_xor (elem_at bkey i) 0x5C5C5C5C) [0..<16])"

definition core_hmac_sha1 :: "codes \<Rightarrow> codes \<Rightarrow> int list" where
  "core_hmac_sha1 key data =
    (let bkey = str2binb key; bkey = (if length bkey > 16 then core_sha1 bkey (length key * chrsz) else bkey);
         (ipad, opad) = hmac_pads bkey;
         hash = core_sha1 (ipad @ str2binb data) (512 + length data * chrsz)
     in core_sha1 (opad @ hash) (512 + 160))"

definition hex_sha1 :: "codes \<Rightarrow> string" where
  "hex_sha1 s = binb2hex (core_sha1 (str2binb s) (length s * chrsz))"
definition b64_sha1 :: "codes \<Rightarrow> string" where
  "b64_sha1 s = binb2b64 (core_sha1 (str2binb s) (length s * chrsz))"
definition str_sha1 :: "codes \<Rightarrow> codes" where
  "str_sha1 s = binb2str (core_sha1 (str2binb s) (length s * chrsz))"
definition hex_hmac_sha1 :: "codes \<Rightarrow> codes \<Rightarrow> string" where
  "hex_hmac_sha1 key data = binb2hex (core_hmac_sha1 key data)"
definition b64_hmac_sha1 :: "codes \<Rightarrow> codes \<Rightarrow> string" where
  "b64_hmac_sha1 key data = binb2b64 (core_hmac_sha1 key data)"
definition str_hmac_sha1 :: "codes \<Rightarrow> codes \<Rightarrow> codes" where
  "str_hmac_sha1 key data = binb2str (core_hmac_sha1 key data)"

definition codes_of :: "string \<Rightarrow> codes" where
  "codes_of s = List.map of_char s"

definition sha1_vm_test :: bool where
  "sha1_vm_test \<longleftrightarrow> hex_sha1 (codes_of ''abc'') = ''a9993e364706816aba3e25717850c26c9cd0d89d''"

section \<open>MD5\<close>

definition bit_rol :: "int \<Rightarrow> int \<Rightarrow> int" where
  "bit_rol num cnt = js_or (js_shl num cnt) (js_ushr num (32 - cnt))"

definition md5_cmn :: "int \<Rightarrow> int \<Rightarrow> int \<Rightarrow> int \<Rightarrow> int \<Rightarrow> int \<Rightarrow> int" where
  "md5_cmn q a b x s t = safe_add (bit_rol (safe_add (safe_add a q) (safe_add x t)) s) b"
definition md5_ff :: "int \<Rightarrow> int \<Rightarrow> int \<Rightarrow> int \<Rightarrow> int \<Rightarrow> int \<Rightarrow> int \<Rightarrow> int" where
  "md5_ff a b c d x s t = md5_cmn (js_or (js_and b c) (js_and (js_not b) d)) a b x s t"
definition md5_gg :: "int \<Rightarrow> int \<Rightarrow> int \<Rightarrow> int \<Rightarrow> int \<Rightarrow> int \<Rightarrow> int \<Rightarrow> int" where
  "md5_gg a b c d x s t = md5_cmn (js_or (js_and b d) (js_and c (js_not d))) a b x s t"
definition md5_hh :: "int \<Rightarrow> int \<Rightarrow> int \<Rightarrow> int \<Rightarrow> int \<Rightarrow> int \<Rightarrow> int \<Rightarrow> int" where
  "md5_hh a b c d x s t = md5_cmn (js_xor (js_xor b c) d) a b x s t"
definition md5_ii :: "int \<Rightarrow> int \<Rightarrow> int \<Rightarrow> int \<Rightarrow> int \<Rightarrow> int \<Rightarrow> int \<Rightarrow> int" where
  "md5_ii a b c d x s t = md5_cmn (js_xor c (js_or b (js_not d))) a b x s t"

type_synonym md5_state = "int \<times> int \<times> int \<times> int"

definition md5_round1 :: "int list \<Rightarrow> nat \<Rightarrow> md5_state \<Rightarrow> md5_state" where
  "md5_round1 x i s =
    (case s of (a, b, c, d) \<Rightarrow>
     let a = md5_ff a b c d (elem_at x (i + 0)) 7 (- 680876936);
         d = md5_ff d a b c (elem_at x (i + 1)) 12 (- 389564586);
         c = md5_ff c d a b (elem_at x (i + 2)) 17 606105819;
         b = md5_ff b c d a (elem_at x (i + 3)) 22 (- 1044525330);
         a = md5_ff a b c d (elem_at x (i + 4)) 7 (- 176418897);
         d = md5_ff d a b c (elem_at x (i + 5)) 12 1200080426;
         c = md5_ff c d a b (elem_at x (i + 6)) 17 (- 1473231341);
         b = md5_ff b c d a (elem_at x (i + 7)) 22 (- 45705983);
         a = md5_ff a b c d (elem_at x (i + 8)) 7 1770035416;
         d = md5_ff d a b c (elem_at x (i + 9)) 12 (- 1958414417);
         c = md5_ff c d a b (elem_at x (i + 10)) 17 (- 42063);
         b = md5_ff b c d a (elem_at x (i + 11)) 22 (- 1990404162);
         a = md5_ff a b c d (elem_at x (i + 12)) 7 1804603682;
         d = md5_ff d a b c (elem_at x (i + 13)) 12 (- 40341101);
         c = md5_ff c d a b (elem_at x (i + 14)) 17 (- 1502002290);
         b = md5_ff b c d a (elem_at x (i + 15)) 22 1236535329
     in (a, b, c, d))"

definition md5_round2 :: "int list \<Rightarrow> nat \<Rightarrow> md5_state \<Rightarrow> md5_state" where
  "md5_round2 x i s =
    (case s of (a, b, c, d) \<Rightarrow>
     let a = md5_gg a b c d (elem_at x (i + 1)) 5 (- 165796510);
         d = md5_gg d a b c (elem_at x (i + 6)) 9 (- 1069501632);
         c = md5_gg c d a b (elem_at x (i + 11)) 14 643717713;
         b = md5_gg b c d a (elem_at x (i + 0)) 20 (- 373897302);
         a = md5_gg a b c d (elem_at x (i + 5)) 5 (- 701558691);
         d = md5_gg d a b c (elem_at x (i + 10)) 9 38016083;
         c = md5_gg c d a b (elem_at x (i + 15)) 14 (- 660478335);
         b = md5_gg b c d a (elem_at x (i + 4)) 20 (- 405537848);
         a = md5_gg a b c d (elem_at x (i + 9)) 5 568446438;
         d = md5_gg d a b c (elem_at x (i + 14)) 9 (- 1019803690);
         c = md5_gg c d a b (elem_at x (i + 3)) 14 (- 187363961);
         b = md5_gg b c d a (elem_at x (i + 8)) 20 1163531501;
         a = md5_gg a b c d (elem_at x (i + 13)) 5 (- 1444681467);
         d = md5_gg d a b c (elem_at x (i + 2)) 9 (- 51403784);
         c = md5_gg c d a b (elem_at x (i + 7)) 14 1735328473;
         b = md5_gg b c d a (elem_at x (i + 12)) 20 (- 1926607734)
     in (a, b, c, d))"

definition md5_round3 :: "int list \<Rightarrow> nat \<Rightarrow> md5_state \<Rightarrow> md5_state" where
  "md5_round3 x i s =
    (case s of (a, b, c, d) \<Rightarrow>
     let a = md5_hh a b c d (elem_at x (i + 5)) 4 (- 378558);
         d = md5_hh d a b c (elem_at x (i + 8)) 11 (- 2022574463);
         c = md5_hh c d a b (elem_at x (i + 11)) 16 1839030562;
         b = md5_hh b c d a (elem_at x (i + 14)) 23 (- 35309556);
         a = md5_hh a b c d (elem_at x (i + 1)) 4 (- 1530992060);
         d = md5_hh d a b c (elem_at x (i + 4)) 11 1272893353;
         c = md5_hh c d a b (elem_at x (i + 7)) 16 (- 155497632);
         b = md5_hh b c d a (elem_at x (i + 10)) 23 (- 1094730640);
         a = md5_hh a b c d (elem_at x (i + 13)) 4 681279174;
         d = md5_hh d a b c (elem_at x (i + 0)) 11 (- 358537222);
         c = md5_hh c d a b (elem_at x (i + 3)) 16 (- 722521979);
         b = md5_hh b c d a (elem_at x (i + 6)) 23 76029189;
         a = md5_hh a b c d (elem_at x (i + 9)) 4 (- 640364487);
         d = md5_hh d a b c (elem_at x (i + 12)) 11 (- 421815835);
         c = md5_hh c d a b (elem_at x (i + 15)) 16 530742520;
         b = md5_hh b c d a (elem_at x (i + 2)) 23 (- 995338651)
     in (a, b, c, d))"

definition md5_round4 :: "int list \<Rightarrow> nat \<Rightarrow> md5_state \<Rightarrow> md5_state" where
  "md5_round4 x i s =
    (case s of (a, b, c, d) \<Rightarrow>
     let a = md5_ii a b c d (elem_at x (i + 0)) 6 (- 198630844);
         d = md5_ii d a b c (elem_at x (i + 7)) 10 1126891415;
         c = md5_ii c d a b (elem_at x (i + 14)) 15 (- 1416354905);
         b = md5_ii b c d a (elem_at x (i + 5)) 21 (- 57434055);
         a = md5_ii a b c d (elem_at x (i + 12)) 6 1700485571;
         d = md5_ii d a b c (elem_at x (i + 3)) 10 (- 1894986606);
         c = md5_ii c d a b (elem_at x (i + 10)) 15 (- 1051523);
         b = md5_ii b c d a (elem_at x (i + 1)) 21 (- 2054922799);
         a = md5_ii a b c d (elem_at x (i + 8)) 6 1873313359;
         d = md5_ii d a b c (elem_at x (i + 15)) 10 (- 30611744);
         c = md5_ii c d a b (elem_at x (i + 6)) 15 (- 1560198380);
         b = md5_ii b c d a (elem_at x (i + 13)) 21 1309151649;
         a = md5_ii a b c d (elem_at x (i + 4)) 6 (- 145523070);
         d = md5_ii d a b c (elem_at x (i + 11)) 10 (- 1120210379);
         c = md5_ii c d a b (elem_at x (i + 2)) 15 718787259;
         b = md5_ii b c d a (elem_at x (i + 9)) 21 (- 343485551)
     in (a, b, c, d))"

definition md5_block :: "int list \<Rightarrow> md5_state \<Rightarrow> nat \<Rightarrow> md5_state" where
  "md5_block x s i =
    (case s of (olda, oldb, oldc, oldd) \<Rightarrow>
       case md5_round4 x i (md5_round3 x i (md5_round2 x i (md5_round1 x i s))) of (a, b, c, d) \<Rightarrow>
         (safe_add a olda, safe_add b oldb, safe_add c oldc, safe_add d oldd))"

definition md5_pad :: "int list \<Rightarrow> nat \<Rightarrow> int list" where
  "md5_pad x len =
    (let p = js_shr (int len) 5; x = set_idx x p (js_or (elem_idx x p) (js_shl 0x80 (int len mod 32)))
     in set_idx x (js_shl (js_ushr (int len + 64) 9) 4 + 14) (int len))"

definition core_md5 :: "int list \<Rightarrow> nat \<Rightarrow> int list" where
  "core_md5 x len =
    (let x = md5_pad x len;
         (a, b, c, d) = foldl (md5_block x) (1732584193, - 271733879, - 1732584194, 271733878)
           (List.map (\<lambda>k. 16 * k) [0..<(length x + 15) div 16])
     in [a, b, c, d])"

definition str2binl :: "codes \<Rightarrow> int list" where
  "str2binl str =
    foldl (\<lambda>bin k. let i = int (k * chrsz); q = js_shr i 5
        in set_idx bin q (js_or (elem_idx bin q) (js_shl (js_and (char_code str k) char_mask) (i mod 32))))
      [] [0..<length str]"

definition binl2str :: "int list \<Rightarrow> codes" where
  "binl2str bin =
    List.map (\<lambda>k. let i = int (k * chrsz)
        in fromCharCode (js_and (js_ushr (elem_idx bin (js_shr i 5)) (i mod 32)) char_mask))
      [0..<length bin * 32 div chrsz]"

definition binl2hex :: "int list \<Rightarrow> string" where
  "binl2hex binarray =
    concat (List.map (\<lambda>i.
        char_at hex_tab (js_and (js_shr (elem_idx binarray (js_shr (int i) 2)) (int (i mod 4 * 8 + 4))) 0xF) @
        char_at hex_tab (js_and (js_shr (elem_idx binarray (js_shr (int i) 2)) (int (i mod 4 * 8))) 0xF))
      [0..<length binarray * 4])"

definition binl2b64 :: "int list \<Rightarrow> string" where
  "binl2b64 binarray =
    (let byte = (\<lambda>i. js_and (js_shr (elem_idx binarray (js_shr (int i) 2)) (int (8 * (i mod 4)))) 0xFF)
     in concat (List.map (\<lambda>k. let i = 3 * k;
            triplet = js_or (js_or (js_shl (byte i) 16) (js_shl (byte (i + 1)) 8)) (byte (i + 2))
          in b64_chars i (length binarray) triplet) [0..<(length binarray * 4 + 2) div 3]))"

definition core_hmac_md5 :: "codes \<Rightarrow> codes \<Rightarrow> int list" where
  "core_hmac_md5 key data =
    (let bkey = str2binl key; bkey = (if length bkey > 16 then core_md5 bkey (length key * chrsz) else bkey);
         (ipad, opad) = hmac_pads bkey;
         hash = core_md5 (ipad @ str2binl data) (512 + length data * chrsz)
     in core_md5 (opad @ hash) (512 + 128))"

definition hex_md5 :: "codes \<Rightarrow> string" where
  "hex_md5 s = binl2hex (core_md5 (str2binl s) (length s * chrsz))"
definition b64_md5 :: "codes \<Rightarrow> string" where
  "b64_md5 s = binl2b64 (core_md5 (str2binl s) (length s * chrsz))"
definition str_md5 :: "codes \<Rightarrow> codes" where
  "str_md5 s = binl2str (core_md5 (str2binl s) (length s * chrsz))"
definition hex_hmac_md5 :: "codes \<Rightarrow> codes \<Rightarrow> string" where
  "hex_hmac_md5 key data = binl2hex (core_hmac_md5 key data)"
definition b64_hmac_md5 :: "codes \<Rightarrow> codes \<Rightarrow> string" where
  "b64_hmac_md5 key data = binl2b64 (core_hmac_md5 key data)"
definition str_hmac_md5 :: "codes \<Rightarrow> codes \<Rightarrow> codes" where
  "str_hmac_md5 key data = binl2str (core_hmac_md5 key data)"

definition md5_vm_test :: bool where
  "md5_vm_test \<longleftrightarrow> hex_md5 (codes_of ''abc'') = ''900150983cd24fb0d6963f7d28e17f72''"

section \<open>Base64\<close>

definition toBase64Table :: string where
  "toBase64Table = ''ABCDEFGHIJKLMNOPQRSTUVWXYZabcdefghijklmnopqrstuvwxyz0123456789+/''"

definition base64Pad :: char where
  "base64Pad = CHR ''=''"

text \<open>Indexing the table out of range would append the text \<open>undefined\<close>.\<close>

definition table_at :: "int \<Rightarrow> string" where
  "table_at i = (if 0 \<le> i \<and> i < int (length toBase64Table) then [toBase64Table ! nat i] else ''undefined'')"

fun toBase64 :: "int list \<Rightarrow> string" where
  "toBase64 [] = []"
| "toBase64 [a] = table_at (js_shr a 2) @ table_at (js_shl (js_and a 0x03) 4) @ [base64Pad, base64Pad]"
| "toBase64 [a, b] =
    table_at (js_shr a 2) @ table_at (js_shl (js_and a 0x03) 4 + js_shr b 4) @
    table_at (js_shl (js_and b 0x0f) 2) @ [base64Pad]"
| "toBase64 (a # b # c # data) =
    table_at (js_shr a 2) @ table_at (js_shl (js_and a 0x03) 4 + js_shr b 4) @
    table_at (js_shl (js_and b 0x0f) 2 + js_shr c 6) @ table_at (js_and c 0x3f) @ toBase64 data"

definition toBinaryTable :: "int list" where
  "toBinaryTable = [
    -1,-1,-1,-1, -1,-1,-1,-1, -1,-1,-1,-1, -1,-1,-1,-1,
    -1,-1,-1,-1, -1,-1,-1,-1, -1,-1,-1,-1, -1,-1,-1,-1,
    -1,-1,-1,-1, -1,-1,-1,-1, -1,-1,-1,62, -1,-1,-1,63,
    52,53,54,55, 56,57,58,59, 60,61,-1,-1, -1, 0,-1,-1,
    -1, 0, 1, 2,  3, 4, 5, 6,  7, 8, 9,10, 11,12,13,14,
    15,16,17,18, 19,20,21,22, 23,24,25,-1, -1,-1,-1,-1,
    -1,26,27,28, 29,30,31,32, 33,34,35,36, 37,38,39,40,
    41,42,43,44, 45,46,47,48, 49,50,51,-1, -1,-1,-1,-1]"

fun base64_loop :: "string \<Rightarrow> codes \<Rightarrow> int \<Rightarrow> int \<Rightarrow> codes \<times> int" where
  "base64_loop [] result leftdata leftbits = (result, leftbits)"
| "base64_loop (ch # data) result leftdata leftbits =
    (let c = toBinaryTable ! nat (js_and (of_char ch) 0x7f); padding = (ch = base64Pad)
     in if c = - 1 then base64_loop data result leftdata leftbits
        else
          let leftdata = js_or (js_shl leftdata 6) c; leftbits = leftbits + 6
          in if leftbits \<ge> 8 then
               (let leftbits = leftbits - 8;
                    result = (if \<not> padding then result @ [fromCharCode (js_and (js_shr leftdata leftbits) 0xff)] else result)
                in base64_loop data result (js_and leftdata (js_shl 1 leftbits - 1)) leftbits)
             else base64_loop data result leftdata leftbits)"

definition base64ToString :: "string \<Rightarrow> codes res" where
  "base64ToString data =
    (let (result, leftbits) = base64_loop data [] 0 0
     in if leftbits \<noteq> 0 then throw (Thrown ''Corrupted base64 string'') else ok result)"

end
