(* ===== verification/Sun_Hash_Correct.thy ===== *)
theory Sun_Hash_Correct
  imports Sun_Hash
begin

unbundle bit_operations_syntax

text \<open>
  SHA-1 and MD5 against their standards. The code works with the signed integers of the 32-bit operators and adds with
  \<open>safe_add\<close>, 16 bits at a time; FIPS 180-1 and RFC 1321 work with 32-bit words. The specification below is the
  standards' text on \<open>32 word\<close>, and the lemmas say that the code computes it block by block of the padded array.
\<close>

section \<open>The shared helpers on words\<close>

abbreviation wi :: "int \<Rightarrow> 32 word" where
  "wi \<equiv> word_of_int"

lemmas js_word_ops = js_and_word js_or_word js_xor_word js_not_word js_shl_word js_ushr_word

lemma wi_split: "wi x = wi (js_shr x 16 * 2 ^ 16 + js_and x 0xFFFF)"
proof -
  have "js_and x 0xFFFF = x mod 2 ^ 16" using js_and_mask [of 16 x] by simp
  moreover have "js_shr x 16 = toInt32 x div 2 ^ 16" by (simp add: js_shr_def drop_bit_eq_div)
  moreover have "toInt32 x mod 2 ^ 16 = x mod 2 ^ 16"
  proof -
    have "(2::int) ^ 16 dvd 2 ^ 32" by simp
    then have "toInt32 x mod 2 ^ 16 = toInt32 x mod 2 ^ 32 mod 2 ^ 16" by (simp only: mod_mod_cancel)
    also have "\<dots> = x mod 2 ^ 32 mod 2 ^ 16" by (simp only: toInt32_mod)
    also have "\<dots> = x mod 2 ^ 16" using \<open>(2::int) ^ 16 dvd 2 ^ 32\<close> by (simp only: mod_mod_cancel)
    finally show ?thesis .
  qed
  ultimately have "js_shr x 16 * 2 ^ 16 + js_and x 0xFFFF = toInt32 x"
    using div_mult_mod_eq [of "toInt32 x" "2 ^ 16"] by simp
  then show ?thesis by simp
qed

lemma js_or_disjoint:
  "js_or (js_shl m 16) (js_and l 0xFFFF) = sint (wi (m * 2 ^ 16 + l mod 2 ^ 16))"
proof -
  have "wi (js_shl m 16) OR wi (js_and l 0xFFFF) = push_bit 16 (wi m) OR (wi l AND 0xFFFF)"
    by (simp add: js_shl_word js_and_word)
  also have "\<dots> = push_bit 16 (wi m) + (wi l AND 0xFFFF)"
  proof (rule disjunctive_add_eq_or [symmetric])
    have "(0xFFFF :: 32 word) = mask 16" by (simp add: mask_eq_decr_exp)
    then show "push_bit 16 (wi m) AND (wi l AND 0xFFFF) = 0" by (auto simp: bit_eq_iff bit_simps)
  qed
  also have "wi l AND 0xFFFF = wi (l mod 2 ^ 16)"
  proof -
    have "(0xFFFF :: 32 word) = mask 16" by (simp add: mask_eq_decr_exp)
    then have "wi l AND 0xFFFF = take_bit 16 (wi l)" by (simp add: take_bit_eq_mask)
    also have "\<dots> = wi (take_bit 16 l)" by (simp add: bit_eq_iff bit_simps)
    finally show ?thesis by (simp add: take_bit_eq_mod)
  qed
  also have "push_bit 16 (wi m) = wi (m * 2 ^ 16)"
    by (simp add: push_bit_eq_mult flip: wi_hom_mult)
  finally show ?thesis by (simp add: js_or_word flip: wi_hom_add)
qed

lemma safe_add_word: "safe_add x y = sint (wi x + wi y)"
proof -
  let ?l = "js_and x 0xFFFF + js_and y 0xFFFF"
  have m: "js_and z 0xFFFF = z mod 2 ^ 16" for z using js_and_mask [of 16 z] by simp
  have l: "0 \<le> ?l" "?l < 2 ^ 17"
    using pos_mod_bound [of "2 ^ 16" x] pos_mod_bound [of "2 ^ 16" y] unfolding m by simp_all
  have sl: "js_shr ?l 16 = ?l div 2 ^ 16" using l by (subst js_shr_div) (auto simp: is_int32_def)
  have "safe_add x y = sint (wi ((js_shr x 16 + js_shr y 16 + ?l div 2 ^ 16) * 2 ^ 16 + ?l mod 2 ^ 16))"
    unfolding safe_add_def Let_def js_or_disjoint sl ..
  also have "(js_shr x 16 + js_shr y 16 + ?l div 2 ^ 16) * 2 ^ 16 + ?l mod 2 ^ 16 =
      (js_shr x 16 * 2 ^ 16 + js_and x 0xFFFF) + (js_shr y 16 * 2 ^ 16 + js_and y 0xFFFF)"
    using div_mult_mod_eq [of ?l "2 ^ 16"] by (simp add: algebra_simps)
  finally have "safe_add x y = sint (wi ((js_shr x 16 * 2 ^ 16 + js_and x 0xFFFF) + (js_shr y 16 * 2 ^ 16 + js_and y 0xFFFF)))" .
  then show ?thesis using wi_split [of x] wi_split [of y]
    by (simp only: wi_hom_add [symmetric, of "js_shr x 16 * 2 ^ 16 + js_and x 0xFFFF"])
qed

lemma rol_word:
  assumes "0 < n" "n < 32"
  shows "rol x (int n) = sint (word_rotl n (wi x))"
proof -
  have "nat (int n mod 32) = n" "(32 - int n) mod 32 = 32 - int n" "nat (32 - int n) = 32 - n"
    using assms by (simp_all del: minus_mod_self1)
  then have "rol x (int n) = sint (push_bit n (wi x) OR drop_bit (32 - n) (wi x))"
    by (simp add: rol_def js_word_ops)
  also have "push_bit n (wi x) OR drop_bit (32 - n) (wi x) = word_rotl n (wi x)"
  proof (rule bit_word_eqI)
    fix k assume "k < LENGTH(32)"
    then have k: "k < 32" by simp
    have "(k + 32 - n) mod 32 = (if n \<le> k then k - n else k + 32 - n)"
    proof (cases "n \<le> k")
      case True
      then have "(k + 32 - n) mod 32 = ((k - n) + 32) mod 32" by simp
      also have "\<dots> = k - n" using k by (simp only: mod_add_self2) simp
      finally show ?thesis using True by simp
    qed (use k in simp)
    then show "bit (push_bit n (wi x) OR drop_bit (32 - n) (wi x)) k = bit (word_rotl n (wi x)) k"
      using assms k by (auto simp: bit_simps add.commute [of 32 k])
  qed
  finally show ?thesis .
qed

section \<open>SHA-1\<close>

text \<open>FIPS 180-1 on 32-bit words: the functions, the constants, the message schedule and the compression of a block \<open>M\<close>.\<close>

definition fips_f :: "nat \<Rightarrow> 32 word \<Rightarrow> 32 word \<Rightarrow> 32 word \<Rightarrow> 32 word" where
  "fips_f t b c d =
    (if t < 20 then (b AND c) OR (NOT b AND d) else if t < 40 then b XOR c XOR d
     else if t < 60 then (b AND c) OR (b AND d) OR (c AND d) else b XOR c XOR d)"

definition fips_k :: "nat \<Rightarrow> 32 word" where
  "fips_k t = (if t < 20 then 0x5A827999 else if t < 40 then 0x6ED9EBA1 else if t < 60 then 0x8F1BBCDC else 0xCA62C1D6)"

fun fips_w :: "(nat \<Rightarrow> 32 word) \<Rightarrow> nat \<Rightarrow> 32 word" where
  "fips_w M t =
    (if t < 16 then M t
     else word_rotl 1 (fips_w M (t - 3) XOR fips_w M (t - 8) XOR fips_w M (t - 14) XOR fips_w M (t - 16)))"

declare fips_w.simps [simp del]

type_synonym sha1_words = "32 word \<times> 32 word \<times> 32 word \<times> 32 word \<times> 32 word"

definition fips_round :: "(nat \<Rightarrow> 32 word) \<Rightarrow> sha1_words \<Rightarrow> nat \<Rightarrow> sha1_words" where
  "fips_round M s t =
    (case s of (a, b, c, d, e) \<Rightarrow> (word_rotl 5 a + fips_f t b c d + e + fips_w M t + fips_k t, a, word_rotl 30 b, c, d))"

definition fips_block :: "sha1_words \<Rightarrow> (nat \<Rightarrow> 32 word) \<Rightarrow> sha1_words" where
  "fips_block h M =
    (case h of (h0, h1, h2, h3, h4) \<Rightarrow>
     case foldl (fips_round M) h [0..<80] of (a, b, c, d, e) \<Rightarrow> (h0 + a, h1 + b, h2 + c, h3 + d, h4 + e))"

definition fips_init :: sha1_words where
  "fips_init = (0x67452301, 0xEFCDAB89, 0x98BADCFE, 0x10325476, 0xC3D2E1F0)"

definition sints :: "sha1_words \<Rightarrow> sha1_state" where
  "sints s = (case s of (a, b, c, d, e) \<Rightarrow> (sint a, sint b, sint c, sint d, sint e))"

lemma sha1_ft_word: "sha1_ft t (sint b) (sint c) (sint d) = sint (fips_f t b c d)"
  by (simp add: sha1_ft_def fips_f_def js_word_ops xor.assoc or.assoc)

lemma sha1_kt_word: "wi (sha1_kt t) = fips_k t"
  by (simp add: sha1_kt_def fips_k_def)

lemma set_at_length: "k < length w \<Longrightarrow> length (set_at w k v) = length w"
  by (simp add: set_at_def)

lemma elem_set_at: "k < length w \<Longrightarrow> elem_at (set_at w k v) i = (if i = k then v else elem_at w i)"
  by (simp add: set_at_def elem_at_def)

lemma sha1_rounds:
  assumes "length w = 80"
  shows "n \<le> 80 \<Longrightarrow> \<exists>w'. foldl (sha1_round x i) (w, sints s) [0..<n] =
      (w', sints (foldl (fips_round (\<lambda>t. wi (elem_at x (i + t)))) s [0..<n])) \<and> length w' = 80 \<and>
      (\<forall>k < n. wi (elem_at w' k) = fips_w (\<lambda>t. wi (elem_at x (i + t))) k)"
proof (induction n)
  case (Suc n)
  let ?M = "\<lambda>t. wi (elem_at x (i + t))"
  obtain w1 where w1: "foldl (sha1_round x i) (w, sints s) [0..<n] = (w1, sints (foldl (fips_round ?M) s [0..<n]))"
    "length w1 = 80" "\<And>k. k < n \<Longrightarrow> wi (elem_at w1 k) = fips_w ?M k" using Suc by auto
  obtain a b c d e where s1: "foldl (fips_round ?M) s [0..<n] = (a, b, c, d, e)" by (metis surj_pair)
  define v where "v = (if n < 16 then elem_at x (i + n)
    else rol (js_xor (js_xor (js_xor (elem_at w1 (n - 3)) (elem_at w1 (n - 8))) (elem_at w1 (n - 14))) (elem_at w1 (n - 16))) 1)"
  have v: "wi v = fips_w ?M n"
    using w1(3) rol_word [of 1] by (auto simp: v_def js_xor_word fips_w.simps [of _ n] xor.assoc)
  have "sha1_round x i (w1, sints (a, b, c, d, e)) n = (set_at w1 n v, sints (fips_round ?M (a, b, c, d, e) n))"
    using Suc.prems w1(2) v rol_word [of 5] rol_word [of 30]
    by (simp add: sha1_round_def sints_def fips_round_def v_def [symmetric] elem_set_at safe_add_word sha1_ft_word
        sha1_kt_word add.assoc)
  moreover have "wi (elem_at (set_at w1 n v) k) = fips_w ?M k" if "k < Suc n" for k
    using that w1(2,3) v Suc.prems by (auto simp: elem_set_at less_Suc_eq)
  moreover have "length (set_at w1 n v) = 80" using w1(2) Suc.prems by (simp add: set_at_length)
  ultimately show ?case using w1(1) s1 by auto
qed (use assms in auto)

lemma sha1_blocks:
  assumes "length w = 80"
  shows "\<exists>w'. foldl (sha1_block x) (w, sints h) is =
      (w', sints (foldl (\<lambda>h i. fips_block h (\<lambda>t. wi (elem_at x (i + t)))) h is)) \<and> length w' = 80"
  using assms
proof (induction "is" arbitrary: w h)
  case (Cons i "is")
  let ?M = "\<lambda>t. wi (elem_at x (i + t))"
  obtain w1 where w1: "foldl (sha1_round x i) (w, sints h) [0..<80] = (w1, sints (foldl (fips_round ?M) h [0..<80]))" "length w1 = 80"
    using sha1_rounds [OF Cons.prems, of 80 x i h] by auto
  obtain a b c d e where s: "foldl (fips_round ?M) h [0..<80] = (a, b, c, d, e)" by (metis surj_pair)
  obtain h0 h1 h2 h3 h4 where h: "h = (h0, h1, h2, h3, h4)" by (metis surj_pair)
  have "sha1_block x (w, sints h) i = (w1, sints (fips_block h ?M))"
    using w1 s by (simp add: sha1_block_def fips_block_def h sints_def safe_add_word add.commute del: upt_Suc)
  then show ?case using Cons.IH [OF w1(2), of "fips_block h ?M"] by auto
qed simp

text \<open>Block after block of the padded array, from the standard's initial value, although the code reuses one array \<open>w\<close> for the
  schedules of all blocks and adds with \<open>safe_add\<close>.\<close>

lemma core_sha1_blocks:
  "core_sha1 x len =
    (let p = sha1_pad x len
     in case foldl (\<lambda>h k. fips_block h (\<lambda>t. wi (elem_at p (16 * k + t)))) fips_init [0..<(length p + 15) div 16] of
          (a, b, c, d, e) \<Rightarrow> [sint a, sint b, sint c, sint d, sint e])"
proof -
  define p where "p = sha1_pad x len"
  have "sints fips_init = (1732584193, - 271733879, - 1732584194, 271733878, - 1009589776)"
    by (simp add: sints_def fips_init_def)
  then show ?thesis
    using sha1_blocks [of "replicate 80 0" p fips_init "List.map (\<lambda>k. 16 * k) [0..<(length p + 15) div 16]"]
    by (auto simp: core_sha1_def p_def [symmetric] Let_def foldl_map sints_def split: prod.splits)
qed

section \<open>MD5\<close>

text \<open>RFC 1321 on 32-bit words: the four functions, the index of the message word, the rotations and the table of the integer
  parts of \<open>2\<^sup>3\<^sup>2 |sin (i + 1)|\<close>.\<close>

definition rfc_f :: "nat \<Rightarrow> 32 word \<Rightarrow> 32 word \<Rightarrow> 32 word \<Rightarrow> 32 word" where
  "rfc_f i b c d =
    (if i < 16 then (b AND c) OR (NOT b AND d) else if i < 32 then (b AND d) OR (c AND NOT d)
     else if i < 48 then b XOR c XOR d else c XOR (b OR NOT d))"

definition rfc_k :: "nat \<Rightarrow> nat" where
  "rfc_k i = (if i < 16 then i else if i < 32 then (5 * i + 1) mod 16 else if i < 48 then (3 * i + 5) mod 16 else 7 * i mod 16)"

definition rfc_s :: "nat \<Rightarrow> nat" where
  "rfc_s i = [[7, 12, 17, 22], [5, 9, 14, 20], [4, 11, 16, 23], [6, 10, 15, 21]] ! (i div 16) ! (i mod 4)"

definition rfc_t :: "32 word list" where
  "rfc_t = [
    0xD76AA478, 0xE8C7B756, 0x242070DB, 0xC1BDCEEE, 0xF57C0FAF, 0x4787C62A, 0xA8304613, 0xFD469501,
    0x698098D8, 0x8B44F7AF, 0xFFFF5BB1, 0x895CD7BE, 0x6B901122, 0xFD987193, 0xA679438E, 0x49B40821,
    0xF61E2562, 0xC040B340, 0x265E5A51, 0xE9B6C7AA, 0xD62F105D, 0x02441453, 0xD8A1E681, 0xE7D3FBC8,
    0x21E1CDE6, 0xC33707D6, 0xF4D50D87, 0x455A14ED, 0xA9E3E905, 0xFCEFA3F8, 0x676F02D9, 0x8D2A4C8A,
    0xFFFA3942, 0x8771F681, 0x6D9D6122, 0xFDE5380C, 0xA4BEEA44, 0x4BDECFA9, 0xF6BB4B60, 0xBEBFBC70,
    0x289B7EC6, 0xEAA127FA, 0xD4EF3085, 0x04881D05, 0xD9D4D039, 0xE6DB99E5, 0x1FA27CF8, 0xC4AC5665,
    0xF4292244, 0x432AFF97, 0xAB9423A7, 0xFC93A039, 0x655B59C3, 0x8F0CCC92, 0xFFEFF47D, 0x85845DD1,
    0x6FA87E4F, 0xFE2CE6E0, 0xA3014314, 0x4E0811A1, 0xF7537E82, 0xBD3AF235, 0x2AD7D2BB, 0xEB86D391]"

type_synonym md5_words = "32 word \<times> 32 word \<times> 32 word \<times> 32 word"

definition rfc_round :: "(nat \<Rightarrow> 32 word) \<Rightarrow> md5_words \<Rightarrow> nat \<Rightarrow> md5_words" where
  "rfc_round M s i =
    (case s of (a, b, c, d) \<Rightarrow> (d, b + word_rotl (rfc_s i) (a + rfc_f i b c d + M (rfc_k i) + rfc_t ! i), b, c))"

definition rfc_block :: "md5_words \<Rightarrow> (nat \<Rightarrow> 32 word) \<Rightarrow> md5_words" where
  "rfc_block h M =
    (case h of (h0, h1, h2, h3) \<Rightarrow>
     case foldl (rfc_round M) h [0..<64] of (a, b, c, d) \<Rightarrow> (h0 + a, h1 + b, h2 + c, h3 + d))"

definition rfc_init :: md5_words where
  "rfc_init = (0x67452301, 0xEFCDAB89, 0x98BADCFE, 0x10325476)"

definition sints4 :: "md5_words \<Rightarrow> md5_state" where
  "sints4 s = (case s of (a, b, c, d) \<Rightarrow> (sint a, sint b, sint c, sint d))"

lemma bit_rol_word:
  "(numeral n :: nat) < 32 \<Longrightarrow> bit_rol x (numeral n) = sint (word_rotl (numeral n) (wi x))"
  using rol_word [of "numeral n" x] by (simp add: bit_rol_def rol_def)

lemma md5_steps:
  assumes "(numeral n :: nat) < 32"
  shows "md5_ff (sint a) (sint b) (sint c) (sint d) x (numeral n) t =
      sint (b + word_rotl (numeral n) (a + ((b AND c) OR (NOT b AND d)) + wi x + wi t))"
    "md5_gg (sint a) (sint b) (sint c) (sint d) x (numeral n) t =
      sint (b + word_rotl (numeral n) (a + ((b AND d) OR (c AND NOT d)) + wi x + wi t))"
    "md5_hh (sint a) (sint b) (sint c) (sint d) x (numeral n) t =
      sint (b + word_rotl (numeral n) (a + (b XOR c XOR d) + wi x + wi t))"
    "md5_ii (sint a) (sint b) (sint c) (sint d) x (numeral n) t =
      sint (b + word_rotl (numeral n) (a + (c XOR (b OR NOT d)) + wi x + wi t))"
  using assms
  by (simp_all add: md5_ff_def md5_gg_def md5_hh_def md5_ii_def md5_cmn_def safe_add_word bit_rol_word js_word_ops
      xor.assoc add.assoc add.commute [of b])

text \<open>One assignment of the source against one step of the specification, for any value assigned.\<close>

lemma md5_assign:
  assumes "\<And>v. f (sint v) = sints4 (foldl (rfc_round M) (d, v, b, c) is)"
    and "A = sint (b + word_rotl (rfc_s i) (a + rfc_f i b c d + M (rfc_k i) + rfc_t ! i))"
  shows "Let A f = sints4 (foldl (rfc_round M) (a, b, c, d) (i # is))"
  using assms by (simp add: rfc_round_def)

lemma md5_step:
  assumes "wi t = rfc_t ! i" "M (rfc_k i) = wi x" "rfc_s i = numeral n" "(numeral n :: nat) < 32"
  shows "i < 16 \<Longrightarrow> md5_ff (sint a) (sint b) (sint c) (sint d) x (numeral n) t =
      sint (b + word_rotl (rfc_s i) (a + rfc_f i b c d + M (rfc_k i) + rfc_t ! i))"
    "16 \<le> i \<Longrightarrow> i < 32 \<Longrightarrow> md5_gg (sint a) (sint b) (sint c) (sint d) x (numeral n) t =
      sint (b + word_rotl (rfc_s i) (a + rfc_f i b c d + M (rfc_k i) + rfc_t ! i))"
    "32 \<le> i \<Longrightarrow> i < 48 \<Longrightarrow> md5_hh (sint a) (sint b) (sint c) (sint d) x (numeral n) t =
      sint (b + word_rotl (rfc_s i) (a + rfc_f i b c d + M (rfc_k i) + rfc_t ! i))"
    "48 \<le> i \<Longrightarrow> md5_ii (sint a) (sint b) (sint c) (sint d) x (numeral n) t =
      sint (b + word_rotl (rfc_s i) (a + rfc_f i b c d + M (rfc_k i) + rfc_t ! i))"
  using assms by (simp_all add: md5_steps rfc_f_def)

lemma wi_eq_numeral: "wi t = numeral m \<longleftrightarrow> take_bit 32 t = take_bit 32 (numeral m)"
proof -
  have "wi t = numeral m \<longleftrightarrow> wi t = wi (numeral m)" by simp
  also have "\<dots> \<longleftrightarrow> take_bit 32 t = take_bit 32 (numeral m)" by (simp only: word_of_int_eq_iff) simp
  finally show ?thesis .
qed

lemmas md5_tables = rfc_k_def rfc_s_def rfc_t_def

lemma md5_round1_rfc:
  "md5_round1 x i (sints4 s) = sints4 (foldl (rfc_round (\<lambda>t. wi (elem_at x (i + t)))) s [0..<16])"
proof -
  obtain a b c d where s: "s = (a, b, c, d)" by (metis surj_pair)
  have u: "[0..<16] = [0, 1, 2, 3, 4, 5, 6, 7, 8, 9, 10, 11, 12, 13, 14, 15::nat]" by (simp add: upt_rec)
  have i: "sints4 (a, b, c, d) = (sint a, sint b, sint c, sint d)" by (simp add: sints4_def)
  show ?thesis
    unfolding s u md5_round1_def i prod.case
    apply (rule md5_assign)+
    apply (simp add: sints4_def)
    by (rule md5_step(1); simp add: md5_tables wi_eq_numeral)+
qed

lemma md5_round2_rfc:
  "md5_round2 x i (sints4 s) = sints4 (foldl (rfc_round (\<lambda>t. wi (elem_at x (i + t)))) s [16..<32])"
proof -
  obtain a b c d where s: "s = (a, b, c, d)" by (metis surj_pair)
  have u: "[16..<32] = [16, 17, 18, 19, 20, 21, 22, 23, 24, 25, 26, 27, 28, 29, 30, 31::nat]" by (simp add: upt_rec)
  have i: "sints4 (a, b, c, d) = (sint a, sint b, sint c, sint d)" by (simp add: sints4_def)
  show ?thesis
    unfolding s u md5_round2_def i prod.case
    apply (rule md5_assign)+
    apply (simp add: sints4_def)
    by (rule md5_step(2); simp add: md5_tables wi_eq_numeral)+
qed

lemma md5_round3_rfc:
  "md5_round3 x i (sints4 s) = sints4 (foldl (rfc_round (\<lambda>t. wi (elem_at x (i + t)))) s [32..<48])"
proof -
  obtain a b c d where s: "s = (a, b, c, d)" by (metis surj_pair)
  have u: "[32..<48] = [32, 33, 34, 35, 36, 37, 38, 39, 40, 41, 42, 43, 44, 45, 46, 47::nat]" by (simp add: upt_rec)
  have i: "sints4 (a, b, c, d) = (sint a, sint b, sint c, sint d)" by (simp add: sints4_def)
  show ?thesis
    unfolding s u md5_round3_def i prod.case
    apply (rule md5_assign)+
    apply (simp add: sints4_def)
    by (rule md5_step(3); simp add: md5_tables wi_eq_numeral)+
qed

lemma md5_round4_rfc:
  "md5_round4 x i (sints4 s) = sints4 (foldl (rfc_round (\<lambda>t. wi (elem_at x (i + t)))) s [48..<64])"
proof -
  obtain a b c d where s: "s = (a, b, c, d)" by (metis surj_pair)
  have u: "[48..<64] = [48, 49, 50, 51, 52, 53, 54, 55, 56, 57, 58, 59, 60, 61, 62, 63::nat]" by (simp add: upt_rec)
  have i: "sints4 (a, b, c, d) = (sint a, sint b, sint c, sint d)" by (simp add: sints4_def)
  show ?thesis
    unfolding s u md5_round4_def i prod.case
    apply (rule md5_assign)+
    apply (simp add: sints4_def)
    by (rule md5_step(4); simp add: md5_tables wi_eq_numeral)+
qed

lemma md5_block_rfc:
  "md5_block x (sints4 h) i = sints4 (rfc_block h (\<lambda>t. wi (elem_at x (i + t))))"
proof -
  let ?M = "\<lambda>t. wi (elem_at x (i + t))"
  have "[0..<64::nat] = [0..<16] @ [16..<32] @ [32..<48] @ [48..<64]" by (simp add: upt_rec)
  then have "foldl (rfc_round ?M) h [0..<64] =
      foldl (rfc_round ?M) (foldl (rfc_round ?M) (foldl (rfc_round ?M) (foldl (rfc_round ?M) h [0..<16]) [16..<32]) [32..<48]) [48..<64]"
    by (simp only: foldl_append)
  then have r: "md5_round4 x i (md5_round3 x i (md5_round2 x i (md5_round1 x i (sints4 h)))) =
      sints4 (foldl (rfc_round ?M) h [0..<64])"
    by (simp only: md5_round1_rfc md5_round2_rfc md5_round3_rfc md5_round4_rfc)
  obtain a b c d where s: "foldl (rfc_round ?M) h [0..<64] = (a, b, c, d)" by (metis surj_pair)
  obtain h0 h1 h2 h3 where h: "h = (h0, h1, h2, h3)" by (metis surj_pair)
  have i: "sints4 h = (sint h0, sint h1, sint h2, sint h3)" by (simp add: h sints4_def)
  show ?thesis unfolding md5_block_def r s
    by (simp add: i rfc_block_def s) (simp add: h sints4_def safe_add_word add.commute)
qed

lemma core_md5_blocks:
  "core_md5 x len =
    (let p = md5_pad x len
     in case foldl (\<lambda>h k. rfc_block h (\<lambda>t. wi (elem_at p (16 * k + t)))) rfc_init [0..<(length p + 15) div 16] of
          (a, b, c, d) \<Rightarrow> [sint a, sint b, sint c, sint d])"
proof -
  define p where "p = md5_pad x len"
  have init: "(1732584193, - 271733879, - 1732584194, 271733878) = sints4 rfc_init"
    by (simp add: sints4_def rfc_init_def)
  have "foldl (md5_block p) (sints4 h) (List.map (\<lambda>k. 16 * k) ks) =
      sints4 (foldl (\<lambda>h k. rfc_block h (\<lambda>t. wi (elem_at p (16 * k + t)))) h ks)" for h ks
    by (induction ks arbitrary: h) (simp_all add: md5_block_rfc)
  then show ?thesis unfolding core_md5_def p_def [symmetric] Let_def init
    by (simp add: sints4_def split: prod.splits)
qed

end
