(* ===== verification/Sun_Hash_Message.thy ===== *)
theory Sun_Hash_Message
  imports Sun_Hash_Correct
begin

text \<open>
  SHA-1 and MD5 of a text. The standards pad a text of bytes; the code packs it into words with shifts, appends one bit and the
  length by index. Up to \<open>2 ^ 28 - 9\<close> characters all indices and the length are non-negative 32-bit integers and the padded arrays are those of
  the standards.
\<close>
unbundle bit_operations_syntax

section \<open>Words of bytes\<close>

text \<open>Four bytes as a word; \<open>sh r\<close> is the position of byte \<open>r\<close>.\<close>

definition word_of :: "(nat \<Rightarrow> nat) \<Rightarrow> (nat \<Rightarrow> int) \<Rightarrow> nat \<Rightarrow> 32 word" where
  "word_of sh B i =
    push_bit (sh 0) (wi (B (4 * i))) OR push_bit (sh 1) (wi (B (4 * i + 1))) OR push_bit (sh 2) (wi (B (4 * i + 2))) OR
    push_bit (sh 3) (wi (B (4 * i + 3)))"

definition big_endian :: "nat \<Rightarrow> nat" where
  "big_endian r = 24 - 8 * r"

definition little_endian :: "nat \<Rightarrow> nat" where
  "little_endian r = 8 * r"

lemma word_of_cong:
  "B (4 * i) = B' (4 * i) \<Longrightarrow> B (4 * i + 1) = B' (4 * i + 1) \<Longrightarrow> B (4 * i + 2) = B' (4 * i + 2) \<Longrightarrow> B (4 * i + 3) = B' (4 * i + 3) \<Longrightarrow>
    word_of sh B i = word_of sh B' i"
  by (simp add: word_of_def)

lemma word_of_add_byte:
  assumes "B k = 0"
  shows "word_of sh (B(k := v)) i = (if i = k div 4 then word_of sh B i OR push_bit (sh (k mod 4)) (wi v) else word_of sh B i)"
proof (cases "i = k div 4")
  case False
  then have "4 * i \<noteq> k" "4 * i + 1 \<noteq> k" "4 * i + 2 \<noteq> k" "4 * i + 3 \<noteq> k" by presburger+
  then show ?thesis using False by (simp add: word_of_def)
next
  case True
  define r where "r = k mod 4"
  have k: "k = 4 * i + r" using True by (simp add: r_def)
  have "r < 4" by (simp add: r_def)
  then consider "r = 0" | "r = 1" | "r = 2" | "r = 3" by linarith
  then have "word_of sh (B(k := v)) i = word_of sh B i OR push_bit (sh r) (wi v)"
    using assms unfolding k by cases (simp_all add: word_of_def ac_simps)
  then show ?thesis using True by (simp add: r_def)
qed

lemma bytes_of_word:
  fixes x :: int
  shows "push_bit 24 (wi (x div 2 ^ 24 mod 256)) OR push_bit 16 (wi (x div 2 ^ 16 mod 256)) OR push_bit 8 (wi (x div 2 ^ 8 mod 256)) OR wi (x mod 256) = wi x"
proof -
  have t: "x div 2 ^ n mod 256 = take_bit 8 (drop_bit n x)" for n by (simp add: take_bit_eq_mod drop_bit_eq_div)
  have t0: "x mod 256 = take_bit 8 x" by (simp add: take_bit_eq_mod)
  show ?thesis
  proof (rule bit_word_eqI)
    fix n assume "n < LENGTH(32)"
    then have n: "n < 32" by simp
    consider "n < 8" | "8 \<le> n \<and> n < 16" | "16 \<le> n \<and> n < 24" | "24 \<le> n" by linarith
    then show "bit (push_bit 24 (wi (x div 2 ^ 24 mod 256)) OR push_bit 16 (wi (x div 2 ^ 16 mod 256)) OR push_bit 8 (wi (x div 2 ^ 8 mod 256)) OR wi (x mod 256)) n \<longleftrightarrow> bit (wi x) n"
      unfolding t t0 using n by cases (auto simp: bit_simps)
  qed
qed

section \<open>Arrays\<close>

lemma length_set_at: "length (set_at x i v) = max (length x) (i + 1)"
  by (auto simp: set_at_def)

lemma nat_index: "0 \<le> q \<Longrightarrow> elem_idx x q = elem_at x (nat q)" "0 \<le> q \<Longrightarrow> set_idx x q v = set_at x (nat q) v"
  by (simp_all add: elem_idx_def set_idx_def)

lemma set_idx_int: "set_idx x (int k) v = set_at x k v"
  by (simp add: set_idx_def)

text \<open>Adding the byte with the number \<open>k\<close> to the array, where the shift by \<open>n\<close> is the position of the byte.\<close>

lemma add_byte:
  fixes v :: int
  assumes "k < 2 ^ 28" "\<And>i. wi (elem_at x i) = word_of sh B i" "B k = 0" "nat (n mod 32) = sh (k mod 4)"
  defines "q \<equiv> js_shr (int (k * chrsz)) 5"
  defines "y \<equiv> set_idx x q (js_or (elem_idx x q) (js_shl v n))"
  shows "wi (elem_at y i) = word_of sh (B(k := v)) i" "length y = max (length x) (k div 4 + 1)"
proof -
  have "js_shr (int (k * chrsz)) 5 = int (k * chrsz) div 2 ^ nat 5"
    using assms(1) by (intro js_shr_div) (simp_all add: is_int32_def chrsz_def)
  also have "\<dots> = int (k div 4)" by (simp add: chrsz_def zdiv_int)
  finally have q: "q = int (k div 4)" by (simp add: q_def)
  have y: "y = set_at x (k div 4) (js_or (elem_at x (k div 4)) (js_shl v n))" by (simp add: y_def q nat_index)
  show "length y = max (length x) (k div 4 + 1)" by (simp add: y length_set_at)
  show "wi (elem_at y i) = word_of sh (B(k := v)) i"
    using assms(2) by (simp add: y elem_set_any js_word_ops word_of_add_byte [of B k, OF assms(3)] assms(4))
qed

text \<open>The bytes of a text, with the byte that ends it.\<close>

definition text_byte :: "codes \<Rightarrow> nat \<Rightarrow> int" where
  "text_byte s j = (if j < length s then s ! j mod 256 else if j = length s then 0x80 else 0)"

lemma char_mask_255: "js_and c char_mask = c mod 256"
  using js_and_mask [of 8 c] by (simp add: char_mask_def chrsz_def js_shl_def toInt32_id push_bit_eq_mult)

definition byte_step :: "codes \<Rightarrow> (nat \<Rightarrow> int) \<Rightarrow> int list \<Rightarrow> nat \<Rightarrow> int list" where
  "byte_step s n bin k =
    set_idx bin (js_shr (int (k * chrsz)) 5)
      (js_or (elem_idx bin (js_shr (int (k * chrsz)) 5)) (js_shl (js_and (char_code s k) char_mask) (n k)))"

lemma text_loop:
  assumes "length s < 2 ^ 28" "\<And>k. nat (n k mod 32) = sh (k mod 4)" "k \<le> length s"
  defines "a \<equiv> foldl (byte_step s n) [] [0..<k]"
  shows "(\<forall>i. wi (elem_at a i) = word_of sh (\<lambda>j. if j < k then s ! j mod 256 else 0) i) \<and> length a = (k + 3) div 4"
  using assms(3) unfolding a_def
proof (induction k)
  case 0
  show ?case by (simp add: elem_at_def word_of_def)
next
  case (Suc k)
  define B where "B = (\<lambda>j. if j < k then s ! j mod 256 else 0)"
  define x where "x = foldl (byte_step s n) [] [0..<k]"
  have x: "wi (elem_at x i) = word_of sh B i" "length x = (k + 3) div 4" for i using Suc by (simp_all add: x_def B_def)
  have k: "k < 2 ^ 28" "B k = 0" using Suc.prems assms(1) by (simp_all add: B_def)
  have "B(k := js_and (char_code s k) char_mask) = (\<lambda>j. if j < Suc k then s ! j mod 256 else 0)"
    using Suc.prems by (auto simp: B_def char_mask_255 char_code_def)
  moreover have "max ((k + 3) div 4) (k div 4 + 1) = (Suc k + 3) div 4" by presburger
  moreover have st: "foldl (byte_step s n) [] [0..<Suc k] = set_idx x (js_shr (int (k * chrsz)) 5)
      (js_or (elem_idx x (js_shr (int (k * chrsz)) 5)) (js_shl (js_and (char_code s k) char_mask) (n k)))"
    by (simp add: x_def byte_step_def)
  ultimately show ?case
    unfolding st using add_byte [OF k(1) x(1) k(2) assms(2) [of k], of "js_and (char_code s k) char_mask"] by (simp only: x(2)) simp
qed

text \<open>The array of a text, with the byte after it.\<close>

lemma text_ended:
  assumes "length s < 2 ^ 28" "\<And>k. nat (n k mod 32) = sh (k mod 4)"
  defines "x \<equiv> foldl (byte_step s n) [] [0..<length s]"
  defines "y \<equiv> (let p = js_shr (int (length s * chrsz)) 5 in set_idx x p (js_or (elem_idx x p) (js_shl 0x80 (n (length s)))))"
  shows "wi (elem_at y i) = word_of sh (text_byte s) i" "length y = length s div 4 + 1"
proof -
  define B where "B = (\<lambda>j. if j < length s then s ! j mod 256 else 0)"
  have x: "wi (elem_at x i) = word_of sh B i" "length x = (length s + 3) div 4" for i
    using text_loop [where n = n and sh = sh, OF assms(1,2) order_refl] by (simp_all add: x_def B_def)
  have "B (length s) = 0" by (simp add: B_def)
  note a = add_byte [OF assms(1) x(1) this assms(2) [of "length s"], where v = "0x80"]
  have "B(length s := 0x80) = text_byte s" by (auto simp: B_def text_byte_def)
  moreover have "max ((length s + 3) div 4) (length s div 4 + 1) = length s div 4 + 1" by presburger
  ultimately show "wi (elem_at y i) = word_of sh (text_byte s) i" "length y = length s div 4 + 1"
    using a x(2) by (simp_all add: y_def Let_def)
qed

section \<open>Padding\<close>

text \<open>The standards append the bit 1, which is the byte 0x80, zeros up to 56 modulo 64 bytes, and eight bytes \<open>l\<close> of length.\<close>

definition padded :: "codes \<Rightarrow> int list \<Rightarrow> int list" where
  "padded s l = List.map (\<lambda>c. c mod 256) s @ 0x80 # replicate ((119 - length s mod 64) mod 64) 0 @ l"

text \<open>The blocks of a text.\<close>

definition blocks :: "codes \<Rightarrow> nat" where
  "blocks s = (length s + 8) div 64 + 1"

lemma padded_length: "length s + 1 + (119 - length s mod 64) mod 64 + 8 = 64 * blocks s"
proof -
  define q r where "q = length s div 64" and "r = length s mod 64"
  have r: "length s = 64 * q + r" "r < 64" by (simp_all add: q_def r_def)
  show ?thesis
  proof (cases "r < 56")
    case True
    then have "(119 - r) mod 64 = 55 - r" using mod_add_self1 [of 64 "55 - r"] by simp
    moreover have "(length s + 8) div 64 = q" using r True by simp
    ultimately show ?thesis using r True by (simp add: blocks_def flip: r_def)
  next
    case False
    moreover have "(length s + 8) div 64 = q + 1" using r False by simp
    ultimately show ?thesis using r by (simp add: blocks_def flip: r_def)
  qed
qed

lemma padded_byte: "elem_at (padded s l) j = (if j < 64 * blocks s - 8 then text_byte s j else elem_at l (j - (64 * blocks s - 8)))"
proof -
  define z where "z = (119 - length s mod 64) mod 64"
  have e: "64 * blocks s - 8 = length s + 1 + z" using padded_length [of s] by (simp add: z_def)
  show ?thesis
    unfolding padded_def z_def [symmetric] e by (auto simp: elem_at_def text_byte_def nth_append nth_Cons')
qed

lemma padded_word:
  "word_of sh (elem_at (padded s l)) i =
    (if i < 16 * blocks s - 2 then word_of sh (text_byte s) i else word_of sh (elem_at l) (i - (16 * blocks s - 2)))"
proof (cases "i < 16 * blocks s - 2")
  case True
  then have "4 * i + 3 < 64 * blocks s - 8" by linarith
  then show ?thesis using True by (simp add: word_of_def padded_byte)
next
  case False
  then obtain d where d: "i = 16 * blocks s - 2 + d" using le_Suc_ex not_less by blast
  have "1 \<le> blocks s" by (simp add: blocks_def)
  then have "4 * i = 64 * blocks s - 8 + 4 * d" using d by simp
  then have "elem_at (padded s l) (4 * i + r) = elem_at l (4 * d + r)" for r by (simp add: padded_byte)
  from this [of 0] this [of 1] this [of 2] this [of 3] have "word_of sh (elem_at (padded s l)) i = word_of sh (elem_at l) d"
    by (simp only: word_of_def add_0_right)
  then show ?thesis using d by simp
qed

lemma text_zero: "16 * blocks s - 2 \<le> i \<Longrightarrow> word_of sh (text_byte s) i = 0"
proof -
  assume i: "16 * blocks s - 2 \<le> i"
  have "length s < 64 * blocks s - 8" using padded_length [of s] by linarith
  then have "length s < 4 * i" using i by linarith
  then show ?thesis by (simp add: word_of_def text_byte_def)
qed

text \<open>The last two words of the padded message are the length.\<close>

lemma padded_array:
  assumes "\<And>i. wi (elem_at y i) = word_of sh (text_byte s) i" "length y = length s div 4 + 1"
    and "k = 0 \<or> k = 1" "word_of sh (elem_at l) k = wi v" "word_of sh (elem_at l) (1 - k) = 0" "length l = 8"
  defines "p \<equiv> set_at y (16 * blocks s - 2 + k) v"
  shows "wi (elem_at p i) = word_of sh (elem_at (padded s l)) i" "(length p + 15) div 16 = blocks s"
proof -
  have b: "1 \<le> blocks s" by (simp add: blocks_def)
  have len: "length s < 64 * blocks s - 8" using padded_length [of s] by linarith
  then have "length s div 4 + 1 \<le> 16 * blocks s - 2" by linarith
  then have "length p = 16 * blocks s - 2 + k + 1" using assms(2) by (simp add: p_def length_set_at)
  then show "(length p + 15) div 16 = blocks s" using assms(3) b by auto
  have z: "word_of sh (elem_at l) (Suc (Suc n)) = 0" for n using assms(6) by (simp add: word_of_def elem_at_def)
  show "wi (elem_at p i) = word_of sh (elem_at (padded s l)) i"
  proof (cases "i < 16 * blocks s - 2")
    case True
    moreover have "i \<noteq> 16 * blocks s - 2 + k" using True by linarith
    ultimately show ?thesis using assms(1) by (simp only: p_def elem_set_any padded_word if_True if_False)
  next
    case False
    then obtain d where d: "i = 16 * blocks s - 2 + d" using le_Suc_ex not_less by blast
    consider "d = 0" | "d = 1" | n where "d = Suc (Suc n)" by (cases d; cases "d - 1") auto
    then show ?thesis
      using assms(1,3-5) z text_zero [of s i sh] by cases (auto simp: p_def elem_set_any padded_word d)
  qed
qed

section \<open>SHA-1 and MD5 of a text\<close>

text \<open>The number of bits in eight bytes, the most significant byte first or last.\<close>

definition length_big_endian :: "nat \<Rightarrow> int list" where
  "length_big_endian n = List.map (\<lambda>r. int (8 * n) div 256 ^ (7 - r) mod 256) [0..<8]"

definition length_little_endian :: "nat \<Rightarrow> int list" where
  "length_little_endian n = List.map (\<lambda>r. int (8 * n) div 256 ^ r mod 256) [0..<8]"

lemma length_words:
  assumes "n < 2 ^ 28"
  shows "word_of big_endian (elem_at (length_big_endian n)) 1 = wi (int (8 * n))"
    "word_of big_endian (elem_at (length_big_endian n)) (1 - 1) = 0"
    "word_of little_endian (elem_at (length_little_endian n)) 0 = wi (int (8 * n))"
    "word_of little_endian (elem_at (length_little_endian n)) (1 - 0) = 0"
proof -
  define x where "x = int (8 * n)"
  have x: "0 \<le> x" "x < 2 ^ 32" using assms by (simp_all add: x_def)
  have z: "x div 4294967296 = 0" "x div 1099511627776 = 0" "x div 281474976710656 = 0" "x div 72057594037927936 = 0"
    using x by (simp_all add: div_pos_pos_trivial)
  have p: "(256 :: int) ^ 1 = 2 ^ 8" "(256 :: int) ^ 2 = 2 ^ 16" "(256 :: int) ^ 3 = 2 ^ 24" by simp_all
  note b = bytes_of_word [of x]
  show "word_of big_endian (elem_at (length_big_endian n)) 1 = wi (int (8 * n))"
    "word_of little_endian (elem_at (length_little_endian n)) 0 = wi (int (8 * n))"
    unfolding length_big_endian_def length_little_endian_def x_def [symmetric]
    using b by (simp_all add: word_of_def big_endian_def little_endian_def elem_at_def ac_simps)
  show "word_of big_endian (elem_at (length_big_endian n)) (1 - 1) = 0" "word_of little_endian (elem_at (length_little_endian n)) (1 - 0) = 0"
    unfolding length_big_endian_def length_little_endian_def x_def [symmetric]
    using z by (simp_all add: word_of_def big_endian_def little_endian_def elem_at_def)
qed

text \<open>The positions of the code.\<close>

lemma positions:
  "nat ((32 - int chrsz - int (k * chrsz) mod 32) mod 32) = big_endian (k mod 4)"
  "nat (int (k * chrsz) mod 32 mod 32) = little_endian (k mod 4)"
proof -
  have m: "int (k * chrsz) mod 32 = 8 * int (k mod 4)" by (simp add: chrsz_def zmod_int mult_mod_right mult.commute)
  have r: "k mod 4 < 4" by simp
  then show "nat ((32 - int chrsz - int (k * chrsz) mod 32) mod 32) = big_endian (k mod 4)"
    unfolding m big_endian_def by (simp add: chrsz_def nat_diff_distrib')
  show "nat (int (k * chrsz) mod 32 mod 32) = little_endian (k mod 4)"
    unfolding m little_endian_def using r by simp
qed

lemma length_position:
  assumes "length s < 2 ^ 28 - 8"
  shows "js_shl (js_shr (int (length s * chrsz) + 64) 9) 4 = int (16 * blocks s - 16)"
    "js_shl (js_ushr (int (length s * chrsz) + 64) 9) 4 = int (16 * blocks s - 16)"
proof -
  define x where "x = int (length s * chrsz) + 64"
  have x: "0 \<le> x" "x < 2 ^ 31" using assms by (simp_all add: x_def chrsz_def)
  have d: "x div 2 ^ 9 = int ((length s + 8) div 64)"
  proof -
    have "x = 8 * int (length s + 8)" by (simp add: x_def chrsz_def)
    then have "x div 2 ^ 9 = int (length s + 8) div 64" by simp
    then show ?thesis by (simp only: zdiv_int of_nat_numeral)
  qed
  have s: "js_shr x 9 = int ((length s + 8) div 64)" "js_ushr x 9 = int ((length s + 8) div 64)"
    using x d by (simp_all add: js_shr_div js_ushr_div is_int32_def)
  have b: "int ((length s + 8) div 64) < 2 ^ 22" using assms by simp
  have "js_shl (int ((length s + 8) div 64)) 4 = int ((length s + 8) div 64) * 2 ^ nat 4"
    using b by (intro js_shl_mult) (simp_all add: is_int32_def)
  then show "js_shl (js_shr (int (length s * chrsz) + 64) 9) 4 = int (16 * blocks s - 16)"
    "js_shl (js_ushr (int (length s * chrsz) + 64) 9) 4 = int (16 * blocks s - 16)"
    unfolding x_def [symmetric] s by (simp_all add: blocks_def)
qed

lemma sha1_message:
  assumes "length s < 2 ^ 28 - 8"
  defines "p \<equiv> sha1_pad (str2binb s) (length s * chrsz)"
  shows "wi (elem_at p i) = word_of big_endian (elem_at (padded s (length_big_endian (length s)))) i" "(length p + 15) div 16 = blocks s"
proof -
  define n where "n = (\<lambda>k. 32 - int chrsz - int (k * chrsz) mod 32)"
  have l: "length s < 2 ^ 28" using assms(1) by simp
  define x where "x = foldl (byte_step s n) [] [0..<length s]"
  define y where "y = (let q = js_shr (int (length s * chrsz)) 5 in set_idx x q (js_or (elem_idx x q) (js_shl 0x80 (n (length s)))))"
  have x: "str2binb s = x" by (simp add: str2binb_def x_def byte_step_def [abs_def] n_def Let_def)
  have pos: "nat (n k mod 32) = big_endian (k mod 4)" for k using positions(1) [of k] by (simp add: n_def)
  note t = text_ended [where n = n and sh = big_endian, OF l pos, folded x_def, folded y_def]
  have k: "int (16 * blocks s - 16) + 15 = int (16 * blocks s - 2 + 1)" by (simp add: blocks_def)
  have "p = set_at y (16 * blocks s - 2 + 1) (int (8 * length s))"
    unfolding p_def sha1_pad_def Let_def length_position [OF assms(1)] k x set_idx_int
    by (simp add: y_def n_def chrsz_def Let_def mult.commute)
  moreover have "length (length_big_endian (length s)) = 8" by (simp add: length_big_endian_def)
  ultimately show "wi (elem_at p i) = word_of big_endian (elem_at (padded s (length_big_endian (length s)))) i" "(length p + 15) div 16 = blocks s"
    using padded_array [OF t, of 1 "length_big_endian (length s)"] length_words [OF l] by simp_all
qed

lemma md5_message:
  assumes "length s < 2 ^ 28 - 8"
  defines "p \<equiv> md5_pad (str2binl s) (length s * chrsz)"
  shows "wi (elem_at p i) = word_of little_endian (elem_at (padded s (length_little_endian (length s)))) i" "(length p + 15) div 16 = blocks s"
proof -
  define n where "n = (\<lambda>k. int (k * chrsz) mod 32)"
  have l: "length s < 2 ^ 28" using assms(1) by simp
  define x where "x = foldl (byte_step s n) [] [0..<length s]"
  define y where "y = (let q = js_shr (int (length s * chrsz)) 5 in set_idx x q (js_or (elem_idx x q) (js_shl 0x80 (n (length s)))))"
  have x: "str2binl s = x" by (simp add: str2binl_def x_def byte_step_def [abs_def] n_def Let_def)
  have pos: "nat (n k mod 32) = little_endian (k mod 4)" for k using positions(2) [of k] by (simp add: n_def)
  note t = text_ended [where n = n and sh = little_endian, OF l pos, folded x_def, folded y_def]
  have k: "int (16 * blocks s - 16) + 14 = int (16 * blocks s - 2 + 0)" by (simp add: blocks_def)
  have "p = set_at y (16 * blocks s - 2 + 0) (int (8 * length s))"
    unfolding p_def md5_pad_def Let_def length_position [OF assms(1)] k x set_idx_int
    by (simp add: y_def n_def chrsz_def Let_def mult.commute)
  moreover have "length (length_little_endian (length s)) = 8" by (simp add: length_little_endian_def)
  ultimately show "wi (elem_at p i) = word_of little_endian (elem_at (padded s (length_little_endian (length s)))) i" "(length p + 15) div 16 = blocks s"
    using padded_array [OF t, of 0 "length_little_endian (length s)"] length_words [OF l] by simp_all
qed

text \<open>The two standards on a text of bytes.\<close>

definition fips_sha1 :: "codes \<Rightarrow> sha1_words" where
  "fips_sha1 s =
    (let M = word_of big_endian (elem_at (padded s (length_big_endian (length s))))
     in foldl (\<lambda>h k. fips_block h (\<lambda>t. M (16 * k + t))) fips_init [0..<blocks s])"

definition rfc_md5 :: "codes \<Rightarrow> md5_words" where
  "rfc_md5 s =
    (let M = word_of little_endian (elem_at (padded s (length_little_endian (length s))))
     in foldl (\<lambda>h k. rfc_block h (\<lambda>t. M (16 * k + t))) rfc_init [0..<blocks s])"

text \<open>
  C28: For a text of fewer than \<open>2 ^ 28 - 8\<close> characters \<open>core_sha1\<close> on its packed array returns the five words, read as signed
  integers, of SHA-1 as FIPS 180-1 has it on the bytes of the text: padding, blocks of sixteen big-endian words, schedule and compression.
\<close>

theorem core_sha1_fips:
  assumes "length s < 2 ^ 28 - 8"
  shows "core_sha1 (str2binb s) (length s * chrsz) = (case fips_sha1 s of (a, b, c, d, e) \<Rightarrow> [sint a, sint b, sint c, sint d, sint e])"
  unfolding core_sha1_blocks Let_def sha1_message [OF assms] fips_sha1_def by (rule refl)

text \<open>
  C29: For a text of fewer than \<open>2 ^ 28 - 8\<close> characters \<open>core_md5\<close>, with its 64 written-out steps, returns on the packed array of the
  text the four words of MD5 as RFC 1321 has it on the bytes: padding, blocks of little-endian words, step function and table of sines.
\<close>

theorem core_md5_rfc:
  assumes "length s < 2 ^ 28 - 8"
  shows "core_md5 (str2binl s) (length s * chrsz) = (case rfc_md5 s of (a, b, c, d) \<Rightarrow> [sint a, sint b, sint c, sint d])"
  unfolding core_md5_blocks Let_def md5_message [OF assms] rfc_md5_def by (rule refl)

lemma core_sha1_fips_witness:
  "core_sha1 (str2binb [97, 98, 99]) (3 * chrsz) = (case fips_sha1 [97, 98, 99] of (a, b, c, d, e) \<Rightarrow> [sint a, sint b, sint c, sint d, sint e])"
  using core_sha1_fips [of "[97, 98, 99]"] by (simp add: chrsz_def)

lemma core_md5_rfc_witness:
  "core_md5 (str2binl [97, 98, 99]) (3 * chrsz) = (case rfc_md5 [97, 98, 99] of (a, b, c, d) \<Rightarrow> [sint a, sint b, sint c, sint d])"
  using core_md5_rfc [of "[97, 98, 99]"] by (simp add: chrsz_def)

end
