(* ===== verification/Base64_Correct.thy ===== *)
theory Base64_Correct
  imports Sun_Hash
begin

unbundle bit_operations_syntax

text \<open>
  The Base64 coder of \<open>sunspider/string-base64.js\<close>: what one character does to the decoder's state, what one group of
  three bytes does, and the round trip of \<open>toBase64\<close> and \<open>base64ToString\<close> on every array of bytes.
\<close>

section \<open>Base64\<close>

definition decode_char :: "char \<Rightarrow> int" where
  "decode_char ch = toBinaryTable ! nat (js_and (of_char ch) 0x7f)"

lemma table_ok:
  "list_all (\<lambda>v. decode_char (toBase64Table ! v) = int v \<and> toBase64Table ! v \<noteq> base64Pad) [0..<64]"
  by code_simp

lemma decode_table:
  assumes "0 \<le> v" "v < 64"
  shows "decode_char (toBase64Table ! nat v) = v" "toBase64Table ! nat v \<noteq> base64Pad" "table_at v = [toBase64Table ! nat v]"
proof -
  have "list_all (\<lambda>i. decode_char (toBase64Table ! nat v) = int (nat v) \<and> toBase64Table ! nat v \<noteq> base64Pad) [nat v]"
    using table_ok assms by (auto simp: list_all_iff simp del: int_nat_eq)
  then show "decode_char (toBase64Table ! nat v) = v" "toBase64Table ! nat v \<noteq> base64Pad" using assms(1) by simp_all
  show "table_at v = [toBase64Table ! nat v]" using assms by (simp add: table_at_def toBase64Table_def)
qed

lemma decode_pad: "decode_char base64Pad = 0"
  by code_simp

lemma or_shl6:
  assumes "0 \<le> L" "L < 2 ^ 20" "0 \<le> v" "v < 64"
  shows "js_or (js_shl L 6) v = L * 64 + v"
proof -
  have i: "is_int32 (L * 2 ^ nat 6)" "is_int32 L" "is_int32 v" using assms by (simp_all add: is_int32_def)
  have "js_shl L 6 = L * 2 ^ nat 6" using js_shl_mult [OF i(1,2)] by simp
  then have "js_or (js_shl L 6) v = push_bit 6 L OR v"
    using i by (simp add: js_or_def push_bit_eq_mult)
  also have "\<dots> = push_bit 6 L + v"
  proof (rule disjunctive_add_eq_or [symmetric])
    have v: "take_bit 6 v = v" using assms by (simp add: take_bit_int_eq_self)
    have "push_bit 6 L AND take_bit 6 v = 0"
      by (rule bit_eqI) (simp add: bit_simps)
    then show "push_bit 6 L AND v = 0" by (simp only: v)
  qed
  finally show ?thesis by (simp add: push_bit_eq_mult)
qed

lemma and_byte: "js_and x 0xff = x mod 256"
  using js_and_mask [of 8 x] by simp

lemma shr_small: "0 \<le> x \<Longrightarrow> x < 2 ^ 30 \<Longrightarrow> js_shr x 0 = x" "0 \<le> x \<Longrightarrow> x < 2 ^ 30 \<Longrightarrow> js_shr x 2 = x div 4"
  "0 \<le> x \<Longrightarrow> x < 2 ^ 30 \<Longrightarrow> js_shr x 4 = x div 16"  "0 \<le> x \<Longrightarrow> x < 2 ^ 30 \<Longrightarrow> js_shr x 6 = x div 64"
  by (simp_all add: js_shr_div is_int32_def)

lemma and_small: "js_and x (js_shl 1 0 - 1) = 0" "js_and x (js_shl 1 2 - 1) = x mod 4" "js_and x (js_shl 1 4 - 1) = x mod 16"
  using js_and_mask [of 0 x] js_and_mask [of 2 x] js_and_mask [of 4 x] by (simp_all add: js_shl_def toInt32_def)

lemma fromCharCode_byte: "fromCharCode (x mod 256) = x mod 256"
proof -
  have "0 \<le> x mod 256" "x mod 256 < 256" by simp_all
  then show ?thesis by (simp add: fromCharCode_def)
qed

text \<open>One character, for each of the four numbers of bits left over.\<close>

definition emit :: "char \<Rightarrow> codes \<Rightarrow> int \<Rightarrow> codes" where
  "emit ch res x = (if ch \<noteq> base64Pad then res @ [x] else res)"

lemma base64_step:
  assumes "decode_char ch = v" "v \<noteq> - 1" and o: "js_or (js_shl L 6) v = L'"
  shows "base64_loop (ch # data) res L B =
    (if B + 6 \<ge> 8 then base64_loop data (emit ch res (fromCharCode (js_and (js_shr L' (B + 6 - 8)) 0xff)))
        (js_and L' (js_shl 1 (B + 6 - 8) - 1)) (B + 6 - 8)
     else base64_loop data res L' (B + 6))"
  using assms(2) unfolding base64_loop.simps(2) assms(1) [unfolded decode_char_def] Let_def emit_def o by simp

lemma base64_char:
  assumes v: "decode_char ch = v" "0 \<le> v" "v < 64" and L: "0 \<le> L" "L < 2 ^ 20"
  shows "base64_loop (ch # data) res L 0 = base64_loop data res (L * 64 + v) 6"
    "base64_loop (ch # data) res L 6 = base64_loop data (emit ch res ((L * 64 + v) div 16 mod 256)) ((L * 64 + v) mod 16) 4"
    "base64_loop (ch # data) res L 4 = base64_loop data (emit ch res ((L * 64 + v) div 4 mod 256)) ((L * 64 + v) mod 4) 2"
    "base64_loop (ch # data) res L 2 = base64_loop data (emit ch res ((L * 64 + v) mod 256)) 0 0"
proof -
  have b: "0 \<le> L * 64 + v" "L * 64 + v < 2 ^ 30" using L v by simp_all
  have n: "v \<noteq> - 1" using v(2) by simp
  note step = base64_step [OF v(1) n or_shl6 [OF L v(2,3)]]
  have c: "(0::int) + 6 = 6" "(6::int) + 6 = 12" "(4::int) + 6 = 10" "(2::int) + 6 = 8" "((8::int) \<le> 6) = False" "((8::int) \<le> 12) = True"
    "((8::int) \<le> 10) = True" "((8::int) \<le> 8) = True" "(12::int) - 8 = 4" "(10::int) - 8 = 2" "(8::int) - 8 = 0" by simp_all
  show "base64_loop (ch # data) res L 0 = base64_loop data res (L * 64 + v) 6"
    "base64_loop (ch # data) res L 6 = base64_loop data (emit ch res ((L * 64 + v) div 16 mod 256)) ((L * 64 + v) mod 16) 4"
    "base64_loop (ch # data) res L 4 = base64_loop data (emit ch res ((L * 64 + v) div 4 mod 256)) ((L * 64 + v) mod 4) 2"
    "base64_loop (ch # data) res L 2 = base64_loop data (emit ch res ((L * 64 + v) mod 256)) 0 0"
    by (simp_all only: step c if_False if_True and_byte and_small shr_small [OF b] fromCharCode_byte)
qed

lemma base64_group:
  assumes v: "0 \<le> v1" "v1 < 64" "0 \<le> v2" "v2 < 64" "0 \<le> v3" "v3 < 64" "0 \<le> v4" "v4 < 64"
  shows "base64_loop (table_at v1 @ table_at v2 @ table_at v3 @ table_at v4 @ data) res 0 0 =
      base64_loop data (res @ [v1 * 4 + v2 div 16, v2 mod 16 * 16 + v3 div 4, v3 mod 4 * 64 + v4]) 0 0"
    "base64_loop (table_at v1 @ table_at v2 @ table_at v3 @ [base64Pad]) res 0 0 =
      (res @ [v1 * 4 + v2 div 16, v2 mod 16 * 16 + v3 div 4], 0)"
    "base64_loop (table_at v1 @ table_at v2 @ [base64Pad, base64Pad]) res 0 0 =
      (res @ [v1 * 4 + v2 div 16], 0)"
proof -
  have q: "(v1 * 64 + v2) div 16 = v1 * 4 + v2 div 16" "(v2 mod 16 * 64 + v3) div 4 = v2 mod 16 * 16 + v3 div 4" by simp_all
  have e2: "(v1 * 64 + v2) mod 16 = v2 mod 16" "(v2 mod 16 * 64 + v3) mod 4 = v3 mod 4"
    using mod_mult_self1 [of v2 "v1 * 4" 16] mod_mult_self1 [of v3 "v2 mod 16 * 16" 4] by (simp_all add: ac_simps)
  have r: "0 \<le> v2 mod 16" "v2 mod 16 < 16" "0 \<le> v3 mod 4" "v3 mod 4 < 4" "0 \<le> v2 div 16" "v2 div 16 < 4" "0 \<le> v3 div 4" "v3 div 4 < 16"
    using v by simp_all
  have b1: "0 \<le> v1 * 4 + v2 div 16" "v1 * 4 + v2 div 16 < 256" using v r by linarith+
  have b2: "0 \<le> v2 mod 16 * 16 + v3 div 4" "v2 mod 16 * 16 + v3 div 4 < 256" using r by linarith+
  have b3: "0 \<le> v3 mod 4 * 64 + v4" "v3 mod 4 * 64 + v4 < 256" using v r by linarith+
  note e = q mod_pos_pos_trivial [OF b1] mod_pos_pos_trivial [OF b2] mod_pos_pos_trivial [OF b3] e2
  have s: "0 \<le> v2 mod 16" "v2 mod 16 < 2 ^ 20" "0 \<le> v3 mod 4" "v3 mod 4 < 2 ^ 20" "0 \<le> v1" "v1 < 2 ^ 20" "0 \<le> v1 * 64"
    "(0::int) \<le> 0" "(0::int) < 2 ^ 20" "(0::int) < 64"
    using v by (auto intro: order_less_trans [OF pos_mod_bound])
  note t1 = decode_table [OF v(1,2)] and t2 = decode_table [OF v(3,4)] and t3 = decode_table [OF v(5,6)] and t4 = decode_table [OF v(7,8)]
  note c1 = base64_char(1) [OF t1(1) v(1,2) s(8,9)] and c2 = base64_char(2) [OF t2(1) v(3,4) s(5,6)]
    and c3 = base64_char(3) [OF t3(1) v(5,6) s(1,2)] and c4 = base64_char(4) [OF t4(1) v(7,8) s(3,4)]
    and p3 = base64_char(3) [OF decode_pad s(8,10) s(1,2)] and p4 = base64_char(4) [OF decode_pad s(8,10) s(3,4)]
  have em: "emit base64Pad r x = r" "ch \<noteq> base64Pad \<Longrightarrow> emit ch r x = r @ [x]" for r x ch by (simp_all add: emit_def)
  have z: "(0::int) * 64 + v1 = v1" by simp
  show "base64_loop (table_at v1 @ table_at v2 @ table_at v3 @ table_at v4 @ data) res 0 0 =
      base64_loop data (res @ [v1 * 4 + v2 div 16, v2 mod 16 * 16 + v3 div 4, v3 mod 4 * 64 + v4]) 0 0"
    by (simp only: t1(3) t2(3) t3(3) t4(3) append_Cons append_Nil c1 c2 c3 c4 em t1(2) t2(2) t3(2) t4(2) e z append_assoc not_False_eq_True)
  show "base64_loop (table_at v1 @ table_at v2 @ table_at v3 @ [base64Pad]) res 0 0 =
      (res @ [v1 * 4 + v2 div 16, v2 mod 16 * 16 + v3 div 4], 0)"
    by (simp only: t1(3) t2(3) t3(3) append_Cons append_Nil c1 c2 c3 p4 em t1(2) t2(2) t3(2) e z append_assoc not_False_eq_True base64_loop.simps(1))
  have "(v2 mod 16 * 64 + 0) mod 4 = 0" using mod_mult_self1 [of 0 "v2 mod 16 * 16" 4] by (simp add: ac_simps)
  then show "base64_loop (table_at v1 @ table_at v2 @ [base64Pad, base64Pad]) res 0 0 = (res @ [v1 * 4 + v2 div 16], 0)"
    using base64_char(4) [OF decode_pad s(8,10) s(8,9)]
    by (simp only: t1(3) t2(3) append_Cons append_Nil c1 c2 p3 em t1(2) t2(2) e z append_assoc not_False_eq_True base64_loop.simps(1))
qed

lemma and_masks: "js_and x 0x03 = x mod 4" "js_and x 0x0f = x mod 16" "js_and x 0x3f = x mod 64"
  using js_and_mask [of 2 x] js_and_mask [of 4 x] js_and_mask [of 6 x] by simp_all

lemma shl_small: "0 \<le> x \<Longrightarrow> x < 2 ^ 20 \<Longrightarrow> js_shl x 4 = x * 16" "0 \<le> x \<Longrightarrow> x < 2 ^ 20 \<Longrightarrow> js_shl x 2 = x * 4"
  by (simp_all add: js_shl_mult is_int32_def)

lemma byte_digits:
  fixes a :: int
  assumes "0 \<le> a" "a < 256"
  shows "0 \<le> a div 4" "a div 4 < 64" "0 \<le> a mod 4" "a mod 4 < 4" "0 \<le> a div 16" "a div 16 < 16" "0 \<le> a mod 16" "a mod 16 < 16"
    "0 \<le> a div 64" "a div 64 < 4" "0 \<le> a mod 64" "a mod 64 < 64" "0 \<le> a mod 4 * 16" "a mod 4 * 16 < 64" "0 \<le> a mod 16 * 4" "a mod 16 * 4 < 64"
proof -
  have "0 \<le> a mod 4" "a mod 4 < 4" "0 \<le> a mod 16" "a mod 16 < 16" by simp_all
  then show "0 \<le> a mod 4 * 16" "a mod 4 * 16 < 64" "0 \<le> a mod 16 * 4" "a mod 16 * 4 < 64" by linarith+
qed (use assms in simp_all)

lemma byte_ops:
  assumes "0 \<le> a" "a < 256"
  shows "js_shr a 2 = a div 4" "js_shr a 4 = a div 16" "js_shr a 6 = a div 64"
    "js_shl (a mod 4) 4 = a mod 4 * 16" "js_shl (a mod 16) 2 = a mod 16 * 4"
proof -
  have "a < 2 ^ 30" using assms(2) by simp
  then show "js_shr a 2 = a div 4" "js_shr a 4 = a div 16" "js_shr a 6 = a div 64"
    by - (rule shr_small(2) [OF assms(1)], assumption, rule shr_small(3) [OF assms(1)], assumption, rule shr_small(4) [OF assms(1)], assumption)
  have "a mod 4 < 2 ^ 20" "a mod 16 < 2 ^ 20" using byte_digits(4,8) [OF assms] by simp_all
  then show "js_shl (a mod 4) 4 = a mod 4 * 16" "js_shl (a mod 16) 2 = a mod 16 * 4"
    by (simp_all only: shl_small(1) [OF byte_digits(3) [OF assms]] shl_small(2) [OF byte_digits(7) [OF assms]])
qed

lemma digits_join:
  fixes x y n :: int
  assumes "0 \<le> y" "y < n"
  shows "(x * n + y) div n = x" "(x * n + y) mod n = y"
  using assms by simp_all

lemma base64_loop_toBase64:
  "\<forall>x \<in> set data. 0 \<le> x \<and> x < 256 \<Longrightarrow> base64_loop (toBase64 data) res 0 0 = (res @ data, 0)"
proof (induction data arbitrary: res rule: toBase64.induct)
  case 1
  show ?case by simp
next
  case (2 a)
  then have a: "0 \<le> a" "a < 256" by auto
  note d = byte_digits [OF a]
  show ?case
    by (simp only: toBase64.simps and_masks byte_ops [OF a] base64_group(3) [OF d(1,2) d(13,14) d(1,2) d(1,2)]) simp
next
  case (3 a b)
  then have a: "0 \<le> a" "a < 256" and b: "0 \<le> b" "b < 256" by auto
  note d = byte_digits [OF a] and db = byte_digits [OF b]
  have v: "0 \<le> a mod 4 * 16 + b div 16" "a mod 4 * 16 + b div 16 < 64" using d(3,4) db(5,6) by linarith+
  show ?case
    by (simp only: toBase64.simps and_masks byte_ops [OF a] byte_ops [OF b] base64_group(2) [OF d(1,2) v db(15,16) d(1,2)]
      digits_join [OF db(5,6)]) simp
next
  case (4 a b c data)
  then have a: "0 \<le> a" "a < 256" and b: "0 \<le> b" "b < 256" and c: "0 \<le> c" "c < 256" by auto
  note d = byte_digits [OF a] and db = byte_digits [OF b] and dc = byte_digits [OF c]
  have v: "0 \<le> a mod 4 * 16 + b div 16" "a mod 4 * 16 + b div 16 < 64"
    "0 \<le> b mod 16 * 4 + c div 64" "b mod 16 * 4 + c div 64 < 64" using d(3,4) db(5,6,7,8) dc(9,10) by linarith+
  have IH: "base64_loop (toBase64 data) r 0 0 = (r @ data, 0)" for r by (rule "4.IH") (use "4.prems" in simp)
  show ?case
    by (simp only: toBase64.simps and_masks byte_ops [OF a] byte_ops [OF b] byte_ops [OF c] base64_group(1) [OF d(1,2) v dc(11,12)]
      digits_join [OF db(5,6)] digits_join [OF dc(9,10)] IH) simp
qed

text \<open>C30: decoding the Base64 text of an array of bytes (elements from 0 to 255, of any length, so every padding
  case) returns exactly that array: \<open>base64ToString(toBase64(data))\<close> is \<open>data\<close> and never the error
  \<open>Corrupted base64 string\<close>.\<close>

theorem base64_roundtrip:
  assumes "\<forall>x \<in> set data. 0 \<le> x \<and> x < 256"
  shows "base64ToString (toBase64 data) = Inr data"
  using base64_loop_toBase64 [OF assms, of "[]"] by (simp add: base64ToString_def)

lemma base64_roundtrip_witness:
  "base64ToString (toBase64 [77, 97, 110, 255]) = Inr [77, 97, 110, 255]"
  by (rule base64_roundtrip) simp

end
