(* ===== verification/Sun_Small.thy ===== *)
theory Sun_Small
  imports Sun_Hash
begin

unbundle bit_operations_syntax

text \<open>
  Six small programs of the SunSpider suite (\<open>metrics/jint/sunspider\<close>): the two counts of the ones in a byte, the two sieves,
  the recursive functions and the binary trees. A loop whose end depends on its arguments is a partial function into \<open>option\<close>.
\<close>

section \<open>Counting bits\<close>

partial_function (option) bits_loop :: "int \<Rightarrow> int \<Rightarrow> int \<Rightarrow> int option" where
  "bits_loop b m c =
    (if m < 0x100 then
       (let c = (if js_and b m \<noteq> 0 then c + 1 else c) in bits_loop b (js_shl m 1) c)
     else Some c)"

definition bitsinbyte :: "int \<Rightarrow> int option" where
  "bitsinbyte b = bits_loop b 1 0"

definition fast3bitlookup :: "int \<Rightarrow> int" where
  "fast3bitlookup b =
    (let bi3b = 0xE994; c = js_and 3 (js_shr bi3b (js_and (js_shl b 1) 14));
         c = c + js_and 3 (js_shr bi3b (js_and (js_shr b 2) 14));
         c = c + js_and 3 (js_shr bi3b (js_and (js_shr b 5) 6))
     in c)"

section \<open>The sieves\<close>

text \<open>An array of flags: an element that was never written is undefined, which a test reads as false.\<close>

type_synonym flags = "nat \<Rightarrow> bool"

partial_function (option) nsieve_mark :: "nat \<Rightarrow> nat \<Rightarrow> nat \<Rightarrow> flags \<Rightarrow> flags option" where
  "nsieve_mark m i k isPrime =
    (if k \<le> m then nsieve_mark m i (k + i) (isPrime(k := False)) else Some isPrime)"

fun nsieve_loop :: "nat \<Rightarrow> nat list \<Rightarrow> flags \<Rightarrow> nat \<Rightarrow> (nat \<times> flags) option" where
  "nsieve_loop m [] isPrime count = Some (count, isPrime)"
| "nsieve_loop m (i # is) isPrime count =
    (if isPrime i then
       (case nsieve_mark m i (i + i) isPrime of None \<Rightarrow> None
        | Some isPrime \<Rightarrow> nsieve_loop m is isPrime (count + 1))
     else nsieve_loop m is isPrime count)"

definition nsieve :: "nat \<Rightarrow> flags \<Rightarrow> (nat \<times> flags) option" where
  "nsieve m isPrime =
    (let isPrime = foldl (\<lambda>a i. a(i := True)) isPrime [2..<m + 1] in nsieve_loop m [2..<m + 1] isPrime 0)"

text \<open>The sieve on the bits of an array of words.\<close>

definition bit_at :: "int list \<Rightarrow> nat \<Rightarrow> bool" where
  "bit_at a i = (js_and (elem_at a (i div 32)) (js_shl 1 (int (i mod 32))) \<noteq> 0)"

partial_function (option) clear_loop :: "nat \<Rightarrow> nat \<Rightarrow> nat \<Rightarrow> int list \<Rightarrow> int list option" where
  "clear_loop m i j isPrime =
    (if j < m then
       clear_loop m i (j + i)
         (set_at isPrime (j div 32) (js_and (elem_at isPrime (j div 32)) (js_not (js_shl 1 (int (j mod 32))))))
     else Some isPrime)"

fun primes_loop :: "nat \<Rightarrow> nat list \<Rightarrow> int list \<Rightarrow> nat \<Rightarrow> (nat \<times> int list) option" where
  "primes_loop m [] isPrime count = Some (count, isPrime)"
| "primes_loop m (i # is) isPrime count =
    (if bit_at isPrime i then
       (case clear_loop m i (i + i) isPrime of None \<Rightarrow> None
        | Some isPrime \<Rightarrow> primes_loop m is isPrime (count + 1))
     else primes_loop m is isPrime count)"

text \<open>\<open>primes\<close> counts but returns nothing: the result here is the count and the array it has changed.\<close>

definition primes :: "int list \<Rightarrow> nat \<Rightarrow> (nat \<times> int list) option" where
  "primes isPrime n =
    (let m = nat (js_shl 10000 (int n)); size = nat (js_shr (int m + 31) 5);
         isPrime = foldl (\<lambda>a i. set_at a i 0xffffffff) isPrime [0..<size]
     in primes_loop m [2..<m] isPrime 0)"

text \<open>\<open>pad\<close> of the two scripts: one loop counts the blanks, the other tests the length.\<close>

definition pad_nsieve :: "int \<Rightarrow> int \<Rightarrow> string" where
  "pad_nsieve number width =
    (let s = show_int number; prefixWidth = width - int (length s)
     in if prefixWidth > 0 then foldl (\<lambda>s i. '' '' @ s) s [1..prefixWidth] else s)"

function pad_loop :: "string \<Rightarrow> int \<Rightarrow> string" where
  "pad_loop s width = (if int (length s) < width then pad_loop ('' '' @ s) width else s)"
  by auto
termination by (relation "measure (\<lambda>(s, width). nat (width - int (length s)))") auto

declare pad_loop.simps [simp del]

definition pad_bits :: "int \<Rightarrow> int \<Rightarrow> string" where
  "pad_bits n width = pad_loop (show_int n) width"

definition sieve_nsieve :: "(nat \<times> flags) option list" where
  "sieve_nsieve = List.map (\<lambda>i. nsieve (nat (js_shl 1 i * 10000)) (\<lambda>_. False)) [1..3]"

definition sieve_bits :: "(nat \<times> int list) option list" where
  "sieve_bits = List.map (\<lambda>i. primes (replicate (nat (js_shr (js_shl 10000 (int i) + 31) 5)) 0) i) [4..<5]"

section \<open>Recursion\<close>

partial_function (option) ack :: "int \<Rightarrow> int \<Rightarrow> int option" where
  "ack m n =
    (if m = 0 then Some (n + 1)
     else if n = 0 then ack (m - 1) 1
     else Option.bind (ack m (n - 1)) (\<lambda>k. ack (m - 1) k))"

function fib :: "int \<Rightarrow> int" where
  "fib n = (if n < 2 then 1 else fib (n - 2) + fib (n - 1))"
  by auto
termination by (relation "measure nat") auto

declare fib.simps [simp del]

partial_function (option) tak :: "int \<Rightarrow> int \<Rightarrow> int \<Rightarrow> int option" where
  "tak x y z =
    (if y \<ge> x then Some z
     else Option.bind (tak (x - 1) y z) (\<lambda>a. Option.bind (tak (y - 1) z x) (\<lambda>b.
       Option.bind (tak (z - 1) x y) (\<lambda>c. tak a b c))))"

section \<open>Binary trees\<close>

datatype TreeNode = TreeNode (node_left: "TreeNode option") (node_right: "TreeNode option") (node_item: int)

fun itemCheck :: "TreeNode \<Rightarrow> int res" where
  "itemCheck (TreeNode None r i) = ok i"
| "itemCheck (TreeNode (Some l) r i) =
    rbind (itemCheck l) (\<lambda>x. case r of None \<Rightarrow> throw TypeError | Some r \<Rightarrow> rbind (itemCheck r) (\<lambda>y. ok (i + x - y)))"

fun bottomUpTree :: "int \<Rightarrow> nat \<Rightarrow> TreeNode" where
  "bottomUpTree item 0 = TreeNode None None item"
| "bottomUpTree item (Suc depth) =
    TreeNode (Some (bottomUpTree (2 * item - 1) depth)) (Some (bottomUpTree (2 * item) depth)) item"

fun check_loop :: "nat \<Rightarrow> int list \<Rightarrow> int \<Rightarrow> int res" where
  "check_loop depth [] check = ok check"
| "check_loop depth (i # is) check =
    rbind (itemCheck (bottomUpTree i depth)) (\<lambda>x.
    rbind (itemCheck (bottomUpTree (- i) depth)) (\<lambda>y. check_loop depth is (check + x + y)))"

fun depth_loop :: "nat \<Rightarrow> nat \<Rightarrow> nat list \<Rightarrow> int list \<Rightarrow> int list res" where
  "depth_loop minDepth maxDepth [] checks = ok checks"
| "depth_loop minDepth maxDepth (depth # ds) checks =
    (let iterations = js_shl 1 (int maxDepth - int depth + int minDepth)
     in rbind (check_loop depth [1..iterations] 0) (\<lambda>check. depth_loop minDepth maxDepth ds (checks @ [check])))"

text \<open>The body of the main loop for one \<open>n\<close>: the value of \<open>ret\<close> and the values that \<open>check\<close> takes.\<close>

definition binary_trees :: "nat \<Rightarrow> (int \<times> int list) res" where
  "binary_trees n =
    (let minDepth = 4; maxDepth = max (minDepth + 2) n; stretchDepth = maxDepth + 1
     in rbind (itemCheck (bottomUpTree 0 stretchDepth)) (\<lambda>check.
        let longLivedTree = bottomUpTree 0 maxDepth
        in rbind (depth_loop minDepth maxDepth (filter (\<lambda>d. even d) [minDepth..<maxDepth + 1]) [check]) (\<lambda>checks.
           rbind (itemCheck longLivedTree) (\<lambda>ret. ok (ret, checks)))))"

end
