(* ===== verification/Sun_Small_Correct.thy ===== *)
theory Sun_Small_Correct
  imports Sun_Small Sun_Hash_Correct
begin

unbundle bit_operations_syntax

text \<open>
  The small SunSpider programs against what they compute: the number of ones in a byte, the primes up to a bound (the sieve on
  packed bits by simulating the sieve on flags), Ackermann's function, and the check values of the binary trees.
\<close>

section \<open>Counting bits: the two functions agree\<close>

lemma bits_loop_unfold: "bitsinbyte b = Some (\<Sum>k<8. if js_and b (2 ^ k) \<noteq> 0 then 1 else 0)"
proof -
  have s: "js_shl 1 1 = 2" "js_shl 2 1 = 4" "js_shl 4 1 = 8" "js_shl 8 1 = 16" "js_shl 16 1 = 32" "js_shl 32 1 = 64"
    "js_shl 64 1 = 128" "js_shl 128 1 = 256" by (simp_all add: js_shl_def toInt32_def)
  show ?thesis
    unfolding bitsinbyte_def
    by (simp add: bits_loop.simps [of b 1] bits_loop.simps [of b 2] bits_loop.simps [of b 4] bits_loop.simps [of b 8]
      bits_loop.simps [of b 16] bits_loop.simps [of b 32] bits_loop.simps [of b 64] bits_loop.simps [of b 128] bits_loop.simps [of b 256]
      s Let_def lessThan_nat_numeral lessThan_Suc)
qed

lemma and_pow: "k < 8 \<Longrightarrow> js_and b (2 ^ k) \<noteq> 0 \<longleftrightarrow> bit b k"
proof -
  assume k: "k < 8"
  have "js_and b (2 ^ k) = of_bool (bit b k) * 2 ^ k"
    using k unfolding js_and_def toInt32_def by (intro bit_eqI) (auto simp: bit_simps)
  then show ?thesis by simp
qed

lemma bit_low: "k < 8 \<Longrightarrow> bit (b mod 256) k \<longleftrightarrow> bit b k" for b :: int
  using bit_take_bit_iff [of 8 b k] by (simp add: take_bit_eq_mod)

lemma shifts_low:
  "js_and (js_shl b 1) 14 = js_and (js_shl (b mod 256) 1) 14" "js_and (js_shr b 2) 14 = js_and (js_shr (b mod 256) 2) 14"
  "js_and (js_shr b 5) 6 = js_and (js_shr (b mod 256) 5) 6"
proof -
  have m: "b mod 256 = take_bit 8 b" by (simp add: take_bit_eq_mod)
  have b: "bit (14::int) n \<longleftrightarrow> n \<in> {1, 2, 3}" "bit (6::int) n \<longleftrightarrow> n \<in> {1, 2}" for n
    by (auto simp: bit_numeral_rec bit_1_iff split: nat.splits)
  show "js_and (js_shl b 1) 14 = js_and (js_shl (b mod 256) 1) 14" "js_and (js_shr b 2) 14 = js_and (js_shr (b mod 256) 2) 14"
    "js_and (js_shr b 5) 6 = js_and (js_shr (b mod 256) 5) 6"
    unfolding m js_and_def js_shl_def js_shr_def toInt32_def
    by ((intro bit_eqI), auto simp: bit_simps b simp del: push_bit_Suc)+
qed

lemma bytes_ok:
  "list_all (\<lambda>b. sum_list (map (\<lambda>k. if js_and b (2 ^ k) \<noteq> 0 then 1 else 0) [0, 1, 2, 3, 4, 5, 6, 7]) = fast3bitlookup b) [0..255]"
  by code_simp

text \<open>For every integer, the loop \<open>bitsinbyte\<close> ends, and both it and the branch-free \<open>fast3bitlookup\<close>, which reads the
  counts of three bits at a time out of the constant \<open>0xE994\<close>, give the number of ones in the low byte.\<close>

lemma bit_counts_agree:
  "bitsinbyte b = Some (fast3bitlookup b) \<and> fast3bitlookup b = int (card {k. k < 8 \<and> bit b k})"
proof -
  define ones where "ones = (\<lambda>b. \<Sum>k<8. if js_and b (2 ^ k) \<noteq> 0 then 1 else 0 :: int)"
  have low: "ones b = ones (b mod 256)"
    unfolding ones_def by (rule sum.cong) (simp_all add: and_pow bit_low)
  have eq: "ones b = sum_list (map (\<lambda>k. if js_and b (2 ^ k) \<noteq> 0 then 1 else 0) [0, 1, 2, 3, 4, 5, 6, 7])" for b
    by (simp add: ones_def lessThan_nat_numeral lessThan_Suc)
  have "b mod 256 \<in> set [0..255]" by simp
  then have "ones (b mod 256) = fast3bitlookup (b mod 256)"
    using bytes_ok unfolding list_all_iff eq by blast
  then have f: "ones b = fast3bitlookup b"
    using low shifts_low [of b] by (simp add: fast3bitlookup_def)
  have "ones b = (\<Sum>k<8. if bit b k then 1 else 0)" unfolding ones_def by (rule sum.cong) (simp_all add: and_pow)
  also have "\<dots> = int (card ({..<8} \<inter> {k. bit b k}))" by (simp add: sum.If_cases)
  also have "{..<8} \<inter> {k. bit b k} = {k. k < 8 \<and> bit b k}" by auto
  finally show ?thesis using bits_loop_unfold [of b] f by (simp add: ones_def)
qed
section \<open>The sieves\<close>

definition is_prime :: "nat \<Rightarrow> bool" where
  "is_prime p \<longleftrightarrow> 2 \<le> p \<and> (\<forall>d. 2 \<le> d \<and> d < p \<longrightarrow> \<not> d dvd p)"

lemma nsieve_mark_total:
  "0 < i \<Longrightarrow> nsieve_mark m i k a = Some (\<lambda>j. a j \<and> \<not> (k \<le> j \<and> j \<le> m \<and> i dvd j - k))"
proof (induction "Suc m - k" arbitrary: k a rule: less_induct)
  case less
  show ?case
  proof (cases "k \<le> m")
    case True
    have "nsieve_mark m i (k + i) (a(k := False)) =
      Some (\<lambda>j. (a(k := False)) j \<and> \<not> (k + i \<le> j \<and> j \<le> m \<and> i dvd j - (k + i)))"
      using less.prems True by (intro less.hyps) simp_all
    moreover have "(a(k := False)) j \<and> \<not> (k + i \<le> j \<and> j \<le> m \<and> i dvd j - (k + i)) \<longleftrightarrow> a j \<and> \<not> (k \<le> j \<and> j \<le> m \<and> i dvd j - k)" for j
    proof (cases "k \<le> j")
      case True
      then obtain e where e: "j = k + e" by (auto simp: le_iff_add)
      have "i dvd e \<longleftrightarrow> e = 0 \<or> (i \<le> e \<and> i dvd e - i)"
        using less.prems dvd_imp_le [of i e] by (cases "e = 0") (auto simp: dvd_minus_self)
      then show ?thesis using \<open>k \<le> m\<close> by (auto simp: e)
    qed simp
    ultimately show ?thesis using True by (subst nsieve_mark.simps) simp
  qed (subst nsieve_mark.simps, auto)
qed

text \<open>The flags after all \<open>i\<close> below \<open>n\<close>: only numbers without a smaller divisor below \<open>n\<close> are left.\<close>

definition sieved :: "nat \<Rightarrow> nat \<Rightarrow> flags \<Rightarrow> bool" where
  "sieved m n a \<longleftrightarrow> (\<forall>j. 2 \<le> j \<and> j \<le> m \<longrightarrow> a j = (\<forall>d. 2 \<le> d \<and> d < n \<and> d < j \<longrightarrow> \<not> d dvd j))"

lemma sieved_prime: "sieved m n a \<Longrightarrow> 2 \<le> n \<Longrightarrow> n \<le> m \<Longrightarrow> a n = is_prime n"
  by (auto simp: sieved_def is_prime_def)

lemma sieved_mark:
  assumes "sieved m n a" "2 \<le> n"
  shows "sieved m (Suc n) (\<lambda>j. a j \<and> \<not> (n + n \<le> j \<and> j \<le> m \<and> n dvd j - (n + n)))"
proof -
  have "n + n \<le> j \<and> n dvd j - (n + n) \<longleftrightarrow> n < j \<and> n dvd j" for j
  proof
    assume j: "n < j \<and> n dvd j"
    then obtain q where "j = n * q" by (auto elim: dvdE)
    then have "2 \<le> q" using j by (cases q; cases "q - 1") auto
    then have "n * 2 \<le> j" using \<open>j = n * q\<close> by simp
    then show "n + n \<le> j \<and> n dvd j - (n + n)" using j by (simp add: mult_2_right dvd_diff_nat)
  next
    assume j: "n + n \<le> j \<and> n dvd j - (n + n)"
    then have "n dvd (j - (n + n)) + (n + n)" by (intro dvd_add) simp_all
    then show "n < j \<and> n dvd j" using j assms(2) by simp
  qed
  then show ?thesis using assms unfolding sieved_def by (auto simp: less_Suc_eq)
qed

lemma sieved_skip:
  assumes "sieved m n a" "2 \<le> n" "n \<le> m" "\<not> a n"
  shows "sieved m (Suc n) a"
proof -
  obtain d where d: "2 \<le> d" "d < n" "d dvd n" using assms unfolding sieved_def by auto
  have "\<not> n dvd j \<or> \<not> n < j" if "\<forall>d. 2 \<le> d \<and> d < n \<and> d < j \<longrightarrow> \<not> d dvd j" for j
    using that d dvd_trans [of d n j] by auto
  then show ?thesis using assms(1) unfolding sieved_def by (auto simp: less_Suc_eq)
qed

lemma nsieve_loop_total:
  "2 \<le> n \<Longrightarrow> sieved m n a \<Longrightarrow>
    \<exists>a'. nsieve_loop m [n..<Suc m] a c = Some (c + card {p. n \<le> p \<and> p \<le> m \<and> is_prime p}, a') \<and> sieved m (max n (Suc m)) a'"
proof (induction "Suc m - n" arbitrary: n a c)
  case 0
  then have "{p. n \<le> p \<and> p \<le> m \<and> is_prime p} = {}" by auto
  then show ?case using 0 by (simp add: max_def)
next
  case (Suc k)
  then have n: "n \<le> m" "[n..<Suc m] = n # [Suc n..<Suc m]" "max n (Suc m) = max (Suc n) (Suc m)" by (auto simp: upt_conv_Cons)
  have split: "{p. n \<le> p \<and> p \<le> m \<and> is_prime p} =
      (if is_prime n then {n} else {}) \<union> {p. Suc n \<le> p \<and> p \<le> m \<and> is_prime p}"
    using n by (auto simp: Suc_le_eq le_less)
  have fin: "finite {p. Suc n \<le> p \<and> p \<le> m \<and> is_prime p}" by (rule finite_subset [of _ "{..m}"]) auto
  have card: "card {p. n \<le> p \<and> p \<le> m \<and> is_prime p} =
      (if is_prime n then 1 else 0) + card {p. Suc n \<le> p \<and> p \<le> m \<and> is_prime p}"
    unfolding split using fin by auto
  show ?case
  proof (cases "a n")
    case True
    have p: "is_prime n" using sieved_prime Suc.prems n True by blast
    have "0 < n" using Suc.prems by simp
    from Suc.hyps(1) [OF _ _ sieved_mark [OF Suc.prems(2,1)], of "c + 1"] Suc.hyps(2) Suc.prems
    show ?thesis using True p by (simp add: n nsieve_mark_total [OF \<open>0 < n\<close>] card del: upt_Suc)
  next
    case False
    have p: "\<not> is_prime n" using sieved_prime Suc.prems n False by blast
    from Suc.hyps(1) [OF _ _ sieved_skip [OF Suc.prems(2,1) n(1) False], of c] Suc.hyps(2) Suc.prems
    show ?thesis using False p by (simp add: n card del: upt_Suc)
  qed
qed

lemma fill_flags: "foldl (\<lambda>a i. a(i := True)) a is = (\<lambda>j. a j \<or> j \<in> set is)"
  by (induction "is" arbitrary: a) auto

text \<open>for every bound and every array, whatever it holds, \<open>nsieve\<close> ends, returns the number of primes up to the bound
  and leaves in the array the prime flags of all numbers from 2 to the bound.\<close>

theorem nsieve_counts_primes:
  "\<exists>a'. nsieve m a = Some (card {p. p \<le> m \<and> is_prime p}, a') \<and> {j. 2 \<le> j \<and> j \<le> m \<and> a' j} = {p. p \<le> m \<and> is_prime p}"
proof -
  define b where "b = foldl (\<lambda>a i. a(i := True)) a [2..<Suc m]"
  have "sieved m 2 b" by (auto simp: sieved_def b_def fill_flags simp del: upt_Suc)
  from nsieve_loop_total [OF _ this, of 0] obtain a' where
    a': "nsieve_loop m [2..<Suc m] b 0 = Some (card {p. 2 \<le> p \<and> p \<le> m \<and> is_prime p}, a')" "sieved m (max 2 (Suc m)) a'" by auto
  have "{p. 2 \<le> p \<and> p \<le> m \<and> is_prime p} = {p. p \<le> m \<and> is_prime p}" by (auto simp: is_prime_def)
  moreover have "{j. 2 \<le> j \<and> j \<le> m \<and> a' j} = {p. p \<le> m \<and> is_prime p}" using a'(2) by (auto simp: sieved_def is_prime_def)
  ultimately show ?thesis using a'(1) by (simp add: nsieve_def b_def Let_def del: upt_Suc)
qed

text \<open>The sieve on bits does to the bits what \<open>nsieve\<close> does to the flags.\<close>

lemma bit_at_word: "bit_at a i \<longleftrightarrow> bit (word_of_int (elem_at a (i div 32)) :: 32 word) (i mod 32)"
proof -
  define r where "r = i mod 32"
  have r: "r < 32" "nat (int r mod 32) = r" by (simp_all add: r_def)
  have "(word_of_int (elem_at a (i div 32)) AND word_of_int (js_shl 1 (int r)) :: 32 word) =
      word_of_int (elem_at a (i div 32)) AND push_bit r 1"
    by (simp add: js_shl_word r(2))
  moreover have "x AND push_bit r 1 = 0 \<longleftrightarrow> \<not> bit x r" for x :: "32 word"
  proof
    assume "x AND push_bit r 1 = 0"
    then have "bit (x AND push_bit r 1) r = bit (0 :: 32 word) r" by simp
    then show "\<not> bit x r" using r by (simp add: bit_simps)
  next
    assume "\<not> bit x r"
    then show "x AND push_bit r 1 = 0" by (intro bit_word_eqI) (auto simp: bit_simps)
  qed
  ultimately show ?thesis by (simp add: bit_at_def js_and_word r_def [symmetric] signed_eq_0_iff)
qed

lemma bit_at_clear:
  "bit_at (set_at a (j div 32) (js_and (elem_at a (j div 32)) (js_not (js_shl 1 (int (j mod 32)))))) k \<longleftrightarrow> k \<noteq> j \<and> bit_at a k"
proof -
  have w: "word_of_int (js_and x (js_not (js_shl 1 (int (j mod 32))))) = (word_of_int x AND NOT (2 ^ (j mod 32)) :: 32 word)" for x
    by (simp add: js_and_word js_not_word js_shl_word)
  have b: "bit (NOT (2 ^ (j mod 32)) :: 32 word) (k mod 32) \<longleftrightarrow> k mod 32 \<noteq> j mod 32"
    by (auto simp: bit_not_iff bit_exp_iff)
  have e: "k = j \<longleftrightarrow> k div 32 = j div 32 \<and> k mod 32 = j mod 32" by (metis div_mult_mod_eq)
  show ?thesis unfolding bit_at_word elem_set_any e
    by (auto simp: w bit_and_iff b)
qed

lemma clear_loop_flags:
  "0 < i \<Longrightarrow> 0 < m \<Longrightarrow> \<exists>a'. clear_loop m i j a = Some a' \<and> nsieve_mark (m - 1) i j (bit_at a) = Some (bit_at a')"
proof (induction "m - j" arbitrary: j a rule: less_induct)
  case less
  show ?case
  proof (cases "j < m")
    case True
    define b where "b = set_at a (j div 32) (js_and (elem_at a (j div 32)) (js_not (js_shl 1 (int (j mod 32)))))"
    have b: "bit_at b = (bit_at a)(j := False)" by (rule ext) (simp add: b_def bit_at_clear)
    obtain a' where "clear_loop m i (j + i) b = Some a'" "nsieve_mark (m - 1) i (j + i) (bit_at b) = Some (bit_at a')"
      using less.hyps [OF diff_less_mono2 [OF _ True], of "j + i" b] less.prems by auto
    moreover have "j \<le> m - 1" using True by simp
    ultimately show ?thesis
      using True less.prems by (subst clear_loop.simps, subst nsieve_mark.simps) (simp add: b b_def [symmetric])
  next
    case False
    then have "\<not> j \<le> m - 1" using less.prems by simp
    then show ?thesis
      using less.prems False by (subst clear_loop.simps, subst nsieve_mark.simps) simp
  qed
qed

lemma primes_loop_flags:
  "\<forall>i \<in> set is. 0 < i \<Longrightarrow> 0 < m \<Longrightarrow> nsieve_loop (m - 1) is (bit_at a) c = Some (c', f) \<Longrightarrow>
    \<exists>a'. primes_loop m is a c = Some (c', a') \<and> bit_at a' = f"
proof (induction "is" arbitrary: a c)
  case (Cons i "is")
  show ?case
  proof (cases "bit_at a i")
    case True
    obtain b where b: "clear_loop m i (i + i) a = Some b" "nsieve_mark (m - 1) i (i + i) (bit_at a) = Some (bit_at b)"
      using clear_loop_flags [of i m "i + i" a] Cons.prems by auto
    then show ?thesis using Cons True by simp
  next
    case False
    then show ?thesis using Cons by simp
  qed
qed simp

lemma fill_words:
  "q < k \<Longrightarrow> elem_at (foldl (\<lambda>a i. set_at a i v) a [0..<k]) q = v"
  by (induction k) (auto simp: elem_set_any less_Suc_eq)

text \<open>C31: the sieve that packs its flags into the bits of 32-bit words counts the primes below \<open>10000 << n\<close> and leaves exactly
  the prime bits set, from whatever array it is given and for every \<open>n\<close> for which the shift does not overflow.\<close>

theorem primes_packed:
  assumes "n \<le> 17"
  shows "\<exists>a'. primes a n = Some (card {p. p < 10000 * 2 ^ n \<and> is_prime p}, a') \<and>
    (\<forall>j. 2 \<le> j \<and> j < 10000 * 2 ^ n \<longrightarrow> bit_at a' j = is_prime j)"
proof -
  define m :: nat where "m = 10000 * 2 ^ n"
  define P :: int where "P = 2 ^ n"
  have "P \<le> 2 ^ 17" "0 < P" unfolding P_def using assms by (intro power_increasing; simp)+ simp
  then have "is_int32 (10000 * P)" "is_int32 10000" "10000 * P \<le> (10000 * 2 ^ 17 :: int)" by (simp_all add: is_int32_def)
  then have m: "nat (js_shl 10000 (int n)) = m" "int m \<le> 10000 * 2 ^ 17" using js_shl_mult [of 10000 "int n"] assms
    by (simp_all add: m_def P_def nat_mult_distrib nat_power_eq)
  define size where "size = nat (js_shr (int m + 31) 5)"
  have "size = (m + 31) div 32" using m(2) js_shr_div [of "int m + 31" 5] by (simp add: size_def is_int32_def nat_div_distrib)
  then have size: "m \<le> size * 32" by simp
  define b where "b = foldl (\<lambda>a i. set_at a i 0xffffffff) a [0..<size]"
  have m2: "2 \<le> m" "0 < m" by (simp_all add: m_def)
  have ones: "bit_at b j" if "j < m" for j
  proof -
    have "j div 32 < size" using that size by (simp add: less_mult_imp_div_less)
    have m1: "word_of_int 0xffffffff = (- 1 :: 32 word)" by simp
    have "bit (word_of_int 0xffffffff :: 32 word) (j mod 32)" unfolding m1 by simp
    then show ?thesis unfolding bit_at_word b_def fill_words [OF \<open>j div 32 < size\<close>] .
  qed
  have "sieved (m - 1) 2 (bit_at b)" using ones by (auto simp: sieved_def)
  from nsieve_loop_total [OF _ this, of 0] obtain f where
    f: "nsieve_loop (m - 1) [2..<m] (bit_at b) 0 = Some (card {p. 2 \<le> p \<and> p \<le> m - 1 \<and> is_prime p}, f)" "sieved (m - 1) m f"
    using m2 by (auto simp: max_def)
  obtain a' where a': "primes_loop m [2..<m] b 0 = Some (card {p. 2 \<le> p \<and> p \<le> m - 1 \<and> is_prime p}, a')" "bit_at a' = f"
    using primes_loop_flags [OF _ m2(2) f(1)] by auto
  have "{p. 2 \<le> p \<and> p \<le> m - 1 \<and> is_prime p} = {p. p < m \<and> is_prime p}" using m2 by (auto simp: is_prime_def)
  moreover have "bit_at a' j = is_prime j" if "2 \<le> j" "j < m" for j using f(2) a'(2) that by (auto simp: sieved_def is_prime_def)
  moreover have "primes a n = primes_loop m [2..<m] b 0"
    by (simp only: primes_def m(1) Let_def size_def b_def)
  ultimately show ?thesis using a'(1) unfolding m_def [symmetric] by auto
qed

lemma primes_packed_witness:
  "\<exists>a'. primes [] 4 = Some (card {p. p < 160000 \<and> is_prime p}, a')"
  using primes_packed [of 4 "[]"] by auto

section \<open>Ackermann's function\<close>

text \<open>Row \<open>m + 1\<close> iterates row \<open>m\<close>, from 1.\<close>

primrec ackermann :: "nat \<Rightarrow> nat \<Rightarrow> nat" where
  "ackermann 0 = Suc"
| "ackermann (Suc m) = (\<lambda>n. (ackermann m ^^ Suc n) 1)"

lemma ack_ackermann: "ack (int m) (int n) = Some (int (ackermann m n))"
proof (induction m arbitrary: n)
  case (Suc m)
  show ?case
  proof (induction n)
    case 0
    show ?case using Suc [of 1] by (subst ack.simps) simp
  next
    case (Suc n)
    have "ack (int (Suc m)) (int (Suc n)) = Option.bind (ack (int (Suc m)) (int n)) (\<lambda>k. ack (int m) k)"
      by (subst ack.simps) simp
    then show ?case using Suc \<open>\<And>n. ack (int m) (int n) = Some (int (ackermann m n))\<close> by simp
  qed
qed (subst ack.simps, simp)

lemma ackermann_row: "ackermann (Suc k) (Suc n) = ackermann k (ackermann (Suc k) n)" "ackermann (Suc k) 0 = ackermann k 1"
  by simp_all

lemma ackermann_3: "ackermann (Suc 0) n = n + 2" "ackermann (Suc (Suc 0)) n = 2 * n + 3" "ackermann (Suc (Suc (Suc 0))) n + 3 = 2 ^ (n + 3)"
proof -
  show a: "ackermann (Suc 0) n = n + 2" for n by (induction n) (simp_all add: ackermann_row del: ackermann.simps(2))
  show b: "ackermann (Suc (Suc 0)) n = 2 * n + 3" for n by (induction n) (simp_all add: a ackermann_row del: ackermann.simps(2))
  show "ackermann (Suc (Suc (Suc 0))) n + 3 = 2 ^ (n + 3)" 
  proof (induction n)
    case (Suc n)
    have "2 * (ackermann (Suc (Suc (Suc 0))) n + 3) = 2 * 2 ^ (n + 3)" using Suc by simp
    then show ?case by (simp add: b power_add ackermann_row del: ackermann.simps(2))
  qed (simp add: b ackermann_row del: ackermann.simps(2))
qed

text \<open>\<open>ack\<close> returns for all natural arguments, with the values of Ackermann's function: \<open>2 ^ (n + 3) - 3\<close> for the calls
  \<open>ack(3, n)\<close> of the script.\<close>

theorem ack_returns:
  "ack (int m) (int n) = Some (int (ackermann m n)) \<and> ack 3 (int n) = Some (2 ^ (n + 3) - 3)"
proof -
  have "int (ackermann 3 n + 3) = 2 ^ (n + 3)" using ackermann_3(3) [of n] by (simp only: numeral_3_eq_3 of_nat_power of_nat_numeral)
  then show ?thesis using ack_ackermann [of m n] ack_ackermann [of 3 n] by simp
qed

section \<open>Binary trees\<close>

lemma itemCheck_bottomUp: "itemCheck (bottomUpTree i d) = Inr (if d = 0 then i else i - 1)"
proof (induction d arbitrary: i)
  case (Suc d)
  then show ?case by (simp add: Suc.IH)
qed simp

lemma check_loop_value: "0 < d \<Longrightarrow> check_loop d is c = Inr (c - 2 * int (length is))"
  by (induction "is" arbitrary: c) (simp_all add: itemCheck_bottomUp)

lemma depth_loop_value:
  "\<forall>d \<in> set ds. 0 < d \<Longrightarrow> depth_loop mn mx ds cs = Inr (cs @ map (\<lambda>d. - 2 * int (length [1..js_shl 1 (int mx - int d + int mn)])) ds)"
  by (induction ds arbitrary: cs) (simp_all add: check_loop_value Let_def)

text \<open>for every \<open>n\<close> up to 26 the tree program runs to its end without an error on a missing child, \<open>ret\<close> is -1, and
  the check values are -1 for the stretch tree and -2 times the number of iterations for each depth.\<close>

theorem binary_trees_checks:
  assumes "n \<le> 26"
  shows "binary_trees n = Inr (- 1, - 1 # map (\<lambda>d. - (2 ^ (max 6 n - d + 5))) (filter even [4..<max 6 n + 1]))"
proof -
  define ds where "ds = filter even [4..<max 6 n + 1]"
  have iter: "- 2 * int (length [1..js_shl 1 (int (max 6 n) - int d + int 4)]) = - (2 ^ (max 6 n - d + 5))" if "d \<in> set ds" for d
  proof -
    have d: "4 \<le> d" "d \<le> max 6 n" "max 6 n \<le> 26" using that assms by (auto simp: ds_def)
    define e where "e = max 6 n - d + 4"
    have e: "int (max 6 n) - int d + int 4 = int e" "e \<le> 26" "max 6 n - d + 5 = Suc e" using d by (simp_all add: e_def)
    have "(2::int) ^ e \<le> 2 ^ 26" using e(2) by (intro power_increasing) simp_all
    moreover have "- (2 ^ 31) \<le> (2::int) ^ e" by (rule order_trans [of _ 0]) simp_all
    ultimately have "is_int32 (1 * 2 ^ nat (int e))" "is_int32 1" by (simp_all add: is_int32_def)
    from js_shl_mult [OF this] e(2) have "js_shl 1 (int e) = 2 ^ e" by simp
    then show ?thesis unfolding e(1,3) by simp
  qed
  have "depth_loop 4 (max 6 n) ds [- 1] = Inr ([- 1] @ map (\<lambda>d. - 2 * int (length [1..js_shl 1 (int (max 6 n) - int d + int 4)])) ds)"
    by (rule depth_loop_value) (auto simp: ds_def)
  also have "map (\<lambda>d. - 2 * int (length [1..js_shl 1 (int (max 6 n) - int d + int 4)])) ds = map (\<lambda>d. - (2 ^ (max 6 n - d + 5))) ds"
    by (rule map_cong [OF refl iter])
  finally have dl: "depth_loop 4 (max 6 n) ds [- 1] = Inr ([- 1] @ map (\<lambda>d. - (2 ^ (max 6 n - d + 5))) ds)" .
  have m: "max (4 + 2) n = max 6 n" by simp
  show ?thesis
    unfolding binary_trees_def Let_def m itemCheck_bottomUp ds_def [symmetric] by (simp add: dl)
qed

lemma binary_trees_checks_witness: "binary_trees 7 = Inr (- 1, [- 1, - 256, - 64])"
  using binary_trees_checks [of 7] by (simp add: upt_rec)
end
