(* ===== verification/Sun_Aes.thy ===== *)
theory Sun_Aes
  imports Sun_Hash
begin

unbundle bit_operations_syntax

text \<open>
  \<open>sunspider/crypto-aes.js\<close>: the AES cipher and its key expansion on arrays of bytes, counter mode with its escaping of
  control characters, UTF-8 and Base64. Strings are lists of character codes. The state is an array of four rows; an element
  that was never written is \<open>undefined\<close>, which every use reads as 0, and a missing row is a \<open>TypeError\<close>. The time that
  gives the nonce is an argument.
\<close>

section \<open>Arrays of arrays\<close>

definition get2 :: "int list list \<Rightarrow> nat \<Rightarrow> nat \<Rightarrow> int" where
  "get2 s r c = elem_at (s ! r) c"

definition set2 :: "int list list \<Rightarrow> nat \<Rightarrow> nat \<Rightarrow> int \<Rightarrow> int list list" where
  "set2 s r c v = s[r := set_at (s ! r) c v]"

text \<open>A row that does not exist is \<open>undefined\<close>; reading its elements throws.\<close>

definition row_of :: "int list list \<Rightarrow> int \<Rightarrow> int list res" where
  "row_of w i = (if 0 \<le> i \<and> i < int (length w) then ok (w ! nat i) else throw TypeError)"

definition index_at :: "int list \<Rightarrow> int \<Rightarrow> int" where
  "index_at xs i = (if 0 \<le> i then elem_at xs (nat i) else 0)"

section \<open>The tables\<close>

definition Sbox :: "int list" where
  "Sbox = [
    0x63, 0x7c, 0x77, 0x7b, 0xf2, 0x6b, 0x6f, 0xc5, 0x30, 0x01, 0x67, 0x2b, 0xfe, 0xd7, 0xab, 0x76,
    0xca, 0x82, 0xc9, 0x7d, 0xfa, 0x59, 0x47, 0xf0, 0xad, 0xd4, 0xa2, 0xaf, 0x9c, 0xa4, 0x72, 0xc0,
    0xb7, 0xfd, 0x93, 0x26, 0x36, 0x3f, 0xf7, 0xcc, 0x34, 0xa5, 0xe5, 0xf1, 0x71, 0xd8, 0x31, 0x15,
    0x04, 0xc7, 0x23, 0xc3, 0x18, 0x96, 0x05, 0x9a, 0x07, 0x12, 0x80, 0xe2, 0xeb, 0x27, 0xb2, 0x75,
    0x09, 0x83, 0x2c, 0x1a, 0x1b, 0x6e, 0x5a, 0xa0, 0x52, 0x3b, 0xd6, 0xb3, 0x29, 0xe3, 0x2f, 0x84,
    0x53, 0xd1, 0x00, 0xed, 0x20, 0xfc, 0xb1, 0x5b, 0x6a, 0xcb, 0xbe, 0x39, 0x4a, 0x4c, 0x58, 0xcf,
    0xd0, 0xef, 0xaa, 0xfb, 0x43, 0x4d, 0x33, 0x85, 0x45, 0xf9, 0x02, 0x7f, 0x50, 0x3c, 0x9f, 0xa8,
    0x51, 0xa3, 0x40, 0x8f, 0x92, 0x9d, 0x38, 0xf5, 0xbc, 0xb6, 0xda, 0x21, 0x10, 0xff, 0xf3, 0xd2,
    0xcd, 0x0c, 0x13, 0xec, 0x5f, 0x97, 0x44, 0x17, 0xc4, 0xa7, 0x7e, 0x3d, 0x64, 0x5d, 0x19, 0x73,
    0x60, 0x81, 0x4f, 0xdc, 0x22, 0x2a, 0x90, 0x88, 0x46, 0xee, 0xb8, 0x14, 0xde, 0x5e, 0x0b, 0xdb,
    0xe0, 0x32, 0x3a, 0x0a, 0x49, 0x06, 0x24, 0x5c, 0xc2, 0xd3, 0xac, 0x62, 0x91, 0x95, 0xe4, 0x79,
    0xe7, 0xc8, 0x37, 0x6d, 0x8d, 0xd5, 0x4e, 0xa9, 0x6c, 0x56, 0xf4, 0xea, 0x65, 0x7a, 0xae, 0x08,
    0xba, 0x78, 0x25, 0x2e, 0x1c, 0xa6, 0xb4, 0xc6, 0xe8, 0xdd, 0x74, 0x1f, 0x4b, 0xbd, 0x8b, 0x8a,
    0x70, 0x3e, 0xb5, 0x66, 0x48, 0x03, 0xf6, 0x0e, 0x61, 0x35, 0x57, 0xb9, 0x86, 0xc1, 0x1d, 0x9e,
    0xe1, 0xf8, 0x98, 0x11, 0x69, 0xd9, 0x8e, 0x94, 0x9b, 0x1e, 0x87, 0xe9, 0xce, 0x55, 0x28, 0xdf,
    0x8c, 0xa1, 0x89, 0x0d, 0xbf, 0xe6, 0x42, 0x68, 0x41, 0x99, 0x2d, 0x0f, 0xb0, 0x54, 0xbb, 0x16]"

definition Rcon :: "int list list" where
  "Rcon = [[0x00, 0x00, 0x00, 0x00], [0x01, 0x00, 0x00, 0x00], [0x02, 0x00, 0x00, 0x00], [0x04, 0x00, 0x00, 0x00],
    [0x08, 0x00, 0x00, 0x00], [0x10, 0x00, 0x00, 0x00], [0x20, 0x00, 0x00, 0x00], [0x40, 0x00, 0x00, 0x00],
    [0x80, 0x00, 0x00, 0x00], [0x1b, 0x00, 0x00, 0x00], [0x36, 0x00, 0x00, 0x00]]"

section \<open>The cipher\<close>

definition SubBytes :: "int list list \<Rightarrow> nat \<Rightarrow> int list list" where
  "SubBytes s Nb = foldl (\<lambda>s r. foldl (\<lambda>s c. set2 s r c (index_at Sbox (get2 s r c))) s [0..<Nb]) s [0..<4]"

definition ShiftRows :: "int list list \<Rightarrow> nat \<Rightarrow> int list list" where
  "ShiftRows s Nb =
    foldl (\<lambda>s r. let t = List.map (\<lambda>c. get2 s r ((c + r) mod Nb)) [0..<4] in foldl (\<lambda>s c. set2 s r c (t ! c)) s [0..<4]) s [1..<4]"

definition xtime :: "int \<Rightarrow> int" where
  "xtime a = (if js_and a 0x80 \<noteq> 0 then js_xor (js_shl a 1) 0x011b else js_shl a 1)"

definition xor5 :: "int \<Rightarrow> int \<Rightarrow> int \<Rightarrow> int \<Rightarrow> int \<Rightarrow> int" where
  "xor5 a b c d e = js_xor (js_xor (js_xor (js_xor a b) c) d) e"

definition MixColumns :: "int list list \<Rightarrow> nat \<Rightarrow> int list list" where
  "MixColumns s Nb =
    foldl (\<lambda>s c.
        let a = List.map (\<lambda>i. get2 s i c) [0..<4]; b = List.map (\<lambda>i. xtime (get2 s i c)) [0..<4];
            s = set2 s 0 c (xor5 (b ! 0) (a ! 1) (b ! 1) (a ! 2) (a ! 3));
            s = set2 s 1 c (xor5 (a ! 0) (b ! 1) (a ! 2) (b ! 2) (a ! 3));
            s = set2 s 2 c (xor5 (a ! 0) (a ! 1) (b ! 2) (a ! 3) (b ! 3))
        in set2 s 3 c (xor5 (a ! 0) (b ! 0) (a ! 1) (a ! 2) (b ! 3)))
      s [0..<4]"

fun for_each :: "('a \<Rightarrow> 's \<Rightarrow> 's res) \<Rightarrow> 'a list \<Rightarrow> 's \<Rightarrow> 's res" where
  "for_each f [] s = ok s"
| "for_each f (x # xs) s = rbind (f x s) (for_each f xs)"

definition AddRoundKey :: "int list list \<Rightarrow> int list list \<Rightarrow> nat \<Rightarrow> nat \<Rightarrow> int list list res" where
  "AddRoundKey state w rnd Nb =
    for_each (\<lambda>r. for_each (\<lambda>c s. rbind (row_of w (int (rnd * 4 + c))) (\<lambda>k. ok (set2 s r c (js_xor (get2 s r c) (elem_at k r))))) [0..<Nb])
      [0..<4] state"

definition Cipher :: "int list \<Rightarrow> int list list \<Rightarrow> int list res" where
  "Cipher input w =
    (let Nb = 4; Nr = length w div Nb - 1;
         state = foldl (\<lambda>s i. set2 s (i mod 4) (i div 4) (elem_at input i)) [[], [], [], []] [0..<4 * Nb]
     in rbind (AddRoundKey state w 0 Nb) (\<lambda>state.
        rbind (for_each (\<lambda>round state. AddRoundKey (MixColumns (ShiftRows (SubBytes state Nb) Nb) Nb) w round Nb) [1..<Nr] state) (\<lambda>state.
        rbind (AddRoundKey (ShiftRows (SubBytes state Nb) Nb) w Nr Nb) (\<lambda>state.
        ok (List.map (\<lambda>i. get2 state (i mod 4) (i div 4)) [0..<4 * Nb])))))"

definition SubWord :: "int list \<Rightarrow> int list" where
  "SubWord w = foldl (\<lambda>w i. set_at w i (index_at Sbox (elem_at w i))) w [0..<4]"

definition RotWord :: "int list \<Rightarrow> int list" where
  "RotWord w = foldl (\<lambda>w i. set_at w i (elem_at w (i + 1))) (set_at w 4 (elem_at w 0)) [0..<4]"

text \<open>One pass of the second loop: \<open>w\<close> has \<open>i\<close> rows. The length of the key is a multiple of four.\<close>

definition expand_step :: "nat \<Rightarrow> nat \<Rightarrow> int list list \<times> int list \<Rightarrow> (int list list \<times> int list) res" where
  "expand_step Nk i wt =
    (let (w, temp) = wt
     in rbind (row_of w (int i - 1)) (\<lambda>p.
        let temp = foldl (\<lambda>temp t. set_at temp t (elem_at p t)) temp [0..<4]
        in rbind (if i mod Nk = 0 then
                    (let temp = SubWord (RotWord temp)
                     in rbind (row_of Rcon (int (i div Nk))) (\<lambda>rc.
                        ok (foldl (\<lambda>temp t. set_at temp t (js_xor (elem_at temp t) (elem_at rc t))) temp [0..<4])))
                  else if Nk > 6 \<and> i mod Nk = 4 then ok (SubWord temp) else ok temp) (\<lambda>temp.
           rbind (row_of w (int i - int Nk)) (\<lambda>q.
           ok (w @ [List.map (\<lambda>t. js_xor (elem_at q t) (elem_at temp t)) [0..<4]], temp)))))"

definition KeyExpansion :: "int list \<Rightarrow> int list list res" where
  "KeyExpansion key =
    (let Nb = 4; Nk = length key div 4; Nr = Nk + 6;
         w = List.map (\<lambda>i. List.map (\<lambda>t. elem_at key (4 * i + t)) [0..<4]) [0..<Nk]
     in rbind (for_each (expand_step Nk) [Nk..<Nb * (Nr + 1)] (w, replicate 4 0)) (\<lambda>(w, temp). ok w))"

section \<open>Counter mode\<close>

definition js_trunc_div :: "int \<Rightarrow> int \<Rightarrow> int" where
  "js_trunc_div x y = sgn x * sgn y * (\<bar>x\<bar> div \<bar>y\<bar>)"

definition escape_set :: "int list" where
  "escape_set = [0, 9, 10, 11, 12, 13, 0xa0, 39, 34, 33, 45]"

definition escCtrlChars :: "codes \<Rightarrow> codes" where
  "escCtrlChars str = concat (List.map (\<lambda>c. if c \<in> set escape_set then [33] @ List.map of_char (show_int c) @ [33] else [c]) str)"

definition is_digit :: "int \<Rightarrow> bool" where
  "is_digit c \<longleftrightarrow> 48 \<le> c \<and> c \<le> 57"

text \<open>A match of \<open>!\d\d?\d?!\<close> at the head: the number and what follows.\<close>

definition match_escape :: "codes \<Rightarrow> (int \<times> codes) option" where
  "match_escape s =
    (case s of
       c0 # a # b # c # d # rest \<Rightarrow>
         if c0 = 33 \<and> is_digit a \<and> is_digit b \<and> is_digit c \<and> d = 33 then Some (100 * (a - 48) + 10 * (b - 48) + (c - 48), rest)
         else if c0 = 33 \<and> is_digit a \<and> is_digit b \<and> c = 33 then Some (10 * (a - 48) + (b - 48), d # rest)
         else if c0 = 33 \<and> is_digit a \<and> b = 33 then Some (a - 48, c # d # rest) else None
     | [c0, a, b, c] \<Rightarrow>
         if c0 = 33 \<and> is_digit a \<and> is_digit b \<and> c = 33 then Some (10 * (a - 48) + (b - 48), [])
         else if c0 = 33 \<and> is_digit a \<and> b = 33 then Some (a - 48, [c]) else None
     | [c0, a, b] \<Rightarrow> if c0 = 33 \<and> is_digit a \<and> b = 33 then Some (a - 48, []) else None
     | _ \<Rightarrow> None)"

lemma match_escape_shorter: "match_escape s = Some (v, rest) \<Longrightarrow> length rest < length s"
  by (auto simp: match_escape_def split: list.splits if_splits)

function unescCtrlChars :: "codes \<Rightarrow> codes" where
  "unescCtrlChars s =
    (case match_escape s of Some (v, rest) \<Rightarrow> fromCharCode v # unescCtrlChars rest
     | None \<Rightarrow> (case s of [] \<Rightarrow> [] | c # s \<Rightarrow> c # unescCtrlChars s))"
  by auto
termination by (relation "measure length") (auto dest: match_escape_shorter)

declare unescCtrlChars.simps [simp del]

fun split_at :: "int \<Rightarrow> codes \<Rightarrow> codes list" where
  "split_at sep [] = [[]]"
| "split_at sep (c # cs) =
    (if c = sep then [] # split_at sep cs else (case split_at sep cs of p # ps \<Rightarrow> (c # p) # ps | [] \<Rightarrow> [[c]]))"

fun join_with :: "int \<Rightarrow> codes list \<Rightarrow> codes" where
  "join_with sep [] = []"
| "join_with sep [p] = p"
| "join_with sep (p # ps) = p @ sep # join_with sep ps"

definition good_bits :: "int \<Rightarrow> bool" where
  "good_bits nBits \<longleftrightarrow> nBits = 128 \<or> nBits = 192 \<or> nBits = 256"

text \<open>The key schedule that both directions derive from the password.\<close>

definition password_schedule :: "codes \<Rightarrow> nat \<Rightarrow> int list list res" where
  "password_schedule password nBytes =
    (let pwBytes = List.map (\<lambda>i. js_and (char_code password i) 0xff) [0..<nBytes]
     in rbind (KeyExpansion pwBytes) (\<lambda>pwKeySchedule.
        rbind (Cipher pwBytes pwKeySchedule) (\<lambda>key. KeyExpansion (key @ take (nBytes - 16) key))))"

definition nonce_block :: "int \<Rightarrow> int list" where
  "nonce_block nonce =
    (let cb = foldl (\<lambda>cb i. set_at cb i (js_and (js_ushr nonce (int i * 8)) 0xff)) (replicate 16 0) [0..<4]
     in foldl (\<lambda>cb i. set_at cb (i + 4) (js_and (js_ushr (js_trunc_div nonce 0x100000000) (int i * 8)) 0xff)) cb [0..<4])"

definition encrypt_counter :: "nat \<Rightarrow> int list \<Rightarrow> int list" where
  "encrypt_counter b cb =
    (let cb = foldl (\<lambda>cb c. set_at cb (15 - c) (js_and (js_ushr (int b) (int c * 8)) 0xff)) cb [0..<4]
     in foldl (\<lambda>cb c. set_at cb (15 - c - 4) (js_ushr (js_trunc_div (int b) 0x100000000) (int c * 8))) cb [0..<4])"

definition encrypt_block :: "codes \<Rightarrow> int list list \<Rightarrow> nat \<Rightarrow> nat \<Rightarrow> int list \<times> codes list \<Rightarrow> (int list \<times> codes list) res" where
  "encrypt_block plaintext keySchedule blockCount b st =
    (let (cb, ciphertext) = st; cb = encrypt_counter b cb
     in rbind (Cipher cb keySchedule) (\<lambda>cipherCntr.
        let blockLength = (if int b < int blockCount - 1 then 16 else (length plaintext - 1) mod 16 + 1);
            ct = List.map (\<lambda>i. fromCharCode (js_xor (char_code plaintext (b * 16 + i)) (elem_at cipherCntr i))) [0..<blockLength]
        in ok (cb, ciphertext @ [escCtrlChars ct])))"

definition AESEncryptCtr :: "int \<Rightarrow> codes \<Rightarrow> codes \<Rightarrow> int \<Rightarrow> codes res" where
  "AESEncryptCtr now plaintext password nBits =
    (if \<not> good_bits nBits then ok []
     else
       let nBytes = nat (nBits div 8)
       in rbind (password_schedule password nBytes) (\<lambda>keySchedule.
          let blockCount = (length plaintext + 15) div 16
          in rbind (for_each (encrypt_block plaintext keySchedule blockCount) [0..<blockCount] (nonce_block now, [])) (\<lambda>(cb, ciphertext).
             ok (escCtrlChars (List.map (\<lambda>i. fromCharCode (elem_at cb i)) [0..<8]) @ 45 # join_with 45 ciphertext))))"

definition decrypt_counter :: "nat \<Rightarrow> int list \<Rightarrow> int list" where
  "decrypt_counter b cb =
    (let cb = foldl (\<lambda>cb c. set_at cb (15 - c) (js_and (js_ushr (int b - 1) (int c * 8)) 0xff)) cb [0..<4]
     in foldl (\<lambda>cb c. set_at cb (15 - c - 4) (js_and (js_ushr (js_trunc_div (int b - 0x100000000) 0x100000000) (int c * 8)) 0xff)) cb [0..<4])"

definition decrypt_block :: "codes list \<Rightarrow> int list list \<Rightarrow> nat \<Rightarrow> int list \<times> codes list \<Rightarrow> (int list \<times> codes list) res" where
  "decrypt_block ciphertext keySchedule b st =
    (let (cb, plaintext) = st; cb = decrypt_counter b cb
     in rbind (Cipher cb keySchedule) (\<lambda>cipherCntr.
        let block = unescCtrlChars (ciphertext ! b);
            pt = List.map (\<lambda>i. fromCharCode (js_xor (char_code block i) (elem_at cipherCntr i))) [0..<length block]
        in ok (cb, plaintext @ [pt])))"

definition AESDecryptCtr :: "codes \<Rightarrow> codes \<Rightarrow> int \<Rightarrow> codes res" where
  "AESDecryptCtr ciphertext password nBits =
    (if \<not> good_bits nBits then ok []
     else
       let nBytes = nat (nBits div 8)
       in rbind (password_schedule password nBytes) (\<lambda>keySchedule.
          let blocks = split_at 45 ciphertext; ctrTxt = unescCtrlChars (blocks ! 0);
              cb = foldl (\<lambda>cb i. set_at cb i (char_code ctrTxt i)) (replicate 16 0) [0..<8]
          in rbind (for_each (decrypt_block blocks keySchedule) [1..<length blocks] (cb, [])) (\<lambda>(cb, plaintext).
             ok (concat plaintext))))"

section \<open>Base64 and UTF-8\<close>

definition encodeUTF8 :: "codes \<Rightarrow> codes" where
  "encodeUTF8 str =
    (let str = concat (List.map (\<lambda>cc. if 0x80 \<le> cc \<and> cc \<le> 0x7ff
           then [fromCharCode (js_or 0xc0 (js_shr cc 6)), fromCharCode (js_or 0x80 (js_and cc 0x3f))] else [cc]) str)
     in concat (List.map (\<lambda>cc. if 0x800 \<le> cc \<and> cc \<le> 0xffff
           then [fromCharCode (js_or 0xe0 (js_shr cc 12)), fromCharCode (js_or 0x80 (js_and (js_shr cc 6) 0x3F)), fromCharCode (js_or 0x80 (js_and cc 0x3f))]
           else [cc]) str))"

fun decode2 :: "codes \<Rightarrow> codes" where
  "decode2 (a # b # cs) =
    (if 0xc0 \<le> a \<and> a \<le> 0xdf \<and> 0x80 \<le> b \<and> b \<le> 0xbf
     then fromCharCode (js_or (js_shl (js_and a 0x1f) 6) (js_and b 0x3f)) # decode2 cs else a # decode2 (b # cs))"
| "decode2 cs = cs"

text \<open>In the middle term \<open><<\<close> binds tighter than \<open>&\<close>, as in the source.\<close>

fun decode3 :: "codes \<Rightarrow> codes" where
  "decode3 (a # b # c # cs) =
    (if 0xe0 \<le> a \<and> a \<le> 0xef \<and> 0x80 \<le> b \<and> b \<le> 0xbf \<and> 0x80 \<le> c \<and> c \<le> 0xbf
     then fromCharCode (js_or (js_or (js_shl (js_and a 0x0f) 12) (js_and b (js_shl 0x3f 6))) (js_and c 0x3f)) # decode3 cs
     else a # decode3 (b # c # cs))"
| "decode3 cs = cs"

definition decodeUTF8 :: "codes \<Rightarrow> codes" where
  "decodeUTF8 str = decode3 (decode2 str)"

definition b64 :: string where
  "b64 = ''ABCDEFGHIJKLMNOPQRSTUVWXYZabcdefghijklmnopqrstuvwxyz0123456789+/=''"

text \<open>The rounds of the \<open>do\<close> loops: at least one, each three characters on when encoding and four when decoding.\<close>

definition encode_round :: "codes \<Rightarrow> nat \<Rightarrow> string" where
  "encode_round str i =
    (let bits = js_or (js_or (js_shl (char_code str i) 16) (js_shl (char_code str (i + 1)) 8)) (char_code str (i + 2));
         h1 = js_and (js_shr bits 18) 0x3f; h2 = js_and (js_shr bits 12) 0x3f; h3 = js_and (js_shr bits 6) 0x3f; h4 = js_and bits 0x3f;
         h4 = (if i + 2 \<ge> length str then 64 else h4); h3 = (if i + 1 \<ge> length str then 64 else h3)
     in char_at b64 h1 @ char_at b64 h2 @ char_at b64 h3 @ char_at b64 h4)"

definition encodeBase64 :: "codes \<Rightarrow> string" where
  "encodeBase64 str =
    (let str = encodeUTF8 str in concat (List.map (\<lambda>k. encode_round str (3 * k)) [0..<max 1 ((length str + 2) div 3)]))"

text \<open>\<open>indexOf\<close> of the empty string, past the end of the input, is 0.\<close>

definition b64_index :: "string \<Rightarrow> nat \<Rightarrow> int" where
  "b64_index str i =
    (if i < length str then (if str ! i \<in> set b64 then int (length (takeWhile (\<lambda>c. c \<noteq> str ! i) b64)) else - 1) else 0)"

definition decode_round :: "string \<Rightarrow> nat \<Rightarrow> codes" where
  "decode_round str i =
    (let h1 = b64_index str i; h2 = b64_index str (i + 1); h3 = b64_index str (i + 2); h4 = b64_index str (i + 3);
         bits = js_or (js_or (js_or (js_shl h1 18) (js_shl h2 12)) (js_shl h3 6)) h4;
         o1 = js_and (js_shr bits 16) 0xff; o2 = js_and (js_shr bits 8) 0xff; o3 = js_and bits 0xff
     in if h3 = 64 then [fromCharCode o1] else if h4 = 64 then [fromCharCode o1, fromCharCode o2]
        else [fromCharCode o1, fromCharCode o2, fromCharCode o3])"

definition decodeBase64 :: "string \<Rightarrow> codes" where
  "decodeBase64 str = decodeUTF8 (concat (List.map (\<lambda>k. decode_round str (4 * k)) [0..<max 1 ((length str + 3) div 4)]))"

text \<open>\<open>b[i].toString(16)\<close> of a byte.\<close>

fun hex_nat :: "nat \<Rightarrow> string" where
  "hex_nat n = (if n < 16 then char_at hex_tab (int n) else hex_nat (n div 16) @ char_at hex_tab (int (n mod 16)))"

declare hex_nat.simps [simp del]

definition byteArrayToHexStr :: "int list \<Rightarrow> string" where
  "byteArrayToHexStr b = concat (List.map (\<lambda>x. (if x < 0 then ''-'' else '''') @ hex_nat (nat \<bar>x\<bar>) @ '' '') b)"

end
