(* ===== verification/Sun_Aes_Fips.thy ===== *)
theory Sun_Aes_Fips
  imports Sun_Aes
begin

unbundle bit_operations_syntax

text \<open>
  FIPS 197 on 8-bit words, with the product of its field written as shift and add, and the proof that \<open>Cipher\<close> and
  \<open>KeyExpansion\<close> of \<open>crypto-aes.js\<close> compute it: the loops over the array of rows become functions of row and column (\<open>mat\<close>),
  every number the cipher holds stays a byte, and each transformation of the source is the one of the standard.
\<close>

section \<open>The state as a matrix\<close>

definition mat :: "(nat \<Rightarrow> nat \<Rightarrow> int) \<Rightarrow> int list list" where
  "mat f = List.map (\<lambda>r. List.map (\<lambda>c. f r c) [0..<4]) [0..<4]"

lemma four: "[0..<4] = [0, 1, 2, 3]" "[1..<4] = [1, 2, 3]"
  by (simp_all add: upt_rec)

lemma less_four: "r < 4 \<longleftrightarrow> r = 0 \<or> r = 1 \<or> r = 2 \<or> r = (3::nat)"
  by auto

lemma mat_cong: "(\<And>r c. r < 4 \<Longrightarrow> c < 4 \<Longrightarrow> f r c = g r c) \<Longrightarrow> mat f = mat g"
  by (simp add: mat_def)

lemma get2_mat: "r < 4 \<Longrightarrow> c < 4 \<Longrightarrow> get2 (mat f) r c = f r c"
  by (simp add: mat_def get2_def elem_at_def)

lemma set2_mat: "r < 4 \<Longrightarrow> c < 4 \<Longrightarrow> set2 (mat f) r c v = mat (\<lambda>i j. if i = r \<and> j = c then v else f i j)"
  by (rule nth_equalityI) (auto simp: mat_def set2_def set_at_def nth_list_update intro!: nth_equalityI)

text \<open>A loop over one row that writes each element once.\<close>

lemma row_loop:
  assumes "r < 4" "\<And>f c. c < 4 \<Longrightarrow> step (mat f) c = set2 (mat f) r c (g f c)"
    and "\<And>f f' c. c < 4 \<Longrightarrow> (\<And>j. c \<le> j \<Longrightarrow> f' r j = f r j) \<Longrightarrow> (\<And>i j. i \<noteq> r \<Longrightarrow> f' i j = f i j) \<Longrightarrow> g f' c = g f c"
  shows "foldl step (mat f) [0..<4] = mat (\<lambda>i j. if i = r then g f j else f i j)"
proof -
  have "n \<le> 4 \<Longrightarrow> foldl step (mat f) [0..<n] = mat (\<lambda>i j. if i = r \<and> j < n then g f j else f i j)" for n
  proof (induction n)
    case (Suc n)
    have "g (\<lambda>i j. if i = r \<and> j < n then g f j else f i j) n = g f n"
      using Suc.prems by (intro assms(3)) auto
    then show ?case
      using Suc assms(1,2) by (auto simp: set2_mat less_Suc_eq intro!: mat_cong)
  qed simp
  from this [of 4] show ?thesis by (auto intro!: mat_cong)
qed

lemma rows_loop:
  assumes "\<And>f r. r < 4 \<Longrightarrow> m \<le> r \<Longrightarrow> step (mat f) r = mat (\<lambda>i j. if i = r then g f r j else f i j)"
    and "\<And>f f' r j. r < 4 \<Longrightarrow> (\<And>i j. r \<le> i \<Longrightarrow> f' i j = f i j) \<Longrightarrow> g f' r j = g f r j"
  shows "foldl step (mat f) [m..<4] = mat (\<lambda>i j. if m \<le> i then g f i j else f i j)"
proof -
  have "n \<le> 4 \<Longrightarrow> foldl step (mat f) [m..<n] = mat (\<lambda>i j. if m \<le> i \<and> i < n then g f i j else f i j)" for n
  proof (induction n)
    case (Suc n)
    have e: "g (\<lambda>i j. if m \<le> i \<and> i < n then g f i j else f i j) n j = g f n j" for j
      using Suc.prems by (intro assms(2)) auto
    show ?case
    proof (cases "m \<le> n")
      case True
      then show ?thesis using Suc assms(1) by (auto simp: less_Suc_eq e intro!: mat_cong)
    next
      case False
      then show ?thesis by (auto intro!: mat_cong)
    qed
  qed simp
  from this [of 4] show ?thesis by (auto intro!: mat_cong)
qed

lemma SubBytes_mat: "SubBytes (mat f) 4 = mat (\<lambda>r c. index_at Sbox (f r c))"
proof -
  have row: "foldl (\<lambda>s c. set2 s r c (index_at Sbox (get2 s r c))) (mat f) [0..<4] = mat (\<lambda>i j. if i = r then index_at Sbox (f r j) else f i j)"
    if "r < 4" for f r
    by (rule row_loop [OF that]) (simp_all add: get2_mat that)
  have "SubBytes (mat f) 4 = mat (\<lambda>r c. if 0 \<le> r then index_at Sbox (f r c) else f r c)"
    unfolding SubBytes_def by (rule rows_loop [where g = "\<lambda>f r j. index_at Sbox (f r j)"]) (simp_all add: row)
  then show ?thesis by simp
qed

lemma ShiftRows_mat: "ShiftRows (mat f) 4 = mat (\<lambda>r c. f r ((c + r) mod 4))"
proof -
  have row: "foldl (\<lambda>s c. set2 s r c (map (\<lambda>c. get2 (mat f) r ((c + r) mod 4)) [0..<4] ! c)) (mat f) [0..<4] =
      mat (\<lambda>i j. if i = r then map (\<lambda>c. get2 (mat f) r ((c + r) mod 4)) [0..<4] ! j else f i j)" if "r < 4" for f r
    by (rule row_loop [OF that, where g = "\<lambda>_ c. map (\<lambda>c. get2 (mat f) r ((c + r) mod 4)) [0..<4] ! c"]) simp_all
  have "ShiftRows (mat f) 4 = mat (\<lambda>i j. if 1 \<le> i then f i ((j + i) mod 4) else f i j)"
    unfolding ShiftRows_def Let_def
  proof (rule rows_loop [where g = "\<lambda>f r j. f r ((j + r) mod 4)"])
    fix f :: "nat \<Rightarrow> nat \<Rightarrow> int" and r :: nat
    assume r: "r < 4" "1 \<le> r"
    show "foldl (\<lambda>s c. set2 s r c (map (\<lambda>c. get2 (mat f) r ((c + r) mod 4)) [0..<4] ! c)) (mat f) [0..<4] =
      mat (\<lambda>i j. if i = r then f r ((j + r) mod 4) else f i j)"
      unfolding row [OF r(1)] by (rule mat_cong) (simp add: get2_mat)
  qed simp
  then show ?thesis by (auto simp: Suc_le_eq intro!: mat_cong)
qed

definition mix :: "(nat \<Rightarrow> nat \<Rightarrow> int) \<Rightarrow> nat \<Rightarrow> nat \<Rightarrow> int" where
  "mix f r c =
    (if r = 0 then xor5 (xtime (f 0 c)) (f 1 c) (xtime (f 1 c)) (f 2 c) (f 3 c)
     else if r = 1 then xor5 (f 0 c) (xtime (f 1 c)) (f 2 c) (xtime (f 2 c)) (f 3 c)
     else if r = 2 then xor5 (f 0 c) (f 1 c) (xtime (f 2 c)) (f 3 c) (xtime (f 3 c))
     else xor5 (f 0 c) (xtime (f 0 c)) (f 1 c) (f 2 c) (xtime (f 3 c)))"

lemma MixColumns_mat: "MixColumns (mat f) 4 = mat (mix f)"
proof -
  define step where "step = (\<lambda>s c.
        let a = List.map (\<lambda>i. get2 s i c) [0..<4]; b = List.map (\<lambda>i. xtime (get2 s i c)) [0..<4];
            s = set2 s 0 c (xor5 (b ! 0) (a ! 1) (b ! 1) (a ! 2) (a ! 3));
            s = set2 s 1 c (xor5 (a ! 0) (b ! 1) (a ! 2) (b ! 2) (a ! 3));
            s = set2 s 2 c (xor5 (a ! 0) (a ! 1) (b ! 2) (a ! 3) (b ! 3))
        in set2 s 3 c (xor5 (a ! 0) (b ! 0) (a ! 1) (a ! 2) (b ! 3)))"
  have st: "step (mat f) c = mat (\<lambda>i j. if j = c then mix f i j else f i j)" if "c < 4" for f c
  proof -
    have "step (mat f) c = mat (\<lambda>i j. if i = 3 \<and> j = c then mix f 3 c else if i = 2 \<and> j = c then mix f 2 c
        else if i = 1 \<and> j = c then mix f 1 c else if i = 0 \<and> j = c then mix f 0 c else f i j)"
      using that unfolding step_def Let_def by (simp add: set2_mat get2_mat mix_def numeral_2_eq_2 cong del: if_weak_cong)
    also have "\<dots> = mat (\<lambda>i j. if j = c then mix f i j else f i j)"
      by (rule mat_cong) (simp add: less_four, elim disjE, simp_all)
    finally show ?thesis .
  qed
  have "n \<le> 4 \<Longrightarrow> foldl step (mat f) [0..<n] = mat (\<lambda>i j. if j < n then mix f i j else f i j)" for n
  proof (induction n)
    case (Suc n)
    have "mix (\<lambda>i j. if j < n then mix f i j else f i j) i n = mix f i n" for i by (simp add: mix_def)
    then show ?case using Suc by (auto simp: st less_Suc_eq intro!: mat_cong)
  qed simp
  from this [of 4] show ?thesis unfolding MixColumns_def step_def by (auto intro!: mat_cong)
qed

lemma for_each_pure:
  "(\<And>x s. x \<in> set xs \<Longrightarrow> P s \<Longrightarrow> f x s = Inr (g s x) \<and> P (g s x)) \<Longrightarrow> P s \<Longrightarrow> for_each f xs s = Inr (foldl g s xs)"
  by (induction xs arbitrary: s) auto

lemma AddRoundKey_mat:
  assumes "rnd * 4 + 3 < length w"
  shows "AddRoundKey (mat f) w rnd 4 = Inr (mat (\<lambda>r c. js_xor (f r c) (elem_at (w ! (rnd * 4 + c)) r)))"
proof -
  define k where "k = (\<lambda>r c. elem_at (w ! (rnd * 4 + c)) r)"
  have row: "row_of w (int (rnd * 4 + c)) = Inr (w ! (rnd * 4 + c))" if "c < 4" for c
    using assms that by (simp add: row_of_def del: of_nat_add of_nat_mult)
  define inner where "inner = (\<lambda>r s c. set2 s r c (js_xor (get2 s r c) (k r c)))"
  have "for_each (\<lambda>c s. rbind (row_of w (int (rnd * 4 + c))) (\<lambda>q. ok (set2 s r c (js_xor (get2 s r c) (elem_at q r))))) [0..<4] s =
      Inr (foldl (inner r) s [0..<4])" for r s
    by (rule for_each_pure [where P = "\<lambda>_. True"]) (simp_all add: row inner_def k_def del: of_nat_add of_nat_mult)
  then have "AddRoundKey (mat f) w rnd 4 = Inr (foldl (\<lambda>s r. foldl (inner r) s [0..<4]) (mat f) [0..<4])"
    unfolding AddRoundKey_def by (intro for_each_pure [where P = "\<lambda>_. True"]) simp_all
  moreover have "foldl (inner r) (mat f) [0..<4] = mat (\<lambda>i j. if i = r then js_xor (f r j) (k r j) else f i j)" if "r < 4" for f r
    by (rule row_loop [OF that]) (simp_all add: inner_def get2_mat that)
  then have "foldl (\<lambda>s r. foldl (inner r) s [0..<4]) (mat f) [0..<4] = mat (\<lambda>r c. if 0 \<le> r then js_xor (f r c) (k r c) else f r c)"
    by (intro rows_loop [where g = "\<lambda>f r j. js_xor (f r j) (k r j)"]) simp_all
  ultimately show ?thesis by (simp add: k_def)
qed

section \<open>Every byte stays a byte\<close>

lemma xor5_byte [intro]: "byte a \<Longrightarrow> byte b \<Longrightarrow> byte c \<Longrightarrow> byte d \<Longrightarrow> byte e \<Longrightarrow> byte (xor5 a b c d e)"
  unfolding xor5_def by (intro byte_xor)

text \<open>Multiplication by \<open>x\<close> in the field of FIPS 197, on 8-bit words.\<close>

definition xt :: "8 word \<Rightarrow> 8 word" where
  "xt a = push_bit 1 a XOR (if bit a 7 then 0x1b else 0)"

lemma xtime_table: "list_all (\<lambda>a. xtime a = uint (xt (word_of_int a))) [0..255]"
  by code_simp

lemma xtime_word: "byte a \<Longrightarrow> xtime a = uint (xt (word_of_int a))"
  using xtime_table by (auto simp: list_all_iff byte_def)

lemma uint_byte [simp]: "byte (uint (x :: 8 word))"
  using uint_lt2p [of x] by (simp add: byte_def)

lemma xtime_byte [intro]: "byte a \<Longrightarrow> byte (xtime a)"
  by (simp add: xtime_word)

lemma Sbox_byte: "byte (index_at Sbox x)"
proof -
  have "list_all byte Sbox" by (simp add: Sbox_def byte_def)
  then show ?thesis by (auto simp: index_at_def elem_at_def list_all_length byte_def)
qed

section \<open>FIPS 197 on 8-bit words\<close>

text \<open>The product in the field: shift and add, with \<open>xt\<close> as the shift.\<close>

fun gmul_bits :: "nat \<Rightarrow> 8 word \<Rightarrow> 8 word \<Rightarrow> 8 word" where
  "gmul_bits 0 a b = 0"
| "gmul_bits (Suc n) a b = (if bit b 0 then a else 0) XOR gmul_bits n (xt a) (drop_bit 1 b)"

definition gmul :: "8 word \<Rightarrow> 8 word \<Rightarrow> 8 word" where
  "gmul a b = gmul_bits 8 a b"

type_synonym aes_state = "nat \<Rightarrow> nat \<Rightarrow> 8 word"

definition fips_sub :: "aes_state \<Rightarrow> aes_state" where
  "fips_sub S r c = word_of_int (index_at Sbox (uint (S r c)))"

definition fips_shift :: "aes_state \<Rightarrow> aes_state" where
  "fips_shift S r c = S r ((c + r) mod 4)"

definition fips_mix :: "aes_state \<Rightarrow> aes_state" where
  "fips_mix S r c =
    gmul (S r c) 2 XOR gmul (S ((r + 1) mod 4) c) 3 XOR S ((r + 2) mod 4) c XOR S ((r + 3) mod 4) c"

definition fips_add :: "aes_state \<Rightarrow> nat \<Rightarrow> aes_state \<Rightarrow> aes_state" where
  "fips_add K rnd S r c = S r c XOR K (4 * rnd + c) r"

definition fips_cipher :: "aes_state \<Rightarrow> nat \<Rightarrow> aes_state \<Rightarrow> aes_state" where
  "fips_cipher K Nr S =
    fips_add K Nr (fips_shift (fips_sub (foldl (\<lambda>S rnd. fips_add K rnd (fips_mix (fips_shift (fips_sub S)))) (fips_add K 0 S) [1..<Nr])))"

text \<open>The words of a key schedule: word \<open>i\<close>, byte \<open>t\<close>.\<close>

definition aes_schedule :: "int list list \<Rightarrow> aes_state" where
  "aes_schedule w i t = word_of_int (elem_at (w ! i) t)"

definition schedule_ok :: "nat \<Rightarrow> int list list \<Rightarrow> bool" where
  "schedule_ok Nr w \<longleftrightarrow> 1 \<le> Nr \<and> length w = 4 * (Nr + 1) \<and> (\<forall>i<length w. \<forall>t<4. byte (elem_at (w ! i) t))"

definition umat :: "aes_state \<Rightarrow> int list list" where
  "umat S = mat (\<lambda>r c. uint (S r c))"

lemma byte_uint: "byte x \<Longrightarrow> uint (word_of_int x :: 8 word) = x"
  by (simp add: byte_take_bit uint_word_of_int_eq)

lemma js_xor_uint: "js_xor (uint (a :: 8 word)) (uint b) = uint (a XOR b)"
  by (simp add: js_xor_def byte_int32 unsigned_xor_eq)

lemma xtime_uint: "xtime (uint a) = uint (xt a)"
  by (simp add: xtime_word)

lemma gmul_bits_0: "gmul_bits n a 0 = 0"
  by (induction n arbitrary: a) simp_all

lemma gmul_small: "gmul a 2 = xt a" "gmul a 3 = xt a XOR a"
proof -
  have d: "drop_bit 1 (2 :: 8 word) = 1" "drop_bit 1 (3 :: 8 word) = 1" "drop_bit 1 (1 :: 8 word) = 0"
    "\<not> bit (2 :: 8 word) 0" "bit (3 :: 8 word) 0" "bit (1 :: 8 word) 0" by code_simp+
  have e: "gmul a b = gmul_bits (Suc (Suc 6)) a b" for b by (simp add: gmul_def)
  show "gmul a 2 = xt a" "gmul a 3 = xt a XOR a"
    unfolding e gmul_bits.simps d by (simp_all add: d gmul_bits_0 xor.commute)
qed

lemma SubBytes_umat: "SubBytes (umat S) 4 = umat (fips_sub S)"
  by (simp add: umat_def SubBytes_mat fips_sub_def [abs_def] byte_uint Sbox_byte)

lemma ShiftRows_umat: "ShiftRows (umat S) 4 = umat (fips_shift S)"
  by (simp add: umat_def ShiftRows_mat fips_shift_def [abs_def])

lemma mix_uint:
  assumes "r < 4"
  shows "mix (\<lambda>r c. uint (S r c)) r c = uint (fips_mix S r c)"
proof -
  have m: "(1 + 1) mod 4 = (2::nat)" "(1 + 2) mod 4 = (3::nat)" "(1 + 3) mod 4 = (0::nat)" "(2 + 1) mod 4 = (3::nat)"
    "(2 + 2) mod 4 = (0::nat)" "(2 + 3) mod 4 = (1::nat)" "(3 + 1) mod 4 = (0::nat)" "(3 + 2) mod 4 = (1::nat)" "(3 + 3) mod 4 = (2::nat)"
    "(0 + 1) mod 4 = (1::nat)" "(0 + 2) mod 4 = (2::nat)" "(0 + 3) mod 4 = (3::nat)" by simp_all
  have n: "(1::nat) = 0 \<longleftrightarrow> False" "(2::nat) = 0 \<longleftrightarrow> False" "(2::nat) = 1 \<longleftrightarrow> False" "(3::nat) = 0 \<longleftrightarrow> False" "(3::nat) = 1 \<longleftrightarrow> False"
    "(3::nat) = 2 \<longleftrightarrow> False" by simp_all
  consider "r = 0" | "r = 1" | "r = 2" | "r = 3" using assms by linarith
  then show ?thesis
    by cases (simp_all only: mix_def xor5_def xtime_uint js_xor_uint fips_mix_def gmul_small m n if_True if_False simp_thms,
      simp_all only: ac_simps)
qed

lemma MixColumns_umat: "MixColumns (umat S) 4 = umat (fips_mix S)"
  unfolding umat_def MixColumns_mat by (rule mat_cong) (rule mix_uint)

lemma AddRoundKey_umat:
  assumes "schedule_ok Nr w" "rnd \<le> Nr"
  shows "AddRoundKey (umat S) w rnd 4 = Inr (umat (fips_add (aes_schedule w) rnd S))"
proof -
  have l: "rnd * 4 + 3 < length w" using assms by (simp add: schedule_ok_def)
  have "js_xor (uint (S r c)) (elem_at (w ! (rnd * 4 + c)) r) = uint (fips_add (aes_schedule w) rnd S r c)" if "r < 4" "c < 4" for r c
  proof -
    have "byte (elem_at (w ! (rnd * 4 + c)) r)" using assms l that by (simp add: schedule_ok_def)
    then show ?thesis using js_xor_uint [of "S r c" "word_of_int (elem_at (w ! (rnd * 4 + c)) r)"]
      by (simp add: byte_uint fips_add_def aes_schedule_def mult.commute)
  qed
  then show ?thesis unfolding umat_def AddRoundKey_mat [OF l] by (auto intro!: mat_cong)
qed

lemma rounds_umat:
  assumes "schedule_ok Nr w" "\<forall>rnd \<in> set rs. rnd \<le> Nr"
  shows "for_each (\<lambda>round state. AddRoundKey (MixColumns (ShiftRows (SubBytes state 4) 4) 4) w round 4) rs (umat S) =
    Inr (umat (foldl (\<lambda>S rnd. fips_add (aes_schedule w) rnd (fips_mix (fips_shift (fips_sub S)))) S rs))"
  using assms(2)
  by (induction rs arbitrary: S) (simp_all add: SubBytes_umat ShiftRows_umat MixColumns_umat AddRoundKey_umat [OF assms(1)])

definition aes_state_of :: "int list \<Rightarrow> aes_state" where
  "aes_state_of input r c = word_of_int (elem_at input (r + 4 * c))"

lemma Cipher_input: "foldl (\<lambda>s i. set2 s (i mod 4) (i div 4) (elem_at input i)) [[], [], [], []] [0..<4 * 4] = mat (\<lambda>r c. elem_at input (r + 4 * c))"
proof -
  have u: "[0..<4 * 4] = [0, 1, 2, 3, 4, 5, 6, 7, 8, 9, 10, 11, 12, 13, 14, 15]" by (simp add: upt_rec)
  have r: "set2 [p, q, r, s] 0 k v = [set_at p k v, q, r, s]" "set2 [p, q, r, s] 1 k v = [p, set_at q k v, r, s]"
    "set2 [p, q, r, s] 2 k v = [p, q, set_at r k v, s]" "set2 [p, q, r, s] 3 k v = [p, q, r, set_at s k v]" for p q r s k v
    by (simp_all add: set2_def numeral_2_eq_2 numeral_3_eq_3)
  have a: "set_at [] 0 v = [v]" "set_at [x] 1 v = [x, v]" "set_at [x, y] 2 v = [x, y, v]" "set_at [x, y, z] 3 v = [x, y, z, v]" for x y z v
    by (simp_all add: set_at_def)
  have m: "(0::nat) mod 4 = 0" "(1::nat) mod 4 = 1" "(2::nat) mod 4 = 2" "(3::nat) mod 4 = 3" "(4::nat) mod 4 = 0" "(5::nat) mod 4 = 1"
    "(6::nat) mod 4 = 2" "(7::nat) mod 4 = 3" "(8::nat) mod 4 = 0" "(9::nat) mod 4 = 1" "(10::nat) mod 4 = 2" "(11::nat) mod 4 = 3"
    "(12::nat) mod 4 = 0" "(13::nat) mod 4 = 1" "(14::nat) mod 4 = 2" "(15::nat) mod 4 = 3"
    "(0::nat) div 4 = 0" "(1::nat) div 4 = 0" "(2::nat) div 4 = 0" "(3::nat) div 4 = 0" "(4::nat) div 4 = 1" "(5::nat) div 4 = 1"
    "(6::nat) div 4 = 1" "(7::nat) div 4 = 1" "(8::nat) div 4 = 2" "(9::nat) div 4 = 2" "(10::nat) div 4 = 2" "(11::nat) div 4 = 2"
    "(12::nat) div 4 = 3" "(13::nat) div 4 = 3" "(14::nat) div 4 = 3" "(15::nat) div 4 = 3" by simp_all
  show ?thesis unfolding u foldl_Cons foldl_Nil m r a by (simp add: mat_def four)
qed

lemma Cipher_fips:
  assumes w: "schedule_ok Nr w" and b: "\<And>i. i < 16 \<Longrightarrow> byte (elem_at input i)"
  shows "Cipher input w = Inr (List.map (\<lambda>i. uint (fips_cipher (aes_schedule w) Nr (aes_state_of input) (i mod 4) (i div 4))) [0..<16])"
proof -
  have Nr: "length w div 4 - 1 = Nr" using w by (simp add: schedule_ok_def)
  have start: "mat (\<lambda>r c. elem_at input (r + 4 * c)) = umat (aes_state_of input)"
    unfolding umat_def by (rule mat_cong) (simp add: aes_state_of_def byte_uint b)
  have "Cipher input w = Inr (List.map (\<lambda>i. get2 (umat (fips_cipher (aes_schedule w) Nr (aes_state_of input))) (i mod 4) (i div 4)) [0..<4 * 4])"
    unfolding Cipher_def Let_def Cipher_input start Nr fips_cipher_def
    by (simp add: AddRoundKey_umat [OF w] rounds_umat [OF w] SubBytes_umat ShiftRows_umat)
  then show ?thesis by (auto simp: umat_def get2_mat intro!: nth_equalityI)
qed

section \<open>The key expansion of FIPS 197\<close>

definition fips_sbox :: "8 word \<Rightarrow> 8 word" where
  "fips_sbox x = word_of_int (index_at Sbox (uint x))"

fun xt_power :: "nat \<Rightarrow> 8 word" where
  "xt_power 0 = 1"
| "xt_power (Suc n) = xt (xt_power n)"

function aes_w :: "int list \<Rightarrow> nat \<Rightarrow> nat \<Rightarrow> nat \<Rightarrow> 8 word" where
  "aes_w key Nk i t =
    (if i < Nk \<or> Nk = 0 then word_of_int (elem_at key (4 * i + t))
     else aes_w key Nk (i - Nk) t XOR
       (if i mod Nk = 0 then fips_sbox (aes_w key Nk (i - 1) ((t + 1) mod 4)) XOR (if t = 0 then xt_power (i div Nk - 1) else 0)
        else if Nk > 6 \<and> i mod Nk = 4 then fips_sbox (aes_w key Nk (i - 1) t)
        else aes_w key Nk (i - 1) t))"
  by auto
termination by (relation "measure (\<lambda>(key, Nk, i, t). i)") auto

declare aes_w.simps [simp del]

definition col :: "(nat \<Rightarrow> 8 word) \<Rightarrow> int list" where
  "col f = List.map (\<lambda>t. uint (f t)) [0..<4]"

lemma elem_col: "t < 4 \<Longrightarrow> elem_at (col f) t = uint (f t)"
  by (simp add: col_def elem_at_def)

lemma set_four: "elem_at (foldl (\<lambda>x t. set_at x t (h x t)) x [0..<4]) i =
    (if i < 4 then h (foldl (\<lambda>x t. set_at x t (h x t)) x [0..<i]) i else elem_at x i)"
proof -
  have "elem_at (foldl (\<lambda>x t. set_at x t (h x t)) x [0..<n]) i =
    (if i < n then h (foldl (\<lambda>x t. set_at x t (h x t)) x [0..<i]) i else elem_at x i)" for n
    by (induction n) (auto simp: elem_set_any less_Suc_eq)
  then show ?thesis by simp
qed

lemma set_below: "elem_at (foldl (\<lambda>x t. set_at x t (h x t)) x [0..<n]) i = elem_at x i" if "n \<le> i"
  using that by (induction n) (auto simp: elem_set_any)

lemma copy_four: "t < 4 \<Longrightarrow> elem_at (foldl (\<lambda>x t. set_at x t (g t)) x [0..<4]) t = g t"
  by (simp add: set_four)

lemma SubWord_elem: "t < 4 \<Longrightarrow> elem_at (SubWord x) t = index_at Sbox (elem_at x t)"
  by (simp add: SubWord_def set_four set_below)

lemma RotWord_elem: "t < 4 \<Longrightarrow> elem_at (RotWord x) t = elem_at x ((t + 1) mod 4)"
  by (auto simp: RotWord_def set_four set_below elem_set_any less_four)

lemma xor_four: "t < 4 \<Longrightarrow> elem_at (foldl (\<lambda>x t. set_at x t (js_xor (elem_at x t) (g t))) x [0..<4]) t = js_xor (elem_at x t) (g t)"
  by (simp add: set_four set_below)

lemma Rcon_power: "list_all (\<lambda>k. Rcon ! k = [uint (xt_power (k - 1)), 0, 0, 0]) [1..<11]"
  by code_simp

lemma Rcon_elem:
  assumes "1 \<le> k" "k \<le> 10" "t < 4"
  shows "row_of Rcon (int k) = Inr (Rcon ! k)" "elem_at (Rcon ! k) t = uint (if t = 0 then xt_power (k - 1) else 0)"
proof -
  have "Rcon ! k = [uint (xt_power (k - 1)), 0, 0, 0]" using Rcon_power assms by (auto simp: list_all_iff)
  then show "elem_at (Rcon ! k) t = uint (if t = 0 then xt_power (k - 1) else 0)"
    using assms(3) by (auto simp: elem_at_def less_four numeral_2_eq_2 numeral_3_eq_3)
  show "row_of Rcon (int k) = Inr (Rcon ! k)" using assms by (simp add: row_of_def Rcon_def)
qed

lemma Sbox_uint: "index_at Sbox (uint x) = uint (fips_sbox x)"
  by (simp add: fips_sbox_def byte_uint Sbox_byte)

lemma col_row: "i < n \<Longrightarrow> row_of (List.map (\<lambda>k. col (f k)) [0..<n]) (int i) = Inr (col (f i))"
  by (simp add: row_of_def)

lemma expand_step_fips:
  assumes Nk: "Nk = 4 \<or> Nk = 6 \<or> Nk = 8" and i: "Nk \<le> i" "i < 4 * (Nk + 7)"
    and w: "w = List.map (\<lambda>k. col (aes_w key Nk k)) [0..<i]"
  shows "\<exists>temp'. expand_step Nk i (w, temp) = Inr (w @ [col (aes_w key Nk i)], temp')"
proof -
  have k: "i mod Nk = 0 \<Longrightarrow> 1 \<le> i div Nk \<and> i div Nk \<le> 10" using Nk i by (auto simp: div_le_mono Suc_le_eq div_greater_zero_iff)
  define p where "p = col (aes_w key Nk (i - 1))"
  define q where "q = col (aes_w key Nk (i - Nk))"
  have e: "int i - 1 = int (i - 1)" "int i - int Nk = int (i - Nk)" using i Nk by auto
  have rows: "row_of w (int i - 1) = Inr p" "row_of w (int i - int Nk) = Inr q"
  proof -
    have a: "i - 1 < i" "i - Nk < i" using i Nk by auto
    show "row_of w (int i - 1) = Inr p" "row_of w (int i - int Nk) = Inr q"
      by (simp_all only: w e p_def q_def col_row [OF a(1)] col_row [OF a(2)])
  qed
  define t1 where "t1 = foldl (\<lambda>temp t. set_at temp t (elem_at p t)) temp [0..<4]"
  have t1: "elem_at t1 t = uint (aes_w key Nk (i - 1) t)" if "t < 4" for t
    using that by (simp add: t1_def copy_four p_def elem_col)
  define t2 where "t2 = (if i mod Nk = 0 then
      foldl (\<lambda>temp t. set_at temp t (js_xor (elem_at temp t) (elem_at (Rcon ! (i div Nk)) t))) (SubWord (RotWord t1)) [0..<4]
    else if Nk > 6 \<and> i mod Nk = 4 then SubWord t1 else t1)"
  have "aes_w key Nk i t = aes_w key Nk (i - Nk) t XOR
     (if i mod Nk = 0 then fips_sbox (aes_w key Nk (i - 1) ((t + 1) mod 4)) XOR (if t = 0 then xt_power (i div Nk - 1) else 0)
        else if Nk > 6 \<and> i mod Nk = 4 then fips_sbox (aes_w key Nk (i - 1) t) else aes_w key Nk (i - 1) t)" for t
    using i Nk by (subst aes_w.simps) auto
  then have "js_xor (elem_at q t) (elem_at t2 t) = uint (aes_w key Nk i t)" if "t < 4" for t
    using that k Rcon_elem(2) [of "i div Nk" t] t1 [OF that] t1 [of "(t + 1) mod 4"]
    by (auto simp: q_def elem_col t2_def xor_four SubWord_elem RotWord_elem Sbox_uint js_xor_uint)
  then have row: "List.map (\<lambda>t. js_xor (elem_at q t) (elem_at t2 t)) [0..<4] = col (aes_w key Nk i)"
    by (simp add: col_def)
  have choice: "rbind (if i mod Nk = 0 then rbind (row_of Rcon (int (i div Nk))) (\<lambda>rc.
          ok (foldl (\<lambda>temp t. set_at temp t (js_xor (elem_at temp t) (elem_at rc t))) (SubWord (RotWord t1)) [0..<4]))
        else if Nk > 6 \<and> i mod Nk = 4 then ok (SubWord t1) else ok t1) g = g t2" for g :: "int list \<Rightarrow> (int list list \<times> int list) res"
    using k Rcon_elem(1) [of "i div Nk" 0] by (simp add: t2_def)
  have "expand_step Nk i (w, temp) = Inr (w @ [col (aes_w key Nk i)], t2)"
    unfolding expand_step_def Let_def prod.case rows rbind.simps t1_def [symmetric] choice row unfolding ok_def ..
  then show ?thesis by blast
qed

lemma KeyExpansion_fips:
  assumes Nk: "Nk = 4 \<or> Nk = 6 \<or> Nk = 8" and l: "length key = 4 * Nk" and b: "\<And>i. i < length key \<Longrightarrow> byte (elem_at key i)"
  shows "KeyExpansion key = Inr (List.map (\<lambda>k. col (aes_w key Nk k)) [0..<4 * (Nk + 7)])"
proof -
  let ?w = "\<lambda>n. List.map (\<lambda>k. col (aes_w key Nk k)) [0..<n]"
  have loop: "\<exists>temp'. for_each (expand_step Nk) [i..<4 * (Nk + 7)] (?w i, temp) = Inr (?w (4 * (Nk + 7)), temp')"
    if "Nk \<le> i" "i \<le> 4 * (Nk + 7)" for i temp
    using that
  proof (induction "4 * (Nk + 7) - i" arbitrary: i temp)
    case (Suc m)
    then have i: "i < 4 * (Nk + 7)" by simp
    obtain t' where "expand_step Nk i (?w i, temp) = Inr (?w i @ [col (aes_w key Nk i)], t')"
      using expand_step_fips [OF Nk Suc.prems(1) i refl] by blast
    then have "expand_step Nk i (?w i, temp) = Inr (?w (Suc i), t')" by simp
    then show ?case using Suc.hyps(1) [of "Suc i" t'] Suc.hyps(2) Suc.prems i by (simp add: upt_conv_Cons del: upt_Suc)
  qed simp
  have "List.map (\<lambda>i. List.map (\<lambda>t. elem_at key (4 * i + t)) [0..<4]) [0..<Nk] = ?w Nk"
    using l by (auto simp: col_def aes_w.simps [of key Nk] byte_uint b)
  moreover have "length key div 4 = Nk" using l by simp
  moreover obtain t' where "for_each (expand_step Nk) [Nk..<4 * (Nk + 7)] (?w Nk, replicate 4 0) = Inr (?w (4 * (Nk + 7)), t')"
    using loop [of Nk] by auto
  moreover have "4 * (Nk + 6 + 1) = 4 * (Nk + 7)" by simp
  ultimately show ?thesis unfolding KeyExpansion_def Let_def by (simp only: rbind.simps prod.case ok_def)
qed

lemma schedule_ok_fips:
  assumes "Nk = 4 \<or> Nk = 6 \<or> Nk = 8"
  shows "schedule_ok (Nk + 6) (List.map (\<lambda>k. col (f k)) [0..<4 * (Nk + 7)])"
  using assms by (auto simp: schedule_ok_def elem_col)

end
