(* ===== verification/Sun_Aes_Correct.thy ===== *)
theory Sun_Aes_Correct
  imports Sun_Aes_Fips
begin

unbundle bit_operations_syntax

text \<open>
  What \<open>sunspider/crypto-aes.js\<close> promises: the cipher and its tables are those of FIPS 197, the key schedule and the output have
  their shapes, counter-mode decryption inverts encryption, and what \<open>decodeUTF8\<close> does to three-byte characters.
\<close>

section \<open>The substitution box\<close>

definition byte_rot :: "nat \<Rightarrow> 8 word \<Rightarrow> 8 word" where
  "byte_rot k x = push_bit k x OR drop_bit (8 - k) x"

definition aes_affine :: "8 word \<Rightarrow> 8 word" where
  "aes_affine y = y XOR byte_rot 1 y XOR byte_rot 2 y XOR byte_rot 3 y XOR byte_rot 4 y XOR 0x63"

definition aes_unaffine :: "8 word \<Rightarrow> 8 word" where
  "aes_unaffine x = byte_rot 1 x XOR byte_rot 3 x XOR byte_rot 6 x XOR 0x05"

definition sbox_entry :: "int \<times> int \<Rightarrow> bool" where
  "sbox_entry ks = (let y = aes_unaffine (word_of_int (snd ks)) in gmul (word_of_int (fst ks)) y = 1 \<and> word_of_int (snd ks) = aes_affine y)"

lemma Sbox_table_1: "list_all sbox_entry (take 85 (zip [1..255] (tl Sbox)))"
  by code_simp

lemma Sbox_table_2: "list_all sbox_entry (take 85 (drop 85 (zip [1..255] (tl Sbox))))"
  by code_simp

lemma Sbox_table_3: "list_all sbox_entry (drop 170 (zip [1..255] (tl Sbox)))"
  by code_simp

lemma list_all_parts:
  "list_all P (take a xs) \<Longrightarrow> list_all P (take b (drop a xs)) \<Longrightarrow> list_all P (drop (a + b) xs) \<Longrightarrow> list_all P xs"
  by (metis append_take_drop_id drop_drop add.commute list_all_append)

lemma Sbox_inverse_table: "list_all sbox_entry (zip [1..255] (tl Sbox))"
  by (rule list_all_parts [OF Sbox_table_1 Sbox_table_2]) (simp only: numeral_plus_numeral add_num_simps Sbox_table_3)

lemma fips_sbox_zero: "fips_sbox 0 = aes_affine 0"
  by code_simp

lemma Sbox_length: "length Sbox = 256"
  by (simp add: Sbox_def)

lemma fips_sbox_inverse:
  assumes "x \<noteq> 0"
  shows "\<exists>y. gmul x y = 1 \<and> fips_sbox x = aes_affine y"
proof -
  define k where "k = nat (uint x) - 1"
  have "0 < uint x" "uint x < 256" using assms uint_byte [of x] by (auto simp: byte_def word_neq_0_conv word_less_def)
  then have k: "k < 255" "uint x = 1 + int k" unfolding k_def by linarith+
  then have z: "zip [1..255] (tl Sbox) ! k = (uint x, Sbox ! nat (uint x))" by (simp add: Sbox_def nth_tl nat_add_distrib)
  have "k < length (zip [1..255] (tl Sbox))" using k(1) by (simp add: Sbox_def)
  from Sbox_inverse_table [unfolded list_all_length, rule_format, OF this]
  moreover have "nat (uint x) < 256" using \<open>uint x < 256\<close> by linarith
  ultimately show ?thesis by (auto simp: sbox_entry_def z Let_def fips_sbox_def index_at_def elem_at_def Sbox_length)
qed

section \<open>The cipher depends on its rows and columns only\<close>

definition same_state :: "aes_state \<Rightarrow> aes_state \<Rightarrow> bool" where
  "same_state S S' \<longleftrightarrow> (\<forall>r<4. \<forall>c<4. S r c = S' r c)"

lemma same_mod: "same_state S S' \<Longrightarrow> S (a mod 4) (b mod 4) = S' (a mod 4) (b mod 4)"
  by (simp add: same_state_def)

lemma same_round:
  assumes "same_state S S'"
  shows "same_state (fips_sub S) (fips_sub S')" "same_state (fips_shift S) (fips_shift S')" "same_state (fips_mix S) (fips_mix S')"
  using assms by (auto simp: same_state_def fips_sub_def fips_shift_def fips_mix_def)

lemma same_add:
  assumes "\<forall>k < 4 * (Nr + 1). \<forall>t<4. K k t = K' k t" "rnd \<le> Nr" "same_state S S'"
  shows "same_state (fips_add K rnd S) (fips_add K' rnd S')"
  using assms by (auto simp: same_state_def fips_add_def)

lemma fips_cipher_same:
  assumes K: "\<forall>k < 4 * (Nr + 1). \<forall>t<4. K k t = K' k t"
  shows "same_state (fips_cipher K Nr S) (fips_cipher K' Nr S)"
proof -
  have start: "same_state (fips_add K 0 S) (fips_add K' 0 S)" by (rule same_add [OF K]) (auto simp: same_state_def)
  have "same_state (foldl (\<lambda>S rnd. fips_add K rnd (fips_mix (fips_shift (fips_sub S)))) A rs)
      (foldl (\<lambda>S rnd. fips_add K' rnd (fips_mix (fips_shift (fips_sub S)))) B rs)"
    if "same_state A B" "\<forall>rnd \<in> set rs. rnd \<le> Nr" for A B rs
    using that
  proof (induction rs arbitrary: A B)
    case (Cons rnd rs)
    have "same_state (fips_add K rnd (fips_mix (fips_shift (fips_sub A)))) (fips_add K' rnd (fips_mix (fips_shift (fips_sub B))))"
      by (rule same_add [OF K]) (use Cons.prems same_round in auto)
    then show ?case using Cons.IH Cons.prems by simp
  qed simp
  from this [OF start, of "[1..<Nr]"] show ?thesis
    unfolding fips_cipher_def by (intro same_add [OF K]) (auto intro: same_round)
qed

text \<open>
  C32: AES is the cipher of FIPS 197: for a key of 16, 24 or 32 bytes and a block of 16 bytes, \<open>Cipher\<close> under the schedule of
  \<open>KeyExpansion\<close> returns the bytes of the standard's cipher, computed on 8-bit words with the product of the field GF(2^8);
  and the table \<open>Sbox\<close> that both read is the affine image of the inverse in that field.
\<close>

theorem Cipher_is_fips197:
  assumes Nk: "Nk = 4 \<or> Nk = 6 \<or> Nk = 8" and key: "length key = 4 * Nk" "\<forall>x \<in> set key. 0 \<le> x \<and> x < 256"
    and input: "length input = 16" "\<forall>x \<in> set input. 0 \<le> x \<and> x < 256"
  shows "rbind (KeyExpansion key) (Cipher input) =
      Inr (List.map (\<lambda>i. uint (fips_cipher (aes_w key Nk) (Nk + 6) (aes_state_of input) (i mod 4) (i div 4))) [0..<16]) \<and>
    word_of_int (index_at Sbox 0) = aes_affine 0 \<and>
    (\<forall>x :: 8 word. x = 0 \<or> (\<exists>y. gmul x y = 1 \<and> word_of_int (index_at Sbox (uint x)) = aes_affine y))"
proof -
  have kb: "byte (elem_at key i)" if "i < length key" for i using key(2) that by (simp add: elem_at_def byte_def)
  have ib: "byte (elem_at input i)" if "i < 16" for i using input that by (simp add: elem_at_def byte_def)
  let ?w = "List.map (\<lambda>k. col (aes_w key Nk k)) [0..<4 * (Nk + 7)]"
  have ke: "KeyExpansion key = Inr ?w" by (rule KeyExpansion_fips [OF Nk key(1)]) (rule kb)
  have ci: "Cipher input ?w = Inr (List.map (\<lambda>i. uint (fips_cipher (aes_schedule ?w) (Nk + 6) (aes_state_of input) (i mod 4) (i div 4))) [0..<16])"
    by (rule Cipher_fips [OF schedule_ok_fips [OF Nk]]) (rule ib)
  have same: "same_state (fips_cipher (aes_schedule ?w) (Nk + 6) S) (fips_cipher (aes_w key Nk) (Nk + 6) S)" for S
    by (rule fips_cipher_same) (auto simp: aes_schedule_def elem_col)
  have "rbind (KeyExpansion key) (Cipher input) =
      Inr (List.map (\<lambda>i. uint (fips_cipher (aes_schedule ?w) (Nk + 6) (aes_state_of input) (i mod 4) (i div 4))) [0..<16])"
    by (simp only: ke ci rbind.simps)
  moreover have "fips_cipher (aes_schedule ?w) (Nk + 6) S (i mod 4) (i div 4) = fips_cipher (aes_w key Nk) (Nk + 6) S (i mod 4) (i div 4)"
    if "i < 16" for i S
    using same [of S] that unfolding same_state_def by simp
  ultimately have "rbind (KeyExpansion key) (Cipher input) =
      Inr (List.map (\<lambda>i. uint (fips_cipher (aes_w key Nk) (Nk + 6) (aes_state_of input) (i mod 4) (i div 4))) [0..<16])" by simp
  moreover have "word_of_int (index_at Sbox 0) = aes_affine 0" using fips_sbox_zero by (simp add: fips_sbox_def)
  moreover have "\<forall>x. x = 0 \<or> (\<exists>y. gmul x y = 1 \<and> word_of_int (index_at Sbox (uint x)) = aes_affine y)"
    using fips_sbox_inverse by (auto simp: fips_sbox_def)
  ultimately show ?thesis by blast
qed

theorem Cipher_is_fips197_witness:
  "rbind (KeyExpansion [0x2b, 0x7e, 0x15, 0x16, 0x28, 0xae, 0xd2, 0xa6, 0xab, 0xf7, 0x15, 0x88, 0x09, 0xcf, 0x4f, 0x3c])
      (Cipher [0x32, 0x43, 0xf6, 0xa8, 0x88, 0x5a, 0x30, 0x8d, 0x31, 0x31, 0x98, 0xa2, 0xe0, 0x37, 0x07, 0x34]) =
    Inr (List.map (\<lambda>i. uint (fips_cipher (aes_w [0x2b, 0x7e, 0x15, 0x16, 0x28, 0xae, 0xd2, 0xa6, 0xab, 0xf7, 0x15, 0x88, 0x09, 0xcf, 0x4f, 0x3c] 4)
      (4 + 6) (aes_state_of [0x32, 0x43, 0xf6, 0xa8, 0x88, 0x5a, 0x30, 0x8d, 0x31, 0x31, 0x98, 0xa2, 0xe0, 0x37, 0x07, 0x34])
      (i mod 4) (i div 4))) [0..<16])"
  by (rule Cipher_is_fips197 [THEN conjunct1]) simp_all


text \<open>
  C34: The shapes of the key schedule and of the cipher's output: for a key of 16, 24 or 32 bytes \<open>KeyExpansion\<close> returns
  4 * (Nr + 1) words of four bytes each, and \<open>Cipher\<close> takes that schedule and any block of bytes to sixteen bytes; no entry is
  \<open>undefined\<close> and no row is missing.
\<close>

theorem aes_shapes:
  assumes Nk: "Nk = 4 \<or> Nk = 6 \<or> Nk = 8" and key: "length key = 4 * Nk" "\<forall>x \<in> set key. 0 \<le> x \<and> x < 256"
    and input: "length input = 16" "\<forall>x \<in> set input. 0 \<le> x \<and> x < 256"
  shows "\<exists>w out. KeyExpansion key = Inr w \<and> length w = 4 * (Nk + 7) \<and> (\<forall>row \<in> set w. length row = 4 \<and> (\<forall>x \<in> set row. 0 \<le> x \<and> x < 256)) \<and>
    Cipher input w = Inr out \<and> length out = 16 \<and> (\<forall>x \<in> set out. 0 \<le> x \<and> x < 256)"
proof -
  have kb: "byte (elem_at key i)" if "i < length key" for i using key(2) that by (simp add: elem_at_def byte_def)
  have ib: "byte (elem_at input i)" if "i < 16" for i using input that by (simp add: elem_at_def byte_def)
  let ?w = "List.map (\<lambda>k. col (aes_w key Nk k)) [0..<4 * (Nk + 7)]"
  let ?out = "List.map (\<lambda>i. uint (fips_cipher (aes_schedule ?w) (Nk + 6) (aes_state_of input) (i mod 4) (i div 4))) [0..<16]"
  have "KeyExpansion key = Inr ?w" by (rule KeyExpansion_fips [OF Nk key(1)]) (rule kb)
  moreover have "Cipher input ?w = Inr ?out" by (rule Cipher_fips [OF schedule_ok_fips [OF Nk]]) (rule ib)
  moreover have "length row = 4 \<and> (\<forall>x \<in> set row. 0 \<le> x \<and> x < 256)" if "row \<in> set ?w" for row
    using that uint_byte unfolding byte_def by (auto simp: col_def)
  moreover have "0 \<le> x \<and> x < 256" if "x \<in> set ?out" for x
    using that uint_byte unfolding byte_def by auto
  ultimately show ?thesis by (metis (no_types, lifting) length_map length_upt diff_zero)
qed

theorem aes_shapes_witness:
  "\<exists>w out. KeyExpansion [0x2b, 0x7e, 0x15, 0x16, 0x28, 0xae, 0xd2, 0xa6, 0xab, 0xf7, 0x15, 0x88, 0x09, 0xcf, 0x4f, 0x3c] = Inr w \<and>
    length w = 4 * (4 + 7) \<and> (\<forall>row \<in> set w. length row = 4 \<and> (\<forall>x \<in> set row. 0 \<le> x \<and> x < 256)) \<and>
    Cipher [0x32, 0x43, 0xf6, 0xa8, 0x88, 0x5a, 0x30, 0x8d, 0x31, 0x31, 0x98, 0xa2, 0xe0, 0x37, 0x07, 0x34] w = Inr out \<and>
    length out = 16 \<and> (\<forall>x \<in> set out. 0 \<le> x \<and> x < 256)"
  by (rule aes_shapes) simp_all

section \<open>UTF-8\<close>

lemma utf8_lead_table:
  "list_all (\<lambda>h. js_or 0xe0 h = 224 + h \<and> js_shl (js_and (224 + h) 0x0f) 12 = h * 4096 \<and> js_or (h * 4096) 128 = h * 4096 + 128) [0..15]"
  by code_simp

lemma utf8_trail_table:
  "list_all (\<lambda>m. js_or 0x80 m = 128 + m \<and> js_and (128 + m) (js_shl 0x3f 6) = 128 \<and> js_and (128 + m) 0x3f = m) [0..63]"
  by code_simp

lemma utf8_join_table: "list_all (\<lambda>h. list_all (\<lambda>l. js_or (h * 4096 + 128) l = h * 4096 + 128 + l) [0..63]) [0..15]"
  by code_simp

lemma utf8_lead:
  "0 \<le> h \<Longrightarrow> h < 16 \<Longrightarrow> js_or 0xe0 h = 224 + h \<and> js_shl (js_and (224 + h) 0x0f) 12 = h * 4096 \<and> js_or (h * 4096) 128 = h * 4096 + 128"
  using utf8_lead_table unfolding list_all_iff by simp

lemma utf8_trail:
  "0 \<le> m \<Longrightarrow> m < 64 \<Longrightarrow> js_or 0x80 m = 128 + m \<and> js_and (128 + m) (js_shl 0x3f 6) = 128 \<and> js_and (128 + m) 0x3f = m"
  using utf8_trail_table unfolding list_all_iff by simp

lemma utf8_join: "0 \<le> h \<Longrightarrow> h < 16 \<Longrightarrow> 0 \<le> l \<Longrightarrow> l < 64 \<Longrightarrow> js_or (h * 4096 + 128) l = h * 4096 + 128 + l"
  using utf8_join_table unfolding list_all_iff by simp

text \<open>
  C35: \<open>decodeUTF8\<close> does not invert \<open>encodeUTF8\<close> on three-byte characters: of a character from U+0800 to U+FFFF it keeps the top
  four bits and the low six bits and reads 2 for the middle six bits, whatever they were, because \<open>&\<close> binds looser than
  \<open><<\<close> in the middle term; on characters below U+0080 it is the inverse.
\<close>

theorem decodeUTF8_three_bytes:
  "(0x800 \<le> c \<and> c \<le> 0xffff \<longrightarrow> decodeUTF8 (encodeUTF8 [c]) = [c div 4096 * 4096 + 128 + c mod 64]) \<and>
   (0 \<le> d \<and> d < 0x80 \<longrightarrow> decodeUTF8 (encodeUTF8 [d]) = [d])"
proof (intro conjI impI)
  assume c: "0x800 \<le> c \<and> c \<le> 0xffff"
  define h where "h = c div 4096"
  define m where "m = c div 64 mod 64"
  define l where "l = c mod 64"
  have r: "0 \<le> h" "h < 16" "0 \<le> m" "m < 64" "0 \<le> l" "l < 64" using c by (auto simp: h_def m_def l_def)
  have s: "js_shr c 12 = h" "js_and (js_shr c 6) 0x3F = m" "js_and c 0x3F = l"
    using c js_and_mask [of 6 c] js_and_mask [of 6 "js_shr c 6"] by (simp_all add: js_shr_div is_int32_def h_def m_def l_def)
  have e: "encodeUTF8 [c] = [224 + h, 128 + m, 128 + l]"
    using c utf8_lead [of h] utf8_trail [of m] utf8_trail [of l] r by (simp add: encodeUTF8_def s fromCharCode_def)
  have "decode2 [224 + h, 128 + m, 128 + l] = [224 + h, 128 + m, 128 + l]" using r by simp
  then have "decodeUTF8 (encodeUTF8 [c]) = [fromCharCode (js_or (js_or (js_shl (js_and (224 + h) 0x0f) 12) (js_and (128 + m) (js_shl 0x3f 6))) (js_and (128 + l) 0x3f))]"
    using r by (simp add: decodeUTF8_def e)
  also have "\<dots> = [h * 4096 + 128 + l]"
    using utf8_lead [of h] utf8_trail [of m] utf8_trail [of l] utf8_join [of h l] r by (simp add: fromCharCode_def)
  finally show "decodeUTF8 (encodeUTF8 [c]) = [c div 4096 * 4096 + 128 + c mod 64]" by (simp add: h_def l_def)
next
  assume "0 \<le> d \<and> d < 0x80"
  then show "decodeUTF8 (encodeUTF8 [d]) = [d]" by (simp add: encodeUTF8_def decodeUTF8_def)
qed

theorem decodeUTF8_three_bytes_witness:
  "decodeUTF8 (encodeUTF8 [0x20AC]) = [0x20AC div 4096 * 4096 + 128 + 0x20AC mod 64] \<and> decodeUTF8 (encodeUTF8 [65]) = [65]"
  using decodeUTF8_three_bytes [of "0x20AC" 65] by simp

section \<open>Escaping\<close>

lemma escape_cases:
  "list_all (\<lambda>c. match_escape ([33] @ List.map of_char (show_int c) @ [33] @ (rest :: codes)) = Some (c, rest) \<and> fromCharCode c = c \<and>
     45 \<notin> set ([33] @ List.map of_char (show_int c) @ [33 :: int])) escape_set"
proof -
  have s: "show_int 0 = ''0''" "show_int 9 = ''9''" "show_int 10 = ''10''" "show_int 11 = ''11''" "show_int 12 = ''12''" "show_int 13 = ''13''"
    "show_int 160 = ''160''" "show_int 39 = ''39''" "show_int 34 = ''34''" "show_int 33 = ''33''" "show_int 45 = ''45''"
    by code_simp+
  show ?thesis
    by (cases rest; cases "tl rest"; simp add: escape_set_def s match_escape_def is_digit_def fromCharCode_def)
qed

lemma match_escape_none: "c \<noteq> 33 \<Longrightarrow> match_escape (c # s) = None"
  by (auto simp: match_escape_def split: list.splits)

lemma unesc_esc: "unescCtrlChars (escCtrlChars s) = s"
proof (induction s)
  case Nil
  show ?case by (simp add: escCtrlChars_def unescCtrlChars.simps [of "[]"] match_escape_def)
next
  case (Cons c s)
  have e: "escCtrlChars (c # s) = (if c \<in> set escape_set then [33] @ List.map of_char (show_int c) @ [33] else [c]) @ escCtrlChars s"
    by (simp add: escCtrlChars_def)
  show ?case
  proof (cases "c \<in> set escape_set")
    case True
    then have m: "match_escape (escCtrlChars (c # s)) = Some (c, escCtrlChars s)" "fromCharCode c = c"
      using escape_cases [of "escCtrlChars s"] by (auto simp: list_all_iff e)
    then show ?thesis using Cons by (simp add: unescCtrlChars.simps [of "escCtrlChars (c # s)"])
  next
    case False
    then have "c \<noteq> 33" by (auto simp: escape_set_def)
    then have "match_escape (c # escCtrlChars s) = None" by (rule match_escape_none)
    then have "unescCtrlChars (c # escCtrlChars s) = c # unescCtrlChars (escCtrlChars s)"
      by (subst unescCtrlChars.simps) simp
    then show ?thesis using False Cons by (simp add: e)
  qed
qed

lemma esc_no_dash: "45 \<notin> set (escCtrlChars s)"
proof (induction s)
  case (Cons c s)
  have "45 \<notin> set (if c \<in> set escape_set then [33] @ List.map of_char (show_int c) @ [33] else [c])"
  proof (cases "c \<in> set escape_set")
    case True
    then show ?thesis using escape_cases [of "[]"] unfolding list_all_iff by simp
  next
    case False
    then show ?thesis by (auto simp: escape_set_def)
  qed
  then show ?case using Cons by (simp add: escCtrlChars_def del: list.set_map set_map)
qed (simp add: escCtrlChars_def)

lemma split_at_join:
  "ps \<noteq> [] \<Longrightarrow> \<forall>p \<in> set ps. sep \<notin> set p \<Longrightarrow> split_at sep (join_with sep ps) = ps"
proof (induction sep ps rule: join_with.induct)
  case (2 sep p)
  then show ?case by (induction p) auto
next
  case (3 sep p q ps)
  have "sep \<notin> set p \<Longrightarrow> split_at sep (p @ sep # r) = p # split_at sep r" for r
    by (induction p) auto
  then show ?case using 3 by simp
qed simp

section \<open>Counter mode\<close>

text \<open>The low 32 bits of a block number, most significant byte first.\<close>

definition be_bytes :: "int \<Rightarrow> int list" where
  "be_bytes b = List.map (\<lambda>k. b div 2 ^ (8 * k) mod 256) [3, 2, 1, 0]"

definition counter_block :: "int list \<Rightarrow> nat \<Rightarrow> int list" where
  "counter_block N b = N @ replicate 4 0 @ be_bytes (int b)"

lemma list_8:
  assumes "length xs = 8"
  obtains a b c d e f g h where "xs = [a, b, c, d, e, f, g, h]"
  using assms by (auto simp: eval_nat_numeral length_Suc_conv)

lemma ushr_byte:
  assumes "0 \<le> x" "x < 2 ^ 32" "k < 4"
  shows "js_and (js_ushr x (int k * 8)) 0xff = x div 2 ^ (8 * k) mod 256"
proof -
  have "nat (int k * 8) = 8 * k" by (simp add: nat_mult_distrib)
  then have "js_ushr x (int k * 8) = x div 2 ^ (8 * k)" using assms by (simp add: js_ushr_div)
  then show ?thesis using js_and_mask [of 8 "x div 2 ^ (8 * k)"] by simp
qed

lemma set_high:
  "length N = 8 \<Longrightarrow> length r = 8 \<Longrightarrow>
   foldl (\<lambda>cb c. set_at cb (15 - c - 4) (g c)) (foldl (\<lambda>cb c. set_at cb (15 - c) (f c)) (N @ r) [0..<4]) [0..<4] =
   N @ [g 3, g 2, g 1, g 0, f 3, f 2, f 1, f 0]"
  by (erule list_8, erule list_8) (simp add: four set_at_def)

lemma zero_bytes: "js_ushr 0 x = 0" "js_and 0 x = 0"
  by (simp_all add: js_ushr_def toUint32_def js_and_def toInt32_def)

lemma ushr_bytes:
  assumes "int b < 2 ^ 32"
  shows "[js_and (js_ushr (int b) (int 3 * 8)) 0xff, js_and (js_ushr (int b) (int 2 * 8)) 0xff,
    js_and (js_ushr (int b) (int 1 * 8)) 0xff, js_and (js_ushr (int b) (int 0 * 8)) 0xff] = be_bytes (int b)"
proof -
  have u: "js_and (js_ushr (int b) (int k * 8)) 0xff = int b div 2 ^ (8 * k) mod 256" if "k < 4" for k
    by (rule ushr_byte) (use assms that in auto)
  show ?thesis unfolding be_bytes_def list.map by (simp only: u [of 0] u [of 1] u [of 2] u [of 3] order_refl less_four simp_thms)
qed

lemma encrypt_counter_block:
  assumes "length N = 8" "length r = 8" "int b < 2 ^ 32"
  shows "encrypt_counter b (N @ r) = counter_block N b"
proof -
  have "js_trunc_div (int b) 0x100000000 = 0" using assms(3) by (simp add: js_trunc_div_def)
  then have "encrypt_counter b (N @ r) = N @ [0, 0, 0, 0] @ be_bytes (int b)"
    unfolding encrypt_counter_def Let_def set_high [OF assms(1,2)] ushr_bytes [OF assms(3), symmetric] by (simp only: zero_bytes append.simps)
  then show ?thesis by (simp add: counter_block_def numeral_eq_Suc)
qed

lemma decrypt_counter_block:
  assumes "length N = 8" "length r = 8" "int b < 2 ^ 32"
  shows "decrypt_counter (Suc b) (N @ r) = counter_block N b"
proof -
  have "js_trunc_div (int (Suc b) - 0x100000000) 0x100000000 = 0" using assms(3) by (simp add: js_trunc_div_def)
  moreover have "int (Suc b) - 1 = int b" by simp
  ultimately have "decrypt_counter (Suc b) (N @ r) = N @ [0, 0, 0, 0] @ be_bytes (int b)"
    unfolding decrypt_counter_def Let_def set_high [OF assms(1,2)] ushr_bytes [OF assms(3), symmetric] by (simp only: zero_bytes append.simps)
  then show ?thesis by (simp add: counter_block_def numeral_eq_Suc)
qed

lemma byte_mod: "byte (x mod 256)"
  by (simp add: byte_def)

lemma counter_block_byte:
  assumes "length N = 8" "\<forall>x \<in> set N. byte x"
  shows "byte (elem_at (counter_block N b) i)"
proof -
  have "\<forall>x \<in> set (counter_block N b). byte x" using assms by (auto simp: counter_block_def be_bytes_def byte_def)
  then show ?thesis by (auto simp: elem_at_def byte_def)
qed

lemma nonce_block_shape: "\<exists>N. nonce_block now = N @ replicate 8 0 \<and> length N = 8 \<and> (\<forall>x \<in> set N. byte x)"
proof -
  have b: "byte (js_and x 0xff)" for x using js_and_mask [of 8 x] by (simp add: byte_def)
  have "nonce_block now = List.map (\<lambda>i. js_and (js_ushr now (int i * 8)) 0xff) [0..<4] @
      List.map (\<lambda>i. js_and (js_ushr (js_trunc_div now 0x100000000) (int i * 8)) 0xff) [0..<4] @ replicate 8 0"
    by (simp add: nonce_block_def Let_def four set_at_def numeral_eq_Suc)
  then show ?thesis using b
    by (intro exI [of _ "List.map (\<lambda>i. js_and (js_ushr now (int i * 8)) 0xff) [0..<4] @
      List.map (\<lambda>i. js_and (js_ushr (js_trunc_div now 0x100000000) (int i * 8)) 0xff) [0..<4]"]) auto
qed

text \<open>The key stream of block \<open>b\<close>, and a plaintext block under it.\<close>

definition pad_of :: "int list list \<Rightarrow> int list \<Rightarrow> nat \<Rightarrow> int list" where
  "pad_of ks N b = (case Cipher (counter_block N b) ks of Inl e \<Rightarrow> [] | Inr k \<Rightarrow> k)"

definition xor_pad :: "int list \<Rightarrow> codes \<Rightarrow> codes" where
  "xor_pad k cs = List.map (\<lambda>i. fromCharCode (js_xor (char_code cs i) (elem_at k i))) [0..<length cs]"

definition code_unit :: "int \<Rightarrow> bool" where
  "code_unit c \<longleftrightarrow> 0 \<le> c \<and> c < 2 ^ 16"

lemma xor_unit:
  assumes "code_unit c" "byte k"
  shows "fromCharCode (js_xor (fromCharCode (js_xor c k)) k) = c" "fromCharCode (js_xor c k) = c XOR k"
proof -
  have i: "toInt32 c = c" "toInt32 k = k" using assms by (auto simp: code_unit_def byte_def toInt32_id)
  have t: "take_bit 16 c = c" "take_bit 16 k = k" using assms by (auto simp: code_unit_def byte_def take_bit_int_eq_self_iff)
  have "take_bit 16 (c XOR k) = c XOR k" by (simp add: t)
  then have r: "0 \<le> c XOR k" "c XOR k < 2 ^ 16" by (simp_all only: take_bit_int_eq_self_iff)
  show e: "fromCharCode (js_xor c k) = c XOR k" using r by (simp add: fromCharCode_def js_xor_def i)
  define z where "z = c XOR k"
  have z: "0 \<le> z" "z < 2 ^ 16" using r by (simp_all only: z_def)
  then have "is_int32 z" by (simp add: is_int32_def)
  then have "toInt32 z = z" by simp
  then have "js_xor (c XOR k) k = c" by (simp add: js_xor_def i xor.assoc z_def)
  then show "fromCharCode (js_xor (fromCharCode (js_xor c k)) k) = c"
    using assms(1) unfolding e by (simp add: fromCharCode_def code_unit_def)
qed

lemma xor_pad_twice:
  assumes "\<forall>c \<in> set cs. code_unit c" "\<forall>i. byte (elem_at k i)"
  shows "xor_pad k (xor_pad k cs) = cs"
  using assms by (auto simp: xor_pad_def char_code_def xor_unit(1) intro!: nth_equalityI)

lemma Cipher_pad:
  assumes "schedule_ok Nr ks" "length N = 8" "\<forall>x \<in> set N. byte x"
  shows "Cipher (counter_block N b) ks = Inr (pad_of ks N b)" "byte (elem_at (pad_of ks N b) i)"
proof -
  let ?out = "List.map (\<lambda>i. uint (fips_cipher (aes_schedule ks) Nr (aes_state_of (counter_block N b)) (i mod 4) (i div 4))) [0..<16]"
  have c: "Cipher (counter_block N b) ks = Inr ?out" by (rule Cipher_fips) (use assms counter_block_byte in auto)
  then show "Cipher (counter_block N b) ks = Inr (pad_of ks N b)" by (simp add: pad_of_def)
  have "pad_of ks N b = ?out" by (simp only: pad_of_def c sum.case)
  then show "byte (elem_at (pad_of ks N b) i)" by (simp add: elem_at_def) (simp add: byte_def)
qed


definition chunk :: "codes \<Rightarrow> nat \<Rightarrow> codes" where
  "chunk p b = take 16 (drop (16 * b) p)"

lemma chunk_length:
  assumes "b < (length p + 15) div 16"
  shows "(if int b < int ((length p + 15) div 16) - 1 then 16 else (length p - 1) mod 16 + 1) = length (chunk p b)"
proof (cases "Suc b < (length p + 15) div 16")
  case True
  then show ?thesis by (simp add: chunk_def)
next
  case False
  then have b: "(length p + 15) div 16 = Suc b" using assms by simp
  define q where "q = (length p - 1) div 16"
  define m where "m = (length p - 1) mod 16"
  have "0 < length p" using assms by (cases p) auto
  then have l: "length p = 16 * q + m + 1" "m < 16" by (auto simp: q_def m_def)
  then have "q = b" using b by simp
  then show ?thesis using l by (simp add: b chunk_def m_def [symmetric])
qed

lemma chunk_code: "i < length (chunk p b) \<Longrightarrow> char_code p (b * 16 + i) = char_code (chunk p b) i"
  by (auto simp: char_code_def chunk_def mult.commute)

lemma chunks_concat: "concat (List.map (chunk p) [0..<n]) = take (16 * n) p"
  by (induction n) (simp_all add: chunk_def take_add add.commute [of 16])

lemma encrypt_block_step:
  assumes ks: "schedule_ok Nr ks" and N: "length N = 8" "\<forall>x \<in> set N. byte x" and r: "length r = 8"
    and b: "int b < 2 ^ 32" "b < (length p + 15) div 16"
  shows "encrypt_block p ks ((length p + 15) div 16) b (N @ r, acc) =
    Inr (counter_block N b, acc @ [escCtrlChars (xor_pad (pad_of ks N b) (chunk p b))])"
proof -
  have m: "List.map (\<lambda>i. fromCharCode (js_xor (char_code p (b * 16 + i)) (elem_at k i))) [0..<length (chunk p b)] = xor_pad k (chunk p b)" for k
    by (simp add: xor_pad_def chunk_code)
  show ?thesis
    unfolding encrypt_block_def Let_def prod.case encrypt_counter_block [OF N(1) r b(1)] Cipher_pad(1) [OF ks N] chunk_length [OF b(2)] rbind.simps m
    by simp
qed

lemma decrypt_block_step:
  assumes ks: "schedule_ok Nr ks" and N: "length N = 8" "\<forall>x \<in> set N. byte x" and r: "length r = 8" and b: "int b < 2 ^ 32"
  shows "decrypt_block blocks ks (Suc b) (N @ r, acc) =
    Inr (counter_block N b, acc @ [xor_pad (pad_of ks N b) (unescCtrlChars (blocks ! Suc b))])"
  unfolding decrypt_block_def Let_def prod.case decrypt_counter_block [OF N(1) r b(1)] Cipher_pad(1) [OF ks N] rbind.simps
  by (simp add: xor_pad_def)

text \<open>A loop over the blocks whose step is known from the shape of the counter.\<close>

lemma block_loop:
  assumes "length N = 8"
    and "\<forall>b r acc. b < n \<longrightarrow> length r = 8 \<longrightarrow> step (o_b + b) (N @ r, acc) = Inr (counter_block N b, acc @ [out b])"
    and "length r = 8"
  shows "\<exists>r'. length r' = 8 \<and> for_each step [o_b..<o_b + n] (N @ r, acc) = Inr (N @ r', acc @ List.map out [0..<n])"
proof -
  have c: "counter_block N b = N @ (replicate 4 0 @ be_bytes (int b))" for b by (simp add: counter_block_def)
  have "\<exists>r'. length r' = 8 \<and> for_each step [o_b + i..<o_b + n] (N @ r, acc) = Inr (N @ r', acc @ List.map out [i..<n])"
    if "i \<le> n" "length r = 8" for i r acc
    using that
  proof (induction "n - i" arbitrary: i r acc)
    case (Suc m)
    then have i: "i < n" "[o_b + i..<o_b + n] = (o_b + i) # [o_b + Suc i..<o_b + n]" "[i..<n] = i # [Suc i..<n]"
      by (simp_all add: upt_conv_Cons)
    have m: "m = n - Suc i" using Suc.hyps(2) by simp
    have r: "length (replicate 4 0 @ be_bytes (int i)) = 8" by (simp add: be_bytes_def)
    obtain r' where "length r' = 8" "for_each step [o_b + Suc i..<o_b + n] (N @ (replicate 4 0 @ be_bytes (int i)), acc @ [out i]) =
        Inr (N @ r', (acc @ [out i]) @ List.map out [Suc i..<n])"
      using Suc.hyps(1) [OF m _ r, of "acc @ [out i]"] i(1) by auto
    then show ?case using assms(2) i Suc.prems by (auto simp: c)
  qed simp
  from this [of 0] assms(3) show ?thesis by simp
qed

text \<open>The key schedule derived from a password is well formed, whatever the password.\<close>

lemma schedule_bytes:
  assumes "Nk = 4 \<or> Nk = 6 \<or> Nk = 8" "length key = 4 * Nk" "\<forall>x \<in> set key. byte x"
  obtains w where "KeyExpansion key = Inr w" "schedule_ok (Nk + 6) w"
proof -
  have "byte (elem_at key i)" if "i < length key" for i using assms(3) that by (simp add: elem_at_def)
  then show thesis using that KeyExpansion_fips [OF assms(1,2)] schedule_ok_fips [OF assms(1)] by blast
qed

lemma password_schedule_ok:
  assumes "good_bits n"
  obtains ks Nr where "password_schedule pw (nat (n div 8)) = Inr ks" "schedule_ok Nr ks"
proof -
  define Nk where "Nk = nat (n div 32)"
  have Nk: "Nk = 4 \<or> Nk = 6 \<or> Nk = 8" and n: "nat (n div 8) = 4 * Nk" using assms by (auto simp: good_bits_def Nk_def)
  let ?pw = "List.map (\<lambda>i. js_and (char_code pw i) 0xff) [0..<4 * Nk]"
  have b: "\<forall>x \<in> set ?pw. byte x" using js_and_mask [of 8] by (auto simp: byte_def)
  obtain w where w: "KeyExpansion ?pw = Inr w" "schedule_ok (Nk + 6) w" using schedule_bytes [OF Nk _ b] by auto
  have "byte (elem_at ?pw i)" if "i < 16" for i using b Nk that by (auto simp: elem_at_def)
  then obtain key where k: "Cipher ?pw w = Inr key" "length key = 16" "\<forall>x \<in> set key. byte x"
    using Cipher_fips [OF w(2), of ?pw] by fastforce
  have "length (key @ take (4 * Nk - 16) key) = 4 * Nk" using k(2) Nk by auto
  moreover have "\<forall>x \<in> set (key @ take (4 * Nk - 16) key). byte x" using k(3) by (auto dest: in_set_takeD)
  ultimately obtain ks where "KeyExpansion (key @ take (4 * Nk - 16) key) = Inr ks" "schedule_ok (Nk + 6) ks"
    using schedule_bytes [OF Nk] by blast
  then show thesis using that w(1) k(1) by (simp add: password_schedule_def n)
qed


lemma counter_cipher:
  assumes ks: "schedule_ok Nr ks" and N: "length N = 8" "\<forall>x \<in> set N. byte x" and p: "length p \<le> 16 * 2 ^ 32"
  shows "\<exists>r. length r = 8 \<and> for_each (encrypt_block p ks ((length p + 15) div 16)) [0..<(length p + 15) div 16] (N @ replicate 8 0, []) =
    Inr (N @ r, List.map (\<lambda>b. escCtrlChars (xor_pad (pad_of ks N b) (chunk p b))) [0..<(length p + 15) div 16])"
proof -
  let ?n = "(length p + 15) div 16"
  have n: "?n \<le> 2 ^ 32" using p by simp
  have "\<forall>b r acc. b < ?n \<longrightarrow> length r = 8 \<longrightarrow> encrypt_block p ks ?n (0 + b) (N @ r, acc) =
      Inr (counter_block N b, acc @ [escCtrlChars (xor_pad (pad_of ks N b) (chunk p b))])"
    using encrypt_block_step [OF ks N] n by (auto simp: less_le_trans)
  from block_loop [OF N(1) this, of "replicate 8 0" "[]"] show ?thesis by simp
qed

lemma counter_decipher:
  assumes ks: "schedule_ok Nr ks" and N: "length N = 8" "\<forall>x \<in> set N. byte x" and n: "n \<le> 2 ^ 32"
  shows "\<exists>r. length r = 8 \<and> for_each (decrypt_block blocks ks) [1..<Suc n] (N @ replicate 8 0, []) =
    Inr (N @ r, List.map (\<lambda>b. xor_pad (pad_of ks N b) (unescCtrlChars (blocks ! Suc b))) [0..<n])"
proof -
  have "\<forall>b r acc. b < n \<longrightarrow> length r = 8 \<longrightarrow> decrypt_block blocks ks (1 + b) (N @ r, acc) =
      Inr (counter_block N b, acc @ [xor_pad (pad_of ks N b) (unescCtrlChars (blocks ! Suc b))])"
    using decrypt_block_step [OF ks N] n by (auto simp: less_le_trans)
  from block_loop [OF N(1) this, of "replicate 8 0" "[]"] show ?thesis by simp
qed

lemma nonce_copy:
  assumes "length N = 8"
  shows "foldl (\<lambda>cb i. set_at cb i (char_code N i)) (replicate 16 0) [0..<8] = N @ replicate 8 0"
proof -
  have u: "[0..<8] = [0, 1, 2, 3, 4, 5, 6, 7]" by (simp add: upt_rec)
  show ?thesis using assms by (elim list_8) (simp add: u set_at_def char_code_def numeral_eq_Suc)
qed

lemma nonce_text:
  assumes "length N = 8" "\<forall>x \<in> set N. byte x"
  shows "List.map (\<lambda>i. fromCharCode (elem_at (N @ r) i)) [0..<8] = N"
proof (rule nth_equalityI)
  fix i assume "i < length (List.map (\<lambda>i. fromCharCode (elem_at (N @ r) i)) [0..<8])"
  then have "byte (N ! i)" "i < 8" using assms by auto
  then show "List.map (\<lambda>i. fromCharCode (elem_at (N @ r) i)) [0..<8] ! i = N ! i"
    using assms(1) by (simp add: elem_at_def nth_append fromCharCode_def byte_def)
qed (simp add: assms(1))

lemma split_cipher:
  fixes cs :: "codes list"
  shows "split_at 45 (escCtrlChars N @ 45 # join_with 45 (List.map escCtrlChars cs)) =
    escCtrlChars N # (if cs = [] then [[]] else List.map escCtrlChars cs)"
proof (cases cs)
  case Nil
  then show ?thesis using split_at_join [of "[escCtrlChars N, []]" 45] by (simp add: esc_no_dash)
next
  case (Cons c cs')
  then show ?thesis using split_at_join [of "escCtrlChars N # List.map escCtrlChars cs" 45] by (simp add: esc_no_dash)
qed

lemma chunk_unit: "\<forall>c \<in> set p. code_unit c \<Longrightarrow> \<forall>c \<in> set (chunk p b). code_unit c"
  by (auto simp: chunk_def dest: in_set_takeD in_set_dropD)

text \<open>
  C33: Decryption inverts encryption in counter mode: for each of the three key sizes, any password, any time and any string of
  16-bit code units whose blocks the 32-bit counter can number, \<open>AESDecryptCtr\<close> returns the string that \<open>AESEncryptCtr\<close> was given.
  The two loops derive the same key schedule and the same counter block for each block, and the escaping of the block
  separator and of control characters is undone exactly.
\<close>

theorem AESDecryptCtr_inverts:
  assumes n: "good_bits nBits" and p: "\<forall>c \<in> set p. 0 \<le> c \<and> c < 2 ^ 16" "length p \<le> 16 * 2 ^ 32"
  shows "rbind (AESEncryptCtr now p password nBits) (\<lambda>c. AESDecryptCtr c password nBits) = Inr p"
proof -
  obtain ks Nr where ks: "password_schedule password (nat (nBits div 8)) = Inr ks" "schedule_ok Nr ks"
    using password_schedule_ok [OF n] .
  obtain N where N: "nonce_block now = N @ replicate 8 0" "length N = 8" "\<forall>x \<in> set N. byte x"
    using nonce_block_shape by blast
  have pu: "\<forall>c \<in> set p. code_unit c" using p(1) by (simp add: code_unit_def)
  define m where "m = (length p + 15) div 16"
  define cs where "cs = List.map (\<lambda>b. xor_pad (pad_of ks N b) (chunk p b)) [0..<m]"
  obtain r where r: "for_each (encrypt_block p ks m) [0..<m] (N @ replicate 8 0, []) = Inr (N @ r, List.map escCtrlChars cs)"
    using counter_cipher [OF ks(2) N(2,3) p(2)] by (auto simp: m_def cs_def comp_def)
  have c: "AESEncryptCtr now p password nBits = Inr (escCtrlChars N @ 45 # join_with 45 (List.map escCtrlChars cs))"
    unfolding AESEncryptCtr_def Let_def ks(1) rbind.simps N(1) m_def [symmetric] r prod.case nonce_text [OF N(2,3)] using n by simp
  define bs where "bs = (if cs = [] then [[]] else cs)"
  have bs: "split_at 45 (escCtrlChars N @ 45 # join_with 45 (List.map escCtrlChars cs)) = escCtrlChars N # List.map escCtrlChars bs"
    unfolding split_cipher bs_def by (simp add: escCtrlChars_def [of "[]"])
  have "m \<le> 2 ^ 32" using p(2) by (simp add: m_def)
  then have "length bs \<le> 2 ^ 32" by (auto simp: bs_def cs_def)
  from counter_decipher [OF ks(2) N(2,3) this, of "escCtrlChars N # List.map escCtrlChars bs"] obtain r' where
    r': "for_each (decrypt_block (escCtrlChars N # List.map escCtrlChars bs) ks) [1..<length (escCtrlChars N # List.map escCtrlChars bs)]
        (N @ replicate 8 0, []) = Inr (N @ r', List.map (\<lambda>b. xor_pad (pad_of ks N b) (bs ! b)) [0..<length bs])"
    by (auto simp: unesc_esc cong: map_cong)
  have d: "List.map (\<lambda>b. xor_pad (pad_of ks N b) (bs ! b)) [0..<length bs] = (if m = 0 then [[]] else List.map (chunk p) [0..<m])"
  proof (cases "m = 0")
    case True
    then show ?thesis by (simp add: bs_def cs_def xor_pad_def)
  next
    case False
    have "xor_pad (pad_of ks N b) (xor_pad (pad_of ks N b) (chunk p b)) = chunk p b" for b
      by (rule xor_pad_twice) (simp_all add: chunk_unit [OF pu] Cipher_pad(2) [OF ks(2) N(2,3)])
    then show ?thesis using False by (simp add: bs_def cs_def)
  qed
  have e: "concat (if m = 0 then [[]] else List.map (chunk p) [0..<m]) = p"
  proof -
    have "length p \<le> 16 * m" by (simp add: m_def)
    then show ?thesis using chunks_concat [of p m] by (auto split: if_splits)
  qed
  have "AESDecryptCtr (escCtrlChars N @ 45 # join_with 45 (List.map escCtrlChars cs)) password nBits = Inr p"
    unfolding AESDecryptCtr_def Let_def ks(1) rbind.simps bs nth_Cons_0 unesc_esc nonce_copy [OF N(2)] r' prod.case d e using n by simp
  then show ?thesis by (simp add: c)
qed

theorem AESDecryptCtr_inverts_witness:
  "rbind (AESEncryptCtr 1234567890123 [104, 233, 45, 33, 0x20AC] [112, 119] 192) (\<lambda>c. AESDecryptCtr c [112, 119] 192) = Inr [104, 233, 45, 33, 0x20AC]"
  by (rule AESDecryptCtr_inverts) (simp_all add: good_bits_def)

end
