(* ===== verification/Js_Date.thy ===== *)
theory Js_Date
  imports Js_Value
begin

text \<open>
  The \<open>Date\<close> object of the language (ECMA-262, 15.9.1): a date is its time value, the milliseconds since
  the epoch as an integer, and the fields are computed from it in the proleptic Gregorian calendar.
  What the language leaves to its host is in the record \<open>host\<close>: the minutes that local time is ahead of
  Greenwich, at a time value (\<open>tz_utc\<close>) and at a local time (\<open>tz_local\<close>), and what \<open>Date\<close> makes of a
  string. The main facts: year, month and date of a day determine the day and the other way round.
\<close>


section \<open>Days, years, months\<close>

definition day :: "int \<Rightarrow> int" where
  "day t = t div 86400000"

definition day_from_year :: "int \<Rightarrow> int" where
  "day_from_year y = 365 * (y - 1970) + (y - 1969) div 4 - (y - 1901) div 100 + (y - 1601) div 400"

definition leap :: "int \<Rightarrow> bool" where
  "leap y \<longleftrightarrow> y mod 4 = 0 \<and> (y mod 100 \<noteq> 0 \<or> y mod 400 = 0)"

text \<open>The largest year that does not begin after the day: an estimate that is at most one off.\<close>

definition year_of_day :: "int \<Rightarrow> int" where
  "year_of_day d =
    (let y = 1970 + 400 * d div 146097
     in if d < day_from_year y then y - 1 else if day_from_year (y + 1) \<le> d then y + 1 else y)"

definition month_start :: "bool \<Rightarrow> nat \<Rightarrow> int" where
  "month_start l m = [0, 31, 59, 90, 120, 151, 181, 212, 243, 273, 304, 334, 365] ! m + (if l \<and> m \<ge> 2 then 1 else 0)"

definition month_of :: "bool \<Rightarrow> int \<Rightarrow> nat" where
  "month_of l x = length (filter (\<lambda>m. month_start l m \<le> x) [1..<12])"

definition day_in_year :: "int \<Rightarrow> int" where
  "day_in_year d = d - day_from_year (year_of_day d)"

lemma div_next: "0 < k \<Longrightarrow> (x + 1) div k = x div k + (if (x + 1) mod k = 0 then 1 else 0)" for x k :: int
proof -
  assume k: "0 < k"
  define q r where "q = (x + 1) div k" and "r = (x + 1) mod k"
  have x: "x + 1 = k * q + r" "0 \<le> r" "r < k" using k by (simp_all add: q_def r_def)
  show ?thesis
  proof (cases "r = 0")
    case True
    then have "x div k = q - 1" using x k by (intro int_div_pos_eq [of x k "q - 1" "k - 1"]) (auto simp: algebra_simps)
    then show ?thesis using True by (simp add: q_def r_def)
  next
    case False
    then have "x div k = q" using x k by (intro int_div_pos_eq [of x k q "r - 1"]) auto
    then show ?thesis using False by (simp add: q_def r_def)
  qed
qed

lemma day_from_year_next: "day_from_year (y + 1) = day_from_year y + (if leap y then 366 else 365)"
proof -
  have m: "(y - 1968) mod 4 = y mod 4" "(y - 1900) mod 100 = y mod 100" "(y - 1600) mod 400 = y mod 400"
    by (simp_all add: mod_eq_dvd_iff)
  have "y - 1969 + 1 = y - 1968" "y - 1901 + 1 = y - 1900" "y - 1601 + 1 = y - 1600" by simp_all
  then have d: "(y - 1968) div 4 = (y - 1969) div 4 + (if y mod 4 = 0 then 1 else 0)"
    "(y - 1900) div 100 = (y - 1901) div 100 + (if y mod 100 = 0 then 1 else 0)"
    "(y - 1600) div 400 = (y - 1601) div 400 + (if y mod 400 = 0 then 1 else 0)"
    using div_next [of 4 "y - 1969"] div_next [of 100 "y - 1901"] div_next [of 400 "y - 1601"] by (simp_all only: m)
  have c: "y mod 400 = 0 \<Longrightarrow> y mod 100 = 0" "y mod 100 = 0 \<Longrightarrow> y mod 4 = 0"
    using dvd_trans [of 100 400 y] dvd_trans [of 4 100 y] by (simp_all add: mod_eq_0_iff_dvd)
  have "day_from_year (y + 1) = 365 * (y - 1970) + 365 + (y - 1968) div 4 - (y - 1900) div 100 + (y - 1600) div 400"
    by (simp add: day_from_year_def)
  also have "\<dots> = day_from_year y + (if leap y then 366 else 365)"
  proof -
    obtain p q r where b: "(y mod 4 = 0) = p" "(y mod 100 = 0) = q" "(y mod 400 = 0) = r" by blast
    show ?thesis
      unfolding d day_from_year_def leap_def b using c [unfolded b] by (cases p; cases q; cases r) simp_all
  qed
  finally show ?thesis .
qed

lemma day_from_year_near:
  "146097 * (y - 1970) - 506 \<le> 400 * day_from_year y" "400 * day_from_year y \<le> 146097 * (y - 1970) + 589"
proof -
  define Y where "Y = y - 1970"
  define a b c where "a = (y - 1969) mod 4" and "b = (y - 1901) mod 100" and "c = (y - 1601) mod 400"
  have r: "0 \<le> a" "a \<le> 3" "0 \<le> b" "b \<le> 99" "0 \<le> c" "c \<le> 399" by (simp_all add: a_def b_def c_def)
  have "4 * ((y - 1969) div 4) = y - 1969 - a" "100 * ((y - 1901) div 100) = y - 1901 - b" "400 * ((y - 1601) div 400) = y - 1601 - c"
    by (simp_all add: a_def b_def c_def minus_mod_eq_mult_div [symmetric])
  moreover define A B C where "A = (y - 1969) div 4" and "B = (y - 1901) div 100" and "C = (y - 1601) div 400"
  ultimately have "4 * A = y - 1969 - a" "100 * B = y - 1901 - b" "400 * C = y - 1601 - c" by simp_all
  then have "400 * A = 100 * y - 196900 - 100 * a" "400 * B = 4 * y - 7604 - 4 * b" by simp_all
  with \<open>400 * C = y - 1601 - c\<close> have "400 * (365 * (y - 1970) + A - B + C) = 146097 * (y - 1970) + 193 - 100 * a + 4 * b - c"
    by (simp add: distrib_left right_diff_distrib)
  then have "400 * day_from_year y = 146097 * (y - 1970) + 193 - 100 * a + 4 * b - c" by (simp add: day_from_year_def A_def B_def C_def)
  then show "146097 * (y - 1970) - 506 \<le> 400 * day_from_year y" "400 * day_from_year y \<le> 146097 * (y - 1970) + 589"
    using r by linarith+
qed

lemma day_from_year_mono: "y < z \<Longrightarrow> day_from_year y + 365 \<le> day_from_year z"
proof (induction "nat (z - y)" arbitrary: z)
  case (Suc n)
  show ?case
  proof (cases "y = z - 1")
    case True
    then show ?thesis using day_from_year_next [of y] by simp
  next
    case False
    then have "day_from_year y + 365 \<le> day_from_year (z - 1)" using Suc by simp
    then show ?thesis using day_from_year_next [of "z - 1"] by (simp split: if_splits)
  qed
qed simp

lemma year_of_day_bounds: "day_from_year (year_of_day d) \<le> d" "d < day_from_year (year_of_day d + 1)"
proof -
  define y where "y = 1970 + 400 * d div 146097"
  define m where "m = 400 * d mod 146097"
  have m: "0 \<le> m" "m < 146097" "146097 * (y - 1970) = 400 * d - m"
    by (simp_all add: m_def y_def minus_mod_eq_mult_div [symmetric])
  have "400 * day_from_year y \<le> 400 * d + 589" using m(1,3) day_from_year_near(2) [of y] by linarith
  then have "day_from_year y \<le> d + 1" by linarith
  moreover have "146097 * (y + 1 - 1970) = 400 * d - m + 146097" using m(3) by (simp add: right_diff_distrib distrib_left)
  then have "400 * d \<le> 400 * day_from_year (y + 1) + 505" using m(1,2) day_from_year_near(1) [of "y + 1"] by linarith
  then have "d \<le> day_from_year (y + 1) + 1" by linarith
  moreover have "day_from_year (y - 1) + 365 \<le> day_from_year y" "day_from_year (y + 1) + 365 \<le> day_from_year (y + 2)"
    by (rule day_from_year_mono, simp)+
  moreover have "y - 1 + 1 = y" "y + 1 + 1 = y + 2" "2 + y = y + 2" by simp_all
  ultimately show "day_from_year (year_of_day d) \<le> d" "d < day_from_year (year_of_day d + 1)"
    unfolding year_of_day_def Let_def y_def [symmetric] by (auto simp: not_less add.commute)
qed

lemma year_of_day_unique: "day_from_year y \<le> d \<Longrightarrow> d < day_from_year (y + 1) \<Longrightarrow> year_of_day d = y"
proof (rule ccontr)
  assume y: "day_from_year y \<le> d" "d < day_from_year (y + 1)" and "year_of_day d \<noteq> y"
  then consider "y + 1 = year_of_day d \<or> y + 1 < year_of_day d" | "year_of_day d + 1 = y \<or> year_of_day d + 1 < y" by linarith
  then show False
    using y year_of_day_bounds [of d] day_from_year_mono [of "y + 1" "year_of_day d"] day_from_year_mono [of "year_of_day d + 1" y]
    by cases auto
qed

lemma day_in_year_bounds: "0 \<le> day_in_year d" "day_in_year d < (if leap (year_of_day d) then 366 else 365)"
  using year_of_day_bounds [of d] day_from_year_next [of "year_of_day d"] by (auto simp: day_in_year_def)

lemma month_table:
  "list_all (\<lambda>l. list_all (\<lambda>x. let m = month_of l x in m < 12 \<and> month_start l m \<le> x \<and> x < month_start l (Suc m)) [0..364 + (if l then 1 else 0)]) [False, True]"
  by code_simp

lemma month_of_bounds:
  assumes "0 \<le> x" "x < (if l then 366 else 365)"
  shows "month_of l x < 12" "month_start l (month_of l x) \<le> x" "x < month_start l (Suc (month_of l x))"
proof -
  have "x \<in> set [0..364 + (if l then 1 else 0)]" using assms by auto
  then have "let m = month_of l x in m < 12 \<and> month_start l m \<le> x \<and> x < month_start l (Suc m)"
    using month_table unfolding list_all_iff by (cases l) (auto simp del: set_upto)
  then show "month_of l x < 12" "month_start l (month_of l x) \<le> x" "x < month_start l (Suc (month_of l x))" by (simp_all add: Let_def)
qed

lemma month_start_mono_table: "list_all (\<lambda>l. list_all (\<lambda>m. month_start l m + 28 \<le> month_start l (Suc m)) [0..<12]) [False, True]"
  by code_simp

lemma month_start_mono: "m < n \<Longrightarrow> n \<le> 12 \<Longrightarrow> month_start l m + 28 \<le> month_start l n"
proof (induction n)
  case (Suc n)
  have "month_start l n + 28 \<le> month_start l (Suc n)" using month_start_mono_table Suc.prems(2) unfolding list_all_iff by (cases l) auto
  then show ?case using Suc by (cases "m = n") auto
qed simp

lemma month_of_unique:
  assumes "m < 12" "month_start l m \<le> x" "x < month_start l (Suc m)"
  shows "month_of l x = m"
proof -
  have "filter (\<lambda>k. month_start l k \<le> x) [1..<12] = [1..<Suc m]"
  proof -
    have "[1..<12] = [1..<Suc m] @ [Suc m..<12]" using upt_add_eq_append [of 1 "Suc m" "11 - m"] assms(1) by (simp del: upt_Suc)
    moreover have "month_start l k \<le> x" if "k \<in> set [1..<Suc m]" for k
      using that assms month_start_mono [of k m l] by (cases "k = m") auto
    moreover have "\<not> month_start l k \<le> x" if "k \<in> set [Suc m..<12]" for k
      using that assms month_start_mono [of "Suc m" k l] by (cases "k = Suc m") auto
    ultimately show ?thesis by (simp del: upt_Suc add: filter_id_conv filter_empty_conv)
  qed
  then show ?thesis unfolding month_of_def by simp
qed

section \<open>Time values\<close>

definition time_in_day :: "int \<Rightarrow> int" where
  "time_in_day t = t mod 86400000"

definition make_day :: "int \<Rightarrow> int \<Rightarrow> int \<Rightarrow> int" where
  "make_day y m dt =
    (let ym = y + m div 12; mn = nat (m mod 12) in day_from_year ym + month_start (leap ym) mn + dt - 1)"

definition make_time :: "int \<Rightarrow> int \<Rightarrow> int \<Rightarrow> int \<Rightarrow> int" where
  "make_time h m s ms = h * 3600000 + m * 60000 + s * 1000 + ms"

definition make_date :: "int \<Rightarrow> int \<Rightarrow> int" where
  "make_date d t = d * 86400000 + t"

text \<open>The host: the time zone and the reading of date strings.\<close>

record host =
  tz_utc :: "int \<Rightarrow> int"
  tz_local :: "int \<Rightarrow> int"
  date_parse :: "string \<Rightarrow> int"

definition local_time :: "('h) host_scheme \<Rightarrow> int \<Rightarrow> int" where
  "local_time H t = t + 60000 * tz_utc H t"

definition to_utc :: "('h) host_scheme \<Rightarrow> int \<Rightarrow> int" where
  "to_utc H t = t - 60000 * tz_local H t"

definition local_day :: "('h) host_scheme \<Rightarrow> int \<Rightarrow> int" where
  "local_day H t = day (local_time H t)"

definition getFullYear :: "('h) host_scheme \<Rightarrow> int \<Rightarrow> int" where
  "getFullYear H t = year_of_day (local_day H t)"

definition getYear :: "('h) host_scheme \<Rightarrow> int \<Rightarrow> int" where
  "getYear H t = getFullYear H t - 1900"

definition getMonth :: "('h) host_scheme \<Rightarrow> int \<Rightarrow> int" where
  "getMonth H t = int (month_of (leap (getFullYear H t)) (day_in_year (local_day H t)))"

definition getDate :: "('h) host_scheme \<Rightarrow> int \<Rightarrow> int" where
  "getDate H t = day_in_year (local_day H t) - month_start (leap (getFullYear H t)) (nat (getMonth H t)) + 1"

definition getDay :: "('h) host_scheme \<Rightarrow> int \<Rightarrow> int" where
  "getDay H t = (local_day H t + 4) mod 7"

definition getHours :: "('h) host_scheme \<Rightarrow> int \<Rightarrow> int" where
  "getHours H t = local_time H t div 3600000 mod 24"

definition getMinutes :: "('h) host_scheme \<Rightarrow> int \<Rightarrow> int" where
  "getMinutes H t = local_time H t div 60000 mod 60"

definition getSeconds :: "('h) host_scheme \<Rightarrow> int \<Rightarrow> int" where
  "getSeconds H t = local_time H t div 1000 mod 60"

definition getTimezoneOffset :: "('h) host_scheme \<Rightarrow> int \<Rightarrow> int" where
  "getTimezoneOffset H t = - tz_utc H t"

text \<open>\<open>new Date(y, m, dt, h, mi, s)\<close>; a year below 100 counts from 1900.\<close>

definition full_year :: "int \<Rightarrow> int" where
  "full_year y = (if 0 \<le> y \<and> y \<le> 99 then 1900 + y else y)"

definition new_Date :: "('h) host_scheme \<Rightarrow> int \<Rightarrow> int \<Rightarrow> int \<Rightarrow> int \<Rightarrow> int \<Rightarrow> int \<Rightarrow> int" where
  "new_Date H y m dt h mi s = to_utc H (make_date (make_day (full_year y) m dt) (make_time h mi s 0))"

text \<open>The operator \<open>%\<close> for a positive divisor.\<close>

definition js_rem :: "int \<Rightarrow> int \<Rightarrow> int" where
  "js_rem x k = (if x < 0 then - (- x mod k) else x mod k)"

section \<open>The fields of a date\<close>

lemma getMonth_bounds: "0 \<le> getMonth H t" "getMonth H t < 12"
  using month_of_bounds(1) [OF day_in_year_bounds, of "local_day H t"] by (simp_all add: getMonth_def getFullYear_def)

lemma getDay_bounds: "0 \<le> getDay H t" "getDay H t < 7"
  by (simp_all add: getDay_def)

lemma getHours_bounds: "0 \<le> getHours H t" "getHours H t < 24"
  by (simp_all add: getHours_def)

lemma getMinutes_bounds: "0 \<le> getMinutes H t" "getMinutes H t < 60"
  by (simp_all add: getMinutes_def)

lemma getSeconds_bounds: "0 \<le> getSeconds H t" "getSeconds H t < 60"
  by (simp_all add: getSeconds_def)

lemma month_length_table: "list_all (\<lambda>l. list_all (\<lambda>m. month_start l (Suc m) \<le> month_start l m + 31) [0..<12]) [False, True]"
  by code_simp

lemma month_length_le: "m < 12 \<Longrightarrow> month_start l (Suc m) \<le> month_start l m + 31"
  using month_length_table unfolding list_all_iff by (cases l) auto

lemma getDate_bounds: "1 \<le> getDate H t" "getDate H t \<le> 31"
proof -
  have b: "month_of (leap (getFullYear H t)) (day_in_year (local_day H t)) < 12"
    "month_start (leap (getFullYear H t)) (month_of (leap (getFullYear H t)) (day_in_year (local_day H t))) \<le> day_in_year (local_day H t)"
    "day_in_year (local_day H t) < month_start (leap (getFullYear H t)) (Suc (month_of (leap (getFullYear H t)) (day_in_year (local_day H t))))"
    using month_of_bounds [OF day_in_year_bounds, of "local_day H t"] by (simp_all add: getFullYear_def)
  with month_length_le [OF b(1), of "leap (getFullYear H t)"] show "1 \<le> getDate H t" "getDate H t \<le> 31"
    by (simp_all add: getDate_def getMonth_def)
qed

text \<open>The calendar date determines the day.\<close>

lemma make_day_fields: "make_day (getFullYear H t) (getMonth H t) (getDate H t) = local_day H t"
  using getMonth_bounds [of H t]
  by (simp add: make_day_def Let_def getDate_def day_in_year_def getFullYear_def)

lemma split_time:
  fixes u :: int
  shows "u mod 86400000 = u mod 3600000 + 3600000 * (u div 3600000 mod 24)"
    "u mod 3600000 = u mod 60000 + 60000 * (u div 60000 mod 60)"
    "u mod 60000 = u mod 1000 + 1000 * (u div 1000 mod 60)"
proof -
  have k: "86400000 = 3600000 * (24 :: int)" "3600000 = 60000 * (60 :: int)" "60000 = 1000 * (60 :: int)" by simp_all
  show "u mod 86400000 = u mod 3600000 + 3600000 * (u div 3600000 mod 24)"
    by (subst k(1), subst zmod_zmult2_eq, simp, rule add.commute)
  show "u mod 3600000 = u mod 60000 + 60000 * (u div 60000 mod 60)"
    by (subst k(2), subst zmod_zmult2_eq, simp, rule add.commute)
  show "u mod 60000 = u mod 1000 + 1000 * (u div 1000 mod 60)"
    by (subst k(3), subst zmod_zmult2_eq, simp, rule add.commute)
qed

lemma make_time_fields:
  "make_time (getHours H t) (getMinutes H t) (getSeconds H t) 0 = time_in_day (local_time H t) - local_time H t mod 1000"
  unfolding make_time_def getHours_def getMinutes_def getSeconds_def time_in_day_def
  unfolding split_time(1) [of "local_time H t"] split_time(2) [of "local_time H t"] split_time(3) [of "local_time H t"] 
  by (simp only: algebra_simps add_0_right)

lemma make_date_fields:
  "make_date (make_day (getFullYear H t) (getMonth H t) (getDate H t)) (make_time (getHours H t) (getMinutes H t) (getSeconds H t) 0) =
    local_time H t - local_time H t mod 1000"
  unfolding make_day_fields make_time_fields
  by (simp add: make_date_def local_day_def day_def time_in_day_def)

text \<open>And the day of a valid calendar date has that date.\<close>

definition valid_date :: "int \<Rightarrow> int \<Rightarrow> int \<Rightarrow> bool" where
  "valid_date y m dt \<longleftrightarrow> 0 \<le> m \<and> m < 12 \<and> 1 \<le> dt \<and> dt \<le> month_start (leap y) (Suc (nat m)) - month_start (leap y) (nat m)"

lemma month_start_ends: "month_start l 0 = 0" "month_start l 12 = (if l then 366 else 365)"
  by (simp_all add: month_start_def)

lemma make_day_year:
  assumes "valid_date y m dt"
  shows "year_of_day (make_day y m dt) = y" "day_in_year (make_day y m dt) = month_start (leap y) (nat m) + dt - 1"
    "month_of (leap y) (day_in_year (make_day y m dt)) = nat m"
proof -
  have m: "0 \<le> m" "m < 12" "nat m < 12" using assms by (auto simp: valid_date_def)
  have lo: "0 \<le> month_start (leap y) (nat m)"
    using month_start_mono [of 0 "nat m" "leap y"] m month_start_ends(1) [of "leap y"] by (cases "nat m") auto
  have hi: "month_start (leap y) (Suc (nat m)) \<le> (if leap y then 366 else 365)"
    using month_start_mono [of "Suc (nat m)" 12 "leap y"] m month_start_ends(2) [of "leap y"] by (cases "Suc (nat m) = 12") auto
  have d: "make_day y m dt = day_from_year y + month_start (leap y) (nat m) + dt - 1"
    using m by (simp add: make_day_def)
  show y: "year_of_day (make_day y m dt) = y"
    using assms lo hi day_from_year_next [of y] by (intro year_of_day_unique) (auto simp: d valid_date_def)
  show x: "day_in_year (make_day y m dt) = month_start (leap y) (nat m) + dt - 1"
    by (simp only: day_in_year_def y) (simp add: d)
  show "month_of (leap y) (day_in_year (make_day y m dt)) = nat m"
    unfolding x using assms m by (intro month_of_unique) (auto simp: valid_date_def)
qed

section \<open>Zones without daylight saving\<close>

definition fixed_zone :: "('h) host_scheme \<Rightarrow> int \<Rightarrow> bool" where
  "fixed_zone H c \<longleftrightarrow> (\<forall>t. tz_utc H t = c) \<and> (\<forall>t. tz_local H t = c)"

lemma fixed_local: "fixed_zone H c \<Longrightarrow> local_time H t = t + 60000 * c"
  by (simp add: fixed_zone_def local_time_def)

lemma fixed_local_utc: "fixed_zone H c \<Longrightarrow> local_time H (to_utc H t) = t"
  by (simp add: fixed_zone_def local_time_def to_utc_def)

lemma fixed_utc_local: "fixed_zone H c \<Longrightarrow> to_utc H (local_time H t) = t"
  by (simp add: fixed_zone_def local_time_def to_utc_def)

lemma fixed_utc_diff: "fixed_zone H c \<Longrightarrow> to_utc H (local_time H t - x) = t - x"
  by (simp add: fixed_zone_def local_time_def to_utc_def)

lemma new_Date_fields:
  assumes "fixed_zone H c" "getFullYear H t \<ge> 100"
  shows "new_Date H (getFullYear H t) (getMonth H t) (getDate H t) (getHours H t) (getMinutes H t) (getSeconds H t) =
    t - local_time H t mod 1000"
  using assms by (simp add: new_Date_def full_year_def make_date_fields fixed_utc_diff)

text \<open>The fields of midnight at a valid calendar date.\<close>

lemma midnight_fields:
  assumes "fixed_zone H c" "local_time H t = make_date (make_day y m dt) 0" "valid_date y m dt"
  shows "getFullYear H t = y" "getMonth H t = m" "getDate H t = dt" "local_day H t = make_day y m dt"
proof -
  have d: "local_day H t = make_day y m dt" by (simp add: local_day_def assms(2) make_date_def day_def)
  then show "local_day H t = make_day y m dt" .
  show y: "getFullYear H t = y" unfolding getFullYear_def d by (rule make_day_year [OF assms(3)])
  show m: "getMonth H t = m" unfolding getMonth_def y d make_day_year(3) [OF assms(3)] using assms(3) by (simp add: valid_date_def)
  show "getDate H t = dt" unfolding getDate_def y d m make_day_year(2) [OF assms(3)] by simp
qed
end
