(* ===== verification/Js_Rounding.thy ===== *)
theory Js_Rounding
  imports Js_Number
begin

text \<open>
  The rounding error of a double, at most one part in \<open>2 ^ 53\<close>, along a chain of divisions. With
  it the floor of milliseconds divided by 1000, 60, 60 and 24 is the integer quotient.
\<close>

text \<open>\<open>Math.round\<close>, and the integer that a rounded number is.\<close>

definition num_round :: "jsnum \<Rightarrow> jsnum" where
  "num_round x = (case x of Fin r \<Rightarrow> Fin (of_int \<lfloor>r + 1 / 2\<rfloor>) | _ \<Rightarrow> x)"

definition num_int :: "jsnum \<Rightarrow> int" where
  "num_int x = \<lfloor>num_rat x\<rfloor>"

lemma num_int_of [simp]: "num_int (num_of i) = i"
  by (simp add: num_int_def num_of_def num_rat_def)

section \<open>The error of one operation\<close>


definition half_ulp :: rat where
  "half_ulp = 1 / 2 ^ 53"

lemma round_half_even_near: "\<bar>of_int (round_half_even x) - x\<bar> \<le> 1 / 2"
proof -
  have "of_int \<lfloor>x\<rfloor> \<le> x" "x < of_int \<lfloor>x\<rfloor> + 1" by linarith+
  then show ?thesis unfolding round_half_even_def Let_def by (auto simp: abs_le_iff)
qed

lemma pow2_add: "pow2 (e + f) = pow2 e * pow2 f"
proof (cases "0 \<le> e"; cases "0 \<le> f")
  assume "0 \<le> e" "0 \<le> f"
  then show ?thesis by (simp add: pow2_def nat_add_distrib power_add)
next
  assume a: "0 \<le> e" "\<not> 0 \<le> f"
  then show ?thesis using pow2_diff [of "nat e" "nat (- f)"] by (simp add: pow2_def [of e] pow2_def [of f])
next
  assume a: "\<not> 0 \<le> e" "0 \<le> f"
  then show ?thesis using pow2_diff [of "nat f" "nat (- e)"] by (simp add: pow2_def [of e] pow2_def [of f] add.commute)
next
  assume "\<not> 0 \<le> e" "\<not> 0 \<le> f"
  then show ?thesis by (simp add: pow2_def nat_add_distrib power_add [symmetric] minus_add_distrib)
qed

lemma round_double_near:
  assumes "x \<noteq> 0" "1 / 2 ^ 100 \<le> \<bar>x\<bar>" "\<bar>x\<bar> \<le> 2 ^ 100"
  shows "\<exists>y. round_double x = Fin y \<and> \<bar>y - x\<bar> \<le> \<bar>x\<bar> * half_ulp"
proof -
  define a where "a = \<bar>x\<bar>"
  define e where "e = exponent a - 52"
  have a: "0 < a" "1 / 2 ^ 100 \<le> a" "a \<le> 2 ^ 100" using assms by (simp_all add: a_def)
  note ex = exponent_bounds [OF a(1)]
  have p: "pow2 (- 100) = 1 / 2 ^ 100" "pow2 101 = 2 * 2 ^ 100" "pow2 (- 52) = 1 / 2 ^ 52" by (simp_all add: pow2_def)
  have "exponent a \<ge> - 101"
  proof (rule ccontr)
    assume "\<not> exponent a \<ge> - 101"
    then have "pow2 (exponent a + 1) \<le> pow2 (- 100)" by (intro pow2_mono) simp
    then show False using ex(2) a(2) p(1) by linarith
  qed
  then have m: "max (exponent a - 52) (- 1074) = e" by (simp add: e_def)
  have pe: "pow2 e = pow2 (exponent a) / 2 ^ 52" using pow2_add [of "exponent a" "- 52"] p(3) by (simp add: e_def)
  define y where "y = of_int (round_half_even (a / pow2 e)) * pow2 e"
  have "\<bar>y - a\<bar> = \<bar>of_int (round_half_even (a / pow2 e)) - a / pow2 e\<bar> * pow2 e"
  proof -
    have "y - a = (of_int (round_half_even (a / pow2 e)) - a / pow2 e) * pow2 e"
      using pow2_pos [of e] less_imp_neq [OF pow2_pos [of e]] by (simp add: y_def left_diff_distrib)
    then show ?thesis using less_imp_le [OF pow2_pos [of e]] by (simp add: abs_mult abs_of_nonneg)
  qed
  also have "\<dots> \<le> 1 / 2 * pow2 e" by (intro mult_right_mono round_half_even_near) (simp add: less_imp_le)
  also have "\<dots> \<le> a * half_ulp" unfolding pe half_ulp_def using ex(1) by simp
  finally have near: "\<bar>y - a\<bar> \<le> a * half_ulp" .
  have "a * half_ulp \<le> a / 2" using a(1) by (simp add: half_ulp_def)
  then have y: "0 < y" "y < 2 * 2 ^ 100" using near [unfolded abs_le_iff] a by linarith+
  have "(2 :: rat) * 2 ^ 100 \<le> pow2 1024" by (simp add: pow2_def)
  then have "round_double x = Fin (sgn x * y)"
    using assms(1) y m by (simp add: round_double_def Let_def flip: a_def y_def)
  moreover have "\<bar>sgn x * y - x\<bar> = \<bar>y - a\<bar>" using assms(1) by (auto simp: a_def sgn_if abs_if)
  ultimately show ?thesis using near by (auto simp: a_def)
qed

lemma num_div_near:
  assumes "x \<noteq> 0" "1 / 2 ^ 80 \<le> \<bar>x\<bar>" "\<bar>x\<bar> \<le> 2 ^ 80" "1 \<le> k" "k \<le> 1000" "\<bar>y - x\<bar> \<le> \<bar>x\<bar> * d" "0 \<le> d" "d \<le> 1 / 2"
  shows "\<exists>z. num_div (Fin y) (num_of k) = Fin z \<and> \<bar>z - x / of_int k\<bar> \<le> \<bar>x / of_int k\<bar> * (d + 2 * half_ulp)"
proof -
  define K where "K = (of_int k :: rat)"
  have K: "1 \<le> K" "K \<le> 1000" using assms(4,5) by (simp_all add: K_def)
  have "\<bar>x\<bar> * d \<le> \<bar>x\<bar> * (1 / 2)" using assms(8) by (intro mult_left_mono) simp_all
  then have y: "\<bar>x\<bar> / 2 \<le> \<bar>y\<bar>" "\<bar>y\<bar> \<le> 2 * \<bar>x\<bar>" using assms(6) by linarith+
  then have y0: "y \<noteq> 0" using assms(1) by auto
  have q: "\<bar>y / K\<bar> = \<bar>y\<bar> / K" using K by simp
  have "\<bar>y\<bar> / 1000 \<le> \<bar>y / K\<bar>" unfolding q using K by (intro divide_left_mono) simp_all
  then have lo: "1 / 2 ^ 100 \<le> \<bar>y / K\<bar>" using y(1) assms(2) by simp
  have "\<bar>y / K\<bar> \<le> \<bar>y\<bar>" unfolding q using K divide_left_mono [of 1 K "\<bar>y\<bar>"] by simp
  then have hi: "\<bar>y / K\<bar> \<le> 2 ^ 100" using y(2) assms(3) by simp
  obtain z where z: "round_double (y / K) = Fin z" "\<bar>z - y / K\<bar> \<le> \<bar>y / K\<bar> * half_ulp"
    using round_double_near [of "y / K"] y0 K lo hi by auto
  have "num_div (Fin y) (num_of k) = Fin z"
    using z(1) y0 K by (simp add: num_of_def num_rat_def signed_def flip: K_def)
  moreover have "\<bar>z - x / K\<bar> \<le> \<bar>x / K\<bar> * (d + 2 * half_ulp)"
  proof -
    have "\<bar>z - x / K\<bar> \<le> \<bar>z - y / K\<bar> + \<bar>y / K - x / K\<bar>" by linarith
    also have "\<bar>y / K - x / K\<bar> = \<bar>y - x\<bar> / K" using K by (simp flip: diff_divide_distrib)
    also have "\<bar>z - y / K\<bar> + \<dots> \<le> \<bar>y\<bar> / K * half_ulp + \<bar>x\<bar> * d / K"
      using z(2) assms(6) K by (intro add_mono divide_right_mono) (simp_all add: q)
    also have "\<bar>y\<bar> / K * half_ulp \<le> 2 * \<bar>x\<bar> / K * half_ulp"
      using y(2) K by (intro mult_right_mono divide_right_mono) (simp_all add: half_ulp_def)
    finally show ?thesis using K by (simp add: algebra_simps add_divide_distrib)
  qed
  ultimately show ?thesis by (auto simp: K_def)
qed

section \<open>Milliseconds to days\<close>

text \<open>The number of whole days in a number of milliseconds, by four divisions.\<close>

definition whole_days :: "int \<Rightarrow> jsnum" where
  "whole_days i = num_floor (num_div (num_div (num_div (num_div (num_of i) (num_of 1000)) (num_of 60)) (num_of 60)) (num_of 24))"

lemma whole_days_exact:
  assumes "\<bar>k\<bar> \<le> 2 ^ 23"
  shows "whole_days (k * 86400000) = num_of k"
proof -
  have e: "exact (k * 86400)" "exact (k * 1440)" "exact (k * 24)" "exact k" using assms by (simp_all add: exact_def abs_mult)
  have "k * 86400000 = k * 86400 * 1000" "k * 86400 = k * 1440 * 60" "k * 1440 = k * 24 * 60" by simp_all
  then have "num_div (num_of (k * 86400000)) (num_of 1000) = num_of (k * 86400)"
    "num_div (num_of (k * 86400)) (num_of 60) = num_of (k * 1440)"
    "num_div (num_of (k * 1440)) (num_of 60) = num_of (k * 24)"
    "num_div (num_of (k * 24)) (num_of 24) = num_of k"
    using num_div_int [OF e(1), of 1000] num_div_int [OF e(2), of 60] num_div_int [OF e(3), of 60] num_div_int [OF e(4), of 24]
    by (simp_all only: mult.assoc mult.commute) simp_all
  then show ?thesis by (simp add: whole_days_def num_floor_def num_of_def)
qed

lemma whole_days:
  assumes "\<bar>i\<bar> \<le> 2 ^ 49"
  shows "whole_days i = num_of (i div 86400000)"
proof (cases "i mod 86400000 = 0")
  case True
  define k where "k = i div 86400000"
  have i: "i = k * 86400000" using True by (simp add: k_def mod_eq_0_iff_dvd)
  then have "\<bar>k\<bar> \<le> 2 ^ 23" using assms by simp
  then show ?thesis using whole_days_exact [of k] by (simp add: i)
next
  case False
  define x where "x = (of_int i :: rat)"
  define q r where "q = i div 86400000" and "r = i mod 86400000"
  have r: "1 \<le> r" "r \<le> 86399999" and i: "i = 86400000 * q + r"
  proof -
    have "0 \<le> r" "r < 86400000" by (simp_all add: r_def)
    then show "1 \<le> r" "r \<le> 86399999" using False by (auto simp: r_def [symmetric])
    show "i = 86400000 * q + r" by (simp add: q_def r_def)
  qed
  have "i \<noteq> 0" using False by auto
  then have "1 \<le> \<bar>i\<bar>" by linarith
  then have x: "1 \<le> \<bar>x\<bar>" "\<bar>x\<bar> \<le> 2 ^ 49"
    using assms unfolding x_def by (metis of_int_1_le_iff of_int_abs, metis of_int_abs of_int_le_iff of_int_numeral of_int_power)
  have x0: "x \<noteq> 0" using x(1) by auto
  have h: "half_ulp = 1 / 9007199254740992" by (simp add: half_ulp_def)
  have n: "num_of i = Fin x" by (simp add: num_of_def x_def)
  obtain a where a: "num_div (Fin x) (num_of 1000) = Fin a" "\<bar>a - x / 1000\<bar> \<le> \<bar>x / 1000\<bar> * (2 * half_ulp)"
    using num_div_near [of x 1000 x 0] x x0 by auto
  obtain b where b: "num_div (Fin a) (num_of 60) = Fin b" "\<bar>b - x / 60000\<bar> \<le> \<bar>x / 60000\<bar> * (4 * half_ulp)"
    using num_div_near [of "x / 1000" 60 a "2 * half_ulp"] x x0 a(2) by (auto simp: h)
  obtain c where c: "num_div (Fin b) (num_of 60) = Fin c" "\<bar>c - x / 3600000\<bar> \<le> \<bar>x / 3600000\<bar> * (6 * half_ulp)"
    using num_div_near [of "x / 60000" 60 b "4 * half_ulp"] x x0 b(2) by (auto simp: h)
  obtain d where d: "num_div (Fin c) (num_of 24) = Fin d" "\<bar>d - x / 86400000\<bar> \<le> \<bar>x / 86400000\<bar> * (8 * half_ulp)"
    using num_div_near [of "x / 3600000" 24 c "6 * half_ulp"] x x0 c(2) by (auto simp: h)
  have "\<bar>x / 86400000\<bar> * (8 * half_ulp) \<le> 2 ^ 49 / 86400000 * (8 * half_ulp)"
    using x(2) by (intro mult_right_mono) (simp_all add: h)
  also have "\<dots> < 1 / 86400000" by (simp add: h)
  finally have d': "\<bar>d - x / 86400000\<bar> < 1 / 86400000" using d(2) by linarith
  have "x = 86400000 * of_int q + of_int r" unfolding x_def i by simp
  then have "x / 86400000 = of_int q + of_int r / 86400000" by simp
  moreover have "1 / 86400000 \<le> (of_int r / 86400000 :: rat)" "(of_int r / 86400000 :: rat) \<le> 86399999 / 86400000"
    using r by simp_all
  ultimately have "of_int q < d" "d < of_int q + 1" using d' [unfolded abs_less_iff] by linarith+
  then have "\<lfloor>d\<rfloor> = q" by linarith
  then show ?thesis using a(1) b(1) c(1) d(1) by (simp add: whole_days_def n num_floor_def) (simp add: num_of_def q_def)
qed

end
