(* ===== verification/Date_Tofte.thy ===== *)
theory Date_Tofte
  imports Js_Date Js_Rounding
begin

text \<open>
  The formatter of \<open>metrics/jint/sunspider/date-format-tofte.js\<close>, \<open>Date.prototype.formatDate\<close>: one
  function per letter of the format, named \<open>tf_\<close> and the letter, the loop over the characters of the
  format with its escapes, and the temporary change of the date's time. The letter \<open>W\<close> formats another
  date, the last day of the year before, with the same function: \<open>tf_W\<close> has fuel for this recursion.
\<close>

section \<open>The tables\<close>

definition switches :: string where
  "switches = ''aABdDFgGhHijlLmMnOrsStUwWyYz''"

definition daysLong :: "string list" where
  "daysLong = [''Sunday'', ''Monday'', ''Tuesday'', ''Wednesday'', ''Thursday'', ''Friday'', ''Saturday'']"

definition daysShort :: "string list" where
  "daysShort = [''Sun'', ''Mon'', ''Tue'', ''Wed'', ''Thu'', ''Fri'', ''Sat'']"

definition monthsShort :: "string list" where
  "monthsShort = [''Jan'', ''Feb'', ''Mar'', ''Apr'', ''May'', ''Jun'', ''Jul'', ''Aug'', ''Sep'', ''Oct'', ''Nov'', ''Dec'']"

definition monthsLong :: "string list" where
  "monthsLong = [''January'', ''February'', ''March'', ''April'', ''May'', ''June'', ''July'', ''August'',
    ''September'', ''October'', ''November'', ''December'']"

definition daysSuffix :: "string list" where
  "daysSuffix = [''st'', ''nd'', ''rd'', ''th'', ''th'', ''th'', ''th'',
    ''th'', ''th'', ''th'', ''th'', ''th'', ''th'', ''th'',
    ''th'', ''th'', ''th'', ''th'', ''th'', ''th'', ''st'',
    ''nd'', ''rd'', ''th'', ''th'', ''th'', ''th'', ''th'',
    ''th'', ''th'', ''st'']"

fun arrayExists :: "'a list \<Rightarrow> 'a \<Rightarrow> bool" where
  "arrayExists [] x = False"
| "arrayExists (a # as) x = (if a = x then True else arrayExists as x)"

section \<open>The letters\<close>

text \<open>The test \<open>new String(x).length == 1? "0"+x : x\<close> of several letters.\<close>

definition zero_pad :: "int \<Rightarrow> jsval" where
  "zero_pad x = (if length (show_int x) = 1 then JStr (''0'' @ show_int x) else JNum x)"

definition tf_a :: "'h host_scheme \<Rightarrow> int \<Rightarrow> jsval" where
  "tf_a H t = JStr (if getHours H t > 11 then ''pm'' else ''am'')"

definition tf_A :: "'h host_scheme \<Rightarrow> int \<Rightarrow> jsval" where
  "tf_A H t = JStr (if getHours H t > 11 then ''PM'' else ''AM'')"

definition tf_B :: "'h host_scheme \<Rightarrow> int \<Rightarrow> jsval" where
  "tf_B H t =
    (let off = (getTimezoneOffset H t + 60) * 60;
         theSeconds = getHours H t * 3600 + getMinutes H t * 60 + getSeconds H t + off;
         beat = num_int (num_floor (num_div (num_of theSeconds) (round_double (864 / 10))));
         beat = (if beat > 1000 then beat - 1000 else beat);
         beat = (if beat < 0 then beat + 1000 else beat)
     in if length (show_int beat) = 1 then JStr (''00'' @ show_int beat)
        else if length (show_int beat) = 2 then JStr (''0'' @ show_int beat)
        else JNum beat)"

definition tf_d :: "'h host_scheme \<Rightarrow> int \<Rightarrow> jsval" where
  "tf_d H t = zero_pad (getDate H t)"

definition tf_D :: "'h host_scheme \<Rightarrow> int \<Rightarrow> jsval" where
  "tf_D H t = JStr (daysShort ! nat (getDay H t))"

definition tf_F :: "'h host_scheme \<Rightarrow> int \<Rightarrow> jsval" where
  "tf_F H t = JStr (monthsLong ! nat (getMonth H t))"

definition tf_g :: "'h host_scheme \<Rightarrow> int \<Rightarrow> jsval" where
  "tf_g H t = JNum (if getHours H t > 12 then getHours H t - 12 else getHours H t)"

definition tf_G :: "'h host_scheme \<Rightarrow> int \<Rightarrow> jsval" where
  "tf_G H t = JNum (getHours H t)"

definition tf_h :: "'h host_scheme \<Rightarrow> int \<Rightarrow> jsval" where
  "tf_h H t = (if getHours H t > 12 then zero_pad (getHours H t - 12) else zero_pad (getHours H t))"

definition tf_H :: "'h host_scheme \<Rightarrow> int \<Rightarrow> jsval" where
  "tf_H H t = zero_pad (getHours H t)"

definition tf_i :: "'h host_scheme \<Rightarrow> int \<Rightarrow> jsval" where
  "tf_i H t = zero_pad (getMinutes H t)"

definition tf_j :: "'h host_scheme \<Rightarrow> int \<Rightarrow> jsval" where
  "tf_j H t = JNum (getDate H t)"

definition tf_l :: "'h host_scheme \<Rightarrow> int \<Rightarrow> jsval" where
  "tf_l H t = JStr (daysLong ! nat (getDay H t))"

text \<open>
  The year: \<open>getFullYear\<close> is used when it gives 2001 for the first instant of 2001 in Greenwich,
  otherwise the two digits of \<open>getYear\<close> are completed.
\<close>

definition tf_Y :: "'h host_scheme \<Rightarrow> int \<Rightarrow> int" where
  "tf_Y H t =
    (let newDate = date_parse H ''January 1 2001 00:00:00 +0000''; x = getFullYear H newDate
     in if x = 2001 then getFullYear H t
        else (let x = getYear H t; y = js_rem x 100 in y + (if y < 38 then 2000 else 1900)))"

definition tf_L :: "'h host_scheme \<Rightarrow> int \<Rightarrow> int" where
  "tf_L H t =
    (let y = tf_Y H t
     in if js_rem y 4 = 0 \<and> js_rem y 100 \<noteq> 0 \<or> js_rem y 4 = 0 \<and> js_rem y 100 = 0 \<and> js_rem y 400 = 0 then 1 else 0)"

definition tf_m :: "'h host_scheme \<Rightarrow> int \<Rightarrow> jsval" where
  "tf_m H t = (if getMonth H t < 9 then JStr (''0'' @ show_int (getMonth H t + 1)) else JNum (getMonth H t + 1))"

definition tf_M :: "'h host_scheme \<Rightarrow> int \<Rightarrow> jsval" where
  "tf_M H t = JStr (monthsShort ! nat (getMonth H t))"

definition tf_n :: "'h host_scheme \<Rightarrow> int \<Rightarrow> int" where
  "tf_n H t = getMonth H t + 1"

definition tf_O :: "'h host_scheme \<Rightarrow> int \<Rightarrow> jsval" where
  "tf_O H t =
    (let os = \<bar>getTimezoneOffset H t\<bar>;
         h = show_int (os div 60);
         m = show_int (os mod 60);
         h = (if length h = 1 then ''0'' @ h else h);
         m = (if length m = 1 then ''0'' @ m else m)
     in JStr ((if getTimezoneOffset H t < 0 then ''+'' else ''-'') @ h @ m))"

definition tf_s :: "'h host_scheme \<Rightarrow> int \<Rightarrow> jsval" where
  "tf_s H t = zero_pad (getSeconds H t)"

definition tf_r :: "'h host_scheme \<Rightarrow> int \<Rightarrow> jsval" where
  "tf_r H t =
    JStr (to_str (tf_D H t) @ '', '' @ to_str (tf_j H t) @ '' '' @ to_str (tf_M H t) @ '' '' @ show_int (tf_Y H t) @
      '' '' @ to_str (tf_H H t) @ '':'' @ to_str (tf_i H t) @ '':'' @ to_str (tf_s H t) @ '' '' @ to_str (tf_O H t))"

definition tf_S :: "'h host_scheme \<Rightarrow> int \<Rightarrow> jsval" where
  "tf_S H t = JStr (daysSuffix ! nat (getDate H t - 1))"

definition tf_t :: "'h host_scheme \<Rightarrow> int \<Rightarrow> jsval" where
  "tf_t H t =
    (let daysinmonths = [0, 31, 28, 31, 30, 31, 30, 31, 31, 30, 31, 30, 31]
     in if tf_L H t = 1 \<and> tf_n H t = 2 then JNum 29 else JNum (daysinmonths ! nat (tf_n H t)))"

definition tf_U :: "'h host_scheme \<Rightarrow> int \<Rightarrow> jsval" where
  "tf_U H t = JNum (num_int (num_round (num_div (num_of t) (num_of 1000))))"

definition tf_w :: "'h host_scheme \<Rightarrow> int \<Rightarrow> int" where
  "tf_w H t = getDay H t"

definition tf_y :: "'h host_scheme \<Rightarrow> int \<Rightarrow> jsval" where
  "tf_y H t = (let y = show_int (tf_Y H t) in JStr (substring (length y - 2) (length y) y))"

definition jan1_string :: "int \<Rightarrow> string" where
  "jan1_string y = ''January 1 '' @ show_int y @ '' 00:00:00''"

definition dec31_string :: "int \<Rightarrow> string" where
  "dec31_string y = ''December 31 '' @ show_int y @ '' 00:00:00''"

definition tf_z :: "'h host_scheme \<Rightarrow> int \<Rightarrow> int" where
  "tf_z H t = (let t0 = date_parse H (jan1_string (tf_Y H t)); diff = t - t0 in num_int (whole_days diff))"

section \<open>Calling the letters\<close>

text \<open>
  \<open>eval(ia[ij] + "()")\<close> for a letter of the switches; the week \<open>W\<close> is an argument, it calls the
  formatter again.
\<close>

definition tf_call :: "(int \<Rightarrow> jsval res) \<Rightarrow> 'h host_scheme \<Rightarrow> int \<Rightarrow> char \<Rightarrow> jsval res" where
  "tf_call week H t c =
    (if c = CHR ''a'' then ok (tf_a H t)
     else if c = CHR ''A'' then ok (tf_A H t)
     else if c = CHR ''B'' then ok (tf_B H t)
     else if c = CHR ''d'' then ok (tf_d H t)
     else if c = CHR ''D'' then ok (tf_D H t)
     else if c = CHR ''F'' then ok (tf_F H t)
     else if c = CHR ''g'' then ok (tf_g H t)
     else if c = CHR ''G'' then ok (tf_G H t)
     else if c = CHR ''h'' then ok (tf_h H t)
     else if c = CHR ''H'' then ok (tf_H H t)
     else if c = CHR ''i'' then ok (tf_i H t)
     else if c = CHR ''j'' then ok (tf_j H t)
     else if c = CHR ''l'' then ok (tf_l H t)
     else if c = CHR ''L'' then ok (JNum (tf_L H t))
     else if c = CHR ''m'' then ok (tf_m H t)
     else if c = CHR ''M'' then ok (tf_M H t)
     else if c = CHR ''n'' then ok (JNum (tf_n H t))
     else if c = CHR ''O'' then ok (tf_O H t)
     else if c = CHR ''r'' then ok (tf_r H t)
     else if c = CHR ''s'' then ok (tf_s H t)
     else if c = CHR ''S'' then ok (tf_S H t)
     else if c = CHR ''t'' then ok (tf_t H t)
     else if c = CHR ''U'' then ok (tf_U H t)
     else if c = CHR ''w'' then ok (JNum (tf_w H t))
     else if c = CHR ''W'' then week t
     else if c = CHR ''y'' then ok (tf_y H t)
     else if c = CHR ''Y'' then ok (JNum (tf_Y H t))
     else if c = CHR ''z'' then ok (JNum (tf_z H t))
     else throw ReferenceError)"

text \<open>
  The loop over the characters: an escaped character is copied and its backslash removed, a letter is
  replaced by what its function returns. The result is the joined text.
\<close>

fun tf_loop :: "(int \<Rightarrow> jsval res) \<Rightarrow> 'h host_scheme \<Rightarrow> int \<Rightarrow> string \<Rightarrow> string res" where
  "tf_loop week H t [] = ok []"
| "tf_loop week H t (c # cs) =
    (if c = CHR 0x5C then
       (case cs of [] \<Rightarrow> ok [] | e # es \<Rightarrow> rbind (tf_loop week H t es) (\<lambda>r. ok (e # r)))
     else if arrayExists switches c then
       rbind (tf_call week H t c) (\<lambda>v. rbind (tf_loop week H t cs) (\<lambda>r. ok (to_str v @ r)))
     else rbind (tf_loop week H t cs) (\<lambda>r. ok (c # r)))"

text \<open>
  \<open>formatDate(input, time)\<close> on a date with the time value \<open>t\<close>: the text and the time value the date
  has afterwards. A time that is not passed, or is zero, leaves the date alone; the old time is put back
  when it is not zero.
\<close>

definition format_with :: "(int \<Rightarrow> jsval res) \<Rightarrow> 'h host_scheme \<Rightarrow> string \<Rightarrow> int option \<Rightarrow> int \<Rightarrow> (string \<times> int) res" where
  "format_with week H input time t =
    (let (prevTime, t') = (case time of Some x \<Rightarrow> if x \<noteq> 0 then (Some t, x) else (None, t) | None \<Rightarrow> (None, t))
     in rbind (tf_loop week H t' input) (\<lambda>s.
          ok (s, case prevTime of Some p \<Rightarrow> if p \<noteq> 0 then p else t' | None \<Rightarrow> t')))"

text \<open>The week of the year: the formatter calls itself for the last day of the year before.\<close>

fun tf_W :: "nat \<Rightarrow> 'h host_scheme \<Rightarrow> int \<Rightarrow> jsval res" where
  "tf_W 0 H t = throw OutOfFuel"
| "tf_W (Suc n) H t =
    (let beforeNY = 364 + tf_L H t - tf_z H t;
         afterNY = tf_z H t;
         weekday = (if tf_w H t \<noteq> 0 then tf_w H t - 1 else 6)
     in if beforeNY \<le> 2 \<and> weekday \<le> 2 - beforeNY then ok (JNum 1)
        else
          (let ny = date_parse H (jan1_string (tf_Y H t));
               nyDay = (if getDay H ny \<noteq> 0 then getDay H ny - 1 else 6)
           in if afterNY \<le> 2 \<and> nyDay \<ge> 4 \<and> afterNY \<ge> 6 - nyDay then
                (let prevNY = date_parse H (dec31_string (tf_Y H t - 1))
                 in rbind (format_with (\<lambda>u. tf_W n H u) H ''W'' None prevNY) (\<lambda>(s, _). ok (JStr s)))
              else if nyDay \<le> 3 then ok (JNum (1 + (tf_z H t + nyDay) div 7))
              else ok (JNum (1 + (tf_z H t - (7 - nyDay)) div 7))))"

declare tf_W.simps [simp del]

definition formatDate :: "nat \<Rightarrow> 'h host_scheme \<Rightarrow> string \<Rightarrow> int option \<Rightarrow> int \<Rightarrow> (string \<times> int) res" where
  "formatDate n H input time t = format_with (\<lambda>u. tf_W n H u) H input time t"

text \<open>The script: \<open>k\<close> passes over the two formats, the date moving on by 84266956 ms.\<close>

fun tofte_main :: "nat \<Rightarrow> nat \<Rightarrow> 'h host_scheme \<Rightarrow> int \<Rightarrow> ((string \<times> string) list \<times> int) res" where
  "tofte_main 0 n H t = ok ([], t)"
| "tofte_main (Suc k) n H t =
    rbind (formatDate n H ''Y-m-d'' None t) (\<lambda>(shortFormat, t).
    rbind (formatDate n H ''l, F d, Y g:i:s A'' None t) (\<lambda>(longFormat, t).
    rbind (tofte_main k n H (t + 84266956)) (\<lambda>(r, t). ok ((shortFormat, longFormat) # r, t))))"

definition tofte_script :: "nat \<Rightarrow> 'h host_scheme \<Rightarrow> ((string \<times> string) list \<times> int) res" where
  "tofte_script n H = tofte_main 500 n H (date_parse H ''1/1/2007 1:11:11'')"

end
