(* ===== verification/Date_Tofte_Correct.thy ===== *)
theory Date_Tofte_Correct
  imports Date_Tofte
begin

text \<open>
  What \<open>formatDate\<close> prints: the year, the day of the year under daylight saving, the week against ISO 8601, escapes,
  the restored time, and that it always returns. The hosts are assumed to read the three kinds of date strings that the
  program builds as local dates (\<open>reads_dates\<close>); \<open>sample_host\<close> is such a host.
\<close>


section \<open>Hosts\<close>

definition greenwich_2001 :: int where
  "greenwich_2001 = make_date (make_day 2001 0 1) 0"

definition reads_dates :: "'h host_scheme \<Rightarrow> bool" where
  "reads_dates H \<longleftrightarrow>
    date_parse H ''January 1 2001 00:00:00 +0000'' = greenwich_2001 \<and>
    (\<forall>y. 1000 \<le> y \<and> y \<le> 9999 \<longrightarrow>
      date_parse H (jan1_string y) = to_utc H (make_date (make_day y 0 1) 0) \<and>
      date_parse H (dec31_string y) = to_utc H (make_date (make_day y 11 31) 0))"

definition sample_parse :: "int \<Rightarrow> string \<Rightarrow> int" where
  "sample_parse c s =
    (let year = (\<lambda>n. digits_val (takeWhile is_digit (drop n s)));
         greenwich = (drop (length s - 5) s = ''+0000'')
     in if take 10 s = ''January 1 '' then make_date (make_day (year 10) 0 1) 0 - (if greenwich then 0 else 60000 * c)
        else if take 12 s = ''December 31 '' then make_date (make_day (year 12) 11 31) 0 - 60000 * c
        else make_date (make_day 2007 0 1) (make_time 1 11 11 0) - 60000 * c)"

definition sample_host :: "int \<Rightarrow> host" where
  "sample_host c = \<lparr>tz_utc = (\<lambda>t. c), tz_local = (\<lambda>t. c), date_parse = sample_parse c\<rparr>"

lemma sample_fixed: "fixed_zone (sample_host c) c"
  by (simp add: sample_host_def fixed_zone_def)

lemma show_nat_takeWhile: "takeWhile is_digit (show_nat n @ CHR '' '' # s) = show_nat n"
proof -
  have "\<forall>x \<in> set (show_nat n). is_digit x" using show_nat_digits [of n] by (simp add: list_all_iff)
  moreover have "\<not> is_digit (CHR '' '')" by (simp add: is_digit_def)
  ultimately show ?thesis by (simp add: takeWhile_append2)
qed

lemma sample_reads: "reads_dates (sample_host c)"
proof -
  have g: "sample_parse c ''January 1 2001 00:00:00 +0000'' = greenwich_2001" by code_simp
  have j: "sample_parse c (jan1_string y) = make_date (make_day y 0 1) 0 - 60000 * c" if "1000 \<le> y" for y
  proof -
    have d: "drop (length (jan1_string y) - 5) (jan1_string y) \<noteq> ''+0000''"
      by (simp add: jan1_string_def)
    have "drop 10 (jan1_string y) = show_nat (nat y) @ CHR '' '' # ''00:00:00''" "take 10 (jan1_string y) = ''January 1 ''"
      using that by (simp_all add: jan1_string_def show_int_def)
    then show ?thesis using that d by (simp add: sample_parse_def show_nat_takeWhile digits_val_show)
  qed
  have k: "sample_parse c (dec31_string y) = make_date (make_day y 11 31) 0 - 60000 * c" if "1000 \<le> y" for y
  proof -
    have "drop 12 (dec31_string y) = show_nat (nat y) @ CHR '' '' # ''00:00:00''" "take 12 (dec31_string y) = ''December 31 ''"
      "take 10 (dec31_string y) \<noteq> ''January 1 ''"
      using that by (simp_all add: dec31_string_def show_int_def)
    then show ?thesis using that by (simp add: sample_parse_def show_nat_takeWhile digits_val_show)
  qed
  show ?thesis using g j k by (simp add: reads_dates_def sample_host_def to_utc_def)
qed

section \<open>The year\<close>

lemma greenwich_fields:
  assumes "tz_utc H greenwich_2001 = c" "\<bar>c\<bar> < 525600"
  shows "getFullYear H greenwich_2001 = (if 0 \<le> c then 2001 else 2000)"
proof -
  have l: "local_time H greenwich_2001 = 978307200000 + 60000 * c"
  proof -
    have "greenwich_2001 = 978307200000" by code_simp
    then show ?thesis using assms(1) by (simp add: local_time_def)
  qed
  have y: "day_from_year 2000 = 10957" "day_from_year 2001 = 11323" "day_from_year 2002 = 11688" by code_simp+
  show ?thesis
  proof (cases "0 \<le> c")
    case True
    then have "11323 \<le> (978307200000 + 60000 * c) div 86400000" "(978307200000 + 60000 * c) div 86400000 < 11688"
      using assms(2) by linarith+
    then show ?thesis using True y unfolding getFullYear_def local_day_def day_def l
      by (auto intro!: year_of_day_unique)
  next
    case False
    then have "10957 \<le> (978307200000 + 60000 * c) div 86400000" "(978307200000 + 60000 * c) div 86400000 < 11323"
      using assms(2) by linarith+
    then show ?thesis using False y unfolding getFullYear_def local_day_def day_def l
      by (auto intro!: year_of_day_unique)
  qed
qed

lemma two_digits:
  assumes "1900 \<le> y"
  shows "(let r = js_rem (y - 1900) 100 in r + (if r < 38 then 2000 else 1900)) = y \<longleftrightarrow> 1938 \<le> y \<and> y \<le> 2037"
proof -
  obtain q r where r: "js_rem (y - 1900) 100 = r" "y = 1900 + 100 * q + r" "0 \<le> r" "r < 100" "0 \<le> q"
  proof
    show "js_rem (y - 1900) 100 = (y - 1900) mod 100" using assms by (simp add: js_rem_def)
    have "100 * ((y - 1900) div 100) + (y - 1900) mod 100 = y - 1900" by (rule mult_div_mod_eq)
    then show "y = 1900 + 100 * ((y - 1900) div 100) + (y - 1900) mod 100" by linarith
  qed (use assms in \<open>simp_all add: pos_imp_zdiv_nonneg_iff\<close>)
  consider "q = 0" | "q = 1" | "2 \<le> q" using r(5) by linarith
  then show ?thesis unfolding Let_def r(1) using r(2-4) by cases auto
qed

lemma year_shown:
  assumes "date_parse H ''January 1 2001 00:00:00 +0000'' = greenwich_2001" "tz_utc H greenwich_2001 = c" "\<bar>c\<bar> < 525600"
    "0 \<le> c \<or> 1900 \<le> getFullYear H t"
  shows "tf_Y H t = getFullYear H t \<longleftrightarrow> 0 \<le> c \<or> 1938 \<le> getFullYear H t \<and> getFullYear H t \<le> 2037"
proof (cases "0 \<le> c")
  case True
  then show ?thesis using greenwich_fields [OF assms(2,3)] assms(1) by (simp add: tf_Y_def)
next
  case False
  then show ?thesis
    using greenwich_fields [OF assms(2,3)] two_digits [of "getFullYear H t"] assms(1,4) by (auto simp: tf_Y_def Let_def getYear_def)
qed

text \<open>
  C38: In a zone without daylight saving, for a year from 1900 on and a host that reads the date strings of the program: east of
  Greenwich \<open>Y\<close> is the year of the date. West of Greenwich the function does not trust \<open>getFullYear\<close>, because
  the first instant of 2001 in Greenwich is still in 2000 there, and is right exactly for the years from 1938 to 2037.
\<close>

theorem tofte_year:
  assumes "fixed_zone H c" "\<bar>c\<bar> < 525600" "reads_dates H" "1900 \<le> getFullYear H t"
  shows "tf_Y H t = getFullYear H t \<longleftrightarrow> 0 \<le> c \<or> 1938 \<le> getFullYear H t \<and> getFullYear H t \<le> 2037"
  by (rule year_shown) (use assms in \<open>simp_all add: fixed_zone_def reads_dates_def\<close>)

theorem tofte_year_witness:
  "tf_Y (sample_host (-300)) 2240611200000 = getFullYear (sample_host (-300)) 2240611200000 \<longleftrightarrow>
    0 \<le> (-300 :: int) \<or> 1938 \<le> getFullYear (sample_host (-300)) 2240611200000 \<and> getFullYear (sample_host (-300)) 2240611200000 \<le> 2037"
  by (rule tofte_year [OF sample_fixed _ sample_reads]) code_simp+

section \<open>The day of the year\<close>

lemma day_of_year_shift:
  assumes "tf_Y H t = getFullYear H t"
    and "date_parse H (jan1_string (getFullYear H t)) = to_utc H (make_date (make_day (getFullYear H t) 0 1) 0)"
    and "shift = tz_utc H t - tz_local H (make_date (make_day (getFullYear H t) 0 1) 0)" "\<bar>shift\<bar> \<le> 1440"
  shows "tf_z H t = day_in_year (local_day H t) +
    (if time_in_day (local_time H t) < 60000 * shift then - 1 else if 86400000 + 60000 * shift \<le> time_in_day (local_time H t) then 1 else 0)"
proof -
  define y x u where "y = getFullYear H t" and "x = day_in_year (local_day H t)" and "u = time_in_day (local_time H t)"
  have x: "0 \<le> x" "x \<le> 365" using day_in_year_bounds [of "local_day H t"] by (simp_all add: x_def split: if_splits)
  have u: "0 \<le> u" "u < 86400000" by (simp_all add: u_def time_in_day_def)
  have sh: "- 1440 \<le> shift" "shift \<le> 1440" using assms(4) by linarith+
  have m: "make_day y 0 1 = day_from_year y" by (simp add: make_day_def month_start_def)
  have lt: "local_time H t = 86400000 * local_day H t + u" by (simp add: local_day_def day_def u_def time_in_day_def)
  have "local_day H t = day_from_year y + x" by (simp add: x_def day_in_year_def y_def getFullYear_def)
  then have diff: "t - date_parse H (jan1_string y) = 86400000 * x + (u - 60000 * shift)"
    using assms(2,3) lt by (simp add: local_time_def to_utc_def make_date_def m flip: y_def)
  have "\<bar>86400000 * x + (u - 60000 * shift)\<bar> \<le> 2 ^ 49" using x u sh by (simp add: abs_le_iff)
  then have z: "tf_z H t = (86400000 * x + (u - 60000 * shift)) div 86400000"
    using assms(1) by (simp add: tf_z_def Let_def diff whole_days flip: y_def)
  consider "u < 60000 * shift" | "86400000 + 60000 * shift \<le> u" "\<not> u < 60000 * shift" | "\<not> u < 60000 * shift" "\<not> 86400000 + 60000 * shift \<le> u"
    by blast
  then have "(86400000 * x + (u - 60000 * shift)) div 86400000 = x + (if u < 60000 * shift then - 1 else if 86400000 + 60000 * shift \<le> u then 1 else 0)"
  proof cases
    case 1
    then show ?thesis using u sh by (intro int_div_pos_eq [where r = "u - 60000 * shift + 86400000"]) (simp_all add: algebra_simps)
  next
    case 2
    then show ?thesis using u sh by (intro int_div_pos_eq [where r = "u - 60000 * shift - 86400000"]) (simp_all add: algebra_simps)
  next
    case 3
    then show ?thesis using u sh by (intro int_div_pos_eq [where r = "u - 60000 * shift"]) (simp_all add: algebra_simps)
  qed
  then show ?thesis using z by (simp add: x_def u_def)
qed

text \<open>
  C36: The day of the year \<open>z\<close> is counted in milliseconds from the start of the year. Where \<open>Y\<close> shows the year and the host reads the two
  date strings: when clocks are ahead by \<open>shift\<close> minutes of what they were at the new year, \<open>z\<close> is one day short for the first \<open>shift\<close>
  minutes of each day, and when they are behind it is one day too many for the last ones.
\<close>

theorem tofte_day_of_year:
  assumes "date_parse H ''January 1 2001 00:00:00 +0000'' = greenwich_2001" "tz_utc H greenwich_2001 = c" "\<bar>c\<bar> < 525600"
    and "y = getFullYear H t" "0 \<le> c \<or> 1938 \<le> y \<and> y \<le> 2037"
    and "date_parse H (jan1_string y) = to_utc H (make_date (make_day y 0 1) 0)"
    and "shift = tz_utc H t - tz_local H (make_date (make_day y 0 1) 0)" "\<bar>shift\<bar> \<le> 1440"
  shows "tf_z H t = day_in_year (local_day H t) +
    (if time_in_day (local_time H t) < 60000 * shift then - 1 else if 86400000 + 60000 * shift \<le> time_in_day (local_time H t) then 1 else 0)"
proof -
  have "tf_Y H t = getFullYear H t" using year_shown [OF assms(1-3), of t] assms(4,5) by auto
  then show ?thesis using assms(6-8) unfolding assms(4) by (rule day_of_year_shift)
qed

text \<open>Half past midnight on 1 July 2007 in a zone with an hour of daylight saving.\<close>

definition summer_host :: host where
  "summer_host = \<lparr>tz_utc = (\<lambda>t. if 1174784400000 \<le> t \<and> t < 1193533200000 then 120 else 60),
    tz_local = (\<lambda>t. if 1174791600000 \<le> t \<and> t < 1193540400000 then 120 else 60), date_parse = sample_parse 60\<rparr>"

theorem tofte_day_of_year_witness:
  "tf_z summer_host 1183242600000 = day_in_year (local_day summer_host 1183242600000) +
    (if time_in_day (local_time summer_host 1183242600000) < 60000 * 60 then - 1
     else if 86400000 + 60000 * 60 \<le> time_in_day (local_time summer_host 1183242600000) then 1 else 0)"
  by (rule tofte_day_of_year [where c = 60 and y = 2007]) code_simp+

section \<open>The week of the year\<close>

text \<open>
  ISO 8601: a week belongs to the year of its Thursday, and is counted by the Thursdays of that year.
\<close>

definition iso_weekday :: "int \<Rightarrow> int" where
  "iso_weekday d = (d + 3) mod 7"

definition iso_week :: "int \<Rightarrow> int" where
  "iso_week d = (let th = d - iso_weekday d + 3 in day_in_year th div 7 + 1)"

lemma iso_weekday_bounds: "0 \<le> iso_weekday d" "iso_weekday d < 7"
  by (simp_all add: iso_weekday_def)

lemma monday_weekday: "(if getDay H t \<noteq> 0 then getDay H t - 1 else 6) = iso_weekday (local_day H t)"
proof -
  define d where "d = local_day H t"
  have "(d + 4) mod 7 = (if (d + 3) mod 7 = 6 then 0 else (d + 3) mod 7 + 1)" by presburger
  moreover have "0 \<le> (d + 3) mod 7" by simp
  ultimately show ?thesis by (auto simp: getDay_def iso_weekday_def simp flip: d_def)
qed

text \<open>The week of a day \<open>x\<close> of a year that begins on the weekday \<open>n\<close> (0 is Monday) and has \<open>l\<close> days.\<close>

lemma iso_week_same_year:
  assumes "d = day_from_year y + x" "0 \<le> x - iso_weekday d + 3" "x - iso_weekday d + 3 < day_from_year (y + 1) - day_from_year y"
  shows "iso_week d = (x - iso_weekday d + 3) div 7 + 1"
proof -
  have "year_of_day (d - iso_weekday d + 3) = y" using assms by (intro year_of_day_unique) auto
  then show ?thesis using assms(1) by (simp add: iso_week_def day_in_year_def)
qed

lemma iso_week_next_year:
  assumes "d = day_from_year y + x" "0 \<le> x" "x < day_from_year (y + 1) - day_from_year y"
    "day_from_year (y + 1) - day_from_year y \<le> x - iso_weekday d + 3"
  shows "iso_week d = 1"
proof -
  have "day_from_year (y + 1) + 365 \<le> day_from_year (y + 2)" using day_from_year_mono [of "y + 1" "y + 2"] by simp
  then have "year_of_day (d - iso_weekday d + 3) = y + 1"
    using assms iso_weekday_bounds [of d] by (intro year_of_day_unique) (auto simp: add.commute)
  then have "day_in_year (d - iso_weekday d + 3) = x - iso_weekday d + 3 - (day_from_year (y + 1) - day_from_year y)"
    using assms(1) by (simp add: day_in_year_def)
  moreover have "0 \<le> x - iso_weekday d + 3 - (day_from_year (y + 1) - day_from_year y)"
    "x - iso_weekday d + 3 - (day_from_year (y + 1) - day_from_year y) < 7"
    using assms iso_weekday_bounds [of d] by linarith+
  ultimately show ?thesis by (simp add: iso_week_def)
qed

lemma iso_week_monday: "d' \<le> d \<Longrightarrow> d - iso_weekday d \<le> d' \<Longrightarrow> iso_week d' = iso_week d"
proof -
  assume a: "d' \<le> d" "d - iso_weekday d \<le> d'"
  have "(d + 3 - (d - d')) mod 7 = (d + 3) mod 7 - (d - d')"
  proof -
    define q r where "q = (d + 3) div 7" and "r = (d + 3) mod 7"
    have r: "d + 3 = 7 * q + r" "0 \<le> r" "r < 7" by (simp_all add: q_def r_def)
    have "d - d' \<le> r" "0 \<le> d - d'" using a by (simp_all add: iso_weekday_def r_def)
    then have "(d + 3 - (d - d')) mod 7 = r - (d - d')" using r by (intro int_mod_pos_eq [of _ _ q]) auto
    then show ?thesis by (simp add: r_def)
  qed
  then have "d' - iso_weekday d' = d - iso_weekday d" by (simp add: iso_weekday_def algebra_simps)
  then show ?thesis by (simp add: iso_week_def)
qed

text \<open>The weekday of day \<open>x\<close> from that of the first day of the year, without divisions.\<close>

lemma weekday_in_year:
  assumes "d = day_from_year y + x" "0 \<le> x"
  obtains q where "x + iso_weekday (day_from_year y) = 7 * q + iso_weekday d" "0 \<le> q" "(x + iso_weekday (day_from_year y)) div 7 = q"
proof
  define n where "n = iso_weekday (day_from_year y)"
  have "iso_weekday d = (x + n) mod 7"
    unfolding n_def iso_weekday_def assms(1) by (simp add: mod_add_left_eq mod_add_right_eq ac_simps)
  then show "x + iso_weekday (day_from_year y) = 7 * ((x + n) div 7) + iso_weekday d" by (simp flip: n_def)
  show "0 \<le> (x + n) div 7" using assms(2) iso_weekday_bounds [of "day_from_year y"] by (simp add: n_def pos_imp_zdiv_nonneg_iff)
qed simp


lemma year_length: "day_from_year (y + 1) - day_from_year y = (if leap y then 366 else 365)"
  using day_from_year_next [of y] by simp

text \<open>Zones without daylight saving, and the years that \<open>Y\<close> shows in them.\<close>

definition good_host :: "'h host_scheme \<Rightarrow> int \<Rightarrow> bool" where
  "good_host H c \<longleftrightarrow> fixed_zone H c \<and> \<bar>c\<bar> < 525600 \<and> reads_dates H"

definition shown_year :: "int \<Rightarrow> int \<Rightarrow> bool" where
  "shown_year c y \<longleftrightarrow> 0 \<le> c \<or> 1938 \<le> y \<and> y \<le> 2037"

lemma good_year: "good_host H c \<Longrightarrow> shown_year c (getFullYear H t) \<Longrightarrow> tf_Y H t = getFullYear H t"
  using year_shown [of H c t] by (auto simp: good_host_def shown_year_def fixed_zone_def reads_dates_def)

text \<open>Without daylight saving \<open>z\<close> counts the days from the new year of the year that \<open>Y\<close> shows.\<close>

lemma good_days:
  assumes "good_host H c" "1000 \<le> tf_Y H t" "tf_Y H t \<le> 9999" "1000 \<le> getFullYear H t" "getFullYear H t \<le> 9999"
  shows "tf_z H t = local_day H t - day_from_year (tf_Y H t)"
proof -
  define y d u where "y = tf_Y H t" and "d = local_day H t" and "u = time_in_day (local_time H t)"
  have u: "0 \<le> u" "u < 86400000" by (simp_all add: u_def time_in_day_def)
  have m: "make_day y 0 1 = day_from_year y" by (simp add: make_day_def month_start_def)
  have "local_time H t = 86400000 * d + u" by (simp add: d_def local_day_def day_def u_def time_in_day_def)
  then have diff: "t - date_parse H (jan1_string y) = 86400000 * (d - day_from_year y) + u"
    using assms(1-3) by (simp add: good_host_def reads_dates_def fixed_zone_def local_time_def to_utc_def make_date_def m right_diff_distrib flip: y_def)
  have D: "day_from_year 1000 = - 354285" "day_from_year 10000 = 2932897" by code_simp+
  have lo: "day_from_year 1000 \<le> day_from_year z" and hi: "day_from_year z \<le> day_from_year 10000" if "1000 \<le> z" "z \<le> 10000" for z
    using that day_from_year_mono [of 1000 z] day_from_year_mono [of z 10000] by (cases "z = 1000"; cases "z = 10000"; simp)+
  have "day_from_year (getFullYear H t) \<le> d" "d < day_from_year (getFullYear H t + 1)"
    unfolding getFullYear_def d_def by (rule year_of_day_bounds)+
  then have "- 354285 \<le> d" "d \<le> 2932897" "- 354285 \<le> day_from_year y" "day_from_year y \<le> 2932897"
    using lo [of "getFullYear H t"] hi [of "getFullYear H t + 1"] lo [of y] hi [of y] assms(2-5) D by (simp_all add: y_def)
  then have "\<bar>86400000 * (d - day_from_year y) + u\<bar> \<le> 2 ^ 49" using u by (simp add: abs_le_iff)
  then have "tf_z H t = (86400000 * (d - day_from_year y) + u) div 86400000"
    by (simp add: tf_z_def Let_def diff whole_days flip: y_def)
  also have "\<dots> = d - day_from_year y" using u by (intro int_div_pos_eq [where r = u]) simp_all
  finally show ?thesis by (simp add: y_def d_def)
qed

lemma good_day_of_year:
  "good_host H c \<Longrightarrow> shown_year c (getFullYear H t) \<Longrightarrow> 1000 \<le> getFullYear H t \<Longrightarrow> getFullYear H t \<le> 9999 \<Longrightarrow> tf_z H t = day_in_year (local_day H t)"
  using good_days [of H c t] good_year [of H c t] by (simp add: day_in_year_def getFullYear_def)

lemma good_leap:
  "good_host H c \<Longrightarrow> shown_year c (getFullYear H t) \<Longrightarrow> 1000 \<le> getFullYear H t \<Longrightarrow> tf_L H t = (if leap (getFullYear H t) then 1 else 0)"
  by (simp add: tf_L_def good_year js_rem_def leap_def Let_def)

lemma good_new_year:
  assumes "good_host H c" "1000 \<le> y" "y \<le> 9999"
  shows "local_day H (date_parse H (jan1_string y)) = day_from_year y"
proof -
  have "local_time H (date_parse H (jan1_string y)) = make_date (make_day y 0 1) 0"
    using assms by (auto simp: good_host_def reads_dates_def intro: fixed_local_utc)
  then show ?thesis by (simp add: local_day_def day_def make_date_def make_day_def month_start_def)
qed

lemma good_last_day:
  assumes "good_host H c" "1000 \<le> y" "y \<le> 9999"
  shows "local_day H (date_parse H (dec31_string y)) = day_from_year (y + 1) - 1"
proof -
  have "local_time H (date_parse H (dec31_string y)) = make_date (make_day y 11 31) 0"
    using assms by (auto simp: good_host_def reads_dates_def intro: fixed_local_utc)
  then show ?thesis using day_from_year_next [of y] by (simp add: local_day_def day_def make_date_def make_day_def month_start_def)
qed

text \<open>The function \<open>W\<close> over the calendar.\<close>

lemma tf_W_calendar:
  assumes "good_host H c" "1000 \<le> y" "y \<le> 9999" "y = getFullYear H t" and shown: "shown_year c y"
    and "d = local_day H t" "x = day_in_year d" "w = iso_weekday d" "n = iso_weekday (day_from_year y)" "r = day_from_year (y + 1) - day_from_year y - 1 - x"
  shows "tf_W (Suc k) H t =
    (if r \<le> 2 \<and> w \<le> 2 - r then ok (JNum 1)
     else if x \<le> 2 \<and> 4 \<le> n \<and> 6 - n \<le> x then
       rbind (format_with (\<lambda>u. tf_W k H u) H ''W'' None (date_parse H (dec31_string (y - 1)))) (\<lambda>(s, _). ok (JStr s))
     else if n \<le> 3 then ok (JNum (1 + (x + n) div 7)) else ok (JNum (1 + (x - (7 - n)) div 7)))"
proof -
  have g: "1000 \<le> getFullYear H t" "getFullYear H t \<le> 9999" using assms(2-4) by simp_all
  have sh: "shown_year c (getFullYear H t)" using shown assms(4) by simp
  have z: "tf_z H t = x" using good_day_of_year [OF assms(1) sh g] assms(6,7) by simp
  have r: "364 + tf_L H t - x = r" using good_leap [OF assms(1) sh g(1)] assms(4,10) year_length [of y] by simp
  have w: "(if tf_w H t \<noteq> 0 then tf_w H t - 1 else 6) = w" using monday_weekday [of H t] assms(6,8) by (simp only: tf_w_def)
  have n: "(if getDay H (date_parse H (jan1_string y)) \<noteq> 0 then getDay H (date_parse H (jan1_string y)) - 1 else 6) = n"
    using monday_weekday [of H "date_parse H (jan1_string y)"] good_new_year [OF assms(1-3)] assms(9) by (simp only:)
  show ?thesis
    unfolding tf_W.simps Let_def good_year [OF assms(1) sh] assms(4) [symmetric] z r w n by (rule refl)
qed

lemma format_W: "format_with f H ''W'' None t = rbind (f t) (\<lambda>v. ok (to_str v, t))"
  by (simp add: format_with_def switches_def tf_call_def rbind_assoc)

text \<open>Away from the first days of a year that begins on a Friday or later, the week is that of the standard.\<close>

lemma tf_W_iso:
  assumes "good_host H c" "1000 \<le> getFullYear H t" "getFullYear H t \<le> 9999" "shown_year c (getFullYear H t)"
    and first: "day_in_year (local_day H t) \<le> 2 \<Longrightarrow> iso_weekday (day_from_year (getFullYear H t)) \<le> 3"
  shows "tf_W (Suc k) H t = ok (JNum (iso_week (local_day H t)))"
proof -
  define y d where "y = getFullYear H t" and "d = local_day H t"
  define x w n r where "x = day_in_year d" and "w = iso_weekday d" and "n = iso_weekday (day_from_year y)"
    and "r = day_from_year (y + 1) - day_from_year y - 1 - x"
  have x: "0 \<le> x" "d = day_from_year y + x" "x < day_from_year (y + 1) - day_from_year y"
    using day_in_year_bounds [of d] year_length [of y] by (simp_all add: x_def day_in_year_def y_def d_def getFullYear_def)
  have w: "0 \<le> w" "w < 7" and n: "0 \<le> n" "n < 7" by (simp_all add: w_def n_def iso_weekday_bounds)
  obtain q where q: "x + n = 7 * q + w" "0 \<le> q" "(x + n) div 7 = q"
    using weekday_in_year [OF x(2,1)] by (auto simp: n_def w_def)
  have W: "tf_W (Suc k) H t = (if r \<le> 2 \<and> w \<le> 2 - r then ok (JNum 1) else if x \<le> 2 \<and> 4 \<le> n \<and> 6 - n \<le> x then
       rbind (format_with (\<lambda>u. tf_W k H u) H ''W'' None (date_parse H (dec31_string (y - 1)))) (\<lambda>(s, _). ok (JStr s))
     else if n \<le> 3 then ok (JNum (1 + (x + n) div 7)) else ok (JNum (1 + (x - (7 - n)) div 7)))"
    by (rule tf_W_calendar [OF assms(1)]) (use assms(2-4) in \<open>simp_all add: y_def d_def x_def w_def n_def r_def\<close>)
  have first': "x \<le> 2 \<Longrightarrow> n \<le> 3" using first by (simp add: x_def n_def y_def d_def)
  then have f: "\<not> (x \<le> 2 \<and> 4 \<le> n \<and> 6 - n \<le> x)" by auto
  show ?thesis
  proof (cases "r \<le> 2 \<and> w \<le> 2 - r")
    case True
    then have "iso_week d = 1" unfolding r_def w_def by (intro iso_week_next_year [OF x(2,1,3)]) linarith
    then show ?thesis using W True by (simp add: d_def)
  next
    case False
    have "3 < x \<or> x = 3 \<or> n \<le> 3" using first' by linarith
    then have "0 \<le> x - w + 3" using q(1,2) w n x(1) by linarith
    moreover have "x - w + 3 < day_from_year (y + 1) - day_from_year y" using False w x by (auto simp: r_def)
    ultimately have iso: "iso_week d = (x - w + 3) div 7 + 1" using iso_week_same_year [OF x(2)] by (simp add: w_def)
    show ?thesis
    proof (cases "n \<le> 3")
      case True
      have "(x - w + 3) div 7 = q" using q(1) n True by (intro int_div_pos_eq [where r = "3 - n"]) auto
      then show ?thesis unfolding W if_not_P [OF False] if_not_P [OF f] using True q(3) iso by (simp add: d_def)
    next
      case n4: False
      have "(x - w + 3) div 7 = q - 1" using q(1) n n4 by (intro int_div_pos_eq [where r = "10 - n"]) auto
      moreover have "(x - (7 - n)) div 7 = q - 1" using q(1) w by (intro int_div_pos_eq [where r = w]) auto
      ultimately show ?thesis unfolding W if_not_P [OF False] if_not_P [OF f] using n4 iso by (simp add: d_def)
    qed
  qed
qed


lemma iso_week_last_days:
  assumes "iso_weekday (day_from_year (y + 1)) = n" "4 \<le> n"
  shows "52 \<le> iso_week (day_from_year (y + 1) - 1)"
proof -
  define d x where "d = day_from_year (y + 1) - 1" and "x = d - day_from_year y"
  have l: "365 \<le> day_from_year (y + 1) - day_from_year y" "day_from_year (y + 1) - day_from_year y \<le> 366"
    using year_length [of y] by (simp_all split: if_splits)
  have "iso_weekday d = n - 1"
  proof -
    have "(day_from_year (y + 1) + 3) mod 7 = n" using assms(1) by (simp add: iso_weekday_def)
    then have "(day_from_year (y + 1) + 2) mod 7 = n - 1" using assms(2) by presburger
    then show ?thesis by (simp add: iso_weekday_def d_def add.commute)
  qed
  moreover have "n < 7" using assms(1) iso_weekday_bounds [of "day_from_year (y + 1)"] by simp
  ultimately have "iso_week d = (x - (n - 1) + 3) div 7 + 1" using iso_week_same_year [of d y x] assms(2) l by (simp add: x_def d_def)
  moreover have "357 \<le> x - (n - 1) + 3" using l \<open>n < 7\<close> by (simp add: x_def d_def)
  ultimately show ?thesis unfolding d_def by linarith
qed

lemma digits_val_show_int: "0 \<le> i \<Longrightarrow> digits_val (show_int i) = i"
  using digits_val_show [of "nat i"] by (simp add: show_int_def)

lemma show_int_inj: "0 \<le> i \<Longrightarrow> 0 \<le> j \<Longrightarrow> show_int i = show_int j \<Longrightarrow> i = j"
  by (metis digits_val_show_int)

lemma iso_week_pos: "1 \<le> iso_week d"
  using day_in_year_bounds(1) [of "d - iso_weekday d + 3"] by (simp add: iso_week_def pos_imp_zdiv_nonneg_iff)

lemma tf_week:
  assumes "good_host H c" "1001 \<le> getFullYear H t" "getFullYear H t \<le> 9999"
    and shown: "0 \<le> c \<or> 1939 \<le> getFullYear H t \<and> getFullYear H t \<le> 2037"
    and "x = day_in_year (local_day H t)" "n = iso_weekday (day_from_year (getFullYear H t))"
  shows "\<exists>v. tf_W 2 H t = ok v \<and>
    (to_str v = show_int (iso_week (local_day H t)) \<longleftrightarrow> \<not> (x \<le> 2 \<and> 4 \<le> n \<and> x \<noteq> 6 - n))"
proof -
  define y d where "y = getFullYear H t" and "d = local_day H t"
  have g: "1000 \<le> getFullYear H t" "getFullYear H t \<le> 9999" using assms(2,3) by simp_all
  have sh: "shown_year c (getFullYear H t)" "shown_year c (y - 1)" using shown by (auto simp: shown_year_def y_def)
  have two: "(2 :: nat) = Suc 1" by simp
  have n: "0 \<le> n" "n < 7" by (simp_all add: assms(6) iso_weekday_bounds)
  show ?thesis
  proof (cases "x \<le> 2 \<and> 4 \<le> n")
    case False
    then have "tf_W 2 H t = ok (JNum (iso_week (local_day H t)))"
      unfolding two using assms(5,6) by (intro tf_W_iso [OF assms(1) g sh(1)]) auto
    then show ?thesis using False by auto
  next
    case True
    define w r where "w = iso_weekday d" and "r = day_from_year (y + 1) - day_from_year y - 1 - x"
    have x: "0 \<le> x" "d = day_from_year y + x"
      using day_in_year_bounds [of d] assms(5) by (simp_all add: day_in_year_def y_def d_def getFullYear_def)
    have r: "\<not> (r \<le> 2 \<and> w \<le> 2 - r)" using True year_length [of y] by (auto simp: r_def split: if_splits)
    obtain q where q: "x + n = 7 * q + w" "(x + n) div 7 = q"
      using weekday_in_year [OF x(2,1)] by (auto simp: assms(6) w_def y_def)
    have w: "0 \<le> w" "w < 7" by (simp_all add: w_def iso_weekday_bounds)
    define p where "p = date_parse H (dec31_string (y - 1))"
    have p: "local_day H p = day_from_year y - 1" using good_last_day [OF assms(1), of "y - 1"] assms(2,3) by (simp add: p_def y_def)
    have py: "getFullYear H p = y - 1"
      unfolding getFullYear_def p using year_length [of "y - 1"] by (intro year_of_day_unique) (auto split: if_splits)
    have px: "\<not> day_in_year (local_day H p) \<le> 2"
      unfolding day_in_year_def p using py p year_length [of "y - 1"] by (auto simp: getFullYear_def split: if_splits)
    have P: "tf_W 1 H p = ok (JNum (iso_week (day_from_year y - 1)))"
      using tf_W_iso [OF assms(1), of p 0] px py p assms(2,3) sh(2) by (simp add: y_def)
    have n': "iso_weekday (day_from_year (y - 1 + 1)) = n" by (simp add: assms(6) y_def)
    have l: "52 \<le> iso_week (day_from_year y - 1)" using iso_week_last_days [OF n'] True by simp
    have W: "tf_W 2 H t = (if 6 - n \<le> x then ok (JStr (show_int (iso_week (day_from_year y - 1)))) else ok (JNum (1 + (x - (7 - n)) div 7)))"
      unfolding two tf_W_calendar [OF assms(1) g(1)[folded y_def] g(2)[folded y_def] y_def sh(1)[folded y_def] d_def assms(5)[folded d_def] w_def assms(6)[folded y_def] r_def] if_not_P [OF r]
      using True P by (simp add: format_W flip: p_def)
    consider (early) "x < 6 - n" | (right) "x = 6 - n" | (late) "6 - n < x" by linarith
    then show ?thesis
    proof cases
      case early
      then have "1 + (x - (7 - n)) div 7 = 0" using x(1) n True by auto
      moreover have "show_int 0 \<noteq> show_int (iso_week d)" using iso_week_pos [of d] show_int_inj [of 0 "iso_week d"] by auto
      ultimately show ?thesis unfolding W using True early by (simp add: d_def)
    next
      case right
      then have "7 * q + w = 6" using q(1) by linarith
      then have "q = 0" "w = 6" using w by presburger+
      then have "iso_week (day_from_year y - 1) = iso_week d" using x right True
        unfolding w_def by (intro iso_week_monday) linarith+
      then show ?thesis unfolding W using True right by (simp add: d_def)
    next
      case late
      then have "7 \<le> 7 * q + w" "7 * q + w \<le> 8" using q(1) n(2) True by linarith+
      then have "q = 1" using w by presburger
      then have w1: "w = x + n - 7" using q by simp
      then have "iso_week d = (x - w + 3) div 7 + 1" using iso_week_same_year [OF x(2)] n True year_length [of y] by (simp add: w_def split: if_splits)
      then have "iso_week d = 1" using w1 n True by auto
      then have "show_int (iso_week (day_from_year y - 1)) \<noteq> show_int (iso_week d)"
        using l show_int_inj [of "iso_week (day_from_year y - 1)" 1] by auto
      then show ?thesis unfolding W using True late by (simp add: d_def)
    qed
  qed
qed

text \<open>
  C14: In a zone without daylight saving, on a host that reads the date strings of the program, for the years 1001 to 9999, and west
  of Greenwich 1939 to 2037, \<open>formatDate("W")\<close> ends after at most one call of itself and prints the ISO 8601 week, except in the first
  three days of a year that begins on a Friday, Saturday or Sunday: there it is right only on the day where
  the test \<open>afterNY >= (6-nyDay)\<close> first holds, and wrong on the two others.
\<close>

theorem tofte_week:
  assumes "fixed_zone H c" "\<bar>c\<bar> < 525600" "reads_dates H" "1001 \<le> getFullYear H t" "getFullYear H t \<le> 9999"
    and "0 \<le> c \<or> 1939 \<le> getFullYear H t \<and> getFullYear H t \<le> 2037"
    and "x = day_in_year (local_day H t)" "n = iso_weekday (day_from_year (getFullYear H t))"
  shows "\<exists>s. formatDate 2 H ''W'' None t = ok (s, t) \<and>
    (s = show_int (iso_week (local_day H t)) \<longleftrightarrow> \<not> (x \<le> 2 \<and> 4 \<le> n \<and> x \<noteq> 6 - n))"
  using tf_week [of H c t x n] assms by (auto simp: formatDate_def format_W good_host_def)

theorem tofte_week_witness:
  "\<exists>s. formatDate 2 (sample_host (-300)) ''W'' None 1293890400000 = ok (s, 1293890400000) \<and>
    (s = show_int (iso_week (local_day (sample_host (-300)) 1293890400000)) \<longleftrightarrow>
      \<not> (day_in_year (local_day (sample_host (-300)) 1293890400000) \<le> 2 \<and> 4 \<le> iso_weekday (day_from_year (getFullYear (sample_host (-300)) 1293890400000)) \<and>
         day_in_year (local_day (sample_host (-300)) 1293890400000) \<noteq> 6 - iso_weekday (day_from_year (getFullYear (sample_host (-300)) 1293890400000))))"
proof (rule tofte_week [OF sample_fixed _ sample_reads])
  show "1001 \<le> getFullYear (sample_host (-300)) 1293890400000" "getFullYear (sample_host (-300)) 1293890400000 \<le> 9999"
    "0 \<le> (-300 :: int) \<or> 1939 \<le> getFullYear (sample_host (-300)) 1293890400000 \<and> getFullYear (sample_host (-300)) 1293890400000 \<le> 2037" by code_simp+
qed simp_all

section \<open>The formatter\<close>

text \<open>A text with a backslash before each character is formatted to the text itself, whatever the host.\<close>

theorem tofte_escapes: "formatDate n H (concat (map (\<lambda>c. [CHR 0x5C, c]) s)) None t = ok (s, t)"
proof -
  have "tf_loop f H t (concat (map (\<lambda>c. [CHR 0x5C, c]) s)) = ok s" for f by (induction s) simp_all
  then show ?thesis by (simp add: formatDate_def format_with_def)
qed

text \<open>
  The formatter puts the old time back after it has formatted another one, except when the old time is zero, the
  epoch itself: then the date keeps the time that was passed.
\<close>

theorem tofte_time_restored:
  assumes "formatDate n H input time t = ok (s, t')"
  shows "t' = (if t = 0 then (case time of None \<Rightarrow> 0 | Some x \<Rightarrow> x) else t)"
  using assms by (cases time) (auto simp: formatDate_def format_with_def rbind_Inr_iff split: if_splits)

theorem tofte_time_restored_witness:
  "(86400000 :: int) = (if (0 :: int) = 0 then (case Some 86400000 of None \<Rightarrow> 0 | Some x \<Rightarrow> x) else 0)"
proof (rule tofte_time_restored)
  show "formatDate 2 (sample_host 0) ''Y-m-d'' (Some 86400000) 0 = ok (''1970-01-02'', 86400000)" by code_simp
qed

text \<open>The letters of the switches are the ones that are called.\<close>

lemma arrayExists_iff: "arrayExists as x \<longleftrightarrow> x \<in> set as"
  by (induction as) auto

lemma tf_call_returns:
  assumes "arrayExists switches c" "week t = ok v"
  shows "\<exists>v. tf_call week H t c = ok v"
  using assms unfolding arrayExists_iff by (auto simp: switches_def tf_call_def)

lemma tf_loop_returns: "week t = ok v \<Longrightarrow> \<exists>s. tf_loop week H t input = ok s"
proof (induction week H t input rule: tf_loop.induct)
  case (2 week H t c cs)
  show ?case
  proof (cases "c = CHR 0x5C")
    case True
    then show ?thesis using 2(1,4) by (cases cs) auto
  next
    case False
    then show ?thesis using 2(2-4) tf_call_returns [of c week t v H] by (cases "arrayExists switches c") auto
  qed
qed simp

text \<open>Where \<open>Y\<close> does not show the year of the date, the shown year is far away and \<open>W\<close> does not call itself.\<close>

lemma year_range: "1000 \<le> getFullYear H t \<Longrightarrow> getFullYear H t \<le> 9999 \<Longrightarrow> tf_Y H t \<noteq> getFullYear H t \<Longrightarrow> 1900 \<le> tf_Y H t \<and> tf_Y H t \<le> 2100"
proof -
  define k where "k = getFullYear H t - 1900"
  have "- 100 < js_rem k 100 \<and> js_rem k 100 < 100" by (auto simp: js_rem_def)
  moreover have "\<not> k < 0 \<longrightarrow> 0 \<le> js_rem k 100" by (simp add: js_rem_def)
  moreover assume "1000 \<le> getFullYear H t" "getFullYear H t \<le> 9999" "tf_Y H t \<noteq> getFullYear H t"
  ultimately show ?thesis by (auto simp: tf_Y_def Let_def getYear_def k_def split: if_splits)
qed

lemma far_days:
  assumes "good_host H c" "1000 \<le> getFullYear H t" "getFullYear H t \<le> 9999" "tf_Y H t \<noteq> getFullYear H t"
  shows "tf_z H t < 0 \<or> 2 < tf_z H t"
proof -
  have z: "tf_z H t = local_day H t - day_from_year (tf_Y H t)"
    using year_range [OF assms(2-4)] assms by (intro good_days) auto
  have b: "day_from_year (getFullYear H t) \<le> local_day H t" "local_day H t < day_from_year (getFullYear H t + 1)"
    unfolding getFullYear_def by (rule year_of_day_bounds)+
  consider "tf_Y H t < getFullYear H t" | "getFullYear H t + 1 < tf_Y H t \<or> getFullYear H t + 1 = tf_Y H t" using assms(4) by linarith
  then show ?thesis
    using z b day_from_year_mono [of "tf_Y H t" "getFullYear H t"] day_from_year_mono [of "getFullYear H t + 1" "tf_Y H t"] by cases auto
qed

lemma tf_W_once: "tf_z H t < 0 \<or> 2 < tf_z H t \<Longrightarrow> \<exists>v. tf_W (Suc k) H t = ok v"
  using getDay_bounds [of H "date_parse H (jan1_string (tf_Y H t))"] by (auto simp: tf_W.simps Let_def)

lemma tf_W_returns:
  assumes "good_host H c" "1001 \<le> getFullYear H t" "getFullYear H t \<le> 9999"
  shows "\<exists>v. tf_W 2 H t = ok v"
proof (cases "tf_Y H t = getFullYear H t")
  case False
  then show ?thesis using far_days [OF assms(1)] assms(2,3) tf_W_once [of H t 1] by (simp add: numeral_2_eq_2)
next
  case True
  define y p where "y = getFullYear H t" and "p = date_parse H (dec31_string (y - 1))"
  have p: "local_day H p = day_from_year y - 1" using good_last_day [OF assms(1), of "y - 1"] assms(2,3) by (simp add: p_def y_def)
  have py: "getFullYear H p = y - 1"
    unfolding getFullYear_def p using year_length [of "y - 1"] by (intro year_of_day_unique) (auto split: if_splits)
  have "tf_z H p < 0 \<or> 2 < tf_z H p"
  proof (cases "tf_Y H p = getFullYear H p")
    case True
    then have "tf_z H p = day_from_year y - 1 - day_from_year (y - 1)"
      using good_days [OF assms(1), of p] assms(2,3) py p by (simp add: y_def)
    then show ?thesis using year_length [of "y - 1"] by (simp split: if_splits)
  next
    case False
    then show ?thesis using far_days [OF assms(1), of p] py assms(2,3) by (simp add: y_def)
  qed
  then obtain v where "tf_W 1 H p = ok v" using tf_W_once [of H p 0] by auto
  then have "rbind (format_with (\<lambda>u. tf_W 1 H u) H ''W'' None p) (\<lambda>(s, _). ok (JStr s)) = ok (JStr (to_str v))" by (simp add: format_W)
  moreover have "tf_W 2 H t = tf_W (Suc 1) H t" by (simp only: numeral_2_eq_2 One_nat_def)
  ultimately show ?thesis using True unfolding tf_W.simps(2) [of 1 H t] Let_def p_def y_def by simp
qed

text \<open>
  C37: In a zone without daylight saving, on a host that reads the date strings of the program, every format is formatted, with or without
  a time that is passed, when the year of the formatted time is from 1001 to 9999: no letter throws, the recursion of \<open>W\<close> ends, and
  the date keeps its time, unless that is the epoch and another one was passed.
\<close>

theorem tofte_total:
  assumes "fixed_zone H c" "\<bar>c\<bar> < 525600" "reads_dates H"
    and "u = (case time of None \<Rightarrow> t | Some x \<Rightarrow> if x = 0 then t else x)" "1001 \<le> getFullYear H u" "getFullYear H u \<le> 9999"
  shows "\<exists>s. formatDate 2 H input time t = ok (s, if t = 0 then u else t)"
proof -
  obtain v where "tf_W 2 H u = ok v" using tf_W_returns [of H c u] assms by (auto simp: good_host_def)
  then have "\<exists>s. tf_loop (\<lambda>u. tf_W 2 H u) H u input = ok s" by (rule tf_loop_returns)
  then show ?thesis using assms(4) by (auto simp: formatDate_def format_with_def split: option.splits if_splits)
qed

theorem tofte_total_witness: "\<exists>s. formatDate 2 (sample_host (-300)) ''l, W z'' (Some 1293890400000) 0 = ok (s, 1293890400000)"
proof -
  have "\<exists>s. formatDate 2 (sample_host (-300)) ''l, W z'' (Some 1293890400000) 0 = ok (s, if (0 :: int) = 0 then 1293890400000 else 0)"
  proof (rule tofte_total [OF sample_fixed _ sample_reads])
    show "1001 \<le> getFullYear (sample_host (-300)) 1293890400000" "getFullYear (sample_host (-300)) 1293890400000 \<le> 9999" by code_simp+
  qed simp_all
  then show ?thesis by simp
qed

end
