(* ===== verification/Js_Regex.thy ===== *)
theory Js_Regex
  imports Js_Value
begin

text \<open>
  Regular expressions of the language (ECMA-262, 15.10), the part that the date programs use: characters, classes,
  groups, alternatives and bounded or unbounded repetition, greedy or not. A pattern matches in continuation order:
  \<open>re_match\<close> lists the ways to match in the order the backtracking engine tries them, with the captures of each.
\<close>

datatype regex =
    Chr char
  | AnyChar
  | CharClass "(char \<times> char) list"
  | Empty
  | Cat regex regex
  | Alt regex regex
  | Group nat regex
  | Rep bool nat "nat option" regex
  | Bol
  | Eol

text \<open>Where a match stands: the position, the rest of the input, the captures.\<close>

type_synonym mstate = "nat \<times> string \<times> (nat \<Rightarrow> string option)"

fun in_class :: "(char \<times> char) list \<Rightarrow> char \<Rightarrow> bool" where
  "in_class [] c = False"
| "in_class ((a, b) # rs) c = ((of_char a :: nat) \<le> of_char c \<and> (of_char c :: nat) \<le> of_char b \<or> in_class rs c)"

definition digit_class :: regex where
  "digit_class = CharClass [(CHR ''0'', CHR ''9'')]"

definition line_end :: "char \<Rightarrow> bool" where
  "line_end c \<longleftrightarrow> c = CHR 0x0A \<or> c = CHR 0x0D"

fun re_groups :: "regex \<Rightarrow> nat list" where
  "re_groups (Cat r s) = re_groups r @ re_groups s"
| "re_groups (Alt r s) = re_groups r @ re_groups s"
| "re_groups (Group n r) = n # re_groups r"
| "re_groups (Rep g lo hi r) = re_groups r"
| "re_groups _ = []"

definition step_char :: "(char \<Rightarrow> bool) \<Rightarrow> mstate \<Rightarrow> mstate list" where
  "step_char p x = (case x of (i, s, k) \<Rightarrow> (case s of [] \<Rightarrow> [] | c # cs \<Rightarrow> if p c then [(Suc i, cs, k)] else []))"

definition reset_groups :: "nat list \<Rightarrow> mstate \<Rightarrow> mstate" where
  "reset_groups gs x = (case x of (i, s, k) \<Rightarrow> (i, s, \<lambda>n. if n \<in> set gs then None else k n))"

text \<open>
  Repetition: an iteration beyond the lower bound must consume input, so there are never more of them than characters;
  the first argument counts the iterations down from there.
\<close>

fun re_repeat :: "nat \<Rightarrow> (mstate \<Rightarrow> mstate list) \<Rightarrow> bool \<Rightarrow> nat \<Rightarrow> nat option \<Rightarrow> mstate \<Rightarrow> mstate list" where
  "re_repeat 0 m greedy lo hi x = []"
| "re_repeat (Suc n) m greedy lo hi x =
    (if hi = Some 0 then [x]
     else
       (let more = concat (map (\<lambda>y. if lo = 0 \<and> fst y = fst x then [] else re_repeat n m greedy (lo - 1) (map_option (\<lambda>h. h - 1) hi) y) (m x))
        in if lo > 0 then more else if greedy then more @ [x] else x # more))"

fun re_match :: "regex \<Rightarrow> mstate \<Rightarrow> mstate list" where
  "re_match (Chr c) x = step_char (\<lambda>d. d = c) x"
| "re_match AnyChar x = step_char (\<lambda>d. \<not> line_end d) x"
| "re_match (CharClass cs) x = step_char (in_class cs) x"
| "re_match Empty x = [x]"
| "re_match (Cat r s) x = concat (map (re_match s) (re_match r x))"
| "re_match (Alt r s) x = re_match r x @ re_match s x"
| "re_match (Group n r) x =
    map (\<lambda>(j, s, k). (j, s, k(n \<mapsto> take (j - fst x) (fst (snd x))))) (re_match r x)"
| "re_match (Rep greedy lo hi r) x =
    re_repeat (Suc (lo + length (fst (snd x)))) (\<lambda>y. re_match r (reset_groups (re_groups r) y)) greedy lo hi x"
| "re_match Bol x = (if fst x = 0 then [x] else [])"
| "re_match Eol x = (if fst (snd x) = [] then [x] else [])"

text \<open>
  \<open>exec\<close>: the first match at the first position that has one, as its start, its end and its captures.
\<close>

fun re_search :: "regex \<Rightarrow> nat \<Rightarrow> string \<Rightarrow> (nat \<times> nat \<times> (nat \<Rightarrow> string option)) option" where
  "re_search r i [] = (case re_match r (i, [], Map.empty) of [] \<Rightarrow> None | (j, _, k) # _ \<Rightarrow> Some (i, j, k))"
| "re_search r i (c # cs) =
    (case re_match r (i, c # cs, Map.empty) of [] \<Rightarrow> re_search r (Suc i) cs | (j, _, k) # _ \<Rightarrow> Some (i, j, k))"

definition re_exec :: "regex \<Rightarrow> string \<Rightarrow> (nat \<times> nat \<times> (nat \<Rightarrow> string option)) option" where
  "re_exec r s = re_search r 0 s"

text \<open>\<open>s.replace(re, template)\<close> for a template of captures, such as \<open>"$1$2"\<close>; a capture that did not take part is empty.\<close>

definition re_replace :: "regex \<Rightarrow> nat list \<Rightarrow> string \<Rightarrow> string" where
  "re_replace r template s =
    (case re_exec r s of None \<Rightarrow> s
     | Some (i, j, k) \<Rightarrow> take i s @ concat (map (\<lambda>n. case k n of None \<Rightarrow> [] | Some c \<Rightarrow> c) template) @ drop j s)"

fun lit :: "string \<Rightarrow> regex" where
  "lit [] = Empty"
| "lit (c # cs) = Cat (Chr c) (lit cs)"

fun re_seq :: "regex list \<Rightarrow> regex" where
  "re_seq [] = Empty"
| "re_seq (r # rs) = Cat r (re_seq rs)"

section \<open>Reading a pattern\<close>

text \<open>
  \<open>new RegExp(s)\<close> for the patterns made of characters, \<open>.\<close>, \<open>\d\<close>, escaped punctuation, classes of characters and
  ranges, capturing and other groups, alternatives, the quantifiers \<open>* + ? {n} {n,m}\<close> and anchors. \<open>None\<close> is any
  other text. The counter numbers the groups by their opening parenthesis; the fuel bounds the depth of the descent.
\<close>

definition backslash :: char where
  "backslash = CHR 0x5C"

definition syntax_chars :: string where
  "syntax_chars = ''^$.*+?()[]{}|'' @ [backslash]"

definition is_letter :: "char \<Rightarrow> bool" where
  "is_letter c \<longleftrightarrow> in_class [(CHR ''a'', CHR ''z''), (CHR ''A'', CHR ''Z'')] c"

definition read_number :: "string \<Rightarrow> (nat \<times> string) option" where
  "read_number s = (let ds = takeWhile is_digit s in if ds = [] then None else Some (nat (digits_val ds), dropWhile is_digit s))"

definition read_bounds :: "string \<Rightarrow> (nat \<times> nat option \<times> string) option" where
  "read_bounds s =
    (case s of
       [] \<Rightarrow> None
     | c # cs \<Rightarrow>
         if c = CHR ''*'' then Some (0, None, cs)
         else if c = CHR ''+'' then Some (1, None, cs)
         else if c = CHR ''?'' then Some (0, Some 1, cs)
         else if c = CHR ''{'' then
           (case read_number cs of
              None \<Rightarrow> None
            | Some (n, ds) \<Rightarrow>
                (case ds of
                   [] \<Rightarrow> None
                 | d # es \<Rightarrow>
                     if d = CHR ''}'' then Some (n, Some n, es)
                     else if d = CHR '','' then
                       (case read_number es of
                          Some (m, f # fs) \<Rightarrow> if f = CHR ''}'' \<and> n \<le> m then Some (n, Some m, fs) else None
                        | _ \<Rightarrow> None)
                     else None))
         else None)"

text \<open>A quantifier may follow an atom; a question mark after it makes it reluctant.\<close>

definition read_quantifier :: "regex \<Rightarrow> string \<Rightarrow> (regex \<times> string) option" where
  "read_quantifier r s =
    (if s \<noteq> [] \<and> hd s \<in> set ''*+?{'' then
       (case read_bounds s of
          None \<Rightarrow> None
        | Some (lo, hi, t) \<Rightarrow>
            if t \<noteq> [] \<and> hd t = CHR ''?'' then Some (Rep False lo hi r, tl t) else Some (Rep True lo hi r, t))
     else Some (r, s))"

fun read_class :: "string \<Rightarrow> ((char \<times> char) list \<times> string) option" where
  "read_class [] = None"
| "read_class [c] = (if c = CHR '']'' then Some ([], []) else None)"
| "read_class [c, d] = (if c = CHR '']'' then Some ([], [d]) else if c \<in> {backslash, CHR ''^''} then None
     else map_option (\<lambda>(r, s). ((c, c) # r, s)) (read_class [d]))"
| "read_class (c # d # e # s) =
    (if c = CHR '']'' then Some ([], d # e # s)
     else if c \<in> {backslash, CHR ''^''} then None
     else if d = CHR ''-'' \<and> e \<noteq> CHR '']'' then
       (if e = backslash \<or> (of_char e :: nat) < of_char c then None else map_option (\<lambda>(r, t). ((c, e) # r, t)) (read_class s))
     else map_option (\<lambda>(r, t). ((c, c) # r, t)) (read_class (d # e # s)))"

fun read_alternatives :: "nat \<Rightarrow> nat \<Rightarrow> string \<Rightarrow> (regex \<times> nat \<times> string) option"
  and read_sequence :: "nat \<Rightarrow> nat \<Rightarrow> string \<Rightarrow> (regex \<times> nat \<times> string) option"
  and read_atom :: "nat \<Rightarrow> nat \<Rightarrow> string \<Rightarrow> (regex \<times> nat \<times> string) option" where
  "read_alternatives 0 n s = None"
| "read_alternatives (Suc f) n s =
    (case read_sequence f n s of
       None \<Rightarrow> None
     | Some (r, m, t) \<Rightarrow>
         if t \<noteq> [] \<and> hd t = CHR ''|'' then
           (case read_alternatives f m (tl t) of None \<Rightarrow> None | Some (q, k, u) \<Rightarrow> Some (Alt r q, k, u))
         else Some (r, m, t))"
| "read_sequence 0 n s = None"
| "read_sequence (Suc f) n s =
    (if s = [] \<or> hd s \<in> set ''|)'' then Some (Empty, n, s)
     else if hd s = CHR ''^'' then (case read_sequence f n (tl s) of None \<Rightarrow> None | Some (q, k, u) \<Rightarrow> Some (Cat Bol q, k, u))
     else if hd s = CHR ''$'' then (case read_sequence f n (tl s) of None \<Rightarrow> None | Some (q, k, u) \<Rightarrow> Some (Cat Eol q, k, u))
     else
       (case read_atom f n s of
          None \<Rightarrow> None
        | Some (r, m, t) \<Rightarrow>
            (case read_quantifier r t of
               None \<Rightarrow> None
             | Some (r', u) \<Rightarrow> (case read_sequence f m u of None \<Rightarrow> None | Some (q, k, v) \<Rightarrow> Some (Cat r' q, k, v)))))"
| "read_atom 0 n s = None"
| "read_atom (Suc f) n s =
    (case s of
       [] \<Rightarrow> None
     | c # cs \<Rightarrow>
         if c = CHR ''.'' then Some (AnyChar, n, cs)
         else if c = backslash then
           (case cs of
              [] \<Rightarrow> None
            | d # ds \<Rightarrow>
                if d = CHR ''d'' then Some (digit_class, n, ds)
                else if is_letter d \<or> is_digit d \<or> d = CHR ''_'' then None else Some (Chr d, n, ds))
         else if c = CHR ''['' then (case read_class cs of None \<Rightarrow> None | Some (r, t) \<Rightarrow> Some (CharClass r, n, t))
         else if c = CHR ''('' then
           (if take 2 cs = ''?:'' then
              (case read_alternatives f n (drop 2 cs) of
                 Some (r, m, t) \<Rightarrow> if t \<noteq> [] \<and> hd t = CHR '')'' then Some (r, m, tl t) else None
               | None \<Rightarrow> None)
            else
              (case read_alternatives f (Suc n) cs of
                 Some (r, m, t) \<Rightarrow> if t \<noteq> [] \<and> hd t = CHR '')'' then Some (Group n r, m, tl t) else None
               | None \<Rightarrow> None))
         else if c \<in> set syntax_chars then None
         else Some (Chr c, n, cs))"

definition read_regex :: "string \<Rightarrow> regex option" where
  "read_regex s = (case read_alternatives (3 * length s + 3) 1 s of Some (r, n, []) \<Rightarrow> Some r | _ \<Rightarrow> None)"

end
