(* ===== verification/Date_Xparb.thy ===== *)
theory Date_Xparb
  imports Js_Date Js_Rounding Js_Regex
begin

text \<open>
  The formatter and parser of \<open>metrics/jint/sunspider/date-format-xparb.js\<close>. Both translate a format to a function once and
  keep it under a name \<open>format0\<close>, \<open>format1\<close>, \<open>parse0\<close>, ... in a table that is an ordinary object. The source text that
  is passed to \<open>eval\<close> is modelled by what it means: a formatting function is the list of the operands of its sum, a parsing
  function is the number of its regular expression and the list of its assignments. The global state is the record \<open>xparb\<close>; a
  call that throws keeps the changes made before.
\<close>

section \<open>The host and the state\<close>

text \<open>
  Further parts of the host: the properties that the tables inherit from \<open>Object.prototype\<close>, \<open>Date.prototype.toString\<close>,
  whether there is a global \<open>document\<close>, the time of \<open>new Date()\<close>, \<open>RegExp\<close> on patterns outside those of
  \<open>read_regex\<close>, and \<open>String\<close> of a number that is not an integer.
\<close>

record xhost = host +
  inherited :: "string \<Rightarrow> bool"
  date_string :: "int \<Rightarrow> string"
  has_document :: bool
  now_time :: int
  other_regex :: "string \<Rightarrow> regex option"
  num_string :: "jsnum \<Rightarrow> string"

text \<open>An operand of the sum of a formatting function: what \<open>getFormatCode\<close> gives for a letter, or a quoted character.\<close>

datatype fcode = Code char | Quoted char

text \<open>The assignments of a parsing function, with the number of the capture they read.\<close>

datatype pcode =
    SetDay nat
  | SetMonthLong nat
  | SetMonthShort nat
  | SetMonth nat
  | SetYear nat
  | SetYear2 nat
  | SetHour nat
  | SetMinute nat
  | SetSecond nat
  | AmPm string nat

record xparb =
  format_count :: nat
  formatFunctions :: "string \<Rightarrow> string option"
  format_code :: "string \<Rightarrow> fcode list option"
  parse_count :: nat
  parseFunctions :: "string \<Rightarrow> string option"
  parseRegexes :: "regex list"
  parse_code :: "string \<Rightarrow> (nat \<times> pcode list) option"
  daysInMonth :: "int list"
  written :: "int list"

definition init_xparb :: xparb where
  "init_xparb = \<lparr>format_count = 0, formatFunctions = Map.empty, format_code = Map.empty, parse_count = 0, parseFunctions = Map.empty,
    parseRegexes = [], parse_code = Map.empty, daysInMonth = [31,28,31,30,31,30,31,31,30,31,30,31], written = []\<rparr>"

text \<open>A result with the state after it; sequencing stops at an error and keeps the state.\<close>

type_synonym 'a out = "'a res \<times> xparb"

fun sbind :: "'a out \<Rightarrow> ('a \<Rightarrow> xparb \<Rightarrow> 'b out) \<Rightarrow> 'b out" where
  "sbind (Inl e, st) f = (Inl e, st)"
| "sbind (Inr x, st) f = f x st"

lemma sbind_cong [fundef_cong]:
  "m = m' \<Longrightarrow> (\<And>x st. m' = (Inr x, st) \<Longrightarrow> f x st = f' x st) \<Longrightarrow> sbind m f = sbind m' f'"
  by (cases m'; cases "fst m'") auto

section \<open>Helpers\<close>

definition dayNames :: "string list" where
  "dayNames = [''Sunday'', ''Monday'', ''Tuesday'', ''Wednesday'', ''Thursday'', ''Friday'', ''Saturday'']"

definition monthNames :: "string list" where
  "monthNames = [''January'', ''February'', ''March'', ''April'', ''May'', ''June'', ''July'', ''August'',
    ''September'', ''October'', ''November'', ''December'']"

definition y2kYear :: int where
  "y2kYear = 50"

definition monthNumbers :: "string \<Rightarrow> int option" where
  "monthNumbers = map_of [(''Jan'', 0), (''Feb'', 1), (''Mar'', 2), (''Apr'', 3), (''May'', 4), (''Jun'', 5),
    (''Jul'', 6), (''Aug'', 7), (''Sep'', 8), (''Oct'', 9), (''Nov'', 10), (''Dec'', 11)]"

definition patterns :: "(string \<times> string) list" where
  "patterns =
    [(''ISO8601LongPattern'', ''Y-m-d H:i:s''), (''ISO8601ShortPattern'', ''Y-m-d''), (''ShortDatePattern'', ''n/j/Y''),
     (''LongDatePattern'', ''l, F d, Y''), (''FullDateTimePattern'', ''l, F d, Y g:i:s A''), (''MonthDayPattern'', ''F d''),
     (''ShortTimePattern'', ''g:i A''), (''LongTimePattern'', ''g:i:s A''),
     (''SortableDateTimePattern'', ''Y-m-d'' @ [CHR 0x5C] @ ''TH:i:s''), (''UniversalSortableDateTimePattern'', ''Y-m-d H:i:sO''),
     (''YearMonthPattern'', ''F, Y'')]"

text \<open>\<open>String.escape\<close>: a backslash before each quote and backslash.\<close>

fun escape_str :: "string \<Rightarrow> string" where
  "escape_str [] = []"
| "escape_str (c # cs) = (if c = CHR 0x27 \<or> c = CHR 0x5C then CHR 0x5C # c # escape_str cs else c # escape_str cs)"

text \<open>\<open>String.leftPad\<close>, with a single character to pad with as everywhere in the program.\<close>

function leftPad :: "string \<Rightarrow> nat \<Rightarrow> char \<Rightarrow> string" where
  "leftPad result width ch = (if length result < width then leftPad (ch # result) width ch else result)"
  by auto

termination by (relation "measure (\<lambda>(r, n, c). n - length r)") auto

declare leftPad.simps [simp del]

definition show_num :: "'h xhost_scheme \<Rightarrow> jsnum \<Rightarrow> string" where
  "show_num H x = (case x of Fin r \<Rightarrow> if r = of_int \<lfloor>r\<rfloor> then show_int \<lfloor>r\<rfloor> else num_string H x | _ \<Rightarrow> num_string H x)"

section \<open>The methods of a date\<close>

text \<open>
  The two replacements of \<open>getTimezone\<close>: \<open>/^.*? ([A-Z]{3}) [0-9]{4}.*$/\<close> by its capture and
  \<open>/^.*?\(([A-Z])[a-z]+ ([A-Z])[a-z]+ ([A-Z])[a-z]+\)$/\<close> by its three.
\<close>

definition upper_class :: regex where
  "upper_class = CharClass [(CHR ''A'', CHR ''Z'')]"

definition zone_regex :: regex where
  "zone_regex = re_seq [Bol, Rep False 0 None AnyChar, Chr (CHR '' ''), Group 1 (Rep True 3 (Some 3) upper_class), Chr (CHR '' ''),
    Rep True 4 (Some 4) digit_class, Rep True 0 None AnyChar, Eol]"

definition zone_words_regex :: regex where
  "zone_words_regex =
    (let lower = Rep True 1 None (CharClass [(CHR ''a'', CHR ''z'')])
     in re_seq [Bol, Rep False 0 None AnyChar, Chr (CHR ''(''), Group 1 upper_class, lower, Chr (CHR '' ''), Group 2 upper_class, lower,
          Chr (CHR '' ''), Group 3 upper_class, lower, Chr (CHR '')''), Eol])"

definition getTimezone :: "'h xhost_scheme \<Rightarrow> int \<Rightarrow> string" where
  "getTimezone H t = re_replace zone_words_regex [1, 2, 3] (re_replace zone_regex [1] (date_string H t))"

definition getGMTOffset :: "'h xhost_scheme \<Rightarrow> int \<Rightarrow> string" where
  "getGMTOffset H t =
    (if getTimezoneOffset H t > 0 then ''-'' else ''+'')
      @ leftPad (show_int (getTimezoneOffset H t div 60)) 2 (CHR ''0'')
      @ leftPad (show_int (js_rem (getTimezoneOffset H t) 60)) 2 (CHR ''0'')"

definition isLeapYear :: "'h xhost_scheme \<Rightarrow> int \<Rightarrow> bool" where
  "isLeapYear H t =
    (let year = getFullYear H t
     in js_and year 3 = 0 \<and> (js_rem year 100 \<noteq> 0 \<or> js_rem year 400 = 0 \<and> year \<noteq> 0))"

definition set_february :: "'h xhost_scheme \<Rightarrow> int \<Rightarrow> xparb \<Rightarrow> xparb" where
  "set_february H t st = st\<lparr>daysInMonth := (daysInMonth st)[1 := if isLeapYear H t then 29 else 28]\<rparr>"

definition getDayOfYear :: "'h xhost_scheme \<Rightarrow> int \<Rightarrow> xparb \<Rightarrow> int out" where
  "getDayOfYear H t st =
    (let st = set_february H t st;
         num = foldl (\<lambda>num i. num + daysInMonth st ! i) 0 [0..<nat (getMonth H t)]
     in (ok (num + getDate H t - 1), st))"

definition getWeekOfYear :: "'h xhost_scheme \<Rightarrow> int \<Rightarrow> xparb \<Rightarrow> string out" where
  "getWeekOfYear H t st =
    sbind (getDayOfYear H t st) (\<lambda>day st.
      (let now = day + (4 - getDay H t);
           jan1 = new_Date H (getFullYear H t) 0 1 0 0 0;
           first = 7 - getDay H jan1 + 4
       in if \<not> has_document H then (throw ReferenceError, st)
          else (ok (leftPad (show_num H (num_add (num_div (num_of (now - first)) (num_of 7)) (num_of 1))) 2 (CHR ''0'')),
                st\<lparr>written := written st @ [first]\<rparr>)))"

definition getFirstDayOfMonth :: "'h xhost_scheme \<Rightarrow> int \<Rightarrow> int" where
  "getFirstDayOfMonth H t = (let day = js_rem (getDay H t - (getDate H t - 1)) 7 in if day < 0 then day + 7 else day)"

definition getLastDayOfMonth :: "'h xhost_scheme \<Rightarrow> int \<Rightarrow> xparb \<Rightarrow> int" where
  "getLastDayOfMonth H t st =
    (let day = js_rem (getDay H t + (daysInMonth st ! nat (getMonth H t) - getDate H t)) 7 in if day < 0 then day + 7 else day)"

definition getDaysInMonth :: "'h xhost_scheme \<Rightarrow> int \<Rightarrow> xparb \<Rightarrow> int out" where
  "getDaysInMonth H t st = (let st = set_february H t st in (ok (daysInMonth st ! nat (getMonth H t)), st))"

definition getSuffix :: "'h xhost_scheme \<Rightarrow> int \<Rightarrow> string" where
  "getSuffix H t =
    (if getDate H t \<in> {1, 21, 31} then ''st'' else if getDate H t \<in> {2, 22} then ''nd'' else if getDate H t \<in> {3, 23} then ''rd'' else ''th'')"

section \<open>Formatting\<close>

definition getFormatCode :: "char \<Rightarrow> fcode" where
  "getFormatCode c = (if c \<in> set ''dDjlSwzWFmMntLYyaAgGhHisOTZ'' then Code c else Quoted c)"

text \<open>The value of an operand.\<close>

definition pad2 :: "int \<Rightarrow> jsval" where
  "pad2 x = JStr (leftPad (show_int x) 2 (CHR ''0''))"

definition twelve :: "int \<Rightarrow> int" where
  "twelve h = (if js_rem h 12 \<noteq> 0 then js_rem h 12 else 12)"

definition eval_letter :: "'h xhost_scheme \<Rightarrow> int \<Rightarrow> char \<Rightarrow> xparb \<Rightarrow> jsval out" where
  "eval_letter H t c st =
    (if c = CHR ''d'' then (ok (pad2 (getDate H t)), st)
     else if c = CHR ''D'' then (ok (JStr (substring 0 3 (dayNames ! nat (getDay H t)))), st)
     else if c = CHR ''j'' then (ok (JNum (getDate H t)), st)
     else if c = CHR ''l'' then (ok (JStr (dayNames ! nat (getDay H t))), st)
     else if c = CHR ''S'' then (ok (JStr (getSuffix H t)), st)
     else if c = CHR ''w'' then (ok (JNum (getDay H t)), st)
     else if c = CHR ''z'' then sbind (getDayOfYear H t st) (\<lambda>n st. (ok (JNum n), st))
     else if c = CHR ''W'' then sbind (getWeekOfYear H t st) (\<lambda>s st. (ok (JStr s), st))
     else if c = CHR ''F'' then (ok (JStr (monthNames ! nat (getMonth H t))), st)
     else if c = CHR ''m'' then (ok (pad2 (getMonth H t + 1)), st)
     else if c = CHR ''M'' then (ok (JStr (substring 0 3 (monthNames ! nat (getMonth H t)))), st)
     else if c = CHR ''n'' then (ok (JNum (getMonth H t + 1)), st)
     else if c = CHR ''t'' then sbind (getDaysInMonth H t st) (\<lambda>n st. (ok (JNum n), st))
     else if c = CHR ''L'' then (ok (JNum (if isLeapYear H t then 1 else 0)), st)
     else if c = CHR ''Y'' then (ok (JNum (getFullYear H t)), st)
     else if c = CHR ''y'' then (ok (JStr (substring 2 4 (show_int (getFullYear H t)))), st)
     else if c = CHR ''a'' then (ok (JStr (if getHours H t < 12 then ''am'' else ''pm'')), st)
     else if c = CHR ''A'' then (ok (JStr (if getHours H t < 12 then ''AM'' else ''PM'')), st)
     else if c = CHR ''g'' then (ok (JNum (twelve (getHours H t))), st)
     else if c = CHR ''G'' then (ok (JNum (getHours H t)), st)
     else if c = CHR ''h'' then (ok (pad2 (twelve (getHours H t))), st)
     else if c = CHR ''H'' then (ok (pad2 (getHours H t)), st)
     else if c = CHR ''i'' then (ok (pad2 (getMinutes H t)), st)
     else if c = CHR ''s'' then (ok (pad2 (getSeconds H t)), st)
     else if c = CHR ''O'' then (ok (JStr (getGMTOffset H t)), st)
     else if c = CHR ''T'' then (ok (JStr (getTimezone H t)), st)
     else if c = CHR ''Z'' then (ok (JNum (getTimezoneOffset H t * (-60))), st)
     else (throw ReferenceError, st))"

fun eval_code :: "'h xhost_scheme \<Rightarrow> int \<Rightarrow> fcode \<Rightarrow> xparb \<Rightarrow> jsval out" where
  "eval_code H t (Quoted c) st = (ok (JStr [c]), st)"
| "eval_code H t (Code c) st = eval_letter H t c st"

text \<open>
  The body of a formatting function: its operands added from the left. Without operands the text \<open>return \<close> loses its
  last three characters, and the body reads the undeclared variable \<open>retu\<close>.
\<close>

fun eval_sum :: "'h xhost_scheme \<Rightarrow> int \<Rightarrow> jsval \<Rightarrow> fcode list \<Rightarrow> xparb \<Rightarrow> jsval out" where
  "eval_sum H t acc [] st = (ok acc, st)"
| "eval_sum H t acc (a # as) st = sbind (eval_code H t a st) (\<lambda>v st. eval_sum H t (js_add acc v) as st)"

fun eval_body :: "'h xhost_scheme \<Rightarrow> int \<Rightarrow> fcode list \<Rightarrow> xparb \<Rightarrow> jsval out" where
  "eval_body H t [] st = (throw ReferenceError, st)"
| "eval_body H t (a # as) st = sbind (eval_code H t a st) (\<lambda>v st. eval_sum H t v as st)"

text \<open>The loop of \<open>createNewFormat\<close>; the flag is \<open>special\<close>.\<close>

fun format_codes :: "bool \<Rightarrow> string \<Rightarrow> fcode list" where
  "format_codes special [] = []"
| "format_codes special (c # cs) =
    (if \<not> special \<and> c = CHR 0x5C then format_codes True cs
     else if special then Quoted c # format_codes False cs
     else getFormatCode c # format_codes False cs)"

text \<open>A line terminator between the quotes of a string literal is not JavaScript.\<close>

definition code_parses :: "fcode list \<Rightarrow> bool" where
  "code_parses codes = list_all (\<lambda>a. case a of Quoted c \<Rightarrow> \<not> line_end c | Code c \<Rightarrow> True) codes"

definition createNewFormat :: "string \<Rightarrow> xparb \<Rightarrow> unit out" where
  "createNewFormat format st =
    (let funcName = ''format'' @ show_nat (format_count st);
         st = st\<lparr>format_count := format_count st + 1, formatFunctions := (formatFunctions st)(format \<mapsto> funcName)\<rparr>;
         codes = format_codes False format
     in if code_parses codes then (ok (), st\<lparr>format_code := (format_code st)(funcName \<mapsto> codes)\<rparr>)
        else (throw SyntaxError, st))"

text \<open>
  What a table holds under a name: its own property \<open>count\<close>, the name of a function, an inherited property, or nothing.
\<close>

datatype entry = Count | Func string | Inherited | Missing

definition lookup_entry :: "'h xhost_scheme \<Rightarrow> (string \<Rightarrow> string option) \<Rightarrow> string \<Rightarrow> entry" where
  "lookup_entry H table name =
    (if name = ''count'' then Count
     else case table name of Some f \<Rightarrow> Func f | None \<Rightarrow> if inherited H name then Inherited else Missing)"

definition dateFormat :: "'h xhost_scheme \<Rightarrow> string \<Rightarrow> int \<Rightarrow> xparb \<Rightarrow> jsval out" where
  "dateFormat H format t st =
    sbind (if lookup_entry H (formatFunctions st) format = Missing then createNewFormat format st else (ok (), st)) (\<lambda>_ st.
      (case lookup_entry H (formatFunctions st) format of
         Func f \<Rightarrow> (case format_code st f of Some codes \<Rightarrow> eval_body H t codes st | None \<Rightarrow> (throw TypeError, st))
       | _ \<Rightarrow> (throw TypeError, st)))"

section \<open>Parsing\<close>

text \<open>\<open>formatCodeToRegex\<close>: the number of groups, the assignment, and the text of the pattern. The letters that a parser skips have no group.\<close>

definition joined :: "string list \<Rightarrow> string" where
  "joined names = (case names of [] \<Rightarrow> [] | n # ns \<Rightarrow> n @ concat (map (\<lambda>m. CHR ''|'' # m) ns))"

definition formatCodeToRegex :: "char \<Rightarrow> nat \<Rightarrow> nat \<times> pcode option \<times> string" where
  "formatCodeToRegex c g =
    (if c = CHR ''D'' then (0, None, ''(?:Sun|Mon|Tue|Wed|Thu|Fri|Sat)'')
     else if c = CHR ''j'' \<or> c = CHR ''d'' then (1, Some (SetDay g), ''('' @ [backslash] @ ''d{1,2})'')
     else if c = CHR ''l'' then (0, None, ''(?:'' @ joined dayNames @ '')'')
     else if c = CHR ''S'' then (0, None, ''(?:st|nd|rd|th)'')
     else if c = CHR ''w'' then (0, None, [backslash] @ ''d'')
     else if c = CHR ''z'' then (0, None, ''(?:'' @ [backslash] @ ''d{1,3})'')
     else if c = CHR ''W'' then (0, None, ''(?:'' @ [backslash] @ ''d{2})'')
     else if c = CHR ''F'' then (1, Some (SetMonthLong g), ''('' @ joined monthNames @ '')'')
     else if c = CHR ''M'' then (1, Some (SetMonthShort g), ''(Jan|Feb|Mar|Apr|May|Jun|Jul|Aug|Sep|Oct|Nov|Dec)'')
     else if c = CHR ''n'' \<or> c = CHR ''m'' then (1, Some (SetMonth g), ''('' @ [backslash] @ ''d{1,2})'')
     else if c = CHR ''t'' then (0, None, [backslash] @ ''d{1,2}'')
     else if c = CHR ''L'' then (0, None, ''(?:1|0)'')
     else if c = CHR ''Y'' then (1, Some (SetYear g), ''('' @ [backslash] @ ''d{4})'')
     else if c = CHR ''y'' then (1, Some (SetYear2 g), ''('' @ [backslash] @ ''d{1,2})'')
     else if c = CHR ''a'' then (1, Some (AmPm ''am'' g), ''(am|pm)'')
     else if c = CHR ''A'' then (1, Some (AmPm ''AM'' g), ''(AM|PM)'')
     else if c = CHR ''g'' \<or> c = CHR ''G'' \<or> c = CHR ''h'' \<or> c = CHR ''H'' then (1, Some (SetHour g), ''('' @ [backslash] @ ''d{1,2})'')
     else if c = CHR ''i'' then (1, Some (SetMinute g), ''('' @ [backslash] @ ''d{2})'')
     else if c = CHR ''s'' then (1, Some (SetSecond g), ''('' @ [backslash] @ ''d{2})'')
     else if c = CHR ''O'' then (0, None, ''[+-]'' @ [backslash] @ ''d{4}'')
     else if c = CHR ''T'' then (0, None, ''[A-Z]{3}'')
     else if c = CHR ''Z'' then (0, None, ''[+-]'' @ [backslash] @ ''d{1,5}'')
     else (0, None, escape_str [c]))"

text \<open>The loop of \<open>createParser\<close>: the assignments and the pattern, from the group with the given number on.\<close>

fun parser_codes :: "bool \<Rightarrow> nat \<Rightarrow> string \<Rightarrow> pcode list \<times> string" where
  "parser_codes special g [] = ([], [])"
| "parser_codes special g (c # cs) =
    (if \<not> special \<and> c = CHR 0x5C then parser_codes True g cs
     else if special then (let (code, regex) = parser_codes False g cs in (code, escape_str [c] @ regex))
     else
       (let (n, a, s) = formatCodeToRegex c g; (code, regex) = parser_codes False (g + n) cs
        in ((case a of Some p \<Rightarrow> if n \<noteq> 0 then p # code else code | None \<Rightarrow> code), s @ regex)))"

definition newRegExp :: "'h xhost_scheme \<Rightarrow> string \<Rightarrow> regex option" where
  "newRegExp H s = (case read_regex s of Some r \<Rightarrow> Some r | None \<Rightarrow> other_regex H s)"

definition createParser :: "'h xhost_scheme \<Rightarrow> string \<Rightarrow> xparb \<Rightarrow> unit out" where
  "createParser H format st =
    (let funcName = ''parse'' @ show_nat (parse_count st);
         regexNum = length (parseRegexes st);
         st = st\<lparr>parse_count := parse_count st + 1, parseFunctions := (parseFunctions st)(format \<mapsto> funcName)\<rparr>;
         (codes, regex) = parser_codes False 1 format
     in (case newRegExp H (''^'' @ regex @ ''$'') of
           None \<Rightarrow> (throw SyntaxError, st)
         | Some r \<Rightarrow> (ok (), st\<lparr>parseRegexes := parseRegexes st @ [r], parse_code := (parse_code st)(funcName \<mapsto> (regexNum, codes))\<rparr>)))"

text \<open>
  The variables of a parsing function; \<open>None\<close> is \<open>NaN\<close>. \<open>parseInt\<close> of \<open>undefined\<close> is \<open>NaN\<close>, a method of \<open>undefined\<close> throws.
\<close>

record pvars =
  pv_y :: "int option"
  pv_m :: "int option"
  pv_d :: "int option"
  pv_h :: "int option"
  pv_i :: "int option"
  pv_s :: "int option"

definition parse_group :: "string option \<Rightarrow> int option" where
  "parse_group r = (case r of None \<Rightarrow> None | Some s \<Rightarrow> parseInt s)"

fun run_pcode :: "(nat \<Rightarrow> string option) \<Rightarrow> pcode \<Rightarrow> pvars \<Rightarrow> pvars res" where
  "run_pcode results (SetDay g) v = ok (v\<lparr>pv_d := parse_group (results g)\<rparr>)"
| "run_pcode results (SetMonthLong g) v =
    (case results g of None \<Rightarrow> throw TypeError | Some s \<Rightarrow> ok (v\<lparr>pv_m := monthNumbers (substring 0 3 s)\<rparr>))"
| "run_pcode results (SetMonthShort g) v =
    ok (v\<lparr>pv_m := (case results g of None \<Rightarrow> None | Some s \<Rightarrow> monthNumbers s)\<rparr>)"
| "run_pcode results (SetMonth g) v = ok (v\<lparr>pv_m := map_option (\<lambda>n. n - 1) (parse_group (results g))\<rparr>)"
| "run_pcode results (SetYear g) v = ok (v\<lparr>pv_y := parse_group (results g)\<rparr>)"
| "run_pcode results (SetYear2 g) v =
    ok (v\<lparr>pv_y := map_option (\<lambda>ty. if ty > y2kYear then 1900 + ty else 2000 + ty) (parse_group (results g))\<rparr>)"
| "run_pcode results (SetHour g) v = ok (v\<lparr>pv_h := parse_group (results g)\<rparr>)"
| "run_pcode results (SetMinute g) v = ok (v\<lparr>pv_i := parse_group (results g)\<rparr>)"
| "run_pcode results (SetSecond g) v = ok (v\<lparr>pv_s := parse_group (results g)\<rparr>)"
| "run_pcode results (AmPm am g) v =
    ok (v\<lparr>pv_h := map_option (\<lambda>h. if results g = Some am then (if h = 12 then 0 else h) else (if h < 12 then h + 12 else h)) (pv_h v)\<rparr>)"

fun run_pcodes :: "(nat \<Rightarrow> string option) \<Rightarrow> pcode list \<Rightarrow> pvars \<Rightarrow> pvars res" where
  "run_pcodes results [] v = ok v"
| "run_pcodes results (p # ps) v = rbind (run_pcode results p v) (run_pcodes results ps)"

definition positive :: "int option \<Rightarrow> bool" where
  "positive x = (case x of None \<Rightarrow> False | Some i \<Rightarrow> i > 0)"

definition nonneg :: "int option \<Rightarrow> bool" where
  "nonneg x = (case x of None \<Rightarrow> False | Some i \<Rightarrow> i \<ge> 0)"

text \<open>The choice of the constructor at the end; \<open>new Date(y)\<close> with one argument is the time value \<open>y\<close>.\<close>

definition parsed_date :: "'h xhost_scheme \<Rightarrow> pvars \<Rightarrow> int option" where
  "parsed_date H v =
    (let y = the (pv_y v); m = the (pv_m v); d = the (pv_d v); h = the (pv_h v); i = the (pv_i v); s = the (pv_s v)
     in if positive (pv_y v) \<and> nonneg (pv_m v) \<and> positive (pv_d v) \<and> nonneg (pv_h v) \<and> nonneg (pv_i v) \<and> nonneg (pv_s v) then
          Some (new_Date H y m d h i s)
        else if positive (pv_y v) \<and> nonneg (pv_m v) \<and> positive (pv_d v) \<and> nonneg (pv_h v) \<and> nonneg (pv_i v) then
          Some (new_Date H y m d h i 0)
        else if positive (pv_y v) \<and> nonneg (pv_m v) \<and> positive (pv_d v) \<and> nonneg (pv_h v) then Some (new_Date H y m d h 0 0)
        else if positive (pv_y v) \<and> nonneg (pv_m v) \<and> positive (pv_d v) then Some (new_Date H y m d 0 0 0)
        else if positive (pv_y v) \<and> nonneg (pv_m v) then Some (new_Date H y m 1 0 0 0)
        else if positive (pv_y v) then Some y
        else None)"

definition parse_body :: "'h xhost_scheme \<Rightarrow> regex \<Rightarrow> pcode list \<Rightarrow> string \<Rightarrow> int option res" where
  "parse_body H r codes input =
    (let d = now_time H;
         v = \<lparr>pv_y = Some (getFullYear H d), pv_m = Some (getMonth H d), pv_d = Some (getDate H d),
              pv_h = Some (-1), pv_i = Some (-1), pv_s = Some (-1)\<rparr>
     in (case re_exec r input of
           None \<Rightarrow> ok None
         | Some (_, _, results) \<Rightarrow> rbind (run_pcodes results codes v) (\<lambda>v. ok (parsed_date H v))))"

definition parseDate :: "'h xhost_scheme \<Rightarrow> string \<Rightarrow> string \<Rightarrow> xparb \<Rightarrow> int option out" where
  "parseDate H input format st =
    sbind (if lookup_entry H (parseFunctions st) format = Missing then createParser H format st else (ok (), st)) (\<lambda>_ st.
      (case lookup_entry H (parseFunctions st) format of
         Func f \<Rightarrow> (case parse_code st f of Some (n, codes) \<Rightarrow> (parse_body H (parseRegexes st ! n) codes input, st) | None \<Rightarrow> (throw TypeError, st))
       | _ \<Rightarrow> (throw TypeError, st)))"

section \<open>The script\<close>

fun xparb_main :: "nat \<Rightarrow> 'h xhost_scheme \<Rightarrow> int \<Rightarrow> xparb \<Rightarrow> ((jsval \<times> jsval) list \<times> int) out" where
  "xparb_main 0 H t st = (ok ([], t), st)"
| "xparb_main (Suc k) H t st =
    sbind (dateFormat H ''Y-m-d'' t st) (\<lambda>shortFormat st.
    sbind (dateFormat H ''l, F d, Y g:i:s A'' t st) (\<lambda>longFormat st.
    sbind (xparb_main k H (t + 84266956) st) (\<lambda>(r, t) st. (ok ((shortFormat, longFormat) # r, t), st))))"

definition xparb_script :: "'h xhost_scheme \<Rightarrow> ((jsval \<times> jsval) list \<times> int) out" where
  "xparb_script H = xparb_main 4000 H (date_parse H ''1/1/2007 1:11:11'') init_xparb"

end
