(* ===== verification/Date_Xparb_Cache.thy ===== *)
theory Date_Xparb_Cache
  imports Date_Tofte_Correct Date_Xparb
begin

text \<open>
  The tables of compiled formats and parsers: they hold exactly what the formats mean (\<open>xparb_ok\<close>), whatever was
  formatted and parsed before, and the month table that several letters rewrite never shows in a result (\<open>steady\<close>).
\<close>


section \<open>The shared table of month lengths\<close>

definition february_ok :: "xparb \<Rightarrow> bool" where
  "february_ok st \<longleftrightarrow> (\<exists>x. daysInMonth st = [31, x, 31, 30, 31, 30, 31, 31, 30, 31, 30, 31])"

lemma february_init: "february_ok init_xparb"
  by (simp add: february_ok_def init_xparb_def)

lemma february_set: "february_ok st \<Longrightarrow> daysInMonth (set_february H t st) = [31, if isLeapYear H t then 29 else 28, 31, 30, 31, 30, 31, 31, 30, 31, 30, 31]"
  by (auto simp: february_ok_def set_february_def)

text \<open>Two states that differ in nothing but the month table and the written output, and have the eleven fixed months.\<close>

definition same_tables :: "xparb \<Rightarrow> xparb \<Rightarrow> bool" where
  "same_tables st st' \<longleftrightarrow> february_ok st' \<and> (\<exists>d w. st' = st\<lparr>daysInMonth := d, written := w\<rparr>)"

lemma same_tables_refl: "february_ok st \<Longrightarrow> same_tables st st"
  unfolding same_tables_def by (intro conjI exI [of _ "daysInMonth st"] exI [of _ "written st"]) simp_all

lemma same_tables_trans: "same_tables st st' \<Longrightarrow> same_tables st' st'' \<Longrightarrow> same_tables st st''"
  unfolding same_tables_def by (elim conjE exE, intro conjI) (simp, metis (no_types, lifting) xparb.simps(8,9) xparb.surjective xparb.update_convs(8,9))

text \<open>Running an operand: the value does not depend on the month table, and nothing but the table and the output changes.\<close>

definition steady :: "(xparb \<Rightarrow> 'a out) \<Rightarrow> bool" where
  "steady f \<longleftrightarrow> (\<forall>st. february_ok st \<longrightarrow> same_tables st (snd (f st))) \<and>
    (\<forall>st st'. february_ok st \<longrightarrow> february_ok st' \<longrightarrow> fst (f st) = fst (f st'))"

lemma steady_const: "steady (\<lambda>st. (r, st))" "steady (Pair r)"
  by (simp_all add: steady_def same_tables_refl)

lemma steady_if: "steady f \<Longrightarrow> steady g \<Longrightarrow> steady (\<lambda>st. if b then f st else g st)"
  by (cases b) simp_all

lemma steadyD:
  assumes "steady f" "february_ok st"
  shows "same_tables st (snd (f st))" "february_ok (snd (f st))" "february_ok st' \<Longrightarrow> fst (f st) = fst (f st')"
  using assms unfolding steady_def same_tables_def by blast+

lemma sbind_fst_snd: "sbind m g = (case fst m of Inl e \<Rightarrow> (Inl e, snd m) | Inr x \<Rightarrow> g x (snd m))"
  by (cases m; cases "fst m") auto

lemma steady_bind:
  assumes "steady f" "\<And>x. steady (g x)"
  shows "steady (\<lambda>st. sbind (f st) g)"
proof -
  have "same_tables st (snd (sbind (f st) g))" if st: "february_ok st" for st
  proof (cases "fst (f st)")
    case (Inl e)
    then show ?thesis using steadyD(1) [OF assms(1) st] by (simp add: sbind_fst_snd)
  next
    case (Inr x)
    have "same_tables (snd (f st)) (snd (g x (snd (f st))))" by (rule steadyD(1) [OF assms(2) steadyD(2) [OF assms(1) st]])
    then show ?thesis using same_tables_trans [OF steadyD(1) [OF assms(1) st]] Inr by (simp add: sbind_fst_snd)
  qed
  moreover have "fst (sbind (f st) g) = fst (sbind (f st') g)" if st: "february_ok st" "february_ok st'" for st st'
  proof (cases "fst (f st)")
    case (Inl e)
    then show ?thesis using steadyD(3) [OF assms(1) st] by (simp add: sbind_fst_snd)
  next
    case (Inr x)
    have "fst (g x (snd (f st))) = fst (g x (snd (f st')))"
      by (rule steadyD(3) [OF assms(2) steadyD(2) [OF assms(1) st(1)] steadyD(2) [OF assms(1) st(2)]])
    moreover have "fst (f st') = Inr x" using steadyD(3) [OF assms(1) st] Inr by simp
    ultimately show ?thesis using Inr by (simp add: sbind_fst_snd)
  qed
  ultimately show ?thesis unfolding steady_def by blast
qed

lemma same_tables_february: "february_ok st \<Longrightarrow> same_tables st (set_february H t st)"
  unfolding same_tables_def set_february_def
  by (intro conjI exI [of _ "(daysInMonth st)[1 := if isLeapYear H t then 29 else 28]"] exI [of _ "written st"]) (auto simp: february_ok_def)

lemma steady_day: "steady (getDayOfYear H t)"
  by (simp add: steady_def getDayOfYear_def same_tables_february february_set)

lemma steady_month: "steady (getDaysInMonth H t)"
  by (simp add: steady_def getDaysInMonth_def same_tables_february february_set)

lemma steady_write: "steady (\<lambda>st. (r, st\<lparr>written := written st @ [n]\<rparr>))"
proof -
  have "same_tables st (st\<lparr>written := w\<rparr>)" if "february_ok st" for st w
    using that unfolding same_tables_def february_ok_def by (intro conjI exI [of _ "daysInMonth st"] exI [of _ w]) simp_all
  then show ?thesis by (simp add: steady_def)
qed

lemma steady_week: "steady (getWeekOfYear H t)"
  unfolding getWeekOfYear_def [abs_def] Let_def
  by (intro steady_bind steady_day steady_if steady_const steady_write)

lemma steady_letter: "steady (eval_letter H t c)"
  unfolding eval_letter_def [abs_def]
  by (intro steady_if steady_bind steady_const steady_day steady_week steady_month)

lemma steady_code: "steady (eval_code H t a)"
proof (cases a)
  case (Code c)
  have "eval_code H t (Code c) = eval_letter H t c" by (rule ext) simp
  then show ?thesis using Code by (simp add: steady_letter)
next
  case (Quoted c)
  have "eval_code H t (Quoted c) = Pair (ok (JStr [c]))" by (rule ext) simp
  then show ?thesis using Quoted by (simp add: steady_const del: ok_def)
qed

lemma steady_sum: "steady (eval_sum H t v as)"
proof (induction as arbitrary: v)
  case Nil
  have "eval_sum H t v [] = Pair (ok v)" by (rule ext) simp
  then show ?case by (simp add: steady_const del: ok_def)
next
  case (Cons a as)
  have "eval_sum H t v (a # as) = (\<lambda>st. sbind (eval_code H t a st) (\<lambda>w st. eval_sum H t (js_add v w) as st))" by (rule ext) simp
  then show ?case by (simp only:) (intro steady_bind steady_code Cons)
qed

lemma steady_body: "steady (eval_body H t as)"
proof (cases as)
  case Nil
  have "eval_body H t [] = Pair (throw ReferenceError)" by (rule ext) simp
  then show ?thesis using Nil by (simp add: steady_const del: throw_def)
next
  case (Cons a as')
  have "eval_body H t (a # as') = (\<lambda>st. sbind (eval_code H t a st) (\<lambda>w st. eval_sum H t w as' st))" by (rule ext) simp
  then show ?thesis unfolding Cons by (simp only:) (intro steady_bind steady_code steady_sum)
qed

section \<open>The tables of functions\<close>

definition table_ok :: "string \<Rightarrow> nat \<Rightarrow> (string \<Rightarrow> string option) \<Rightarrow> (string \<Rightarrow> 'c option) \<Rightarrow> (string \<Rightarrow> 'c option \<Rightarrow> bool) \<Rightarrow> bool" where
  "table_ok prefix n names code good \<longleftrightarrow>
    (\<forall>f g. names f = Some g \<longrightarrow> (\<exists>k<n. g = prefix @ show_nat k) \<and> good f (code g)) \<and>
    (\<forall>f f' g. names f = Some g \<and> names f' = Some g \<longrightarrow> f = f') \<and>
    (\<forall>g. code g \<noteq> None \<longrightarrow> (\<exists>k<n. g = prefix @ show_nat k))"

lemma show_nat_inj: "show_nat m = show_nat n \<Longrightarrow> m = n"
  by (metis digits_val_show of_nat_eq_iff)

lemma table_empty: "table_ok prefix 0 Map.empty Map.empty good"
  by (simp add: table_ok_def)

lemma table_weaken: "table_ok prefix n names code good \<Longrightarrow> (\<And>f c. good f c \<Longrightarrow> good' f c) \<Longrightarrow> table_ok prefix n names code good'"
  unfolding table_ok_def by blast

lemma table_good: "table_ok prefix n names code good \<Longrightarrow> names f = Some g \<Longrightarrow> good f (code g)"
  unfolding table_ok_def by blast

lemma table_add:
  assumes "table_ok prefix n names code good" "names f = None" "good f c" "g = prefix @ show_nat n"
  shows "table_ok prefix (Suc n) (names(f \<mapsto> g)) (case c of None \<Rightarrow> code | Some x \<Rightarrow> code(g \<mapsto> x)) good"
proof -
  have new: "\<not> (\<exists>k<n. g = prefix @ show_nat k)" using assms(4) show_nat_inj by force
  then have fresh: "code g = None" "names f' \<noteq> Some g" for f' using assms(1) unfolding table_ok_def by blast+
  let ?code = "case c of None \<Rightarrow> code | Some x \<Rightarrow> code(g \<mapsto> x)"
  have code: "?code g = c" "h \<noteq> g \<Longrightarrow> ?code h = code h" for h using fresh(1) by (auto split: option.splits)
  have k: "g = prefix @ show_nat n \<and> n < Suc n" using assms(4) by simp
  have old: "(\<exists>k<n. h = prefix @ show_nat k) \<Longrightarrow> (\<exists>k<Suc n. h = prefix @ show_nat k)" for h using less_Suc_eq by blast
  show ?thesis
    unfolding table_ok_def
  proof (intro conjI allI impI)
    fix f' h assume h: "(names(f \<mapsto> g)) f' = Some h"
    show "\<exists>k<Suc n. h = prefix @ show_nat k"
    proof (cases "f' = f")
      case True then show ?thesis using h k by auto
    next
      case False then show ?thesis using h old assms(1) unfolding table_ok_def by simp
    qed
    show "good f' (?code h)"
    proof (cases "f' = f")
      case True then show ?thesis using h assms(3) code(1) by simp
    next
      case False
      then have "h \<noteq> g" using h fresh(2) by auto
      then show ?thesis using False h code(2) table_good [OF assms(1)] by simp
    qed
  next
    fix f1 f2 h assume "(names(f \<mapsto> g)) f1 = Some h \<and> (names(f \<mapsto> g)) f2 = Some h"
    then show "f1 = f2" using fresh(2) assms(1) unfolding table_ok_def fun_upd_apply by (metis option.inject)
  next
    fix h assume "?code h \<noteq> None"
    then show "\<exists>k<Suc n. h = prefix @ show_nat k" using code(2) [of h] old k assms(1) unfolding table_ok_def by (cases "h = g") auto
  qed
qed


section \<open>The caches\<close>

definition compile_format :: "string \<Rightarrow> fcode list option" where
  "compile_format f = (let codes = format_codes False f in if code_parses codes then Some codes else None)"

definition compile_parser :: "'h xhost_scheme \<Rightarrow> string \<Rightarrow> (regex \<times> pcode list) option" where
  "compile_parser H f =
    (let (codes, regex) = parser_codes False 1 f in map_option (\<lambda>r. (r, codes)) (newRegExp H (''^'' @ regex @ ''$'')))"

definition parser_entry :: "'h xhost_scheme \<Rightarrow> regex list \<Rightarrow> string \<Rightarrow> (nat \<times> pcode list) option \<Rightarrow> bool" where
  "parser_entry H rs f c \<longleftrightarrow>
    (case c of None \<Rightarrow> compile_parser H f = None | Some (n, codes) \<Rightarrow> n < length rs \<and> compile_parser H f = Some (rs ! n, codes))"

definition xparb_ok :: "'h xhost_scheme \<Rightarrow> xparb \<Rightarrow> bool" where
  "xparb_ok H st \<longleftrightarrow> february_ok st \<and>
    table_ok ''format'' (format_count st) (formatFunctions st) (format_code st) (\<lambda>f c. c = compile_format f) \<and>
    table_ok ''parse'' (parse_count st) (parseFunctions st) (parse_code st) (parser_entry H (parseRegexes st))"

lemma xparb_ok_init: "xparb_ok H init_xparb"
  by (simp add: xparb_ok_def february_init) (simp add: init_xparb_def table_empty)

lemma xparb_ok_same: "xparb_ok H st \<Longrightarrow> same_tables st st' \<Longrightarrow> xparb_ok H st'"
  unfolding xparb_ok_def same_tables_def by auto

lemma lookup_missing: "lookup_entry H names f = Missing \<Longrightarrow> names f = None \<and> f \<noteq> ''count'' \<and> \<not> inherited H f"
  by (auto simp: lookup_entry_def split: if_splits option.splits)

lemma lookup_func: "lookup_entry H names f = Func g \<longleftrightarrow> names f = Some g \<and> f \<noteq> ''count''"
  by (auto simp: lookup_entry_def split: option.splits)

lemma createNewFormat_ok:
  assumes "xparb_ok H st" "formatFunctions st f = None"
  shows "xparb_ok H (snd (createNewFormat f st))"
    "fst (createNewFormat f st) = (case compile_format f of None \<Rightarrow> throw SyntaxError | Some _ \<Rightarrow> ok ())"
    "formatFunctions (snd (createNewFormat f st)) = (formatFunctions st)(f \<mapsto> ''format'' @ show_nat (format_count st))"
proof -
  let ?g = "''format'' @ show_nat (format_count st)"
  have "table_ok ''format'' (Suc (format_count st)) ((formatFunctions st)(f \<mapsto> ?g))
    (case compile_format f of None \<Rightarrow> format_code st | Some x \<Rightarrow> (format_code st)(?g \<mapsto> x)) (\<lambda>f c. c = compile_format f)"
    using assms by (intro table_add) (simp_all add: xparb_ok_def)
  then show "xparb_ok H (snd (createNewFormat f st))"
    using assms(1) by (auto simp: xparb_ok_def createNewFormat_def compile_format_def Let_def february_ok_def split: if_splits)
  show "fst (createNewFormat f st) = (case compile_format f of None \<Rightarrow> throw SyntaxError | Some _ \<Rightarrow> ok ())"
    "formatFunctions (snd (createNewFormat f st)) = (formatFunctions st)(f \<mapsto> ?g)"
    by (simp_all add: createNewFormat_def compile_format_def Let_def)
qed

lemma createParser_ok:
  assumes "xparb_ok H st" "parseFunctions st f = None"
  shows "xparb_ok H (snd (createParser H f st))"
    "fst (createParser H f st) = (case compile_parser H f of None \<Rightarrow> throw SyntaxError | Some _ \<Rightarrow> ok ())"
    "parseFunctions (snd (createParser H f st)) = (parseFunctions st)(f \<mapsto> ''parse'' @ show_nat (parse_count st))"
proof -
  let ?g = "''parse'' @ show_nat (parse_count st)"
  obtain codes regex where p: "parser_codes False (Suc 0) f = (codes, regex)" by fastforce
  have T: "table_ok ''parse'' (parse_count st) (parseFunctions st) (parse_code st) (parser_entry H (parseRegexes st))"
    and F: "february_ok st" "table_ok ''format'' (format_count st) (formatFunctions st) (format_code st) (\<lambda>f c. c = compile_format f)"
    using assms(1) by (simp_all add: xparb_ok_def)
  have "xparb_ok H (snd (createParser H f st)) \<and> fst (createParser H f st) = (case compile_parser H f of None \<Rightarrow> throw SyntaxError | Some _ \<Rightarrow> ok ()) \<and>
    parseFunctions (snd (createParser H f st)) = (parseFunctions st)(f \<mapsto> ?g)"
  proof (cases "newRegExp H (''^'' @ regex @ ''$'')")
    case None
    then have c: "compile_parser H f = None" by (simp add: compile_parser_def p)
    have "table_ok ''parse'' (Suc (parse_count st)) ((parseFunctions st)(f \<mapsto> ?g)) (parse_code st) (parser_entry H (parseRegexes st))"
      using table_add [OF T assms(2), of None] c by (simp add: parser_entry_def)
    then show ?thesis using F None c by (simp add: createParser_def p Let_def xparb_ok_def february_ok_def)
  next
    case (Some r)
    then have c: "compile_parser H f = Some (r, codes)" by (simp add: compile_parser_def p)
    have T': "table_ok ''parse'' (parse_count st) (parseFunctions st) (parse_code st) (parser_entry H (parseRegexes st @ [r]))"
      using T by (rule table_weaken) (auto simp: parser_entry_def nth_append split: option.splits)
    have "table_ok ''parse'' (Suc (parse_count st)) ((parseFunctions st)(f \<mapsto> ?g))
      ((parse_code st)(?g \<mapsto> (length (parseRegexes st), codes))) (parser_entry H (parseRegexes st @ [r]))"
      using table_add [OF T' assms(2), of "Some (length (parseRegexes st), codes)"] c by (simp add: parser_entry_def)
    then show ?thesis using F Some c by (simp add: createParser_def p Let_def xparb_ok_def february_ok_def)
  qed
  then show "xparb_ok H (snd (createParser H f st))"
    "fst (createParser H f st) = (case compile_parser H f of None \<Rightarrow> throw SyntaxError | Some _ \<Rightarrow> ok ())"
    "parseFunctions (snd (createParser H f st)) = (parseFunctions st)(f \<mapsto> ''parse'' @ show_nat (parse_count st))"
    by simp_all
qed

text \<open>What a call yields, from the format alone and whether it was used before.\<close>

definition format_value :: "'h xhost_scheme \<Rightarrow> string \<Rightarrow> int \<Rightarrow> bool \<Rightarrow> jsval res" where
  "format_value H f t used =
    (if f = ''count'' \<or> \<not> used \<and> inherited H f then throw TypeError
     else (case compile_format f of
             None \<Rightarrow> throw (if used then TypeError else SyntaxError)
           | Some codes \<Rightarrow> fst (eval_body H t codes init_xparb)))"

definition parse_value :: "'h xhost_scheme \<Rightarrow> string \<Rightarrow> string \<Rightarrow> bool \<Rightarrow> int option res" where
  "parse_value H input f used =
    (if f = ''count'' \<or> \<not> used \<and> inherited H f then throw TypeError
     else (case compile_parser H f of
             None \<Rightarrow> throw (if used then TypeError else SyntaxError)
           | Some (r, codes) \<Rightarrow> parse_body H r codes input))"


lemma dateFormat_value:
  assumes "xparb_ok H st"
  shows "fst (dateFormat H f t st) = format_value H f t (formatFunctions st f \<noteq> None)" "xparb_ok H (snd (dateFormat H f t st))"
proof -
  have run: "fst (case format_code st' g of Some codes \<Rightarrow> eval_body H t codes st' | None \<Rightarrow> (throw TypeError, st')) =
      (case compile_format f of None \<Rightarrow> throw TypeError | Some codes \<Rightarrow> fst (eval_body H t codes init_xparb))"
    "xparb_ok H (snd (case format_code st' g of Some codes \<Rightarrow> eval_body H t codes st' | None \<Rightarrow> (throw TypeError, st')))"
    if st': "xparb_ok H st'" "formatFunctions st' f = Some g" for st' g
  proof -
    have c: "format_code st' g = compile_format f" using st' table_good unfolding xparb_ok_def by blast
    have b: "february_ok st'" using st' by (simp add: xparb_ok_def)
    show "fst (case format_code st' g of Some codes \<Rightarrow> eval_body H t codes st' | None \<Rightarrow> (throw TypeError, st')) =
      (case compile_format f of None \<Rightarrow> throw TypeError | Some codes \<Rightarrow> fst (eval_body H t codes init_xparb))"
      using steadyD(3) [OF steady_body b february_init] by (auto simp: c split: option.splits)
    show "xparb_ok H (snd (case format_code st' g of Some codes \<Rightarrow> eval_body H t codes st' | None \<Rightarrow> (throw TypeError, st')))"
    proof (cases "format_code st' g")
      case (Some codes)
      then show ?thesis using xparb_ok_same [OF st'(1) steadyD(1) [OF steady_body [of H t codes] b]] by simp
    qed (use st'(1) in simp)
  qed
  have "fst (dateFormat H f t st) = format_value H f t (formatFunctions st f \<noteq> None) \<and> xparb_ok H (snd (dateFormat H f t st))"
  proof (cases "lookup_entry H (formatFunctions st) f")
    case (Func g)
    then have g: "formatFunctions st f = Some g" "f \<noteq> ''count''" by (simp_all add: lookup_func)
    show ?thesis using run [OF assms g(1)] Func g by (simp add: dateFormat_def format_value_def)
  next
    case Missing
    then have m: "formatFunctions st f = None" "f \<noteq> ''count''" "\<not> inherited H f" using lookup_missing by blast+
    note cr = createNewFormat_ok [OF assms m(1)]
    obtain r st' where st': "createNewFormat f st = (r, st')" by fastforce
    show ?thesis
    proof (cases "compile_format f")
      case None
      then have "r = Inl SyntaxError" "xparb_ok H st'" using cr st' by simp_all
      then show ?thesis using Missing m None st' by (simp add: dateFormat_def format_value_def)
    next
      case (Some codes)
      then have r: "r = Inr ()" "xparb_ok H st'" "formatFunctions st' f = Some (''format'' @ show_nat (format_count st))" using cr st' by simp_all
      then have "lookup_entry H (formatFunctions st') f = Func (''format'' @ show_nat (format_count st))" using m by (simp add: lookup_func)
      then show ?thesis using run [OF r(2,3)] Missing m Some st' r by (simp add: dateFormat_def format_value_def)
    qed
  qed (use assms in \<open>auto simp: dateFormat_def format_value_def lookup_entry_def split: if_splits option.splits\<close>)
  then show "fst (dateFormat H f t st) = format_value H f t (formatFunctions st f \<noteq> None)" "xparb_ok H (snd (dateFormat H f t st))" by auto
qed

lemma parseDate_value:
  assumes "xparb_ok H st"
  shows "fst (parseDate H input f st) = parse_value H input f (parseFunctions st f \<noteq> None)" "xparb_ok H (snd (parseDate H input f st))"
proof -
  let ?run = "\<lambda>st' g. case parse_code st' g of Some (n, codes) \<Rightarrow> (parse_body H (parseRegexes st' ! n) codes input, st') | None \<Rightarrow> (throw TypeError, st')"
  have run: "?run st' g = (case compile_parser H f of None \<Rightarrow> throw TypeError | Some (r, codes) \<Rightarrow> parse_body H r codes input, st')"
    if st': "xparb_ok H st'" "parseFunctions st' f = Some g" for st' g
  proof -
    have "parser_entry H (parseRegexes st') f (parse_code st' g)" using st' table_good unfolding xparb_ok_def by blast
    then show ?thesis by (auto simp: parser_entry_def split: option.splits)
  qed
  have "fst (parseDate H input f st) = parse_value H input f (parseFunctions st f \<noteq> None) \<and> xparb_ok H (snd (parseDate H input f st))"
  proof (cases "lookup_entry H (parseFunctions st) f")
    case (Func g)
    then have g: "parseFunctions st f = Some g" "f \<noteq> ''count''" by (simp_all add: lookup_func)
    show ?thesis using run [OF assms g(1)] Func g assms by (simp add: parseDate_def parse_value_def)
  next
    case Missing
    then have m: "parseFunctions st f = None" "f \<noteq> ''count''" "\<not> inherited H f" using lookup_missing by blast+
    note cr = createParser_ok [OF assms m(1)]
    obtain r st' where st': "createParser H f st = (r, st')" by fastforce
    show ?thesis
    proof (cases "compile_parser H f")
      case None
      then have "r = Inl SyntaxError" "xparb_ok H st'" using cr st' by simp_all
      then show ?thesis using Missing m None st' by (simp add: parseDate_def parse_value_def)
    next
      case (Some c)
      then have r: "r = Inr ()" "xparb_ok H st'" "parseFunctions st' f = Some (''parse'' @ show_nat (parse_count st))" using cr st' by simp_all
      then have "lookup_entry H (parseFunctions st') f = Func (''parse'' @ show_nat (parse_count st))" using m by (simp add: lookup_func)
      then show ?thesis using run [OF r(2,3)] Missing m Some st' r by (simp add: parseDate_def parse_value_def)
    qed
  qed (use assms in \<open>auto simp: parseDate_def parse_value_def lookup_entry_def split: if_splits option.splits\<close>)
  then show "fst (parseDate H input f st) = parse_value H input f (parseFunctions st f \<noteq> None)" "xparb_ok H (snd (parseDate H input f st))" by auto
qed

text \<open>The states of a page that formats and parses dates.\<close>

inductive reached :: "'h xhost_scheme \<Rightarrow> xparb \<Rightarrow> bool" for H where
  start: "reached H init_xparb"
| formats: "reached H st \<Longrightarrow> reached H (snd (dateFormat H f t st))"
| parses: "reached H st \<Longrightarrow> reached H (snd (parseDate H input f st))"

lemma reached_ok: "reached H st \<Longrightarrow> xparb_ok H st"
  by (induction rule: reached.induct) (simp_all add: xparb_ok_init dateFormat_value parseDate_value)

text \<open>
  C12: The caches are transparent: after any sequence of formattings and parsings, formatting a date gives what the format means,
  and so does parsing, except that the second use of a format that does not compile throws a TypeError in place of
  the SyntaxError of the first, and that the name of an inherited property, or \<open>count\<close>, is never a format.
\<close>

theorem xparb_caches:
  assumes "reached H st"
  shows "fst (dateFormat H f t st) = format_value H f t (formatFunctions st f \<noteq> None) \<and>
    fst (parseDate H input g st) = parse_value H input g (parseFunctions st g \<noteq> None)"
  using dateFormat_value(1) [OF reached_ok [OF assms]] parseDate_value(1) [OF reached_ok [OF assms]] by blast

definition sample_xhost :: "int \<Rightarrow> xhost" where
  "sample_xhost c = \<lparr>tz_utc = (\<lambda>t. c), tz_local = (\<lambda>t. c), date_parse = sample_parse c, inherited = (\<lambda>s. s = ''toString''),
    date_string = (\<lambda>t. ''Mon Jan 01 2007 01:11:11 GMT+0100 (Central European Time)''), has_document = True, now_time = 0,
    other_regex = (\<lambda>s. None), num_string = (\<lambda>x. ''NaN'')\<rparr>"

text \<open>The second use of a format with a line break.\<close>

theorem xparb_caches_witness:
  "fst (dateFormat (sample_xhost 0) [CHR 0x0A] 0 (snd (dateFormat (sample_xhost 0) [CHR 0x0A] 0 init_xparb))) =
      format_value (sample_xhost 0) [CHR 0x0A] 0 (formatFunctions (snd (dateFormat (sample_xhost 0) [CHR 0x0A] 0 init_xparb)) [CHR 0x0A] \<noteq> None) \<and>
    fst (parseDate (sample_xhost 0) ''2007'' ''Y'' (snd (dateFormat (sample_xhost 0) [CHR 0x0A] 0 init_xparb))) =
      parse_value (sample_xhost 0) ''2007'' ''Y'' (parseFunctions (snd (dateFormat (sample_xhost 0) [CHR 0x0A] 0 init_xparb)) ''Y'' \<noteq> None)"
  by (rule xparb_caches) (intro reached.intros)

end
