(* ===== verification/Date_Xparb_Correct.thy ===== *)
theory Date_Xparb_Correct
  imports Date_Xparb_Cache
begin

text \<open>
  What the formatter of date-format-xparb.js prints: its calendar methods against the calendar of \<open>Js_Date\<close>, the formats of the
  benchmark against the other date program, the offset from Greenwich, the week, and the last day of the month.
\<close>


section \<open>The calendar of the methods\<close>

lemma js_rem_zero: "0 < k \<Longrightarrow> js_rem x k = 0 \<longleftrightarrow> x mod k = 0"
  by (simp add: js_rem_def mod_eq_0_iff_dvd)

lemma isLeapYear_leap: "getFullYear H t \<noteq> 0 \<Longrightarrow> isLeapYear H t \<longleftrightarrow> leap (getFullYear H t)"
  using js_and_mask [of 2 "getFullYear H t"] by (simp add: isLeapYear_def leap_def Let_def js_rem_zero)

lemma month_sum_table:
  "list_all (\<lambda>l. list_all (\<lambda>m. foldl (\<lambda>num i. num + [31, if l then 29 else 28, 31, 30, 31, 30, 31, 31, 30, 31, 30, 31] ! i) 0 [0..<m] = month_start l m) [0..<12]) [False, True]"
  by code_simp

lemma month_sum:
  "m < 12 \<Longrightarrow> foldl (\<lambda>num i. num + [31, if l then 29 else 28, 31, 30, 31, 30, 31, 31, 30, 31, 30, 31] ! i) 0 [0..<m] = month_start l m"
  using month_sum_table unfolding list_all_iff by (cases l) simp_all

lemma month_length_table2:
  "list_all (\<lambda>l. list_all (\<lambda>m. [31, if l then 29 else 28, 31, 30, 31, 30, 31, 31, 30, 31, 30, 31] ! m = month_start l (Suc m) - month_start l m) [0..<12]) [False, True]"
  by code_simp

lemma month_length:
  "m < 12 \<Longrightarrow> [31, if l then 29 else 28, 31, 30, 31, 30, 31, 31, 30, 31, 30, 31] ! m = month_start l (Suc m) - month_start l m"
  using month_length_table2 unfolding list_all_iff by (cases l) simp_all

lemma getDayOfYear_value:
  assumes "february_ok st" "getFullYear H t \<noteq> 0"
  shows "getDayOfYear H t st = (ok (day_in_year (local_day H t)), set_february H t st)"
proof -
  have "nat (getMonth H t) < 12" using getMonth_bounds [of H t] by simp
  then have "foldl (\<lambda>num i. num + daysInMonth (set_february H t st) ! i) 0 [0..<nat (getMonth H t)] = month_start (leap (getFullYear H t)) (nat (getMonth H t))"
    using month_sum isLeapYear_leap [OF assms(2)] by (simp only: february_set [OF assms(1)])
  then show ?thesis by (simp add: getDayOfYear_def getDate_def)
qed

lemma new_year_day:
  assumes "fixed_zone H c" "100 \<le> y"
  shows "local_day H (new_Date H y 0 1 0 0 0) = day_from_year y"
proof -
  have "local_time H (new_Date H y 0 1 0 0 0) = make_date (make_day y 0 1) 0"
    using assms by (simp add: new_Date_def fixed_local_utc full_year_def make_time_def)
  then show ?thesis by (simp add: local_day_def day_def make_date_def make_day_def month_start_def)
qed

lemma show_num_int: "show_num H (num_of i) = show_int i"
  by (simp add: show_num_def num_of_def)

text \<open>The week is a division without remainder.\<close>

lemma getWeekOfYear_value:
  assumes "fixed_zone H c" "100 \<le> getFullYear H t" "has_document H" "february_ok st"
    and "x = day_in_year (local_day H t)" "j = (day_from_year (getFullYear H t) + 4) mod 7"
  shows "fst (getWeekOfYear H t st) = ok (leftPad (show_int ((x + j) div 7)) 2 (CHR ''0''))"
proof -
  define y where "y = getFullYear H t"
  define q where "q = (x + j) div 7"
  have y0: "getFullYear H t \<noteq> 0" using assms(2) by simp
  have x: "0 \<le> x" "x \<le> 365" "local_day H t = day_from_year y + x"
    using day_in_year_bounds [of "local_day H t"] by (simp_all add: assms(5) day_in_year_def y_def getFullYear_def split: if_splits)
  have "getDay H t = (x + (day_from_year y + 4)) mod 7" by (simp add: getDay_def x(3) ac_simps)
  also have "\<dots> = (x + j) mod 7" by (simp add: assms(6) y_def mod_add_right_eq)
  finally have w: "x + j = 7 * q + getDay H t" by (simp add: q_def)
  have j: "0 \<le> j" "j < 7" by (simp_all add: assms(6))
  have "getDay H (new_Date H y 0 1 0 0 0) = j"
    unfolding getDay_def y_def new_year_day [OF assms(1,2)] by (simp add: assms(6))
  then have n: "x + (4 - getDay H t) - (7 - getDay H (new_Date H (getFullYear H t) 0 1 0 0 0) + 4) = (q - 1) * 7"
    using w by (simp add: y_def)
  have "\<bar>q\<bar> \<le> 53" using x j by (simp add: q_def)
  then have e: "exact (q - 1)" "exact (q - 1 + 1)" by (simp_all add: exact_def)
  have "show_num H (num_add (num_div (num_of ((q - 1) * 7)) (num_of 7)) (num_of 1)) = show_int q"
    using num_div_int [OF e(1), of 7] num_add_int [OF e(2)] by (simp add: show_num_int)
  then show ?thesis
    using assms(3) n getDayOfYear_value [OF assms(4) y0] assms(5) by (simp add: getWeekOfYear_def q_def Let_def)
qed

section \<open>Two digits\<close>

lemma leftPad_two: "leftPad [c] 2 d = [d, c]" "leftPad (a # b # s) 2 d = a # b # s"
  by (simp_all add: leftPad.simps)

lemma show_int_two:
  assumes "0 \<le> x" "x < 100"
  shows "show_int x = (if x < 10 then [char_of (48 + nat x)] else [char_of (48 + nat x div 10), char_of (48 + nat x mod 10)])"
proof -
  have "nat x div 10 < 10" "x < 10 \<longleftrightarrow> nat x < 10" using assms by auto
  then show ?thesis using assms by (simp add: show_int_def show_nat.simps [of "nat x"] show_nat_small)
qed

lemma pad2_zero_pad: "0 \<le> x \<Longrightarrow> x < 100 \<Longrightarrow> leftPad (show_int x) 2 (CHR ''0'') = to_str (zero_pad x)"
  by (simp add: zero_pad_def show_int_two leftPad_two)

text \<open>Two digits, always.\<close>

definition two_chars :: "int \<Rightarrow> string" where
  "two_chars x = [char_of (48 + nat x div 10), char_of (48 + nat x mod 10)]"

lemma two_chars_value: "0 \<le> x \<Longrightarrow> x < 100 \<Longrightarrow> digits_val (two_chars x) = x"
proof -
  assume x: "0 \<le> x" "x < 100"
  then have "digits_val (two_chars x) = 10 * int (nat x div 10) + int (nat x mod 10)"
    by (simp add: two_chars_def digits_val_def digit_val_def)
  also have "\<dots> = int (10 * (nat x div 10) + nat x mod 10)" by (simp only: of_nat_add of_nat_mult of_nat_numeral)
  also have "\<dots> = x" using x by (simp only: mult_div_mod_eq int_nat_eq) simp
  finally show ?thesis .
qed

lemma two_chars_inj: "0 \<le> x \<Longrightarrow> x < 100 \<Longrightarrow> 0 \<le> y \<Longrightarrow> y < 100 \<Longrightarrow> two_chars x = two_chars y \<longleftrightarrow> x = y"
  by (metis two_chars_value)

lemma zero_char: "char_of (48 :: nat) = CHR ''0''"
  by code_simp

lemma zero_pad_two: "0 \<le> x \<Longrightarrow> x < 100 \<Longrightarrow> to_str (zero_pad x) = two_chars x"
  by (simp add: zero_pad_def show_int_two two_chars_def zero_char)

section \<open>Formats without state\<close>

lemma format_value_plain:
  "f \<noteq> ''count'' \<Longrightarrow> \<not> inherited H f \<Longrightarrow> compile_format f = Some codes \<Longrightarrow>
    format_value H f t used = fst (eval_body H t codes init_xparb)"
  by (simp add: format_value_def)

lemma js_add_str [simp]: "js_add (JStr a) v = JStr (a @ to_str v)" "js_add v (JStr a) = JStr (to_str v @ a)"
  by (cases v; simp)+

lemma short_codes: "compile_format ''Y-m-d'' = Some [Code (CHR ''Y''), Quoted (CHR ''-''), Code (CHR ''m''), Quoted (CHR ''-''), Code (CHR ''d'')]"
  by code_simp

lemma long_codes: "compile_format ''l, F d, Y g:i:s A'' = Some [Code (CHR ''l''), Quoted (CHR '',''), Quoted (CHR '' ''), Code (CHR ''F''), Quoted (CHR '' ''),
    Code (CHR ''d''), Quoted (CHR '',''), Quoted (CHR '' ''), Code (CHR ''Y''), Quoted (CHR '' ''), Code (CHR ''g''), Quoted (CHR '':''), Code (CHR ''i''),
    Quoted (CHR '':''), Code (CHR ''s''), Quoted (CHR '' ''), Code (CHR ''A'')]"
  by code_simp

lemma month_two: "to_str (tf_m H t) = two_chars (getMonth H t + 1)"
proof -
  have "getMonth H t < 9 \<Longrightarrow> ''0'' @ show_int (getMonth H t + 1) = two_chars (getMonth H t + 1)"
    using getMonth_bounds [of H t] by (simp add: show_int_two two_chars_def zero_char)
  moreover have "\<not> getMonth H t < 9 \<Longrightarrow> show_int (getMonth H t + 1) = two_chars (getMonth H t + 1)"
    using getMonth_bounds [of H t] by (simp add: show_int_two two_chars_def)
  ultimately show ?thesis by (simp add: tf_m_def)
qed

lemma pad2_two: "0 \<le> x \<Longrightarrow> x < 100 \<Longrightarrow> pad2 x = JStr (two_chars x)"
  by (simp add: pad2_def pad2_zero_pad zero_pad_two)

lemma field_two:
  "pad2 (getMonth H t + 1) = JStr (two_chars (getMonth H t + 1))" "pad2 (getDate H t) = JStr (two_chars (getDate H t))"
  "pad2 (getHours H t) = JStr (two_chars (getHours H t))" "pad2 (getMinutes H t) = JStr (two_chars (getMinutes H t))"
  "pad2 (getSeconds H t) = JStr (two_chars (getSeconds H t))"
  "to_str (zero_pad (getDate H t)) = two_chars (getDate H t)"
  "to_str (zero_pad (getMinutes H t)) = two_chars (getMinutes H t)" "to_str (zero_pad (getSeconds H t)) = two_chars (getSeconds H t)"
  using getMonth_bounds [of H t] getDate_bounds [of H t] getHours_bounds [of H t] getMinutes_bounds [of H t] getSeconds_bounds [of H t]
  by (simp_all add: pad2_two zero_pad_two)

lemma xparb_short:
  "fst (eval_body H t [Code (CHR ''Y''), Quoted (CHR ''-''), Code (CHR ''m''), Quoted (CHR ''-''), Code (CHR ''d'')] st) =
    ok (JStr (show_int (getFullYear H t) @ ''-'' @ two_chars (getMonth H t + 1) @ ''-'' @ two_chars (getDate H t)))"
  by (simp add: eval_letter_def field_two)

lemma tofte_short:
  "formatDate n H ''Y-m-d'' None t =
    ok (show_int (tf_Y H t) @ ''-'' @ two_chars (getMonth H t + 1) @ ''-'' @ two_chars (getDate H t), t)"
  by (simp add: formatDate_def format_with_def switches_def tf_call_def tf_d_def field_two month_two)


definition long_text :: "'h host_scheme \<Rightarrow> int \<Rightarrow> int \<Rightarrow> string \<Rightarrow> string" where
  "long_text H t y hour =
    dayNames ! nat (getDay H t) @ '', '' @ monthNames ! nat (getMonth H t) @ '' '' @ two_chars (getDate H t) @ '', '' @ show_int y @ '' '' @
    hour @ '':'' @ two_chars (getMinutes H t) @ '':'' @ two_chars (getSeconds H t) @ '' '' @ (if getHours H t > 11 then ''PM'' else ''AM'')"

lemma xparb_long:
  "fst (eval_body H t [Code (CHR ''l''), Quoted (CHR '',''), Quoted (CHR '' ''), Code (CHR ''F''), Quoted (CHR '' ''),
    Code (CHR ''d''), Quoted (CHR '',''), Quoted (CHR '' ''), Code (CHR ''Y''), Quoted (CHR '' ''), Code (CHR ''g''), Quoted (CHR '':''), Code (CHR ''i''),
    Quoted (CHR '':''), Code (CHR ''s''), Quoted (CHR '' ''), Code (CHR ''A'')] st) =
    ok (JStr (long_text H t (getFullYear H t) (show_int (twelve (getHours H t)))))"
  by (simp add: eval_letter_def field_two long_text_def)

lemma tofte_long:
  "formatDate n H ''l, F d, Y g:i:s A'' None t =
    ok (long_text H t (tf_Y H t) (show_int (if getHours H t > 12 then getHours H t - 12 else getHours H t)), t)"
  by (simp add: formatDate_def format_with_def switches_def tf_call_def tf_l_def tf_F_def tf_d_def tf_g_def tf_i_def tf_s_def tf_A_def
      field_two long_text_def dayNames_def daysLong_def monthNames_def monthsLong_def)

lemma twelve_hours: "0 \<le> h \<Longrightarrow> h < 24 \<Longrightarrow> twelve h = (if h = 0 then 12 else if h > 12 then h - 12 else h)"
proof -
  assume h: "0 \<le> h" "h < 24"
  then consider "h < 12" | "h = 12" | "12 < h" by linarith
  then show ?thesis
  proof cases
    case 3
    then have "h mod 12 = h - 12" using h by (intro int_mod_pos_eq [of _ _ 1]) auto
    then show ?thesis using h 3 by (simp add: twelve_def js_rem_def)
  qed (use h in \<open>simp_all add: twelve_def js_rem_def\<close>)
qed

lemma hour_shown:
  "show_int (twelve (getHours H t)) = show_int (if getHours H t > 12 then getHours H t - 12 else getHours H t) \<longleftrightarrow> getHours H t \<noteq> 0"
proof (cases "getHours H t = 0")
  case True
  have "show_int 12 \<noteq> show_int 0" using show_int_inj [of 12 0] by auto
  then show ?thesis using True twelve_hours [of 0] by simp
next
  case False
  then show ?thesis using twelve_hours [OF getHours_bounds, of H t] by simp
qed

text \<open>Numbers have no blanks, so the texts determine the year and the hour.\<close>

lemma show_int_blank: "0 \<le> y \<Longrightarrow> CHR '' '' \<notin> set (show_int y)"
  using show_nat_digits [of "nat y"] by (auto simp: show_int_def list_all_iff is_digit_def)

lemma split_at_first: "x \<notin> set xs \<Longrightarrow> x \<notin> set xs' \<Longrightarrow> xs @ x # ys = xs' @ x # ys' \<longleftrightarrow> xs = xs' \<and> ys = ys'"
  by (auto simp: append_eq_append_conv2 Cons_eq_append_conv append_eq_Cons_conv)

lemma long_text_inj:
  assumes "0 \<le> y" "0 \<le> y'"
  shows "long_text H t y h = long_text H t y' h' \<longleftrightarrow> y = y' \<and> h = h'"
proof -
  define z where "z = '':'' @ two_chars (getMinutes H t) @ '':'' @ two_chars (getSeconds H t) @ '' '' @ (if getHours H t > 11 then ''PM'' else ''AM'')"
  have "long_text H t y h = long_text H t y' h' \<longleftrightarrow> show_int y @ CHR '' '' # h @ z = show_int y' @ CHR '' '' # h' @ z"
    by (simp add: long_text_def z_def)
  also have "\<dots> \<longleftrightarrow> show_int y = show_int y' \<and> h @ z = h' @ z"
    by (rule split_at_first [OF show_int_blank [OF assms(1)] show_int_blank [OF assms(2)]])
  finally show ?thesis using show_int_inj [OF assms] by auto
qed

lemma tf_Y_nonneg: "1900 \<le> getFullYear H t \<Longrightarrow> 0 \<le> tf_Y H t"
  by (auto simp: tf_Y_def Let_def getYear_def js_rem_def)

text \<open>
  C15: For a year from 1900 on, on a host that reads the date in \<open>Y\<close>: the two date programs print the same short dates exactly when
  \<open>Y\<close> shows the year, that is where Greenwich was not ahead on 1 January 2001 or from 1938 to 2037; and then the same long dates except
  in the hour after midnight, which the one shows as 12 and the other as 0. The formats are not names of inherited properties.
\<close>

theorem formatters_agree:
  assumes "reached H st" "date_parse H ''January 1 2001 00:00:00 +0000'' = greenwich_2001" "tz_utc H greenwich_2001 = c" "\<bar>c\<bar> < 525600"
    and "1900 \<le> getFullYear H t" "\<not> inherited H ''Y-m-d''" "\<not> inherited H ''l, F d, Y g:i:s A''"
  shows "(fst (dateFormat H ''Y-m-d'' t st) = rbind (formatDate n H ''Y-m-d'' None t) (\<lambda>(s, _). ok (JStr s)) \<longleftrightarrow>
      0 \<le> c \<or> 1938 \<le> getFullYear H t \<and> getFullYear H t \<le> 2037) \<and>
    (fst (dateFormat H ''l, F d, Y g:i:s A'' t st) = rbind (formatDate n H ''l, F d, Y g:i:s A'' None t) (\<lambda>(s, _). ok (JStr s)) \<longleftrightarrow>
      (0 \<le> c \<or> 1938 \<le> getFullYear H t \<and> getFullYear H t \<le> 2037) \<and> getHours H t \<noteq> 0)"
proof -
  note v = dateFormat_value(1) [OF reached_ok [OF assms(1)]]
  have y: "0 \<le> getFullYear H t" "0 \<le> tf_Y H t" using assms(5) tf_Y_nonneg [of H t] by simp_all
  have s: "show_int (getFullYear H t) = show_int (tf_Y H t) \<longleftrightarrow> tf_Y H t = getFullYear H t" using show_int_inj [OF y] by auto
  have "tf_Y H t = getFullYear H t \<longleftrightarrow> 0 \<le> c \<or> 1938 \<le> getFullYear H t \<and> getFullYear H t \<le> 2037"
    using assms(5) by (intro year_shown [OF assms(2-4)]) simp
  moreover have "fst (dateFormat H ''Y-m-d'' t st) = rbind (formatDate n H ''Y-m-d'' None t) (\<lambda>(s, _). ok (JStr s)) \<longleftrightarrow> tf_Y H t = getFullYear H t"
    using assms(6) s by (simp add: v format_value_plain short_codes xparb_short tofte_short del: eval_body.simps eval_sum.simps)
  moreover have "fst (dateFormat H ''l, F d, Y g:i:s A'' t st) = rbind (formatDate n H ''l, F d, Y g:i:s A'' None t) (\<lambda>(s, _). ok (JStr s)) \<longleftrightarrow>
      tf_Y H t = getFullYear H t \<and> getHours H t \<noteq> 0"
    using assms(7) hour_shown [of H t]
    by (auto simp add: v format_value_plain long_codes xparb_long tofte_long long_text_inj [OF y] simp del: eval_body.simps eval_sum.simps)
  ultimately show ?thesis by blast
qed

text \<open>A date of 2040, five hours west of Greenwich, which the one program puts into 1940.\<close>

theorem formatters_agree_witness:
  "(fst (dateFormat (sample_xhost (-300)) ''Y-m-d'' 2240611200000 init_xparb) =
      rbind (formatDate 2 (sample_xhost (-300)) ''Y-m-d'' None 2240611200000) (\<lambda>(s, _). ok (JStr s)) \<longleftrightarrow>
      0 \<le> (-300 :: int) \<or> 1938 \<le> getFullYear (sample_xhost (-300)) 2240611200000 \<and> getFullYear (sample_xhost (-300)) 2240611200000 \<le> 2037) \<and>
    (fst (dateFormat (sample_xhost (-300)) ''l, F d, Y g:i:s A'' 2240611200000 init_xparb) =
      rbind (formatDate 2 (sample_xhost (-300)) ''l, F d, Y g:i:s A'' None 2240611200000) (\<lambda>(s, _). ok (JStr s)) \<longleftrightarrow>
      (0 \<le> (-300 :: int) \<or> 1938 \<le> getFullYear (sample_xhost (-300)) 2240611200000 \<and> getFullYear (sample_xhost (-300)) 2240611200000 \<le> 2037) \<and>
      getHours (sample_xhost (-300)) 2240611200000 \<noteq> 0)"
proof (rule formatters_agree [OF reached.start])
  show "date_parse (sample_xhost (-300)) ''January 1 2001 00:00:00 +0000'' = greenwich_2001" by code_simp
  show "tz_utc (sample_xhost (-300)) greenwich_2001 = -300" by code_simp
  show "1900 \<le> getFullYear (sample_xhost (-300)) 2240611200000" by code_simp
qed (simp_all add: sample_xhost_def)

section \<open>Offsets from Greenwich\<close>

text \<open>RFC 2822: the sign, two digits of hours and two of minutes ahead of Greenwich; \<open>-0000\<close> is not the zone of Greenwich.\<close>

definition zone_text :: "int \<Rightarrow> string" where
  "zone_text c = (if c < 0 then ''-'' else ''+'') @ two_chars (\<bar>c\<bar> div 60) @ two_chars (\<bar>c\<bar> mod 60)"

text \<open>
  For a zone \<open>c\<close> minutes ahead of Greenwich the letter O of the one program is right exactly when \<open>c\<close> is not zero, that of the
  other exactly when \<open>c\<close> is not positive.
\<close>

theorem offset_letters:
  assumes "tz_utc H t = c" "\<bar>c\<bar> < 6000"
  shows "(tf_O H t = JStr (zone_text c) \<longleftrightarrow> c \<noteq> 0) \<and> (getGMTOffset H t = zone_text c \<longleftrightarrow> c \<le> 0)"
proof -
  have b: "0 \<le> \<bar>c\<bar> div 60" "\<bar>c\<bar> div 60 < 100" "0 \<le> \<bar>c\<bar> mod 60" "\<bar>c\<bar> mod 60 < 60"
    using assms(2) by (auto simp: pos_imp_zdiv_nonneg_iff)
  have z: "(if length (show_int x) = 1 then ''0'' @ show_int x else show_int x) = two_chars x" if "0 \<le> x" "x < 100" for x
    using zero_pad_two [OF that] by (simp add: zero_pad_def split: if_splits)
  have O: "tf_O H t = JStr ((if - c < 0 then ''+'' else ''-'') @ two_chars (\<bar>c\<bar> div 60) @ two_chars (\<bar>c\<bar> mod 60))"
    using z [OF b(1,2)] z [of "\<bar>c\<bar> mod 60"] b(3,4) by (simp add: tf_O_def Let_def getTimezoneOffset_def assms(1))
  have p: "leftPad (show_int x) 2 (CHR ''0'') = two_chars x" if "0 \<le> x" "x < 100" for x
    using that by (simp add: pad2_zero_pad zero_pad_two)
  have "getGMTOffset H t = zone_text c \<longleftrightarrow> c \<le> 0"
  proof (cases "c \<le> 0")
    case True
    then have "getTimezoneOffset H t div 60 = \<bar>c\<bar> div 60" "js_rem (getTimezoneOffset H t) 60 = \<bar>c\<bar> mod 60" "getTimezoneOffset H t > 0 \<longleftrightarrow> c < 0"
      by (auto simp: getTimezoneOffset_def assms(1) js_rem_def)
    then show ?thesis using True p [OF b(1,2)] p [of "\<bar>c\<bar> mod 60"] b(3,4) by (simp add: getGMTOffset_def zone_text_def)
  next
    case False
    then have "getTimezoneOffset H t div 60 < 0" by (simp add: getTimezoneOffset_def assms(1))
    then obtain r where r: "show_int (getTimezoneOffset H t div 60) = CHR ''-'' # r" "r \<noteq> []" by (simp add: show_int_def)
    then obtain a s where "r = a # s" by (cases r) auto
    then have "getGMTOffset H t ! 1 = CHR ''-''" using r False by (simp add: getGMTOffset_def leftPad_two getTimezoneOffset_def assms(1))
    moreover have "zone_text c ! 1 = char_of (48 + nat (\<bar>c\<bar> div 60) div 10)" using False by (simp add: zone_text_def two_chars_def)
    moreover have "char_of (48 + nat (\<bar>c\<bar> div 60) div 10) \<noteq> CHR ''-''"
    proof -
      have "nat (\<bar>c\<bar> div 60) div 10 < 10" using b by auto
      then have "is_digit (char_of (48 + nat (\<bar>c\<bar> div 60) div 10))" by (simp add: is_digit_def)
      then show ?thesis using digits_not_sign by blast
    qed
    ultimately show ?thesis using False by auto
  qed
  then show ?thesis using O by (auto simp: zone_text_def)
qed

theorem offset_letters_witness:
  "(tf_O (sample_xhost 330) 0 = JStr (zone_text 330) \<longleftrightarrow> (330 :: int) \<noteq> 0) \<and> (getGMTOffset (sample_xhost 330) 0 = zone_text 330 \<longleftrightarrow> (330 :: int) \<le> 0)"
  by (rule offset_letters) (simp_all add: sample_xhost_def)

section \<open>The week of the year\<close>

lemma iso_week_monday_to_thursday:
  assumes "d = local_day H t" "x = day_in_year d" "j = (day_from_year (getFullYear H t) + 4) mod 7" "1 \<le> j" "j \<le> 4"
  shows "(x + j) div 7 = iso_week d \<longleftrightarrow> getDay H t = 0"
proof -
  define y n w where "y = getFullYear H t" and "n = iso_weekday (day_from_year y)" and "w = iso_weekday d"
  have x: "0 \<le> x" "d = day_from_year y + x" "x < day_from_year (y + 1) - day_from_year y"
    using day_in_year_bounds [of d] year_length [of y] by (simp_all add: assms(1,2) day_in_year_def y_def getFullYear_def)
  have n: "n = j - 1"
  proof -
    have "(day_from_year y + 3) mod 7 = (day_from_year y + 4) mod 7 - 1" using assms(3,4) unfolding y_def by presburger
    then show ?thesis by (simp add: n_def iso_weekday_def assms(3) y_def)
  qed
  obtain q where q: "x + n = 7 * q + w" "0 \<le> q" using weekday_in_year [OF x(2,1)] by (auto simp: n_def w_def)
  have w: "0 \<le> w" "w < 7" by (simp_all add: w_def iso_weekday_bounds)
  have sunday: "getDay H t = 0 \<longleftrightarrow> w = 6"
    using monday_weekday [of H t] getDay_bounds [of H t] by (simp add: w_def assms(1) split: if_splits)
  have "x + j = 7 * q + (w + 1)" using q(1) n by simp
  then have v: "(x + j) div 7 = (if w = 6 then q + 1 else q)" using w by (auto intro: int_div_pos_eq)
  show ?thesis
  proof (cases "x - w + 3 < day_from_year (y + 1) - day_from_year y")
    case True
    have "0 \<le> x - w + 3" using q n w assms(5) by linarith
    then have "iso_week d = (x - w + 3) div 7 + 1" using iso_week_same_year [OF x(2)] True by (simp add: w_def)
    moreover have "(x - w + 3) div 7 = q" using q(1) n assms(4,5) by (intro int_div_pos_eq [where r = "3 - n"]) auto
    ultimately show ?thesis using v sunday by auto
  next
    case False
    then have "iso_week d = 1" using x by (intro iso_week_next_year [OF x(2,1,3)]) (simp add: w_def)
    moreover have "362 \<le> x" using False year_length [of y] w by (simp split: if_splits)
    moreover have "w \<noteq> 6" using False x(3) by auto
    ultimately show ?thesis using v sunday q(1) n assms(4) w by auto
  qed
qed

lemma week_codes: "compile_format ''W'' = Some [Code (CHR ''W'')]"
  by code_simp

text \<open>
  The letter W prints the whole weeks since the Sunday on or before the new year, in two digits. In a year that begins on a Monday
  to Thursday this is the ISO 8601 week on Sundays and one that is wrong on every other day.
\<close>

theorem xparb_week:
  assumes "fixed_zone H c" "reached H st" "has_document H" "\<not> inherited H ''W''" "100 \<le> getFullYear H t"
    and "x = day_in_year (local_day H t)" "j = (day_from_year (getFullYear H t) + 4) mod 7" "1 \<le> j" "j \<le> 4"
  shows "fst (dateFormat H ''W'' t st) = ok (JStr (two_chars ((x + j) div 7))) \<and>
    (two_chars ((x + j) div 7) = two_chars (iso_week (local_day H t)) \<longleftrightarrow> getDay H t = 0)"
proof -
  have x: "0 \<le> x" "x \<le> 365" using day_in_year_bounds [of "local_day H t"] by (simp_all add: assms(6) split: if_splits)
  have q: "0 \<le> (x + j) div 7" "(x + j) div 7 < 100" using x assms(8,9) by (auto simp: pos_imp_zdiv_nonneg_iff)
  have i: "1 \<le> iso_week (local_day H t)" "iso_week (local_day H t) < 100"
    using iso_week_pos day_in_year_bounds(2) [of "local_day H t - iso_weekday (local_day H t) + 3"] by (auto simp: iso_week_def split: if_splits)
  have "two_chars ((x + j) div 7) = two_chars (iso_week (local_day H t)) \<longleftrightarrow> getDay H t = 0"
    using iso_week_monday_to_thursday [OF refl assms(6-9)] q i by (simp add: two_chars_inj)
  moreover have "fst (eval_body H t [Code (CHR ''W'')] init_xparb) = ok (JStr (two_chars ((x + j) div 7)))"
  proof -
    have "fst (getWeekOfYear H t init_xparb) = ok (two_chars ((x + j) div 7))"
      using getWeekOfYear_value [OF assms(1,5,3) february_init assms(6,7)] q by (simp add: pad2_zero_pad zero_pad_two)
    then show ?thesis by (cases "getWeekOfYear H t init_xparb") (simp add: eval_letter_def)
  qed
  ultimately show ?thesis
    using assms(4) by (simp add: dateFormat_value(1) [OF reached_ok [OF assms(2)]] format_value_plain week_codes del: eval_body.simps)
qed


text \<open>Tuesday, 2 January 2007.\<close>

theorem xparb_week_witness:
  "fst (dateFormat (sample_xhost 0) ''W'' 1167735600000 init_xparb) = ok (JStr (two_chars ((1 + 1) div 7))) \<and>
    (two_chars ((1 + 1) div 7) = two_chars (iso_week (local_day (sample_xhost 0) 1167735600000)) \<longleftrightarrow> getDay (sample_xhost 0) 1167735600000 = 0)"
proof (rule xparb_week [OF _ reached.start, where c = 0])
  show "100 \<le> getFullYear (sample_xhost 0) 1167735600000" "1 = day_in_year (local_day (sample_xhost 0) 1167735600000)"
    "1 = (day_from_year (getFullYear (sample_xhost 0) 1167735600000) + 4) mod 7" by code_simp+
qed (simp_all add: sample_xhost_def fixed_zone_def)

section \<open>The last day of the month\<close>

text \<open>
  \<open>getLastDayOfMonth\<close> does not set the length of February first: it is the weekday of the last day of the month exactly when the
  month is not February or the length of February in the shared table is that of the date's own year.
\<close>

theorem last_day_of_month:
  assumes "february_ok st" "k = month_start (leap (getFullYear H t)) (Suc (nat (getMonth H t))) - month_start (leap (getFullYear H t)) (nat (getMonth H t))"
    "daysInMonth st ! 1 \<in> {28, 29}"
  shows "getLastDayOfMonth H t st = (local_day H t + (k - getDate H t) + 4) mod 7 \<longleftrightarrow>
    getMonth H t \<noteq> 1 \<or> daysInMonth st ! 1 = k"
proof -
  define m where "m = nat (getMonth H t)"
  have m: "m < 12" "getMonth H t = int m" using getMonth_bounds [of H t] by (simp_all add: m_def)
  define a where "a = daysInMonth st ! m - getDate H t"
  define l where "l = leap (getFullYear H t)"
  obtain f where f: "daysInMonth st = [31, f, 31, 30, 31, 30, 31, 31, 30, 31, 30, 31]" using assms(1) by (auto simp: february_ok_def)
  have k: "k = [31, if l then 29 else 28, 31, 30, 31, 30, 31, 31, 30, 31, 30, 31] ! m" using month_length [OF m(1)] assms(2) by (simp add: l_def m_def)
  have norm: "(let day = js_rem z 7 in if day < 0 then day + 7 else day) = z mod 7" for z
  proof (cases "z < 0")
    case True
    have "z mod 7 = (if - z mod 7 = 0 then 0 else 7 - - z mod 7)" by presburger
    moreover have "0 \<le> - z mod 7" by simp
    ultimately show ?thesis using True by (auto simp: js_rem_def Let_def)
  qed (simp add: js_rem_def Let_def)
  have G: "getLastDayOfMonth H t st = (local_day H t + a + 4) mod 7"
    unfolding getLastDayOfMonth_def norm getDay_def by (simp add: a_def m_def mod_add_right_eq ac_simps)
  show ?thesis
  proof (cases "m = 1")
    case False
    then have "daysInMonth st ! m = k" unfolding f k using m(1) by (simp add: nth_Cons')
    then show ?thesis using G False m(2) by (simp add: a_def)
  next
    case True
    have "k \<in> {28, 29}" using True by (simp add: k)
    moreover have "daysInMonth st ! m \<in> {28, 29}" using assms(3) True by simp
    moreover define u where "u = local_day H t - getDate H t + 4"
    have "local_day H t + a + 4 = u + daysInMonth st ! m" "local_day H t + (k - getDate H t) + 4 = u + k" by (simp_all add: a_def u_def)
    moreover have "(u + 28) mod 7 \<noteq> (u + 29) mod 7" by presburger
    ultimately have "getLastDayOfMonth H t st = (local_day H t + (k - getDate H t) + 4) mod 7 \<longleftrightarrow> daysInMonth st ! m = k"
      unfolding G by auto
    then show ?thesis using True m(2) by simp
  qed
qed

text \<open>29 February 2008 with the table as it is at the start.\<close>

theorem last_day_of_month_witness:
  "getLastDayOfMonth (sample_xhost 0) 1204243200000 init_xparb = (local_day (sample_xhost 0) 1204243200000 + (29 - getDate (sample_xhost 0) 1204243200000) + 4) mod 7 \<longleftrightarrow>
    getMonth (sample_xhost 0) 1204243200000 \<noteq> 1 \<or> daysInMonth init_xparb ! 1 = 29"
proof (rule last_day_of_month [OF february_init])
  show "29 = month_start (leap (getFullYear (sample_xhost 0) 1204243200000)) (Suc (nat (getMonth (sample_xhost 0) 1204243200000))) -
    month_start (leap (getFullYear (sample_xhost 0) 1204243200000)) (nat (getMonth (sample_xhost 0) 1204243200000))" by code_simp
qed (simp add: init_xparb_def)

end
