(* ===== verification/Date_Xparb_Roundtrip.thy ===== *)
theory Date_Xparb_Roundtrip
  imports Date_Xparb_Correct
begin

text \<open>
  The parser of date-format-xparb.js reads back what its formatter printed: the first choices of the matcher on a text of digits and
  separators, the numbers in its captures, and the date they make.
\<close>


section \<open>First choices of the matcher\<close>

text \<open>The first way to match: choices compose, because a later part only asks for another one when it fails.\<close>

definition heads :: "regex \<Rightarrow> mstate \<Rightarrow> mstate \<Rightarrow> bool" where
  "heads r x y \<longleftrightarrow> (\<exists>ys. re_match r x = y # ys)"

lemma heads_cat: "heads r x y \<Longrightarrow> heads s y z \<Longrightarrow> heads (Cat r s) x z"
  by (auto simp: heads_def)

lemma heads_group: "heads r (i, s, k) (j, s', k') \<Longrightarrow> heads (Group n r) (i, s, k) (j, s', k'(n \<mapsto> take (j - i) s))"
  by (auto simp: heads_def)

lemma heads_simple: "heads Empty x x" "heads (Chr c) (i, c # s, k) (Suc i, s, k)" "heads Bol (0, s, k) (0, s, k)" "heads Eol (i, [], k) (i, [], k)"
  by (simp_all add: heads_def step_char_def)

lemma digit_step: "is_digit c \<Longrightarrow> re_match digit_class (i, c # s, k) = [(Suc i, s, k)]"
  by (simp add: digit_class_def step_char_def is_digit_def)

lemma repeat_digits:
  assumes "list_all is_digit ds" "length ds < n" "lo \<le> length ds"
  shows "\<exists>ys. re_repeat n (\<lambda>y. re_match digit_class (reset_groups [] y)) True lo (Some (length ds)) (i, ds @ s, k) = (i + length ds, s, k) # ys"
  using assms
proof (induction ds arbitrary: n lo i)
  case Nil
  then show ?case by (cases n) auto
next
  case (Cons d ds)
  then obtain n' where n: "n = Suc n'" "length ds < n'" by (cases n) auto
  have "reset_groups [] y = y" for y by (simp add: reset_groups_def split: prod.splits)
  moreover have "\<exists>ys. re_repeat n' (\<lambda>y. re_match digit_class (reset_groups [] y)) True (lo - 1) (Some (length ds)) (Suc i, ds @ s, k) =
      (Suc i + length ds, s, k) # ys"
    using Cons.prems n by (intro Cons.IH) auto
  ultimately show ?case using Cons.prems(1) by (auto simp: n(1) digit_step Let_def)
qed

lemma heads_digits:
  assumes "list_all is_digit ds" "lo \<le> length ds" "length ds = h"
  shows "heads (Rep True lo (Some h) digit_class) (i, ds @ s, k) (i + h, s, k)"
proof -
  have "re_groups digit_class = []" by (simp add: digit_class_def)
  then show ?thesis using repeat_digits [OF assms(1), of "Suc (lo + length (ds @ s))" lo i s k] assms(2,3) by (simp add: heads_def)
qed

text \<open>A group of digits.\<close>

lemma heads_digit_group:
  assumes "list_all is_digit ds" "lo \<le> length ds" "length ds = h"
  shows "heads (Group n (Cat (Rep True lo (Some h) digit_class) Empty)) (i, ds @ s, k) (i + h, s, k(n \<mapsto> ds))"
proof -
  have "heads (Cat (Rep True lo (Some h) digit_class) Empty) (i, ds @ s, k) (i + h, s, k)"
    by (rule heads_cat [OF heads_digits [OF assms] heads_simple(1)])
  then show ?thesis using heads_group [of _ i "ds @ s" k "i + h" s k n] assms(3) by simp
qed

text \<open>The steps through a sequence.\<close>

lemma heads_steps:
  "heads r (0, s, k) z \<Longrightarrow> heads (Cat Bol r) (0, s, k) z"
  "heads r (Suc i, s, k) z \<Longrightarrow> heads (Cat (Chr c) r) (i, c # s, k) z"
  "(i, [], k) = z \<Longrightarrow> heads (Cat Eol Empty) (i, [], k) z"
  using heads_cat [OF heads_simple(3)] heads_cat [OF heads_simple(2)] heads_cat [OF heads_simple(4) heads_simple(1)] by blast+

lemma heads_group_step:
  "heads r (i + h, s, k(n \<mapsto> ds)) z \<Longrightarrow> list_all is_digit ds \<Longrightarrow> length ds = h \<Longrightarrow> lo \<le> h \<Longrightarrow>
    heads (Cat (Group n (Cat (Rep True lo (Some h) digit_class) Empty)) r) (i, ds @ s, k) z"
  by (rule heads_cat [OF heads_digit_group]) auto

lemma heads_exec:
  assumes "heads r (0, s, Map.empty) (j, s', k)"
  shows "re_exec r s = Some (0, j, k)"
  using assms by (cases s) (auto simp: heads_def re_exec_def)

section \<open>Parsing what was formatted\<close>

definition iso_format :: string where
  "iso_format = ''Y-m-d H:i:s''"

definition iso_regex :: regex where
  "iso_regex =
    (let two = (\<lambda>lo. Cat (Rep True lo (Some 2) digit_class) Empty)
     in re_seq [Bol, Group 1 (Cat (Rep True 4 (Some 4) digit_class) Empty), Chr (CHR ''-''), Group 2 (two 1), Chr (CHR ''-''), Group 3 (two 1), Chr (CHR '' ''),
          Group 4 (two 1), Chr (CHR '':''), Group 5 (two 2), Chr (CHR '':''), Group 6 (two 2), Eol])"

lemma iso_parser: "compile_parser H iso_format = Some (iso_regex, [SetYear 1, SetMonth 2, SetDay 3, SetHour 4, SetMinute 5, SetSecond 6])"
proof -
  have "fst (parser_codes False 1 iso_format) = [SetYear 1, SetMonth 2, SetDay 3, SetHour 4, SetMinute 5, SetSecond 6]"
    "read_regex (''^'' @ snd (parser_codes False 1 iso_format) @ ''$'') = Some iso_regex"
    by code_simp+
  then show ?thesis by (cases "parser_codes False 1 iso_format") (simp add: compile_parser_def newRegExp_def)
qed

lemma iso_codes: "compile_format iso_format = Some [Code (CHR ''Y''), Quoted (CHR ''-''), Code (CHR ''m''), Quoted (CHR ''-''), Code (CHR ''d''),
    Quoted (CHR '' ''), Code (CHR ''H''), Quoted (CHR '':''), Code (CHR ''i''), Quoted (CHR '':''), Code (CHR ''s'')]"
  by code_simp

definition iso_text :: "string \<Rightarrow> int \<Rightarrow> int \<Rightarrow> int \<Rightarrow> int \<Rightarrow> int \<Rightarrow> string" where
  "iso_text y m d h i s = y @ CHR ''-'' # two_chars m @ CHR ''-'' # two_chars d @ CHR '' '' # two_chars h @ CHR '':'' # two_chars i @ CHR '':'' # two_chars s"

lemma two_chars_digits: "0 \<le> x \<Longrightarrow> x < 100 \<Longrightarrow> list_all is_digit (two_chars x)" "length (two_chars x) = 2" "two_chars x \<noteq> []"
proof -
  assume "0 \<le> x" "x < 100"
  then have "nat x div 10 < 10" "nat x mod 10 < 10" by auto
  then show "list_all is_digit (two_chars x)" by (simp add: two_chars_def is_digit_def)
qed (simp_all add: two_chars_def)

lemma iso_match:
  assumes "list_all is_digit y" "length y = 4" "0 \<le> m" "m < 100" "0 \<le> d" "d < 100" "0 \<le> h" "h < 100" "0 \<le> i" "i < 100" "0 \<le> s" "s < 100"
  shows "re_exec iso_regex (iso_text y m d h i s) =
    Some (0, 19, [1 \<mapsto> y, 2 \<mapsto> two_chars m, 3 \<mapsto> two_chars d, 4 \<mapsto> two_chars h, 5 \<mapsto> two_chars i, 6 \<mapsto> two_chars s])"
proof -
  define z where "z = (19 :: nat, [] :: string, [1 :: nat \<mapsto> y, 2 \<mapsto> two_chars m, 3 \<mapsto> two_chars d, 4 \<mapsto> two_chars h, 5 \<mapsto> two_chars i, 6 \<mapsto> two_chars s])"
  have t: "iso_text y m d h i s = y @ CHR ''-'' # two_chars m @ CHR ''-'' # two_chars d @ CHR '' '' # two_chars h @ CHR '':'' # two_chars i @ CHR '':'' # two_chars s @ []"
    by (simp add: iso_text_def)
  have "heads iso_regex (0, iso_text y m d h i s, Map.empty) z"
    unfolding t iso_regex_def Let_def re_seq.simps
    by (intro heads_steps heads_group_step) (use assms in \<open>simp_all add: two_chars_digits z_def\<close>)
  then show ?thesis unfolding z_def by (rule heads_exec)
qed

lemma year_digits: "1000 \<le> y \<Longrightarrow> y \<le> 9999 \<Longrightarrow> list_all is_digit (show_int y) \<and> length (show_int y) = 4"
  using show_nat_digits [of "nat y"] length_show_nat [of "nat y" 3] by (simp add: show_int_def)

lemma group_number: "0 \<le> x \<Longrightarrow> x < 100 \<Longrightarrow> parse_group (Some (two_chars x)) = Some x"
  by (simp add: parse_group_def parseInt_digits two_chars_digits two_chars_value)

lemma group_year: "1000 \<le> y \<Longrightarrow> y \<le> 9999 \<Longrightarrow> parse_group (Some (show_int y)) = Some y"
proof -
  assume y: "1000 \<le> y" "y \<le> 9999"
  then have "list_all is_digit (show_int y)" "show_int y \<noteq> []" using year_digits [of y] by auto
  then show ?thesis using parseInt_digits [of "show_int y"] y by (simp add: parse_group_def digits_val_show_int)
qed

lemma iso_formatted:
  "fst (eval_body H t [Code (CHR ''Y''), Quoted (CHR ''-''), Code (CHR ''m''), Quoted (CHR ''-''), Code (CHR ''d''),
    Quoted (CHR '' ''), Code (CHR ''H''), Quoted (CHR '':''), Code (CHR ''i''), Quoted (CHR '':''), Code (CHR ''s'')] st) =
    ok (JStr (iso_text (show_int (getFullYear H t)) (getMonth H t + 1) (getDate H t) (getHours H t) (getMinutes H t) (getSeconds H t)))"
  by (simp add: eval_letter_def field_two iso_text_def)

text \<open>
  C11: In a zone without daylight saving and in years of four digits, \<open>parseDate\<close> reads back what \<open>dateFormat\<close> printed with the pattern
  \<open>Y-m-d H:i:s\<close>: the same time without its milliseconds.
\<close>

theorem parse_format:
  assumes "fixed_zone H c" "reached H st" "\<not> inherited H ''Y-m-d H:i:s''" "1000 \<le> getFullYear H t" "getFullYear H t \<le> 9999"
  shows "\<exists>s. fst (dateFormat H ''Y-m-d H:i:s'' t st) = ok (JStr s) \<and>
    fst (parseDate H s ''Y-m-d H:i:s'' (snd (dateFormat H ''Y-m-d H:i:s'' t st))) = ok (Some (t - t mod 1000))"
proof -
  define s where "s = iso_text (show_int (getFullYear H t)) (getMonth H t + 1) (getDate H t) (getHours H t) (getMinutes H t) (getSeconds H t)"
  define st' where "st' = snd (dateFormat H iso_format t st)"
  have st': "reached H st'" unfolding st'_def by (rule reached.formats [OF assms(2)])
  have f: "iso_format \<noteq> ''count''" "\<not> inherited H iso_format" using assms(3) by (simp_all add: iso_format_def)
  have F: "fst (dateFormat H iso_format t st) = ok (JStr s)"
    unfolding dateFormat_value(1) [OF reached_ok [OF assms(2)]] format_value_plain [OF f iso_codes] s_def by (rule iso_formatted)
  note b = getMonth_bounds [of H t] getDate_bounds [of H t] getHours_bounds [of H t] getMinutes_bounds [of H t] getSeconds_bounds [of H t]
  have m: "re_exec iso_regex s = Some (0, 19, [1 \<mapsto> show_int (getFullYear H t), 2 \<mapsto> two_chars (getMonth H t + 1), 3 \<mapsto> two_chars (getDate H t),
    4 \<mapsto> two_chars (getHours H t), 5 \<mapsto> two_chars (getMinutes H t), 6 \<mapsto> two_chars (getSeconds H t)])"
    unfolding s_def by (rule iso_match) (use b year_digits [OF assms(4,5)] in simp_all)
  have "local_time H t mod 1000 = t mod 1000"
  proof -
    have "t + 60000 * c = t + (60 * c) * 1000" by simp
    then show ?thesis unfolding fixed_local [OF assms(1)] by (simp only: mod_mult_self1)
  qed
  then have d: "new_Date H (getFullYear H t) (getMonth H t) (getDate H t) (getHours H t) (getMinutes H t) (getSeconds H t) = t - t mod 1000"
    using new_Date_fields [OF assms(1)] assms(4) by simp
  have "parse_body H iso_regex [SetYear 1, SetMonth 2, SetDay 3, SetHour 4, SetMinute 5, SetSecond 6] s = ok (Some (t - t mod 1000))"
    unfolding parse_body_def m using b group_year [OF assms(4,5)] assms(4)
    by (simp add: group_number parsed_date_def positive_def nonneg_def d)
  then have "fst (parseDate H s iso_format st') = ok (Some (t - t mod 1000))"
    unfolding parseDate_value(1) [OF reached_ok [OF st']] using f by (simp add: parse_value_def iso_parser)
  then show ?thesis using F unfolding st'_def iso_format_def by blast
qed

theorem parse_format_witness:
  "\<exists>s. fst (dateFormat (sample_xhost 60) ''Y-m-d H:i:s'' 1167613871500 init_xparb) = ok (JStr s) \<and>
    fst (parseDate (sample_xhost 60) s ''Y-m-d H:i:s'' (snd (dateFormat (sample_xhost 60) ''Y-m-d H:i:s'' 1167613871500 init_xparb))) =
      ok (Some (1167613871500 - 1167613871500 mod 1000))"
proof (rule parse_format [OF _ reached.start])
  show "1000 \<le> getFullYear (sample_xhost 60) 1167613871500" "getFullYear (sample_xhost 60) 1167613871500 \<le> 9999" by code_simp+
qed (simp_all add: sample_xhost_def fixed_zone_def)
end
