(* ===== verification/Fannkuch.thy ===== *)
theory Fannkuch
  imports Js_Prelude
begin

text \<open>
  The program \<open>metrics/jint/sunspider/access-fannkuch.js\<close>. Arrays are lists of a fixed length, the variables are those of the code. The loops
  that may run forever are partial functions into \<open>option\<close>. The text \<open>s\<close> of the first thirty permutations, which nothing reads, and the
  counter \<open>check\<close> that limits it are left out.
\<close>

section \<open>Flipping\<close>

text \<open>The swaps of one flip: \<open>for (var i = 0; i < k2; i++)\<close>.\<close>

function swap_loop :: "nat \<Rightarrow> nat \<Rightarrow> nat \<Rightarrow> nat list \<Rightarrow> nat list" where
  "swap_loop i k k2 perm =
    (if i < k2 then (let temp = perm ! i; perm = perm[i := perm ! (k - i)]; perm = perm[k - i := temp] in swap_loop (i + 1) k k2 perm)
     else perm)"
  by auto

termination by (relation "measure (\<lambda>(i, k, k2, p). k2 - i)") auto

declare swap_loop.simps [simp del]

partial_function (option) flips_loop :: "nat list \<Rightarrow> nat \<Rightarrow> nat option" where
  "flips_loop perm flipsCount =
    (let k = perm ! 0
     in if k = 0 then Some flipsCount
        else (let k2 = nat (js_shr (int k + 1) 1) in flips_loop (swap_loop 0 k k2 perm) (flipsCount + 1)))"

section \<open>The next permutation\<close>

text \<open>\<open>while (i < r)\<close>: the first elements move one place to the front.\<close>

function shift_loop :: "nat \<Rightarrow> nat \<Rightarrow> nat list \<Rightarrow> nat list" where
  "shift_loop i r perm1 = (if i < r then (let j = i + 1; perm1 = perm1[i := perm1 ! j] in shift_loop j r perm1) else perm1)"
  by auto

termination by (relation "measure (\<lambda>(i, r, p). r - i)") auto

declare shift_loop.simps [simp del]

text \<open>The inner \<open>while (true)\<close>: \<open>None\<close> in the result is the \<open>return\<close>, otherwise \<open>r\<close> and the two arrays after the \<open>break\<close>.\<close>

partial_function (option) next_loop :: "nat \<Rightarrow> nat \<Rightarrow> nat list \<Rightarrow> nat list \<Rightarrow> (nat \<times> nat list \<times> nat list) option option" where
  "next_loop n r perm1 count =
    (if r = n then Some None
     else
       (let perm0 = perm1 ! 0;
            perm1 = shift_loop 0 r perm1;
            perm1 = perm1[r := perm0];
            count = count[r := count ! r - 1]
        in if count ! r > 0 then Some (Some (r, perm1, count)) else next_loop n (r + 1) perm1 count))"

section \<open>The search\<close>

text \<open>\<open>while (r != 1) { count[r - 1] = r; r--; }\<close>\<close>

partial_function (option) count_loop :: "int \<Rightarrow> nat list \<Rightarrow> nat list option" where
  "count_loop r count = (if r \<noteq> 1 then count_loop (r - 1) (count[nat (r - 1) := nat r]) else Some count)"

text \<open>One permutation: its flips are counted unless its first element or its last one is in its place.\<close>

definition visit :: "nat \<Rightarrow> nat list \<Rightarrow> nat \<times> nat list \<Rightarrow> (nat \<times> nat list) option" where
  "visit n perm1 best =
    (let m = n - 1; (maxFlipsCount, maxPerm) = best
     in if \<not> (perm1 ! 0 = 0 \<or> perm1 ! m = m) then
          (case flips_loop perm1 0 of
             None \<Rightarrow> None
           | Some flipsCount \<Rightarrow> Some (if flipsCount > maxFlipsCount then (flipsCount, perm1) else (maxFlipsCount, maxPerm)))
        else Some best)"

partial_function (option) search_loop :: "nat \<Rightarrow> nat \<Rightarrow> nat list \<Rightarrow> nat list \<Rightarrow> nat \<times> nat list \<Rightarrow> (nat \<times> nat list) option" where
  "search_loop n r perm1 count best =
    (case count_loop (int r) count of
       None \<Rightarrow> None
     | Some count \<Rightarrow>
         (case visit n perm1 best of
            None \<Rightarrow> None
          | Some best \<Rightarrow>
              (case next_loop n 1 perm1 count of
                 None \<Rightarrow> None
               | Some None \<Rightarrow> Some best
               | Some (Some (r, perm1, count)) \<Rightarrow> search_loop n r perm1 count best)))"

text \<open>
  \<open>fannkuch(n)\<close>. The elements of a new array are written before they are read; here they hold the number \<open>u\<close>. The result is that of the
  function with the permutation it remembers.
\<close>

definition fannkuch_search :: "nat \<Rightarrow> nat \<Rightarrow> (nat \<times> nat list) option" where
  "fannkuch_search u n = search_loop n n [0..<n] (replicate n u) (0, replicate n u)"

definition fannkuch :: "nat \<Rightarrow> nat \<Rightarrow> nat option" where
  "fannkuch u n = map_option fst (fannkuch_search u n)"

end
