(* ===== verification/Fannkuch_Correct.thy ===== *)
theory Fannkuch_Correct
  imports Fannkuch
begin

text \<open>
  The program computes the maximum it is named after. A flip reverses a prefix (\<open>flip\<close>), the sum of \<open>2 ^ i\<close> over the elements
  in their places grows with each flip, so flipping ends; the rotations of ever longer prefixes visit all permutations (\<open>enum_set\<close>,
  \<open>search_enum\<close>); and the permutations that the program skips have no more flips than one that it does not.
\<close>


section \<open>One flip reverses a prefix\<close>

definition flip :: "nat list \<Rightarrow> nat list" where
  "flip p = rev (take (p ! 0 + 1) p) @ drop (p ! 0 + 1) p"

definition half_flipped :: "nat \<Rightarrow> nat \<Rightarrow> nat list \<Rightarrow> nat list" where
  "half_flipped i k p = map (\<lambda>j. if j < i \<or> k - i < j \<and> j \<le> k then p ! (k - j) else p ! j) [0..<length p]"

lemma half_flipped_start: "half_flipped 0 k p = p"
  by (intro nth_equalityI) (auto simp: half_flipped_def)

lemma half_flipped_step:
  assumes "i < (k + 1) div 2" "k < length p"
  shows "(half_flipped i k p)[i := half_flipped i k p ! (k - i), k - i := half_flipped i k p ! i] = half_flipped (i + 1) k p"
  using assms by (intro nth_equalityI) (auto simp: half_flipped_def nth_list_update)

lemma half_flipped_end: "k < length p \<Longrightarrow> half_flipped ((k + 1) div 2) k p = rev (take (k + 1) p) @ drop (k + 1) p"
proof (intro nth_equalityI)
  fix j assume k: "k < length p" and j: "j < length (half_flipped ((k + 1) div 2) k p)"
  have "k - j = j" if "\<not> j < (k + 1) div 2" "\<not> k - (k + 1) div 2 < j" using that by linarith
  then show "half_flipped ((k + 1) div 2) k p ! j = (rev (take (k + 1) p) @ drop (k + 1) p) ! j"
    using k j by (cases "length p = Suc k") (auto simp: half_flipped_def nth_append rev_nth min_def)
qed (simp add: half_flipped_def)

lemma swap_loop_half:
  assumes "k < length p" "i \<le> (k + 1) div 2"
  shows "swap_loop i k ((k + 1) div 2) (half_flipped i k p) = half_flipped ((k + 1) div 2) k p"
  using assms(2)
proof (induction "(k + 1) div 2 - i" arbitrary: i)
  case 0
  then show ?case by (simp add: swap_loop.simps)
next
  case (Suc n)
  then have i: "i < (k + 1) div 2" by simp
  have "swap_loop i k ((k + 1) div 2) (half_flipped i k p) = swap_loop (i + 1) k ((k + 1) div 2) (half_flipped (i + 1) k p)"
    using i half_flipped_step [OF i assms(1)] by (subst swap_loop.simps) (simp add: Let_def del: Suc_eq_plus1)
  then show ?case using Suc by simp
qed

lemma swap_loop_rev: "k < length p \<Longrightarrow> swap_loop 0 k ((k + 1) div 2) p = rev (take (k + 1) p) @ drop (k + 1) p"
  using swap_loop_half [of k p 0] half_flipped_end by (simp add: half_flipped_start)

definition perm_of :: "nat \<Rightarrow> nat list \<Rightarrow> bool" where
  "perm_of n p \<longleftrightarrow> distinct p \<and> set p = {0..<n}"

lemma perm_length: "perm_of n p \<Longrightarrow> length p = n"
  by (metis perm_of_def distinct_card card_atLeastLessThan minus_nat.diff_0)

lemma perm_nth: "perm_of n p \<Longrightarrow> i < n \<Longrightarrow> p ! i < n"
  using nth_mem [of i p] by (auto simp: perm_of_def perm_length)

lemma half_index: "k < 2 ^ 30 \<Longrightarrow> nat (js_shr (int k + 1) 1) = (k + 1) div 2"
  by (subst js_shr_div) (simp_all add: is_int32_def nat_div_distrib nat_add_distrib)

lemma flip_perm: "perm_of n p \<Longrightarrow> perm_of n (flip p)"
  by (simp add: perm_of_def flip_def) (metis (no_types) append_take_drop_id set_append distinct_append)

section \<open>Flipping ends\<close>

text \<open>The elements in their places, weighted by powers of two: a flip puts \<open>k\<close> in its place and moves only smaller places.\<close>

definition placed :: "nat list \<Rightarrow> nat set" where
  "placed p = {i. 0 < i \<and> i < length p \<and> p ! i = i}"

definition weight :: "nat set \<Rightarrow> nat" where
  "weight A = (\<Sum>i\<in>A. 2 ^ i)"

lemma weight_less: "finite A \<Longrightarrow> A \<subseteq> {..<n} \<Longrightarrow> weight A < 2 ^ n"
proof -
  assume "finite A" "A \<subseteq> {..<n}"
  then have "weight A \<le> (\<Sum>i<n. 2 ^ i)" unfolding weight_def by (intro sum_mono2) auto
  also have "\<dots> < 2 ^ n" by (induction n) auto
  finally show ?thesis .
qed

lemma weight_union: "finite A \<Longrightarrow> finite B \<Longrightarrow> A \<inter> B = {} \<Longrightarrow> weight (A \<union> B) = weight A + weight B"
  by (simp add: weight_def sum.union_disjoint)

lemma flip_weight:
  assumes "perm_of n p" "0 < n" "p ! 0 \<noteq> 0"
  shows "weight (placed p) < weight (placed (flip p))"
proof -
  define k where "k = p ! 0"
  have len: "length p = n" by (rule perm_length [OF assms(1)])
  have k: "0 < k" "k < n" using assms perm_nth [OF assms(1,2)] by (simp_all add: k_def)
  have hi: "flip p ! i = p ! i" if "k < i" "i < n" for i
    using that k len by (simp add: flip_def nth_append flip: k_def)
  have kk: "flip p ! k = k" using k len by (simp add: flip_def nth_append rev_nth flip: k_def)
  have nk: "p ! k \<noteq> k"
    using assms(1) k len nth_eq_iff_index_eq [of p 0 k] by (simp add: perm_of_def k_def)
  have fin: "finite (placed p)" "finite (placed (flip p))" by (simp_all add: placed_def)
  have len': "length (flip p) = n" using len k by (simp add: flip_def)
  define A B where "A = {i \<in> placed p. i < k}" and "B = {i \<in> placed p. k < i}"
  have fin': "finite A" "finite B" "finite (insert k B)" using fin by (simp_all add: A_def B_def)
  have "i \<noteq> k" if "i \<in> placed p" for i using nk that by (auto simp: placed_def)
  then have "placed p = A \<union> B" by (auto simp: A_def B_def) (metis nat_neq_iff)
  moreover have "A \<inter> B = {}" by (auto simp: A_def B_def)
  ultimately have "weight (placed p) = weight A + weight B" using weight_union [OF fin'(1,2)] by simp
  moreover have "weight A < 2 ^ k" by (rule weight_less [OF fin'(1)]) (auto simp: A_def)
  ultimately have "weight (placed p) < 2 ^ k + weight B" by simp
  also have "\<dots> = weight (insert k B)" using fin' by (simp add: weight_def B_def)
  also have "\<dots> \<le> weight (placed (flip p))"
    unfolding weight_def
  proof (rule sum_mono2)
    show "insert k B \<subseteq> placed (flip p)" using k kk hi len len' by (auto simp: placed_def B_def)
  qed (use fin in auto)
  finally show ?thesis .
qed

lemma placed_weight: "weight (placed p) < 2 ^ length p"
  by (intro weight_less) (auto simp: placed_def)

lemma flips_end:
  assumes "perm_of n p" "0 < n"
  shows "\<exists>m. (flip ^^ m) p ! 0 = 0"
  using assms(1)
proof (induction "2 ^ n - weight (placed p)" arbitrary: p rule: less_induct)
  case less
  show ?case
  proof (cases "p ! 0 = 0")
    case True
    then show ?thesis by (intro exI [of _ 0]) simp
  next
    case False
    have "weight (placed (flip p)) < 2 ^ n" using placed_weight [of "flip p"] perm_length [OF flip_perm [OF less(2)]] by simp
    then have "2 ^ n - weight (placed (flip p)) < 2 ^ n - weight (placed p)" using flip_weight [OF less(2) assms(2) False] by linarith
    then obtain m where "(flip ^^ m) (flip p) ! 0 = 0" using less(1) flip_perm [OF less(2)] by blast
    then show ?thesis by (intro exI [of _ "Suc m"]) (simp add: funpow_swap1)
  qed
qed

text \<open>The number of flips until the first element is zero.\<close>

definition flips_of :: "nat list \<Rightarrow> nat" where
  "flips_of p = (LEAST m. (flip ^^ m) p ! 0 = 0)"

lemma flips_of_zero: "p ! 0 = 0 \<Longrightarrow> flips_of p = 0"
  by (simp add: flips_of_def)

lemma flips_of_step:
  assumes "perm_of n p" "0 < n" "p ! 0 \<noteq> 0"
  shows "flips_of p = Suc (flips_of (flip p))"
proof -
  obtain m where "(flip ^^ m) p ! 0 = 0" using flips_end [OF assms(1,2)] by blast
  then have "flips_of p = Suc (LEAST m. (flip ^^ Suc m) p ! 0 = 0)"
    unfolding flips_of_def using assms(3) by (intro Least_Suc) auto
  then show ?thesis by (simp add: flips_of_def funpow_swap1)
qed

lemma flips_loop_value:
  assumes "perm_of n p" "0 < n" "n \<le> 2 ^ 30"
  shows "flips_loop p c = Some (c + flips_of p)"
  using assms(1)
proof (induction "flips_of p" arbitrary: p c)
  case 0
  then have "p ! 0 = 0" using flips_of_step [OF 0(2) assms(2)] by fastforce
  then show ?case by (subst flips_loop.simps) (simp add: flips_of_zero)
next
  case (Suc m)
  then have z: "p ! 0 \<noteq> 0" using flips_of_zero by fastforce
  have k: "p ! 0 < n" by (rule perm_nth [OF Suc(3) assms(2)])
  have "swap_loop 0 (p ! 0) (nat (js_shr (int (p ! 0) + 1) 1)) p = flip p"
    using k assms(3) swap_loop_rev [of "p ! 0" p] by (simp add: half_index perm_length [OF Suc(3)] flip_def)
  then have "flips_loop p c = flips_loop (flip p) (c + 1)" using z by (subst flips_loop.simps) (simp add: Let_def)
  then show ?case using Suc(1) [OF _ flip_perm [OF Suc(3)]] Suc(2) flips_of_step [OF Suc(3) assms(2) z] by simp
qed

section \<open>One step to the next permutation\<close>

definition rot :: "nat \<Rightarrow> nat list \<Rightarrow> nat list" where
  "rot r p = rotate1 (take (r + 1) p) @ drop (r + 1) p"

lemma shift_loop_value:
  "r < length p \<Longrightarrow> i \<le> r \<Longrightarrow> shift_loop i r p = map (\<lambda>j. if i \<le> j \<and> j < r then p ! (j + 1) else p ! j) [0..<length p]"
proof (induction "r - i" arbitrary: i p)
  case 0
  then show ?case by (subst shift_loop.simps) (auto intro: nth_equalityI)
next
  case (Suc m)
  then have "i < r" by simp
  then have "shift_loop i r p = shift_loop (i + 1) r (p[i := p ! (i + 1)])" by (simp add: shift_loop.simps [of i r p] Let_def)
  also have "\<dots> = map (\<lambda>j. if i + 1 \<le> j \<and> j < r then p[i := p ! (i + 1)] ! (j + 1) else p[i := p ! (i + 1)] ! j) [0..<length p]"
    using Suc(2-4) by (subst Suc(1)) auto
  also have "\<dots> = map (\<lambda>j. if i \<le> j \<and> j < r then p ! (j + 1) else p ! j) [0..<length p]"
    using Suc(2-4) by (intro map_cong refl) (auto simp: nth_list_update)
  finally show ?case .
qed

lemma shift_rot: "r < length p \<Longrightarrow> (shift_loop 0 r p)[r := p ! 0] = rot r p"
proof (intro nth_equalityI)
  assume r: "r < length p"
  then show "length ((shift_loop 0 r p)[r := p ! 0]) = length (rot r p)" by (simp add: shift_loop_value rot_def)
  fix j assume "j < length ((shift_loop 0 r p)[r := p ! 0])"
  then have j: "j < length p" using r by (simp add: shift_loop_value)
  have l: "length (take (r + 1) p) = r + 1" using r by simp
  show "(shift_loop 0 r p)[r := p ! 0] ! j = rot r p ! j"
  proof (cases "j \<le> r")
    case True
    then have "rot r p ! j = p ! (Suc j mod (r + 1))" using l by (simp add: rot_def nth_append nth_rotate1)
    then show ?thesis using True r j by (cases "j = r") (simp_all add: shift_loop_value nth_list_update)
  next
    case False
    then show ?thesis using r j l by (simp add: shift_loop_value rot_def nth_append)
  qed
qed

lemma rot_funpow: "(rot r ^^ i) p = rotate i (take (r + 1) p) @ drop (r + 1) p"
proof (induction i)
  case (Suc i)
  then show ?case by (cases "r < length p") (simp_all add: rot_def)
qed simp

lemma rot_cycle: "r < length p \<Longrightarrow> (rot r ^^ (r + 1)) p = p"
  using rotate_length01 rotate_conv_mod [of "r + 1" "take (r + 1) p"] by (simp add: rot_funpow del: funpow.simps)

lemma rot_perm: "perm_of n p \<Longrightarrow> perm_of n ((rot r ^^ i) p)"
  unfolding rot_funpow perm_of_def by simp (metis append_take_drop_id distinct_append set_append)

section \<open>The permutations that are visited\<close>

text \<open>All arrangements of the first \<open>k + 1\<close> elements, in the order of the program.\<close>

fun enum :: "nat \<Rightarrow> nat list \<Rightarrow> nat list list" where
  "enum 0 p = [p]"
| "enum (Suc k) p = concat (map (\<lambda>i. enum k ((rot (Suc k) ^^ i) p)) [0..<Suc (Suc k)])"

lemma enum_set: "perm_of n p \<Longrightarrow> k < n \<Longrightarrow> set (enum k p) = {q. perm_of n q \<and> drop (Suc k) q = drop (Suc k) p}"
proof (induction k arbitrary: p)
  case 0
  have "q = p" if q: "perm_of n q" "drop (Suc 0) q = drop (Suc 0) p" for q
  proof -
    have l: "length q = n" "length p = n" using q 0 perm_length by blast+
    then obtain a as b bs where "q = a # as" "p = b # bs" using 0(2) by (cases q; cases p) auto
    then show ?thesis using q 0 by (auto simp: perm_of_def)
  qed
  then show ?case using 0 by auto
next
  case (Suc k)
  define P where "P i = (rot (Suc k) ^^ i) p" for i
  have l: "length p = n" using Suc perm_length by blast
  have P: "perm_of n (P i)" for i unfolding P_def by (rule rot_perm [OF Suc(2)])
  have IH: "set (enum k (P i)) = {q. perm_of n q \<and> drop (Suc k) q = drop (Suc k) (P i)}" for i
    using Suc.IH [OF P] Suc(3) by simp
  have dP: "drop (Suc k) (P i) = p ! ((i + Suc k) mod (k + 2)) # drop (k + 2) p" for i
  proof -
    have "length (rotate i (take (k + 2) p)) = k + 2" using l Suc(3) by simp
    moreover have "rotate i (take (k + 2) p) ! Suc k = p ! ((i + Suc k) mod (k + 2))"
      using l Suc(3) by (subst nth_rotate) simp_all
    moreover have "drop (Suc k) xs = [xs ! Suc k]" if "length xs = k + 2" for xs :: "nat list"
      using that Cons_nth_drop_Suc [of "Suc k" xs] by simp
    ultimately show ?thesis by (simp add: P_def rot_funpow)
  qed
  have dq: "drop (Suc k) q = q ! Suc k # drop (k + 2) q" if "perm_of n q" for q
    using that Suc(3) Cons_nth_drop_Suc [of "Suc k" q] perm_length [OF that] by simp
  have "set (enum (Suc k) p) = (\<Union>i\<in>{0..<k + 2}. {q. perm_of n q \<and> q ! Suc k = p ! ((i + Suc k) mod (k + 2)) \<and> drop (k + 2) q = drop (k + 2) p})"
  proof -
    have "set (enum k (P i)) = {q. perm_of n q \<and> q ! Suc k = p ! ((i + Suc k) mod (k + 2)) \<and> drop (k + 2) q = drop (k + 2) p}" for i
      unfolding IH dP using dq by auto
    moreover have "set (enum (Suc k) p) = (\<Union>i\<in>{0..<k + 2}. set (enum k (P i)))"
      by (simp add: P_def del: upt_Suc funpow.simps)
    ultimately show ?thesis by simp
  qed
  also have "\<dots> = {q. perm_of n q \<and> drop (Suc (Suc k)) q = drop (Suc (Suc k)) p}"
  proof (intro equalityI subsetI)
    fix q assume "q \<in> {q. perm_of n q \<and> drop (Suc (Suc k)) q = drop (Suc (Suc k)) p}"
    then have q: "perm_of n q" "drop (k + 2) q = drop (k + 2) p" by simp_all
    have lq: "length q = n" by (rule perm_length [OF q(1)])
    have "q ! Suc k \<in> set p" using q(1) Suc(2,3) lq nth_mem [of "Suc k" q] by (simp add: perm_of_def)
    moreover have "q ! Suc k \<notin> set (drop (k + 2) p)"
    proof -
      have "distinct (drop (Suc k) q)" using q(1) by (simp add: perm_of_def)
      then show ?thesis using dq [OF q(1)] q(2) by simp
    qed
    ultimately have "q ! Suc k \<in> set (take (k + 2) p)" by (metis UnE append_take_drop_id set_append)
    then obtain j where j: "j < k + 2" "q ! Suc k = p ! j" using l Suc(3) by (auto simp: in_set_conv_nth)
    define i where "i = (if j = k + 1 then 0 else j + 1)"
    have "(i + Suc k) mod (k + 2) = j"
    proof (cases "j = k + 1")
      case False
      then have "i + Suc k = j + (k + 2)" by (simp add: i_def)
      then show ?thesis using j(1) by (simp only: mod_add_self2 mod_less)
    qed (simp add: i_def)
    moreover have "i < k + 2" using j(1) by (simp add: i_def)
    ultimately show "q \<in> (\<Union>i\<in>{0..<k + 2}. {q. perm_of n q \<and> q ! Suc k = p ! ((i + Suc k) mod (k + 2)) \<and> drop (k + 2) q = drop (k + 2) p})"
      using q j(2) by (intro UN_I [of i]) auto
  qed auto
  finally show ?case .
qed

section \<open>The search visits them\<close>

text \<open>What a visit does to a permutation of \<open>n\<close> elements.\<close>

definition vis :: "nat \<Rightarrow> nat list \<Rightarrow> nat \<times> nat list \<Rightarrow> nat \<times> nat list" where
  "vis n p best = (if p ! 0 = 0 \<or> p ! (n - 1) = n - 1 then best else if flips_of p > fst best then (flips_of p, p) else best)"

lemma visit_vis: "perm_of n p \<Longrightarrow> 0 < n \<Longrightarrow> n \<le> 2 ^ 30 \<Longrightarrow> visit n p best = Some (vis n p best)"
  by (cases best) (simp add: visit_def vis_def flips_loop_value)

text \<open>What follows when the inner loop has its \<open>r\<close>.\<close>

definition after_next :: "nat \<Rightarrow> nat \<Rightarrow> nat list \<Rightarrow> nat list \<Rightarrow> nat \<times> nat list \<Rightarrow> (nat \<times> nat list) option" where
  "after_next n r p c best =
    (case next_loop n r p c of None \<Rightarrow> None | Some None \<Rightarrow> Some best | Some (Some (r, p, c)) \<Rightarrow> search_loop n r p c best)"

lemma after_next_end: "after_next n n p c best = Some best"
  by (simp add: after_next_def next_loop.simps)

lemma after_next_step:
  assumes "r < n" "length p = n" "length c = n" "c ! r = Suc m"
  shows "after_next n r p c best =
    (if m > 0 then search_loop n r (rot r p) (c[r := m]) best else after_next n (r + 1) (rot r p) (c[r := m]) best)"
  using assms by (simp add: after_next_def next_loop.simps [of n r p c] shift_rot Let_def)

lemma search_base:
  "perm_of n p \<Longrightarrow> 0 < n \<Longrightarrow> n \<le> 2 ^ 30 \<Longrightarrow> search_loop n 1 p c best = after_next n 1 p c (vis n p best)"
  by (subst search_loop.simps) (simp add: count_loop.simps visit_vis after_next_def)

lemma search_count: "search_loop n (k + 2) p c best = search_loop n (k + 1) p (c[k + 1 := k + 2]) best"
proof -
  have "count_loop (int (k + 2)) c = count_loop (int (k + 1)) (c[k + 1 := k + 2])"
    by (subst count_loop.simps) (simp add: nat_add_distrib)
  then show ?thesis by (simp only: search_loop.simps [of n "k + 2"] search_loop.simps [of n "k + 1"])
qed

text \<open>The turns of one level: after each the prefix moves on by one, after the last the permutation is back.\<close>

lemma search_level:
  assumes IH: "\<And>p c best. perm_of n p \<Longrightarrow> length c = n \<Longrightarrow> \<exists>c'. length c' = n \<and> (\<forall>j \<ge> r. c' ! j = c ! j) \<and>
      search_loop n r p c best = after_next n r p c' (fold (vis n) (f p) best)"
    and p: "perm_of n p" and r: "r < n"
  shows "i \<le> r \<Longrightarrow> length c = n \<Longrightarrow> c ! r = r + 1 - i \<Longrightarrow> \<exists>c'. length c' = n \<and> (\<forall>j > r. c' ! j = c ! j) \<and>
      search_loop n r ((rot r ^^ i) p) c best =
        after_next n (r + 1) p c' (fold (vis n) (concat (map (\<lambda>i. f ((rot r ^^ i) p)) [i..<r + 1])) best)"
proof (induction "r - i" arbitrary: i c best)
  case (0 i)
  then have i: "i = r" by simp
  have P: "perm_of n ((rot r ^^ r) p)" "length ((rot r ^^ r) p) = n" using rot_perm [OF p] perm_length by blast+
  obtain c' where c': "length c' = n" "\<And>j. j \<ge> r \<Longrightarrow> c' ! j = c ! j"
    "search_loop n r ((rot r ^^ r) p) c best = after_next n r ((rot r ^^ r) p) c' (fold (vis n) (f ((rot r ^^ r) p)) best)"
    using IH [OF P(1) 0(3)] by blast
  have "c' ! r = Suc 0" using c'(2) 0(4) i by simp
  moreover have "rot r ((rot r ^^ r) p) = p" using rot_cycle [of r p] r perm_length [OF p] by simp
  ultimately have "after_next n r ((rot r ^^ r) p) c' b = after_next n (r + 1) p (c'[r := 0]) b" for b
    using after_next_step [OF r P(2) c'(1), of 0 b] by simp
  then show ?case using c' i by (intro exI [of _ "c'[r := 0]"]) simp
next
  case (Suc m)
  then have i: "i < r" by simp
  have P: "perm_of n ((rot r ^^ i) p)" "length ((rot r ^^ i) p) = n" using rot_perm [OF p] perm_length by blast+
  obtain c' where c': "length c' = n" "\<And>j. j \<ge> r \<Longrightarrow> c' ! j = c ! j"
    "search_loop n r ((rot r ^^ i) p) c best = after_next n r ((rot r ^^ i) p) c' (fold (vis n) (f ((rot r ^^ i) p)) best)"
    using IH [OF P(1) Suc(4)] by blast
  have "c' ! r = Suc (r - i)" using c'(2) Suc(5) i by simp
  then have "after_next n r ((rot r ^^ i) p) c' b = search_loop n r ((rot r ^^ (i + 1)) p) (c'[r := r - i]) b" for b
    using after_next_step [OF r P(2) c'(1), of "r - i" b] i by simp
  moreover have "\<exists>c''. length c'' = n \<and> (\<forall>j > r. c'' ! j = c'[r := r - i] ! j) \<and>
      search_loop n r ((rot r ^^ (i + 1)) p) (c'[r := r - i]) b =
        after_next n (r + 1) p c'' (fold (vis n) (concat (map (\<lambda>i. f ((rot r ^^ i) p)) [i + 1..<r + 1])) b)" for b
    by (rule Suc(1)) (use Suc(2) c'(1) i r in simp_all)
  then obtain c'' where "length c'' = n" "\<forall>j > r. c'' ! j = c'[r := r - i] ! j"
    "search_loop n r ((rot r ^^ (i + 1)) p) (c'[r := r - i]) (fold (vis n) (f ((rot r ^^ i) p)) best) =
        after_next n (r + 1) p c'' (fold (vis n) (concat (map (\<lambda>i. f ((rot r ^^ i) p)) [i + 1..<r + 1])) (fold (vis n) (f ((rot r ^^ i) p)) best))"
    by blast
  ultimately show ?case using c' i by (intro exI [of _ c'']) (auto simp: upt_conv_Cons simp del: upt_Suc funpow.simps)
qed

text \<open>From the top of the outer loop with \<open>r = k + 1\<close> all arrangements of the first \<open>k + 1\<close> elements are visited, and the permutation comes back.\<close>

lemma search_enum:
  "perm_of n p \<Longrightarrow> k < n \<Longrightarrow> n \<le> 2 ^ 30 \<Longrightarrow> length c = n \<Longrightarrow>
    \<exists>c'. length c' = n \<and> (\<forall>j > k. c' ! j = c ! j) \<and>
      search_loop n (k + 1) p c best = after_next n (k + 1) p c' (fold (vis n) (enum k p) best)"
proof (induction k arbitrary: p c best)
  case 0
  then show ?case using search_base [of n p c best] by (intro exI [of _ c]) auto
next
  case (Suc k)
  have IH: "\<exists>c'. length c' = n \<and> (\<forall>j \<ge> Suc k. c' ! j = c ! j) \<and>
      search_loop n (Suc k) p c best = after_next n (Suc k) p c' (fold (vis n) (enum k p) best)" if "perm_of n p" "length c = n" for p c best
    using Suc.IH [OF that(1) _ Suc.prems(3) that(2), of best] Suc.prems(2) by (auto simp: Suc_le_eq)
  obtain c' where c': "length c' = n" "\<forall>j > Suc k. c' ! j = c[Suc k := k + 2] ! j"
    "search_loop n (Suc k) p (c[Suc k := k + 2]) best =
      after_next n (Suc k + 1) p c' (fold (vis n) (concat (map (\<lambda>i. enum k ((rot (Suc k) ^^ i) p)) [0..<Suc k + 1])) best)"
    using search_level [OF IH Suc.prems(1,2), of 0 "c[Suc k := k + 2]" best] Suc.prems(2,4) by (auto simp del: upt_Suc)
  then show ?case using search_count [of n k p c best] by (intro exI [of _ c']) (simp del: upt_Suc)
qed

section \<open>The maximum\<close>

lemma fold_vis:
  "fst (fold (vis n) ps b) = Max (insert (fst b) (flips_of ` {p \<in> set ps. \<not> (p ! 0 = 0 \<or> p ! (n - 1) = n - 1)}))"
proof (induction ps arbitrary: b)
  case (Cons p ps)
  define S where "S = flips_of ` {p \<in> set ps. \<not> (p ! 0 = 0 \<or> p ! (n - 1) = n - 1)}"
  have S: "finite S" by (simp add: S_def)
  have "fst (fold (vis n) (p # ps) b) = Max (insert (fst (vis n p b)) S)" using Cons by (simp add: S_def)
  also have "\<dots> = Max (insert (fst b) (if p ! 0 = 0 \<or> p ! (n - 1) = n - 1 then S else insert (flips_of p) S))"
    using S by (cases "S = {}") (auto simp: vis_def max_def)
  also have "(if p ! 0 = 0 \<or> p ! (n - 1) = n - 1 then S else insert (flips_of p) S) =
      flips_of ` {q \<in> set (p # ps). \<not> (q ! 0 = 0 \<or> q ! (n - 1) = n - 1)}"
    by (auto simp: S_def)
  finally show ?case .
qed simp

text \<open>A permutation that is skipped because of its last element is the flip of one that is not.\<close>

lemma skipped_last:
  assumes "perm_of n p" "p ! 0 \<noteq> 0" "p ! (n - 1) = n - 1" "0 < n"
  shows "perm_of n (rev p) \<and> rev p ! 0 = n - 1 \<and> rev p ! (n - 1) \<noteq> n - 1 \<and> n - 1 \<noteq> 0 \<and> flips_of (rev p) = Suc (flips_of p)"
proof -
  have l: "length p = n" by (rule perm_length [OF assms(1)])
  have n: "n - 1 \<noteq> 0" using assms by (cases "n = 1") auto
  have P: "perm_of n (rev p)" using assms(1) by (simp add: perm_of_def)
  have h: "rev p ! 0 = n - 1" "rev p ! (n - 1) = p ! 0" using l assms(3,4) by (simp_all add: rev_nth)
  have "p ! 0 \<noteq> p ! (n - 1)" using assms(1,4) l n nth_eq_iff_index_eq [of p 0 "n - 1"] by (auto simp: perm_of_def)
  moreover have "flip (rev p) = p" using l assms(4) h by (simp add: flip_def)
  ultimately show ?thesis using P h assms(3) n flips_of_step [OF P assms(4)] by auto
qed

lemma finite_perms: "finite {p. perm_of n p}"
proof (rule finite_subset)
  show "{p. perm_of n p} \<subseteq> {p. set p \<subseteq> {0..<n} \<and> length p = n}" using perm_length by (auto simp: perm_of_def)
qed (rule finite_lists_length_eq, simp)

lemma perm_upt: "perm_of n [0..<n]"
  by (simp add: perm_of_def)

lemma max_unskipped:
  assumes "0 < n"
  shows "Max (insert 0 (flips_of ` {p. perm_of n p \<and> \<not> (p ! 0 = 0 \<or> p ! (n - 1) = n - 1)})) = Max (flips_of ` {p. perm_of n p})"
proof (rule antisym)
  let ?U = "insert 0 (flips_of ` {p. perm_of n p \<and> \<not> (p ! 0 = 0 \<or> p ! (n - 1) = n - 1)})"
  have fin: "finite ?U" "finite (flips_of ` {p. perm_of n p})" using finite_perms [of n] by (auto intro: finite_subset [OF _ finite_perms])
  have ne: "flips_of ` {p. perm_of n p} \<noteq> {}" using perm_upt by blast
  show "Max ?U \<le> Max (flips_of ` {p. perm_of n p})"
  proof (rule Max.boundedI [OF fin(1)])
    fix a assume "a \<in> ?U"
    moreover have "0 = flips_of [0..<n]" using assms flips_of_zero [of "[0..<n]"] by simp
    ultimately have "a \<in> flips_of ` {p. perm_of n p}" using perm_upt by blast
    then show "a \<le> Max (flips_of ` {p. perm_of n p})" using fin(2) by simp
  qed simp
  show "Max (flips_of ` {p. perm_of n p}) \<le> Max ?U"
  proof (rule Max.boundedI [OF fin(2) ne])
    fix a assume "a \<in> flips_of ` {p. perm_of n p}"
    then obtain p where p: "perm_of n p" "a = flips_of p" by blast
    consider "p ! 0 = 0" | "p ! 0 \<noteq> 0" "p ! (n - 1) = n - 1" | "p ! 0 \<noteq> 0" "p ! (n - 1) \<noteq> n - 1" by blast
    then obtain b where "b \<in> ?U" "a \<le> b"
    proof cases
      case 1
      then show ?thesis using that [of 0] p flips_of_zero by simp
    next
      case 2
      note s = skipped_last [OF p(1) 2 assms]
      have "rev p \<in> {p. perm_of n p \<and> \<not> (p ! 0 = 0 \<or> p ! (n - 1) = n - 1)}"
        using conjunct1 [OF s] conjunct2 [OF s] by (simp only: mem_Collect_eq simp_thms)
      then have "flips_of (rev p) \<in> ?U" by (intro insertI2 imageI)
      moreover have "a \<le> flips_of (rev p)" using s p(2) by linarith
      ultimately show ?thesis by (rule that)
    next
      case 3
      then have "p \<in> {p. perm_of n p \<and> \<not> (p ! 0 = 0 \<or> p ! (n - 1) = n - 1)}" using p(1) by simp
      then have "a \<in> ?U" unfolding p(2) by (intro insertI2 imageI)
      then show ?thesis by (rule that) simp
    qed
    then show "a \<le> Max ?U" using fin(1) by (meson Max_ge order_trans)
  qed
qed

text \<open>
  C13: For every length from 1 to \<open>2 ^ 30\<close> the program ends and returns the greatest number of flips that a permutation needs until its
  first element is zero, whatever the new arrays hold: the search visits every permutation, the flips of each end, and those it
  skips cannot be the maximum.
\<close>

theorem fannkuch_maximum:
  assumes "1 \<le> n" "n \<le> 2 ^ 30"
  shows "fannkuch u n = Some (Max (flips_of ` {p. perm_of n p}))"
proof -
  have n: "0 < n" "n - 1 < n" using assms by simp_all
  obtain c' where c': "search_loop n (n - 1 + 1) [0..<n] (replicate n u) (0, replicate n u) =
      after_next n (n - 1 + 1) [0..<n] c' (fold (vis n) (enum (n - 1) [0..<n]) (0, replicate n u))"
    using search_enum [OF perm_upt n(2) assms(2), of "replicate n u" "(0, replicate n u)"] by (auto simp only: length_replicate)
  have "set (enum (n - 1) [0..<n]) = {p. perm_of n p}"
    using enum_set [OF perm_upt n(2)] n(1) perm_length by fastforce
  then have "fst (fold (vis n) (enum (n - 1) [0..<n]) (0, replicate n u)) = Max (flips_of ` {p. perm_of n p})"
    using max_unskipped [OF n(1)] by (simp add: fold_vis)
  then show ?thesis using c' n(1) by (simp add: fannkuch_def fannkuch_search_def after_next_end)
qed

theorem fannkuch_maximum_witness: "fannkuch 7 4 = Some (Max (flips_of ` {p. perm_of 4 p}))"
  by (rule fannkuch_maximum) simp_all

text \<open>There are as many visits as permutations.\<close>

lemma enum_length: "length (enum k p) = fact (k + 1)"
proof (induction k arbitrary: p)
  case (Suc k)
  have "length (enum (Suc k) p) = (\<Sum>i\<leftarrow>[0..<Suc (Suc k)]. fact (k + 1))" by (simp only: enum.simps length_concat map_map o_def Suc)
  also have "\<dots> = Suc (Suc k) * fact (k + 1)" by (simp only: sum_list_triv length_upt) simp
  finally show ?case by (simp del: enum.simps)
qed simp

end
