(* ===== verification/Navier_Stokes.thy ===== *)
theory Navier_Stokes
  imports Js_Rounding
begin

text \<open>
  The fluid simulation \<open>v8/navier-stokes.js\<close> with its benchmark. A field is a list of doubles, row after row, with a border of
  one cell on each side; the procedures return the fields they change. No procedure is called with a field it changes as two of
  its arguments, so this is what the references do. Reading outside of a field gives the value \<open>e\<close>, the \<open>undefined\<close> of the
  language, which counts as \<open>NaN\<close> in arithmetic; writing beyond the end extends the field, and writing at a negative index, which
  would make a property of that name, is dropped: on a grid with positive sides neither happens.
\<close>

section \<open>Fields\<close>

definition get :: "jsnum \<Rightarrow> jsnum list \<Rightarrow> int \<Rightarrow> jsnum" where
  "get e x i = (if 0 \<le> i \<and> i < int (length x) then x ! nat i else e)"

definition put :: "jsnum \<Rightarrow> jsnum list \<Rightarrow> int \<Rightarrow> jsnum \<Rightarrow> jsnum list" where
  "put e x i v =
    (if i < 0 then x else if i < int (length x) then x[nat i := v] else x @ replicate (nat i - length x) e @ [v])"

text \<open>\<open>for (var i = a; i <= b; i++)\<close> with a body that changes a state.\<close>

definition for_to :: "int \<Rightarrow> int \<Rightarrow> (int \<Rightarrow> 's \<Rightarrow> 's) \<Rightarrow> 's \<Rightarrow> 's" where
  "for_to a b body s = fold body [a..b] s"

text \<open>The variables of a solver that are not fields.\<close>

record dims =
  iterations :: int
  width :: int
  height :: int
  rowSize :: int
  fsize :: int

definition half :: jsnum where
  "half = Fin (1 / 2)"

definition dt :: jsnum where
  "dt = round_double (1 / 10)"

definition addFields :: "jsnum \<Rightarrow> 'g dims_scheme \<Rightarrow> jsnum list \<Rightarrow> jsnum list \<Rightarrow> jsnum \<Rightarrow> jsnum list" where
  "addFields e g x s d = for_to 0 (fsize g - 1) (\<lambda>i x. put e x i (num_add (get e x i) (num_mul d (get e s i)))) x"

section \<open>The border\<close>

text \<open>The first and last row are the rows next to them, or their opposites.\<close>

definition opposite :: "bool \<Rightarrow> jsnum \<Rightarrow> jsnum" where
  "opposite b v = (if b then num_neg v else v)"

definition bnd_rows :: "jsnum \<Rightarrow> 'g dims_scheme \<Rightarrow> bool \<Rightarrow> jsnum list \<Rightarrow> jsnum list" where
  "bnd_rows e g b x =
    for_to 1 (width g) (\<lambda>i x.
      let x = put e x i (opposite b (get e x (i + rowSize g)))
      in put e x (i + (height g + 1) * rowSize g) (opposite b (get e x (i + height g * rowSize g)))) x"

definition bnd_column :: "jsnum \<Rightarrow> 'g dims_scheme \<Rightarrow> bool \<Rightarrow> int \<Rightarrow> jsnum list \<Rightarrow> jsnum list" where
  "bnd_column e g b j x =
    (let x = put e x (j * rowSize g) (opposite b (get e x (1 + j * rowSize g)))
     in put e x ((width g + 1) + j * rowSize g) (opposite b (get e x (width g + j * rowSize g))))"

text \<open>The loop \<open>for (var j = 1; i <= height; i++)\<close> of the first case goes on with the variable of the loop before it; \<open>j\<close> stays 1.\<close>

definition bnd_columns_i :: "jsnum \<Rightarrow> 'g dims_scheme \<Rightarrow> jsnum list \<Rightarrow> jsnum list" where
  "bnd_columns_i e g x = for_to (max 1 (width g + 1)) (height g) (\<lambda>i. bnd_column e g True 1) x"

definition bnd_columns :: "jsnum \<Rightarrow> 'g dims_scheme \<Rightarrow> jsnum list \<Rightarrow> jsnum list" where
  "bnd_columns e g x = for_to 1 (height g) (bnd_column e g False) x"

definition bnd_corners :: "jsnum \<Rightarrow> 'g dims_scheme \<Rightarrow> jsnum list \<Rightarrow> jsnum list" where
  "bnd_corners e g x =
    (let w = width g; h = height g; r = rowSize g; maxEdge = (h + 1) * r;
         x = put e x 0 (num_mul half (num_add (get e x 1) (get e x r)));
         x = put e x maxEdge (num_mul half (num_add (get e x (1 + maxEdge)) (get e x (h * r))));
         x = put e x (w + 1) (num_mul half (num_add (get e x w) (get e x ((w + 1) + r))))
     in put e x ((w + 1) + maxEdge) (num_mul half (num_add (get e x (w + maxEdge)) (get e x ((w + 1) + h * r)))))"

definition set_bnd :: "jsnum \<Rightarrow> 'g dims_scheme \<Rightarrow> int \<Rightarrow> jsnum list \<Rightarrow> jsnum list" where
  "set_bnd e g b x =
    bnd_corners e g
      (if b = 1 then bnd_columns_i e g (bnd_rows e g False x)
       else if b = 2 then bnd_columns e g (bnd_rows e g True x)
       else bnd_columns e g (bnd_rows e g False x))"

section \<open>The linear solvers\<close>

definition copy_inner :: "jsnum \<Rightarrow> 'g dims_scheme \<Rightarrow> jsnum list \<Rightarrow> jsnum list \<Rightarrow> jsnum list" where
  "copy_inner e g x0 x =
    for_to 1 (height g) (\<lambda>j x.
      fst (for_to 0 (width g - 1) (\<lambda>i (x, currentRow). (put e x currentRow (get e x0 currentRow), currentRow + 1)) (x, j * rowSize g + 1))) x"

text \<open>One relaxed cell: the target and \<open>x0\<close> are read before the increments of the row positions.\<close>

definition relax_cell :: "jsnum \<Rightarrow> jsnum list \<Rightarrow> jsnum \<Rightarrow> jsnum \<Rightarrow> jsnum list \<times> jsnum \<times> int \<times> int \<times> int \<Rightarrow> jsnum list \<times> jsnum \<times> int \<times> int \<times> int" where
  "relax_cell e x0 a invC =
    (\<lambda>(x, lastX, currentRow, lastRow, nextRow).
      let v = num_mul (num_add (get e x0 currentRow)
                (num_mul a (num_add (num_add (num_add lastX (get e x (currentRow + 1))) (get e x (lastRow + 1))) (get e x (nextRow + 1))))) invC
      in (put e x currentRow v, v, currentRow + 1, lastRow + 1, nextRow + 1))"

definition relax :: "jsnum \<Rightarrow> 'g dims_scheme \<Rightarrow> jsnum list \<Rightarrow> jsnum \<Rightarrow> jsnum \<Rightarrow> jsnum list \<Rightarrow> jsnum list" where
  "relax e g x0 a invC x =
    for_to 1 (height g) (\<lambda>j x.
      fst (for_to 1 (width g) (\<lambda>i. relax_cell e x0 a invC)
        (x, get e x (j * rowSize g), j * rowSize g + 1, (j - 1) * rowSize g, (j + 1) * rowSize g))) x"

definition lin_solve :: "jsnum \<Rightarrow> 'g dims_scheme \<Rightarrow> int \<Rightarrow> jsnum list \<Rightarrow> jsnum list \<Rightarrow> jsnum \<Rightarrow> jsnum \<Rightarrow> jsnum list" where
  "lin_solve e g b x x0 a c =
    (if num_eq a (num_of 0) \<and> num_eq c (num_of 1) then set_bnd e g b (copy_inner e g x0 x)
     else
       (let invC = num_div (num_of 1) c
        in for_to 0 (iterations g - 1) (\<lambda>k x. set_bnd e g b (relax e g x0 a invC x)) x))"

definition diffuse :: "jsnum \<Rightarrow> 'g dims_scheme \<Rightarrow> int \<Rightarrow> jsnum list \<Rightarrow> jsnum list \<Rightarrow> jsnum list" where
  "diffuse e g b x x0 = (let a = num_of 0 in lin_solve e g b x x0 a (num_add (num_of 1) (num_mul (num_of 4) a)))"

text \<open>
  The solver for two fields. In its relaxation the first assignment reads the neighbours of \<open>x\<close> before the increments, that is the
  cell itself and the cells of column \<open>i - 1\<close>, the second those of \<open>y\<close> after them.
\<close>

definition relax2_cell :: "jsnum \<Rightarrow> jsnum list \<Rightarrow> jsnum list \<Rightarrow> jsnum \<Rightarrow> jsnum \<Rightarrow>
    jsnum list \<times> jsnum list \<times> jsnum \<times> jsnum \<times> int \<times> int \<times> int \<Rightarrow> jsnum list \<times> jsnum list \<times> jsnum \<times> jsnum \<times> int \<times> int \<times> int" where
  "relax2_cell e x0 y0 a invC =
    (\<lambda>(x, y, lastX, lastY, currentRow, lastRow, nextRow).
      let vx = num_mul (num_add (get e x0 currentRow)
                 (num_mul a (num_add (num_add (num_add lastX (get e x currentRow)) (get e x lastRow)) (get e x nextRow)))) invC;
          vy = num_mul (num_add (get e y0 currentRow)
                 (num_mul a (num_add (num_add (num_add lastY (get e y (currentRow + 1))) (get e y (lastRow + 1))) (get e y (nextRow + 1))))) invC
      in (put e x currentRow vx, put e y currentRow vy, vx, vy, currentRow + 1, lastRow + 1, nextRow + 1))"

definition relax2 :: "jsnum \<Rightarrow> 'g dims_scheme \<Rightarrow> jsnum list \<Rightarrow> jsnum list \<Rightarrow> jsnum \<Rightarrow> jsnum \<Rightarrow> jsnum list \<times> jsnum list \<Rightarrow> jsnum list \<times> jsnum list" where
  "relax2 e g x0 y0 a invC xy =
    for_to 1 (height g) (\<lambda>j (x, y).
      (let (x, y, _) = for_to 1 (width g) (\<lambda>i. relax2_cell e x0 y0 a invC)
             (x, y, get e x (j * rowSize g), get e y (j * rowSize g), j * rowSize g + 1, (j - 1) * rowSize g, (j + 1) * rowSize g)
       in (x, y))) xy"

definition set_bnd2 :: "jsnum \<Rightarrow> 'g dims_scheme \<Rightarrow> jsnum list \<times> jsnum list \<Rightarrow> jsnum list \<times> jsnum list" where
  "set_bnd2 e g = (\<lambda>(x, y). (set_bnd e g 1 x, set_bnd e g 2 y))"

definition lin_solve2 :: "jsnum \<Rightarrow> 'g dims_scheme \<Rightarrow> jsnum list \<Rightarrow> jsnum list \<Rightarrow> jsnum list \<Rightarrow> jsnum list \<Rightarrow> jsnum \<Rightarrow> jsnum \<Rightarrow>
    (jsnum list \<times> jsnum list)" where
  "lin_solve2 e g x x0 y y0 a c =
    (if num_eq a (num_of 0) \<and> num_eq c (num_of 1) then
       set_bnd2 e g
         (for_to 1 (height g) (\<lambda>j (x, y).
           (let (x, y, _) = for_to 0 (width g - 1)
                  (\<lambda>i (x, y, currentRow). (put e x currentRow (get e x0 currentRow), put e y currentRow (get e y0 currentRow), currentRow + 1))
                  (x, y, j * rowSize g + 1)
            in (x, y))) (x, y))
     else
       (let invC = num_div (num_of 1) c
        in for_to 0 (iterations g - 1) (\<lambda>k xy. set_bnd2 e g (relax2 e g x0 y0 a invC xy)) (x, y)))"

definition diffuse2 :: "jsnum \<Rightarrow> 'g dims_scheme \<Rightarrow> jsnum list \<Rightarrow> jsnum list \<Rightarrow> jsnum list \<Rightarrow> jsnum list \<Rightarrow> (jsnum list \<times> jsnum list)" where
  "diffuse2 e g x x0 y y0 = (let a = num_of 0 in lin_solve2 e g x x0 y y0 a (num_add (num_of 1) (num_mul (num_of 4) a)))"

section \<open>Advection\<close>

text \<open>\<open>x | 0\<close>: the integer part, modulo \<open>2 ^ 32\<close>; zero for what is not finite.\<close>

definition num_or0 :: "jsnum \<Rightarrow> int" where
  "num_or0 x = (case x of Fin r \<Rightarrow> toInt32 (if r < 0 then \<lceil>r\<rceil> else \<lfloor>r\<rfloor>) | _ \<Rightarrow> 0)"

definition clamp :: "jsnum \<Rightarrow> jsnum \<Rightarrow> jsnum" where
  "clamp hi x = (if num_less x half then half else if num_less hi x then hi else x)"

text \<open>The field \<open>d0\<close> at a point between four cells.\<close>

definition interpolate :: "jsnum \<Rightarrow> 'g dims_scheme \<Rightarrow> jsnum list \<Rightarrow> jsnum \<Rightarrow> jsnum \<Rightarrow> jsnum" where
  "interpolate e g d0 x y =
    (let i0 = num_or0 x; i1 = i0 + 1; j0 = num_or0 y; j1 = j0 + 1;
         s1 = num_sub x (num_of i0); s0 = num_sub (num_of 1) s1;
         t1 = num_sub y (num_of j0); t0 = num_sub (num_of 1) t1;
         row1 = j0 * rowSize g; row2 = j1 * rowSize g
     in num_add (num_mul s0 (num_add (num_mul t0 (get e d0 (i0 + row1))) (num_mul t1 (get e d0 (i0 + row2)))))
                (num_mul s1 (num_add (num_mul t0 (get e d0 (i1 + row1))) (num_mul t1 (get e d0 (i1 + row2))))))"

definition advect_cell :: "jsnum \<Rightarrow> 'g dims_scheme \<Rightarrow> jsnum list \<Rightarrow> jsnum list \<Rightarrow> jsnum list \<Rightarrow> jsnum \<Rightarrow> int \<Rightarrow> int \<Rightarrow>
    jsnum list \<times> int \<Rightarrow> jsnum list \<times> int" where
  "advect_cell e g d0 u v d_t j i = (\<lambda>(d, pos).
    let Wdt0 = num_mul d_t (num_of (width g));
        Hdt0 = num_mul d_t (num_of (height g));
        Wp5 = num_add (num_of (width g)) half;
        Hp5 = num_add (num_of (height g)) half;
        pos = pos + 1;
        x = num_sub (num_of i) (num_mul Wdt0 (get e u pos));
        y = num_sub (num_of j) (num_mul Hdt0 (get e v pos))
    in (put e d pos (interpolate e g d0 (clamp Wp5 x) (clamp Hp5 y)), pos))"

definition advect :: "jsnum \<Rightarrow> 'g dims_scheme \<Rightarrow> int \<Rightarrow> jsnum list \<Rightarrow> jsnum list \<Rightarrow> jsnum list \<Rightarrow> jsnum list \<Rightarrow> jsnum \<Rightarrow> jsnum list" where
  "advect e g b d d0 u v d_t =
    set_bnd e g b
      (for_to 1 (height g) (\<lambda>j d. fst (for_to 1 (width g) (advect_cell e g d0 u v d_t j) (d, j * rowSize g))) d)"

section \<open>Projection\<close>

text \<open>The divergence of the velocity, and the pressure that starts from zero.\<close>

definition divergence :: "jsnum \<Rightarrow> 'g dims_scheme \<Rightarrow> jsnum \<Rightarrow> jsnum list \<Rightarrow> jsnum list \<Rightarrow> jsnum list \<times> jsnum list \<Rightarrow> jsnum list \<times> jsnum list" where
  "divergence e g h u v dp =
    for_to 1 (height g) (\<lambda>j (dv, p).
      (let row = j * rowSize g;
           (dv, p, _) = for_to 1 (width g) (\<lambda>i (dv, p, previousRow, prevValue, currentRow, nextValue, nextRow).
             (put e dv (currentRow + 1) (num_mul h (num_sub (num_add (num_sub (get e u (nextValue + 1)) (get e u (prevValue + 1))) (get e v (nextRow + 1)))
                (get e v (previousRow + 1)))), put e p (currentRow + 1) (num_of 0),
              previousRow + 1, prevValue + 1, currentRow + 1, nextValue + 1, nextRow + 1))
             (dv, p, (j - 1) * rowSize g, row - 1, row, row + 1, (j + 1) * rowSize g)
       in (dv, p))) dp"

definition subtract_gradient :: "jsnum \<Rightarrow> 'g dims_scheme \<Rightarrow> jsnum list \<Rightarrow> jsnum list \<times> jsnum list \<Rightarrow> jsnum list \<times> jsnum list" where
  "subtract_gradient e g p uv =
    (let wScale = num_mul half (num_of (width g));
         hScale = num_mul half (num_of (height g))
     in for_to 1 (height g) (\<lambda>j (u, v).
          (let (u, v, _) = for_to 1 (width g) (\<lambda>i (u, v, prevPos, currentPos, nextPos, prevRow, nextRow).
                 (put e u (currentPos + 1) (num_sub (get e u (currentPos + 1)) (num_mul wScale (num_sub (get e p (nextPos + 1)) (get e p (prevPos + 1))))),
                  put e v (currentPos + 1) (num_sub (get e v (currentPos + 1)) (num_mul hScale (num_sub (get e p (nextRow + 1)) (get e p (prevRow + 1))))),
                  prevPos + 1, currentPos + 1, nextPos + 1, prevRow + 1, nextRow + 1))
                 (u, v, j * rowSize g - 1, j * rowSize g, j * rowSize g + 1, (j - 1) * rowSize g, (j + 1) * rowSize g)
           in (u, v))) uv)"

text \<open>Returns \<open>u\<close>, \<open>v\<close>, \<open>p\<close> and \<open>div\<close>. \<open>Math.sqrt\<close> is the argument \<open>msqrt\<close>: the language leaves its rounding to the implementation.\<close>

definition project :: "jsnum \<Rightarrow> (jsnum \<Rightarrow> jsnum) \<Rightarrow> 'g dims_scheme \<Rightarrow> jsnum list \<Rightarrow> jsnum list \<Rightarrow> jsnum list \<Rightarrow> jsnum list \<Rightarrow>
    jsnum list \<times> jsnum list \<times> jsnum list \<times> jsnum list" where
  "project e msqrt g u v p dv =
    (let h = num_div (Fin (- 1 / 2)) (msqrt (num_mul (num_of (width g)) (num_of (height g))));
         (dv, p) = divergence e g h u v (dv, p);
         dv = set_bnd e g 0 dv;
         p = set_bnd e g 0 p;
         p = lin_solve e g 0 p dv (num_of 1) (num_of 4);
         (u, v) = subtract_gradient e g p (u, v)
     in (set_bnd e g 1 u, set_bnd e g 2 v, p, dv))"

section \<open>Steps\<close>

text \<open>Returns \<open>x\<close> and \<open>x0\<close>.\<close>

definition dens_step :: "jsnum \<Rightarrow> 'g dims_scheme \<Rightarrow> jsnum list \<Rightarrow> jsnum list \<Rightarrow> jsnum list \<Rightarrow> jsnum list \<Rightarrow> jsnum \<Rightarrow> jsnum list \<times> jsnum list" where
  "dens_step e g x x0 u v d =
    (let x = addFields e g x x0 d; x0 = diffuse e g 0 x0 x; x = advect e g 0 x x0 u v d in (x, x0))"

text \<open>Returns the four fields under the names of the caller; the names \<open>u\<close>, \<open>u0\<close> and \<open>v\<close>, \<open>v0\<close> are exchanged twice.\<close>

definition vel_step :: "jsnum \<Rightarrow> (jsnum \<Rightarrow> jsnum) \<Rightarrow> 'g dims_scheme \<Rightarrow> jsnum list \<Rightarrow> jsnum list \<Rightarrow> jsnum list \<Rightarrow> jsnum list \<Rightarrow> jsnum \<Rightarrow>
    jsnum list \<times> jsnum list \<times> jsnum list \<times> jsnum list" where
  "vel_step e msqrt g u v u0 v0 d =
    (let u = addFields e g u u0 d;
         v = addFields e g v v0 d;
         (u, u0) = (u0, u);
         (v, v0) = (v0, v);
         (u, v) = diffuse2 e g u u0 v v0;
         (u, v, u0, v0) = project e msqrt g u v u0 v0;
         (u, u0) = (u0, u);
         (v, v0) = (v0, v);
         u = advect e g 1 u u0 u0 v0 d;
         v = advect e g 2 v v0 u0 v0 d
     in project e msqrt g u v u0 v0)"

section \<open>The solver\<close>

record fluid = dims +
  dens :: "jsnum list"
  dens_prev :: "jsnum list"
  fu :: "jsnum list"
  u_prev :: "jsnum list"
  fv :: "jsnum list"
  v_prev :: "jsnum list"

text \<open>The \<open>Field\<close> that is shown to a callback: density and velocity.\<close>

type_synonym view = "jsnum list \<times> jsnum list \<times> jsnum list"

definition setDensity :: "jsnum \<Rightarrow> 'g dims_scheme \<Rightarrow> int \<Rightarrow> int \<Rightarrow> jsnum \<Rightarrow> view \<Rightarrow> view" where
  "setDensity e g x y d = (\<lambda>(dns, u, v). (put e dns ((x + 1) + (y + 1) * rowSize g) d, u, v))"

definition getDensity :: "jsnum \<Rightarrow> 'g dims_scheme \<Rightarrow> int \<Rightarrow> int \<Rightarrow> view \<Rightarrow> jsnum" where
  "getDensity e g x y = (\<lambda>(dns, u, v). get e dns ((x + 1) + (y + 1) * rowSize g))"

definition setVelocity :: "jsnum \<Rightarrow> 'g dims_scheme \<Rightarrow> int \<Rightarrow> int \<Rightarrow> jsnum \<Rightarrow> jsnum \<Rightarrow> view \<Rightarrow> view" where
  "setVelocity e g x y xv yv =
    (\<lambda>(dns, u, v). (dns, put e u ((x + 1) + (y + 1) * rowSize g) xv, put e v ((x + 1) + (y + 1) * rowSize g) yv))"

definition getXVelocity :: "jsnum \<Rightarrow> 'g dims_scheme \<Rightarrow> int \<Rightarrow> int \<Rightarrow> view \<Rightarrow> jsnum" where
  "getXVelocity e g x y = (\<lambda>(dns, u, v). get e u ((x + 1) + (y + 1) * rowSize g))"

definition getYVelocity :: "jsnum \<Rightarrow> 'g dims_scheme \<Rightarrow> int \<Rightarrow> int \<Rightarrow> view \<Rightarrow> jsnum" where
  "getYVelocity e g x y = (\<lambda>(dns, u, v). get e v ((x + 1) + (y + 1) * rowSize g))"

text \<open>\<open>queryUI\<close>: the fields are cleared and shown to the callback, which has a state of its own.\<close>

definition queryUI :: "jsnum \<Rightarrow> 'g dims_scheme \<Rightarrow> ('g dims_scheme \<Rightarrow> view \<Rightarrow> 's \<Rightarrow> view \<times> 's) \<Rightarrow> view \<Rightarrow> 's \<Rightarrow> view \<times> 's" where
  "queryUI e g ui dvw s =
    ui g (for_to 0 (fsize g - 1) (\<lambda>i (d, u, v).
      (put e d i (num_of 0), put e u i (num_of 0), put e v i (num_of 0))) dvw) s"

definition update :: "jsnum \<Rightarrow> (jsnum \<Rightarrow> jsnum) \<Rightarrow> (dims \<Rightarrow> view \<Rightarrow> 's \<Rightarrow> view \<times> 's) \<Rightarrow> (dims \<Rightarrow> view \<Rightarrow> view) \<Rightarrow> fluid \<Rightarrow> 's \<Rightarrow> fluid \<times> 's" where
  "update e msqrt ui displayFunc f s =
    (let g = dims.truncate f;
         ((d0, u0, v0), s) = queryUI e g ui (dens_prev f, u_prev f, v_prev f) s;
         (u, v, u0, v0) = vel_step e msqrt g (fu f) (fv f) u0 v0 dt;
         (d, d0) = dens_step e g (dens f) d0 u v dt;
         (d, u, v) = displayFunc g (d, u, v)
     in (f\<lparr>dens := d, dens_prev := d0, fu := u, u_prev := u0, fv := v, v_prev := v0\<rparr>, s))"

definition setIterations :: "int \<Rightarrow> fluid \<Rightarrow> fluid" where
  "setIterations iters f = (if iters > 0 \<and> iters \<le> 100 then f\<lparr>iterations := iters\<rparr> else f)"

definition reset_fluid :: "fluid \<Rightarrow> fluid res" where
  "reset_fluid f =
    (let rs = width f + 2; size = (width f + 2) * (height f + 2); z = replicate (nat size) (num_of 0)
     in if size < 0 then throw RangeError
        else ok (f\<lparr>rowSize := rs, fsize := size, dens := z, dens_prev := z, fu := z, u_prev := z, fv := z, v_prev := z\<rparr>))"

text \<open>The dimensions of a new solver are \<open>undefined\<close> and differ from any number; here they are 0, which no accepted resolution has.\<close>

definition setResolution :: "int \<Rightarrow> int \<Rightarrow> fluid \<Rightarrow> (bool \<times> fluid) res" where
  "setResolution hRes wRes f =
    (let res = wRes * hRes
     in if res > 0 \<and> res < 1000000 \<and> (wRes \<noteq> width f \<or> hRes \<noteq> height f) then
          rbind (reset_fluid (f\<lparr>width := wRes, height := hRes\<rparr>)) (\<lambda>f. ok (True, f))
        else ok (False, f))"

definition new_FluidField :: "fluid res" where
  "new_FluidField =
    rbind (setResolution 64 64 \<lparr>iterations = 10, width = 0, height = 0, rowSize = 0, fsize = 0, dens = [], dens_prev = [], fu = [], u_prev = [], fv = [], v_prev = []\<rparr>)
      (\<lambda>(_, f). ok f)"

section \<open>The benchmark\<close>

definition addPoints :: "jsnum \<Rightarrow> 'g dims_scheme \<Rightarrow> view \<Rightarrow> view" where
  "addPoints e g field =
    (let n = 64
     in for_to 1 n (\<lambda>i field.
          let field = setVelocity e g i i (num_of n) (num_of n) field;
              field = setDensity e g i i (num_of 5) field;
              field = setVelocity e g i (n - i) (num_of (- n)) (num_of (- n)) field;
              field = setDensity e g i (n - i) (num_of 20) field;
              field = setVelocity e g (128 - i) (n + i) (num_of (- n)) (num_of (- n)) field
          in setDensity e g (128 - i) (n + i) (num_of 30) field) field)"

text \<open>The counters \<open>framesTillAddingPoints\<close> and \<open>framesBetweenAddingPoints\<close>.\<close>

definition prepareFrame :: "jsnum \<Rightarrow> 'g dims_scheme \<Rightarrow> view \<Rightarrow> int \<times> int \<Rightarrow> view \<times> int \<times> int" where
  "prepareFrame e g field = (\<lambda>(till, between).
    if till = 0 then (addPoints e g field, between, between + 1) else (field, till - 1, between))"

record ns_page =
  solver :: "fluid option"
  frames :: "int \<times> int"

definition ns_start :: ns_page where
  "ns_start = \<lparr>solver = None, frames = (0, 5)\<rparr>"

definition setupNavierStokes :: "ns_page \<Rightarrow> ns_page res" where
  "setupNavierStokes p =
    rbind new_FluidField (\<lambda>f.
    rbind (setResolution 128 128 f) (\<lambda>(_, f).
    rbind (reset_fluid (setIterations 20 f)) (\<lambda>f. ok (p\<lparr>solver := Some f\<rparr>))))"

definition runNavierStokes :: "jsnum \<Rightarrow> (jsnum \<Rightarrow> jsnum) \<Rightarrow> ns_page \<Rightarrow> ns_page res" where
  "runNavierStokes e msqrt p =
    (case solver p of
       None \<Rightarrow> throw TypeError
     | Some f \<Rightarrow> (let (f, s) = update e msqrt (prepareFrame e) (\<lambda>g x. x) f (frames p) in ok (p\<lparr>solver := Some f, frames := s\<rparr>)))"

definition tearDownNavierStokes :: "ns_page \<Rightarrow> ns_page" where
  "tearDownNavierStokes p = p\<lparr>solver := None\<rparr>"

end
