(* ===== verification/Navier_Fields.thy ===== *)
theory Navier_Fields
  imports Navier_Stokes
begin

text \<open>
  The procedures of the fluid solver read and write inside of their fields: on a grid with positive sides their results do not depend
  on what an element outside counts as (\<open>det\<close>), and the fields keep their size. Advection needs that the clamped coordinates of any
  double lie in the grid. Fields of zeros, of either sign, stay fields of zeros.
\<close>

section \<open>Runs that do not depend on what is outside\<close>

text \<open>The value is the same whatever an element outside of a field counts as, and has a property.\<close>

definition det :: "(jsnum \<Rightarrow> 'a) \<Rightarrow> ('a \<Rightarrow> bool) \<Rightarrow> bool" where
  "det F Q \<longleftrightarrow> (\<exists>y. (\<forall>e. F e = y) \<and> Q y)"

lemma det_const: "Q y \<Longrightarrow> det (\<lambda>e. y) Q"
  by (simp add: det_def)

lemma det_weaken: "det F Q \<Longrightarrow> (\<And>y. Q y \<Longrightarrow> R y) \<Longrightarrow> det F R"
  by (auto simp: det_def)

lemma det_then: "det F Q \<Longrightarrow> (\<And>y. Q y \<Longrightarrow> det (\<lambda>e. G e y) R) \<Longrightarrow> det (\<lambda>e. G e (F e)) R"
  by (auto simp: det_def)

lemma det_map: "det F (\<lambda>y. Q (f y)) \<Longrightarrow> det (\<lambda>e. f (F e)) Q"
  by (auto simp: det_def)

lemma det_for:
  assumes "a \<le> b + 1" "I a s" "\<And>i s. a \<le> i \<Longrightarrow> i \<le> b \<Longrightarrow> I i s \<Longrightarrow> det (\<lambda>e. body e i s) (I (i + 1))"
  shows "det (\<lambda>e. for_to a b (body e) s) (I (b + 1))"
  using assms
proof (induction "nat (b + 1 - a)" arbitrary: a s)
  case 0
  then have "a = b + 1" by simp
  then show ?case using 0 by (simp add: for_to_def det_const)
next
  case (Suc n)
  then have ab: "a \<le> b" by simp
  obtain s' where s': "\<And>e. body e a s = s'" "I (a + 1) s'" using Suc(5) [of a s] Suc(4) ab by (auto simp: det_def)
  have "for_to a b (body e) s = for_to (a + 1) b (body e) s'" for e
    using ab s'(1) by (simp add: for_to_def upto_rec1)
  moreover have "det (\<lambda>e. for_to (a + 1) b (body e) s') (I (b + 1))"
    using Suc.hyps(2) s'(2) ab by (intro Suc(1)) (auto intro: Suc(5))
  ultimately show ?case by simp
qed

lemma det_for_same:
  assumes "I s" "\<And>i s. a \<le> i \<Longrightarrow> i \<le> b \<Longrightarrow> I s \<Longrightarrow> det (\<lambda>e. body e i s) I"
  shows "det (\<lambda>e. for_to a b (body e) s) I"
proof (cases "a \<le> b + 1")
  case True
  then show ?thesis by (rule det_for [where I = "\<lambda>i. I"]) (use assms in auto)
next
  case False
  then show ?thesis using assms(1) by (simp add: for_to_def det_const)
qed

section \<open>Zero and finite numbers\<close>

definition is_zero :: "jsnum \<Rightarrow> bool" where
  "is_zero v \<longleftrightarrow> v = NegZero \<or> v = Fin 0"

definition finite_num :: "jsnum \<Rightarrow> bool" where
  "finite_num v \<longleftrightarrow> v = NegZero \<or> (\<exists>r. v = Fin r)"

lemma round_zero [simp]: "round_double 0 = Fin 0"
  by (simp add: round_double_def)

lemma zero_of [simp]: "is_zero (num_of 0)" "is_zero (Fin 0)"
  by (simp_all add: is_zero_def num_of_def)

lemma finite_of [simp]: "finite_num (num_of i)" "finite_num (Fin r)"
  by (simp_all add: finite_num_def num_of_def)

lemma zero_finite: "is_zero v \<Longrightarrow> finite_num v"
  by (auto simp: is_zero_def finite_num_def)

lemma zero_neg: "is_zero v \<Longrightarrow> is_zero (num_neg v)"
  by (auto simp: is_zero_def)

lemma zero_add: "is_zero a \<Longrightarrow> is_zero b \<Longrightarrow> is_zero (num_add a b)"
  by (auto simp: is_zero_def num_rat_def)

lemma zero_sub: "is_zero a \<Longrightarrow> is_zero b \<Longrightarrow> is_zero (num_sub a b)"
  by (simp add: num_sub_def zero_add zero_neg)

lemma signed_zero: "is_zero (signed b 0)"
  by (simp add: signed_def is_zero_def)

lemma zeroD: "is_zero v \<Longrightarrow> v = NegZero \<or> v = Fin 0"
  by (simp add: is_zero_def)

lemma zero_mul: "is_zero a \<Longrightarrow> finite_num b \<Longrightarrow> is_zero (num_mul a b)" "is_zero a \<Longrightarrow> finite_num b \<Longrightarrow> is_zero (num_mul b a)"
  by (auto simp: finite_num_def num_rat_def signed_zero dest!: zeroD)

lemma zero_opposite: "is_zero v \<Longrightarrow> is_zero (opposite b v)"
  by (simp add: opposite_def zero_neg)

lemma finite_round: "1 / 2 ^ 100 \<le> \<bar>x\<bar> \<Longrightarrow> \<bar>x\<bar> \<le> 2 ^ 100 \<Longrightarrow> finite_num (round_double x)"
  using round_double_near [of x] by (cases "x = 0") auto

lemma finite_half [simp]: "finite_num half"
  by (simp add: half_def)

section \<open>Cells\<close>

definition grid :: "'g dims_scheme \<Rightarrow> bool" where
  "grid g \<longleftrightarrow> 1 \<le> width g \<and> width g < 1000000 \<and> 1 \<le> height g \<and> height g < 1000000 \<and> rowSize g = width g + 2 \<and>
    fsize g = (width g + 2) * (height g + 2)"

definition sized :: "'g dims_scheme \<Rightarrow> jsnum list \<Rightarrow> bool" where
  "sized g x \<longleftrightarrow> int (length x) = fsize g"

definition resting :: "jsnum list \<Rightarrow> bool" where
  "resting x \<longleftrightarrow> (\<forall>v \<in> set x. is_zero v)"

definition inside :: "'g dims_scheme \<Rightarrow> int \<Rightarrow> bool" where
  "inside g k \<longleftrightarrow> 0 \<le> k \<and> k < fsize g"

lemma cell_inside:
  assumes "grid g" "0 \<le> i" "i \<le> width g + 1" "0 \<le> j" "j \<le> height g + 1"
  shows "inside g (i + j * rowSize g)"
proof -
  have "j * rowSize g \<le> (height g + 1) * rowSize g" using assms by (intro mult_right_mono) (auto simp: grid_def)
  moreover have "fsize g = (height g + 1) * rowSize g + rowSize g" using assms(1) by (simp add: grid_def algebra_simps)
  moreover have "0 \<le> j * rowSize g" using assms by (auto simp: grid_def)
  moreover have "rowSize g = width g + 2" using assms(1) by (simp add: grid_def)
  ultimately show ?thesis unfolding inside_def using assms(2,3) by linarith
qed

lemma get_inside: "sized g x \<Longrightarrow> inside g k \<Longrightarrow> get e x k = x ! nat k"
  by (simp add: get_def sized_def inside_def)

lemma put_inside: "sized g x \<Longrightarrow> inside g k \<Longrightarrow> put e x k v = x[nat k := v]"
  by (simp add: put_def sized_def inside_def)

lemma sized_update [simp]: "sized g (x[k := v]) = sized g x"
  by (simp add: sized_def)

lemma resting_update: "resting x \<Longrightarrow> is_zero v \<Longrightarrow> resting (x[k := v])"
  using set_update_subset_insert [of x k v] by (auto simp: resting_def)

lemma resting_nth: "resting x \<Longrightarrow> sized g x \<Longrightarrow> inside g k \<Longrightarrow> is_zero (x ! nat k)"
proof -
  assume "resting x" "sized g x" "inside g k"
  moreover from this have "nat k < length x" by (simp add: sized_def inside_def nat_less_iff)
  ultimately show ?thesis by (simp add: resting_def)
qed

text \<open>A field of the right size, and at rest if that is asked for.\<close>

definition fld :: "bool \<Rightarrow> 'g dims_scheme \<Rightarrow> jsnum list \<Rightarrow> bool" where
  "fld r g x \<longleftrightarrow> sized g x \<and> (r \<longrightarrow> resting x)"

lemma fld_get: "fld r g x \<Longrightarrow> inside g k \<Longrightarrow> get e x k = x ! nat k \<and> (r \<longrightarrow> is_zero (x ! nat k))"
  using get_inside [of g x k e] resting_nth [of x g k] by (auto simp: fld_def)

lemma fld_put: "fld r g x \<Longrightarrow> inside g k \<Longrightarrow> (r \<longrightarrow> is_zero v) \<Longrightarrow> put e x k v = x[nat k := v] \<and> fld r g (x[nat k := v])"
  using put_inside [of g x k e v] resting_update [of x v "nat k"] by (auto simp: fld_def)

text \<open>One assignment whose right-hand side reads inside.\<close>

lemma det_put:
  assumes "fld r g x" "inside g k" "det v (\<lambda>y. r \<longrightarrow> is_zero y)"
  shows "det (\<lambda>e. put e x k (v e)) (fld r g)"
  using assms fld_put [OF assms(1,2)] by (auto simp: det_def)

lemma det_get: "fld r g x \<Longrightarrow> inside g k \<Longrightarrow> det (\<lambda>e. get e x k) (\<lambda>y. r \<longrightarrow> is_zero y)"
  using fld_get [of r g x k] unfolding det_def by (intro exI [of _ "x ! nat k"]) simp

lemma det_op2:
  "det v (\<lambda>y. r \<longrightarrow> P y) \<Longrightarrow> det w (\<lambda>y. r \<longrightarrow> Q y) \<Longrightarrow> (\<And>a b. r \<Longrightarrow> P a \<Longrightarrow> Q b \<Longrightarrow> R (f a b)) \<Longrightarrow> det (\<lambda>e. f (v e) (w e)) (\<lambda>y. r \<longrightarrow> R y)"
  unfolding det_def by (elim exE conjE) simp

lemma det_op1: "det v (\<lambda>y. r \<longrightarrow> P y) \<Longrightarrow> (\<And>a. r \<Longrightarrow> P a \<Longrightarrow> R (f a)) \<Longrightarrow> det (\<lambda>e. f (v e)) (\<lambda>y. r \<longrightarrow> R y)"
  unfolding det_def by (elim exE conjE) simp

lemmas det_zero =
  det_op2 [where f = num_add and P = is_zero and Q = is_zero and R = is_zero, OF _ _ zero_add]
  det_op2 [where f = num_sub and P = is_zero and Q = is_zero and R = is_zero, OF _ _ zero_sub]
  det_op1 [where f = "opposite b" and P = is_zero and R = is_zero for b, OF _ zero_opposite]

lemma det_scale:
  "r \<longrightarrow> finite_num c \<Longrightarrow> det v (\<lambda>y. r \<longrightarrow> is_zero y) \<Longrightarrow> det (\<lambda>e. num_mul c (v e)) (\<lambda>y. r \<longrightarrow> is_zero y)"
  "r \<longrightarrow> finite_num c \<Longrightarrow> det v (\<lambda>y. r \<longrightarrow> is_zero y) \<Longrightarrow> det (\<lambda>e. num_mul (v e) c) (\<lambda>y. r \<longrightarrow> is_zero y)"
  using zero_mul by (auto simp: det_def)

lemma det_let: "det F Q \<Longrightarrow> (\<And>y. Q y \<Longrightarrow> det (\<lambda>e. G e y) R) \<Longrightarrow> det (\<lambda>e. let y = F e in G e y) R"
  by (auto simp: det_def)

lemma det_any: "(\<And>r. det v (\<lambda>y. r \<longrightarrow> is_zero y)) \<Longrightarrow> det v (\<lambda>y. True)"
  by (auto simp: det_def)

text \<open>The positions that the procedures use.\<close>

lemma inside_row:
  assumes "grid g" "0 \<le> i" "i \<le> width g + 1"
  shows "inside g i" "inside g (i + rowSize g)" "inside g (i + height g * rowSize g)" "inside g (i + (height g + 1) * rowSize g)"
  using cell_inside [OF assms, of 0] cell_inside [OF assms, of 1] cell_inside [OF assms, of "height g"] cell_inside [OF assms, of "height g + 1"] assms(1)
  by (simp_all add: grid_def)

lemma inside_column:
  assumes "grid g" "0 \<le> j" "j \<le> height g + 1"
  shows "inside g (j * rowSize g)" "inside g (1 + j * rowSize g)" "inside g (width g + j * rowSize g)" "inside g (width g + 1 + j * rowSize g)"
  using cell_inside [OF assms(1) _ _ assms(2,3), of 0] cell_inside [OF assms(1) _ _ assms(2,3), of 1]
    cell_inside [OF assms(1) _ _ assms(2,3), of "width g"] cell_inside [OF assms(1) _ _ assms(2,3), of "width g + 1"] assms(1)
  by (simp_all add: grid_def)

section \<open>The procedures\<close>

lemma addFields_det:
  assumes "grid g" "fld r g x" "fld r g s" "r \<longrightarrow> finite_num d"
  shows "det (\<lambda>e. addFields e g x s d) (fld r g)"
proof -
  have "0 \<le> fsize g - 1 + 1" using assms(1) by (simp add: grid_def)
  then show ?thesis
    unfolding addFields_def
  proof (rule det_for [where I = "\<lambda>i. fld r g"])
    fix i x assume "0 \<le> i" "i \<le> fsize g - 1" "fld r g x"
    then show "det (\<lambda>e. put e x i (num_add (get e x i) (num_mul d (get e s i)))) (fld r g)"
      using assms(3,4) by (intro det_put det_zero det_scale det_get) (auto simp: inside_def)
  qed (rule assms(2))
qed

lemma bnd_rows_det:
  assumes "grid g" "fld r g x"
  shows "det (\<lambda>e. bnd_rows e g b x) (fld r g)"
proof -
  have "1 \<le> width g + 1" using assms(1) by (simp add: grid_def)
  then show ?thesis
    unfolding bnd_rows_def
  proof (rule det_for [where I = "\<lambda>i. fld r g"])
    fix i x assume i: "1 \<le> i" "i \<le> width g" "fld r g x"
    have p: "inside g i" "inside g (i + rowSize g)" "inside g (i + height g * rowSize g)" "inside g (i + (height g + 1) * rowSize g)"
      using i inside_row [OF assms(1), of i] by simp_all
    show "det (\<lambda>e. let x = put e x i (opposite b (get e x (i + rowSize g)))
      in put e x (i + (height g + 1) * rowSize g) (opposite b (get e x (i + height g * rowSize g)))) (fld r g)"
      using i(3) p by (intro det_let [where Q = "fld r g"] det_put det_zero det_get)
  qed (rule assms(2))
qed

lemma bnd_column_det:
  assumes "grid g" "fld r g x" "1 \<le> j" "j \<le> height g"
  shows "det (\<lambda>e. bnd_column e g b j x) (fld r g)"
proof -
  have p: "inside g (j * rowSize g)" "inside g (1 + j * rowSize g)" "inside g (width g + j * rowSize g)" "inside g (width g + 1 + j * rowSize g)"
    using assms(3,4) inside_column [OF assms(1), of j] by simp_all
  show ?thesis unfolding bnd_column_def using assms(2) p by (intro det_let [where Q = "fld r g"] det_put det_zero det_get)
qed

lemma bnd_columns_det:
  assumes "grid g" "fld r g x"
  shows "det (\<lambda>e. bnd_columns e g x) (fld r g)"
proof -
  have "1 \<le> height g + 1" using assms(1) by (simp add: grid_def)
  then show ?thesis
    unfolding bnd_columns_def by (rule det_for [where I = "\<lambda>i. fld r g"]) (use assms bnd_column_det in auto)
qed

lemma bnd_corners_det:
  assumes "grid g" "fld r g x"
  shows "det (\<lambda>e. bnd_corners e g x) (fld r g)"
proof -
  have w: "0 \<le> width g" "0 \<le> height g" using assms(1) by (simp_all add: grid_def)
  have p: "inside g 0" "inside g 1" "inside g (rowSize g)" "inside g ((height g + 1) * rowSize g)" "inside g (1 + (height g + 1) * rowSize g)"
    "inside g (height g * rowSize g)" "inside g (width g + 1)" "inside g (width g)" "inside g (width g + 1 + rowSize g)"
    "inside g (width g + (height g + 1) * rowSize g)" "inside g (width g + 1 + (height g + 1) * rowSize g)" "inside g (width g + 1 + height g * rowSize g)"
    using w inside_row [OF assms(1), of 0] inside_row [OF assms(1), of 1] inside_row [OF assms(1), of "width g"] inside_row [OF assms(1), of "width g + 1"]
    by simp_all
  show ?thesis
    unfolding bnd_corners_def
    apply (subst Let_def, subst Let_def, subst Let_def, subst Let_def)
    using assms(2) p by (intro det_let [where Q = "fld r g"] det_put det_zero det_scale det_get) simp_all
qed

lemma bnd_columns_i_det:
  assumes "grid g" "fld r g x"
  shows "det (\<lambda>e. bnd_columns_i e g x) (fld r g)"
  unfolding bnd_columns_i_def
proof (rule det_for_same)
  have "1 \<le> height g" using assms(1) by (simp add: grid_def)
  then show "det (\<lambda>e. bnd_column e g True 1 x) (fld r g)" if "fld r g x" for x
    using bnd_column_det [OF assms(1) that, of 1] by simp
qed (rule assms(2))

lemma set_bnd_det:
  assumes "grid g" "fld r g x"
  shows "det (\<lambda>e. set_bnd e g b x) (fld r g)"
proof -
  have "det (\<lambda>e. bnd_columns e g (bnd_rows e g s x)) (fld r g)" for s
    by (rule det_then [where G = "\<lambda>e. bnd_columns e g", OF bnd_rows_det [OF assms]], rule bnd_columns_det [OF assms(1)])
  moreover have "det (\<lambda>e. bnd_columns_i e g (bnd_rows e g False x)) (fld r g)"
    by (rule det_then [where G = "\<lambda>e. bnd_columns_i e g", OF bnd_rows_det [OF assms]], rule bnd_columns_i_det [OF assms(1)])
  ultimately have "det (\<lambda>e. if b = 1 then bnd_columns_i e g (bnd_rows e g False x)
       else if b = 2 then bnd_columns e g (bnd_rows e g True x) else bnd_columns e g (bnd_rows e g False x)) (fld r g)"
    by (cases "b = 1"; cases "b = 2") simp_all
  then show ?thesis unfolding set_bnd_def by (rule det_then [where G = "\<lambda>e. bnd_corners e g"]) (rule bnd_corners_det [OF assms(1)])
qed

text \<open>The cell of column \<open>i\<close> and row \<open>j\<close> and its neighbours.\<close>

lemma inside_cell:
  assumes "grid g" "1 \<le> i" "i \<le> width g" "1 \<le> j" "j \<le> height g"
  shows "inside g (i + j * rowSize g)" "inside g (i + 1 + j * rowSize g)" "inside g (i - 1 + j * rowSize g)"
    "inside g (i + (j - 1) * rowSize g)" "inside g (i + (j + 1) * rowSize g)"
    "inside g (i - 1 + (j - 1) * rowSize g)" "inside g (i - 1 + (j + 1) * rowSize g)"
  by (rule cell_inside [OF assms(1)]; use assms in simp)+

lemma rows_cols: "grid g \<Longrightarrow> 1 \<le> height g + 1 \<and> 1 \<le> width g + 1 \<and> 0 \<le> width g - 1 + 1"
  by (simp add: grid_def)

lemma copy_inner_det:
  assumes "grid g" "fld r g x0" "fld r g x"
  shows "det (\<lambda>e. copy_inner e g x0 x) (fld r g)"
  unfolding copy_inner_def
proof (rule det_for [where I = "\<lambda>i. fld r g"])
  fix j x assume j: "1 \<le> j" "j \<le> height g" "fld r g x"
  have "det (\<lambda>e. for_to 0 (width g - 1) (\<lambda>i (x, currentRow). (put e x currentRow (get e x0 currentRow), currentRow + 1)) (x, j * rowSize g + 1))
      ((\<lambda>i (x, c). fld r g x \<and> c = i + 1 + j * rowSize g) (width g - 1 + 1))"
  proof (rule det_for)
    fix i s assume i: "0 \<le> i" "i \<le> width g - 1" "(\<lambda>(x, c). fld r g x \<and> c = i + 1 + j * rowSize g) s"
    obtain x c where s: "s = (x, c)" by fastforce
    have c: "fld r g x" "c = i + 1 + j * rowSize g" "inside g c" using i s inside_cell(1) [OF assms(1), of "i + 1" j] j by auto
    have "det (\<lambda>e. put e x c (get e x0 c)) (fld r g)" using c assms(2) by (intro det_put det_get)
    then have "det (\<lambda>e. (put e x c (get e x0 c), c + 1)) (\<lambda>(x, c). fld r g x \<and> c = i + 1 + 1 + j * rowSize g)"
      using c(2) by (intro det_map [where f = "\<lambda>y. (y, c + 1)"]) simp
    then show "det (\<lambda>e. case s of (x, currentRow) \<Rightarrow> (put e x currentRow (get e x0 currentRow), currentRow + 1)) (\<lambda>(x, c). fld r g x \<and> c = i + 1 + 1 + j * rowSize g)"
      by (simp add: s)
  qed (use j rows_cols [OF assms(1)] in auto)
  then show "det (\<lambda>e. fst (for_to 0 (width g - 1) (\<lambda>i (x, currentRow). (put e x currentRow (get e x0 currentRow), currentRow + 1)) (x, j * rowSize g + 1))) (fld r g)"
    by (intro det_map [where f = fst]) (auto elim: det_weaken)
qed (use assms(3) rows_cols [OF assms(1)] in auto)

lemma relax_cell_det:
  assumes "grid g" "fld r g x0" "r \<longrightarrow> finite_num a" "r \<longrightarrow> finite_num invC" "1 \<le> i" "i \<le> width g" "1 \<le> j" "j \<le> height g"
    and "fld r g x" "r \<longrightarrow> is_zero lastX"
  shows "det (\<lambda>e. relax_cell e x0 a invC (x, lastX, i + j * rowSize g, i - 1 + (j - 1) * rowSize g, i - 1 + (j + 1) * rowSize g))
    (\<lambda>(x, lastX, c, l, n). fld r g x \<and> (r \<longrightarrow> is_zero lastX) \<and> c = i + 1 + j * rowSize g \<and> l = i + (j - 1) * rowSize g \<and> n = i + (j + 1) * rowSize g)"
proof -
  note p = inside_cell [OF assms(1,5-8)]
  have e: "i + j * rowSize g + 1 = i + 1 + j * rowSize g" "i - 1 + (j - 1) * rowSize g + 1 = i + (j - 1) * rowSize g"
    "i - 1 + (j + 1) * rowSize g + 1 = i + (j + 1) * rowSize g" by simp_all
  let ?v = "\<lambda>e. num_mul (num_add (get e x0 (i + j * rowSize g))
    (num_mul a (num_add (num_add (num_add lastX (get e x (i + 1 + j * rowSize g))) (get e x (i + (j - 1) * rowSize g))) (get e x (i + (j + 1) * rowSize g))))) invC"
  have last: "det (\<lambda>e. lastX) (\<lambda>y. r \<longrightarrow> is_zero y)" using assms(10) by (rule det_const)
  have v: "det ?v (\<lambda>y. r \<longrightarrow> is_zero y)"
    using assms(2-4,9) p last by (intro det_scale det_zero det_get)
  show ?thesis
    unfolding relax_cell_def prod.case e
  proof (rule det_let [OF v])
    fix y assume y: "r \<longrightarrow> is_zero y"
    have "det (\<lambda>e. put e x (i + j * rowSize g) y) (fld r g)" by (rule det_put [OF assms(9) p(1)], rule det_const, rule y)
    then show "det (\<lambda>e. (put e x (i + j * rowSize g) y, y, i + 1 + j * rowSize g, i + (j - 1) * rowSize g, i + (j + 1) * rowSize g))
      (\<lambda>(x, lastX, c, l, n). fld r g x \<and> (r \<longrightarrow> is_zero lastX) \<and> c = i + 1 + j * rowSize g \<and> l = i + (j - 1) * rowSize g \<and> n = i + (j + 1) * rowSize g)"
      using y by (intro det_map [where f = "\<lambda>z. (z, y, i + 1 + j * rowSize g, i + (j - 1) * rowSize g, i + (j + 1) * rowSize g)"]) simp
  qed
qed

lemma relax_det:
  assumes "grid g" "fld r g x0" "r \<longrightarrow> finite_num a" "r \<longrightarrow> finite_num invC" "fld r g x"
  shows "det (\<lambda>e. relax e g x0 a invC x) (fld r g)"
  unfolding relax_def
proof (rule det_for [where I = "\<lambda>i. fld r g"])
  fix j x assume j: "1 \<le> j" "j \<le> height g" "fld r g x"
  have s: "inside g (j * rowSize g)" using inside_column [OF assms(1), of j] j by simp
  have loop: "det (\<lambda>e. for_to 1 (width g) (\<lambda>i. relax_cell e x0 a invC) (x, lastX, j * rowSize g + 1, (j - 1) * rowSize g, (j + 1) * rowSize g))
      ((\<lambda>i (x, lastX, c, l, n). fld r g x \<and> (r \<longrightarrow> is_zero lastX) \<and> c = i + j * rowSize g \<and> l = i - 1 + (j - 1) * rowSize g \<and> n = i - 1 + (j + 1) * rowSize g) (width g + 1))"
    if "r \<longrightarrow> is_zero lastX" for lastX
  proof (rule det_for)
    fix i s
    assume i: "1 \<le> i" "i \<le> width g" "(\<lambda>(x, lastX, c, l, n). fld r g x \<and> (r \<longrightarrow> is_zero lastX) \<and> c = i + j * rowSize g \<and>
      l = i - 1 + (j - 1) * rowSize g \<and> n = i - 1 + (j + 1) * rowSize g) s"
    then obtain x lastX where s: "s = (x, lastX, i + j * rowSize g, i - 1 + (j - 1) * rowSize g, i - 1 + (j + 1) * rowSize g)"
      "fld r g x" "r \<longrightarrow> is_zero lastX" by (auto split: prod.splits)
    show "det (\<lambda>e. relax_cell e x0 a invC s) (\<lambda>(x, lastX, c, l, n). fld r g x \<and> (r \<longrightarrow> is_zero lastX) \<and> c = i + 1 + j * rowSize g \<and>
      l = i + 1 - 1 + (j - 1) * rowSize g \<and> n = i + 1 - 1 + (j + 1) * rowSize g)"
      using relax_cell_det [OF assms(1-4) i(1,2) j(1,2) s(2,3)] by (simp add: s(1))
  qed (use j that rows_cols [OF assms(1)] in auto)
  have "det (\<lambda>e. fst (for_to 1 (width g) (\<lambda>i. relax_cell e x0 a invC) (x, lastX, j * rowSize g + 1, (j - 1) * rowSize g, (j + 1) * rowSize g))) (fld r g)"
    if "r \<longrightarrow> is_zero lastX" for lastX
    by (rule det_map [where f = fst], rule det_weaken [OF loop [OF that]]) auto
  then show "det (\<lambda>e. fst (for_to 1 (width g) (\<lambda>i. relax_cell e x0 a invC)
      (x, get e x (j * rowSize g), j * rowSize g + 1, (j - 1) * rowSize g, (j + 1) * rowSize g))) (fld r g)"
    by (rule det_then [where G = "\<lambda>e lastX. fst (for_to 1 (width g) (\<lambda>i. relax_cell e x0 a invC)
      (x, lastX, j * rowSize g + 1, (j - 1) * rowSize g, (j + 1) * rowSize g))", OF det_get [OF j(3) s]])
qed (use assms(5) rows_cols [OF assms(1)] in auto)

lemma lin_solve_det:
  assumes "grid g" "fld r g x" "fld r g x0" "r \<longrightarrow> finite_num a" "r \<longrightarrow> finite_num (num_div (num_of 1) c)"
  shows "det (\<lambda>e. lin_solve e g b x x0 a c) (fld r g)"
proof (cases "num_eq a (num_of 0) \<and> num_eq c (num_of 1)")
  case True
  have "det (\<lambda>e. set_bnd e g b (copy_inner e g x0 x)) (fld r g)"
    by (rule det_then [where G = "\<lambda>e. set_bnd e g b", OF copy_inner_det [OF assms(1,3,2)]]) (rule set_bnd_det [OF assms(1)])
  then show ?thesis using True by (simp add: lin_solve_def)
next
  case False
  have "det (\<lambda>e. set_bnd e g b (relax e g x0 a (num_div (num_of 1) c) x)) (fld r g)" if "fld r g x" for x
    by (rule det_then [where G = "\<lambda>e. set_bnd e g b", OF relax_det [OF assms(1,3-5) that]]) (rule set_bnd_det [OF assms(1)])
  then have "det (\<lambda>e. for_to 0 (iterations g - 1) (\<lambda>k x. set_bnd e g b (relax e g x0 a (num_div (num_of 1) c) x)) x) (fld r g)"
    by (rule det_for_same [where body = "\<lambda>e k x. set_bnd e g b (relax e g x0 a (num_div (num_of 1) c) x)" and I = "fld r g", OF assms(2)])
  then show ?thesis unfolding lin_solve_def if_not_P [OF False] Let_def .
qed

text \<open>Diffusion only copies: its coefficient is zero.\<close>

lemma zero_coefficient: "num_eq (num_of 0) (num_of 0)" "num_eq (num_add (num_of 1) (num_mul (num_of 4) (num_of 0))) (num_of 1)"
  using num_mul_int [of 4 0] num_add_int [of 1 0] by (simp_all add: num_eq_int exact_def)

lemma diffuse_det:
  assumes "grid g" "fld r g x" "fld r g x0"
  shows "det (\<lambda>e. diffuse e g b x x0) (fld r g)"
proof -
  have "det (\<lambda>e. set_bnd e g b (copy_inner e g x0 x)) (fld r g)"
    by (rule det_then [where G = "\<lambda>e. set_bnd e g b", OF copy_inner_det [OF assms(1,3,2)]]) (rule set_bnd_det [OF assms(1)])
  then show ?thesis by (simp only: diffuse_def lin_solve_def Let_def zero_coefficient simp_thms if_True)
qed

lemma copy2_det:
  assumes "grid g" "fld r g x" "fld r g x0" "fld r g y" "fld r g y0"
  shows "det (\<lambda>e. for_to 1 (height g) (\<lambda>j (x, y).
           (let (x, y, _) = for_to 0 (width g - 1)
                  (\<lambda>i (x, y, currentRow). (put e x currentRow (get e x0 currentRow), put e y currentRow (get e y0 currentRow), currentRow + 1))
                  (x, y, j * rowSize g + 1)
            in (x, y))) (x, y)) (\<lambda>(x, y). fld r g x \<and> fld r g y)"
proof (rule det_for [where I = "\<lambda>i (x, y). fld r g x \<and> fld r g y"])
  fix j s assume j: "1 \<le> j" "j \<le> height g" "(\<lambda>(x, y). fld r g x \<and> fld r g y) s"
  then obtain x y where s: "s = (x, y)" "fld r g x" "fld r g y" by auto
  have "det (\<lambda>e. for_to 0 (width g - 1) (\<lambda>i (x, y, currentRow). (put e x currentRow (get e x0 currentRow), put e y currentRow (get e y0 currentRow), currentRow + 1))
      (x, y, j * rowSize g + 1)) ((\<lambda>i (x, y, c). fld r g x \<and> fld r g y \<and> c = i + 1 + j * rowSize g) (width g - 1 + 1))"
  proof (rule det_for)
    fix i s assume i: "0 \<le> i" "i \<le> width g - 1" "(\<lambda>(x, y, c). fld r g x \<and> fld r g y \<and> c = i + 1 + j * rowSize g) s"
    obtain x y c where s: "s = (x, y, c)" by (cases s) auto
    have c: "fld r g x" "fld r g y" "c = i + 1 + j * rowSize g" "inside g c" using i s inside_cell(1) [OF assms(1), of "i + 1" j] j by auto
    obtain x' where x': "\<forall>e. put e x c (get e x0 c) = x'" "fld r g x'"
      using det_put [OF c(1,4) det_get [OF assms(3) c(4)]] unfolding det_def by blast
    obtain y' where y': "\<forall>e. put e y c (get e y0 c) = y'" "fld r g y'"
      using det_put [OF c(2,4) det_get [OF assms(5) c(4)]] unfolding det_def by blast
    show "det (\<lambda>e. case s of (x, y, currentRow) \<Rightarrow> (put e x currentRow (get e x0 currentRow), put e y currentRow (get e y0 currentRow), currentRow + 1))
      (\<lambda>(x, y, c). fld r g x \<and> fld r g y \<and> c = i + 1 + 1 + j * rowSize g)"
      unfolding det_def s prod.case using x' y' c(3) by simp
  qed (use s j rows_cols [OF assms(1)] in auto)
  then show "det (\<lambda>e. case s of (x, y) \<Rightarrow> (let (x, y, _) = for_to 0 (width g - 1)
                  (\<lambda>i (x, y, currentRow). (put e x currentRow (get e x0 currentRow), put e y currentRow (get e y0 currentRow), currentRow + 1))
                  (x, y, j * rowSize g + 1) in (x, y))) (\<lambda>(x, y). fld r g x \<and> fld r g y)"
    unfolding s(1) prod.case Let_def by (intro det_map [where f = "\<lambda>(x, y, _). (x, y)"]) (auto elim!: det_weaken)
qed (use assms rows_cols [OF assms(1)] in auto)

lemma set_bnd2_det:
  assumes "grid g" "fld r g (fst xy)" "fld r g (snd xy)"
  shows "det (\<lambda>e. set_bnd2 e g xy) (\<lambda>(x, y). fld r g x \<and> fld r g y)"
proof -
  obtain x' where x': "\<forall>e. set_bnd e g 1 (fst xy) = x'" "fld r g x'" using set_bnd_det [OF assms(1,2), of 1] unfolding det_def by blast
  obtain y' where y': "\<forall>e. set_bnd e g 2 (snd xy) = y'" "fld r g y'" using set_bnd_det [OF assms(1,3), of 2] unfolding det_def by blast
  show ?thesis using x' y' unfolding det_def by (cases xy) (simp add: set_bnd2_def)
qed

lemma diffuse2_det:
  assumes "grid g" "fld r g x" "fld r g x0" "fld r g y" "fld r g y0"
  shows "det (\<lambda>e. diffuse2 e g x x0 y y0) (\<lambda>(x, y). fld r g x \<and> fld r g y)"
  unfolding diffuse2_def lin_solve2_def Let_def [of "num_of 0"] if_P [OF conjI [OF zero_coefficient]]
  by (rule det_then [where G = "\<lambda>e. set_bnd2 e g", OF copy2_det [OF assms]]) (use set_bnd2_det [OF assms(1)] in auto)

section \<open>Advection stays inside\<close>

lemma upper_bound:
  assumes "1 \<le> w" "w < 1000000"
  obtains y where "num_add (num_of w) half = Fin y" "of_int w + 1 / 4 \<le> y" "y \<le> of_int w + 3 / 4"
proof -
  define x where "x = (of_int w + 1 / 2 :: rat)"
  have x: "1 \<le> x" "x \<le> 1000001" using assms by (simp_all add: x_def)
  obtain y where y: "round_double x = Fin y" "\<bar>y - x\<bar> \<le> \<bar>x\<bar> * half_ulp"
    using round_double_near [of x] x by auto
  have "\<bar>x\<bar> * half_ulp \<le> 1 / 4" using x by (simp add: half_ulp_def)
  then have "\<bar>y - x\<bar> \<le> 1 / 4" using y(2) by linarith
  then have "of_int w + 1 / 4 \<le> y" "y \<le> of_int w + 3 / 4" unfolding x_def abs_le_iff by linarith+
  moreover have "num_add (num_of w) half = Fin y" using y(1) by (simp add: num_of_def half_def num_rat_def x_def)
  ultimately show ?thesis using that by blast
qed

text \<open>The clamped coordinate of any double, also of \<open>NaN\<close> and the infinities, lies in the grid.\<close>

lemma clamp_inside:
  assumes "1 \<le> w" "w < 1000000"
  shows "0 \<le> num_or0 (clamp (num_add (num_of w) half) z)" "num_or0 (clamp (num_add (num_of w) half) z) \<le> w"
proof -
  obtain y where y: "num_add (num_of w) half = Fin y" "of_int w + 1 / 4 \<le> y" "y \<le> of_int w + 3 / 4"
    using upper_bound [OF assms] by blast
  have fl: "0 \<le> num_or0 (Fin r) \<and> num_or0 (Fin r) \<le> w" if "1 / 2 \<le> r" "r \<le> y" for r
  proof -
    have f: "0 \<le> \<lfloor>r\<rfloor>" "\<lfloor>r\<rfloor> \<le> w" using that y(3) by linarith+
    have "toInt32 k = k" if "0 \<le> k" "k \<le> w" for k using that assms(2) by (intro toInt32_id) simp_all
    then show ?thesis using that f by (simp add: num_or0_def)
  qed
  have b: "(1 :: rat) \<le> of_int w" using assms(1) by simp
  have "0 \<le> num_or0 (clamp (Fin y) z) \<and> num_or0 (clamp (Fin y) z) \<le> w"
  proof (cases z)
    case NaN
    then show ?thesis using assms(1) by (simp add: clamp_def half_def num_or0_def)
  next
    case (Infinity n)
    then show ?thesis using fl [of "1 / 2"] fl [of y] y(2) b by (cases n) (simp_all add: clamp_def half_def)
  next
    case NegZero
    then show ?thesis using fl [of "1 / 2"] y(2) b by (simp add: clamp_def half_def num_rat_def)
  next
    case (Fin r)
    then show ?thesis using fl [of "1 / 2"] fl [of y] fl [of r] y(2) b by (simp add: clamp_def half_def num_rat_def not_less)
  qed
  then show "0 \<le> num_or0 (clamp (num_add (num_of w) half) z)" "num_or0 (clamp (num_add (num_of w) half) z) \<le> w" by (simp_all add: y(1))
qed

lemma num_or0_int: "0 \<le> i \<Longrightarrow> i < 1000000 \<Longrightarrow> num_or0 (num_of i) = i"
  by (simp add: num_or0_def num_of_def toInt32_id)

text \<open>Without velocity the coordinate is the cell itself.\<close>

lemma clamp_rest:
  assumes "1 \<le> i" "i \<le> w" "w < 1000000" "is_zero u" "finite_num c"
  shows "clamp (num_add (num_of w) half) (num_sub (num_of i) (num_mul c u)) = num_of i"
proof -
  obtain y where y: "num_add (num_of w) half = Fin y" "of_int w + 1 / 4 \<le> y" using upper_bound [of w] assms(1-3) by auto
  have "is_zero (num_mul c u)" using assms(4,5) by (rule zero_mul(2))
  then have s: "num_sub (num_of i) (num_mul c u) = num_of i"
    using round_double_int [of i] assms(1-3) by (auto simp: num_sub_def num_of_def num_rat_def dest!: zeroD)
  have "\<not> num_less (num_of i) half" "\<not> num_less (Fin y) (num_of i)"
    using assms(1,2) y(2) by (auto simp: num_of_def half_def num_rat_def not_less)
  then show ?thesis by (simp add: s y(1) clamp_def)
qed

lemma interpolate_det:
  assumes "grid g" "fld r g d0" "x = clamp (num_add (num_of (width g)) half) a" "y = clamp (num_add (num_of (height g)) half) b"
    and "r \<longrightarrow> x = num_of i \<and> y = num_of j" "r \<longrightarrow> 0 \<le> i \<and> i < 1000000 \<and> 0 \<le> j \<and> j < 1000000"
  shows "det (\<lambda>e. interpolate e g d0 x y) (\<lambda>z. r \<longrightarrow> is_zero z)"
proof -
  have i0: "0 \<le> num_or0 x" "num_or0 x \<le> width g" "0 \<le> num_or0 y" "num_or0 y \<le> height g"
    using clamp_inside [of "width g"] clamp_inside [of "height g"] assms(1) unfolding assms(3,4) grid_def by blast+
  have p: "inside g (num_or0 x + num_or0 y * rowSize g)" "inside g (num_or0 x + (num_or0 y + 1) * rowSize g)"
    "inside g (num_or0 x + 1 + num_or0 y * rowSize g)" "inside g (num_or0 x + 1 + (num_or0 y + 1) * rowSize g)"
    by (rule cell_inside [OF assms(1)]; use i0 in simp)+
  define s1 t1 where "s1 = num_sub x (num_of (num_or0 x))" and "t1 = num_sub y (num_of (num_or0 y))"
  have z: "num_sub (num_of k) (num_of (num_or0 (num_of k))) = num_of 0 \<and> num_sub (num_of 1) (num_of 0) = num_of 1"
    if "0 \<le> k" "k < 1000000" for k
    using that num_or0_int [of k] num_sub_int [of k k] num_sub_int [of 1 0] by (simp add: exact_def)
  have f: "r \<longrightarrow> finite_num s1" "r \<longrightarrow> finite_num (num_sub (num_of 1) s1)" "r \<longrightarrow> finite_num t1" "r \<longrightarrow> finite_num (num_sub (num_of 1) t1)"
    using assms(5,6) z [of i] z [of j] by (auto simp: s1_def t1_def)
  show ?thesis
    unfolding interpolate_def Let_def s1_def [symmetric] t1_def [symmetric]
    using assms(2) p f by (intro det_zero det_scale det_get)
qed

lemma advect_cell_det:
  assumes "grid g" "fld r g d0" "fld r g u" "fld r g v" "1 \<le> i" "i \<le> width g" "1 \<le> j" "j \<le> height g" "fld r g d"
    and "r \<longrightarrow> finite_num (num_mul d_t (num_of (width g)))" "r \<longrightarrow> finite_num (num_mul d_t (num_of (height g)))"
  shows "det (\<lambda>e. advect_cell e g d0 u v d_t j i (d, i - 1 + j * rowSize g)) (\<lambda>(d, pos). fld r g d \<and> pos = i + j * rowSize g)"
proof -
  note p = inside_cell(1) [OF assms(1,5-8)]
  define W H where "W = num_mul d_t (num_of (width g))" and "H = num_mul d_t (num_of (height g))"
  define x y where "x = num_sub (num_of i) (num_mul W (u ! nat (i + j * rowSize g)))"
    and "y = num_sub (num_of j) (num_mul H (v ! nat (i + j * rowSize g)))"
  note gu = fld_get [OF assms(3) p] and gv = fld_get [OF assms(4) p]
  have "det (\<lambda>e. interpolate e g d0 (clamp (num_add (num_of (width g)) half) x) (clamp (num_add (num_of (height g)) half) y)) (\<lambda>z. r \<longrightarrow> is_zero z)"
  proof (rule interpolate_det [OF assms(1,2) refl refl])
    show "r \<longrightarrow> clamp (num_add (num_of (width g)) half) x = num_of i \<and> clamp (num_add (num_of (height g)) half) y = num_of j"
      using gu gv clamp_rest [of i "width g" "u ! nat (i + j * rowSize g)" W] clamp_rest [of j "height g" "v ! nat (i + j * rowSize g)" H] assms(1,5-8,10,11)
      unfolding x_def y_def W_def H_def grid_def by blast
    show "r \<longrightarrow> 0 \<le> i \<and> i < 1000000 \<and> 0 \<le> j \<and> j < 1000000" using assms(1,5-8) by (simp add: grid_def)
  qed
  then have d: "det (\<lambda>e. put e d (i + j * rowSize g) (interpolate e g d0 (clamp (num_add (num_of (width g)) half) x) (clamp (num_add (num_of (height g)) half) y))) (fld r g)"
    using assms(9) p by (intro det_put)
  have "advect_cell e g d0 u v d_t j i (d, i - 1 + j * rowSize g) =
    (put e d (i + j * rowSize g) (interpolate e g d0 (clamp (num_add (num_of (width g)) half) x) (clamp (num_add (num_of (height g)) half) y)), i + j * rowSize g)" for e
    using gu gv by (simp add: advect_cell_def Let_def x_def y_def W_def H_def)
  then show ?thesis
    using det_map [where f = "\<lambda>d. (d, i + j * rowSize g)" and Q = "\<lambda>(d, pos). fld r g d \<and> pos = i + j * rowSize g", OF _] d by simp
qed

lemma advect_det:
  assumes "grid g" "fld r g d" "fld r g d0" "fld r g u" "fld r g v"
    and "r \<longrightarrow> finite_num (num_mul d_t (num_of (width g)))" "r \<longrightarrow> finite_num (num_mul d_t (num_of (height g)))"
  shows "det (\<lambda>e. advect e g b d d0 u v d_t) (fld r g)"
proof -
  have "det (\<lambda>e. for_to 1 (height g) (\<lambda>j d. fst (for_to 1 (width g) (advect_cell e g d0 u v d_t j) (d, j * rowSize g))) d) (fld r g)"
  proof (rule det_for_same)
    fix j d assume j: "1 \<le> j" "j \<le> height g" "fld r g d"
    have "det (\<lambda>e. for_to 1 (width g) (advect_cell e g d0 u v d_t j) (d, j * rowSize g))
      ((\<lambda>i (d, pos). fld r g d \<and> pos = i - 1 + j * rowSize g) (width g + 1))"
    proof (rule det_for)
      fix i s assume i: "1 \<le> i" "i \<le> width g" "(\<lambda>(d, pos). fld r g d \<and> pos = i - 1 + j * rowSize g) s"
      then obtain d where s: "s = (d, i - 1 + j * rowSize g)" "fld r g d" by auto
      show "det (\<lambda>e. advect_cell e g d0 u v d_t j i s) (\<lambda>(d, pos). fld r g d \<and> pos = i + 1 - 1 + j * rowSize g)"
        using advect_cell_det [OF assms(1,3-5) i(1,2) j(1,2) s(2) assms(6,7)] by (simp add: s(1))
    qed (use j rows_cols [OF assms(1)] in auto)
    then show "det (\<lambda>e. fst (for_to 1 (width g) (advect_cell e g d0 u v d_t j) (d, j * rowSize g))) (fld r g)"
      by (intro det_map [where f = fst]) (auto elim: det_weaken)
  qed (rule assms(2))
  then show ?thesis
    unfolding advect_def by (rule det_then [where G = "\<lambda>e. set_bnd e g b"]) (rule set_bnd_det [OF assms(1)])
qed

section \<open>Projection and the steps\<close>

abbreviation both :: "bool \<Rightarrow> 'g dims_scheme \<Rightarrow> jsnum list \<times> jsnum list \<Rightarrow> bool" where
  "both r g xy \<equiv> fld r g (fst xy) \<and> fld r g (snd xy)"

lemma divergence_det:
  assumes "grid g" "r \<longrightarrow> finite_num h" "fld r g u" "fld r g v" "both r g dp"
  shows "det (\<lambda>e. divergence e g h u v dp) (both r g)"
  unfolding divergence_def
proof (rule det_for_same)
  fix j s assume j: "1 \<le> j" "j \<le> height g" "both r g s"
  obtain x y where s: "s = (x, y)" by fastforce
  let ?I = "\<lambda>i (x, y, pr, pv, c, nv, nr). fld r g x \<and> fld r g y \<and> pr = i - 1 + (j - 1) * rowSize g \<and> pv = i - 2 + j * rowSize g \<and>
    c = i - 1 + j * rowSize g \<and> nv = i + j * rowSize g \<and> nr = i - 1 + (j + 1) * rowSize g"
  let ?body = "\<lambda>e i (dv, p, previousRow, prevValue, currentRow, nextValue, nextRow).
    (put e dv (currentRow + 1) (num_mul h (num_sub (num_add (num_sub (get e u (nextValue + 1)) (get e u (prevValue + 1))) (get e v (nextRow + 1)))
      (get e v (previousRow + 1)))), put e p (currentRow + 1) (num_of 0),
     previousRow + 1, prevValue + 1, currentRow + 1, nextValue + 1, nextRow + 1)"
  have "det (\<lambda>e. for_to 1 (width g) (?body e) (x, y, (j - 1) * rowSize g, j * rowSize g - 1, j * rowSize g, j * rowSize g + 1, (j + 1) * rowSize g))
      (?I (width g + 1))"
  proof (rule det_for [where I = ?I])
    fix i t assume i: "1 \<le> i" "i \<le> width g" "?I i t"
    then obtain x y where t: "t = (x, y, i - 1 + (j - 1) * rowSize g, i - 2 + j * rowSize g, i - 1 + j * rowSize g, i + j * rowSize g, i - 1 + (j + 1) * rowSize g)"
      and f: "fld r g x" "fld r g y" by auto
    note p = inside_cell [OF assms(1) i(1,2) j(1,2)]
    have e: "i - 1 + (j - 1) * rowSize g + 1 = i + (j - 1) * rowSize g" "i - 2 + j * rowSize g + 1 = i - 1 + j * rowSize g"
      "i - 1 + j * rowSize g + 1 = i + j * rowSize g" "i + j * rowSize g + 1 = i + 1 + j * rowSize g" "i - 1 + (j + 1) * rowSize g + 1 = i + (j + 1) * rowSize g"
      by simp_all
    have z: "det (\<lambda>e. num_of 0) (\<lambda>y. r \<longrightarrow> is_zero y)" by (rule det_const) simp
    obtain x' where x': "\<forall>e. put e x (i + j * rowSize g) (num_mul h (num_sub (num_add (num_sub (get e u (i + 1 + j * rowSize g)) (get e u (i - 1 + j * rowSize g)))
        (get e v (i + (j + 1) * rowSize g))) (get e v (i + (j - 1) * rowSize g)))) = x'" "fld r g x'"
      using det_put [OF f(1) p(1) det_scale(1) [OF assms(2) det_zero(2) [OF det_zero(1) [OF det_zero(2) [OF det_get [OF assms(3) p(2)] det_get [OF assms(3) p(3)]]
        det_get [OF assms(4) p(5)]] det_get [OF assms(4) p(4)]]]] unfolding det_def by blast
    obtain y' where y': "\<forall>e. put e y (i + j * rowSize g) (num_of 0) = y'" "fld r g y'"
      using det_put [OF f(2) p(1) z] unfolding det_def by blast
    show "det (\<lambda>e. ?body e i t) (?I (i + 1))"
      unfolding det_def t prod.case e using x' y' by simp
  qed (use j s rows_cols [OF assms(1)] in auto)
  then show "det (\<lambda>e. case s of (dv, p) \<Rightarrow> let row = j * rowSize g;
           (dv, p, _) = for_to 1 (width g) (?body e)
             (dv, p, (j - 1) * rowSize g, row - 1, row, row + 1, (j + 1) * rowSize g)
       in (dv, p)) (both r g)"
    unfolding s prod.case Let_def by (intro det_map [where f = "\<lambda>(x, y, _). (x, y)"]) (auto elim!: det_weaken)
qed (rule assms(5))

lemma finite_mul_of:
  assumes "1 \<le> w" "w < 1000000" "1 / 1000 \<le> r" "r \<le> 1"
  shows "finite_num (num_mul (Fin r) (num_of w))"
proof -
  have w: "(1 :: rat) \<le> of_int w" "(of_int w :: rat) \<le> 1000000" using assms(1,2) by simp_all
  have "1 / 1000 * 1 \<le> r * of_int w" "r * of_int w \<le> 1 * 1000000" using assms(3,4) w by (intro mult_mono; simp)+
  then have "1 / 2 ^ 100 \<le> \<bar>r * of_int w\<bar>" "\<bar>r * of_int w\<bar> \<le> 2 ^ 100" by simp_all
  then have "finite_num (round_double (r * of_int w))" by (rule finite_round)
  then show ?thesis using assms(3) w by (simp add: num_of_def num_rat_def signed_def)
qed

lemma subtract_gradient_det:
  assumes "grid g" "fld r g p" "both r g uv"
  shows "det (\<lambda>e. subtract_gradient e g p uv) (both r g)"
proof -
  define ws hs where "ws = num_mul half (num_of (width g))" and "hs = num_mul half (num_of (height g))"
  have sc: "r \<longrightarrow> finite_num ws" "r \<longrightarrow> finite_num hs"
    using finite_mul_of [of "width g" "1 / 2"] finite_mul_of [of "height g" "1 / 2"] assms(1) by (simp_all add: ws_def hs_def grid_def half_def)
  show ?thesis
    unfolding subtract_gradient_def ws_def [symmetric] hs_def [symmetric] Let_def [of ws] Let_def [of hs]
  proof (rule det_for_same)
    fix j s assume j: "1 \<le> j" "j \<le> height g" "both r g s"
    obtain x y where s: "s = (x, y)" by fastforce
    let ?I = "\<lambda>i (x, y, pp, cp, np, pr, nr). fld r g x \<and> fld r g y \<and> pp = i - 2 + j * rowSize g \<and> cp = i - 1 + j * rowSize g \<and>
      np = i + j * rowSize g \<and> pr = i - 1 + (j - 1) * rowSize g \<and> nr = i - 1 + (j + 1) * rowSize g"
    let ?body = "\<lambda>e i (u, v, prevPos, currentPos, nextPos, prevRow, nextRow).
       (put e u (currentPos + 1) (num_sub (get e u (currentPos + 1)) (num_mul ws (num_sub (get e p (nextPos + 1)) (get e p (prevPos + 1))))),
        put e v (currentPos + 1) (num_sub (get e v (currentPos + 1)) (num_mul hs (num_sub (get e p (nextRow + 1)) (get e p (prevRow + 1))))),
        prevPos + 1, currentPos + 1, nextPos + 1, prevRow + 1, nextRow + 1)"
    have "det (\<lambda>e. for_to 1 (width g) (?body e) (x, y, j * rowSize g - 1, j * rowSize g, j * rowSize g + 1, (j - 1) * rowSize g, (j + 1) * rowSize g))
        (?I (width g + 1))"
    proof (rule det_for [where I = ?I])
      fix i t assume i: "1 \<le> i" "i \<le> width g" "?I i t"
      then obtain x y where t: "t = (x, y, i - 2 + j * rowSize g, i - 1 + j * rowSize g, i + j * rowSize g, i - 1 + (j - 1) * rowSize g, i - 1 + (j + 1) * rowSize g)"
        and f: "fld r g x" "fld r g y" by auto
      note q = inside_cell [OF assms(1) i(1,2) j(1,2)]
      have e: "i - 1 + (j - 1) * rowSize g + 1 = i + (j - 1) * rowSize g" "i - 2 + j * rowSize g + 1 = i - 1 + j * rowSize g"
        "i - 1 + j * rowSize g + 1 = i + j * rowSize g" "i + j * rowSize g + 1 = i + 1 + j * rowSize g" "i - 1 + (j + 1) * rowSize g + 1 = i + (j + 1) * rowSize g"
        by simp_all
      obtain x' where x': "\<forall>e. put e x (i + j * rowSize g) (num_sub (get e x (i + j * rowSize g)) (num_mul ws (num_sub (get e p (i + 1 + j * rowSize g)) (get e p (i - 1 + j * rowSize g))))) = x'"
        "fld r g x'"
        using det_put [OF f(1) q(1) det_zero(2) [OF det_get [OF f(1) q(1)] det_scale(1) [OF sc(1) det_zero(2) [OF det_get [OF assms(2) q(2)] det_get [OF assms(2) q(3)]]]]]
        unfolding det_def by blast
      obtain y' where y': "\<forall>e. put e y (i + j * rowSize g) (num_sub (get e y (i + j * rowSize g)) (num_mul hs (num_sub (get e p (i + (j + 1) * rowSize g)) (get e p (i + (j - 1) * rowSize g))))) = y'"
        "fld r g y'"
        using det_put [OF f(2) q(1) det_zero(2) [OF det_get [OF f(2) q(1)] det_scale(1) [OF sc(2) det_zero(2) [OF det_get [OF assms(2) q(5)] det_get [OF assms(2) q(4)]]]]]
        unfolding det_def by blast
      show "det (\<lambda>e. ?body e i t) (?I (i + 1))"
        unfolding det_def t prod.case e using x' y' by simp
    qed (use j s rows_cols [OF assms(1)] in auto)
    then show "det (\<lambda>e. case s of (u, v) \<Rightarrow> let (u, v, _) = for_to 1 (width g) (?body e)
               (u, v, j * rowSize g - 1, j * rowSize g, j * rowSize g + 1, (j - 1) * rowSize g, (j + 1) * rowSize g)
         in (u, v)) (both r g)"
      unfolding s prod.case Let_def by (intro det_map [where f = "\<lambda>(x, y, _). (x, y)"]) (auto elim!: det_weaken)
  qed (rule assms(3))
qed

lemma det_obtain: "det F Q \<Longrightarrow> \<exists>y. (\<forall>e. F e = y) \<and> Q y"
  by (simp add: det_def)

definition quotient_ok :: "(jsnum \<Rightarrow> jsnum) \<Rightarrow> 'g dims_scheme \<Rightarrow> bool" where
  "quotient_ok msqrt g \<longleftrightarrow> finite_num (num_div (Fin (- 1 / 2)) (msqrt (num_mul (num_of (width g)) (num_of (height g)))))"

lemma quarter: "finite_num (num_div (num_of 1) (num_of 4))"
proof -
  have "finite_num (round_double (1 / 4))" by (rule finite_round) simp_all
  then show ?thesis by (simp add: num_of_def num_rat_def signed_def)
qed

definition fields4 :: "bool \<Rightarrow> 'g dims_scheme \<Rightarrow> jsnum list \<times> jsnum list \<times> jsnum list \<times> jsnum list \<Rightarrow> bool" where
  "fields4 r g = (\<lambda>(a, b, c, d). fld r g a \<and> fld r g b \<and> fld r g c \<and> fld r g d)"

lemma project_det:
  assumes "grid g" "r \<longrightarrow> quotient_ok msqrt g" "fld r g u" "fld r g v" "fld r g p" "fld r g dv"
  shows "det (\<lambda>e. project e msqrt g u v p dv) (fields4 r g)"
proof -
  define h where "h = num_div (Fin (- 1 / 2)) (msqrt (num_mul (num_of (width g)) (num_of (height g))))"
  have h: "r \<longrightarrow> finite_num h" using assms(2) by (simp add: h_def quotient_ok_def)
  obtain dp where dp: "\<forall>e. divergence e g h u v (dv, p) = dp" "both r g dp"
    using det_obtain [OF divergence_det [OF assms(1) h assms(3,4), of "(dv, p)"]] assms(5,6) by auto
  obtain dv' where dv': "\<forall>e. set_bnd e g 0 (fst dp) = dv'" "fld r g dv'" using det_obtain [OF set_bnd_det [OF assms(1), of r "fst dp"]] dp(2) by blast
  obtain p' where p': "\<forall>e. set_bnd e g 0 (snd dp) = p'" "fld r g p'" using det_obtain [OF set_bnd_det [OF assms(1), of r "snd dp"]] dp(2) by blast
  obtain q where q: "\<forall>e. lin_solve e g 0 p' dv' (num_of 1) (num_of 4) = q" "fld r g q"
    using det_obtain [OF lin_solve_det [OF assms(1) p'(2) dv'(2), of "num_of 1" "num_of 4" 0]] quarter by auto
  obtain uv where uv: "\<forall>e. subtract_gradient e g q (u, v) = uv" "both r g uv"
    using det_obtain [OF subtract_gradient_det [OF assms(1) q(2), of "(u, v)"]] assms(3,4) by auto
  obtain u' where u': "\<forall>e. set_bnd e g 1 (fst uv) = u'" "fld r g u'" using det_obtain [OF set_bnd_det [OF assms(1), of r "fst uv"]] uv(2) by blast
  obtain v' where v': "\<forall>e. set_bnd e g 2 (snd uv) = v'" "fld r g v'" using det_obtain [OF set_bnd_det [OF assms(1), of r "snd uv"]] uv(2) by blast
  have "project e msqrt g u v p dv = (u', v', q, dv')" for e
    unfolding project_def Let_def h_def [symmetric] using dp(1) dv'(1) p'(1) q(1) uv(1) u'(1) v'(1) by (cases dp; cases uv) simp
  then show ?thesis using u'(2) v'(2) q(2) dv'(2) by (simp add: det_def fields4_def)
qed

lemma finite_dt: "finite_num dt"
  unfolding dt_def by (rule finite_round) simp_all

lemma dt_near: "\<exists>r. dt = Fin r \<and> 1 / 1000 \<le> r \<and> r \<le> 1"
proof -
  obtain r where r: "round_double (1 / 10) = Fin r" "\<bar>r - 1 / 10\<bar> \<le> \<bar>1 / 10\<bar> * half_ulp" using round_double_near [of "1 / 10"] by auto
  have "half_ulp \<le> 1 / 10" by (simp add: half_ulp_def)
  then have "\<bar>r - 1 / 10\<bar> \<le> 1 / 100" using r(2) by simp
  then have "1 / 1000 \<le> r" "r \<le> 1" unfolding abs_le_iff by linarith+
  then show ?thesis using r(1) by (simp add: dt_def)
qed

lemma finite_dt_mul: "grid g \<Longrightarrow> finite_num (num_mul dt (num_of (width g)))" "grid g \<Longrightarrow> finite_num (num_mul dt (num_of (height g)))"
  using dt_near finite_mul_of [of "width g"] finite_mul_of [of "height g"] unfolding grid_def by metis+

lemma dens_step_det:
  assumes "grid g" "fld r g x" "fld r g x0" "fld r g u" "fld r g v"
  shows "det (\<lambda>e. dens_step e g x x0 u v dt) (both r g)"
proof -
  have fin: "r \<longrightarrow> finite_num dt" using finite_dt by simp
  obtain x1 where x1: "\<forall>e. addFields e g x x0 dt = x1" "fld r g x1" using det_obtain [OF addFields_det [OF assms(1-3) fin]] by blast
  obtain y where y: "\<forall>e. diffuse e g 0 x0 x1 = y" "fld r g y" using det_obtain [OF diffuse_det [OF assms(1,3) x1(2), of 0]] by blast
  obtain z where z: "\<forall>e. advect e g 0 x1 y u v dt = z" "fld r g z"
    using det_obtain [OF advect_det [OF assms(1) x1(2) y(2) assms(4,5), of dt 0]] finite_dt_mul [OF assms(1)] by blast
  have "dens_step e g x x0 u v dt = (z, y)" for e using x1(1) y(1) z(1) by (simp add: dens_step_def)
  then show ?thesis using y(2) z(2) by (simp add: det_def)
qed

lemma vel_step_det:
  assumes "grid g" "r \<longrightarrow> quotient_ok msqrt g" "fld r g u" "fld r g v" "fld r g u0" "fld r g v0"
  shows "det (\<lambda>e. vel_step e msqrt g u v u0 v0 dt) (fields4 r g)"
proof -
  have fin: "r \<longrightarrow> finite_num dt" using finite_dt by simp
  obtain u1 where u1: "\<forall>e. addFields e g u u0 dt = u1" "fld r g u1" using det_obtain [OF addFields_det [OF assms(1,3,5) fin]] by blast
  obtain v1 where v1: "\<forall>e. addFields e g v v0 dt = v1" "fld r g v1" using det_obtain [OF addFields_det [OF assms(1,4,6) fin]] by blast
  obtain uv where uv: "\<forall>e. diffuse2 e g u0 u1 v0 v1 = uv" "both r g uv"
    using det_obtain [OF diffuse2_det [OF assms(1,5) u1(2) assms(6) v1(2)]] by (auto split: prod.splits)
  obtain a b c d where p: "\<forall>e. project e msqrt g (fst uv) (snd uv) u1 v1 = (a, b, c, d)" "fields4 r g (a, b, c, d)"
    using det_obtain [OF project_det [OF assms(1,2), of "fst uv" "snd uv" u1 v1]] uv(2) u1(2) v1(2) by (metis prod_cases4)
  have f: "fld r g a" "fld r g b" "fld r g c" "fld r g d" using p(2) by (simp_all add: fields4_def)
  obtain u2 where u2: "\<forall>e. advect e g 1 c a a b dt = u2" "fld r g u2"
    using det_obtain [OF advect_det [OF assms(1) f(3,1,1,2), of dt 1]] finite_dt_mul [OF assms(1)] by blast
  obtain v2 where v2: "\<forall>e. advect e g 2 d b a b dt = v2" "fld r g v2"
    using det_obtain [OF advect_det [OF assms(1) f(4,2,1,2), of dt 2]] finite_dt_mul [OF assms(1)] by blast
  have "vel_step e msqrt g u v u0 v0 dt = project e msqrt g u2 v2 a b" for e
    using u1(1) v1(1) uv(1) p(1) u2(1) v2(1) by (cases uv) (simp add: vel_step_def Let_def)
  then show ?thesis using project_det [OF assms(1,2) u2(2) v2(2) f(1,2)] by simp
qed

end
