(* ===== verification/Navier_Correct.thy ===== *)
theory Navier_Correct
  imports Navier_Fields
begin

text \<open>
  Updates of the solver, the frames of the benchmark, and what the border of a field is after \<open>set_bnd\<close>.
\<close>

section \<open>Updates\<close>

definition view_ok :: "bool \<Rightarrow> 'g dims_scheme \<Rightarrow> view \<Rightarrow> bool" where
  "view_ok r g = (\<lambda>(d, u, v). fld r g d \<and> fld r g u \<and> fld r g v)"

definition solver_ok :: "bool \<Rightarrow> fluid \<Rightarrow> bool" where
  "solver_ok r f \<longleftrightarrow> grid f \<and> fld r f (dens f) \<and> fld r f (dens_prev f) \<and> fld r f (fu f) \<and> fld r f (u_prev f) \<and> fld r f (fv f) \<and> fld r f (v_prev f)"

text \<open>What the callback gets: fields of zeros.\<close>

definition zeros :: "'g dims_scheme \<Rightarrow> jsnum list" where
  "zeros g = replicate (nat (fsize g)) (num_of 0)"

lemma clear_field:
  assumes "grid g" "sized g d" "sized g u" "sized g v"
  shows "for_to 0 (fsize g - 1) (\<lambda>i (d, u, v). (put e d i (num_of 0), put e u i (num_of 0), put e v i (num_of 0))) (d, u, v) = (zeros g, zeros g, zeros g)"
proof -
  let ?P = "\<lambda>i x. sized g x \<and> (\<forall>k < nat i. x ! k = num_of 0)"
  let ?F = "for_to 0 (fsize g - 1) (\<lambda>i (d, u, v). (put e d i (num_of 0), put e u i (num_of 0), put e v i (num_of 0))) (d, u, v)"
  have step: "put e x i (num_of 0) = x[nat i := num_of 0] \<and> ?P (i + 1) (x[nat i := num_of 0])" if "?P i x" "0 \<le> i" "i \<le> fsize g - 1" for x i
  proof -
    have "nat i < length x" "nat (i + 1) = Suc (nat i)" using that by (auto simp: sized_def nat_less_iff)
    then show ?thesis using that by (auto simp: put_inside inside_def nth_list_update less_Suc_eq)
  qed
  have "det (\<lambda>_. ?F) ((\<lambda>i (d, u, v). ?P i d \<and> ?P i u \<and> ?P i v) (fsize g - 1 + 1))"
  proof (rule det_for [where I = "\<lambda>i (d, u, v). ?P i d \<and> ?P i u \<and> ?P i v"])
    fix i s assume i: "0 \<le> i" "i \<le> fsize g - 1" "(\<lambda>(d, u, v). ?P i d \<and> ?P i u \<and> ?P i v) s"
    then show "det (\<lambda>_. case s of (d, u, v) \<Rightarrow> (put e d i (num_of 0), put e u i (num_of 0), put e v i (num_of 0)))
      (\<lambda>(d, u, v). ?P (i + 1) d \<and> ?P (i + 1) u \<and> ?P (i + 1) v)"
      using step [of _ i] by (cases s) (simp add: det_def)
  qed (use assms in \<open>simp_all add: grid_def\<close>)
  moreover have "x = zeros g" if "?P (fsize g) x" for x
    using that by (intro nth_equalityI) (auto simp: sized_def zeros_def nat_eq_iff)
  ultimately show ?thesis by (cases ?F) (auto simp: det_def)
qed

lemma truncate_dims [simp]:
  "width (dims.truncate f) = width f" "height (dims.truncate f) = height f" "rowSize (dims.truncate f) = rowSize f"
  "fsize (dims.truncate f) = fsize f" "iterations (dims.truncate f) = iterations f"
  by (simp_all add: dims.truncate_def)

lemma truncate_ok [simp]: "grid (dims.truncate f) = grid f" "fld r (dims.truncate f) x = fld r f x" "quotient_ok msqrt (dims.truncate f) = quotient_ok msqrt f"
  by (simp_all add: grid_def fld_def sized_def quotient_ok_def)

lemma zeros_fld: "grid g \<Longrightarrow> fld r g (zeros g)"
  by (auto simp: fld_def sized_def zeros_def resting_def grid_def)

text \<open>An update keeps the fields in size, and at rest, when the callback does.\<close>

lemma update_det:
  assumes "solver_ok r f" "r \<longrightarrow> quotient_ok msqrt f"
    and "det (\<lambda>e. ui e (dims.truncate f) (zeros f, zeros f, zeros f) s) (\<lambda>(vw, s). view_ok r f vw \<and> R s)"
  shows "det (\<lambda>e. update e msqrt (ui e) (\<lambda>g x. x) f s) (\<lambda>(f', s). solver_ok r f' \<and> dims.truncate f' = dims.truncate f \<and> R s)"
proof -
  let ?g = "dims.truncate f"
  have g: "grid ?g" and f: "sized ?g (dens_prev f)" "sized ?g (u_prev f)" "sized ?g (v_prev f)" "fld r ?g (fu f)" "fld r ?g (fv f)" "fld r ?g (dens f)"
    using assms(1) by (simp_all add: solver_ok_def fld_def sized_def)
  obtain d0 u0 v0 s' where q: "\<forall>e. queryUI e ?g (ui e) (dens_prev f, u_prev f, v_prev f) s = ((d0, u0, v0), s')" "view_ok r f (d0, u0, v0)" "R s'"
  proof -
    obtain y where y: "\<forall>e. ui e ?g (zeros f, zeros f, zeros f) s = y" "view_ok r f (fst y)" "R (snd y)"
      using det_obtain [OF assms(3)] by (auto split: prod.splits)
    obtain d u v t where "y = ((d, u, v), t)" by (metis prod.collapse)
    moreover have "zeros ?g = zeros f" by (simp add: zeros_def)
    ultimately show ?thesis using that [of d u v t] y clear_field [OF g f(1-3)] by (simp add: queryUI_def)
  qed
  have w: "fld r ?g d0" "fld r ?g u0" "fld r ?g v0" using q(2) by (simp_all add: view_ok_def)
  have m: "r \<longrightarrow> quotient_ok msqrt ?g" using assms(2) by simp
  obtain a b c d where v: "\<forall>e. vel_step e msqrt ?g (fu f) (fv f) u0 v0 dt = (a, b, c, d)" "fields4 r ?g (a, b, c, d)"
    using det_obtain [OF vel_step_det [OF g m f(4,5) w(2,3)]] by (metis prod_cases4)
  have vf: "fld r ?g a" "fld r ?g b" "fld r ?g c" "fld r ?g d" using v(2) by (simp_all add: fields4_def)
  obtain x y where d: "\<forall>e. dens_step e ?g (dens f) d0 a b dt = (x, y)" "fld r ?g x" "fld r ?g y"
    using det_obtain [OF dens_step_det [OF g f(6) w(1) vf(1,2)]] by (metis prod.collapse)
  have u: "update e msqrt (ui e) (\<lambda>g x. x) f s = (f\<lparr>dens := x, dens_prev := y, fu := a, u_prev := c, fv := b, v_prev := d\<rparr>, s')" for e
    using q(1) v(1) d(1) by (simp add: update_def Let_def)
  show ?thesis unfolding det_def using u assms(1) vf d(2,3) q(3) by (simp add: solver_ok_def grid_def fld_def sized_def dims.truncate_def)
qed

section \<open>The benchmark\<close>

lemma det_field: "fld False g x \<Longrightarrow> inside g k \<Longrightarrow> det (\<lambda>e. put e x k v) (fld False g)"
  by (rule det_put [OF _ _ det_const]) simp_all

lemma setVelocity_det:
  assumes "grid g" "view_ok False g vw" "- 1 \<le> x" "x \<le> width g" "- 1 \<le> y" "y \<le> height g"
  shows "det (\<lambda>e. setVelocity e g x y a b vw) (view_ok False g)"
proof -
  obtain d u v where vw: "vw = (d, u, v)" "fld False g d" "fld False g u" "fld False g v" using assms(2) by (cases vw) (simp add: view_ok_def)
  have i: "inside g (x + 1 + (y + 1) * rowSize g)" by (rule cell_inside [OF assms(1)]) (use assms(3-6) in simp_all)
  show ?thesis using det_field [OF vw(3) i, of a] det_field [OF vw(4) i, of b] vw unfolding det_def by (auto simp: setVelocity_def view_ok_def)
qed

lemma setDensity_det:
  assumes "grid g" "view_ok False g vw" "- 1 \<le> x" "x \<le> width g" "- 1 \<le> y" "y \<le> height g"
  shows "det (\<lambda>e. setDensity e g x y a vw) (view_ok False g)"
proof -
  obtain d u v where vw: "vw = (d, u, v)" "fld False g d" "fld False g u" "fld False g v" using assms(2) by (cases vw) (simp add: view_ok_def)
  have i: "inside g (x + 1 + (y + 1) * rowSize g)" by (rule cell_inside [OF assms(1)]) (use assms(3-6) in simp_all)
  show ?thesis using det_field [OF vw(2) i, of a] vw unfolding det_def by (auto simp: setDensity_def view_ok_def)
qed

lemma addPoints_det:
  assumes "grid g" "width g = 128" "height g = 128" "view_ok False g vw"
  shows "det (\<lambda>e. addPoints e g vw) (view_ok False g)"
  unfolding addPoints_def Let_def [of "64"]
proof (rule det_for_same)
  fix i vw assume i: "1 \<le> i" "i \<le> (64 :: int)" "view_ok False g vw"
  show "det (\<lambda>e. let field = setVelocity e g i i (num_of 64) (num_of 64) vw;
              field = setDensity e g i i (num_of 5) field;
              field = setVelocity e g i (64 - i) (num_of (- 64)) (num_of (- 64)) field;
              field = setDensity e g i (64 - i) (num_of 20) field;
              field = setVelocity e g (128 - i) (64 + i) (num_of (- 64)) (num_of (- 64)) field
          in setDensity e g (128 - i) (64 + i) (num_of 30) field) (view_ok False g)"
    by (intro det_let [where Q = "view_ok False g"] setVelocity_det setDensity_det assms(1) i(3)) (use i(1,2) assms(2,3) in simp_all)
qed (rule assms(4))

definition counters :: "int \<times> int \<Rightarrow> int \<times> int" where
  "counters = (\<lambda>(till, between). if till = 0 then (between, between + 1) else (till - 1, between))"

lemma prepareFrame_det:
  assumes "grid g" "width g = 128" "height g = 128" "view_ok False g vw"
  shows "det (\<lambda>e. prepareFrame e g vw s) (\<lambda>(vw, s'). view_ok False g vw \<and> s' = counters s)"
  using addPoints_det [OF assms] assms(4) by (cases s; cases vw) (auto simp: prepareFrame_def counters_def det_def)

primrec run_frames :: "jsnum \<Rightarrow> (jsnum \<Rightarrow> jsnum) \<Rightarrow> nat \<Rightarrow> ns_page res" where
  "run_frames e msqrt 0 = setupNavierStokes ns_start"
| "run_frames e msqrt (Suc n) = rbind (run_frames e msqrt n) (runNavierStokes e msqrt)"

definition ns_dims :: dims where
  "ns_dims = \<lparr>iterations = 20, width = 128, height = 128, rowSize = 130, fsize = 16900\<rparr>"

lemma setup_page:
  "setupNavierStokes p = ok (p\<lparr>solver := Some (dims.extend ns_dims (let z = replicate 16900 (num_of 0) in \<lparr>dens = z, dens_prev = z, fu = z, u_prev = z, fv = z, v_prev = z\<rparr>))\<rparr>)"
  by (simp add: setupNavierStokes_def new_FluidField_def setResolution_def reset_fluid_def setIterations_def ns_dims_def dims.extend_def Let_def)

lemma run_frames_page:
  "\<exists>q f. (\<forall>e. run_frames e msqrt n = ok q) \<and> solver q = Some f \<and> solver_ok False f \<and> dims.truncate f = ns_dims \<and> frames q = (counters ^^ n) (0, 5)"
proof (induction n)
  case 0
  show ?case
    by (simp add: setup_page ns_start_def ns_dims_def dims.extend_def dims.truncate_def solver_ok_def grid_def fld_def sized_def Let_def)
next
  case (Suc n)
  then obtain q f where q: "\<forall>e. run_frames e msqrt n = ok q" "solver q = Some f" "solver_ok False f" "dims.truncate f = ns_dims" "frames q = (counters ^^ n) (0, 5)"
    by blast
  have wh: "width f = 128" "height f = 128" using q(4) by (simp_all add: ns_dims_def dims.truncate_def)
  have "det (\<lambda>e. prepareFrame e (dims.truncate f) (zeros f, zeros f, zeros f) (frames q)) (\<lambda>(vw, s'). view_ok False (dims.truncate f) vw \<and> s' = counters (frames q))"
    by (rule prepareFrame_det) (use q(3) wh zeros_fld [of f] in \<open>simp_all add: solver_ok_def view_ok_def\<close>)
  then have "det (\<lambda>e. prepareFrame e (dims.truncate f) (zeros f, zeros f, zeros f) (frames q)) (\<lambda>(vw, s'). view_ok False f vw \<and> s' = counters (frames q))"
    by (simp add: view_ok_def)
  from update_det [where ui = prepareFrame and R = "\<lambda>s'. s' = counters (frames q)", OF q(3) _ this, of msqrt]
  obtain f' s' where u: "\<forall>e. update e msqrt (prepareFrame e) (\<lambda>g x. x) f (frames q) = (f', s')" "solver_ok False f'" "dims.truncate f' = ns_dims" "s' = counters (frames q)"
    unfolding det_def using q(4) by auto
  have "run_frames e msqrt (Suc n) = ok (q\<lparr>solver := Some f', frames := s'\<rparr>)" for e
    using q(1,2) u(1) by (simp add: runNavierStokes_def)
  then show ?case using u(2-4) q(5) by simp
qed

lemma counters_wait: "(counters ^^ m) (int m + t, b) = (t, b)"
  if "0 \<le> t"
  using that by (induction m arbitrary: t) (simp_all add: counters_def funpow_swap1)

lemma counters_rounds: "(counters ^^ (k * (k + 11) div 2)) (0, 5) = (0, 5 + int k)"
proof (induction k)
  case (Suc k)
  have n: "Suc k * (Suc k + 11) div 2 = Suc (k + 5) + k * (k + 11) div 2" by (simp add: algebra_simps)
  have "(counters ^^ Suc (k + 5)) (0, 5 + int k) = (counters ^^ (k + 5)) (int (k + 5) + 0, 6 + int k)"
    by (simp only: funpow_Suc_right comp_apply) (simp add: counters_def algebra_simps)
  also have "\<dots> = (0, 6 + int k)" by (rule counters_wait) simp
  finally show ?case unfolding n funpow_add comp_apply Suc.IH by simp
qed simp

lemma counters_at:
  assumes "m \<le> k + 5"
  shows "(counters ^^ (k * (k + 11) div 2 + m)) (0, 5) = (if m = 0 then (0, 5 + int k) else (6 + int k - int m, 6 + int k))"
proof (cases m)
  case 0
  then show ?thesis by (simp add: counters_rounds)
next
  case (Suc j)
  have "(counters ^^ j) (int j + (5 + int k - int j), 6 + int k) = (5 + int k - int j, 6 + int k)"
    by (rule counters_wait) (use assms Suc in simp)
  then have "(counters ^^ m) (0, 5 + int k) = (5 + int k - int j, 6 + int k)"
    unfolding Suc funpow_Suc_right comp_apply by (simp add: counters_def add.commute)
  moreover have "k * (k + 11) div 2 + m = m + k * (k + 11) div 2" by simp
  ultimately have "(counters ^^ (k * (k + 11) div 2 + m)) (0, 5) = (5 + int k - int j, 6 + int k)"
    by (simp only: funpow_add comp_apply counters_rounds)
  then show ?thesis using Suc by simp
qed

text \<open>
  C16: Any number of frames of the benchmark runs after its set-up, whatever an element outside of a field counts as and whatever the
  square root returns: no procedure reads outside, and the six fields keep their size.
\<close>

theorem navier_stokes_safe:
  "\<exists>q f. (\<forall>e. run_frames e msqrt n = ok q) \<and> solver q = Some f \<and> iterations f = 20 \<and> width f = 128 \<and> height f = 128 \<and>
    map length [dens f, dens_prev f, fu f, u_prev f, fv f, v_prev f] = [16900, 16900, 16900, 16900, 16900, 16900]"
proof -
  obtain q f where q: "\<forall>e. run_frames e msqrt n = ok q" "solver q = Some f" "solver_ok False f" "dims.truncate f = ns_dims"
    using run_frames_page [of msqrt n] by blast
  have d: "iterations f = 20" "width f = 128" "height f = 128" "fsize f = 16900" using q(4) by (simp_all add: ns_dims_def dims.truncate_def)
  have l: "length x = 16900" if "fld False f x" for x
  proof -
    have "int (length x) = 16900" using that d(4) unfolding fld_def sized_def by argo
    then show ?thesis by linarith
  qed
  have "map length [dens f, dens_prev f, fu f, u_prev f, fv f, v_prev f] = [16900, 16900, 16900, 16900, 16900, 16900]"
    using q(3) unfolding solver_ok_def list.map by (simp only: l)
  then show ?thesis using q(1,2) d(1-3) by (intro exI conjI)
qed

text \<open>The callback is called once, with the counters as they are.\<close>

lemma update_callback: "(\<And>g vw. ui g vw s = ui' g vw s) \<Longrightarrow> update e msqrt ui d f s = update e msqrt ui' d f s"
  by (simp add: update_def queryUI_def)

definition next_counters :: "nat \<Rightarrow> nat \<Rightarrow> int \<times> int" where
  "next_counters k m = (5 + int k - int m, 6 + int k)"

text \<open>
  C40: The frame \<open>k * (k + 11) / 2 + m\<close> of the benchmark is an update whose callback calls \<open>addPoints\<close> if \<open>m = 0\<close> and changes
  nothing otherwise: points are added in the frames 0, 6, 13, 21 and so on, the \<open>k\<close>-th time \<open>k + 6\<close> frames before the next.
\<close>

theorem navier_stokes_schedule:
  assumes "m \<le> k + 5"
  shows "\<exists>q f. run_frames e msqrt (k * (k + 11) div 2 + m) = ok q \<and> solver q = Some f \<and>
    runNavierStokes e msqrt q =
      (let (f', s) = update e msqrt (\<lambda>g vw s. (if m = 0 then addPoints e g vw else vw, next_counters k m)) (\<lambda>g x. x) f (frames q)
       in ok (q\<lparr>solver := Some f', frames := s\<rparr>))"
proof -
  obtain q f where q: "\<forall>e. run_frames e msqrt (k * (k + 11) div 2 + m) = ok q" "solver q = Some f"
    "frames q = (if m = 0 then (0, 5 + int k) else (6 + int k - int m, 6 + int k))"
    using run_frames_page [of msqrt "k * (k + 11) div 2 + m"] counters_at [OF assms] by auto
  have "prepareFrame e g vw (frames q) = (if m = 0 then addPoints e g vw else vw, next_counters k m)" for g :: dims and vw
    using assms by (simp add: q(3) prepareFrame_def next_counters_def)
  then have "update e msqrt (prepareFrame e) (\<lambda>g x. x) f (frames q) =
      update e msqrt (\<lambda>g vw s. (if m = 0 then addPoints e g vw else vw, next_counters k m)) (\<lambda>g x. x) f (frames q)"
    by (rule update_callback)
  then show ?thesis using q(1,2) by (auto simp: runNavierStokes_def)
qed

lemma navier_stokes_schedule_witness:
  "\<exists>q f. run_frames NaN (\<lambda>x. x) 6 = ok q \<and> solver q = Some f \<and>
    runNavierStokes NaN (\<lambda>x. x) q =
      (let (f', s) = update NaN (\<lambda>x. x) (\<lambda>g vw s. (addPoints NaN g vw, next_counters 1 0)) (\<lambda>g x. x) f (frames q)
       in ok (q\<lparr>solver := Some f', frames := s\<rparr>))"
  using navier_stokes_schedule [of 0 1 NaN "\<lambda>x. x"] by simp

definition at_rest :: "fluid \<Rightarrow> bool" where
  "at_rest f \<longleftrightarrow> grid f \<and> list_all (\<lambda>x. int (length x) = fsize f \<and> list_all is_zero x) [dens f, dens_prev f, fu f, u_prev f, fv f, v_prev f]"

lemma at_rest_ok: "at_rest f \<longleftrightarrow> solver_ok True f"
  by (auto simp: at_rest_def solver_ok_def fld_def sized_def resting_def list_all_iff)

lemma quotient_finite:
  assumes "msqrt (num_mul (num_of (width g)) (num_of (height g))) = Fin y" "1 \<le> y" "y \<le> 1000000"
  shows "quotient_ok msqrt g"
proof -
  have "1 / 2 / 1000000 \<le> 1 / 2 / y" using assms(2,3) by (intro divide_left_mono) simp_all
  moreover have "1 / 2 / y \<le> 1 / 2 / 1" using assms(2) by (intro divide_left_mono) simp_all
  moreover have "\<bar>- (1 / 2) / y\<bar> = 1 / 2 / y" using assms(2) by (simp add: abs_divide)
  ultimately have "1 / 2 ^ 100 \<le> \<bar>- (1 / 2) / y\<bar>" "\<bar>- (1 / 2) / y\<bar> \<le> 2 ^ 100" by simp_all
  then have "finite_num (round_double (- (1 / 2) / y))" by (rule finite_round)
  then show ?thesis using assms(1,2) by (simp add: quotient_ok_def num_rat_def signed_def)
qed

text \<open>
  C39: A fluid at rest stays at rest: zeros of either sign in all fields remain zeros, when the callback adds nothing and the square root of
  the area is a number from 1 to a million.
\<close>

theorem update_at_rest:
  assumes "at_rest f" "msqrt (num_mul (num_of (width f)) (num_of (height f))) = Fin y" "1 \<le> y" "y \<le> 1000000"
  shows "\<exists>f'. (\<forall>e. update e msqrt (\<lambda>g vw s. (vw, s)) (\<lambda>g x. x) f s = (f', s)) \<and> at_rest f' \<and> dims.truncate f' = dims.truncate f"
proof -
  have "det (\<lambda>e. update e msqrt (\<lambda>g vw s. (vw, s)) (\<lambda>g x. x) f s) (\<lambda>(f', s'). solver_ok True f' \<and> dims.truncate f' = dims.truncate f \<and> s' = s)"
  proof (rule update_det [where ui = "\<lambda>e g vw s. (vw, s)" and R = "\<lambda>s'. s' = s"])
    show "det (\<lambda>e. ((zeros f, zeros f, zeros f), s)) (\<lambda>(vw, s'). view_ok True f vw \<and> s' = s)"
      using zeros_fld [of f] assms(1) by (intro det_const) (simp add: view_ok_def at_rest_def)
  qed (use assms(1) quotient_finite [of msqrt f y, OF assms(2-4)] in \<open>simp_all add: at_rest_ok\<close>)
  then show ?thesis by (auto simp: det_def at_rest_ok)
qed

definition small_fluid :: fluid where
  "small_fluid = (let z = replicate 9 NegZero in
    \<lparr>iterations = 10, width = 1, height = 1, rowSize = 3, fsize = 9, dens = z, dens_prev = z, fu = z, u_prev = z, fv = z, v_prev = z\<rparr>)"

lemma update_at_rest_witness:
  "\<exists>f'. (\<forall>e. update e (\<lambda>x. x) (\<lambda>g vw s. (vw, s)) (\<lambda>g x. x) small_fluid () = (f', ())) \<and> at_rest f' \<and> dims.truncate f' = dims.truncate small_fluid"
proof (rule update_at_rest [of small_fluid _ 1])
  show "at_rest small_fluid" by (simp add: at_rest_def small_fluid_def grid_def Let_def is_zero_def list_all_iff)
  show "num_mul (num_of (width small_fluid)) (num_of (height small_fluid)) = Fin 1"
    using num_mul_int [of 1 1] by (simp add: small_fluid_def Let_def exact_def num_of_def)
qed simp_all

section \<open>What the border is\<close>

definition cell :: "'g dims_scheme \<Rightarrow> jsnum list \<Rightarrow> int \<Rightarrow> int \<Rightarrow> jsnum" where
  "cell g x i j = x ! nat (i + j * rowSize g)"

definition change :: "'g dims_scheme \<Rightarrow> jsnum list \<Rightarrow> int \<Rightarrow> int \<Rightarrow> jsnum \<Rightarrow> jsnum list" where
  "change g x i j v = x[nat (i + j * rowSize g) := v]"

definition on_grid :: "'g dims_scheme \<Rightarrow> int \<Rightarrow> int \<Rightarrow> bool" where
  "on_grid g i j \<longleftrightarrow> 0 \<le> i \<and> i \<le> width g + 1 \<and> 0 \<le> j \<and> j \<le> height g + 1"

lemma get_cell: "grid g \<Longrightarrow> sized g x \<Longrightarrow> on_grid g i j \<Longrightarrow> get e x (i + j * rowSize g) = cell g x i j"
  using get_inside [OF _ cell_inside] by (auto simp: on_grid_def cell_def)

lemma put_cell: "grid g \<Longrightarrow> sized g x \<Longrightarrow> on_grid g i j \<Longrightarrow> put e x (i + j * rowSize g) v = change g x i j v"
  using put_inside [OF _ cell_inside] by (auto simp: on_grid_def change_def)

lemma sized_change [simp]: "sized g (change g x i j v) = sized g x"
  by (simp add: change_def)

lemma cell_change:
  assumes "grid g" "sized g x" "on_grid g i j" "on_grid g i' j'"
  shows "cell g (change g x i j v) i' j' = (if i' = i \<and> j' = j then v else cell g x i' j')"
proof -
  have p: "inside g (i + j * rowSize g)" "inside g (i' + j' * rowSize g)"
    using cell_inside [OF assms(1), of i j] cell_inside [OF assms(1), of i' j'] assms(3,4) by (simp_all add: on_grid_def)
  have l: "nat (i + j * rowSize g) < length x" using p(1) assms(2) by (simp add: inside_def sized_def nat_less_iff)
  have "i' = i \<and> j' = j" if "i + j * rowSize g = i' + j' * rowSize g"
  proof -
    have r: "0 \<le> i \<and> i < rowSize g" "0 \<le> i' \<and> i' < rowSize g" using assms(1,3,4) by (simp_all add: on_grid_def grid_def)
    then have "i = (i + j * rowSize g) mod rowSize g" "i' = (i' + j' * rowSize g) mod rowSize g" by simp_all
    then have "i = i'" using that by metis
    then show ?thesis using that r by auto
  qed
  moreover have "nat (i + j * rowSize g) = nat (i' + j' * rowSize g) \<longleftrightarrow> i + j * rowSize g = i' + j' * rowSize g"
    using p by (auto simp: inside_def)
  ultimately show ?thesis using l by (auto simp: cell_def change_def nth_list_update)
qed

lemma for_inv:
  assumes "a \<le> b + 1" "I a s" "\<And>i s. a \<le> i \<Longrightarrow> i \<le> b \<Longrightarrow> I i s \<Longrightarrow> I (i + 1) (body i s)"
  shows "I (b + 1) (for_to a b body s)"
  using det_for [where body = "\<lambda>e. body" and I = I, OF assms(1,2)] assms(3) by (simp add: det_def)

text \<open>The cells of a field that differs from another in the rows and columns of the border written so far.\<close>

definition rows_done :: "'g dims_scheme \<Rightarrow> bool \<Rightarrow> jsnum list \<Rightarrow> int \<Rightarrow> jsnum list \<Rightarrow> bool" where
  "rows_done g b x n y \<longleftrightarrow> sized g y \<and> (\<forall>i j. on_grid g i j \<longrightarrow> cell g y i j =
    (if 1 \<le> i \<and> i < n \<and> j = 0 then opposite b (cell g x i 1)
     else if 1 \<le> i \<and> i < n \<and> j = height g + 1 then opposite b (cell g x i (height g)) else cell g x i j))"

lemma rows_start: "sized g x \<Longrightarrow> rows_done g b x 1 x"
  by (auto simp: rows_done_def)

lemma bnd_rows_done:
  assumes g: "grid g" and x: "sized g x"
  shows "rows_done g b x (width g + 1) (bnd_rows e g b x)"
  unfolding bnd_rows_def
proof (rule for_inv)
  fix i y assume i: "1 \<le> i" "i \<le> width g" and y: "rows_done g b x i y"
  have h: "1 \<le> height g" using g by (simp add: grid_def)
  have o: "on_grid g i 0" "on_grid g i 1" "on_grid g i (height g)" "on_grid g i (height g + 1)" using i h by (simp_all add: on_grid_def)
  have s: "sized g y" using y by (simp add: rows_done_def)
  define z where "z = change g y i 0 (opposite b (cell g y i 1))"
  have "(let x = put e y i (opposite b (get e y (i + rowSize g))) in put e x (i + (height g + 1) * rowSize g) (opposite b (get e x (i + height g * rowSize g)))) =
    change g z i (height g + 1) (opposite b (cell g z i (height g)))"
    using get_cell [OF g s o(2), of e] put_cell [OF g s o(1), of e] get_cell [OF g _ o(3), of z e] put_cell [OF g _ o(4), of z e] s
    by (simp add: z_def Let_def)
  moreover have "rows_done g b x (i + 1) (change g z i (height g + 1) (opposite b (cell g z i (height g))))"
    using y o h i(1) by (auto simp: rows_done_def z_def cell_change [OF g])
  ultimately show "rows_done g b x (i + 1) (let x = put e y i (opposite b (get e y (i + rowSize g)))
      in put e x (i + (height g + 1) * rowSize g) (opposite b (get e x (i + height g * rowSize g))))" by simp
qed (use rows_start [OF x] g in \<open>simp_all add: grid_def\<close>)

definition columns_done :: "'g dims_scheme \<Rightarrow> bool \<Rightarrow> jsnum list \<Rightarrow> int \<Rightarrow> jsnum list \<Rightarrow> bool" where
  "columns_done g b x n y \<longleftrightarrow> sized g y \<and> (\<forall>i j. on_grid g i j \<longrightarrow> cell g y i j =
    (if 1 \<le> j \<and> j < n \<and> i = 0 then opposite b (cell g x 1 j)
     else if 1 \<le> j \<and> j < n \<and> i = width g + 1 then opposite b (cell g x (width g) j) else cell g x i j))"

lemma bnd_column_change:
  assumes g: "grid g" and y: "sized g y" and j: "1 \<le> j" "j \<le> height g"
  shows "bnd_column e g b j y = change g (change g y 0 j (opposite b (cell g y 1 j))) (width g + 1) j (opposite b (cell g y (width g) j))"
proof -
  have w: "1 \<le> width g" using g by (simp add: grid_def)
  have o: "on_grid g 0 j" "on_grid g 1 j" "on_grid g (width g) j" "on_grid g (width g + 1) j" using j w by (simp_all add: on_grid_def)
  define z where "z = change g y 0 j (opposite b (cell g y 1 j))"
  have "cell g z (width g) j = cell g y (width g) j" using w o y by (simp add: z_def cell_change [OF g])
  moreover have "sized g z" using y by (simp add: z_def)
  ultimately show ?thesis
    using get_cell [OF g y o(2), of e] put_cell [OF g y o(1), of e] get_cell [OF g _ o(3), of z e] put_cell [OF g _ o(4), of z e]
    by (simp add: bnd_column_def flip: z_def)
qed

lemma column_done_step:
  assumes g: "grid g" and y: "columns_done g b x n y" and j: "1 \<le> j" "j \<le> height g" "j = n \<or> n = 2 \<and> j = 1"
  shows "columns_done g b x (j + 1) (bnd_column e g b j y)"
proof -
  have s: "sized g y" using y by (simp add: columns_done_def)
  have w: "1 \<le> width g" using g by (simp add: grid_def)
  have o: "on_grid g 0 j" "on_grid g 1 j" "on_grid g (width g) j" "on_grid g (width g + 1) j" using j w by (simp_all add: on_grid_def)
  have c: "cell g y 1 j = cell g x 1 j" "cell g y (width g) j = cell g x (width g) j"
    using y o w by (auto simp: columns_done_def)
  show ?thesis
    unfolding bnd_column_change [OF g s j(1,2)] c using y o w j(1,3) by (auto simp: columns_done_def cell_change [OF g])
qed

lemma columns_start: "sized g x \<Longrightarrow> columns_done g b x 1 x"
  by (auto simp: columns_done_def)

lemma bnd_columns_done:
  assumes g: "grid g" and x: "sized g x"
  shows "columns_done g False x (height g + 1) (bnd_columns e g x)"
  unfolding bnd_columns_def
  by (rule for_inv [where I = "columns_done g False x"])
    (use x g column_done_step [OF g] columns_start in \<open>simp_all add: grid_def\<close>)

lemma bnd_columns_i_done:
  assumes g: "grid g" and x: "sized g x"
  shows "columns_done g True x (if width g < height g then 2 else 1) (bnd_columns_i e g x)"
proof (cases "width g < height g")
  case True
  have h: "1 \<le> height g" "1 \<le> width g" using g by (simp_all add: grid_def)
  have "(\<lambda>n y. columns_done g True x (if width g + 1 < n then 2 else 1) y) (height g + 1) (for_to (width g + 1) (height g) (\<lambda>i. bnd_column e g True 1) x)"
  proof (rule for_inv)
    fix i y assume "columns_done g True x (if width g + 1 < i then 2 else 1) y" and i: "width g + 1 \<le> i"
    then have "columns_done g True x (1 + 1) (bnd_column e g True 1 y)"
      using h by (intro column_done_step [OF g, of _ _ "if width g + 1 < i then 2 else 1"]) auto
    then show "columns_done g True x (if width g + 1 < i + 1 then 2 else 1) (bnd_column e g True 1 y)" using i by simp
  qed (use True columns_start [OF x] in simp_all)
  then show ?thesis using True h by (simp add: bnd_columns_i_def)
next
  case False
  then show ?thesis using columns_start [OF x] by (simp add: bnd_columns_i_def for_to_def)
qed

text \<open>The corners change nothing else.\<close>

definition same_but_corners :: "'g dims_scheme \<Rightarrow> jsnum list \<Rightarrow> jsnum list \<Rightarrow> bool" where
  "same_but_corners g x y \<longleftrightarrow> sized g y \<and>
    (\<forall>i j. on_grid g i j \<longrightarrow> \<not> ((i = 0 \<or> i = width g + 1) \<and> (j = 0 \<or> j = height g + 1)) \<longrightarrow> cell g y i j = cell g x i j)"

lemma corner_put:
  assumes "grid g" "same_but_corners g x y" "k = i + j * rowSize g" "i = 0 \<or> i = width g + 1" "j = 0 \<or> j = height g + 1"
  shows "same_but_corners g x (put e y k v)"
proof -
  have o: "on_grid g i j" using assms(1,4,5) by (auto simp: on_grid_def grid_def)
  show ?thesis using assms o by (auto simp: same_but_corners_def put_cell cell_change)
qed

lemma bnd_corners_same: "grid g \<Longrightarrow> sized g x \<Longrightarrow> same_but_corners g x (bnd_corners e g x)"
  unfolding bnd_corners_def Let_def
  by (rule corner_put [where i = "width g + 1" and j = "height g + 1"], simp, rule corner_put [where i = "width g + 1" and j = 0], simp,
      rule corner_put [where i = 0 and j = "height g + 1"], simp, rule corner_put [where i = 0 and j = 0])
    (simp_all add: same_but_corners_def)

text \<open>
  C17: The cells after \<open>set_bnd\<close>. The side walls of case 1 keep their old values, because the loop for them counts the wrong variable; on a
  grid that is higher than wide row 1 is the opposite of its neighbours.
\<close>

theorem set_bnd_cells:
  assumes "grid g" "int (length x) = fsize g" "1 \<le> i" "i \<le> width g" "1 \<le> j" "j \<le> height g"
  shows "cell g (set_bnd e g b x) i j = cell g x i j \<and>
    cell g (set_bnd e g b x) i 0 = opposite (b = 2) (cell g x i 1) \<and>
    cell g (set_bnd e g b x) i (height g + 1) = opposite (b = 2) (cell g x i (height g)) \<and>
    cell g (set_bnd e g b x) 0 j = (if b \<noteq> 1 then cell g x 1 j else if j = 1 \<and> width g < height g then num_neg (cell g x 1 j) else cell g x 0 j) \<and>
    cell g (set_bnd e g b x) (width g + 1) j =
      (if b \<noteq> 1 then cell g x (width g) j else if j = 1 \<and> width g < height g then num_neg (cell g x (width g) j) else cell g x (width g + 1) j)"
proof -
  define y where "y = bnd_rows e g (b = 2) x"
  define z where "z = (if b = 1 then bnd_columns_i e g y else bnd_columns e g y)"
  have x: "sized g x" using assms(2) by (simp add: sized_def)
  have y: "rows_done g (b = 2) x (width g + 1) y" unfolding y_def by (rule bnd_rows_done [OF assms(1) x])
  then have sy: "sized g y" by (simp add: rows_done_def)
  have z: "columns_done g (b = 1) y (if b \<noteq> 1 then height g + 1 else if width g < height g then 2 else 1) z"
    using bnd_columns_done [OF assms(1) sy, of e] bnd_columns_i_done [OF assms(1) sy, of e] by (simp add: z_def)
  then have sz: "sized g z" by (simp add: columns_done_def)
  have s: "set_bnd e g b x = bnd_corners e g z" by (simp add: set_bnd_def z_def y_def)
  have o: "on_grid g i j" "on_grid g i 0" "on_grid g i 1" "on_grid g i (height g)" "on_grid g i (height g + 1)" "on_grid g 0 j" "on_grid g 1 j" "on_grid g (width g) j"
    "on_grid g (width g + 1) j" using assms(3-6) by (simp_all add: on_grid_def)
  have c: "cell g (set_bnd e g b x) k l = cell g z k l" if "on_grid g k l" "1 \<le> k \<and> k \<le> width g \<or> 1 \<le> l \<and> l \<le> height g" for k l
    using bnd_corners_same [OF assms(1) sz, of e] that by (auto simp: same_but_corners_def s)
  have cells: "cell g (set_bnd e g b x) i j = cell g z i j" "cell g (set_bnd e g b x) i 0 = cell g z i 0"
    "cell g (set_bnd e g b x) i (height g + 1) = cell g z i (height g + 1)" "cell g (set_bnd e g b x) 0 j = cell g z 0 j"
    "cell g (set_bnd e g b x) (width g + 1) j = cell g z (width g + 1) j" using c o assms(3-6) by simp_all
  note zc = z [unfolded columns_done_def, THEN conjunct2, rule_format]
  note yc = y [unfolded rows_done_def, THEN conjunct2, rule_format]
  have ys: "cell g y 1 j = cell g x 1 j" "cell g y (width g) j = cell g x (width g) j" "cell g y 0 j = cell g x 0 j"
    "cell g y (width g + 1) j = cell g x (width g + 1) j" using assms(5,6) by (simp_all add: yc o)
  have n: "j < 2 \<longleftrightarrow> j = 1" using assms(5) by linarith
  have zs: "cell g z i j = cell g x i j" "cell g z i 0 = opposite (b = 2) (cell g x i 1)" "cell g z i (height g + 1) = opposite (b = 2) (cell g x i (height g))"
    using assms(3-6) by (simp_all add: zc yc o)
  show ?thesis
    unfolding cells zs zc [OF o(6)] zc [OF o(9)] ys using assms(3-6) n by (auto simp: opposite_def)
qed

lemma set_bnd_cells_witness:
  "cell small_fluid (set_bnd NaN small_fluid 1 (map num_of [0, 1, 2, 3, 4, 5, 6, 7, 8])) 1 0 = num_of 4 \<and>
   cell small_fluid (set_bnd NaN small_fluid 1 (map num_of [0, 1, 2, 3, 4, 5, 6, 7, 8])) 0 1 = num_of 3"
  using set_bnd_cells [of small_fluid "map num_of [0, 1, 2, 3, 4, 5, 6, 7, 8]" 1 1 NaN 1]
  by (simp add: small_fluid_def grid_def cell_def opposite_def Let_def)

end
