(* ===== verification/Spec2Isabelle.thy ===== *)
theory Spec2Isabelle
  imports Splay_Bench Richards_Run DeltaBlue_Chain Benchmark_Score Crypto_Pad Sun_Hash_Message Base64_Correct
    Sun_Small_Correct Sun_Aes_Correct Date_Tofte_Correct Date_Xparb_Roundtrip Fannkuch_Correct Navier_Correct
begin

text \<open>
  Verification of JavaScript programs of the repository: the V8 benchmark suite as adapted for value specialization
  (\<open>src/js/src/v8\<close>) and programs of the SunSpider suite (\<open>src/js/src/metrics/jint/sunspider\<close>).

  \<^bold>\<open>The parts and how they interact.\<close> \<open>v8/base.js\<close> replaces \<open>Math.random\<close> by a deterministic generator and is the framework:
  a suite is a list of benchmarks, each with a set-up, a run and a tear-down, and a continuation machine runs all suites,
  reports to a runner and computes the scores. The other files of \<open>v8\<close> register suites with it: \<open>splay.js\<close> (a splay tree and
  its client), \<open>richards.js\<close> (the dispatcher of an operating system), \<open>deltablue.js\<close> (an incremental constraint solver),
  \<open>crypto.js\<close> (big integers, RSA) and \<open>navier-stokes.js\<close> (a fluid on a grid). The SunSpider programs are independent scripts.

  \<^bold>\<open>Theories and sources.\<close>
  \<^item> \<open>Js_Prelude\<close>: errors, results, the 32-bit operators of the language, decimal strings. \<open>Js_Number\<close>: its doubles.
  \<^item> \<open>Math_Random\<close>, \<open>Benchmark_Suites\<close>: \<open>v8/base.js\<close>. The closure of \<open>Math.random\<close> is a function on its seed; the framework is a
    group of definitions on the record \<open>env\<close> (scores, events sent to the runner, the state of the program under test).
    \<open>Benchmark_Correct\<close> proves that runs end, their notifications, and that yielding to a timer changes nothing; \<open>Benchmark_Score\<close>
    reads back the scores that are shown.
  \<^item> \<open>Splay\<close>: \<open>v8/splay.js\<close> on a store of nodes (\<open>spheap\<close>) with a root pointer. \<open>Splay_Correct\<close> relates the pointers to a binary
    tree (\<open>sp_rel\<close>) and each operation to its in-order list; \<open>Splay_Bench\<close> has the interface \<open>key_store\<close> of the client, its
    interpretation on the tree, and the set-up, run and tear-down.
  \<^item> \<open>Richards\<close>: \<open>v8/richards.js\<close>, packets and control blocks in two stores. \<open>Richards_Spec\<close>: the same dispatcher on lists and flags.
    \<open>Richards_Correct\<close> proves one step of the code to be one step of it, \<open>Richards_Packets\<close> that no packet is lost, \<open>Richards_Run\<close>
    that the benchmark's run ends after 10671 rounds with the counts that the script checks.
  \<^item> \<open>DeltaBlue\<close>: \<open>v8/deltablue.js\<close>, variables and constraints in two stores, the planner with its propagation.
    \<open>DeltaBlue_Chain\<close> follows \<open>chainTest\<close> for every length of the chain.
  \<^item> \<open>Crypto_Big\<close>, \<open>Crypto_Mod\<close>, \<open>Crypto_Ext\<close>, \<open>Crypto_Num\<close>, \<open>Crypto_RSA\<close>: \<open>v8/crypto.js\<close>, one object of the store for each
    \<open>BigInteger\<close>, so that results that alias operands behave as in the code. \<open>Crypto_Value\<close> says what an object stands for;
    \<open>Crypto_Multiply\<close> has the interface \<open>multiply_add\<close> with its four interpretations \<open>am1\<close> to \<open>am4\<close>; \<open>Crypto_Square\<close> and
    \<open>Crypto_Arith\<close> have the results on numbers; \<open>Crypto_Bytes\<close> converts from and to arrays of bytes, and \<open>Crypto_Pad\<close> has the
    random generator and PKCS#1 padding.
  \<^item> \<open>Sun_Hash\<close>: \<open>crypto-sha1.js\<close>, \<open>crypto-md5.js\<close>, \<open>string-base64.js\<close>; \<open>Sun_Hash_Correct\<close> compares with FIPS 180 and RFC 1321 on
    32-bit words block by block, \<open>Sun_Hash_Message\<close> on whole texts with the padding; \<open>Base64_Correct\<close> has the round trip. \<open>Sun_Aes\<close>: \<open>crypto-aes.js\<close>; \<open>Sun_Aes_Fips\<close> and \<open>Sun_Aes_Correct\<close> compare with
    FIPS 197 on 8-bit words and prove that decryption inverts encryption.
  \<^item> \<open>Sun_Small\<close>: \<open>bitops-bits-in-byte.js\<close>, \<open>bitops-3bit-bits-in-byte.js\<close>, \<open>access-nsieve.js\<close>, \<open>bitops-nsieve-bits.js\<close>,
    \<open>controlflow-recursive.js\<close>, \<open>access-binary-trees.js\<close>; \<open>Sun_Small_Correct\<close> says what they compute.
  \<^item> \<open>Js_Value\<close>, \<open>Js_Date\<close>, \<open>Js_Regex\<close>, \<open>Js_Rounding\<close>: what the date programs use of the language: strings and numbers with \<open>+\<close>, the
    calendar of \<open>Date\<close> over a host that knows the time zone, regular expressions with their reader, the error of divisions.
  \<^item> \<open>Date_Tofte\<close>: \<open>date-format-tofte.js\<close>, one definition per letter of a format; \<open>Date_Tofte_Correct\<close> compares the week with
    ISO 8601, the day and the year with the calendar, and proves that formatting returns.
  \<^item> \<open>Date_Xparb\<close>: \<open>date-format-xparb.js\<close>, formats and parsers as the code that the program generates, over the record of its caches
    and tables. \<open>Date_Xparb_Cache\<close>: the caches show nowhere but in errors; \<open>Date_Xparb_Correct\<close>: the printed texts, against the calendar
    and the other program; \<open>Date_Xparb_Roundtrip\<close>: parsing reads back what was formatted.
  \<^item> \<open>Fannkuch\<close>: \<open>access-fannkuch.js\<close>; \<open>Fannkuch_Correct\<close>: it visits all permutations and returns the maximum number of flips.
  \<^item> \<open>Navier_Stokes\<close>: \<open>v8/navier-stokes.js\<close>, the fields as lists of doubles. \<open>Navier_Fields\<close>: its procedures stay inside of the fields,
    keep their size and keep zeros; \<open>Navier_Correct\<close>: updates, the frames of the benchmark, and the border that \<open>set_bnd\<close> makes.

  \<^bold>\<open>Conventions.\<close> Objects that the code updates in place live in an explicit store and refer to each other by index; \<open>null\<close> and
  \<open>undefined\<close> are \<open>None\<close>. A \<open>throw\<close>, a \<open>TypeError\<close> or a \<open>ReferenceError\<close> is a value \<open>Inl\<close> of the result type \<open>res\<close>. Numbers are integers
  where the program keeps them exact, with the wrap-around of the 32-bit operators written out, and \<open>jsnum\<close>, rounded rationals,
  where it computes with doubles. Strings are lists of character codes or of characters.

  \<^bold>\<open>Fuel and bounds.\<close> A loop whose end depends on its data takes fuel or is a partial function into \<open>option\<close>. The splay
  theorems hold for any fuel not below the size of the tree; \<open>schedule_loop\<close> needs one unit per round, 10671
  in all; \<open>chainTest\<close> two units more than the length of the chain. The reducers and the number theory of
  \<open>crypto.js\<close> take fuel per loop; the theorems on addition, subtraction, products, squares and comparison concern loops of
  known length. The counter mode of AES numbers blocks with 32 bits, hence its bound of \<open>16 * 2 ^ 32\<close> characters.
  SHA-1 and MD5 compute array indices with 32-bit shifts; up to \<open>2 ^ 28 - 9\<close> characters these do not wrap.
  The letter \<open>W\<close> of \<open>formatDate\<close> calls the formatter at most once more, so fuel 2 is enough; the matcher bounds a repetition by the
  length of the input, beyond which an iteration would be empty; \<open>fannkuch\<close> is proved to end up to length \<open>2 ^ 30\<close>, where its
  indices are 32-bit integers.

  \<^bold>\<open>Parameters.\<close> \<open>alert\<close>, the clock, \<open>Math.log\<close>, \<open>Math.pow\<close>, \<open>Math.sqrt\<close>, what reading outside of a field gives, the time that makes a nonce, what an uninitialized array holds, and the
  host of \<open>Date\<close> (the zone, the reading of date strings, the current time, inherited names, the document) are arguments of the definitions that use them.

  \<^bold>\<open>Not modelled.\<close> \<open>v8/earley-boyer.js\<close> (generated by a Scheme compiler) and \<open>v8/raytrace.js\<close> and the floating-point
  programs of SunSpider (no discrete specification); \<open>v8/regexp.js\<close> and \<open>regexp-dna.js\<close> (inputs for the engine's regular
  expressions); the string programs of SunSpider; the copies of the V8 programs under \<open>metrics/jint/v8\<close>, which differ by
  comments that mark loops; drivers, comparison scripts, the debugger example and the web pages (glue); the engine itself and
  everything under \<open>src/js/src\<close> that is C++, and the test suites.
\<close>

end
